(* ===== verification/Prelude.thy ===== *)
theory Prelude
  imports Main "HOL-Library.Word" "HOL-Library.Monad_Syntax"
begin

text \<open>
  Shared vocabulary of the development: the machine integer types of \<open>inc/types.h\<close>, the
  error codes of \<open>inc/error.h\<close>, the collections that the component proofs draw on and the
  generic lemmas about options, words and finite sets that several components need.

  A function of the program that can stop the machine (a \<open>panic\<close>, a failed assertion, a
  dereference of a null pointer) returns an \<open>option\<close>: \<open>None\<close> is the stop.
  A function that reports a negative error code returns a sum: \<open>Inl\<close> the error,
  \<open>Inr\<close> the value.
\<close>

unbundle bit_operations_syntax

section \<open>Machine integers\<close>

type_synonym u8 = "8 word"
type_synonym u16 = "16 word"
type_synonym u32 = "32 word"

section \<open>Error codes\<close>

datatype error =
    E_UNSPECIFIED | E_BAD_ENV | E_INVAL | E_NO_MEM | E_NO_FREE_ENV | E_IPC_NOT_RECV
  | E_NO_DISK | E_MAX_OPEN | E_NOT_FOUND | E_BAD_PATH | E_FILE_EXISTS | E_NOT_EXEC

fun errno :: "error \<Rightarrow> nat" where
  "errno E_UNSPECIFIED = 1"
| "errno E_BAD_ENV = 2"
| "errno E_INVAL = 3"
| "errno E_NO_MEM = 4"
| "errno E_NO_FREE_ENV = 5"
| "errno E_IPC_NOT_RECV = 6"
| "errno E_NO_DISK = 7"
| "errno E_MAX_OPEN = 8"
| "errno E_NOT_FOUND = 9"
| "errno E_BAD_PATH = 10"
| "errno E_FILE_EXISTS = 11"
| "errno E_NOT_EXEC = 12"

lemma errno_bounds: "1 \<le> errno e \<and> errno e \<le> 12"
  by (cases e) auto

section \<open>Collections of rules\<close>

named_theorems layout "values of the constants of the memory layout"
named_theorems frame "fields an operation leaves alone"
named_theorems word_nat "translations between words and natural numbers"

section \<open>Options\<close>

lemma bind_eq_SomeE:
  assumes "Option.bind m f = Some y"
  obtains x where "m = Some x" "f x = Some y"
  using assms by (auto simp: bind_eq_Some_conv)

lemma if_eq_Some_iff [simp]:
  "((if b then None else x) = Some y) = (\<not> b \<and> x = Some y)"
  "((if b then x else None) = Some y) = (b \<and> x = Some y)"
  by auto

section \<open>Words\<close>

lemma unat_of_nat_u32 [word_nat]: "n < 2 ^ 32 \<Longrightarrow> unat (of_nat n :: u32) = n"
  by (simp add: unat_of_nat take_bit_nat_eq_self)

lemma unat_add_one_u16: "unat (w :: u16) < 65535 \<Longrightarrow> unat (w + 1) = unat w + 1"
  by (simp add: unat_word_ariths)

lemma sint_of_nat_u32: "k < 2 ^ 31 \<Longrightarrow> sint (of_nat k :: u32) = int k"
  by (simp add: signed_of_nat signed_take_bit_int_eq_self)

lemma sint_small_u32: "unat w < 2 ^ 31 \<Longrightarrow> sint (w :: u32) = int (unat w)"
  using sint_of_nat_u32 [of "unat w"] by simp

lemma unat_sub_one_u16: "(w :: u16) \<noteq> 0 \<Longrightarrow> unat (w - 1) = unat w - 1"
  by (simp add: unat_minus_one)

section \<open>Cardinalities after the change of one element\<close>

text \<open>
  A reference count is the number of slots that hold a value. One slot changes at a time;
  these lemmas say what that does to the number of slots.
\<close>

lemma card_fun_upd_slot:
  assumes "finite S" "a \<notin> S"
  shows "card {x \<in> insert a S. (f(a := v)) x = p}
       = card {x \<in> S. f x = p} + (if v = p then 1 else 0)"
proof -
  have "{x \<in> insert a S. (f(a := v)) x = p}
      = {x \<in> S. f x = p} \<union> (if v = p then {a} else {})"
    using assms by (auto split: if_splits)
  then show ?thesis using assms by simp
qed

lemma card_remove_slot:
  assumes "finite S" "a \<in> S"
  shows "card {x \<in> S. f x = p}
       = card {x \<in> S - {a}. f x = p} + (if f a = p then 1 else 0)"
proof -
  have "{x \<in> S. f x = p} = {x \<in> S - {a}. f x = p} \<union> (if f a = p then {a} else {})"
    using assms by (auto split: if_splits)
  then show ?thesis using assms by simp
qed


section \<open>Loops over a list with a state that may stop\<close>

fun mfold :: "('a \<Rightarrow> 's \<Rightarrow> 's option) \<Rightarrow> 'a list \<Rightarrow> 's \<Rightarrow> 's option" where
  "mfold f [] s = Some s"
| "mfold f (x # xs) s = Option.bind (f x s) (mfold f xs)"

text \<open>The loop rule: an invariant that a step keeps, indexed by the elements still to come.\<close>

lemma mfold_rule:
  assumes "I xs s" "\<And>y ys t. I (y # ys) t \<Longrightarrow> \<exists>t'. f y t = Some t' \<and> I ys t'"
  shows "\<exists>s'. mfold f xs s = Some s' \<and> I [] s'"
  using assms(1)
proof (induction xs arbitrary: s)
  case Nil
  then show ?case by simp
next
  case (Cons x xs)
  from assms(2) [OF Cons.prems] obtain t where "f x s = Some t" "I xs t" by blast
  then show ?case using Cons.IH [of t] by simp
qed

lemma mfold_append: "mfold f (xs @ ys) s = Option.bind (mfold f xs s) (mfold f ys)"
  by (induction xs arbitrary: s) (auto split: bind_split)

section \<open>Searching a list\<close>

lemma find_append: "find P (xs @ ys) = (case find P xs of None \<Rightarrow> find P ys | Some x \<Rightarrow> Some x)"
  by (induction xs) auto

lemma find_upt_first: "find P [a..<b] = Some x \<Longrightarrow> a \<le> x \<and> x < b \<and> P x \<and> (\<forall>y. a \<le> y \<and> y < x \<longrightarrow> \<not> P y)"
proof -
  assume "find P [a..<b] = Some x"
  then obtain i where i: "i < length [a..<b]" "P ([a..<b] ! i)" "x = [a..<b] ! i"
      "\<forall>j < i. \<not> P ([a..<b] ! j)"
    by (auto simp: find_Some_iff)
  have "\<not> P y" if "a \<le> y" "y < x" for y
  proof -
    have "y - a < i" "[a..<b] ! (y - a) = y" using that i by auto
    then show ?thesis using i(4) by metis
  qed
  then show ?thesis using i by auto
qed

lemma find_upt_None: "find P [a..<b] = None \<longleftrightarrow> (\<forall>y. a \<le> y \<and> y < b \<longrightarrow> \<not> P y)"
  by (auto simp: find_None_iff)

lemma find_lt_None: "find P [0..<n] = None \<longleftrightarrow> (\<forall>i < n. \<not> P i)"
  by (simp add: find_upt_None)

lemma find_lt_Some: "find P [0..<n] = Some i \<Longrightarrow> i < n \<and> P i"
  by (auto dest: find_upt_first)

lemma find_lt_first: "(\<And>i. i < k \<Longrightarrow> \<not> P i) \<Longrightarrow> P k \<Longrightarrow> k < n \<Longrightarrow> find P [0..<n] = Some k"
  by (auto simp: find_Some_iff intro!: exI [of _ k])

end
