(* ===== verification/Mmu.thy ===== *)
theory Mmu
  imports Prelude
begin

text \<open>
  The memory layout of \<open>inc/mmu.h\<close> and the rounding macros of \<open>inc/types.h\<close>:
  the fields of a virtual address, the flags of a page table entry, the constants of the
  virtual memory map, and segment and gate descriptors.
\<close>

unbundle bit_operations_syntax

section \<open>Addresses\<close>

definition PDX :: "u32 \<Rightarrow> u32" where
  "PDX va = drop_bit 22 va AND 0x3FF"

definition PTX :: "u32 \<Rightarrow> u32" where
  "PTX va = drop_bit 12 va AND 0x3FF"

definition PPN :: "u32 \<Rightarrow> u32" where
  "PPN va = drop_bit 12 va"

definition VPN :: "u32 \<Rightarrow> u32" where
  "VPN va = PPN va"

definition PGOFF :: "u32 \<Rightarrow> u32" where
  "PGOFF va = va AND 0xFFF"

definition PTE_ADDR :: "u32 \<Rightarrow> u32" where
  "PTE_ADDR pte = pte AND NOT 0xFFF"

definition ROUND :: "u32 \<Rightarrow> u32 \<Rightarrow> u32" where
  "ROUND a n = (a + n - 1) AND NOT (n - 1)"

definition ROUNDDOWN :: "u32 \<Rightarrow> u32 \<Rightarrow> u32" where
  "ROUNDDOWN a n = a AND NOT (n - 1)"

section \<open>Constants\<close>

definition PDE2PD :: nat where "PDE2PD = 1024"
definition PTE2PT :: nat where "PTE2PT = 1024"
definition BY2PG :: u32 where "BY2PG = 4096"
definition PGSHIFT :: nat where "PGSHIFT = 12"
definition PDMAP :: u32 where "PDMAP = 4 * 1024 * 1024"
definition PDSHIFT :: nat where "PDSHIFT = 22"
definition IOPHYSMEM :: u32 where "IOPHYSMEM = 0xa0000"
definition EXTPHYSMEM :: u32 where "EXTPHYSMEM = 0x100000"

definition PTE_P :: u32 where "PTE_P = 0x001"
definition PTE_W :: u32 where "PTE_W = 0x002"
definition PTE_U :: u32 where "PTE_U = 0x004"
definition PTE_D :: u32 where "PTE_D = 0x040"
definition PTE_AVAIL :: u32 where "PTE_AVAIL = 0xe00"
definition PTE_USER :: u32 where "PTE_USER = 0xe07"

text \<open>The bit of \<open>user/lib.h\<close> that marks a page as shared between environments.\<close>

definition PTE_LIBRARY :: u32 where "PTE_LIBRARY = 0x400"

definition FL_IF :: u32 where "FL_IF = 0x200"
definition FL_IOPL0 :: u32 where "FL_IOPL0 = 0x1000"
definition FL_IOPL1 :: u32 where "FL_IOPL1 = 0x2000"
definition FEC_WR :: u32 where "FEC_WR = 0x2"

definition GD_KT :: u32 where "GD_KT = 0x08"
definition GD_KD :: u32 where "GD_KD = 0x10"
definition GD_UT :: u32 where "GD_UT = 0x18"
definition GD_UD :: u32 where "GD_UD = 0x20"
definition GD_TSS :: u32 where "GD_TSS = 0x28"

definition KERNBASE :: u32 where "KERNBASE = 0xf0000000"
definition VPT :: u32 where "VPT = KERNBASE - PDMAP"
definition KSTACKTOP :: u32 where "KSTACKTOP = VPT"
definition KSTKSIZE :: u32 where "KSTKSIZE = 8 * BY2PG"
definition ULIM :: u32 where "ULIM = KSTACKTOP - PDMAP"
definition UVPT :: u32 where "UVPT = ULIM - PDMAP"
definition UPAGES :: u32 where "UPAGES = UVPT - PDMAP"
definition UENVS :: u32 where "UENVS = UPAGES - PDMAP"
definition UTOP :: u32 where "UTOP = UENVS"
definition UXSTACKTOP :: u32 where "UXSTACKTOP = UTOP"
definition USTACKTOP :: u32 where "USTACKTOP = UTOP - 2 * BY2PG"
definition UTEXT :: u32 where "UTEXT = 2 * PDMAP"

text \<open>The page directory slots below \<open>UTOP\<close> belong to the environment.\<close>

definition user_slots :: nat where "user_slots = unat (PDX UTOP)"

lemmas pte_flags = PTE_P_def PTE_W_def PTE_U_def PTE_D_def PTE_AVAIL_def PTE_USER_def

lemma layout_values [layout]:
  "VPT = 0xefc00000" "KSTACKTOP = 0xefc00000" "ULIM = 0xef800000" "UVPT = 0xef400000"
  "UPAGES = 0xef000000" "UENVS = 0xeec00000" "UTOP = 0xeec00000" "UXSTACKTOP = 0xeec00000"
  "USTACKTOP = 0xeebfe000" "UTEXT = 0x800000" "KERNBASE = 0xf0000000" "BY2PG = 4096"
  "PDMAP = 0x400000"
  by (simp_all add: VPT_def KSTACKTOP_def ULIM_def UVPT_def UPAGES_def UENVS_def UTOP_def
      UXSTACKTOP_def USTACKTOP_def UTEXT_def KERNBASE_def BY2PG_def PDMAP_def)

lemma user_slots_value [layout]: "user_slots = 955"
  by (simp add: user_slots_def PDX_def layout)

section \<open>Translations that \<open>TRUP\<close> makes\<close>

definition TRUP :: "u32 \<Rightarrow> u32" where
  "TRUP p = (if p > ULIM then ULIM else p)"

lemma TRUP_le_ULIM: "TRUP p \<le> ULIM"
  by (auto simp: TRUP_def)

section \<open>Field lemmas\<close>

lemma mask10: "(0x3FF :: u32) = mask 10" and mask12: "(0xFFF :: u32) = mask 12"
  by (simp_all add: mask_eq_exp_minus_1)

lemma bit_PDX: "bit (PDX va) n \<longleftrightarrow> n < 10 \<and> bit va (22 + n)"
  by (auto simp: PDX_def mask10 bit_simps)

lemma bit_PTX: "bit (PTX va) n \<longleftrightarrow> n < 10 \<and> bit va (12 + n)"
  by (auto simp: PTX_def mask10 bit_simps)

lemma bit_PPN: "bit (PPN va) n \<longleftrightarrow> bit va (12 + n)"
  by (auto simp: PPN_def bit_simps)

lemma bit_PTE_ADDR: "bit (PTE_ADDR w) n \<longleftrightarrow> 12 \<le> n \<and> bit w n"
  by (auto simp: PTE_ADDR_def mask12 bit_simps dest: bit_imp_le_length)

lemma PDX_PTX_VPN: "PDX a = PDX b \<and> PTX a = PTX b \<longleftrightarrow> VPN a = VPN b"
proof
  assume h: "PDX a = PDX b \<and> PTX a = PTX b"
  show "VPN a = VPN b"
  proof (rule bit_word_eqI)
    fix n :: nat
    assume "n < LENGTH(32)"
    show "bit (VPN a) n = bit (VPN b) n"
    proof (cases "n < 10")
      case True
      from h have "bit (PTX a) n = bit (PTX b) n" by simp
      with True show ?thesis by (simp add: bit_PTX bit_PPN VPN_def)
    next
      case ge: False
      show ?thesis
      proof (cases "n < 20")
        case True
        from h have "bit (PDX a) (n - 10) = bit (PDX b) (n - 10)" by simp
        moreover from ge True have "n - 10 < 10" by arith
        ultimately show ?thesis using ge by (simp add: bit_PDX bit_PPN VPN_def)
      next
        case False
        then show ?thesis by (auto simp: bit_PPN VPN_def dest: bit_imp_le_length)
      qed
    qed
  qed
next
  assume h: "VPN a = VPN b"
  have "bit a (12 + n) = bit b (12 + n)" for n
    using h by (metis VPN_def bit_PPN)
  then have e: "bit a m = bit b m" if "12 \<le> m" for m
    using that by (metis le_Suc_ex)
  show "PDX a = PDX b \<and> PTX a = PTX b"
    by (auto intro!: bit_word_eqI simp: bit_PDX bit_PTX e)
qed

lemma unat_PDX_less: "unat (PDX va) < 1024"
  using take_bit_nat_less_exp [of 10]
  by (simp add: PDX_def mask10 flip: take_bit_eq_mask) (simp add: unsigned_take_bit_eq)

lemma unat_PTX_less: "unat (PTX va) < 1024"
  using take_bit_nat_less_exp [of 10]
  by (simp add: PTX_def mask10 flip: take_bit_eq_mask) (simp add: unsigned_take_bit_eq)

text \<open>Clearing the low twelve bits.\<close>

lemma unat_page_start: "unat (v AND NOT (0xFFF :: u32)) = unat v div 4096 * 4096"
proof -
  have "drop_bit 12 (v AND NOT 0xFFF) = drop_bit 12 v"
    by (rule bit_word_eqI) (auto simp: mask12 bit_simps dest: bit_imp_le_length)
  then have "unat (v AND NOT 0xFFF) div 2 ^ 12 = unat v div 2 ^ 12"
    by (metis unat_drop_bit_eq drop_bit_eq_div)
  moreover have "take_bit 12 (v AND NOT 0xFFF) = 0"
    by (rule bit_word_eqI) (auto simp: mask12 bit_simps)
  then have "unat (v AND NOT 0xFFF) mod 2 ^ 12 = 0"
    by (metis unsigned_take_bit_eq unsigned_0 take_bit_eq_mod)
  ultimately show ?thesis
    using div_mult_mod_eq [of "unat (v AND NOT 0xFFF)" 4096] by simp
qed

end
