(* ===== verification/Queue.thy ===== *)
theory Queue
  imports Prelude
begin

text \<open>
  The \<open>LIST\<close> macros of \<open>inc/queue.h\<close>: a doubly linked list whose links live in
  the elements. An element is the index of its structure in its array (\<open>pages\<close> or
  \<open>envs\<close>). \<open>le_prev\<close> holds the address of the pointer that points to the
  element, which is either the list head or the \<open>le_next\<close> field of another element;
  \<open>None\<close> is the null pointer.

  The locale \<open>linked_list\<close> is the contract that the page and environment allocators rely
  on; the macros are its interpretation.
\<close>

section \<open>The macros\<close>

datatype lslot = HeadSlot | NextOf nat

record qlist =
  lh_first :: "nat option"
  le_next :: "nat \<Rightarrow> nat option"
  le_prev :: "nat \<Rightarrow> lslot option"

definition LIST_EMPTY :: "qlist \<Rightarrow> bool" where
  "LIST_EMPTY q = (lh_first q = None)"

definition LIST_FIRST :: "qlist \<Rightarrow> nat option" where
  "LIST_FIRST q = lh_first q"

definition LIST_INIT :: "qlist \<Rightarrow> qlist" where
  "LIST_INIT q = q\<lparr>lh_first := None\<rparr>"

definition LIST_NEXT :: "qlist \<Rightarrow> nat \<Rightarrow> nat option" where
  "LIST_NEXT q e = le_next q e"

definition set_prev :: "qlist \<Rightarrow> nat option \<Rightarrow> lslot option \<Rightarrow> qlist" where
  "set_prev q target l = (case target of None \<Rightarrow> q | Some n \<Rightarrow> q\<lparr>le_prev := (le_prev q)(n := l)\<rparr>)"

definition LIST_INSERT_HEAD :: "qlist \<Rightarrow> nat \<Rightarrow> qlist" where
  "LIST_INSERT_HEAD q e =
     (let q1 = q\<lparr>le_next := (le_next q)(e := LIST_FIRST q)\<rparr>;
          q2 = set_prev q1 (LIST_FIRST q1) (Some (NextOf e));
          q3 = q2\<lparr>lh_first := Some e\<rparr>
      in q3\<lparr>le_prev := (le_prev q3)(e := Some HeadSlot)\<rparr>)"

definition LIST_INSERT_AFTER :: "qlist \<Rightarrow> nat \<Rightarrow> nat \<Rightarrow> qlist" where
  "LIST_INSERT_AFTER q l e =
     (let q1 = q\<lparr>le_next := (le_next q)(e := LIST_NEXT q l)\<rparr>;
          q2 = set_prev q1 (LIST_NEXT q1 l) (Some (NextOf e));
          q3 = q2\<lparr>le_next := (le_next q2)(l := Some e)\<rparr>
      in q3\<lparr>le_prev := (le_prev q3)(e := Some (NextOf l))\<rparr>)"

text \<open>The store \<open>*(elm)->field.le_prev = v\<close>: a null \<open>le_prev\<close> faults.\<close>

definition store_slot :: "qlist \<Rightarrow> lslot option \<Rightarrow> nat option \<Rightarrow> qlist option" where
  "store_slot q l v =
     (case l of
        None \<Rightarrow> None
      | Some HeadSlot \<Rightarrow> Some (q\<lparr>lh_first := v\<rparr>)
      | Some (NextOf x) \<Rightarrow> Some (q\<lparr>le_next := (le_next q)(x := v)\<rparr>))"

definition LIST_INSERT_BEFORE :: "qlist \<Rightarrow> nat \<Rightarrow> nat \<Rightarrow> qlist option" where
  "LIST_INSERT_BEFORE q l e =
     do {
       let q1 = q\<lparr>le_prev := (le_prev q)(e := le_prev q l)\<rparr>;
       let q2 = q1\<lparr>le_next := (le_next q1)(e := Some l)\<rparr>;
       q3 \<leftarrow> store_slot q2 (le_prev q2 l) (Some e);
       Some (q3\<lparr>le_prev := (le_prev q3)(l := Some (NextOf e))\<rparr>)
     }"

definition LIST_REMOVE :: "qlist \<Rightarrow> nat \<Rightarrow> qlist option" where
  "LIST_REMOVE q e =
     (let q1 = set_prev q (LIST_NEXT q e) (le_prev q e)
      in store_slot q1 (le_prev q1 e) (LIST_NEXT q1 e))"

text \<open>The effect of \<open>bzero\<close> on the link fields of an element.\<close>

definition clear_link :: "qlist \<Rightarrow> nat \<Rightarrow> qlist" where
  "clear_link q e = q\<lparr>le_next := (le_next q)(e := None), le_prev := (le_prev q)(e := None)\<rparr>"

section \<open>The list a structure represents\<close>

primrec chain :: "qlist \<Rightarrow> lslot \<Rightarrow> nat option \<Rightarrow> nat list \<Rightarrow> nat option \<Rightarrow> bool" where
  "chain q l p [] r = (p = r)"
| "chain q l p (x # xs) r =
     (p = Some x \<and> le_prev q x = Some l \<and> chain q (NextOf x) (le_next q x) xs r)"

definition list_repr :: "qlist \<Rightarrow> nat list \<Rightarrow> bool" where
  "list_repr q xs = (chain q HeadSlot (lh_first q) xs None \<and> distinct xs)"

text \<open>The last pointer of a segment: what points to the element after it.\<close>

fun last_slot :: "lslot \<Rightarrow> nat list \<Rightarrow> lslot" where
  "last_slot l [] = l"
| "last_slot l (x # xs) = last_slot (NextOf x) xs"

lemma last_slot_snoc [simp]: "last_slot l (xs @ [x]) = NextOf x"
  by (induction xs arbitrary: l) auto

lemma last_slot_cases: "last_slot l xs = (if xs = [] then l else NextOf (last xs))"
  by (induction xs arbitrary: l) auto

lemma last_slot_fresh:
  assumes "y \<notin> set xs"
  shows "NextOf y \<noteq> last_slot HeadSlot xs"
  using assms by (cases xs rule: rev_cases) auto

lemma chain_append:
  "chain q l p (xs @ ys) r \<longleftrightarrow> (\<exists>m. chain q l p xs m \<and> chain q (last_slot l xs) m ys r)"
  by (induction xs arbitrary: l p) auto

lemma chain_cong:
  assumes "chain q l p xs r"
    and "\<And>x. x \<in> set xs \<Longrightarrow> le_next q' x = le_next q x"
    and "\<And>x. x \<in> set xs \<Longrightarrow> le_prev q' x = le_prev q x"
  shows "chain q' l p xs r"
  using assms by (induction xs arbitrary: l p) auto

text \<open>The end of a segment is redirected by one store.\<close>

lemma chain_redirect:
  assumes "chain q l p xs m" "xs \<noteq> []" "distinct xs"
    and "\<And>x. x \<in> set xs \<Longrightarrow> le_prev q' x = le_prev q x"
    and "\<And>x. x \<in> set xs \<Longrightarrow> le_next q' x = (if x = last xs then r else le_next q x)"
  shows "chain q' l p xs r"
  using assms
proof (induction xs arbitrary: l p)
  case Nil
  then show ?case by simp
next
  case (Cons x xs)
  then show ?case by (cases "xs = []") (auto split: if_splits)
qed

lemma list_repr_unique: "list_repr q xs \<Longrightarrow> list_repr q ys \<Longrightarrow> xs = ys"
proof -
  have "chain q l p xs None \<Longrightarrow> chain q l p ys None \<Longrightarrow> xs = ys" for l p
  proof (induction xs arbitrary: l p ys)
    case Nil
    then show ?case by (cases ys) auto
  next
    case (Cons x xs)
    then show ?case by (cases ys) auto
  qed
  then show "list_repr q xs \<Longrightarrow> list_repr q ys \<Longrightarrow> xs = ys"
    by (auto simp: list_repr_def)
qed

lemma list_repr_first: "list_repr q xs \<Longrightarrow> LIST_FIRST q = (case xs of [] \<Rightarrow> None | x # _ \<Rightarrow> Some x)"
  by (cases xs) (auto simp: list_repr_def LIST_FIRST_def)

lemma list_repr_empty: "list_repr q xs \<Longrightarrow> LIST_EMPTY q = (xs = [])"
  by (cases xs) (auto simp: list_repr_def LIST_EMPTY_def)

lemma list_repr_init: "list_repr (LIST_INIT q) []"
  by (simp add: list_repr_def LIST_INIT_def)

lemma list_repr_distinct: "list_repr q xs \<Longrightarrow> distinct xs"
  by (simp add: list_repr_def)

lemma list_repr_insert_head:
  assumes r: "list_repr q xs" and e: "e \<notin> set xs"
  shows "list_repr (LIST_INSERT_HEAD q e) (e # xs)"
proof (cases xs)
  case Nil
  with r show ?thesis
    by (simp add: list_repr_def LIST_INSERT_HEAD_def set_prev_def LIST_FIRST_def)
next
  case (Cons x ys)
  with r have c: "chain q (NextOf x) (le_next q x) ys None" and d: "distinct (x # ys)"
    and f: "lh_first q = Some x"
    by (auto simp: list_repr_def)
  let ?q = "LIST_INSERT_HEAD q e"
  have n: "le_next ?q y = (if y = e then Some x else le_next q y)" for y
    by (simp add: LIST_INSERT_HEAD_def set_prev_def LIST_FIRST_def f Let_def)
  have p: "le_prev ?q y = (if y = e then Some HeadSlot else if y = x then Some (NextOf e)
      else le_prev q y)" for y
    by (simp add: LIST_INSERT_HEAD_def set_prev_def LIST_FIRST_def f Let_def)
  have h: "lh_first ?q = Some e"
    by (simp add: LIST_INSERT_HEAD_def Let_def)
  have "chain ?q (NextOf x) (le_next q x) ys None"
    by (rule chain_cong [OF c]) (use d e Cons in \<open>auto simp: n p\<close>)
  then show ?thesis
    using d e Cons by (auto simp: list_repr_def h n p)
qed

text \<open>A removal as one description of the fields it writes.\<close>

lemma LIST_REMOVE_fields:
  assumes "le_prev q x = Some l" "le_next q x \<noteq> Some x"
  shows "\<exists>q'. LIST_REMOVE q x = Some q'
    \<and> (\<forall>y. le_prev q' y = (if Some y = le_next q x then Some l else le_prev q y))
    \<and> (\<forall>y. le_next q' y = (if NextOf y = l then le_next q x else le_next q y))
    \<and> lh_first q' = (if l = HeadSlot then le_next q x else lh_first q)"
  using assms
  by (cases l; cases "le_next q x")
     (auto simp: LIST_REMOVE_def set_prev_def store_slot_def LIST_NEXT_def Let_def)

lemma list_repr_remove:
  assumes r: "list_repr q (xs @ x # ys)"
  shows "\<exists>q'. LIST_REMOVE q x = Some q' \<and> list_repr q' (xs @ ys)"
proof -
  let ?l = "last_slot HeadSlot xs"
  from r have d: "distinct (xs @ x # ys)"
    and c: "chain q HeadSlot (lh_first q) (xs @ x # ys) None" by (auto simp: list_repr_def)
  from c have c1: "chain q HeadSlot (lh_first q) xs (Some x)" and pv: "le_prev q x = Some ?l"
    and c2: "chain q (NextOf x) (le_next q x) ys None"
    by (auto simp: chain_append)
  have nx: "le_next q x = (case ys of [] \<Rightarrow> None | y # _ \<Rightarrow> Some y)"
    using c2 by (cases ys) auto
  then have "le_next q x \<noteq> Some x" using d by (auto split: list.splits)
  from LIST_REMOVE_fields [OF pv this] obtain q' where q': "LIST_REMOVE q x = Some q'"
    and p: "\<And>y. le_prev q' y = (if Some y = le_next q x then Some ?l else le_prev q y)"
    and n: "\<And>y. le_next q' y = (if NextOf y = ?l then le_next q x else le_next q y)"
    and h: "lh_first q' = (if ?l = HeadSlot then le_next q x else lh_first q)"
    by blast
  have not_l: "NextOf y \<noteq> ?l" if "y \<in> set ys" for y
    using that d by (intro last_slot_fresh) auto
  have tail: "chain q' ?l (le_next q x) ys None"
  proof (cases ys)
    case Nil
    then show ?thesis using nx by simp
  next
    case (Cons y zs)
    have "chain q' (NextOf y) (le_next q y) zs None"
      by (rule chain_cong [of q])
         (use c2 d Cons not_l in \<open>auto simp: p n nx\<close>)
    then show ?thesis
      using Cons nx not_l by (auto simp: p n)
  qed
  have "chain q' HeadSlot (lh_first q') xs (le_next q x)"
  proof (cases "xs = []")
    case True
    then show ?thesis using h by simp
  next
    case False
    then have "lh_first q' = lh_first q" using h by (simp add: last_slot_cases)
    moreover have "chain q' HeadSlot (lh_first q) xs (le_next q x)"
      by (rule chain_redirect [OF c1 False])
         (use d False nx in \<open>auto simp: p n last_slot_cases split: list.splits\<close>)
    ultimately show ?thesis by simp
  qed
  with tail have "chain q' HeadSlot (lh_first q') (xs @ ys) None"
    by (auto simp: chain_append)
  with q' d show ?thesis by (auto simp: list_repr_def)
qed

lemma list_repr_clear_link: "list_repr q xs \<Longrightarrow> e \<notin> set xs \<Longrightarrow> list_repr (clear_link q e) xs"
  by (auto simp: list_repr_def clear_link_def elim!: chain_cong)

section \<open>The interface of the allocators\<close>

locale linked_list =
  fixes first :: "'q \<Rightarrow> nat option"
    and insert_head :: "'q \<Rightarrow> nat \<Rightarrow> 'q"
    and remove :: "'q \<Rightarrow> nat \<Rightarrow> 'q option"
    and clear :: "'q \<Rightarrow> nat \<Rightarrow> 'q"
    and initial :: "'q \<Rightarrow> 'q"
    and repr :: "'q \<Rightarrow> nat list \<Rightarrow> bool"
  assumes first: "repr q xs \<Longrightarrow> first q = (case xs of [] \<Rightarrow> None | x # _ \<Rightarrow> Some x)"
    and insert_head: "repr q xs \<Longrightarrow> e \<notin> set xs \<Longrightarrow> repr (insert_head q e) (e # xs)"
    and remove: "repr q (xs @ x # ys) \<Longrightarrow> \<exists>q'. remove q x = Some q' \<and> repr q' (xs @ ys)"
    and clear: "repr q xs \<Longrightarrow> e \<notin> set xs \<Longrightarrow> repr (clear q e) xs"
    and initial: "repr (initial q) []"
    and distinct: "repr q xs \<Longrightarrow> distinct xs"
    and unique: "repr q xs \<Longrightarrow> repr q ys \<Longrightarrow> xs = ys"
begin

lemma first_None_iff: "repr q xs \<Longrightarrow> first q = None \<longleftrightarrow> xs = []"
  by (cases xs) (auto dest: first)

lemma first_SomeE:
  assumes "repr q xs" "first q = Some x"
  obtains ys where "xs = x # ys" "x \<notin> set ys"
proof (cases xs)
  case Nil
  with first [OF assms(1)] assms(2) show ?thesis by simp
next
  case (Cons y ys)
  with first [OF assms(1)] assms(2) distinct [OF assms(1)] show ?thesis
    using that by simp
qed

lemma take_first:
  assumes "repr q (x # xs)"
  shows "\<exists>q'. remove q x = Some q' \<and> repr q' xs"
  using remove [of q "[]" x xs] assms by simp

lemma put_take:
  assumes "repr q xs" "e \<notin> set xs"
  shows "first (insert_head (clear q e) e) = Some e
    \<and> (\<exists>q'. remove (insert_head (clear q e) e) e = Some q' \<and> repr q' xs)"
proof -
  have r: "repr (insert_head (clear q e) e) (e # xs)"
    using assms by (simp add: clear insert_head)
  show ?thesis using first [OF r] take_first [OF r] by simp
qed

lemma insert_all:
  assumes "repr q xs" "distinct es" "set es \<inter> set xs = {}"
  shows "repr (fold (\<lambda>e q. insert_head q e) es q) (rev es @ xs)"
  using assms
proof (induction es arbitrary: q xs)
  case Nil
  then show ?case by simp
next
  case (Cons e es)
  have "repr (insert_head q e) (e # xs)"
    using Cons.prems by (intro insert_head) auto
  moreover have "set es \<inter> set (e # xs) = {}" "distinct es"
    using Cons.prems by auto
  ultimately have "repr (fold (\<lambda>e q. insert_head q e) es (insert_head q e)) (rev es @ (e # xs))"
    by (intro Cons.IH)
  then show ?case by simp
qed

end

interpretation qm: linked_list LIST_FIRST LIST_INSERT_HEAD LIST_REMOVE clear_link LIST_INIT list_repr
  by unfold_locales
     (auto intro: list_repr_first list_repr_insert_head list_repr_remove list_repr_clear_link
        list_repr_init list_repr_distinct list_repr_unique)

section \<open>The other insertions\<close>

lemma list_repr_insert_after:
  assumes r: "list_repr q (xs @ x # ys)" and e: "e \<notin> set (xs @ x # ys)"
  shows "list_repr (LIST_INSERT_AFTER q x e) (xs @ x # e # ys)"
proof -
  let ?q = "LIST_INSERT_AFTER q x e"
  from r have d: "distinct (xs @ x # ys)"
    and c: "chain q HeadSlot (lh_first q) (xs @ x # ys) None" by (auto simp: list_repr_def)
  from c have c1: "chain q HeadSlot (lh_first q) xs (Some x)"
    and px: "le_prev q x = Some (last_slot HeadSlot xs)"
    and c2: "chain q (NextOf x) (le_next q x) ys None"
    by (auto simp: chain_append)
  have xe: "x \<noteq> e" using e by auto
  have nx: "le_next q x = (case ys of [] \<Rightarrow> None | y # _ \<Rightarrow> Some y)"
    using c2 by (cases ys) auto
  have n: "le_next ?q y = (if y = x then Some e else if y = e then le_next q x else le_next q y)" for y
    using xe by (auto simp: LIST_INSERT_AFTER_def LIST_NEXT_def set_prev_def Let_def split: option.splits)
  have pv: "le_prev ?q y = (if y = e then Some (NextOf x)
      else if le_next q x = Some y then Some (NextOf e) else le_prev q y)" for y
    using xe by (auto simp: LIST_INSERT_AFTER_def LIST_NEXT_def set_prev_def Let_def split: option.splits)
  have h: "lh_first ?q = lh_first q"
    by (auto simp: LIST_INSERT_AFTER_def set_prev_def Let_def split: option.splits)
  have front: "chain ?q HeadSlot (lh_first ?q) xs (Some x)"
    unfolding h by (rule chain_cong [OF c1]) (use d e nx in \<open>auto simp: n pv split: list.splits\<close>)
  have rest: "chain ?q (NextOf e) (le_next q x) ys None"
  proof (cases ys)
    case Nil
    with nx show ?thesis by simp
  next
    case (Cons y zs)
    have "chain ?q (NextOf y) (le_next q y) zs None"
      by (rule chain_cong [of q]) (use c2 d e Cons in \<open>auto simp: n pv\<close>)
    then show ?thesis using d e Cons nx by (auto simp: n pv)
  qed
  have "le_prev ?q x = Some (last_slot HeadSlot xs)"
    using px xe nx d by (auto simp: pv split: list.splits)
  with front rest xe have "chain ?q HeadSlot (lh_first ?q) (xs @ x # e # ys) None"
    by (auto simp: chain_append n pv)
  then show ?thesis using d e by (auto simp: list_repr_def)
qed

lemma list_repr_insert_before:
  assumes r: "list_repr q (xs @ x # ys)" and e: "e \<notin> set (xs @ x # ys)"
  shows "\<exists>q'. LIST_INSERT_BEFORE q x e = Some q' \<and> list_repr q' (xs @ e # x # ys)"
proof -
  let ?l = "last_slot HeadSlot xs"
  from r have d: "distinct (xs @ x # ys)"
    and c: "chain q HeadSlot (lh_first q) (xs @ x # ys) None" by (auto simp: list_repr_def)
  from c have c1: "chain q HeadSlot (lh_first q) xs (Some x)"
    and px: "le_prev q x = Some ?l"
    and c2: "chain q (NextOf x) (le_next q x) ys None"
    by (auto simp: chain_append)
  have xe: "x \<noteq> e" "e \<noteq> x" and el: "?l \<noteq> NextOf e" and xl: "?l \<noteq> NextOf x"
    using e d by (auto simp: last_slot_cases)
  from px xe obtain q' where q': "LIST_INSERT_BEFORE q x e = Some q'"
    and n: "\<And>y. le_next q' y = (if NextOf y = ?l then Some e else if y = e then Some x else le_next q y)"
    and pv: "\<And>y. le_prev q' y = (if y = x then Some (NextOf e) else if y = e then Some ?l else le_prev q y)"
    and h: "lh_first q' = (if ?l = HeadSlot then Some e else lh_first q)"
    by (cases ?l) (auto simp: LIST_INSERT_BEFORE_def store_slot_def Let_def)
  have not_l: "NextOf y \<noteq> ?l" if "y \<in> set ys" for y
    using that d by (intro last_slot_fresh) auto
  have rest: "chain q' (NextOf x) (le_next q x) ys None"
    by (rule chain_cong [OF c2]) (use d e not_l in \<open>auto simp: n pv\<close>)
  have front: "chain q' HeadSlot (lh_first q') xs (Some e)"
  proof (cases "xs = []")
    case True
    then show ?thesis using h by simp
  next
    case False
    then have "lh_first q' = lh_first q" using h by (simp add: last_slot_cases)
    moreover have "chain q' HeadSlot (lh_first q) xs (Some e)"
      by (rule chain_redirect [OF c1 False])
         (use d e False in \<open>auto simp: n pv last_slot_cases\<close>)
    ultimately show ?thesis by simp
  qed
  from front rest el xl xe have "chain q' HeadSlot (lh_first q') (xs @ e # x # ys) None"
    by (auto simp: chain_append n pv)
  with q' d e show ?thesis by (auto simp: list_repr_def)
qed

end
