(* ===== verification/Console.thy ===== *)
theory Console
  imports Prelude
begin

text \<open>
  The console input buffer of \<open>kern/console.c\<close>: the ring that \<open>cons_intr\<close> fills
  from a device and \<open>cons_getc\<close> drains. The read and write positions are \<open>u_int\<close>s
  that stay below \<open>BY2CONS\<close>; equal positions mean an empty ring.
\<close>

unbundle bit_operations_syntax

definition BY2CONS :: nat where "BY2CONS = 512"

record consbuf =
  cbuf :: "nat \<Rightarrow> u8"
  rpos :: nat
  wpos :: nat

text \<open>The store of one character: the last three statements of the loop of \<open>cons_intr\<close>.\<close>

definition cons_put :: "consbuf \<Rightarrow> u8 \<Rightarrow> consbuf" where
  "cons_put c ch =
     (let c1 = c\<lparr>cbuf := (cbuf c)(wpos c := ch), wpos := wpos c + 1\<rparr>
      in if wpos c1 = BY2CONS then c1\<lparr>wpos := 0\<rparr> else c1)"

definition cons_getc :: "consbuf \<Rightarrow> u32 \<times> consbuf" where
  "cons_getc c =
     (if rpos c \<noteq> wpos c
      then let ch = cbuf c (rpos c);
               c1 = c\<lparr>rpos := rpos c + 1\<rparr>;
               c2 = (if rpos c1 = BY2CONS then c1\<lparr>rpos := 0\<rparr> else c1)
           in (ucast ch, c2)
      else (0, c))"

section \<open>The queue the ring represents\<close>

definition cons_wf :: "consbuf \<Rightarrow> bool" where
  "cons_wf c \<longleftrightarrow> rpos c < BY2CONS \<and> wpos c < BY2CONS"

definition cons_size :: "consbuf \<Rightarrow> nat" where
  "cons_size c = (wpos c + BY2CONS - rpos c) mod BY2CONS"

definition cons_list :: "consbuf \<Rightarrow> u8 list" where
  "cons_list c = map (\<lambda>k. cbuf c ((rpos c + k) mod BY2CONS)) [0..<cons_size c]"

lemma cons_put_wf: "cons_wf c \<Longrightarrow> cons_wf (cons_put c ch)"
  by (auto simp: cons_wf_def cons_put_def Let_def BY2CONS_def)

lemma cons_getc_wf: "cons_wf c \<Longrightarrow> cons_wf (snd (cons_getc c))"
  by (auto simp: cons_wf_def cons_getc_def Let_def BY2CONS_def)

lemma cons_put_fields:
  assumes "cons_wf c"
  shows "cbuf (cons_put c ch) = (cbuf c)(wpos c := ch)" "rpos (cons_put c ch) = rpos c"
    "wpos (cons_put c ch) = (wpos c + 1) mod BY2CONS"
  using assms by (auto simp: cons_put_def cons_wf_def Let_def BY2CONS_def)

lemma cons_size_alt:
  "cons_wf c \<Longrightarrow> cons_size c = (if rpos c \<le> wpos c then wpos c - rpos c else wpos c + BY2CONS - rpos c)"
  by (auto simp: cons_wf_def cons_size_def BY2CONS_def le_mod_geq)

lemma cons_size_put:
  assumes "cons_wf c" "cons_size c < BY2CONS - 1"
  shows "cons_size (cons_put c ch) = cons_size c + 1"
proof (cases "wpos c + 1 = BY2CONS")
  case True
  then show ?thesis
    using assms cons_put_wf [OF assms(1), of ch]
    by (auto simp: cons_size_alt cons_put_fields cons_wf_def BY2CONS_def split: if_splits)
next
  case False
  then have "(wpos c + 1) mod BY2CONS = wpos c + 1"
    using assms(1) by (simp add: cons_wf_def)
  then show ?thesis
    using assms cons_put_wf [OF assms(1), of ch]
    by (auto simp: cons_size_alt cons_put_fields cons_wf_def BY2CONS_def split: if_splits)
qed

lemma ring_mod: "r < n \<Longrightarrow> k \<le> n \<Longrightarrow> (r + k) mod n = (if r + k < n then r + k else r + k - (n::nat))"
  by (simp add: le_mod_geq)

lemma cons_size_less: "cons_size c < BY2CONS"
  by (simp add: cons_size_def BY2CONS_def)

lemma ring_index:
  assumes "cons_wf c"
  shows "(rpos c + cons_size c) mod BY2CONS = wpos c"
  using assms by (auto simp: cons_size_alt cons_wf_def)

lemma ring_index_fresh:
  assumes "cons_wf c" "k < cons_size c"
  shows "(rpos c + k) mod BY2CONS \<noteq> wpos c"
  using assms cons_size_less [of c]
  by (auto simp: cons_size_alt cons_wf_def ring_mod split: if_splits)

text \<open>A character stored in a ring that is not full is appended to the queue.\<close>

lemma cons_list_put:
  assumes "cons_wf c" "cons_size c < BY2CONS - 1"
  shows "cons_list (cons_put c ch) = cons_list c @ [ch]"
proof -
  have "cons_list (cons_put c ch)
      = map (\<lambda>k. ((cbuf c)(wpos c := ch)) ((rpos c + k) mod BY2CONS)) [0..<cons_size c] @ [ch]"
    using ring_index [OF assms(1)]
    by (simp add: cons_list_def cons_size_put [OF assms] cons_put_fields [OF assms(1)])
  also have "\<dots> = cons_list c @ [ch]"
    using ring_index_fresh [OF assms(1)] by (simp add: cons_list_def)
  finally show ?thesis .
qed

text \<open>A character stored in a ring that holds 511 characters empties it.\<close>

lemma cons_list_put_full:
  assumes "cons_wf c" "cons_size c = BY2CONS - 1"
  shows "cons_list (cons_put c ch) = []"
proof -
  have "wpos (cons_put c ch) = rpos (cons_put c ch)"
  proof (cases "wpos c + 1 = BY2CONS")
    case True
    with assms show ?thesis
      by (auto simp: cons_put_fields cons_size_alt cons_wf_def BY2CONS_def split: if_splits)
  next
    case False
    with assms have "(wpos c + 1) mod BY2CONS = wpos c + 1" by (simp add: cons_wf_def)
    with assms False show ?thesis
      by (auto simp: cons_put_fields cons_size_alt cons_wf_def BY2CONS_def split: if_splits)
  qed
  then show ?thesis by (simp add: cons_list_def cons_size_def)
qed

lemma cons_getc_empty: "cons_wf c \<Longrightarrow> cons_list c = [] \<Longrightarrow> cons_getc c = (0, c)"
  by (auto simp: cons_list_def cons_getc_def cons_size_alt cons_wf_def split: if_splits)

lemma cons_getc_fields:
  assumes "cons_wf c" "cons_list c \<noteq> []"
  shows "fst (cons_getc c) = ucast (cbuf c (rpos c))" "cbuf (snd (cons_getc c)) = cbuf c"
    "wpos (snd (cons_getc c)) = wpos c" "rpos (snd (cons_getc c)) = (rpos c + 1) mod BY2CONS"
  using assms by (auto simp: cons_list_def cons_getc_def cons_size_def cons_wf_def Let_def BY2CONS_def)

lemma cons_getc_list:
  assumes "cons_wf c" "cons_list c = ch # cs"
  shows "fst (cons_getc c) = ucast ch \<and> cons_list (snd (cons_getc c)) = cs"
proof -
  let ?c = "snd (cons_getc c)"
  have ne: "cons_list c \<noteq> []" using assms(2) by simp
  note f = cons_getc_fields [OF assms(1) ne]
  have sz: "cons_size c = Suc (length cs)"
    using arg_cong [OF assms(2), of length] by (simp add: cons_list_def)
  have nth: "cbuf c ((rpos c + k) mod BY2CONS) = (ch # cs) ! k" if "k < Suc (length cs)" for k
  proof -
    have "(ch # cs) ! k = cons_list c ! k" by (simp only: assms(2))
    then show ?thesis using that sz by (simp add: cons_list_def del: upt_Suc)
  qed
  have ch: "cbuf c (rpos c) = ch"
    using nth [of 0] assms(1) by (simp add: cons_wf_def)
  have sz': "cons_size ?c = length cs"
  proof (cases "rpos c + 1 = BY2CONS")
    case True
    then show ?thesis using sz assms(1) cons_getc_wf [OF assms(1)] f
      by (auto simp: cons_size_alt cons_wf_def BY2CONS_def split: if_splits)
  next
    case False
    then have "(rpos c + 1) mod BY2CONS = rpos c + 1" using assms(1) by (simp add: cons_wf_def)
    then show ?thesis using False sz assms(1) cons_getc_wf [OF assms(1)] f
      by (auto simp: cons_size_alt cons_wf_def BY2CONS_def split: if_splits)
  qed
  have e: "cbuf ?c ((rpos ?c + k) mod BY2CONS) = cs ! k" if "k < length cs" for k
  proof -
    have "((rpos c + 1) mod BY2CONS + k) mod BY2CONS = (rpos c + 1 + k) mod BY2CONS"
      by (rule mod_add_left_eq)
    then have i: "(rpos ?c + k) mod BY2CONS = (rpos c + Suc k) mod BY2CONS"
      unfolding f(4) by (simp only: add.assoc add.commute [of 1 k] Suc_eq_plus1)
    have "cbuf ?c ((rpos ?c + k) mod BY2CONS) = cbuf c ((rpos c + Suc k) mod BY2CONS)"
      by (simp only: f(2) i)
    also have "\<dots> = (ch # cs) ! Suc k"
      by (rule nth) (use that in simp)
    finally show ?thesis by (simp only: nth_Cons_Suc)
  qed
  have "cons_list ?c = cs"
  proof (rule nth_equalityI)
    show "length (cons_list ?c) = length cs" by (simp add: cons_list_def sz')
    show "cons_list ?c ! k = cs ! k" if "k < length (cons_list ?c)" for k
      using that e by (simp add: cons_list_def sz' del: upt_Suc)
  qed
  then show ?thesis using f ch by simp
qed


section \<open>The keyboard\<close>

text \<open>
  The scan code tables, as the C character codes; the entries after the last one listed
  are 0, as in the C arrays. \<open>C('/')\<close> is negative: \<open>char\<close> is signed.
\<close>

definition normalmap :: "int list" where
  "normalmap =
    [0, 27, 49, 50, 51, 52, 53, 54, 55, 56, 57, 48, 45, 61, 8, 9, 113, 119, 101, 114, 116,
    121, 117, 105, 111, 112, 91, 93, 10, 0, 97, 115, 100, 102, 103, 104, 106, 107, 108, 59,
    39, 96, 0, 92, 122, 120, 99, 118, 98, 110, 109, 44, 46, 47, 0, 42, 0, 32, 0, 0, 0, 0, 0,
    0, 0, 0, 0, 0, 0, 0, 0, 55, 56, 57, 45, 52, 53, 54, 43, 49, 50, 51, 48, 46]"

definition shiftmap :: "int list" where
  "shiftmap =
    [0, 27, 33, 64, 35, 36, 37, 94, 38, 42, 40, 41, 95, 43, 8, 9, 81, 87, 69, 82, 84, 89,
    85, 73, 79, 80, 123, 125, 10, 0, 65, 83, 68, 70, 71, 72, 74, 75, 76, 59, 34, 126, 0,
    124, 90, 88, 67, 86, 66, 78, 77, 60, 62, 63, 0, 42, 0, 32, 0, 0, 0, 0, 0, 0, 0, 0, 0, 0,
    0, 0, 0, 55, 56, 57, 45, 52, 53, 54, 43, 49, 50, 51, 48, 46]"

definition ctlmap :: "int list" where
  "ctlmap =
    [0, 0, 0, 0, 0, 0, 0, 0, 0, 0, 0, 0, 0, 0, 0, 0, 17, 23, 5, 18, 20, 25, 21, 9, 15, 16,
    0, 0, 13, 0, 1, 19, 4, 6, 7, 8, 10, 11, 12, 0, 0, 0, 0, 28, 26, 24, 3, 22, 2, 14, 13, 0,
    0, -17, 0, 0]"

definition entry :: "int list \<Rightarrow> nat \<Rightarrow> int" where
  "entry t i = (if i < length t then t ! i else 0)"

definition SHIFT :: u32 where "SHIFT = 1"
definition CTL :: u32 where "CTL = 2"
definition ALT :: u32 where "ALT = 4"
definition CAPSLOCK :: u32 where "CAPSLOCK = 8"
definition NUMLOCK :: u32 where "NUMLOCK = 16"
definition SCROLLOCK :: u32 where "SCROLLOCK = 32"

lemmas kbd_flags = SHIFT_def CTL_def ALT_def CAPSLOCK_def NUMLOCK_def SCROLLOCK_def

definition shiftcode :: "nat \<Rightarrow> u32" where
  "shiftcode i = (if i = 29 then CTL else if i = 42 \<or> i = 54 then SHIFT else if i = 56 then ALT else 0)"

definition togglecode :: "nat \<Rightarrow> u32" where
  "togglecode i =
     (if i = 58 then CAPSLOCK else if i = 69 then NUMLOCK else if i = 70 then SCROLLOCK else 0)"

definition charcode :: "u32 \<Rightarrow> int list" where
  "charcode sh = (if sh = 0 then normalmap else if sh = 1 then shiftmap else ctlmap)"

definition caps :: "int \<Rightarrow> int" where
  "caps c = (if 97 \<le> c \<and> c \<le> 122 then c + (65 - 97)
             else if 65 \<le> c \<and> c \<le> 90 then c + (97 - 65) else c)"

text \<open>One scan code: the character, 0 for none, and the new shift state.\<close>

definition kbd_proc_data :: "u32 \<Rightarrow> u8 \<Rightarrow> int \<times> u32" where
  "kbd_proc_data shift data =
     (if data AND 0x80 \<noteq> 0 then (0, shift AND NOT (shiftcode (unat (data AND NOT 0x80))))
      else
        let shift1 = shift OR shiftcode (unat data);
            shift2 = shift1 XOR togglecode (unat data);
            c = entry (charcode (shift2 AND (CTL OR SHIFT))) (unat data)
        in (if shift2 AND CAPSLOCK \<noteq> 0 then caps c else c, shift2))"

text \<open>The characters of a sequence of scan codes.\<close>

fun kbd_chars :: "u32 \<Rightarrow> u8 list \<Rightarrow> int list \<times> u32" where
  "kbd_chars shift [] = ([], shift)"
| "kbd_chars shift (d # ds) =
     (let (c, shift1) = kbd_proc_data shift d; (cs, shift2) = kbd_chars shift1 ds
      in (c # cs, shift2))"

lemma caps_caps: "caps (caps c) = c"
  by (simp add: caps_def)

text \<open>A key that is neither a shift nor a lock leaves the state alone.\<close>

lemma kbd_plain_key:
  assumes "shiftcode (unat (d AND NOT 0x80)) = 0" "togglecode (unat (d AND NOT 0x80)) = 0"
  shows "snd (kbd_proc_data sh d) = sh"
proof -
  have "d AND 0x80 = 0 \<Longrightarrow> d AND NOT 0x80 = d"
  proof -
    assume z: "d AND 0x80 = 0"
    have "d = (d AND 0x80) OR (d AND NOT 0x80)"
      by (rule bit_word_eqI) (auto simp only: bit_or_iff bit_and_iff bit_not_iff possible_bit_word)
    then show ?thesis by (simp only: z or.left_neutral)
  qed
  then show ?thesis using assms by (auto simp: kbd_proc_data_def Let_def)
qed

end
