(* ===== verification/Kstate.thy ===== *)
theory Kstate
  imports Mmu Queue Console
begin

text \<open>
  The state of the kernel as one record: the variables of \<open>kern/pmap.c\<close>,
  \<open>kern/env.c\<close>, \<open>kern/trap.c\<close> and \<open>kern/console.c\<close>, physical memory, and
  the parts of the processor that the kernel sets.

  A pointer to \<open>struct Page\<close> or \<open>struct Env\<close> is its index in \<open>pages\<close> or
  \<open>envs\<close>. A kernel virtual address of the window at \<open>KERNBASE\<close>, such as a
  \<open>Pde *\<close>, is the number of the physical page it maps; a \<open>Pte *\<close> is that number and
  an index. Physical memory is read and written in words, and in bytes through
  \<open>get_byte\<close> and \<open>put_byte\<close>.
\<close>

unbundle bit_operations_syntax

section \<open>Structures\<close>

record trapframe =
  tf_edi :: u32
  tf_esi :: u32
  tf_ebp :: u32
  tf_oesp :: u32
  tf_ebx :: u32
  tf_edx :: u32
  tf_ecx :: u32
  tf_eax :: u32
  tf_es :: u16
  tf_ds :: u16
  tf_trapno :: u32
  tf_err :: u32
  tf_eip :: u32
  tf_cs :: u16
  tf_eflags :: u32
  tf_esp :: u32
  tf_ss :: u16

definition LOG2NENV :: nat where "LOG2NENV = 10"
definition NENV :: nat where "NENV = 1024"

definition ENVX :: "u32 \<Rightarrow> u32" where
  "ENVX envid = envid AND (1024 - 1)"

definition ENV_FREE :: u32 where "ENV_FREE = 0"
definition ENV_RUNNABLE :: u32 where "ENV_RUNNABLE = 1"
definition ENV_NOT_RUNNABLE :: u32 where "ENV_NOT_RUNNABLE = 2"

lemmas env_states = ENV_FREE_def ENV_RUNNABLE_def ENV_NOT_RUNNABLE_def

record env =
  env_tf :: trapframe
  env_id :: u32
  env_parent_id :: u32
  env_status :: u32
  env_pgdir :: "nat option"
  env_cr3 :: u32
  env_ipc_value :: u32
  env_ipc_from :: u32
  env_ipc_recving :: u32
  env_ipc_dstva :: u32
  env_ipc_perm :: u32
  env_pgfault_handler :: u32
  env_xstacktop :: u32
  env_runs :: u32

text \<open>An entry of the table, and a list, in cleared memory.\<close>

definition zero_tf :: trapframe where
  "zero_tf =
     \<lparr>tf_edi = 0, tf_esi = 0, tf_ebp = 0, tf_oesp = 0, tf_ebx = 0, tf_edx = 0, tf_ecx = 0,
      tf_eax = 0, tf_es = 0, tf_ds = 0, tf_trapno = 0, tf_err = 0, tf_eip = 0, tf_cs = 0,
      tf_eflags = 0, tf_esp = 0, tf_ss = 0\<rparr>"

definition zero_env :: env where
  "zero_env =
     \<lparr>env_tf = zero_tf, env_id = 0, env_parent_id = 0, env_status = 0, env_pgdir = None,
      env_cr3 = 0, env_ipc_value = 0, env_ipc_from = 0, env_ipc_recving = 0, env_ipc_dstva = 0,
      env_ipc_perm = 0, env_pgfault_handler = 0, env_xstacktop = 0, env_runs = 0\<rparr>"

definition nil_queue :: qlist where
  "nil_queue = \<lparr>lh_first = None, le_next = (\<lambda>_. None), le_prev = (\<lambda>_. None)\<rparr>"

text \<open>A line the kernel prints: the format and its arguments.\<close>

datatype kmsg = Msg string "u32 list"

definition PFM_NONE :: u32 where "PFM_NONE = 0"
definition PFM_KILL :: u32 where "PFM_KILL = 1"

type_synonym physmem = "nat \<Rightarrow> nat \<Rightarrow> u32"

record kstate =
  npage :: nat
  phys :: physmem
  pp_ref :: "nat \<Rightarrow> u16"
  page_free_list :: qlist
  boot_pgdir :: nat
  envs :: "nat \<Rightarrow> env"
  env_free_list :: qlist
  curenv :: "nat option"
  next_env_id :: u32
  cr3 :: u32
  utf :: trapframe
  page_fault_mode :: u32
  invlpgs :: "u32 list"
  cons :: consbuf
  kbd_shift :: u32
  color :: u32
  klog :: "kmsg list"

section \<open>Access\<close>

definition kprintf_msg :: "string \<Rightarrow> u32 list \<Rightarrow> kstate \<Rightarrow> kstate" where
  "kprintf_msg f args s = s\<lparr>klog := klog s @ [Msg f args]\<rparr>"

definition set_phys :: "kstate \<Rightarrow> nat \<Rightarrow> nat \<Rightarrow> u32 \<Rightarrow> kstate" where
  "set_phys s t j w = s\<lparr>phys := (phys s)(t := (phys s t)(j := w))\<rparr>"

definition bzero_page :: "kstate \<Rightarrow> nat \<Rightarrow> kstate" where
  "bzero_page s t = s\<lparr>phys := (phys s)(t := (\<lambda>_. 0))\<rparr>"

definition upd_env :: "kstate \<Rightarrow> nat \<Rightarrow> (env \<Rightarrow> env) \<Rightarrow> kstate" where
  "upd_env s e f = s\<lparr>envs := (envs s)(e := f (envs s e))\<rparr>"

text \<open>The frame a page table entry names.\<close>

definition frame_of :: "u32 \<Rightarrow> nat" where
  "frame_of w = unat (PPN w)"

definition present :: "u32 \<Rightarrow> bool" where
  "present w \<longleftrightarrow> w AND PTE_P \<noteq> 0"

definition pdx :: "u32 \<Rightarrow> nat" where "pdx va = unat (PDX va)"
definition ptx :: "u32 \<Rightarrow> nat" where "ptx va = unat (PTX va)"

section \<open>Entries\<close>

lemma present_bit: "present w \<longleftrightarrow> bit w 0"
proof -
  have "w AND 1 = of_bool (odd w)"
    by (simp only: and_one_eq mod_2_eq_odd)
  then show ?thesis by (simp only: present_def PTE_P_def bit_0) auto
qed

lemma present_zero [simp]: "\<not> present 0"
  by (simp add: present_bit)

lemma frame_of_div: "frame_of w = unat w div 2 ^ 12"
  by (simp only: frame_of_def PPN_def unat_drop_bit_eq) (simp only: drop_bit_eq_div)

lemma frame_of_less: "frame_of w < 2 ^ 20"
  using unsigned_less [of w, where ?'a = nat] by (simp add: frame_of_div)

lemma frame_of_zero [simp]: "frame_of 0 = 0"
  by (simp add: frame_of_div)

definition page2pa :: "nat \<Rightarrow> u32" where
  "page2pa pp = push_bit PGSHIFT (of_nat pp)"

text \<open>An entry built from a page and permission bits names that page, if the bits are low.\<close>

definition low_bits :: "u32 \<Rightarrow> bool" where
  "low_bits perm \<longleftrightarrow> perm AND NOT 0xFFF = 0"

lemma low_bits_bit: "low_bits perm \<Longrightarrow> 12 \<le> n \<Longrightarrow> \<not> bit perm n"
proof -
  assume "low_bits perm" "12 \<le> n"
  then have "\<not> bit (perm AND NOT 0xFFF) n" by (simp add: low_bits_def)
  then show ?thesis
    using \<open>12 \<le> n\<close> by (auto simp: mask12 bit_simps dest: bit_imp_le_length)
qed

lemma frame_of_entry:
  assumes "p < 2 ^ 20" "low_bits perm"
  shows "frame_of (page2pa p OR perm OR PTE_P) = p" "present (page2pa p OR perm OR PTE_P)"
proof -
  have "PPN (page2pa p OR perm OR PTE_P) = of_nat p"
  proof (rule bit_word_eqI)
    fix n :: nat
    assume n: "n < LENGTH(32)"
    have "\<not> bit (of_nat p :: u32) n" if "20 \<le> n"
    proof -
      have "\<not> bit p n"
        using assms(1) that
        by (metis bit_take_bit_iff not_less take_bit_nat_eq_self)
      then show ?thesis by (simp add: bit_simps)
    qed
    moreover have "n < 20 \<Longrightarrow> 12 + n < 32" by simp
    ultimately show "bit (PPN (page2pa p OR perm OR PTE_P)) n = bit (of_nat p :: u32) n"
      using low_bits_bit [OF assms(2), of "12 + n"] n
      by (cases "n < 20") (auto simp: bit_PPN page2pa_def PTE_P_def PGSHIFT_def bit_simps)
  qed
  then show "frame_of (page2pa p OR perm OR PTE_P) = p"
    using assms(1) by (simp add: frame_of_def word_nat)
  show "present (page2pa p OR perm OR PTE_P)"
    by (simp add: present_bit PTE_P_def bit_simps)
qed

lemma frame_of_PTE_ADDR [simp]: "frame_of (PTE_ADDR w) = frame_of w"
proof -
  have "PPN (PTE_ADDR w) = PPN w"
    by (rule bit_word_eqI) (simp add: bit_PPN bit_PTE_ADDR)
  then show ?thesis by (simp add: frame_of_def)
qed

lemma frame_of_page2pa: "p < 2 ^ 20 \<Longrightarrow> frame_of (page2pa p) = p"
proof -
  assume p: "p < 2 ^ 20"
  have "PTE_ADDR (page2pa p OR 0 OR PTE_P) = PTE_ADDR (page2pa p)"
    by (rule bit_word_eqI) (auto simp: bit_PTE_ADDR PTE_P_def bit_simps)
  then have "frame_of (page2pa p OR 0 OR PTE_P) = frame_of (page2pa p)"
    by (metis frame_of_PTE_ADDR)
  then show ?thesis using frame_of_entry(1) [OF p, of 0] by (simp add: low_bits_def)
qed

lemma pdx_less: "pdx va < 1024" and ptx_less: "ptx va < 1024"
  by (simp_all add: pdx_def ptx_def unat_PDX_less unat_PTX_less)

lemma pdx_ptx_VPN: "pdx a = pdx b \<and> ptx a = ptx b \<longleftrightarrow> VPN a = VPN b"
  by (simp add: pdx_def ptx_def flip: PDX_PTX_VPN word_eq_iff_unsigned [where ?'a = nat])

lemma pdx_div: "pdx va = unat va div 2 ^ 22"
proof -
  have "unat va < 2 ^ 32" using unsigned_less [of va, where ?'a = nat] by simp
  then have "unat va div 2 ^ 22 < 1024" by simp
  moreover have "pdx va = take_bit 10 (drop_bit 22 (unat va))"
    by (simp only: pdx_def PDX_def mask10 unsigned_take_bit_eq unat_drop_bit_eq
        flip: take_bit_eq_mask)
  ultimately show ?thesis by (simp add: drop_bit_eq_div take_bit_eq_mod)
qed

lemma pdx_user: "va < UTOP \<Longrightarrow> pdx va < user_slots"
  by (simp add: layout word_less_nat_alt pdx_div)

section \<open>Frame facts of the access functions\<close>

lemma kprintf_msg_frame [frame, simp]:
  "phys (kprintf_msg f a s) = phys s" "pp_ref (kprintf_msg f a s) = pp_ref s"
  "page_free_list (kprintf_msg f a s) = page_free_list s" "npage (kprintf_msg f a s) = npage s"
  "envs (kprintf_msg f a s) = envs s" "env_free_list (kprintf_msg f a s) = env_free_list s"
  "curenv (kprintf_msg f a s) = curenv s" "boot_pgdir (kprintf_msg f a s) = boot_pgdir s"
  "utf (kprintf_msg f a s) = utf s" "next_env_id (kprintf_msg f a s) = next_env_id s"
  "page_fault_mode (kprintf_msg f a s) = page_fault_mode s" "cr3 (kprintf_msg f a s) = cr3 s"
  by (simp_all add: kprintf_msg_def)

lemma set_phys_frame [frame, simp]:
  "pp_ref (set_phys s t j w) = pp_ref s" "page_free_list (set_phys s t j w) = page_free_list s"
  "npage (set_phys s t j w) = npage s" "envs (set_phys s t j w) = envs s"
  "env_free_list (set_phys s t j w) = env_free_list s" "curenv (set_phys s t j w) = curenv s"
  "boot_pgdir (set_phys s t j w) = boot_pgdir s" "utf (set_phys s t j w) = utf s"
  "cr3 (set_phys s t j w) = cr3 s" "page_fault_mode (set_phys s t j w) = page_fault_mode s"
  by (simp_all add: set_phys_def)

lemma phys_set_phys: "phys (set_phys s t j w) t' = (if t' = t then (phys s t)(j := w) else phys s t')"
  by (simp add: set_phys_def)

lemma bzero_page_frame [frame, simp]:
  "pp_ref (bzero_page s t) = pp_ref s" "page_free_list (bzero_page s t) = page_free_list s"
  "npage (bzero_page s t) = npage s" "envs (bzero_page s t) = envs s"
  "env_free_list (bzero_page s t) = env_free_list s" "curenv (bzero_page s t) = curenv s"
  "boot_pgdir (bzero_page s t) = boot_pgdir s" "utf (bzero_page s t) = utf s"
  "cr3 (bzero_page s t) = cr3 s" "page_fault_mode (bzero_page s t) = page_fault_mode s"
  by (simp_all add: bzero_page_def)

lemma upd_env_frame [frame, simp]:
  "phys (upd_env s e f) = phys s" "pp_ref (upd_env s e f) = pp_ref s"
  "page_free_list (upd_env s e f) = page_free_list s" "npage (upd_env s e f) = npage s"
  "env_free_list (upd_env s e f) = env_free_list s" "curenv (upd_env s e f) = curenv s"
  "boot_pgdir (upd_env s e f) = boot_pgdir s" "utf (upd_env s e f) = utf s"
  "cr3 (upd_env s e f) = cr3 s" "page_fault_mode (upd_env s e f) = page_fault_mode s"
  by (simp_all add: upd_env_def)

lemma envs_upd_env: "envs (upd_env s e f) e' = (if e' = e then f (envs s e) else envs s e')"
  by (simp add: upd_env_def)

end
