(* ===== verification/Pmap.thy ===== *)
theory Pmap
  imports Kstate
begin

text \<open>
  Physical pages and address spaces: \<open>kern/pmap.h\<close> and the run-time part of
  \<open>kern/pmap.c\<close>. The first half of the theory is the code; the second half gives the
  result of each operation on each branch.
\<close>

unbundle bit_operations_syntax

section \<open>Address translations\<close>

text \<open>\<open>KADDR\<close> panics on an address beyond the physical memory; the pointer it
  returns is modelled by the frame it points to.\<close>

definition KADDR :: "kstate \<Rightarrow> u32 \<Rightarrow> nat option" where
  "KADDR s pa = (if unat (PPN pa) \<ge> npage s then None else Some (unat (PPN pa)))"

definition page2ppn :: "nat \<Rightarrow> nat" where
  "page2ppn pp = pp"

definition pa2page :: "kstate \<Rightarrow> u32 \<Rightarrow> nat option" where
  "pa2page s pa = (if unat (PPN pa) \<ge> npage s then None else Some (unat (PPN pa)))"

definition page2kva :: "kstate \<Rightarrow> nat \<Rightarrow> nat option" where
  "page2kva s pp = KADDR s (page2pa pp)"

section \<open>The page allocator\<close>

definition page_initpp :: "kstate \<Rightarrow> nat \<Rightarrow> kstate" where
  "page_initpp s pp =
     s\<lparr>pp_ref := (pp_ref s)(pp := 0), page_free_list := clear_link (page_free_list s) pp\<rparr>"

definition page_alloc :: "kstate \<Rightarrow> ((error + nat) \<times> kstate) option" where
  "page_alloc s =
     (case LIST_FIRST (page_free_list s) of
        None \<Rightarrow> Some (Inl E_NO_MEM, s)
      | Some pp \<Rightarrow>
          do {
            q \<leftarrow> LIST_REMOVE (page_free_list s) pp;
            Some (Inr pp, s\<lparr>page_free_list := q\<rparr>)
          })"

definition page_free :: "kstate \<Rightarrow> nat \<Rightarrow> kstate" where
  "page_free s pp =
     (let s1 = page_initpp s pp
      in s1\<lparr>page_free_list := LIST_INSERT_HEAD (page_free_list s1) pp\<rparr>)"

definition page_decref :: "kstate \<Rightarrow> nat \<Rightarrow> kstate" where
  "page_decref s pp =
     (let s1 = s\<lparr>pp_ref := (pp_ref s)(pp := pp_ref s pp - 1)\<rparr>
      in if pp_ref s1 pp = 0 then page_free s1 pp else s1)"

definition page_incref :: "kstate \<Rightarrow> nat \<Rightarrow> kstate" where
  "page_incref s pp = s\<lparr>pp_ref := (pp_ref s)(pp := pp_ref s pp + 1)\<rparr>"

section \<open>Page tables\<close>

definition walk_result :: "kstate \<Rightarrow> nat \<Rightarrow> u32 \<Rightarrow> ((error + (nat \<times> nat) option) \<times> kstate) option" where
  "walk_result s pgdir va =
     do {
       pt \<leftarrow> KADDR s (PTE_ADDR (phys s pgdir (pdx va)));
       Some (Inr (Some (pt, ptx va)), s)
     }"

definition pgdir_walk ::
    "kstate \<Rightarrow> nat \<Rightarrow> u32 \<Rightarrow> bool \<Rightarrow> ((error + (nat \<times> nat) option) \<times> kstate) option" where
  "pgdir_walk s pgdir va create =
     (if \<not> present (phys s pgdir (pdx va)) then
        if \<not> create then Some (Inr None, s)
        else
          do {
            (r, s1) \<leftarrow> page_alloc s;
            case r of
              Inl _ \<Rightarrow> Some (Inl E_NO_MEM, s1)
            | Inr new_page \<Rightarrow>
                do {
                  kva \<leftarrow> page2kva s1 new_page;
                  let s2 = bzero_page s1 kva;
                  let s3 = page_incref s2 new_page;
                  let s4 = set_phys s3 pgdir (pdx va) (page2pa new_page OR PTE_W OR PTE_U OR PTE_P);
                  walk_result s4 pgdir va
                }
          }
      else walk_result s pgdir va)"

definition tlb_invalidate :: "kstate \<Rightarrow> nat \<Rightarrow> u32 \<Rightarrow> kstate" where
  "tlb_invalidate s pgdir va =
     (case curenv s of
        None \<Rightarrow> s\<lparr>invlpgs := invlpgs s @ [va]\<rparr>
      | Some e \<Rightarrow>
          if env_pgdir (envs s e) = Some pgdir then s\<lparr>invlpgs := invlpgs s @ [va]\<rparr> else s)"

definition page_lookup ::
    "kstate \<Rightarrow> nat \<Rightarrow> u32 \<Rightarrow> ((nat \<times> (nat \<times> nat)) option \<times> kstate) option" where
  "page_lookup s pgdir va =
     do {
       (r, s1) \<leftarrow> pgdir_walk s pgdir va False;
       case r of
         Inr (Some (pt, j)) \<Rightarrow>
           do {
             p \<leftarrow> pa2page s1 (phys s1 pt j);
             Some (Some (p, (pt, j)), s1)
           }
       | _ \<Rightarrow> Some (None, s1)
     }"

definition page_remove :: "kstate \<Rightarrow> nat \<Rightarrow> u32 \<Rightarrow> kstate option" where
  "page_remove s pgdir va =
     do {
       (r, s1) \<leftarrow> pgdir_walk s pgdir va False;
       case r of
         Inr (Some (pt, j)) \<Rightarrow>
           if \<not> present (phys s1 pt j) then Some s1
           else
             do {
               page \<leftarrow> pa2page s1 (phys s1 pt j);
               let s2 = page_decref s1 page;
               let s3 = set_phys s2 pt j 0;
               Some (tlb_invalidate s3 pgdir va)
             }
       | _ \<Rightarrow> Some s1
     }"

definition page_insert ::
    "kstate \<Rightarrow> nat \<Rightarrow> nat \<Rightarrow> u32 \<Rightarrow> u32 \<Rightarrow> ((error + unit) \<times> kstate) option" where
  "page_insert s pgdir pp va perm =
     do {
       let s1 = page_incref s pp;
       (r, s2) \<leftarrow> pgdir_walk s1 pgdir va True;
       case r of
         Inl _ \<Rightarrow> Some (Inl E_NO_MEM, s2\<lparr>pp_ref := (pp_ref s2)(pp := pp_ref s2 pp - 1)\<rparr>)
       | Inr None \<Rightarrow> None
       | Inr (Some (pt, j)) \<Rightarrow>
           do {
             s3 \<leftarrow> page_remove s2 pgdir va;
             Some (Inr (), set_phys s3 pt j (page2pa pp OR perm OR PTE_P))
           }
     }"

definition va2pa :: "kstate \<Rightarrow> nat \<Rightarrow> u32 \<Rightarrow> u32 option" where
  "va2pa s pgdir va =
     (let d = phys s pgdir (pdx va) in
      if \<not> present d then Some (NOT 0)
      else
        do {
          p \<leftarrow> KADDR s (PTE_ADDR d);
          if \<not> present (phys s p (ptx va)) then Some (NOT 0)
          else Some (PTE_ADDR (phys s p (ptx va)))
        })"

section \<open>The abstract address space\<close>

text \<open>
  The map of an address space: the entry for each virtual address, read through the two
  levels. This is the contract of the functions above: \<open>page_insert\<close> is a map update,
  \<open>page_remove\<close> a map deletion.
\<close>

definition vm_lookup :: "physmem \<Rightarrow> nat \<Rightarrow> u32 \<Rightarrow> u32 option" where
  "vm_lookup m pgdir va =
     (let d = m pgdir (pdx va) in
      if \<not> present d then None
      else let t = m (frame_of d) (ptx va) in if present t then Some t else None)"

text \<open>The operations below change memory, reference counts, the free list and the TLB.\<close>

definition mem_only :: "kstate \<Rightarrow> kstate \<Rightarrow> bool" where
  "mem_only s s' \<longleftrightarrow>
     s' = s\<lparr>phys := phys s', pp_ref := pp_ref s', page_free_list := page_free_list s',
            invlpgs := invlpgs s'\<rparr>"

lemma mem_only_refl [simp]: "mem_only s s"
  by (simp add: mem_only_def)

lemma mem_only_trans: "mem_only s t \<Longrightarrow> mem_only t u \<Longrightarrow> mem_only s u"
  unfolding mem_only_def by (cases s, cases t, cases u) simp

lemma mem_only_fields:
  assumes "mem_only s s'"
  shows "npage s' = npage s" "envs s' = envs s" "env_free_list s' = env_free_list s"
    "curenv s' = curenv s" "boot_pgdir s' = boot_pgdir s" "utf s' = utf s" "cr3 s' = cr3 s"
    "next_env_id s' = next_env_id s" "page_fault_mode s' = page_fault_mode s"
    "cons s' = cons s" "color s' = color s" "klog s' = klog s"
proof -
  from assms have e: "s' = s\<lparr>phys := phys s', pp_ref := pp_ref s',
      page_free_list := page_free_list s', invlpgs := invlpgs s'\<rparr>" (is "_ = ?t")
    by (simp only: mem_only_def)
  show "npage s' = npage s" "envs s' = envs s" "env_free_list s' = env_free_list s"
    "curenv s' = curenv s" "boot_pgdir s' = boot_pgdir s" "utf s' = utf s" "cr3 s' = cr3 s"
    "next_env_id s' = next_env_id s" "page_fault_mode s' = page_fault_mode s"
    "cons s' = cons s" "color s' = color s" "klog s' = klog s"
    by (subst e, simp)+
qed

lemma mem_only_intros [intro, simp]:
  "mem_only s (set_phys s t j w)" "mem_only s (bzero_page s t)"
  "mem_only s (s\<lparr>pp_ref := r\<rparr>)" "mem_only s (s\<lparr>page_free_list := q\<rparr>)"
  "mem_only s (s\<lparr>invlpgs := l\<rparr>)"
  by (simp_all add: mem_only_def set_phys_def bzero_page_def)

lemma mem_only_ops [intro, simp]:
  "mem_only s (page_initpp s p)" "mem_only s (page_free s p)" "mem_only s (page_decref s p)"
  "mem_only s (page_incref s p)" "mem_only s (tlb_invalidate s d va)"
  by (simp_all add: mem_only_def page_initpp_def page_free_def page_decref_def page_incref_def
      tlb_invalidate_def Let_def split: option.splits)

section \<open>Frame facts\<close>

lemma page_initpp_frame [frame, simp]:
  "phys (page_initpp s p) = phys s" "npage (page_initpp s p) = npage s"
  "envs (page_initpp s p) = envs s" "env_free_list (page_initpp s p) = env_free_list s"
  "curenv (page_initpp s p) = curenv s" "boot_pgdir (page_initpp s p) = boot_pgdir s"
  "utf (page_initpp s p) = utf s"
  "cr3 (page_initpp s p) = cr3 s" "page_fault_mode (page_initpp s p) = page_fault_mode s"
  by (simp_all add: page_initpp_def)

lemma page_free_frame [frame, simp]:
  "phys (page_free s p) = phys s" "npage (page_free s p) = npage s"
  "envs (page_free s p) = envs s" "env_free_list (page_free s p) = env_free_list s"
  "curenv (page_free s p) = curenv s" "boot_pgdir (page_free s p) = boot_pgdir s"
  "pp_ref (page_free s p) = (pp_ref s)(p := 0)" "utf (page_free s p) = utf s"
  "cr3 (page_free s p) = cr3 s" "page_fault_mode (page_free s p) = page_fault_mode s"
  by (simp_all add: page_free_def page_initpp_def Let_def)

lemma page_decref_frame [frame, simp]:
  "phys (page_decref s p) = phys s" "npage (page_decref s p) = npage s"
  "envs (page_decref s p) = envs s" "env_free_list (page_decref s p) = env_free_list s"
  "curenv (page_decref s p) = curenv s" "boot_pgdir (page_decref s p) = boot_pgdir s"
  "pp_ref (page_decref s p) = (pp_ref s)(p := pp_ref s p - 1)" "utf (page_decref s p) = utf s"
  "cr3 (page_decref s p) = cr3 s" "page_fault_mode (page_decref s p) = page_fault_mode s"
  by (simp_all add: page_decref_def Let_def fun_eq_iff)

lemma page_incref_frame [frame, simp]:
  "phys (page_incref s p) = phys s" "npage (page_incref s p) = npage s"
  "envs (page_incref s p) = envs s" "env_free_list (page_incref s p) = env_free_list s"
  "curenv (page_incref s p) = curenv s" "boot_pgdir (page_incref s p) = boot_pgdir s"
  "page_free_list (page_incref s p) = page_free_list s"
  "pp_ref (page_incref s p) = (pp_ref s)(p := pp_ref s p + 1)" "utf (page_incref s p) = utf s"
  "cr3 (page_incref s p) = cr3 s" "page_fault_mode (page_incref s p) = page_fault_mode s"
  by (simp_all add: page_incref_def)

lemma tlb_invalidate_frame [frame, simp]:
  "phys (tlb_invalidate s d va) = phys s" "npage (tlb_invalidate s d va) = npage s"
  "envs (tlb_invalidate s d va) = envs s" "env_free_list (tlb_invalidate s d va) = env_free_list s"
  "curenv (tlb_invalidate s d va) = curenv s" "boot_pgdir (tlb_invalidate s d va) = boot_pgdir s"
  "page_free_list (tlb_invalidate s d va) = page_free_list s"
  "pp_ref (tlb_invalidate s d va) = pp_ref s" "utf (tlb_invalidate s d va) = utf s"
  "cr3 (tlb_invalidate s d va) = cr3 s" "page_fault_mode (tlb_invalidate s d va) = page_fault_mode s"
  by (simp_all add: tlb_invalidate_def split: option.splits)

section \<open>Addresses in range\<close>

lemma KADDR_frame: "frame_of w < npage s \<Longrightarrow> KADDR s (PTE_ADDR w) = Some (frame_of w)"
  using frame_of_PTE_ADDR [of w] by (simp add: KADDR_def frame_of_def)

lemma pa2page_frame: "frame_of w < npage s \<Longrightarrow> pa2page s w = Some (frame_of w)"
  by (simp add: pa2page_def frame_of_def)

lemma page2kva_page: "p < npage s \<Longrightarrow> p < 2 ^ 20 \<Longrightarrow> page2kva s p = Some p"
  using frame_of_page2pa [of p] by (simp add: page2kva_def KADDR_def frame_of_def)

section \<open>The allocator's results\<close>

lemma page_alloc_empty:
  "list_repr (page_free_list s) [] \<Longrightarrow> page_alloc s = Some (Inl E_NO_MEM, s)"
  by (simp add: page_alloc_def qm.first)

lemma page_alloc_cons:
  assumes "list_repr (page_free_list s) (p # fl)"
  shows "\<exists>q. page_alloc s = Some (Inr p, s\<lparr>page_free_list := q\<rparr>) \<and> list_repr q fl"
  using qm.take_first [OF assms] by (auto simp: page_alloc_def qm.first [OF assms])

lemma page_free_list_free:
  assumes "list_repr (page_free_list s) fl" "p \<notin> set fl"
  shows "list_repr (page_free_list (page_free s p)) (p # fl)"
  using assms by (simp add: page_free_def page_initpp_def Let_def qm.insert_head qm.clear)

lemma page_decref_list:
  assumes "list_repr (page_free_list s) fl" "p \<notin> set fl"
  shows "list_repr (page_free_list (page_decref s p)) (if pp_ref s p = 1 then p # fl else fl)"
proof -
  let ?s = "s\<lparr>pp_ref := (pp_ref s)(p := pp_ref s p - 1)\<rparr>"
  have "list_repr (page_free_list (page_free ?s p)) (p # fl)"
    by (rule page_free_list_free) (use assms in auto)
  moreover have "page_decref s p = (if pp_ref s p = 1 then page_free ?s p else ?s)"
    by (auto simp: page_decref_def Let_def)
  ultimately show ?thesis using assms(1) by auto
qed

end
