(* ===== verification/Vm.thy ===== *)
theory Vm
  imports Pmap
begin

text \<open>
  The invariant of the address spaces and its preservation by the operations of
  \<open>kern/pmap.c\<close>.

  \<open>D\<close> is the set of page directories in use. A page table slot is a present directory
  entry below \<open>UTOP\<close>; a leaf slot is a present entry of such a page table. The invariant
  says that page directories, page tables and mapped pages are kept apart, that no two
  directory entries share a page table, that the free list holds none of them, and that
  \<open>pp_ref\<close> is at least the number of slots that name the page. \<open>X\<close> counts the
  references that an operation has announced in \<open>pp_ref\<close> and not yet stored in a slot.
\<close>

unbundle bit_operations_syntax

section \<open>Slots\<close>

definition ptslots :: "physmem \<Rightarrow> nat set \<Rightarrow> (nat \<times> nat) set" where
  "ptslots m D = {x. fst x \<in> D \<and> snd x < user_slots \<and> present (m (fst x) (snd x))}"

definition pt_at :: "physmem \<Rightarrow> nat \<times> nat \<Rightarrow> nat" where
  "pt_at m x = frame_of (m (fst x) (snd x))"

definition leafslots :: "physmem \<Rightarrow> nat set \<Rightarrow> ((nat \<times> nat) \<times> nat) set" where
  "leafslots m D = {y. fst y \<in> ptslots m D \<and> snd y < 1024 \<and> present (m (pt_at m (fst y)) (snd y))}"

definition leaf_at :: "physmem \<Rightarrow> (nat \<times> nat) \<times> nat \<Rightarrow> nat" where
  "leaf_at m y = frame_of (m (pt_at m (fst y)) (snd y))"

definition refs :: "physmem \<Rightarrow> nat set \<Rightarrow> nat \<Rightarrow> nat" where
  "refs m D p = card {x \<in> ptslots m D. pt_at m x = p} + card {y \<in> leafslots m D. leaf_at m y = p}"

section \<open>The invariant\<close>

definition vm_struct :: "physmem \<Rightarrow> nat \<Rightarrow> nat set \<Rightarrow> bool" where
  "vm_struct m n D \<longleftrightarrow>
     finite D \<and> n \<le> 2 ^ 20 \<and> (\<forall>d \<in> D. d < n)
     \<and> (\<forall>x \<in> ptslots m D. pt_at m x < n \<and> pt_at m x \<notin> D)
     \<and> inj_on (pt_at m) (ptslots m D)
     \<and> (\<forall>y \<in> leafslots m D. leaf_at m y < n \<and> leaf_at m y \<notin> D
          \<and> leaf_at m y \<notin> pt_at m ` ptslots m D)"

definition vm_count :: "physmem \<Rightarrow> nat set \<Rightarrow> (nat \<Rightarrow> nat) \<Rightarrow> (nat \<Rightarrow> u16) \<Rightarrow> bool" where
  "vm_count m D X r \<longleftrightarrow> (\<forall>p. refs m D p + X p \<le> unat (r p))"

definition free_ok :: "kstate \<Rightarrow> nat set \<Rightarrow> nat list \<Rightarrow> bool" where
  "free_ok s D fl \<longleftrightarrow>
     list_repr (page_free_list s) fl
     \<and> (\<forall>p \<in> set fl. p < npage s \<and> pp_ref s p = 0 \<and> p \<notin> D)"

definition vm_inv :: "kstate \<Rightarrow> nat set \<Rightarrow> nat list \<Rightarrow> (nat \<Rightarrow> nat) \<Rightarrow> bool" where
  "vm_inv s D fl X \<longleftrightarrow>
     vm_struct (phys s) (npage s) D \<and> vm_count (phys s) D X (pp_ref s) \<and> free_ok s D fl"

definition no_pending :: "nat \<Rightarrow> nat" where "no_pending p = 0"

lemma finite_ptslots: "finite D \<Longrightarrow> finite (ptslots m D)"
  by (rule finite_subset [of _ "D \<times> {..<user_slots}"]) (auto simp: ptslots_def)

lemma finite_leafslots: "finite D \<Longrightarrow> finite (leafslots m D)"
  by (rule finite_subset [of _ "ptslots m D \<times> {..<1024}"])
     (auto simp: leafslots_def finite_ptslots)

lemma vm_struct_finite:
  "vm_struct m n D \<Longrightarrow> finite (ptslots m D)" "vm_struct m n D \<Longrightarrow> finite (leafslots m D)"
  by (auto simp: vm_struct_def finite_ptslots finite_leafslots)

lemma ptslots_iff: "(d, i) \<in> ptslots m D \<longleftrightarrow> d \<in> D \<and> i < user_slots \<and> present (m d i)"
  by (simp add: ptslots_def)

lemma leafslots_iff:
  "(x, j) \<in> leafslots m D \<longleftrightarrow> x \<in> ptslots m D \<and> j < 1024 \<and> present (m (pt_at m x) j)"
  by (simp add: leafslots_def)

lemma refs_pt: "finite D \<Longrightarrow> x \<in> ptslots m D \<Longrightarrow> 1 \<le> refs m D (pt_at m x)"
proof -
  assume f: "finite D" and x: "x \<in> ptslots m D"
  have "finite {x' \<in> ptslots m D. pt_at m x' = pt_at m x}" using f by (simp add: finite_ptslots)
  then have "card {x' \<in> ptslots m D. pt_at m x' = pt_at m x} \<noteq> 0" using x by (cases x) auto
  then show ?thesis by (simp add: refs_def)
qed

lemma refs_leaf: "finite D \<Longrightarrow> y \<in> leafslots m D \<Longrightarrow> 1 \<le> refs m D (leaf_at m y)"
proof -
  assume f: "finite D" and y: "y \<in> leafslots m D"
  have "finite {y' \<in> leafslots m D. leaf_at m y' = leaf_at m y}" using f by (simp add: finite_leafslots)
  then have "card {y' \<in> leafslots m D. leaf_at m y' = leaf_at m y} \<noteq> 0" using y by (cases y) auto
  then show ?thesis by (simp add: refs_def)
qed

text \<open>What the free list holds is in no slot.\<close>

lemma free_not_used:
  assumes "vm_inv s D fl X" "p \<in> set fl"
  shows "p \<notin> D" "p \<notin> pt_at (phys s) ` ptslots (phys s) D"
    "p \<notin> leaf_at (phys s) ` leafslots (phys s) D" "X p = 0" "p < npage s"
proof -
  from assms have r: "pp_ref s p = 0" and D: "p \<notin> D" "p < npage s"
    by (auto simp: vm_inv_def free_ok_def)
  from assms have "refs (phys s) D p + X p \<le> unat (pp_ref s p)"
    by (simp add: vm_inv_def vm_count_def)
  with r have z: "refs (phys s) D p = 0" "X p = 0" by simp_all
  have f: "finite D" using assms by (simp add: vm_inv_def vm_struct_def)
  show "p \<notin> pt_at (phys s) ` ptslots (phys s) D"
    using refs_pt [OF f] z by fastforce
  show "p \<notin> leaf_at (phys s) ` leafslots (phys s) D"
    using refs_leaf [OF f] z by fastforce
  show "p \<notin> D" "X p = 0" "p < npage s" using D z by simp_all
qed

section \<open>Changing one leaf entry\<close>

definition put_word :: "physmem \<Rightarrow> nat \<Rightarrow> nat \<Rightarrow> u32 \<Rightarrow> physmem" where
  "put_word m t j w = m(t := (m t)(j := w))"

lemma phys_set_phys_put [simp]: "phys (set_phys s t j w) = put_word (phys s) t j w"
  by (simp add: set_phys_def put_word_def)

lemma put_leaf_slots:
  fixes w :: u32
  assumes st: "vm_struct m n D" and x: "x \<in> ptslots m D" and j: "j < 1024"
  defines "m' \<equiv> put_word m (pt_at m x) j w"
  shows "ptslots m' D = ptslots m D"
    and "\<And>z. z \<in> ptslots m D \<Longrightarrow> pt_at m' z = pt_at m z"
    and "leafslots m' D = (if present w then insert (x, j) (leafslots m D) else leafslots m D - {(x, j)})"
    and "\<And>y. y \<in> leafslots m D - {(x, j)} \<Longrightarrow> leaf_at m' y = leaf_at m y"
    and "leaf_at m' (x, j) = frame_of w"
proof -
  let ?t = "pt_at m x"
  have tD: "?t \<notin> D" using st x by (simp add: vm_struct_def)
  have row: "m' d = m d" if "d \<in> D" for d
    using that tD by (auto simp: m'_def put_word_def)
  show P: "ptslots m' D = ptslots m D"
    using row by (auto simp: ptslots_def)
  show A: "pt_at m' z = pt_at m z" if "z \<in> ptslots m D" for z
    using row that by (simp add: pt_at_def ptslots_def)
  have same: "z = x" if "z \<in> ptslots m D" "pt_at m z = ?t" for z
    using st x that by (auto simp: vm_struct_def dest: inj_onD)
  have word: "m' (pt_at m z) k = (if z = x \<and> k = j then w else m (pt_at m z) k)"
    if "z \<in> ptslots m D" for z k
    using same [OF that] by (auto simp: m'_def put_word_def)
  have mem: "(z, k) \<in> leafslots m' D \<longleftrightarrow>
      z \<in> ptslots m D \<and> k < 1024 \<and> present (if z = x \<and> k = j then w else m (pt_at m z) k)" for z k
    by (simp add: leafslots_iff P A word cong: conj_cong)
  show "leafslots m' D = (if present w then insert (x, j) (leafslots m D) else leafslots m D - {(x, j)})"
  proof (rule set_eqI)
    fix y :: "(nat \<times> nat) \<times> nat"
    obtain z k where y: "y = (z, k)" by (cases y)
    show "y \<in> leafslots m' D \<longleftrightarrow>
        y \<in> (if present w then insert (x, j) (leafslots m D) else leafslots m D - {(x, j)})"
      using mem [of z k] leafslots_iff [of z k m D] x j unfolding y
      by (cases "(z, k) = (x, j)") (simp_all split: if_splits, auto)
  qed
  show "leaf_at m' y = leaf_at m y" if "y \<in> leafslots m D - {(x, j)}" for y
    using that A word by (cases y) (auto simp: leaf_at_def leafslots_iff)
  show "leaf_at m' (x, j) = frame_of w"
    using x A word by (simp add: leaf_at_def)
qed

lemma put_leaf_refs:
  assumes st: "vm_struct m n D" and x: "x \<in> ptslots m D" and j: "j < 1024"
  shows "refs (put_word m (pt_at m x) j w) D p
       + (if (x, j) \<in> leafslots m D \<and> leaf_at m (x, j) = p then 1 else 0)
       = refs m D p + (if present w \<and> frame_of w = p then 1 else 0)"
proof -
  let ?m = "put_word m (pt_at m x) j w"
  let ?R = "leafslots m D - {(x, j)}"
  note sl = put_leaf_slots [OF st x j, where w = w]
  have f: "finite (leafslots m D)" by (rule vm_struct_finite [OF st])
  have pts: "{z \<in> ptslots ?m D. pt_at ?m z = p} = {z \<in> ptslots m D. pt_at m z = p}"
    using sl(1,2) by auto
  have rest: "{y \<in> ?R. leaf_at ?m y = p} = {y \<in> ?R. leaf_at m y = p}"
    using sl(4) by auto
  have new: "card {y \<in> leafslots ?m D. leaf_at ?m y = p}
      = card {y \<in> ?R. leaf_at m y = p} + (if present w \<and> frame_of w = p then 1 else 0)"
  proof (cases "present w")
    case True
    then have "{y \<in> leafslots ?m D. leaf_at ?m y = p}
        = {y \<in> ?R. leaf_at ?m y = p} \<union> (if frame_of w = p then {(x, j)} else {})"
      using sl(3,5) by auto
    then show ?thesis using f rest True by simp
  next
    case False
    then show ?thesis using sl(3) rest by simp
  qed
  have old: "card {y \<in> leafslots m D. leaf_at m y = p}
      = card {y \<in> ?R. leaf_at m y = p}
        + (if (x, j) \<in> leafslots m D \<and> leaf_at m (x, j) = p then 1 else 0)"
  proof (cases "(x, j) \<in> leafslots m D")
    case True
    then show ?thesis using card_remove_slot [OF f True, of "leaf_at m" p] by simp
  next
    case False
    then show ?thesis by simp
  qed
  show ?thesis using new old by (simp add: refs_def pts)
qed

lemma put_leaf_struct:
  assumes st: "vm_struct m n D" and x: "x \<in> ptslots m D" and j: "j < 1024"
    and w: "present w \<Longrightarrow> frame_of w < n \<and> frame_of w \<notin> D \<and> frame_of w \<notin> pt_at m ` ptslots m D"
  shows "vm_struct (put_word m (pt_at m x) j w) n D"
proof -
  let ?m = "put_word m (pt_at m x) j w"
  note sl = put_leaf_slots [OF st x j, where w = w]
  have im: "pt_at ?m ` ptslots ?m D = pt_at m ` ptslots m D"
    using sl(1,2) by (auto simp: image_iff)
  have "inj_on (pt_at ?m) (ptslots ?m D)"
    using st sl(1,2) by (auto simp: vm_struct_def inj_on_def)
  moreover have "leaf_at ?m y < n \<and> leaf_at ?m y \<notin> D \<and> leaf_at ?m y \<notin> pt_at m ` ptslots m D"
    if "y \<in> leafslots ?m D" for y
  proof (cases "y = (x, j)")
    case True
    then have "present w" using that sl(3) by (auto split: if_splits)
    with True w sl(5) show ?thesis by simp
  next
    case False
    then have "y \<in> leafslots m D - {(x, j)}" using that sl(3) by (auto split: if_splits)
    with sl(4) st show ?thesis by (simp add: vm_struct_def)
  qed
  ultimately show ?thesis using st sl(1,2) im by (auto simp: vm_struct_def)
qed

section \<open>Installing a page table\<close>

text \<open>\<open>m'\<close> is \<open>m\<close> with the page \<open>q\<close> zeroed and entry \<open>i\<close> of the directory
  \<open>d\<close> set to \<open>w\<close>, which names \<open>q\<close>.\<close>

definition put_table :: "physmem \<Rightarrow> nat \<Rightarrow> nat \<Rightarrow> nat \<Rightarrow> u32 \<Rightarrow> physmem" where
  "put_table m q d i w = put_word (m(q := (\<lambda>_. 0))) d i w"

lemma put_table_slots:
  assumes st: "vm_struct m n D" and d: "d \<in> D" "i < user_slots" "\<not> present (m d i)"
    and q: "q \<notin> D" "q \<notin> pt_at m ` ptslots m D"
    and w: "present w" "frame_of w = q"
  defines "m' \<equiv> put_table m q d i w"
  shows "ptslots m' D = insert (d, i) (ptslots m D)"
    and "\<And>z. z \<in> ptslots m D \<Longrightarrow> pt_at m' z = pt_at m z" and "pt_at m' (d, i) = q"
    and "leafslots m' D = leafslots m D"
    and "\<And>y. y \<in> leafslots m D \<Longrightarrow> leaf_at m' y = leaf_at m y"
    and "(d, i) \<notin> ptslots m D"
proof -
  have qd: "q \<noteq> d" using q d by auto
  have row: "m' e k = (if e = d \<and> k = i then w else m e k)" if "e \<in> D" for e k
    using that q qd by (auto simp: m'_def put_table_def put_word_def)
  show P: "ptslots m' D = insert (d, i) (ptslots m D)"
    using row d w by (auto simp: ptslots_def)
  show new: "(d, i) \<notin> ptslots m D" using d by (simp add: ptslots_iff)
  show A: "pt_at m' z = pt_at m z" if "z \<in> ptslots m D" for z
    using row that new by (cases z) (auto simp: pt_at_def ptslots_iff)
  show Q: "pt_at m' (d, i) = q" using row d w by (simp add: pt_at_def)
  have tab: "m' (pt_at m z) = m (pt_at m z)" if "z \<in> ptslots m D" for z
  proof -
    have "pt_at m z \<noteq> q" "pt_at m z \<noteq> d" using that q d st by (auto simp: vm_struct_def)
    then show ?thesis by (simp add: m'_def put_table_def put_word_def)
  qed
  have zero: "m' q k = 0" for k using qd by (simp add: m'_def put_table_def put_word_def)
  show "leafslots m' D = leafslots m D"
    using A tab Q zero new by (auto simp: leafslots_def P)
  show "leaf_at m' y = leaf_at m y" if "y \<in> leafslots m D" for y
    using that A tab by (simp add: leaf_at_def leafslots_def)
qed

lemma put_table_refs:
  assumes st: "vm_struct m n D" and d: "d \<in> D" "i < user_slots" "\<not> present (m d i)"
    and q: "q \<notin> D" "q \<notin> pt_at m ` ptslots m D"
    and w: "present w" "frame_of w = q"
  shows "refs (put_table m q d i w) D p = refs m D p + (if p = q then 1 else 0)"
proof -
  let ?m = "put_table m q d i w"
  note sl = put_table_slots [OF st d q w]
  have f: "finite (ptslots m D)" by (rule vm_struct_finite [OF st])
  have "{z \<in> ptslots ?m D. pt_at ?m z = p}
      = {z \<in> ptslots m D. pt_at m z = p} \<union> (if p = q then {(d, i)} else {})"
    using sl(1,2,3) by auto
  then have "card {z \<in> ptslots ?m D. pt_at ?m z = p}
      = card {z \<in> ptslots m D. pt_at m z = p} + (if p = q then 1 else 0)"
    using f sl(6) by simp
  moreover have "{y \<in> leafslots ?m D. leaf_at ?m y = p} = {y \<in> leafslots m D. leaf_at m y = p}"
    using sl(4,5) by auto
  ultimately show ?thesis by (simp add: refs_def)
qed

lemma put_table_struct:
  assumes st: "vm_struct m n D" and d: "d \<in> D" "i < user_slots" "\<not> present (m d i)"
    and q: "q \<notin> D" "q \<notin> pt_at m ` ptslots m D" "q \<notin> leaf_at m ` leafslots m D" "q < n"
    and w: "present w" "frame_of w = q"
  shows "vm_struct (put_table m q d i w) n D"
proof -
  let ?m = "put_table m q d i w"
  note sl = put_table_slots [OF st d q(1,2) w]
  have im: "pt_at ?m ` ptslots ?m D = insert q (pt_at m ` ptslots m D)"
    using sl(1,2,3) by (auto simp: image_iff)
  have "inj_on (pt_at ?m) (ptslots ?m D)"
    using st sl(1,2,3) q(2) by (auto simp: vm_struct_def inj_on_def)
  moreover have "leaf_at ?m y < n \<and> leaf_at ?m y \<notin> D \<and> leaf_at ?m y \<notin> insert q (pt_at m ` ptslots m D)"
    if "y \<in> leafslots ?m D" for y
    using that sl(4,5) st q(3) by (auto simp: vm_struct_def)
  ultimately show ?thesis using st sl(1,2,3) im q by (auto simp: vm_struct_def)
qed

section \<open>The abstract map after a change\<close>

lemma vm_lookup_slot:
  assumes "d \<in> D" "va < UTOP"
  shows "vm_lookup m d va =
    (if ((d, pdx va), ptx va) \<in> leafslots m D then Some (m (pt_at m (d, pdx va)) (ptx va)) else None)"
  using assms pdx_user [OF assms(2)] ptx_less [of va]
  by (simp add: vm_lookup_def leafslots_iff ptslots_iff pt_at_def Let_def)

lemma vm_lookup_pde:
  "vm_lookup m d va = Some w \<Longrightarrow> present (m d (pdx va)) \<and> present w
     \<and> w = m (frame_of (m d (pdx va))) (ptx va)"
  by (auto simp: vm_lookup_def Let_def split: if_splits)

lemma put_leaf_lookup:
  assumes st: "vm_struct m n D" and x: "(d, pdx va) \<in> ptslots m D"
    and d': "d' \<in> D" and va': "va' < UTOP"
  shows "vm_lookup (put_word m (pt_at m (d, pdx va)) (ptx va) w) d' va' =
    (if d' = d \<and> VPN va' = VPN va then (if present w then Some w else None) else vm_lookup m d' va')"
proof -
  let ?t = "pt_at m (d, pdx va)"
  have tD: "?t \<notin> D" using st x by (simp add: vm_struct_def)
  have row: "put_word m ?t (ptx va) w d' = m d'" using d' tD by (auto simp: put_word_def)
  show ?thesis
  proof (cases "present (m d' (pdx va'))")
    case False
    have "\<not> (d' = d \<and> VPN va' = VPN va)"
      using False x pdx_ptx_VPN [of va' va] by (auto simp: ptslots_iff)
    then show ?thesis using False row by (auto simp: vm_lookup_def)
  next
    case True
    then have z: "(d', pdx va') \<in> ptslots m D" using d' pdx_user [OF va'] by (simp add: ptslots_iff)
    have eq: "pt_at m (d', pdx va') = ?t \<longleftrightarrow> d' = d \<and> pdx va' = pdx va"
      using st x z by (auto simp: vm_struct_def dest: inj_onD)
    have "put_word m ?t (ptx va) w (pt_at m (d', pdx va')) (ptx va') =
        (if d' = d \<and> pdx va' = pdx va \<and> ptx va' = ptx va then w else m (pt_at m (d', pdx va')) (ptx va'))"
      using eq by (auto simp: put_word_def)
    then show ?thesis
      using True row pdx_ptx_VPN [of va' va] by (auto simp: vm_lookup_def pt_at_def)
  qed
qed

lemma put_table_lookup:
  assumes st: "vm_struct m n D" and d: "d \<in> D" "i < user_slots" "\<not> present (m d i)"
    and q: "q \<notin> D" "q \<notin> pt_at m ` ptslots m D"
    and w: "present w" "frame_of w = q" and d': "d' \<in> D" and va': "va' < UTOP"
  shows "vm_lookup (put_table m q d i w) d' va' = vm_lookup m d' va'"
proof -
  let ?m = "put_table m q d i w"
  note sl = put_table_slots [OF st d q w]
  have "?m (pt_at m (d', pdx va')) = m (pt_at m (d', pdx va'))"
    if "((d', pdx va'), ptx va') \<in> leafslots m D"
  proof -
    have "pt_at m (d', pdx va') \<noteq> q" "pt_at m (d', pdx va') \<noteq> d"
      using that q d st by (auto simp: vm_struct_def leafslots_iff)
    then show ?thesis by (simp add: put_table_def put_word_def)
  qed
  then show ?thesis
    using sl(2) [of "(d', pdx va')"]
    by (auto simp: vm_lookup_slot [OF d' va'] sl(4) leafslots_iff)
qed

section \<open>Reference counts\<close>

lemma vm_count_decref:
  assumes "vm_count m D X r" and "refs m D p = refs m' D p + 1"
    and "\<And>p'. p' \<noteq> p \<Longrightarrow> refs m' D p' = refs m D p'"
  shows "vm_count m' D X (r(p := r p - 1))"
proof -
  have "refs m' D p' + X p' \<le> unat ((r(p := r p - 1)) p')" for p'
  proof (cases "p' = p")
    case True
    from assms(1) have "refs m D p + X p \<le> unat (r p)" by (simp add: vm_count_def)
    moreover from this assms(2) have "r p \<noteq> 0" by auto
    ultimately show ?thesis using assms(2) True by (simp add: unat_sub_one_u16)
  next
    case False
    with assms show ?thesis by (simp add: vm_count_def)
  qed
  then show ?thesis by (simp add: vm_count_def)
qed

lemma vm_count_incref:
  assumes "vm_count m D X r" "unat (r p) < 65535"
  shows "vm_count m D (X(p := X p + 1)) (r(p := r p + 1))"
  using assms by (auto simp: vm_count_def unat_add_one_u16)

lemma vm_inv_leaf:
  assumes inv: "vm_inv s D fl X" and w: "vm_lookup (phys s) d va = Some w"
    and d: "d \<in> D" and va: "va < UTOP"
  shows "((d, pdx va), ptx va) \<in> leafslots (phys s) D" "(d, pdx va) \<in> ptslots (phys s) D"
    "leaf_at (phys s) ((d, pdx va), ptx va) = frame_of w" "frame_of w < npage s"
    "frame_of w \<notin> set fl" "frame_of w \<notin> D" "frame_of w \<notin> pt_at (phys s) ` ptslots (phys s) D"
    "pp_ref s (frame_of w) \<noteq> 0" "pt_at (phys s) (d, pdx va) < npage s"
proof -
  from w show l: "((d, pdx va), ptx va) \<in> leafslots (phys s) D"
    by (simp add: vm_lookup_slot [OF d va] split: if_splits)
  then show "(d, pdx va) \<in> ptslots (phys s) D" by (simp add: leafslots_iff)
  from w l show e: "leaf_at (phys s) ((d, pdx va), ptx va) = frame_of w"
    by (simp add: vm_lookup_slot [OF d va] leaf_at_def)
  from inv l have lt: "leaf_at (phys s) ((d, pdx va), ptx va) < npage s
      \<and> leaf_at (phys s) ((d, pdx va), ptx va) \<notin> D
      \<and> leaf_at (phys s) ((d, pdx va), ptx va) \<notin> pt_at (phys s) ` ptslots (phys s) D"
    by (simp add: vm_inv_def vm_struct_def)
  then show "frame_of w < npage s" "frame_of w \<notin> D"
    "frame_of w \<notin> pt_at (phys s) ` ptslots (phys s) D" unfolding e by simp_all
  show nf: "frame_of w \<notin> set fl" using free_not_used(3) [OF inv] l e by (metis imageI)
  have "finite D" using inv by (simp add: vm_inv_def vm_struct_def)
  from refs_leaf [OF this l] inv show "pp_ref s (frame_of w) \<noteq> 0"
    unfolding e by (auto simp: vm_inv_def vm_count_def dest!: spec [of _ "frame_of w"])
  show "pt_at (phys s) (d, pdx va) < npage s"
    using inv l by (simp add: vm_inv_def vm_struct_def leafslots_iff)
qed

lemma vm_inv_pt:
  assumes "vm_inv s D fl X" "d \<in> D" "va < UTOP" "present (phys s d (pdx va))"
  shows "(d, pdx va) \<in> ptslots (phys s) D" "pt_at (phys s) (d, pdx va) < npage s"
    "frame_of (phys s d (pdx va)) = pt_at (phys s) (d, pdx va)"
proof -
  show p: "(d, pdx va) \<in> ptslots (phys s) D"
    using assms pdx_user [OF assms(3)] by (simp add: ptslots_iff)
  then show "pt_at (phys s) (d, pdx va) < npage s"
    using assms(1) by (simp add: vm_inv_def vm_struct_def)
  show "frame_of (phys s d (pdx va)) = pt_at (phys s) (d, pdx va)" by (simp add: pt_at_def)
qed

end
