(* ===== verification/Vm_Ops.thy ===== *)
theory Vm_Ops
  imports Vm
begin

text \<open>
  What \<open>pgdir_walk\<close>, \<open>page_remove\<close>, \<open>page_insert\<close> and \<open>page_alloc\<close> do on every branch, under
  the invariant of theory \<open>Vm\<close>: the pages they take and release, the map they leave, and
  that the invariant holds again.
\<close>

unbundle bit_operations_syntax

section \<open>pgdir_walk\<close>

lemma pgdir_walk_absent:
  "\<not> present (phys s d (pdx va)) \<Longrightarrow> pgdir_walk s d va False = Some (Inr None, s)"
  by (simp add: pgdir_walk_def)

lemma pgdir_walk_found:
  assumes "vm_inv s D fl X" "d \<in> D" "va < UTOP" "present (phys s d (pdx va))"
  shows "pgdir_walk s d va c = Some (Inr (Some (pt_at (phys s) (d, pdx va), ptx va)), s)"
  using vm_inv_pt [OF assms] assms(4)
  by (simp add: pgdir_walk_def walk_result_def KADDR_frame)

lemma pgdir_walk_no_mem:
  assumes "vm_inv s D [] X" "\<not> present (phys s d (pdx va))"
  shows "pgdir_walk s d va True = Some (Inl E_NO_MEM, s)"
  using assms by (simp add: pgdir_walk_def vm_inv_def free_ok_def page_alloc_empty)

definition PDE :: "nat \<Rightarrow> u32" where
  "PDE p = page2pa p OR PTE_W OR PTE_U OR PTE_P"

lemma PDE_entry: "p < 2 ^ 20 \<Longrightarrow> frame_of (PDE p) = p" "p < 2 ^ 20 \<Longrightarrow> present (PDE p)"
proof -
  have e: "PDE p = page2pa p OR (PTE_W OR PTE_U) OR PTE_P" by (simp add: PDE_def or.assoc)
  have l: "low_bits (PTE_W OR PTE_U)" by (simp add: low_bits_def PTE_W_def PTE_U_def)
  show "p < 2 ^ 20 \<Longrightarrow> frame_of (PDE p) = p" "p < 2 ^ 20 \<Longrightarrow> present (PDE p)"
    using frame_of_entry [OF _ l] by (simp_all add: e)
qed

lemma pgdir_walk_create:
  assumes inv: "vm_inv s D (p # fl) X" and d: "d \<in> D" and va: "va < UTOP"
    and np: "\<not> present (phys s d (pdx va))"
  shows "\<exists>s'. pgdir_walk s d va True = Some (Inr (Some (p, ptx va)), s') \<and> vm_inv s' D fl X
      \<and> mem_only s s' \<and> phys s' = put_table (phys s) p d (pdx va) (PDE p)
      \<and> pp_ref s' = (pp_ref s)(p := 1) \<and> invlpgs s' = invlpgs s"
proof -
  have free: "p \<notin> D" "p \<notin> pt_at (phys s) ` ptslots (phys s) D"
      "p \<notin> leaf_at (phys s) ` leafslots (phys s) D" "X p = 0" "p < npage s"
    using free_not_used [OF inv, of p] by simp_all
  have st: "vm_struct (phys s) (npage s) D" and ct: "vm_count (phys s) D X (pp_ref s)"
    and fo: "free_ok s D (p # fl)" using inv by (simp_all add: vm_inv_def)
  have p20: "p < 2 ^ 20" using st free(5) by (simp add: vm_struct_def)
  have lr: "list_repr (page_free_list s) (p # fl)" and r0: "pp_ref s p = 0"
    and rest: "\<forall>x \<in> set fl. x < npage s \<and> pp_ref s x = 0 \<and> x \<notin> D"
    using fo by (simp_all add: free_ok_def)
  obtain q where al: "page_alloc s = Some (Inr p, s\<lparr>page_free_list := q\<rparr>)" and q: "list_repr q fl"
    using page_alloc_cons [OF lr] by blast
  have pfl: "p \<notin> set fl" using qm.distinct [OF lr] by simp
  let ?s4 = "set_phys (page_incref (bzero_page (s\<lparr>page_free_list := q\<rparr>) p) p) d (pdx va) (PDE p)"
  have ph: "phys ?s4 = put_table (phys s) p d (pdx va) (PDE p)"
    by (simp add: put_table_def bzero_page_def)
  have dd: "d \<noteq> p" using d free(1) by auto
  have np4: "npage ?s4 = npage s" by simp
  have res: "walk_result ?s4 d va = Some (Inr (Some (p, ptx va)), ?s4)"
  proof -
    have e: "phys ?s4 d (pdx va) = PDE p" unfolding ph by (simp add: put_table_def put_word_def)
    have "KADDR ?s4 (PTE_ADDR (PDE p)) = Some (frame_of (PDE p))"
      by (rule KADDR_frame) (simp add: PDE_entry [OF p20] free(5))
    then show ?thesis unfolding walk_result_def e by (simp add: PDE_entry [OF p20])
  qed
  have walk: "pgdir_walk s d va True = Some (Inr (Some (p, ptx va)), ?s4)"
    using np p20 free(5) al
    by (simp add: pgdir_walk_def page2kva_page Let_def flip: PDE_def res)
  have "vm_struct (phys ?s4) (npage ?s4) D"
    unfolding ph np4 by (rule put_table_struct [OF st d pdx_user [OF va] np free(1,2,3,5)])
      (simp_all add: PDE_entry [OF p20])
  moreover have "vm_count (phys ?s4) D X (pp_ref ?s4)"
  proof -
    have "refs (phys ?s4) D x + X x \<le> unat (pp_ref ?s4 x)" for x
    proof -
      have "refs (phys ?s4) D x = refs (phys s) D x + (if x = p then 1 else 0)"
        unfolding ph by (rule put_table_refs [OF st d pdx_user [OF va] np free(1,2)])
          (simp_all add: PDE_entry [OF p20])
      moreover have "refs (phys s) D x + X x \<le> unat (pp_ref s x)"
        using ct by (simp add: vm_count_def)
      ultimately show ?thesis using r0 by auto
    qed
    then show ?thesis by (simp only: vm_count_def) simp
  qed
  moreover have "free_ok ?s4 D fl" using q rest pfl by (auto simp: free_ok_def)
  moreover have "mem_only s ?s4"
    by (simp add: mem_only_def set_phys_def bzero_page_def page_incref_def)
  moreover have "pp_ref ?s4 = (pp_ref s)(p := 1)" using r0 by simp
  moreover have "invlpgs ?s4 = invlpgs s" by (simp add: set_phys_def bzero_page_def page_incref_def)
  ultimately show ?thesis using walk ph by (auto simp only: vm_inv_def)
qed

section \<open>page_remove\<close>

text \<open>
  What a removal does to the counts: the old page of the address loses one reference, goes to
  the free list when that was its last one, and the entry is flushed from the processor when
  the directory is the current one or none is.
\<close>

definition active_dir :: "kstate \<Rightarrow> nat \<Rightarrow> bool" where
  "active_dir s d \<longleftrightarrow> (case curenv s of None \<Rightarrow> True | Some e \<Rightarrow> env_pgdir (envs s e) = Some d)"

definition released :: "kstate \<Rightarrow> nat list \<Rightarrow> nat \<Rightarrow> u32 \<Rightarrow> kstate \<Rightarrow> nat list \<Rightarrow> bool" where
  "released s fl d va s' fl' \<longleftrightarrow>
     (case vm_lookup (phys s) d va of
        None \<Rightarrow> s' = s \<and> fl' = fl
      | Some w \<Rightarrow>
          pp_ref s' = (pp_ref s)(frame_of w := pp_ref s (frame_of w) - 1)
          \<and> fl' = (if pp_ref s (frame_of w) = 1 then frame_of w # fl else fl)
          \<and> invlpgs s' = invlpgs s @ (if active_dir s d then [va] else []))"

text \<open>
  By how much the count of a page exceeds the entries of a directory that name it: removals
  from that directory keep it, and a page without references is on the free list.
\<close>

definition slack :: "kstate \<Rightarrow> nat \<Rightarrow> nat \<Rightarrow> u16" where
  "slack s d p = pp_ref s p - of_nat (refs (phys s) {d} p)"

definition gives_back :: "kstate \<Rightarrow> nat list \<Rightarrow> nat \<Rightarrow> kstate \<Rightarrow> nat list \<Rightarrow> bool" where
  "gives_back s fl d s' fl' \<longleftrightarrow>
     set fl \<subseteq> set fl' \<and> (\<forall>p. pp_ref s p \<noteq> 0 \<and> pp_ref s' p = 0 \<longrightarrow> p \<in> set fl') \<and> (\<forall>p. slack s' d p = slack s d p)"

lemma gives_back_refl: "gives_back s fl d s fl"
  by (simp add: gives_back_def)

lemma gives_back_trans: "gives_back s fl d s1 fl1 \<Longrightarrow> gives_back s1 fl1 d s2 fl2 \<Longrightarrow> gives_back s fl d s2 fl2"
  by (auto simp: gives_back_def)

lemma vm_struct_one:
  assumes "vm_struct m n D" "d \<in> D"
  shows "vm_struct m n {d}"
proof -
  have p: "ptslots m {d} \<subseteq> ptslots m D" using assms(2) by (auto simp: ptslots_def)
  then have l: "leafslots m {d} \<subseteq> leafslots m D" by (auto simp: leafslots_def)
  show ?thesis
    using assms p l inj_on_subset [of "pt_at m" "ptslots m D" "ptslots m {d}"]
    unfolding vm_struct_def by blast
qed

text \<open>One reference less in a directory and in the count of the page that it names.\<close>

lemma gives_back_decref:
  assumes "pp_ref s' = (pp_ref s)(p := pp_ref s p - 1)" "fl' = (if pp_ref s p = 1 then p # fl else fl)"
    "\<And>q. refs (phys s') {d} q + (if p = q then 1 else 0) = refs (phys s) {d} q"
  shows "gives_back s fl d s' fl'"
proof -
  have "slack s' d q = slack s d q" for q
  proof -
    let ?x = "of_nat (if p = q then 1 else 0) :: u16"
    have a: "pp_ref s' q = pp_ref s q - ?x" by (simp only: assms(1) fun_upd_apply split: if_split) simp
    have b: "of_nat (refs (phys s) {d} q) = of_nat (refs (phys s') {d} q) + ?x"
      unfolding assms(3) [of q, symmetric] of_nat_add ..
    show ?thesis unfolding slack_def a b by (simp only: diff_diff_eq add.commute)
  qed
  moreover have "q \<in> set fl'" if "pp_ref s q \<noteq> 0" "pp_ref s' q = 0" for q
    using that assms(1,2) by (auto split: if_splits)
  ultimately show ?thesis using assms(2) by (auto simp: gives_back_def)
qed

lemma vm_count_put_leaf_drop:
  assumes st: "vm_struct m n D" and ct: "vm_count m D X r" and x: "(x, j) \<in> leafslots m D"
  shows "vm_count (put_word m (pt_at m x) j 0) D X
      (r(leaf_at m (x, j) := r (leaf_at m (x, j)) - 1))"
proof -
  have x': "x \<in> ptslots m D" "j < 1024" using x by (simp_all add: leafslots_iff)
  have r: "refs (put_word m (pt_at m x) j 0) D p + (if leaf_at m (x, j) = p then 1 else 0)
      = refs m D p" for p
    using put_leaf_refs [OF st x', of 0 p] x by simp
  show ?thesis
  proof (rule vm_count_decref [OF ct])
    show "refs m D (leaf_at m (x, j)) = refs (put_word m (pt_at m x) j 0) D (leaf_at m (x, j)) + 1"
      using r [of "leaf_at m (x, j)"] by simp
    show "refs (put_word m (pt_at m x) j 0) D p' = refs m D p'" if "p' \<noteq> leaf_at m (x, j)" for p'
      using r [of p'] that by simp
  qed
qed

lemma page_remove_absent:
  assumes inv: "vm_inv s D fl X" and d: "d \<in> D" and va: "va < UTOP"
    and no: "vm_lookup (phys s) d va = None"
  shows "page_remove s d va = Some s"
proof (cases "present (phys s d (pdx va))")
  case False
  then show ?thesis by (simp add: page_remove_def pgdir_walk_absent)
next
  case True
  then have "\<not> present (phys s (pt_at (phys s) (d, pdx va)) (ptx va))"
    using no vm_inv_pt(3) [OF inv d va True]
    by (simp add: vm_lookup_def Let_def split: if_splits)
  then show ?thesis by (simp add: page_remove_def pgdir_walk_found [OF inv d va True])
qed

lemma page_remove_present:
  assumes inv: "vm_inv s D fl X" and d: "d \<in> D" and va: "va < UTOP"
    and w: "vm_lookup (phys s) d va = Some w"
  defines "p \<equiv> frame_of w"
  shows "\<exists>s'. page_remove s d va = Some s' \<and> mem_only s s'
      \<and> vm_inv s' D (if pp_ref s p = 1 then p # fl else fl) X
      \<and> phys s' = put_word (phys s) (pt_at (phys s) (d, pdx va)) (ptx va) 0
      \<and> pp_ref s' = (pp_ref s)(p := pp_ref s p - 1)
      \<and> invlpgs s' = invlpgs s @ (if active_dir s d then [va] else [])"
proof -
  let ?x = "(d, pdx va)"
  let ?t = "pt_at (phys s) ?x"
  note l = vm_inv_leaf [OF inv w d va, folded p_def]
  have pr: "present (phys s d (pdx va))" using vm_lookup_pde [OF w] by simp
  have tw: "phys s ?t (ptx va) = w" using vm_lookup_pde [OF w] by (simp add: pt_at_def)
  have pw: "present w" using vm_lookup_pde [OF w] by blast
  let ?s2 = "page_decref s p"
  let ?s' = "tlb_invalidate (set_phys ?s2 ?t (ptx va) 0) d va"
  have run: "page_remove s d va = Some ?s'"
    using l(4) by (simp add: page_remove_def pgdir_walk_found [OF inv d va pr] tw pw
        pa2page_frame p_def Let_def)
  have st: "vm_struct (phys s) (npage s) D" and ct: "vm_count (phys s) D X (pp_ref s)"
    and fo: "free_ok s D fl" using inv by (simp_all add: vm_inv_def)
  have ph: "phys ?s' = put_word (phys s) ?t (ptx va) 0" by simp
  have rf: "pp_ref ?s' = (pp_ref s)(p := pp_ref s p - 1)" by simp
  have mo: "mem_only s ?s'" by (rule mem_only_trans, rule mem_only_ops(3))
      (rule mem_only_trans, rule mem_only_intros(1), rule mem_only_ops(5))
  have np: "npage ?s' = npage s" by simp
  have inl: "invlpgs ?s' = invlpgs s @ (if active_dir s d then [va] else [])"
    by (auto simp: tlb_invalidate_def active_dir_def set_phys_def page_decref_def page_free_def page_initpp_def Let_def
        split: option.splits)
  have "vm_struct (phys ?s') (npage ?s') D"
    unfolding ph np by (rule put_leaf_struct [OF st l(2) ptx_less]) simp
  moreover have "vm_count (phys ?s') D X (pp_ref ?s')"
    using vm_count_put_leaf_drop [OF st ct l(1)] unfolding l(3) ph rf .
  moreover have "free_ok ?s' D (if pp_ref s p = 1 then p # fl else fl)"
  proof -
    have "list_repr (page_free_list ?s') (if pp_ref s p = 1 then p # fl else fl)"
      using page_decref_list [of s fl p] fo l(5) by (simp add: free_ok_def set_phys_def)
    then show ?thesis using fo l(4,5,6) by (auto simp: free_ok_def rf)
  qed
  ultimately show ?thesis using run ph rf mo inl by (auto simp only: vm_inv_def)
qed

section \<open>page_insert\<close>

text \<open>A page that an address space may map: one in use, and not a page of the tables.\<close>

definition data_page :: "kstate \<Rightarrow> nat set \<Rightarrow> nat list \<Rightarrow> nat \<Rightarrow> bool" where
  "data_page s D fl p \<longleftrightarrow>
     p < npage s \<and> p \<notin> set fl \<and> p \<notin> D \<and> p \<notin> pt_at (phys s) ` ptslots (phys s) D"

lemma data_page_leaf:
  assumes "vm_inv s D fl X" "vm_lookup (phys s) d va = Some w" "d \<in> D" "va < UTOP"
  shows "data_page s D fl (frame_of w)"
  using vm_inv_leaf [OF assms] by (simp add: data_page_def)

lemma vm_inv_incref:
  assumes inv: "vm_inv s D fl X" and p: "p \<notin> set fl" "unat (pp_ref s p) < 65535"
  shows "vm_inv (page_incref s p) D fl (X(p := X p + 1))"
  using assms vm_count_incref [of "phys s" D X "pp_ref s" p]
  by (auto simp: vm_inv_def free_ok_def)

text \<open>Memory that holds no page table and is not on the free list keeps its contents.\<close>

definition data_kept :: "kstate \<Rightarrow> nat set \<Rightarrow> nat list \<Rightarrow> kstate \<Rightarrow> bool" where
  "data_kept s D fl s' \<longleftrightarrow> (\<forall>p. data_page s D fl p \<longrightarrow> phys s' p = phys s p)"

text \<open>The walk with creation, as one fact: out of memory, or an entry of a page table.\<close>

lemma pgdir_walk_true:
  assumes inv: "vm_inv s D fl X" and d: "d \<in> D" and va: "va < UTOP"
  shows "(\<not> present (phys s d (pdx va)) \<and> fl = []
          \<and> pgdir_walk s d va True = Some (Inl E_NO_MEM, s))
    \<or> (\<exists>s' fl' t. pgdir_walk s d va True = Some (Inr (Some (t, ptx va)), s')
          \<and> vm_inv s' D fl' X \<and> mem_only s s' \<and> set fl' \<subseteq> set fl \<and> invlpgs s' = invlpgs s
          \<and> (d, pdx va) \<in> ptslots (phys s') D \<and> t = pt_at (phys s') (d, pdx va)
          \<and> ptslots (phys s') D \<subseteq> insert (d, pdx va) (ptslots (phys s) D)
          \<and> (\<forall>p. data_page s D fl p \<longrightarrow> data_page s' D fl' p \<and> phys s' p = phys s p
                \<and> pp_ref s' p = pp_ref s p)
          \<and> (\<forall>d' \<in> D. \<forall>va' < UTOP. vm_lookup (phys s') d' va' = vm_lookup (phys s) d' va'))"
proof (cases "present (phys s d (pdx va))")
  case True
  have "pgdir_walk s d va True = Some (Inr (Some (pt_at (phys s) (d, pdx va), ptx va)), s)"
    by (rule pgdir_walk_found [OF inv d va True])
  then show ?thesis using inv vm_inv_pt(1) [OF inv d va True] by auto
next
  case False
  show ?thesis
  proof (cases fl)
    case Nil
    then show ?thesis using pgdir_walk_no_mem [of s D X d va] inv False by simp
  next
    case (Cons q fl')
    let ?m = "put_table (phys s) q d (pdx va) (PDE q)"
    have st: "vm_struct (phys s) (npage s) D" using inv by (simp add: vm_inv_def)
    note free = free_not_used [OF inv, of q, unfolded Cons, simplified]
    have q20: "q < 2 ^ 20" using st free(5) by (simp add: vm_struct_def)
    note sl = put_table_slots [OF st d pdx_user [OF va] False free(1,2)
        PDE_entry(2) [OF q20] PDE_entry(1) [OF q20]]
    obtain s' where w: "pgdir_walk s d va True = Some (Inr (Some (q, ptx va)), s')"
        "vm_inv s' D fl' X" "mem_only s s'" and ph: "phys s' = ?m"
        and rf: "pp_ref s' = (pp_ref s)(q := 1)" and inl: "invlpgs s' = invlpgs s"
      using pgdir_walk_create [OF inv [unfolded Cons] d va False] by blast
    have im: "pt_at ?m ` ptslots ?m D = insert q (pt_at (phys s) ` ptslots (phys s) D)"
      using sl(1,2,3) by (auto simp: image_iff)
    have "data_page s' D fl' p \<and> phys s' p = phys s p \<and> pp_ref s' p = pp_ref s p"
      if "data_page s D fl p" for p
      using that d im mem_only_fields(1) [OF w(3)] rf
      by (auto simp: data_page_def ph Cons put_table_def put_word_def)
    moreover have "\<forall>d' \<in> D. \<forall>va' < UTOP. vm_lookup (phys s') d' va' = vm_lookup (phys s) d' va'"
      unfolding ph using put_table_lookup [OF st d pdx_user [OF va] False free(1,2)
          PDE_entry(2) [OF q20] PDE_entry(1) [OF q20]] by simp
    moreover have "(d, pdx va) \<in> ptslots (phys s') D" "q = pt_at (phys s') (d, pdx va)"
        "ptslots (phys s') D \<subseteq> insert (d, pdx va) (ptslots (phys s) D)"
      unfolding ph using sl(1,3) by simp_all
    ultimately show ?thesis using w Cons inl by auto
  qed
qed


text \<open>The removal, as one fact: the entry is gone, everything else is as before.\<close>

lemma page_remove_ok:
  assumes inv: "vm_inv s D fl X" and d: "d \<in> D" and va: "va < UTOP"
  shows "\<exists>s' fl'. page_remove s d va = Some s' \<and> mem_only s s' \<and> vm_inv s' D fl' X
      \<and> (\<forall>d' \<in> D. \<forall>va' < UTOP. vm_lookup (phys s') d' va' =
            (if d' = d \<and> VPN va' = VPN va then None else vm_lookup (phys s) d' va'))
      \<and> ptslots (phys s') D = ptslots (phys s) D
      \<and> (\<forall>z \<in> ptslots (phys s) D. pt_at (phys s') z = pt_at (phys s) z)
      \<and> (\<forall>p. data_page s D fl p \<longrightarrow> phys s' p = phys s p)
      \<and> (\<forall>p. data_page s D fl p \<and> (pp_ref s p \<noteq> 1 \<or> X p \<noteq> 0) \<longrightarrow> data_page s' D fl' p)
      \<and> released s fl d va s' fl' \<and> gives_back s fl d s' fl'"
proof (cases "vm_lookup (phys s) d va")
  case None
  have "vm_lookup (phys s) d va' = None" if "VPN va' = VPN va" for va'
    using None that pdx_ptx_VPN [of va' va]
    by (auto simp: vm_lookup_def Let_def split: if_splits)
  then show ?thesis using page_remove_absent [OF inv d va None] inv None gives_back_refl
    by (auto simp: released_def)
next
  case (Some w)
  let ?fl = "if pp_ref s (frame_of w) = 1 then frame_of w # fl else fl"
  obtain s' where s': "page_remove s d va = Some s'" "mem_only s s'" "vm_inv s' D ?fl X"
      and ph: "phys s' = put_word (phys s) (pt_at (phys s) (d, pdx va)) (ptx va) 0"
      and rf: "pp_ref s' = (pp_ref s)(frame_of w := pp_ref s (frame_of w) - 1)"
      and inl: "invlpgs s' = invlpgs s @ (if active_dir s d then [va] else [])"
    using page_remove_present [OF inv d va Some] by blast
  have rel: "released s fl d va s' ?fl" using Some rf inl by (simp add: released_def)
  have st: "vm_struct (phys s) (npage s) D" using inv by (simp add: vm_inv_def)
  have x: "(d, pdx va) \<in> ptslots (phys s) D" by (rule vm_inv_leaf(2) [OF inv Some d va])
  have x1: "(d, pdx va) \<in> ptslots (phys s) {d}" using x by (simp add: ptslots_iff)
  have y1: "((d, pdx va), ptx va) \<in> leafslots (phys s) {d}"
    using vm_inv_leaf(1) [OF inv Some d va] x1 by (simp add: leafslots_iff)
  have gb: "gives_back s fl d s' ?fl"
  proof (rule gives_back_decref [OF rf refl])
    show "refs (phys s') {d} q + (if frame_of w = q then 1 else 0) = refs (phys s) {d} q" for q
      using put_leaf_refs [OF vm_struct_one [OF st d] x1 ptx_less [of va], of 0 q] y1 vm_inv_leaf(3) [OF inv Some d va]
      by (simp add: ph)
  qed
  note sl = put_leaf_slots [OF st x ptx_less, where w = 0 and va1 = va, folded ph]
  have im: "pt_at (phys s') ` ptslots (phys s) D = pt_at (phys s) ` ptslots (phys s) D"
    using sl(2) by (auto simp: image_iff)
  have "phys s' p = phys s p" if "data_page s D fl p" for p
    using that x by (auto simp: data_page_def ph put_word_def)
  moreover have "data_page s' D ?fl p" if "data_page s D fl p" "pp_ref s p \<noteq> 1 \<or> X p \<noteq> 0" for p
  proof -
    have "1 \<le> refs (phys s) D (frame_of w)"
      using refs_leaf [OF _ vm_inv_leaf(1) [OF inv Some d va]] vm_inv_leaf(3) [OF inv Some d va] st
      by (simp add: vm_struct_def)
    moreover have "refs (phys s) D (frame_of w) + X (frame_of w) \<le> unat (pp_ref s (frame_of w))"
      using inv by (simp add: vm_inv_def vm_count_def)
    ultimately have "p \<noteq> frame_of w \<or> pp_ref s (frame_of w) \<noteq> 1" using that(2) by auto
    then show ?thesis
      using that(1) sl(1) im mem_only_fields(1) [OF s'(2)] by (auto simp: data_page_def)
  qed
  moreover have "\<forall>d' \<in> D. \<forall>va' < UTOP. vm_lookup (phys s') d' va' =
            (if d' = d \<and> VPN va' = VPN va then None else vm_lookup (phys s) d' va')"
    unfolding ph using put_leaf_lookup [OF st x, of _ _ 0] by auto
  ultimately show ?thesis using s' sl(1,2) rel gb by blast
qed

lemma vm_count_put_leaf_add:
  assumes st: "vm_struct m n D" and ct: "vm_count m D (X(p := X p + 1)) r"
    and x: "x \<in> ptslots m D" "j < 1024" "(x, j) \<notin> leafslots m D" and w: "frame_of w = p"
  shows "vm_count (put_word m (pt_at m x) j w) D X r"
proof -
  have "refs (put_word m (pt_at m x) j w) D p' + X p' \<le> refs m D p' + (X(p := X p + 1)) p'" for p'
    using put_leaf_refs [OF st x(1,2), of w p'] x(3) w by auto
  moreover have "refs m D p' + (X(p := X p + 1)) p' \<le> unat (r p')" for p'
    using ct unfolding vm_count_def by blast
  ultimately have "refs (put_word m (pt_at m x) j w) D p' + X p' \<le> unat (r p')" for p'
    by (rule order_trans)
  then show ?thesis by (simp add: vm_count_def)
qed

definition leaf_entry :: "nat \<Rightarrow> u32 \<Rightarrow> u32" where
  "leaf_entry p perm = page2pa p OR perm OR PTE_P"

lemma leaf_entry:
  "p < 2 ^ 20 \<Longrightarrow> low_bits perm \<Longrightarrow> frame_of (leaf_entry p perm) = p"
  "p < 2 ^ 20 \<Longrightarrow> low_bits perm \<Longrightarrow> present (leaf_entry p perm)"
  by (simp_all add: leaf_entry_def frame_of_entry)

definition insert_pre :: "kstate \<Rightarrow> nat set \<Rightarrow> nat list \<Rightarrow> nat \<Rightarrow> u32 \<Rightarrow> bool" where
  "insert_pre s D fl p perm \<longleftrightarrow>
     data_page s D fl p \<and> low_bits perm \<and> unat (pp_ref s p) < 65535"

text \<open>
  The insertion, as one fact: out of memory with nothing changed, or a map update. The page gains
  a reference, and the page that was mapped at the address loses one and is freed if it was its last.
\<close>

definition maps_to :: "kstate \<Rightarrow> nat \<Rightarrow> u32 \<Rightarrow> nat \<Rightarrow> bool" where
  "maps_to s d va q \<longleftrightarrow> (\<exists>w. vm_lookup (phys s) d va = Some w \<and> frame_of w = q)"

definition replaced :: "kstate \<Rightarrow> nat set \<Rightarrow> nat list \<Rightarrow> nat \<Rightarrow> nat \<Rightarrow> u32 \<Rightarrow> kstate \<Rightarrow> nat list \<Rightarrow> bool" where
  "replaced s D fl d p va s' fl' \<longleftrightarrow>
     (\<forall>q. data_page s D fl q \<longrightarrow>
        pp_ref s' q = pp_ref s q + (if q = p then 1 else 0) - (if maps_to s d va q then 1 else 0)
        \<and> (q \<in> set fl' \<longleftrightarrow> q \<noteq> p \<and> maps_to s d va q \<and> pp_ref s q = 1))
     \<and> invlpgs s' = invlpgs s @ (if vm_lookup (phys s) d va \<noteq> None \<and> active_dir s d then [va] else [])"

definition inserted ::
    "kstate \<Rightarrow> nat set \<Rightarrow> nat list \<Rightarrow> nat \<Rightarrow> nat \<Rightarrow> u32 \<Rightarrow> u32 \<Rightarrow> kstate \<Rightarrow> nat list \<Rightarrow> bool" where
  "inserted s D fl d p va perm s' fl' \<longleftrightarrow>
     mem_only s s' \<and> data_page s' D fl' p
     \<and> ptslots (phys s') D \<subseteq> insert (d, pdx va) (ptslots (phys s) D)
     \<and> (\<forall>d' \<in> D. \<forall>va' < UTOP. vm_lookup (phys s') d' va' =
            (if d' = d \<and> VPN va' = VPN va then Some (leaf_entry p perm)
             else vm_lookup (phys s) d' va'))
     \<and> (\<forall>q. data_page s D fl q \<longrightarrow> phys s' q = phys s q)
     \<and> replaced s D fl d p va s' fl'"

lemma page_insert_ok:
  assumes inv: "vm_inv s D fl X" and d: "d \<in> D" and va: "va < UTOP" and pre: "insert_pre s D fl p perm"
  shows "(\<not> present (phys s d (pdx va)) \<and> fl = []
          \<and> page_insert s d p va perm = Some (Inl E_NO_MEM, s))
    \<or> (\<exists>s' fl'. page_insert s d p va perm = Some (Inr (), s') \<and> vm_inv s' D fl' X
          \<and> inserted s D fl d p va perm s' fl')"
proof -
  let ?X = "X(p := X p + 1)"
  let ?s1 = "page_incref s p"
  have dp: "data_page s D fl p" and lb: "low_bits perm" and r: "unat (pp_ref s p) < 65535"
    using pre by (simp_all add: insert_pre_def)
  have p20: "p < 2 ^ 20" using dp inv by (simp add: data_page_def vm_inv_def vm_struct_def)
  have inv1: "vm_inv ?s1 D fl ?X"
    by (rule vm_inv_incref [OF inv _ r]) (use dp in \<open>simp add: data_page_def\<close>)
  have dp1: "data_page ?s1 D fl q \<longleftrightarrow> data_page s D fl q" for q by (simp add: data_page_def)
  show ?thesis
  proof (cases "\<not> present (phys s d (pdx va)) \<and> fl = []")
    case True
    then have "pgdir_walk ?s1 d va True = Some (Inl E_NO_MEM, ?s1)"
      using pgdir_walk_no_mem [of ?s1 D ?X d va] inv1 by simp
    then have "page_insert s d p va perm
        = Some (Inl E_NO_MEM, ?s1\<lparr>pp_ref := (pp_ref ?s1)(p := pp_ref ?s1 p - 1)\<rparr>)"
      by (simp add: page_insert_def Let_def)
    moreover have "?s1\<lparr>pp_ref := (pp_ref ?s1)(p := pp_ref ?s1 p - 1)\<rparr> = s"
      by (simp add: page_incref_def)
    ultimately show ?thesis using True by simp
  next
    case False
    then obtain s2 fl2 t where w: "pgdir_walk ?s1 d va True = Some (Inr (Some (t, ptx va)), s2)"
        and inv2: "vm_inv s2 D fl2 ?X" and mo2: "mem_only ?s1 s2" and il2: "invlpgs s2 = invlpgs ?s1"
        and x: "(d, pdx va) \<in> ptslots (phys s2) D" and t: "t = pt_at (phys s2) (d, pdx va)"
        and dp2: "\<And>q. data_page s D fl q \<Longrightarrow> data_page s2 D fl2 q \<and> phys s2 q = phys s q
              \<and> pp_ref s2 q = pp_ref ?s1 q"
        and sub2: "ptslots (phys s2) D \<subseteq> insert (d, pdx va) (ptslots (phys s) D)"
        and lk2: "\<forall>d' \<in> D. \<forall>va' < UTOP. vm_lookup (phys s2) d' va' = vm_lookup (phys s) d' va'"
      using pgdir_walk_true [OF inv1 d va] by (auto simp: dp1)
    obtain s3 fl3 where rm: "page_remove s2 d va = Some s3" and mo3: "mem_only s2 s3"
        and inv3: "vm_inv s3 D fl3 ?X"
        and lk3: "\<forall>d' \<in> D. \<forall>va' < UTOP. vm_lookup (phys s3) d' va' =
            (if d' = d \<and> VPN va' = VPN va then None else vm_lookup (phys s2) d' va')"
        and pt3: "ptslots (phys s3) D = ptslots (phys s2) D"
            "\<forall>z \<in> ptslots (phys s2) D. pt_at (phys s3) z = pt_at (phys s2) z"
        and dp3: "\<And>q. data_page s2 D fl2 q \<Longrightarrow> phys s3 q = phys s2 q"
            "\<And>q. data_page s2 D fl2 q \<Longrightarrow> ?X q \<noteq> 0 \<Longrightarrow> data_page s3 D fl3 q"
        and rel3: "released s2 fl2 d va s3 fl3"
      using page_remove_ok [OF inv2 d va] by blast
    let ?w = "leaf_entry p perm"
    let ?s' = "set_phys s3 t (ptx va) ?w"
    have x3: "(d, pdx va) \<in> ptslots (phys s3) D" and t3: "t = pt_at (phys s3) (d, pdx va)"
      using x t pt3 by simp_all
    have dp: "data_page s3 D fl3 p" using dp2 [OF dp] dp3(2) [of p] by simp
    have st3: "vm_struct (phys s3) (npage s3) D" using inv3 by (simp add: vm_inv_def)
    have ph: "phys ?s' = put_word (phys s3) (pt_at (phys s3) (d, pdx va)) (ptx va) ?w"
      using t3 by simp
    note le = leaf_entry [OF p20 lb]
    have nl: "((d, pdx va), ptx va) \<notin> leafslots (phys s3) D"
      using lk3 d va vm_lookup_slot [OF d va, of "phys s3"] by auto
    have run: "page_insert s d p va perm = Some (Inr (), ?s')"
      using w rm by (simp add: page_insert_def Let_def leaf_entry_def)
    have inv': "vm_inv ?s' D fl3 X"
    proof -
      have "vm_struct (phys ?s') (npage ?s') D"
        unfolding ph set_phys_frame
        by (rule put_leaf_struct [OF st3 x3 ptx_less]) (use dp in \<open>simp add: le data_page_def\<close>)
      moreover have "vm_count (phys ?s') D X (pp_ref ?s')"
        unfolding ph set_phys_frame
        by (rule vm_count_put_leaf_add [OF st3 _ x3 ptx_less nl le(1)])
          (use inv3 in \<open>simp add: vm_inv_def\<close>)
      moreover have "free_ok ?s' D fl3" using inv3 by (simp add: vm_inv_def free_ok_def)
      ultimately show ?thesis by (simp only: vm_inv_def simp_thms)
    qed
    have mo: "mem_only s ?s'"
      by (meson mem_only_trans mem_only_ops(4) mo2 mo3 mem_only_intros(1))
    have dp': "data_page ?s' D fl3 p"
      using dp put_leaf_slots(1,2) [OF st3 x3 ptx_less, where w = ?w and va1 = va]
      unfolding data_page_def ph by auto
    have "vm_lookup (phys ?s') d' va' =
          (if d' = d \<and> VPN va' = VPN va then Some ?w else vm_lookup (phys s) d' va')"
      if "d' \<in> D" "va' < UTOP" for d' va'
      unfolding ph put_leaf_lookup [OF st3 x3 that] using that lk2 lk3 le(2) by simp
    moreover have "phys ?s' q = phys s q" if "data_page s D fl q" for q
    proof -
      have "data_page s2 D fl2 q" "phys s2 q = phys s q" using dp2 [OF that] by simp_all
      moreover from this(1) have "t \<noteq> q" using x t by (auto simp: data_page_def)
      ultimately show ?thesis using dp3(1) by (simp add: put_word_def)
    qed
    moreover have "ptslots (phys ?s') D \<subseteq> insert (d, pdx va) (ptslots (phys s) D)"
      unfolding ph using put_leaf_slots(1) [OF st3 x3 ptx_less, of va ?w] pt3(1) sub2 by simp
    moreover have "replaced s D fl d p va ?s' fl3"
    proof -
      have lk: "vm_lookup (phys s2) d va = vm_lookup (phys s) d va" using lk2 d va by simp
      have ac: "active_dir s2 d = active_dir s d"
        using mem_only_fields(2,4) [OF mo2] by (cases "curenv s") (simp_all add: active_dir_def page_incref_def)
      have np: "p \<notin> set fl3" using dp by (simp add: data_page_def)
      have "pp_ref s3 q = pp_ref s q + (if q = p then 1 else 0) - (if maps_to s d va q then 1 else 0)
          \<and> (q \<in> set fl3 \<longleftrightarrow> q \<noteq> p \<and> maps_to s d va q \<and> pp_ref s q = 1)"
        if q: "data_page s D fl q" for q
      proof -
        have "pp_ref s2 q = pp_ref s q + (if q = p then 1 else 0)" "q \<notin> set fl2"
          using dp2 [OF q] by (auto simp: page_incref_def data_page_def)
        then show ?thesis using rel3 np unfolding released_def lk maps_to_def
          by (auto split: option.splits if_splits)
      qed
      moreover have "invlpgs s3 = invlpgs s @ (if vm_lookup (phys s) d va \<noteq> None \<and> active_dir s d then [va] else [])"
        using rel3 il2 unfolding released_def lk ac by (auto simp: page_incref_def split: option.splits)
      ultimately show ?thesis by (simp add: replaced_def set_phys_def)
    qed
    ultimately have "inserted s D fl d p va perm ?s' fl3"
      using mo dp' by (simp add: inserted_def)
    then show ?thesis using run inv' by blast
  qed
qed

end
