(* ===== verification/Env.thy ===== *)
theory Env
  imports Vm_Ops
begin

text \<open>
  Environments and scheduling: \<open>kern/env.c\<close> and \<open>kern/sched.c\<close>.

  A function that ends in \<open>env_run\<close> never comes back to its caller: \<open>Sched s\<close> is the state
  in which the processor resumes user code, with the registers of the chosen environment.
  The static counter of \<open>mkenvid\<close> is the field \<open>next_env_id\<close>. A null \<open>env_pgdir\<close> that the
  code would dereference gives \<open>None\<close>.
\<close>

unbundle bit_operations_syntax

datatype outcome = Ret kstate | Sched kstate

fun final :: "outcome \<Rightarrow> kstate" where
  "final (Ret s) = s"
| "final (Sched s) = s"

section \<open>Environment ids\<close>

definition mkenvid :: "kstate \<Rightarrow> nat \<Rightarrow> u32 \<times> kstate" where
  "mkenvid s e =
     (let n = next_env_id s + 1
      in (push_bit (1 + LOG2NENV) n OR of_nat e, s\<lparr>next_env_id := n\<rparr>))"

text \<open>\<open>Inr None\<close> is success with a null pointer, which \<open>envid = 0\<close> gives when no
  environment runs.\<close>

definition envid2env :: "kstate \<Rightarrow> u32 \<Rightarrow> bool \<Rightarrow> (error + nat option) option" where
  "envid2env s envid checkperm =
     (if envid = 0 then Some (Inr (curenv s))
      else
        let e = unat (ENVX envid) in
        if env_status (envs s e) = ENV_FREE \<or> env_id (envs s e) \<noteq> envid then Some (Inl E_BAD_ENV)
        else if checkperm then
          do {
            c \<leftarrow> curenv s;
            Some (if env_parent_id (envs s e) \<noteq> env_id (envs s c)
                     \<and> env_id (envs s e) \<noteq> env_id (envs s c)
                  then Inl E_BAD_ENV else Inr (Some e))
          }
        else Some (Inr (Some e)))"

section \<open>Creation\<close>

definition env_init_step :: "nat \<Rightarrow> kstate \<Rightarrow> kstate" where
  "env_init_step i s =
     (let s1 = upd_env s i (env_status_update (\<lambda>_. ENV_FREE))
      in s1\<lparr>env_free_list := LIST_INSERT_HEAD (env_free_list s1) i\<rparr>)"

definition env_init :: "kstate \<Rightarrow> kstate" where
  "env_init s = fold env_init_step (rev [0..<NENV]) (s\<lparr>env_free_list := LIST_INIT (env_free_list s)\<rparr>)"

definition copy_pde :: "nat \<Rightarrow> nat \<Rightarrow> kstate \<Rightarrow> kstate" where
  "copy_pde p i s = set_phys s p i (phys s (boot_pgdir s) i)"

definition env_setup_vm :: "kstate \<Rightarrow> nat \<Rightarrow> ((error + unit) \<times> kstate) option" where
  "env_setup_vm s e =
     do {
       (r, s1) \<leftarrow> page_alloc s;
       case r of
         Inl err \<Rightarrow> Some (Inl err, s1)
       | Inr p \<Rightarrow>
           do {
             kva \<leftarrow> page2kva s1 p;
             let cr = page2pa p;
             let s2 = upd_env s1 e (\<lambda>v. v\<lparr>env_cr3 := cr, env_pgdir := Some kva\<rparr>);
             let s3 = fold (copy_pde kva) [0..<1024] s2;
             let s4 = set_phys s3 kva (pdx VPT) (cr OR PTE_P OR PTE_W);
             let s5 = set_phys s4 kva (pdx UVPT) (cr OR PTE_P OR PTE_U);
             Some (Inr (), s5)
           }
     }"

definition new_tf :: "nat \<Rightarrow> trapframe \<Rightarrow> trapframe" where
  "new_tf e tf = tf\<lparr>tf_ds := ucast (GD_UD OR 3), tf_es := ucast (GD_UD OR 3), tf_ss := ucast (GD_UD OR 3),
      tf_esp := USTACKTOP, tf_cs := ucast (GD_UT OR 3), tf_eip := UTEXT + 0x20,
      tf_eflags := (if e = 1 then tf_eflags tf OR FL_IF OR (FL_IOPL0 OR FL_IOPL1)
                    else tf_eflags tf OR FL_IF)\<rparr>"

definition env_alloc :: "kstate \<Rightarrow> u32 \<Rightarrow> ((error + nat) \<times> kstate) option" where
  "env_alloc s parent_id =
     (case LIST_FIRST (env_free_list s) of
        None \<Rightarrow> Some (Inl E_NO_FREE_ENV, s)
      | Some e \<Rightarrow>
          do {
            (r, s1) \<leftarrow> env_setup_vm s e;
            case r of
              Inl err \<Rightarrow> Some (Inl err, s1)
            | Inr _ \<Rightarrow>
                do {
                  let (i, s2) = mkenvid s1 e;
                  let s3 = upd_env s2 e (\<lambda>v. v\<lparr>env_id := i, env_parent_id := parent_id,
                      env_status := ENV_RUNNABLE, env_tf := new_tf e (env_tf v),
                      env_ipc_recving := 0, env_pgfault_handler := 0, env_xstacktop := 0,
                      env_runs := 0\<rparr>);
                  q \<leftarrow> LIST_REMOVE (env_free_list s3) e;
                  let s4 = s3\<lparr>env_free_list := q\<rparr>;
                  Some (Inr e, kprintf_msg ''[%08x] new env %08x\<newline>'' [parent_id, i] s4)
                }
          })"

text \<open>\<open>bcopy\<close> of one page from the words of the binary to a page of memory.\<close>

definition copy_page :: "(nat \<Rightarrow> u32) \<Rightarrow> nat \<Rightarrow> nat \<Rightarrow> kstate \<Rightarrow> kstate" where
  "copy_page src off t s =
     s\<lparr>phys := (phys s)(t := (\<lambda>j. if j < 1024 then src (off + j) else phys s t j))\<rparr>"

fun load_pages :: "kstate \<Rightarrow> nat \<Rightarrow> (nat \<Rightarrow> u32) \<Rightarrow> nat list \<Rightarrow> kstate option" where
  "load_pages s d binary [] = Some s"
| "load_pages s d binary (i # is) =
     do {
       (r, s1) \<leftarrow> page_alloc s;
       case r of
         Inl _ \<Rightarrow> Some s1
       | Inr p \<Rightarrow>
           do {
             (_, s2) \<leftarrow> page_insert s1 d p (UTEXT + of_nat i * BY2PG) (PTE_W OR PTE_U);
             kva \<leftarrow> page2kva s2 p;
             load_pages (copy_page binary (i * 1024) kva s2) d binary is
           }
     }"

definition load_icode :: "kstate \<Rightarrow> nat \<Rightarrow> (nat \<Rightarrow> u32) \<Rightarrow> u32 \<Rightarrow> kstate option" where
  "load_icode s e binary sz =
     do {
       let n = unat (ROUND sz BY2PG div BY2PG);
       d \<leftarrow> env_pgdir (envs s e);
       (r, s1) \<leftarrow> page_alloc s;
       case r of
         Inl _ \<Rightarrow> Some s1
       | Inr p \<Rightarrow>
           do {
             (_, s2) \<leftarrow> page_insert s1 d p (USTACKTOP - BY2PG) (PTE_W OR PTE_U);
             load_pages s2 d binary [0..<n]
           }
     }"

definition env_create :: "kstate \<Rightarrow> (nat \<Rightarrow> u32) \<Rightarrow> u32 \<Rightarrow> kstate option" where
  "env_create s binary sz =
     do {
       (r, s1) \<leftarrow> env_alloc s 0;
       case r of
         Inl _ \<Rightarrow> None
       | Inr e \<Rightarrow> load_icode s1 e binary sz
     }"

section \<open>Destruction\<close>

definition env_free_pte :: "nat \<Rightarrow> nat \<Rightarrow> nat \<Rightarrow> nat \<Rightarrow> kstate \<Rightarrow> kstate option" where
  "env_free_pte d pdeno pt pteno s =
     (if present (phys s pt pteno)
      then page_remove s d (push_bit PDSHIFT (of_nat pdeno) OR push_bit PGSHIFT (of_nat pteno))
      else Some s)"

definition env_free_pde :: "nat \<Rightarrow> nat \<Rightarrow> kstate \<Rightarrow> kstate option" where
  "env_free_pde d pdeno s =
     (if \<not> present (phys s d pdeno) then Some s
      else
        do {
          let pa = PTE_ADDR (phys s d pdeno);
          pt \<leftarrow> KADDR s pa;
          s1 \<leftarrow> mfold (env_free_pte d pdeno pt) [0..<1024] s;
          let s2 = set_phys s1 d pdeno 0;
          p \<leftarrow> pa2page s2 pa;
          Some (page_decref s2 p)
        })"

definition env_free :: "kstate \<Rightarrow> nat \<Rightarrow> kstate option" where
  "env_free s e =
     do {
       let s0 = kprintf_msg ''[%08x] free env %08x\<newline>''
                  [case curenv s of None \<Rightarrow> 0 | Some c \<Rightarrow> env_id (envs s c), env_id (envs s e)] s;
       d \<leftarrow> env_pgdir (envs s0 e);
       s1 \<leftarrow> mfold (env_free_pde d) [0..<pdx UTOP] s0;
       let pa = env_cr3 (envs s1 e);
       let s2 = upd_env s1 e (\<lambda>v. v\<lparr>env_pgdir := None, env_cr3 := 0\<rparr>);
       p \<leftarrow> pa2page s2 pa;
       let s3 = page_decref s2 p;
       let s4 = upd_env s3 e (env_status_update (\<lambda>_. ENV_FREE));
       Some (s4\<lparr>env_free_list := LIST_INSERT_HEAD (env_free_list s4) e\<rparr>)
     }"

section \<open>Running\<close>

text \<open>The save of the interrupted environment's registers, the switch, and the count.
  \<open>env_pop_tf\<close> then loads the registers from \<open>env_tf\<close>.\<close>

definition env_run :: "kstate \<Rightarrow> nat \<Rightarrow> kstate" where
  "env_run s e =
     (let s1 = (case curenv s of None \<Rightarrow> s | Some c \<Rightarrow> upd_env s c (env_tf_update (\<lambda>_. utf s)));
          s2 = s1\<lparr>curenv := Some e, cr3 := env_cr3 (envs s1 e)\<rparr>
      in upd_env s2 e (\<lambda>v. v\<lparr>env_runs := env_runs v + 1\<rparr>))"

definition runnable :: "kstate \<Rightarrow> nat \<Rightarrow> bool" where
  "runnable s i \<longleftrightarrow> env_status (envs s i) = ENV_RUNNABLE"

definition sched_yield :: "kstate \<Rightarrow> kstate" where
  "sched_yield s =
     (case curenv s of
        None \<Rightarrow>
          (case find (runnable s) [1..<NENV] of
             Some i \<Rightarrow> env_run s i
           | None \<Rightarrow> env_run s 0)
      | Some c \<Rightarrow>
          (case find (\<lambda>i. runnable s (c + i)) [1..<NENV - c] of
             Some i \<Rightarrow> env_run s (c + i)
           | None \<Rightarrow>
               (case find (runnable s) [1..<c + 1] of
                  Some i \<Rightarrow> env_run s i
                | None \<Rightarrow> env_run s 0)))"

definition env_destroy :: "kstate \<Rightarrow> nat \<Rightarrow> outcome option" where
  "env_destroy s e =
     do {
       s1 \<leftarrow> env_free s e;
       if curenv s1 = Some e then Some (Sched (sched_yield (s1\<lparr>curenv := None\<rparr>)))
       else Some (Ret s1)
     }"

end
