(* ===== verification/Vm_Dirs.thy ===== *)
theory Vm_Dirs
  imports Vm_Ops
begin

text \<open>
  The rest of what the environments need of the address spaces: taking a page, writing to
  data pages and to the kernel's half of a directory, adding and dropping a page
  directory, and dropping an empty page table.
\<close>

unbundle bit_operations_syntax

section \<open>Memory outside the tables\<close>

definition tables_same :: "physmem \<Rightarrow> physmem \<Rightarrow> nat set \<Rightarrow> bool" where
  "tables_same m m' D \<longleftrightarrow>
     (\<forall>d \<in> D. \<forall>i < user_slots. m' d i = m d i)
     \<and> (\<forall>p \<in> pt_at m ` ptslots m D. \<forall>j < 1024. m' p j = m p j)"

lemma tables_same_slots:
  assumes "tables_same m m' D"
  shows "ptslots m' D = ptslots m D" "x \<in> ptslots m D \<Longrightarrow> pt_at m' x = pt_at m x"
    "leafslots m' D = leafslots m D" "y \<in> leafslots m D \<Longrightarrow> leaf_at m' y = leaf_at m y"
proof -
  have row: "m' d i = m d i" if "d \<in> D" "i < user_slots" for d i
    using assms that by (auto simp: tables_same_def)
  have tab: "m' (pt_at m x) j = m (pt_at m x) j" if "x \<in> ptslots m D" "j < 1024" for x j
    using assms that by (auto simp: tables_same_def)
  show P: "ptslots m' D = ptslots m D" using row by (auto simp: ptslots_def)
  have A: "pt_at m' x = pt_at m x" if "x \<in> ptslots m D" for x
    using that row by (simp add: pt_at_def ptslots_def)
  show "x \<in> ptslots m D \<Longrightarrow> pt_at m' x = pt_at m x" by (rule A)
  show "leafslots m' D = leafslots m D" using A tab by (auto simp: leafslots_def P)
  show "y \<in> leafslots m D \<Longrightarrow> leaf_at m' y = leaf_at m y"
    using A tab by (simp add: leaf_at_def leafslots_def)
qed

lemma tables_same_refs: "tables_same m m' D \<Longrightarrow> refs m' D p = refs m D p"
  unfolding refs_def by (intro arg_cong2 [where f = plus] arg_cong [where f = card])
    (auto simp: tables_same_slots)

lemma tables_same_struct:
  assumes "tables_same m m' D" "vm_struct m n D"
  shows "vm_struct m' n D"
proof -
  have "pt_at m' ` ptslots m D = pt_at m ` ptslots m D"
    using tables_same_slots(2) [OF assms(1)] by (auto simp: image_iff)
  then show ?thesis
    using assms(2) by (auto simp: vm_struct_def tables_same_slots [OF assms(1)] inj_on_def)
qed

lemma tables_same_lookup:
  assumes "tables_same m m' D" "d \<in> D" "va < UTOP"
  shows "vm_lookup m' d va = vm_lookup m d va"
proof -
  have "m' (pt_at m (d, pdx va)) (ptx va) = m (pt_at m (d, pdx va)) (ptx va)"
    if "((d, pdx va), ptx va) \<in> leafslots m D"
    using that assms(1) by (auto simp: leafslots_iff tables_same_def)
  then show ?thesis
    using tables_same_slots(2) [OF assms(1), of "(d, pdx va)"]
    by (auto simp: vm_lookup_slot [OF assms(2,3)] tables_same_slots(3) [OF assms(1)] leafslots_iff)
qed

text \<open>A change of the state that keeps the tables, the counts and the list keeps the invariant.\<close>

lemma vm_inv_same:
  assumes "vm_inv s D fl X" "tables_same (phys s) (phys s') D" "pp_ref s' = pp_ref s"
    "page_free_list s' = page_free_list s" "npage s' = npage s"
  shows "vm_inv s' D fl X"
  using assms tables_same_struct [OF assms(2)] tables_same_refs [OF assms(2)]
  by (simp add: vm_inv_def vm_count_def free_ok_def)

lemma tables_same_refl [simp]: "tables_same m m D"
  by (simp add: tables_same_def)

lemma tables_same_page:
  assumes "p \<notin> D" "p \<notin> pt_at m ` ptslots m D" "\<And>q. q \<noteq> p \<Longrightarrow> m' q = m q"
  shows "tables_same m m' D"
proof -
  have "d \<noteq> p" if "d \<in> D" for d using that assms(1) by auto
  moreover have "q \<noteq> p" if "q \<in> pt_at m ` ptslots m D" for q using that assms(2) by auto
  ultimately show ?thesis using assms(3) by (simp add: tables_same_def)
qed

section \<open>page_alloc\<close>

lemma page_alloc_ok:
  assumes inv: "vm_inv s D fl X"
  shows "(fl = [] \<and> page_alloc s = Some (Inl E_NO_MEM, s))
    \<or> (\<exists>p fl' q. fl = p # fl' \<and> page_alloc s = Some (Inr p, s\<lparr>page_free_list := q\<rparr>)
         \<and> vm_inv (s\<lparr>page_free_list := q\<rparr>) D fl' X
         \<and> data_page (s\<lparr>page_free_list := q\<rparr>) D fl' p \<and> pp_ref s p = 0 \<and> X p = 0
         \<and> p \<notin> leaf_at (phys s) ` leafslots (phys s) D)"
proof (cases fl)
  case Nil
  then show ?thesis using inv by (simp add: vm_inv_def free_ok_def page_alloc_empty)
next
  case (Cons p fl')
  have lr: "list_repr (page_free_list s) (p # fl')"
    using inv Cons by (simp add: vm_inv_def free_ok_def)
  obtain q where q: "page_alloc s = Some (Inr p, s\<lparr>page_free_list := q\<rparr>)" "list_repr q fl'"
    using page_alloc_cons [OF lr] by blast
  have p: "p \<notin> set fl'" using qm.distinct [OF lr] by simp
  have i': "vm_inv (s\<lparr>page_free_list := q\<rparr>) D fl' X"
    using inv q(2) Cons by (auto simp: vm_inv_def free_ok_def)
  have r0: "pp_ref s p = 0" using inv Cons by (simp add: vm_inv_def free_ok_def)
  have "data_page (s\<lparr>page_free_list := q\<rparr>) D fl' p \<and> X p = 0
      \<and> p \<notin> leaf_at (phys s) ` leafslots (phys s) D"
    using free_not_used [OF inv, of p] p Cons by (auto simp: data_page_def)
  with Cons q(1) i' r0 show ?thesis by blast
qed

lemma insert_pre_fresh:
  "data_page s D fl p \<Longrightarrow> pp_ref s p = 0 \<Longrightarrow> low_bits perm \<Longrightarrow> insert_pre s D fl p perm"
  by (simp add: insert_pre_def)

section \<open>Directories\<close>

definition no_user_slots :: "physmem \<Rightarrow> nat \<Rightarrow> bool" where
  "no_user_slots m d \<longleftrightarrow> (\<forall>i < user_slots. \<not> present (m d i))"

lemma no_user_slots_iff: "d \<in> D \<Longrightarrow> no_user_slots m d \<longleftrightarrow> (\<forall>i. (d, i) \<notin> ptslots m D)"
  by (auto simp: no_user_slots_def ptslots_iff)

lemma ptslots_insert: "no_user_slots m d \<Longrightarrow> ptslots m (insert d D) = ptslots m D"
  by (auto simp: ptslots_def no_user_slots_def)

lemma leafslots_insert: "no_user_slots m d \<Longrightarrow> leafslots m (insert d D) = leafslots m D"
  by (simp add: leafslots_def ptslots_insert)

lemma refs_insert: "no_user_slots m d \<Longrightarrow> refs m (insert d D) p = refs m D p"
  by (simp add: refs_def ptslots_insert leafslots_insert)

lemma vm_inv_add_dir:
  assumes "vm_inv s D fl X" "data_page s D fl p" "p \<notin> leaf_at (phys s) ` leafslots (phys s) D"
    "no_user_slots (phys s) p"
  shows "vm_inv s (insert p D) fl X"
  using assms
  by (auto simp: vm_inv_def vm_struct_def vm_count_def free_ok_def data_page_def ptslots_insert
      leafslots_insert refs_insert)

lemma vm_inv_drop_dir:
  assumes "vm_inv s (insert p D) fl X" "no_user_slots (phys s) p"
  shows "vm_inv s D fl X"
  using assms
  by (auto simp: vm_inv_def vm_struct_def vm_count_def free_ok_def ptslots_insert
      leafslots_insert refs_insert)

lemma refs_dir_0:
  assumes "vm_struct m n D" "p \<in> D"
  shows "refs m D p = 0"
proof -
  have a: "{x \<in> ptslots m D. pt_at m x = p} = {}" "{y \<in> leafslots m D. leaf_at m y = p} = {}"
    using assms by (auto simp: vm_struct_def)
  show ?thesis unfolding refs_def a by simp
qed

text \<open>Dropping a directory and its reference.\<close>

lemma vm_inv_decref_dir:
  assumes inv: "vm_inv s (insert p D) fl X" and p: "p \<notin> D" "no_user_slots (phys s) p" "X p = 0"
  shows "vm_inv (page_decref s p) D (if pp_ref s p = 1 then p # fl else fl) X"
proof -
  have inv0: "vm_inv s D fl X" by (rule vm_inv_drop_dir [OF inv p(2)])
  have fl: "p \<notin> set fl" "p < npage s"
    using inv by (auto simp: vm_inv_def free_ok_def vm_struct_def)
  have r: "refs (phys s) D p = 0"
    using refs_dir_0 [of "phys s" "npage s" "insert p D" p] inv refs_insert [OF p(2)]
    by (simp add: vm_inv_def)
  have "vm_count (phys s) D X ((pp_ref s)(p := pp_ref s p - 1))"
    using inv0 r p(3) by (auto simp: vm_inv_def vm_count_def)
  moreover have "list_repr (page_free_list (page_decref s p)) (if pp_ref s p = 1 then p # fl else fl)"
    using inv fl by (intro page_decref_list) (auto simp: vm_inv_def free_ok_def)
  ultimately show ?thesis using inv0 fl p(1) by (auto simp: vm_inv_def free_ok_def)
qed

text \<open>Dropping a page table with no entries and its reference.\<close>

lemma clear_pde_slots:
  assumes st: "vm_struct m n D" and x: "(d, i) \<in> ptslots m D"
    and e: "\<And>j. ((d, i), j) \<notin> leafslots m D"
  defines "m' \<equiv> put_word m d i 0"
  shows "ptslots m' D = ptslots m D - {(d, i)}"
    and "\<And>z. z \<in> ptslots m D - {(d, i)} \<Longrightarrow> pt_at m' z = pt_at m z"
    and "leafslots m' D = leafslots m D"
    and "\<And>y. y \<in> leafslots m D \<Longrightarrow> leaf_at m' y = leaf_at m y"
proof -
  have row: "m' f k = (if f = d \<and> k = i then 0 else m f k)" for f k
    by (auto simp: m'_def put_word_def)
  show P: "ptslots m' D = ptslots m D - {(d, i)}"
    by (auto simp: ptslots_def row)
  show A: "pt_at m' z = pt_at m z" if "z \<in> ptslots m D - {(d, i)}" for z
    using that by (cases z) (auto simp: pt_at_def row)
  have dD: "d \<in> D" using x by (simp add: ptslots_iff)
  have tab: "m' (pt_at m z) = m (pt_at m z)" if "z \<in> ptslots m D" for z
  proof -
    have "pt_at m z \<noteq> d" using that st dD by (auto simp: vm_struct_def)
    then show ?thesis by (auto simp: m'_def put_word_def)
  qed
  have "(z, j) \<in> leafslots m' D \<longleftrightarrow> (z, j) \<in> leafslots m D" for z j
    using e [of j] A [of z] tab [of z] x
    by (cases "z = (d, i)"; cases "z \<in> ptslots m D") (auto simp: leafslots_iff P)
  then show "leafslots m' D = leafslots m D" by auto
  show "leaf_at m' y = leaf_at m y" if "y \<in> leafslots m D" for y
  proof -
    have "fst y \<in> ptslots m D - {(d, i)}" using that e by (cases y) (auto simp: leafslots_iff)
    then show ?thesis using A tab by (simp add: leaf_at_def)
  qed
qed

lemma clear_pde_refs:
  assumes st: "vm_struct m n D" and x: "(d, i) \<in> ptslots m D" and e: "\<And>j. ((d, i), j) \<notin> leafslots m D"
  shows "refs m D q = refs (put_word m d i 0) D q + (if pt_at m (d, i) = q then 1 else 0)"
proof -
  let ?m = "put_word m d i 0"
  note sl = clear_pde_slots [OF st x e]
  have f: "finite (ptslots m D)" by (rule vm_struct_finite [OF st])
  have "{z \<in> ptslots ?m D. pt_at ?m z = q} = {z \<in> ptslots m D - {(d, i)}. pt_at m z = q}"
    using sl(1,2) by auto
  moreover have "{y \<in> leafslots ?m D. leaf_at ?m y = q} = {y \<in> leafslots m D. leaf_at m y = q}"
    using sl(3,4) by auto
  ultimately show ?thesis using card_remove_slot [OF f x, of "pt_at m" q] by (simp add: refs_def)
qed

lemma vm_inv_clear_pde:
  assumes inv: "vm_inv s D fl X" and x: "(d, i) \<in> ptslots (phys s) D"
    and e: "\<And>j. ((d, i), j) \<notin> leafslots (phys s) D"
  defines "p \<equiv> pt_at (phys s) (d, i)"
  shows "vm_inv (page_decref (set_phys s d i 0) p) D (if pp_ref s p = 1 then p # fl else fl) X"
proof -
  let ?m = "put_word (phys s) d i 0"
  have st: "vm_struct (phys s) (npage s) D" and ct: "vm_count (phys s) D X (pp_ref s)"
    using inv by (simp_all add: vm_inv_def)
  note sl = clear_pde_slots [OF st x e]
  have pn: "p < npage s" "p \<notin> D" using st x by (simp_all add: vm_struct_def p_def)
  have pf: "p \<notin> set fl" using free_not_used(2) [OF inv, of p] x by (auto simp: p_def)
  have im: "pt_at ?m ` ptslots ?m D \<subseteq> pt_at (phys s) ` ptslots (phys s) D"
    using sl(1,2) by auto
  have "inj_on (pt_at ?m) (ptslots ?m D)"
    using st sl(1,2) by (auto simp: vm_struct_def inj_on_def)
  then have "vm_struct ?m (npage s) D"
    using st sl im by (auto simp: vm_struct_def)
  moreover have "vm_count ?m D X ((pp_ref s)(p := pp_ref s p - 1))"
  proof (rule vm_count_decref [OF ct])
    have r: "refs (phys s) D q = refs ?m D q + (if p = q then 1 else 0)" for q
      using clear_pde_refs [OF st x e] by (simp add: p_def)
    show "refs (phys s) D p = refs ?m D p + 1" using r [of p] by simp
    show "refs ?m D q = refs (phys s) D q" if "q \<noteq> p" for q using r [of q] that by simp
  qed
  moreover have "list_repr (page_free_list (page_decref (set_phys s d i 0) p))
      (if pp_ref s p = 1 then p # fl else fl)"
    using page_decref_list [of "set_phys s d i 0" fl p] inv pf by (simp add: vm_inv_def free_ok_def)
  ultimately show ?thesis using inv pn pf by (auto simp: vm_inv_def free_ok_def)
qed

end
