(* ===== verification/Env_Inv.thy ===== *)
theory Env_Inv
  imports Env Vm_Dirs
begin

text \<open>
  The kernel invariant, and that creating, destroying and scheduling environments keeps it.

  \<open>kinv\<close> joins the invariant of the address spaces, over the directories of all
  environments and the boot directory, with the invariant of the environment table: the
  free list holds exactly the environments without an address space.
\<close>

unbundle bit_operations_syntax

section \<open>The invariant\<close>

definition pgdirs :: "kstate \<Rightarrow> nat set" where
  "pgdirs s = {p. \<exists>e < NENV. env_pgdir (envs s e) = Some p}"

definition dirs :: "kstate \<Rightarrow> nat set" where
  "dirs s = insert (boot_pgdir s) (pgdirs s)"

definition env_entry_ok :: "nat \<Rightarrow> env \<Rightarrow> bool" where
  "env_entry_ok e v \<longleftrightarrow>
     (case env_pgdir v of
        None \<Rightarrow> env_status v = ENV_FREE
      | Some p \<Rightarrow> env_cr3 v = page2pa p \<and> ENVX (env_id v) = of_nat e)
     \<and> env_ipc_dstva v < UTOP"

lemma env_entry_ok_fields [simp]:
  "env_entry_ok e (env_tf_update f v) = env_entry_ok e v"
  "env_entry_ok e (env_runs_update g v) = env_entry_ok e v"
  "env_entry_ok e (env_parent_id_update g v) = env_entry_ok e v"
  "env_entry_ok e (env_ipc_value_update g v) = env_entry_ok e v"
  "env_entry_ok e (env_ipc_from_update g v) = env_entry_ok e v"
  "env_entry_ok e (env_ipc_recving_update g v) = env_entry_ok e v"
  "env_entry_ok e (env_ipc_perm_update g v) = env_entry_ok e v"
  "env_entry_ok e (env_pgfault_handler_update g v) = env_entry_ok e v"
  "env_entry_ok e (env_xstacktop_update g v) = env_entry_ok e v"
  by (auto simp: env_entry_ok_def split: option.split)

text \<open>No two environments share a directory.\<close>

definition distinct_dirs :: "(nat \<Rightarrow> nat option) \<Rightarrow> bool" where
  "distinct_dirs g \<longleftrightarrow> inj_on g {e. e < NENV \<and> g e \<noteq> None}"

definition envs_ok :: "kstate \<Rightarrow> nat list \<Rightarrow> bool" where
  "envs_ok s efl \<longleftrightarrow>
     list_repr (env_free_list s) efl
     \<and> (\<forall>e. e \<in> set efl \<longleftrightarrow> e < NENV \<and> env_pgdir (envs s e) = None)
     \<and> (\<forall>e < NENV. env_entry_ok e (envs s e))
     \<and> distinct_dirs (\<lambda>e. env_pgdir (envs s e))
     \<and> boot_pgdir s \<notin> pgdirs s \<and> no_user_slots (phys s) (boot_pgdir s)
     \<and> (\<forall>c. curenv s = Some c \<longrightarrow> c < NENV)"

definition kinv_at :: "kstate \<Rightarrow> nat list \<Rightarrow> nat list \<Rightarrow> bool" where
  "kinv_at s fl efl \<longleftrightarrow> vm_inv s (dirs s) fl no_pending \<and> envs_ok s efl"

definition kinv :: "kstate \<Rightarrow> bool" where
  "kinv s \<longleftrightarrow> (\<exists>fl efl. kinv_at s fl efl)"

text \<open>An environment that has an address space.\<close>

definition live :: "kstate \<Rightarrow> nat \<Rightarrow> bool" where
  "live s e \<longleftrightarrow> e < NENV \<and> env_pgdir (envs s e) \<noteq> None"

lemma dirs_pgdir: "e < NENV \<Longrightarrow> env_pgdir (envs s e) = Some p \<Longrightarrow> p \<in> dirs s"
  by (auto simp: dirs_def pgdirs_def)

lemma dirs_cong:
  assumes "boot_pgdir s' = boot_pgdir s"
    "\<And>e. e < NENV \<Longrightarrow> env_pgdir (envs s' e) = env_pgdir (envs s e)"
  shows "dirs s' = dirs s" "pgdirs s' = pgdirs s"
  using assms by (auto simp: dirs_def pgdirs_def)

text \<open>The memory operations keep the environment table.\<close>

lemma kinv_at_mem_only:
  assumes "kinv_at s fl efl" "mem_only s s'" "vm_inv s' (dirs s) fl' no_pending"
    "no_user_slots (phys s') (boot_pgdir s)"
  shows "kinv_at s' fl' efl"
proof -
  note f = mem_only_fields [OF assms(2)]
  have "dirs s' = dirs s" "pgdirs s' = pgdirs s" by (rule dirs_cong; simp add: f)+
  then show ?thesis using assms by (simp add: kinv_at_def envs_ok_def f)
qed

lemma no_user_slots_lookup:
  assumes "vm_inv s D fl X" "d \<in> D" "no_user_slots (phys s) d" "va < UTOP"
  shows "vm_lookup (phys s) d va = None"
  using assms pdx_user [OF assms(4)] by (simp add: vm_lookup_def no_user_slots_def Let_def)

text \<open>Changes of an environment that keep its address space.\<close>

lemma kinv_at_upd_env:
  assumes k: "kinv_at s fl efl" and p: "env_pgdir (f (envs s e)) = env_pgdir (envs s e)"
    and ok: "e < NENV \<Longrightarrow> env_entry_ok e (f (envs s e))"
  shows "kinv_at (upd_env s e f) fl efl"
proof -
  have d: "dirs (upd_env s e f) = dirs s" "pgdirs (upd_env s e f) = pgdirs s"
    by (rule dirs_cong; simp add: envs_upd_env p)+
  have g: "env_pgdir (envs (upd_env s e f) i) = env_pgdir (envs s i)" for i
    by (simp add: envs_upd_env p)
  have "vm_inv (upd_env s e f) (dirs s) fl no_pending"
    using k by (simp add: kinv_at_def vm_inv_def free_ok_def upd_env_def)
  moreover have "env_entry_ok i (envs (upd_env s e f) i)" if "i < NENV" for i
    using k that ok by (cases "i = e") (auto simp: envs_upd_env kinv_at_def envs_ok_def)
  ultimately show ?thesis using k
    unfolding kinv_at_def d envs_ok_def g upd_env_frame by blast
qed

text \<open>Changes of the fields that the invariant does not read.\<close>

lemma kinv_at_fields [simp]:
  "kinv_at (kprintf_msg m a s) fl efl = kinv_at s fl efl"
  "kinv_at (s\<lparr>next_env_id := n\<rparr>) fl efl = kinv_at s fl efl"
  "kinv_at (s\<lparr>utf := t\<rparr>) fl efl = kinv_at s fl efl"
  "kinv_at (s\<lparr>cr3 := c\<rparr>) fl efl = kinv_at s fl efl"
  "kinv_at (s\<lparr>page_fault_mode := m'\<rparr>) fl efl = kinv_at s fl efl"
  "kinv_at (s\<lparr>cons := b\<rparr>) fl efl = kinv_at s fl efl"
  by (simp_all add: kinv_at_def vm_inv_def free_ok_def envs_ok_def dirs_def pgdirs_def
      kprintf_msg_def)

lemma kinv_at_curenv:
  "kinv_at s fl efl \<Longrightarrow> (\<And>e. c = Some e \<Longrightarrow> e < NENV) \<Longrightarrow> kinv_at (s\<lparr>curenv := c\<rparr>) fl efl"
  by (clarsimp simp: kinv_at_def vm_inv_def free_ok_def envs_ok_def dirs_def pgdirs_def)

section \<open>Scheduling\<close>

lemma env_run_inv:
  assumes "kinv_at s fl efl" "e < NENV"
  shows "kinv_at (env_run s e) fl efl"
proof -
  have ok: "env_entry_ok i (envs s i)" if "i < NENV" for i
    using assms that by (simp add: kinv_at_def envs_ok_def)
  let ?s1 = "case curenv s of None \<Rightarrow> s | Some c \<Rightarrow> upd_env s c (env_tf_update (\<lambda>_. utf s))"
  let ?s2 = "?s1\<lparr>curenv := Some e, cr3 := env_cr3 (envs ?s1 e)\<rparr>"
  have k1: "kinv_at ?s1 fl efl"
    using assms(1) ok by (auto split: option.split intro!: kinv_at_upd_env)
  have "kinv_at (?s1\<lparr>curenv := Some e\<rparr>) fl efl" by (rule kinv_at_curenv [OF k1]) (simp add: assms)
  then have k2: "kinv_at ?s2 fl efl"
    using kinv_at_fields(4) [where s = "?s1\<lparr>curenv := Some e\<rparr>"] by simp
  then have "env_entry_ok i (envs ?s2 i)" if "i < NENV" for i
    using that by (simp add: kinv_at_def envs_ok_def)
  then have "kinv_at (upd_env ?s2 e (\<lambda>v. v\<lparr>env_runs := env_runs v + 1\<rparr>)) fl efl"
    by (intro kinv_at_upd_env [OF k2]) simp_all
  then show ?thesis by (simp add: env_run_def Let_def)
qed

text \<open>
  What the scheduler chooses: the first runnable environment in cyclic order after the
  current one, environment 0 aside, and environment 0 if there is none.
\<close>

definition sched_order :: "nat option \<Rightarrow> nat list" where
  "sched_order c = (case c of None \<Rightarrow> [1..<NENV] | Some c \<Rightarrow> [c + 1..<NENV] @ [1..<c + 1])"

definition sched_next :: "kstate \<Rightarrow> nat" where
  "sched_next s = (case find (runnable s) (sched_order (curenv s)) of Some e \<Rightarrow> e | None \<Rightarrow> 0)"

lemma find_map_inj: "find P (map f xs) = map_option f (find (\<lambda>x. P (f x)) xs)"
  by (induction xs) auto

lemma sched_yield_order: "sched_yield s = env_run s (sched_next s)"
proof (cases "curenv s")
  case None
  then show ?thesis
    by (cases "find (runnable s) [1..<NENV]")
      (simp_all only: sched_yield_def sched_next_def sched_order_def option.case)
next
  case (Some c)
  have "map ((+) c) [1..<NENV - c] = [c + 1..<NENV]"
    by (cases "c < NENV") (auto intro!: nth_equalityI)
  then have f: "find (runnable s) [c + 1..<NENV]
      = map_option ((+) c) (find (\<lambda>i. runnable s (c + i)) [1..<NENV - c])"
    by (metis find_map_inj)
  show ?thesis
    using Some f
    by (cases "find (\<lambda>i. runnable s (c + i)) [1..<NENV - c]"; cases "find (runnable s) [1..<c + 1]")
      (simp_all only: sched_yield_def sched_next_def sched_order_def option.case find_append
        option.map)
qed

lemma sched_next_cases:
  assumes "\<And>c. curenv s = Some c \<Longrightarrow> c < NENV"
  shows "sched_next s < NENV" "sched_next s \<noteq> 0 \<longrightarrow> runnable s (sched_next s)"
proof -
  have n: "e < NENV" if "e \<in> set (sched_order (curenv s))" for e
    using that assms by (cases "curenv s") (auto simp: sched_order_def)
  have f: "e \<in> set (sched_order (curenv s)) \<and> runnable s e"
    if "find (runnable s) (sched_order (curenv s)) = Some e" for e
    using that by (metis find_Some_iff nth_mem)
  show "sched_next s < NENV" "sched_next s \<noteq> 0 \<longrightarrow> runnable s (sched_next s)"
    using f n by (auto simp: sched_next_def NENV_def split: option.split)
qed

lemma sched_yield_inv: "kinv_at s fl efl \<Longrightarrow> kinv_at (sched_yield s) fl efl"
proof -
  assume k: "kinv_at s fl efl"
  then have c: "\<And>c. curenv s = Some c \<Longrightarrow> c < NENV" by (simp add: kinv_at_def envs_ok_def)
  show ?thesis using sched_next_cases(1) [OF c] env_run_inv [OF k] by (simp add: sched_yield_order)
qed

section \<open>Lookup of an environment\<close>

lemma envid2env_ok:
  assumes "kinv_at s fl efl" "envid2env s envid cp = Some (Inr (Some e))"
  shows "e < NENV" "envid \<noteq> 0 \<longrightarrow> live s e \<and> env_id (envs s e) = envid \<and> env_status (envs s e) \<noteq> ENV_FREE"
    "envid = 0 \<longrightarrow> curenv s = Some e"
proof -
  have x: "unat (ENVX envid) < NENV"
    using word_and_le1 [of envid "1024 - 1"] by (simp add: ENVX_def NENV_def word_le_nat_alt)
  have c: "curenv s = Some c \<Longrightarrow> c < NENV" for c using assms(1) by (simp add: kinv_at_def envs_ok_def)
  have r: "envid \<noteq> 0 \<Longrightarrow> e = unat (ENVX envid) \<and> env_id (envs s e) = envid
      \<and> env_status (envs s e) \<noteq> ENV_FREE"
    using assms(2)
    by (auto simp: envid2env_def Let_def split: if_splits elim!: bind_eq_SomeE)
  have z: "envid = 0 \<Longrightarrow> curenv s = Some e" using assms(2) by (simp add: envid2env_def)
  show n: "e < NENV" using r z c x by (cases "envid = 0") auto
  show "envid = 0 \<longrightarrow> curenv s = Some e" using z by simp
  show "envid \<noteq> 0 \<longrightarrow> live s e \<and> env_id (envs s e) = envid \<and> env_status (envs s e) \<noteq> ENV_FREE"
    using r n assms(1)
    by (auto simp: live_def kinv_at_def envs_ok_def env_entry_ok_def split: option.splits)
qed

end
