(* ===== verification/Env_Life.thy ===== *)
theory Env_Life
  imports Env_Inv
begin

text \<open>
  The life of an environment: \<open>env_alloc\<close> gives a new one with an empty user address space,
  \<open>load_icode\<close> fills it, and \<open>env_free\<close> gives back everything it maps. Each keeps the kernel
  invariant and leaves the address spaces of the other environments alone.
\<close>

unbundle bit_operations_syntax

section \<open>The new directory\<close>

lemma fold_copy_pde:
  assumes "p \<noteq> boot_pgdir s"
  shows "fold (copy_pde p) [0..<n] s
    = s\<lparr>phys := (phys s)(p := (\<lambda>j. if j < n then phys s (boot_pgdir s) j else phys s p j))\<rparr>"
proof (induction n)
  case 0
  then show ?case by simp
next
  case (Suc n)
  then show ?case using assms
    by (auto simp: copy_pde_def set_phys_def fun_eq_iff intro!: arg_cong [where f = "\<lambda>x. s\<lparr>phys := x\<rparr>"])
qed

lemma env_id_ENVX: "e < NENV \<Longrightarrow> ENVX (fst (mkenvid s e)) = of_nat e"
proof -
  assume e: "e < NENV"
  have m: "(1024 - 1 :: u32) = mask 10" by (simp add: mask_eq_exp_minus_1)
  have b: "\<not> bit e n" if "10 \<le> n" for n
  proof -
    have "take_bit 10 e = e" using e by (simp add: NENV_def take_bit_nat_eq_self)
    then show ?thesis using that by (metis bit_take_bit_iff not_less)
  qed
  show ?thesis
  proof (rule bit_word_eqI)
    fix n :: nat
    assume "n < LENGTH(32)"
    then show "bit (ENVX (fst (mkenvid s e))) n = bit (of_nat e :: u32) n"
      using b [of n] unfolding ENVX_def m mkenvid_def
      by (cases "n < 10") (auto simp: bit_simps LOG2NENV_def Let_def)
  qed
qed


text \<open>The directory that \<open>env_setup_vm\<close> builds: the boot directory, and the two slots
  through which an environment sees its own tables.\<close>

definition user_dir :: "kstate \<Rightarrow> nat \<Rightarrow> nat \<Rightarrow> u32" where
  "user_dir s p j =
     (if j = pdx UVPT then page2pa p OR PTE_P OR PTE_U
      else if j = pdx VPT then page2pa p OR PTE_P OR PTE_W
      else if j < 1024 then phys s (boot_pgdir s) j else phys s p j)"

lemma pdx_windows: "pdx VPT = 959" "pdx UVPT = 957" "pdx UTOP = 955"
  by (simp_all add: pdx_div layout)

lemma env_setup_vm_ok:
  assumes k: "kinv_at s fl efl" and e: "e < NENV" "env_pgdir (envs s e) = None"
  shows "(fl = [] \<and> env_setup_vm s e = Some (Inl E_NO_MEM, s))
    \<or> (\<exists>p fl' q. fl = p # fl' \<and> env_setup_vm s e = Some (Inr (),
           s\<lparr>page_free_list := q, phys := (phys s)(p := user_dir s p),
             envs := (envs s)(e := (envs s e)\<lparr>env_cr3 := page2pa p, env_pgdir := Some p\<rparr>)\<rparr>)
         \<and> list_repr q fl' \<and> p \<notin> dirs s
         \<and> vm_inv (s\<lparr>page_free_list := q, phys := (phys s)(p := user_dir s p)\<rparr>) (insert p (dirs s)) fl' no_pending
         \<and> tables_same (phys s) ((phys s)(p := user_dir s p)) (dirs s)
         \<and> no_user_slots ((phys s)(p := user_dir s p)) p)"
proof -
  have inv: "vm_inv s (dirs s) fl no_pending" and bt: "no_user_slots (phys s) (boot_pgdir s)"
    using k by (simp_all add: kinv_at_def envs_ok_def)
  show ?thesis
  proof (cases fl)
    case Nil
    then show ?thesis using page_alloc_ok [OF inv] by (simp add: env_setup_vm_def)
  next
    case (Cons p fl')
    let ?D = "dirs s"
    obtain q where al: "page_alloc s = Some (Inr p, s\<lparr>page_free_list := q\<rparr>)"
        and i1: "vm_inv (s\<lparr>page_free_list := q\<rparr>) ?D fl' no_pending"
        and dp: "data_page (s\<lparr>page_free_list := q\<rparr>) ?D fl' p"
        and nl: "p \<notin> leaf_at (phys s) ` leafslots (phys s) ?D"
      using page_alloc_ok [OF inv] Cons by auto
    let ?m = "(phys s)(p := user_dir s p)"
    let ?t = "s\<lparr>page_free_list := q, phys := ?m\<rparr>"
    have p20: "p < npage s" "p < 2 ^ 20"
      using dp i1 by (simp_all add: data_page_def vm_inv_def vm_struct_def)
    have pb: "p \<noteq> boot_pgdir s" using dp by (auto simp: data_page_def dirs_def)
    have pD: "p \<notin> ?D" "p \<notin> pt_at (phys s) ` ptslots (phys s) ?D"
      using dp by (simp_all add: data_page_def)
    have run: "env_setup_vm s e = Some (Inr (),
        ?t\<lparr>envs := (envs s)(e := (envs s e)\<lparr>env_cr3 := page2pa p, env_pgdir := Some p\<rparr>)\<rparr>)"
      using p20 pb
      by (simp add: env_setup_vm_def al page2kva_page Let_def upd_env_def fold_copy_pde
          set_phys_def pdx_windows user_dir_def fun_eq_iff)
    have ts: "tables_same (phys s) ?m ?D" by (rule tables_same_page [OF pD]) simp
    have i2: "vm_inv ?t ?D fl' no_pending"
      by (rule vm_inv_same [OF i1]) (use ts in simp_all)
    have nu: "no_user_slots ?m p"
      using bt by (auto simp: no_user_slots_def user_dir_def pdx_windows user_slots_value)
    have "vm_inv ?t (insert p ?D) fl' no_pending"
    proof (rule vm_inv_add_dir [OF i2])
      show "data_page ?t ?D fl' p"
        using dp tables_same_slots(1,2) [OF ts] by (auto simp: data_page_def image_iff)
      show "p \<notin> leaf_at (phys ?t) ` leafslots (phys ?t) ?D"
        using nl tables_same_slots(3,4) [OF ts] by (auto simp: image_iff)
      show "no_user_slots (phys ?t) p" using nu by simp
    qed
    moreover have "list_repr q fl'" using i1 by (simp add: vm_inv_def free_ok_def)
    ultimately show ?thesis using Cons run pD(1) ts nu by auto
  qed
qed


section \<open>env_alloc\<close>

text \<open>What a successful \<open>env_alloc\<close> gives.\<close>

definition env_created :: "kstate \<Rightarrow> nat \<Rightarrow> u32 \<Rightarrow> kstate \<Rightarrow> bool" where
  "env_created s e parent s' \<longleftrightarrow>
     \<not> live s e \<and> live s' e \<and> env_status (envs s' e) = ENV_RUNNABLE
     \<and> env_id (envs s' e) = fst (mkenvid s e) \<and> env_parent_id (envs s' e) = parent
     \<and> env_tf (envs s' e) = new_tf e (env_tf (envs s e))
     \<and> (\<forall>i. i \<noteq> e \<longrightarrow> envs s' i = envs s i)
     \<and> curenv s' = curenv s \<and> utf s' = utf s \<and> cr3 s' = cr3 s
     \<and> page_fault_mode s' = page_fault_mode s \<and> npage s' = npage s \<and> boot_pgdir s' = boot_pgdir s
     \<and> pp_ref s' = pp_ref s \<and> no_user_slots (phys s') (the (env_pgdir (envs s' e)))
     \<and> (\<forall>va < UTOP. vm_lookup (phys s') (the (env_pgdir (envs s' e))) va = None)
     \<and> (\<forall>d \<in> dirs s. \<forall>va < UTOP. vm_lookup (phys s') d va = vm_lookup (phys s) d va)"

lemma no_user_slots_same:
  "no_user_slots m d \<Longrightarrow> d \<in> D \<Longrightarrow> tables_same m m' D \<Longrightarrow> no_user_slots m' d"
  by (auto simp: no_user_slots_def tables_same_def)

lemma env_alloc_none:
  assumes k: "kinv_at s fl []"
  shows "env_alloc s parent = Some (Inl E_NO_FREE_ENV, s)"
  using k qm.first [of "env_free_list s" "[]"] by (simp add: env_alloc_def kinv_at_def envs_ok_def)

lemma env_alloc_no_mem:
  assumes k: "kinv_at s [] (e # efl)"
  shows "env_alloc s parent = Some (Inl E_NO_MEM, s)"
proof -
  have lr: "list_repr (env_free_list s) (e # efl)" and e: "e < NENV" "env_pgdir (envs s e) = None"
    using k by (auto simp: kinv_at_def envs_ok_def)
  from env_setup_vm_ok [OF k e] show ?thesis by (simp add: env_alloc_def qm.first [OF lr])
qed

lemma pgdirs_new:
  assumes "e < NENV" "env_pgdir (envs s e) = None"
    "\<And>i. env_pgdir (envs s' i) = (if i = e then Some p else env_pgdir (envs s i))"
  shows "pgdirs s' = insert p (pgdirs s)"
proof (rule set_eqI)
  fix x
  show "x \<in> pgdirs s' \<longleftrightarrow> x \<in> insert p (pgdirs s)"
    using assms unfolding pgdirs_def mem_Collect_eq insert_iff
    by (metis option.distinct(1) option.inject)
qed

lemma env_alloc_created:
  assumes k: "kinv_at s (p # fl) (e # efl)"
  shows "\<exists>s'. env_alloc s parent = Some (Inr e, s') \<and> kinv_at s' fl efl \<and> env_created s e parent s'
      \<and> env_pgdir (envs s' e) = Some p"
proof -
  have lr: "list_repr (env_free_list s) (e # efl)" and e: "e < NENV" "env_pgdir (envs s e) = None"
    and set: "\<And>i. i \<in> set (e # efl) \<longleftrightarrow> i < NENV \<and> env_pgdir (envs s i) = None"
    and ent: "\<And>i. i < NENV \<Longrightarrow> env_entry_ok i (envs s i)"
    and dd: "distinct_dirs (\<lambda>i. env_pgdir (envs s i))"
    and bp: "boot_pgdir s \<notin> pgdirs s" "no_user_slots (phys s) (boot_pgdir s)"
    and cv: "\<forall>c. curenv s = Some c \<longrightarrow> c < NENV"
    using k by (auto simp: kinv_at_def envs_ok_def)
  let ?m = "(phys s)(p := user_dir s p)"
  let ?v = "(envs s e)\<lparr>env_cr3 := page2pa p, env_pgdir := Some p\<rparr>"
  obtain q where su: "env_setup_vm s e = Some (Inr (),
        s\<lparr>page_free_list := q, phys := ?m, envs := (envs s)(e := ?v)\<rparr>)"
      and pD: "p \<notin> dirs s"
      and iv: "vm_inv (s\<lparr>page_free_list := q, phys := ?m\<rparr>) (insert p (dirs s)) fl no_pending"
      and ts: "tables_same (phys s) ?m (dirs s)" and nu: "no_user_slots ?m p"
    using env_setup_vm_ok [OF k e] by auto
  obtain l where rm: "LIST_REMOVE (env_free_list s) e = Some l" and l: "list_repr l efl"
    using qm.take_first [OF lr] by blast
  have ne: "e \<notin> set efl" using qm.distinct [OF lr] by simp
  let ?n = "next_env_id s + 1"
  let ?id = "fst (mkenvid s e)"
  let ?w = "?v\<lparr>env_id := ?id, env_parent_id := parent, env_status := ENV_RUNNABLE,
      env_tf := new_tf e (env_tf ?v), env_ipc_recving := 0, env_pgfault_handler := 0,
      env_xstacktop := 0, env_runs := 0\<rparr>"
  let ?s = "s\<lparr>page_free_list := q, phys := ?m, next_env_id := ?n, envs := (envs s)(e := ?w),
      env_free_list := l\<rparr>"
  let ?s' = "kprintf_msg ''[%08x] new env %08x\<newline>'' [parent, ?id] ?s"
  have run: "env_alloc s parent = Some (Inr e, ?s')"
    by (simp add: env_alloc_def qm.first [OF lr] su mkenvid_def upd_env_def rm Let_def)
  have pg: "env_pgdir (envs ?s i) = (if i = e then Some p else env_pgdir (envs s i))" for i by simp
  have pgs: "pgdirs ?s = insert p (pgdirs s)" by (rule pgdirs_new [OF e pg])
  then have ds: "dirs ?s = insert p (dirs s)" by (auto simp: dirs_def)
  have iv': "vm_inv ?s (dirs ?s) fl no_pending"
    unfolding ds by (rule vm_inv_same [OF iv]) simp_all
  have "env_entry_ok i (envs ?s i)" if "i < NENV" for i
    using ent [OF that] env_id_ENVX [OF e(1), of s]
    by (cases "i = e") (auto simp: env_entry_ok_def)
  moreover have "distinct_dirs (\<lambda>i. env_pgdir (envs ?s i))"
  proof -
    have "env_pgdir (envs s i) \<noteq> Some p" if "i < NENV" for i
      using dirs_pgdir [OF that] pD by auto
    then show ?thesis using dd by (auto simp: distinct_dirs_def inj_on_def)
  qed
  moreover have "i \<in> set efl \<longleftrightarrow> i < NENV \<and> env_pgdir (envs ?s i) = None" for i
    using set [of i] ne by (cases "i = e") auto
  moreover have "boot_pgdir s \<in> dirs s" by (simp add: dirs_def)
  moreover from this have "no_user_slots ?m (boot_pgdir s)"
    by (rule no_user_slots_same [OF bp(2) _ ts])
  moreover have "boot_pgdir s \<noteq> p" using pD \<open>boot_pgdir s \<in> dirs s\<close> by auto
  ultimately have "envs_ok ?s efl" using l bp(1) cv pgs by (simp add: envs_ok_def)
  then have k': "kinv_at ?s fl efl" using iv' by (simp add: kinv_at_def)
  have "vm_lookup ?m p va = None" if "va < UTOP" for va
    using nu pdx_user [OF that] by (simp add: vm_lookup_def no_user_slots_def Let_def)
  moreover have "vm_lookup ?m d va = vm_lookup (phys s) d va" if "d \<in> dirs s" "va < UTOP" for d va
    by (rule tables_same_lookup [OF ts that])
  ultimately have "env_created s e parent ?s'"
    using e nu by (simp add: env_created_def live_def)
  with run k' show ?thesis by auto
qed

lemma env_alloc_inv:
  assumes k: "kinv_at s fl efl"
  shows "\<exists>r s' fl' efl'. env_alloc s parent = Some (r, s') \<and> kinv_at s' fl' efl'
      \<and> (case r of Inl _ \<Rightarrow> s' = s | Inr e \<Rightarrow> env_created s e parent s')"
proof (cases efl)
  case Nil
  then show ?thesis using env_alloc_none k by fastforce
next
  case efl: (Cons e efl')
  show ?thesis
  proof (cases fl)
    case Nil
    with efl k have "env_alloc s parent = Some (Inl E_NO_MEM, s)" using env_alloc_no_mem by simp
    then show ?thesis using k by fastforce
  next
    case (Cons p fl')
    then show ?thesis using env_alloc_created [of s p fl' e efl' parent] k efl by fastforce
  qed
qed


section \<open>env_free\<close>

definition slot_va :: "nat \<Rightarrow> nat \<Rightarrow> u32" where
  "slot_va i j = push_bit PDSHIFT (of_nat i) OR push_bit PGSHIFT (of_nat j)"

lemma bit_nat_less: "(n :: nat) < 2 ^ k \<Longrightarrow> k \<le> i \<Longrightarrow> \<not> bit n i"
  by (metis bit_take_bit_iff not_less take_bit_nat_eq_self)

lemma slot_va:
  assumes "i < 1024" "j < 1024"
  shows "pdx (slot_va i j) = i" "ptx (slot_va i j) = j"
proof -
  have m: "(0x3FF :: u32) = mask 10" by (simp add: mask_eq_exp_minus_1)
  have b: "\<not> bit i n" "\<not> bit j n" if "10 \<le> n" for n
    using bit_nat_less [of i 10 n] bit_nat_less [of j 10 n] assms that by simp_all
  have "PDX (slot_va i j) = of_nat i" "PTX (slot_va i j) = of_nat j"
    using b by (auto intro!: bit_word_eqI simp: PDX_def PTX_def slot_va_def PDSHIFT_def PGSHIFT_def m
        bit_simps) (metis add.commute leI le_add_diff_inverse2 nat_add_left_cancel_le)+
  then show "pdx (slot_va i j) = i" "ptx (slot_va i j) = j"
    using assms by (simp_all add: pdx_def ptx_def word_nat)
qed

lemma slot_va_user: "i < user_slots \<Longrightarrow> j < 1024 \<Longrightarrow> slot_va i j < UTOP"
proof -
  assume "i < user_slots" "j < 1024"
  then have "unat (slot_va i j) div 2 ^ 22 < 955"
    using slot_va(1) [of i j] by (simp add: pdx_div user_slots_value)
  then show ?thesis by (simp add: word_less_nat_alt layout)
qed

text \<open>The loop over one page table: the entries behind the loop are gone.\<close>

definition ptes_loop :: "kstate \<Rightarrow> nat list \<Rightarrow> nat set \<Rightarrow> nat \<Rightarrow> nat \<Rightarrow> nat list \<Rightarrow> kstate \<Rightarrow> bool" where
  "ptes_loop s0 fl0 D d i js s \<longleftrightarrow>
     (\<exists>fl. vm_inv s D fl no_pending \<and> gives_back s0 fl0 d s fl) \<and> mem_only s0 s \<and> set js \<subseteq> {..<1024}
     \<and> ptslots (phys s) D = ptslots (phys s0) D
     \<and> (\<forall>z \<in> ptslots (phys s0) D. pt_at (phys s) z = pt_at (phys s0) z)
     \<and> (\<forall>j < 1024. j \<notin> set js \<longrightarrow> vm_lookup (phys s) d (slot_va i j) = None)
     \<and> (\<forall>d' \<in> D - {d}. \<forall>va < UTOP. vm_lookup (phys s) d' va = vm_lookup (phys s0) d' va)"

lemma env_free_pte_step:
  assumes L: "ptes_loop s0 fl0 D d i (j # js) s" and d: "d \<in> D" and i: "i < user_slots"
    and x: "(d, i) \<in> ptslots (phys s0) D" and pt: "pt = pt_at (phys s0) (d, i)"
  shows "\<exists>s'. env_free_pte d i pt j s = Some s' \<and> ptes_loop s0 fl0 D d i js s'"
proof -
  obtain fl where inv: "vm_inv s D fl no_pending" and gb: "gives_back s0 fl0 d s fl" and mo: "mem_only s0 s"
    and js: "j < 1024" "set js \<subseteq> {..<1024}"
    and ps: "ptslots (phys s) D = ptslots (phys s0) D"
    and pa: "\<forall>z \<in> ptslots (phys s0) D. pt_at (phys s) z = pt_at (phys s0) z"
    and gone: "\<And>k. k < 1024 \<Longrightarrow> k \<noteq> j \<Longrightarrow> k \<notin> set js \<Longrightarrow> vm_lookup (phys s) d (slot_va i k) = None"
    and oth: "\<forall>d' \<in> D - {d}. \<forall>va < UTOP. vm_lookup (phys s) d' va = vm_lookup (phys s0) d' va"
    using L by (auto simp: ptes_loop_def)
  have i1: "i < 1024" using i by (simp add: user_slots_value)
  note sv = slot_va [OF i1 js(1)]
  have va: "slot_va i k < UTOP" if "k < 1024" for k by (rule slot_va_user [OF i that])
  show ?thesis
  proof (cases "present (phys s pt j)")
    case False
    have "pt = frame_of (phys s d i)" using bspec [OF pa x] pt by (simp add: pt_at_def)
    then have "vm_lookup (phys s) d (slot_va i j) = None"
      using False sv by (simp add: vm_lookup_def Let_def)
    then show ?thesis
      using False inv gb mo js ps pa gone oth by (auto simp: env_free_pte_def ptes_loop_def)
  next
    case True
    obtain s' fl' where rm: "page_remove s d (slot_va i j) = Some s'" "mem_only s s'"
        "vm_inv s' D fl' no_pending"
        and lk: "\<forall>d' \<in> D. \<forall>va' < UTOP. vm_lookup (phys s') d' va' =
            (if d' = d \<and> VPN va' = VPN (slot_va i j) then None else vm_lookup (phys s) d' va')"
        and pt': "ptslots (phys s') D = ptslots (phys s) D"
            "\<forall>z \<in> ptslots (phys s) D. pt_at (phys s') z = pt_at (phys s) z"
        and gb': "gives_back s fl d s' fl'"
      using page_remove_ok [OF inv d va [OF js(1)]] by blast
    have "vm_lookup (phys s') d (slot_va i k) = None" if "k < 1024" "k \<notin> set js" for k
      using lk d va [OF that(1)] gone [of k] that by (cases "k = j") auto
    then have "ptes_loop s0 fl0 D d i js s'"
      using rm(3) gives_back_trans [OF gb gb'] mem_only_trans [OF mo rm(2)] js ps pa pt' lk oth
      by (auto simp: ptes_loop_def)
    then show ?thesis using True rm(1) by (simp add: env_free_pte_def slot_va_def)
  qed
qed

text \<open>One directory entry: its pages and its page table are given back.\<close>

definition pdes_loop :: "kstate \<Rightarrow> nat list \<Rightarrow> nat set \<Rightarrow> nat \<Rightarrow> nat list \<Rightarrow> kstate \<Rightarrow> bool" where
  "pdes_loop s0 fl0 D d is s \<longleftrightarrow>
     (\<exists>fl. vm_inv s D fl no_pending \<and> gives_back s0 fl0 d s fl) \<and> mem_only s0 s \<and> set is \<subseteq> {..<user_slots}
     \<and> (\<forall>i < user_slots. i \<notin> set is \<longrightarrow> \<not> present (phys s d i))
     \<and> ptslots (phys s) D \<subseteq> ptslots (phys s0) D
     \<and> (\<forall>d' \<in> D - {d}. \<forall>va < UTOP. vm_lookup (phys s) d' va = vm_lookup (phys s0) d' va)"


lemma vm_lookup_clear_pde:
  assumes st: "vm_struct m n D" and x: "(d, i) \<in> ptslots m D" and d': "d' \<in> D - {d}"
    and va: "va < UTOP" and e: "\<And>j. ((d, i), j) \<notin> leafslots m D"
  shows "vm_lookup (put_word m d i 0) d' va = vm_lookup m d' va"
proof -
  note sl = clear_pde_slots [OF st x e]
  have D: "d' \<in> D" using d' by simp
  have "put_word m d i 0 (pt_at m (d', pdx va)) = m (pt_at m (d', pdx va))"
    if "((d', pdx va), ptx va) \<in> leafslots m D"
  proof -
    have "pt_at m (d', pdx va) \<noteq> d" using that st x by (auto simp: vm_struct_def leafslots_iff ptslots_iff)
    then show ?thesis by (simp add: put_word_def)
  qed
  then show ?thesis
    using sl(2) [of "(d', pdx va)"] d'
    by (auto simp: vm_lookup_slot [OF D va] sl(3) leafslots_iff)
qed

lemma env_free_pde_step:
  assumes L: "pdes_loop s0 fl0 D d (i # is) s" and d: "d \<in> D"
  shows "\<exists>s'. env_free_pde d i s = Some s' \<and> pdes_loop s0 fl0 D d is s'"
proof (cases "present (phys s d i)")
  case False
  then show ?thesis using L by (auto simp: env_free_pde_def pdes_loop_def)
next
  case True
  obtain fl where inv: "vm_inv s D fl no_pending" and gb: "gives_back s0 fl0 d s fl" and mo: "mem_only s0 s"
    and i: "i < user_slots" "set is \<subseteq> {..<user_slots}"
    and gone: "\<And>k. k < user_slots \<Longrightarrow> k \<noteq> i \<Longrightarrow> k \<notin> set is \<Longrightarrow> \<not> present (phys s d k)"
    and ps: "ptslots (phys s) D \<subseteq> ptslots (phys s0) D"
    and oth: "\<forall>d' \<in> D - {d}. \<forall>va < UTOP. vm_lookup (phys s) d' va = vm_lookup (phys s0) d' va"
    using L by (auto simp: pdes_loop_def)
  let ?t = "pt_at (phys s) (d, i)"
  have x: "(d, i) \<in> ptslots (phys s) D" using d i True by (simp add: ptslots_iff)
  have tn: "?t < npage s" using inv x by (simp add: vm_inv_def vm_struct_def)
  have ft: "frame_of (phys s d i) = ?t" by (simp add: pt_at_def)
  have start: "ptes_loop s fl D d i [0..<1024] s" using inv gives_back_refl by (auto simp: ptes_loop_def)
  obtain s1 where l1: "mfold (env_free_pte d i ?t) [0..<1024] s = Some s1"
      and e1: "ptes_loop s fl D d i [] s1"
    using mfold_rule [where I = "ptes_loop s fl D d i" and f = "env_free_pte d i ?t", OF start
        env_free_pte_step [OF _ d i(1) x refl]] by blast
  obtain fl1 where i1: "vm_inv s1 D fl1 no_pending" and gb1: "gives_back s fl d s1 fl1" and mo1: "mem_only s s1"
    and ps1: "ptslots (phys s1) D = ptslots (phys s) D"
    and pa1: "\<forall>z \<in> ptslots (phys s) D. pt_at (phys s1) z = pt_at (phys s) z"
    and gone1: "\<And>j. j < 1024 \<Longrightarrow> vm_lookup (phys s1) d (slot_va i j) = None"
    and oth1: "\<forall>d' \<in> D - {d}. \<forall>va < UTOP. vm_lookup (phys s1) d' va = vm_lookup (phys s) d' va"
    using e1 by (auto simp: ptes_loop_def)
  have i24: "i < 1024" using i(1) by (simp add: user_slots_value)
  have nl: "((d, i), j) \<notin> leafslots (phys s1) D" for j
  proof (cases "j < 1024")
    case True
    show ?thesis
      using gone1 [OF True] vm_lookup_slot [OF d slot_va_user [OF i(1) True], of "phys s1"]
      by (simp add: slot_va [OF i24 True] split: if_splits)
  next
    case False
    then show ?thesis by (simp add: leafslots_iff)
  qed
  have x1: "(d, i) \<in> ptslots (phys s1) D" using x ps1 by simp
  have st1: "vm_struct (phys s1) (npage s1) D" using i1 by (simp add: vm_inv_def)
  have t1: "pt_at (phys s1) (d, i) = ?t" using bspec [OF pa1 x] .
  note sl = clear_pde_slots [OF st1 x1 nl]
  let ?s' = "page_decref (set_phys s1 d i 0) ?t"
  have run: "env_free_pde d i s = Some ?s'"
    using True tn l1 mem_only_fields(1) [OF mo1] frame_of_PTE_ADDR [of "phys s d i"]
    by (simp add: env_free_pde_def KADDR_frame pa2page_frame ft Let_def)
  have ph: "phys ?s' = put_word (phys s1) d i 0" by simp
  let ?fl = "if pp_ref s1 ?t = 1 then ?t # fl1 else fl1"
  have gb2: "gives_back s1 fl1 d ?s' ?fl"
  proof (rule gives_back_decref)
    have x1': "(d, i) \<in> ptslots (phys s1) {d}" using x1 by (simp add: ptslots_iff)
    have nl': "((d, i), j) \<notin> leafslots (phys s1) {d}" for j using nl [of j] x1 by (simp add: leafslots_iff)
    show "refs (phys ?s') {d} q + (if ?t = q then 1 else 0) = refs (phys s1) {d} q" for q
      using clear_pde_refs [OF vm_struct_one [OF st1 d] x1' nl', of q] t1 by simp
  qed simp_all
  have "\<exists>fl'. vm_inv ?s' D fl' no_pending \<and> gives_back s0 fl0 d ?s' fl'"
    using vm_inv_clear_pde [OF i1 x1 nl] gives_back_trans [OF gb gives_back_trans [OF gb1 gb2]] unfolding t1 by blast
  moreover have "mem_only s0 ?s'"
    by (meson mo mo1 mem_only_trans mem_only_intros(1) mem_only_ops(3))
  moreover have "\<not> present (phys ?s' d k)" if "k < user_slots" "k \<notin> set is" for k
  proof (cases "k = i")
    case True
    then show ?thesis by (simp add: put_word_def)
  next
    case False
    then have "(d, k) \<notin> ptslots (phys s1) D" using gone [OF that(1) False that(2)] ps1 by (simp add: ptslots_iff)
    then show ?thesis using that d False by (simp add: ptslots_iff put_word_def)
  qed
  moreover have "ptslots (phys ?s') D \<subseteq> ptslots (phys s0) D" unfolding ph using sl(1) ps1 ps by auto
  moreover have "vm_lookup (phys ?s') d' va = vm_lookup (phys s0) d' va"
    if "d' \<in> D - {d}" "va < UTOP" for d' va
    unfolding ph using vm_lookup_clear_pde [OF st1 x1 that nl] oth1 oth that by simp
  ultimately show ?thesis using run i(2) by (auto simp: pdes_loop_def)
qed


text \<open>What \<open>env_free\<close> leaves: the environment has no address space, and everything else is
  as it was.\<close>

definition env_freed :: "kstate \<Rightarrow> nat \<Rightarrow> kstate \<Rightarrow> bool" where
  "env_freed s e s' \<longleftrightarrow>
     \<not> live s' e \<and> env_status (envs s' e) = ENV_FREE
     \<and> (\<forall>i. i \<noteq> e \<longrightarrow> envs s' i = envs s i)
     \<and> curenv s' = curenv s \<and> utf s' = utf s \<and> cr3 s' = cr3 s
     \<and> page_fault_mode s' = page_fault_mode s \<and> npage s' = npage s \<and> boot_pgdir s' = boot_pgdir s
     \<and> (\<forall>d \<in> dirs s - {the (env_pgdir (envs s e))}. \<forall>va < UTOP.
          vm_lookup (phys s') d va = vm_lookup (phys s) d va)"

text \<open>
  And what it gives back: nothing is mapped in the old directory \<open>d\<close>; the count of each page goes
  down by the number of entries of the directory and of its page tables that named the page, that
  of the directory by the one of the environment; and a page without references is free.
\<close>

definition all_given_back :: "kstate \<Rightarrow> nat \<Rightarrow> kstate \<Rightarrow> nat list \<Rightarrow> bool" where
  "all_given_back s d s' fl' \<longleftrightarrow>
     no_user_slots (phys s') d
     \<and> (\<forall>p. p \<noteq> d \<longrightarrow> pp_ref s' p = pp_ref s p - of_nat (refs (phys s) {d} p))
     \<and> pp_ref s' d = pp_ref s d - 1
     \<and> (\<forall>p. pp_ref s p \<noteq> 0 \<and> pp_ref s' p = 0 \<longrightarrow> p \<in> set fl')"

lemma refs_no_slots: "no_user_slots m d \<Longrightarrow> refs m {d} p = 0"
proof -
  assume "no_user_slots m d"
  then have "ptslots m {d} = {}" by (auto simp: ptslots_def no_user_slots_def)
  then show ?thesis by (simp add: refs_def leafslots_def)
qed

lemma pgdirs_drop:
  assumes "e < NENV" "env_pgdir (envs s e) = Some d" "distinct_dirs (\<lambda>i. env_pgdir (envs s i))"
    "\<And>i. env_pgdir (envs s' i) = (if i = e then None else env_pgdir (envs s i))"
  shows "pgdirs s' = pgdirs s - {d}"
proof (rule set_eqI)
  fix x
  have u: "i = e" if "i < NENV" "env_pgdir (envs s i) = Some d" for i
    using assms(1-3) that unfolding distinct_dirs_def inj_on_def by auto
  show "x \<in> pgdirs s' \<longleftrightarrow> x \<in> pgdirs s - {d}"
    using assms(2,4) u unfolding pgdirs_def mem_Collect_eq Diff_iff
    by (metis option.distinct(1) option.inject singleton_iff)
qed

lemma env_free_ok:
  assumes k: "kinv_at s fl efl" and e: "live s e"
  shows "\<exists>s' fl'. env_free s e = Some s' \<and> kinv_at s' fl' (e # efl) \<and> env_freed s e s'
    \<and> all_given_back s (the (env_pgdir (envs s e))) s' fl'"
proof -
  obtain d where d: "env_pgdir (envs s e) = Some d" and en: "e < NENV" using e by (auto simp: live_def)
  have inv: "vm_inv s (dirs s) fl no_pending" and lr: "list_repr (env_free_list s) efl"
    and set: "\<And>i. i \<in> set efl \<longleftrightarrow> i < NENV \<and> env_pgdir (envs s i) = None"
    and ent: "\<And>i. i < NENV \<Longrightarrow> env_entry_ok i (envs s i)"
    and dd: "distinct_dirs (\<lambda>i. env_pgdir (envs s i))"
    and bp: "boot_pgdir s \<notin> pgdirs s" "no_user_slots (phys s) (boot_pgdir s)"
    and cv: "\<forall>c. curenv s = Some c \<longrightarrow> c < NENV"
    using k by (auto simp: kinv_at_def envs_ok_def)
  let ?D = "dirs s"
  let ?s0 = "kprintf_msg ''[%08x] free env %08x\<newline>''
      [case curenv s of None \<Rightarrow> 0 | Some c \<Rightarrow> env_id (envs s c), env_id (envs s e)] s"
  have dD: "d \<in> ?D" by (rule dirs_pgdir [OF en d])
  have bd: "boot_pgdir s \<noteq> d" using bp(1) en d by (auto simp: pgdirs_def)
  have "vm_inv ?s0 ?D fl no_pending" by (rule vm_inv_same [OF inv]) simp_all
  then have start: "pdes_loop ?s0 fl ?D d [0..<user_slots] ?s0" using gives_back_refl by (auto simp: pdes_loop_def)
  obtain s1 where l1: "mfold (env_free_pde d) [0..<user_slots] ?s0 = Some s1"
      and e1: "pdes_loop ?s0 fl ?D d [] s1"
    using mfold_rule [where I = "pdes_loop ?s0 fl ?D d" and f = "env_free_pde d", OF start
        env_free_pde_step [OF _ dD]] by blast
  obtain fl1 where i1: "vm_inv s1 ?D fl1 no_pending" and gb: "gives_back ?s0 fl d s1 fl1" and mo1: "mem_only ?s0 s1"
    and emp: "no_user_slots (phys s1) d" and ps: "ptslots (phys s1) ?D \<subseteq> ptslots (phys s) ?D"
    and oth: "\<forall>d' \<in> ?D - {d}. \<forall>va < UTOP. vm_lookup (phys s1) d' va = vm_lookup (phys s) d' va"
    using e1 by (auto simp: pdes_loop_def no_user_slots_def)
  note f1 = mem_only_fields [OF mo1]
  have dn: "d < npage s" "d < 2 ^ 20" using inv dD by (auto simp: vm_inv_def vm_struct_def)
  have cr: "env_cr3 (envs s e) = page2pa d" using ent [OF en] d by (simp add: env_entry_ok_def)
  have bt: "no_user_slots (phys s1) (boot_pgdir s)"
    using ps bp(2) no_user_slots_iff [of "boot_pgdir s" ?D] by (auto simp: dirs_def)
  have ui: "pdx UTOP = user_slots" by (simp add: pdx_def user_slots_def)
  let ?s2 = "upd_env s1 e (\<lambda>v. v\<lparr>env_pgdir := None, env_cr3 := 0\<rparr>)"
  let ?s4 = "upd_env (page_decref ?s2 d) e (env_status_update (\<lambda>_. ENV_FREE))"
  let ?s' = "?s4\<lparr>env_free_list := LIST_INSERT_HEAD (env_free_list ?s4) e\<rparr>"
  have pa: "pa2page ?s2 (page2pa d) = Some d"
    using dn frame_of_page2pa [OF dn(2)] f1(1) by (simp add: pa2page_def frame_of_def upd_env_def)
  have run: "env_free s e = Some ?s'"
    using d l1 pa f1(2) cr by (simp add: env_free_def ui Let_def)
  have nf: "e \<notin> set efl" using set d by simp
  have ev: "envs ?s' i = (if i = e then (envs s e)\<lparr>env_pgdir := None, env_cr3 := 0, env_status := ENV_FREE\<rparr>
      else envs s i)" for i
    using f1(2) by (simp add: envs_upd_env)
  have pg: "env_pgdir (envs ?s' i) = (if i = e then None else env_pgdir (envs s i))" for i
    unfolding ev by simp
  have pgs: "pgdirs ?s' = pgdirs s - {d}" by (rule pgdirs_drop [OF en d dd pg])
  have bo: "boot_pgdir ?s' = boot_pgdir s" using f1(5) by simp
  have ds: "dirs ?s' = ?D - {d}" unfolding dirs_def pgs bo using bd by auto
  have ins: "insert d (?D - {d}) = ?D" using dD by auto
  let ?fl = "if pp_ref s1 d = 1 then d # fl1 else fl1"
  have "vm_inv ?s' (dirs ?s') ?fl no_pending"
  proof -
    have "vm_inv s1 (insert d (?D - {d})) fl1 no_pending" using i1 by (simp only: ins)
    from vm_inv_decref_dir [OF this _ emp] have "vm_inv (page_decref s1 d) (?D - {d}) ?fl no_pending"
      by (simp add: no_pending_def)
    then have "vm_inv ?s' (?D - {d}) ?fl no_pending"
      by (rule vm_inv_same)
        (simp_all add: page_decref_def page_free_def page_initpp_def Let_def upd_env_def)
    then show ?thesis unfolding ds .
  qed
  moreover have "list_repr (env_free_list ?s') (e # efl)"
    using qm.insert_head [of "env_free_list s" efl e] lr nf f1(3) by simp
  moreover have "i \<in> set (e # efl) \<longleftrightarrow> i < NENV \<and> env_pgdir (envs ?s' i) = None" for i
    unfolding pg using set [of i] en by simp
  moreover have "env_entry_ok i (envs ?s' i)" if "i < NENV" for i
    unfolding ev using ent [OF that] by (auto simp: env_entry_ok_def)
  moreover have "distinct_dirs (\<lambda>i. env_pgdir (envs ?s' i))"
    using dd unfolding pg by (auto simp: distinct_dirs_def inj_on_def)
  moreover have "boot_pgdir ?s' \<notin> pgdirs ?s'" unfolding pgs bo using bp(1) by simp
  moreover have "no_user_slots (phys ?s') (boot_pgdir ?s')" unfolding bo using bt by simp
  moreover have "curenv ?s' = curenv s" using f1(4) by simp
  ultimately have k': "kinv_at ?s' ?fl (e # efl)"
    using cv unfolding kinv_at_def envs_ok_def by auto
  have r1: "pp_ref s1 p = pp_ref s p - of_nat (refs (phys s) {d} p)" for p
    using gb refs_no_slots [OF emp] by (simp add: gives_back_def slack_def)
  have rd: "refs (phys s) {d} d = 0"
    using refs_dir_0 [of "phys s" "npage s" "{d}" d] vm_struct_one [of "phys s" "npage s" ?D d] inv dD by (simp add: vm_inv_def)
  have rf: "pp_ref ?s' = (pp_ref s1)(d := pp_ref s1 d - 1)" by (simp add: upd_env_def)
  have nu: "no_user_slots (phys ?s') d" using emp by simp
  have fr: "p \<in> set ?fl" if "pp_ref s p \<noteq> 0" "pp_ref ?s' p = 0" for p
    using that gb rf by (auto simp: gives_back_def split: if_splits)
  have "all_given_back s d ?s' ?fl"
    unfolding all_given_back_def using nu fr rf r1 rd by simp
  have "env_freed s e ?s'"
    unfolding env_freed_def live_def ev using oth d f1 by auto
  moreover have "all_given_back s (the (env_pgdir (envs s e))) ?s' ?fl" using \<open>all_given_back s d ?s' ?fl\<close> d by simp
  ultimately show ?thesis using run k' by blast
qed

lemma env_destroy_ok:
  assumes k: "kinv_at s fl efl" and e: "live s e"
  shows "\<exists>o' fl' efl'. env_destroy s e = Some o' \<and> kinv_at (final o') fl' efl'"
proof -
  obtain s1 fl1 where f: "env_free s e = Some s1" "kinv_at s1 fl1 (e # efl)"
    using env_free_ok [OF k e] by blast
  then have "kinv_at (s1\<lparr>curenv := None\<rparr>) fl1 (e # efl)" by (intro kinv_at_curenv) auto
  from sched_yield_inv [OF this] f show ?thesis by (fastforce simp: env_destroy_def)
qed


section \<open>env_init\<close>

lemma env_init_step_fold:
  assumes "distinct xs" "set xs \<inter> set l = {}" "list_repr (env_free_list s) l"
  shows "list_repr (env_free_list (fold env_init_step xs s)) (rev xs @ l)
    \<and> (\<forall>e. envs (fold env_init_step xs s) e
          = (if e \<in> set xs then (envs s e)\<lparr>env_status := ENV_FREE\<rparr> else envs s e))
    \<and> npage (fold env_init_step xs s) = npage s \<and> boot_pgdir (fold env_init_step xs s) = boot_pgdir s
    \<and> curenv (fold env_init_step xs s) = curenv s
    \<and> phys (fold env_init_step xs s) = phys s \<and> pp_ref (fold env_init_step xs s) = pp_ref s
    \<and> page_free_list (fold env_init_step xs s) = page_free_list s"
  using assms
proof (induction xs arbitrary: s l)
  case Nil
  then show ?case by simp
next
  case (Cons x xs)
  let ?s = "env_init_step x s"
  have x: "x \<notin> set l" and d: "distinct xs" "set xs \<inter> set (x # l) = {}" using Cons.prems by auto
  have l: "list_repr (env_free_list ?s) (x # l)"
    using qm.insert_head [OF Cons.prems(3) x] by (simp add: env_init_step_def Let_def)
  have f: "phys ?s = phys s" "pp_ref ?s = pp_ref s" "page_free_list ?s = page_free_list s"
      "npage ?s = npage s" "boot_pgdir ?s = boot_pgdir s" "curenv ?s = curenv s"
    by (simp_all add: env_init_step_def Let_def)
  have e: "envs ?s i = (if i = x then (envs s x)\<lparr>env_status := ENV_FREE\<rparr> else envs s i)" for i
    by (simp add: env_init_step_def Let_def envs_upd_env)
  from Cons.IH [OF d l] Cons.prems(1) show ?case by (auto simp: f e)
qed

lemma env_init_boot:
  "boot_pgdir (env_init s) = boot_pgdir s" "npage (env_init s) = npage s" "pp_ref (env_init s) = pp_ref s"
  "curenv (env_init s) = curenv s"
  using env_init_step_fold [of "rev [0..<NENV]" "[]" "s\<lparr>env_free_list := LIST_INIT (env_free_list s)\<rparr>"]
    qm.initial by (simp_all add: env_init_def)

lemma env_init_ok:
  assumes iv: "vm_inv s {boot_pgdir s} fl no_pending" and bt: "no_user_slots (phys s) (boot_pgdir s)"
    and en: "\<And>e. e < NENV \<Longrightarrow> env_pgdir (envs s e) = None \<and> env_ipc_dstva (envs s e) < UTOP"
    and cv: "curenv s = None"
  shows "kinv_at (env_init s) fl [0..<NENV]"
proof -
  let ?s = "s\<lparr>env_free_list := LIST_INIT (env_free_list s)\<rparr>"
  let ?t = "fold env_init_step (rev [0..<NENV]) ?s"
  have "list_repr (env_free_list ?s) []" using qm.initial by simp
  note F = env_init_step_fold [OF _ _ this, of "rev [0..<NENV]", simplified]
  have f: "npage ?t = npage s" "boot_pgdir ?t = boot_pgdir s" "curenv ?t = curenv s" using F by simp_all
  have ev: "envs ?t e = (envs s e)\<lparr>env_status := ENV_FREE\<rparr>" if "e < NENV" for e
    using F that by simp
  have pg: "pgdirs ?t = {}" using en by (auto simp: pgdirs_def ev)
  have ds: "dirs ?t = {boot_pgdir s}" by (simp add: dirs_def pg f)
  have "vm_inv ?t {boot_pgdir s} fl no_pending"
    by (rule vm_inv_same [OF iv]) (use F f in simp_all)
  moreover have "list_repr (env_free_list ?t) [0..<NENV]" using F by simp
  moreover have "env_entry_ok e (envs ?t e)" if "e < NENV" for e
    using en [OF that] by (simp add: ev [OF that] env_entry_ok_def)
  moreover have "distinct_dirs (\<lambda>e. env_pgdir (envs ?t e))"
    using en by (auto simp: distinct_dirs_def inj_on_def ev)
  moreover have "no_user_slots (phys ?t) (boot_pgdir ?t)" using bt F f by simp
  moreover have "curenv ?t = None" using cv f by simp
  moreover have "e \<in> set [0..<NENV] \<longleftrightarrow> e < NENV \<and> env_pgdir (envs ?t e) = None" for e
    using en by (auto simp: ev)
  ultimately have "envs_ok ?t [0..<NENV]" unfolding envs_ok_def pg by auto
  then show ?thesis using \<open>vm_inv ?t {boot_pgdir s} fl no_pending\<close>
    by (simp add: kinv_at_def env_init_def ds)
qed

end
