(* ===== verification/Kinv_Mem.thy ===== *)
theory Kinv_Mem
  imports Env_Life
begin

text \<open>
  The memory operations under the kernel invariant: the facts of \<open>Vm_Ops\<close> and \<open>Vm_Dirs\<close>
  restated over \<open>kinv_at\<close>, for the handlers that work on the address space of a live
  environment, and the loading of a binary.
\<close>

unbundle bit_operations_syntax

section \<open>Taking, mapping, unmapping and writing pages\<close>

lemma kinv_at_vm: "kinv_at s fl efl \<Longrightarrow> vm_inv s (dirs s) fl no_pending"
  by (simp add: kinv_at_def)

lemma kinv_at_boot: "kinv_at s fl efl \<Longrightarrow> no_user_slots (phys s) (boot_pgdir s)"
  "kinv_at s fl efl \<Longrightarrow> boot_pgdir s \<notin> pgdirs s"
  by (simp_all add: kinv_at_def envs_ok_def)

lemma kinv_at_curenv_less: "kinv_at s fl efl \<Longrightarrow> curenv s = Some c \<Longrightarrow> c < NENV"
  by (simp add: kinv_at_def envs_ok_def)

lemma liveD: "live s e \<Longrightarrow> \<exists>d. env_pgdir (envs s e) = Some d \<and> d \<in> dirs s"
  using dirs_pgdir by (auto simp: live_def)

lemma live_mem_only: "mem_only s s' \<Longrightarrow> live s' e = live s e"
  by (simp add: live_def mem_only_fields)

lemma dirs_mem_only: "mem_only s s' \<Longrightarrow> dirs s' = dirs s"
  by (rule dirs_cong) (simp_all add: mem_only_fields)

lemma kinv_alloc:
  assumes k: "kinv_at s fl efl"
  shows "(fl = [] \<and> page_alloc s = Some (Inl E_NO_MEM, s))
    \<or> (\<exists>p fl' s'. fl = p # fl' \<and> page_alloc s = Some (Inr p, s') \<and> mem_only s s'
         \<and> phys s' = phys s \<and> pp_ref s' = pp_ref s \<and> kinv_at s' fl' efl
         \<and> data_page s' (dirs s) fl' p \<and> pp_ref s' p = 0
         \<and> p \<notin> leaf_at (phys s) ` leafslots (phys s) (dirs s))"
  using page_alloc_ok [OF kinv_at_vm [OF k]]
proof
  assume "fl = [] \<and> page_alloc s = Some (Inl E_NO_MEM, s)"
  then show ?thesis by simp
next
  assume "\<exists>p fl' q. fl = p # fl' \<and> page_alloc s = Some (Inr p, s\<lparr>page_free_list := q\<rparr>)
         \<and> vm_inv (s\<lparr>page_free_list := q\<rparr>) (dirs s) fl' no_pending
         \<and> data_page (s\<lparr>page_free_list := q\<rparr>) (dirs s) fl' p \<and> pp_ref s p = 0 \<and> no_pending p = 0
         \<and> p \<notin> leaf_at (phys s) ` leafslots (phys s) (dirs s)"
  then obtain p fl' q where *: "fl = p # fl'" "page_alloc s = Some (Inr p, s\<lparr>page_free_list := q\<rparr>)"
    "vm_inv (s\<lparr>page_free_list := q\<rparr>) (dirs s) fl' no_pending"
    "data_page (s\<lparr>page_free_list := q\<rparr>) (dirs s) fl' p" "pp_ref s p = 0"
    "p \<notin> leaf_at (phys s) ` leafslots (phys s) (dirs s)" by blast
  have "kinv_at (s\<lparr>page_free_list := q\<rparr>) fl' efl"
    by (rule kinv_at_mem_only [OF k _ *(3)]) (simp_all add: kinv_at_boot [OF k])
  with * show ?thesis by fastforce
qed

lemma kinv_insert:
  assumes k: "kinv_at s fl efl" and e: "e < NENV" and d: "env_pgdir (envs s e) = Some d"
    and va: "va < UTOP" and pre: "insert_pre s (dirs s) fl p perm"
  shows "(fl = [] \<and> page_insert s d p va perm = Some (Inl E_NO_MEM, s))
    \<or> (\<exists>s' fl'. page_insert s d p va perm = Some (Inr (), s') \<and> kinv_at s' fl' efl
         \<and> inserted s (dirs s) fl d p va perm s' fl')"
proof -
  have dD: "d \<in> dirs s" by (rule dirs_pgdir [OF e d])
  have bd: "boot_pgdir s \<noteq> d" using kinv_at_boot(2) [OF k] e d by (auto simp: pgdirs_def)
  have "kinv_at s' fl' efl"
    if i: "vm_inv s' (dirs s) fl' no_pending" and ins: "inserted s (dirs s) fl d p va perm s' fl'" for s' fl'
  proof (rule kinv_at_mem_only [OF k _ i])
    show "mem_only s s'" using ins by (simp add: inserted_def)
    have "boot_pgdir s \<in> dirs s" by (simp add: dirs_def)
    then show "no_user_slots (phys s') (boot_pgdir s)"
      using ins bd kinv_at_boot(1) [OF k] no_user_slots_iff [of "boot_pgdir s" "dirs s"]
      by (auto simp: inserted_def)
  qed
  then show ?thesis using page_insert_ok [OF kinv_at_vm [OF k] dD va pre] by blast
qed

lemma kinv_remove:
  assumes k: "kinv_at s fl efl" and e: "e < NENV" and d: "env_pgdir (envs s e) = Some d"
    and va: "va < UTOP"
  shows "\<exists>s' fl'. page_remove s d va = Some s' \<and> kinv_at s' fl' efl \<and> mem_only s s'
     \<and> (\<forall>d' \<in> dirs s. \<forall>va' < UTOP. vm_lookup (phys s') d' va' =
            (if d' = d \<and> VPN va' = VPN va then None else vm_lookup (phys s) d' va'))
     \<and> (\<forall>p. data_page s (dirs s) fl p \<longrightarrow> phys s' p = phys s p)"
proof -
  have dD: "d \<in> dirs s" by (rule dirs_pgdir [OF e d])
  obtain s' fl' where *: "page_remove s d va = Some s'" "mem_only s s'" "vm_inv s' (dirs s) fl' no_pending"
      "\<forall>d' \<in> dirs s. \<forall>va' < UTOP. vm_lookup (phys s') d' va' =
            (if d' = d \<and> VPN va' = VPN va then None else vm_lookup (phys s) d' va')"
      "ptslots (phys s') (dirs s) = ptslots (phys s) (dirs s)"
      "\<forall>p. data_page s (dirs s) fl p \<longrightarrow> phys s' p = phys s p"
    using page_remove_ok [OF kinv_at_vm [OF k] dD va] by blast
  have "boot_pgdir s \<in> dirs s" by (simp add: dirs_def)
  then have "no_user_slots (phys s') (boot_pgdir s)"
    using *(5) kinv_at_boot(1) [OF k] no_user_slots_iff [of "boot_pgdir s" "dirs s"] by auto
  then have "kinv_at s' fl' efl" by (rule kinv_at_mem_only [OF k *(2,3)])
  with * show ?thesis by blast
qed

lemma kinv_write:
  assumes k: "kinv_at s fl efl" and dp: "data_page s (dirs s) fl p"
    and q: "\<And>q. q \<noteq> p \<Longrightarrow> m' q = phys s q"
  shows "kinv_at (s\<lparr>phys := m'\<rparr>) fl efl"
    "\<And>d va. d \<in> dirs s \<Longrightarrow> va < UTOP \<Longrightarrow> vm_lookup m' d va = vm_lookup (phys s) d va"
    "\<And>x. data_page (s\<lparr>phys := m'\<rparr>) (dirs s) fl x = data_page s (dirs s) fl x"
proof -
  have ts: "tables_same (phys s) m' (dirs s)"
    by (rule tables_same_page [where p = p]) (use dp q in \<open>simp_all add: data_page_def\<close>)
  have mo: "mem_only s (s\<lparr>phys := m'\<rparr>)" by (simp add: mem_only_def)
  have iv: "vm_inv (s\<lparr>phys := m'\<rparr>) (dirs s) fl no_pending"
    by (rule vm_inv_same [OF kinv_at_vm [OF k]]) (simp_all add: ts)
  have "no_user_slots m' (boot_pgdir s)"
    by (rule no_user_slots_same [OF kinv_at_boot(1) [OF k] _ ts]) (simp add: dirs_def)
  then show "kinv_at (s\<lparr>phys := m'\<rparr>) fl efl" by (intro kinv_at_mem_only [OF k mo iv]) simp
  show "vm_lookup m' d va = vm_lookup (phys s) d va" if "d \<in> dirs s" "va < UTOP" for d va
    by (rule tables_same_lookup [OF ts that])
  show "data_page (s\<lparr>phys := m'\<rparr>) (dirs s) fl x = data_page s (dirs s) fl x" for x
    using tables_same_slots(1,2) [OF ts] by (auto simp: data_page_def image_iff)
qed

section \<open>load_icode\<close>

lemma kinv_alloc_insert:
  assumes k: "kinv_at s fl efl" and e: "e < NENV" and d: "env_pgdir (envs s e) = Some d"
    and va: "va < UTOP" and l: "low_bits perm" and al: "page_alloc s = Some (Inr p, s1)"
  shows "\<exists>r s2 fl2. page_insert s1 d p va perm = Some (r, s2) \<and> kinv_at s2 fl2 efl
      \<and> mem_only s s2 \<and> data_page s2 (dirs s) fl2 p"
proof -
  obtain fl' where a: "mem_only s s1" "kinv_at s1 fl' efl" "data_page s1 (dirs s) fl' p" "pp_ref s1 p = 0"
    using kinv_alloc [OF k] al by auto
  have d1: "env_pgdir (envs s1 e) = Some d" and D: "dirs s1 = dirs s"
    using d mem_only_fields(2) [OF a(1)] dirs_mem_only [OF a(1)] by simp_all
  have "insert_pre s1 (dirs s1) fl' p perm" using insert_pre_fresh [OF a(3,4) l] D by simp
  from kinv_insert [OF a(2) e d1 va this] a mem_only_trans [OF a(1)] D show ?thesis
    by (fastforce simp: inserted_def)
qed

lemma load_pages_ok:
  assumes "kinv_at s fl efl" "e < NENV" "env_pgdir (envs s e) = Some d"
    "\<And>i. i \<in> set is \<Longrightarrow> UTEXT + of_nat i * BY2PG < UTOP"
  shows "\<exists>s' fl'. load_pages s d binary is = Some s' \<and> kinv_at s' fl' efl \<and> mem_only s s'"
  using assms
proof (induction "is" arbitrary: s fl)
  case Nil
  then show ?case by auto
next
  case (Cons i "is")
  let ?va = "UTEXT + of_nat i * BY2PG"
  have lb: "low_bits (PTE_W OR PTE_U)" by (simp add: low_bits_def PTE_W_def PTE_U_def)
  show ?case
  proof (cases "fl = []")
    case True
    then have "page_alloc s = Some (Inl E_NO_MEM, s)" using kinv_alloc [OF Cons.prems(1)] by auto
    then show ?thesis using Cons.prems(1) by auto
  next
    case False
    then obtain p s1 where al: "page_alloc s = Some (Inr p, s1)"
      using kinv_alloc [OF Cons.prems(1)] by auto
    obtain r s2 fl2 where ins: "page_insert s1 d p ?va (PTE_W OR PTE_U) = Some (r, s2)"
        and k2: "kinv_at s2 fl2 efl" and mo: "mem_only s s2" and dp: "data_page s2 (dirs s) fl2 p"
      using kinv_alloc_insert [OF Cons.prems(1-3) Cons.prems(4) [of i] lb al] by auto
    have D: "dirs s2 = dirs s" by (rule dirs_mem_only [OF mo])
    have pn: "p < npage s2" "p < 2 ^ 20"
      using dp kinv_at_vm [OF k2] by (simp_all add: data_page_def vm_inv_def vm_struct_def)
    let ?s3 = "copy_page binary (i * 1024) p s2"
    have k3: "kinv_at ?s3 fl2 efl"
      unfolding copy_page_def by (rule kinv_write(1) [OF k2, of p]) (use dp D in auto)
    have mo3: "mem_only s ?s3"
      by (rule mem_only_trans [OF mo]) (simp add: mem_only_def copy_page_def)
    have "env_pgdir (envs ?s3 e) = Some d" using Cons.prems(3) mem_only_fields(2) [OF mo3] by simp
    from Cons.IH [OF k3 Cons.prems(2) this] Cons.prems(4) obtain s' fl' where
      "load_pages ?s3 d binary is = Some s'" "kinv_at s' fl' efl" "mem_only ?s3 s'" by auto
    then show ?thesis using al ins pn mem_only_trans [OF mo3]
      by (auto simp: page2kva_page)
  qed
qed

text \<open>The pages of a binary that fits between \<open>UTEXT\<close> and \<open>UTOP\<close> lie below \<open>UTOP\<close>.\<close>

lemma ROUND_pages: "sz < UTOP - UTEXT \<Longrightarrow> i < unat (ROUND sz BY2PG div BY2PG) \<Longrightarrow>
    UTEXT + of_nat i * BY2PG < UTOP"
proof -
  assume s: "sz < UTOP - UTEXT" and i: "i < unat (ROUND sz BY2PG div BY2PG)"
  have u: "unat sz < 0xee400000" using s by (simp add: word_less_nat_alt layout)
  have "unat (ROUND sz BY2PG) \<le> unat (sz + BY2PG - 1)"
    unfolding ROUND_def by (rule word_and_le2 [THEN word_le_nat_alt [THEN iffD1]])
  also have "unat (sz + BY2PG - 1) = unat sz + 4095"
    using u by (simp add: layout unat_word_ariths)
  finally have "unat (ROUND sz BY2PG) div 4096 \<le> (unat sz + 4095) div 4096" by (rule div_le_mono)
  then have i': "i < (unat sz + 4095) div 4096" using i by (simp add: unat_div layout)
  then have "i * 4096 < 0xee400000" using u by linarith
  then have "unat (UTEXT + of_nat i * BY2PG) = 0x800000 + i * 4096"
    by (simp add: layout unat_word_ariths word_nat unat_of_nat take_bit_nat_eq_self)
  then show ?thesis using \<open>i * 4096 < 0xee400000\<close> by (simp add: word_less_nat_alt layout)
qed


lemma load_icode_ok:
  assumes k: "kinv_at s fl efl" and e: "live s e" and sz: "sz < UTOP - UTEXT"
  shows "\<exists>s' fl'. load_icode s e binary sz = Some s' \<and> kinv_at s' fl' efl \<and> mem_only s s'"
proof -
  have en: "e < NENV" using e by (simp add: live_def)
  obtain d where d: "env_pgdir (envs s e) = Some d" using liveD [OF e] by blast
  have lb: "low_bits (PTE_W OR PTE_U)" by (simp add: low_bits_def PTE_W_def PTE_U_def)
  have st: "USTACKTOP - BY2PG < UTOP" by (simp add: layout)
  show ?thesis
  proof (cases "fl = []")
    case True
    then have "page_alloc s = Some (Inl E_NO_MEM, s)" using kinv_alloc [OF k] by auto
    then show ?thesis using k d by (auto simp: load_icode_def Let_def)
  next
    case False
    then obtain p s1 where al: "page_alloc s = Some (Inr p, s1)" using kinv_alloc [OF k] by auto
    obtain r s2 fl2 where ins: "page_insert s1 d p (USTACKTOP - BY2PG) (PTE_W OR PTE_U) = Some (r, s2)"
        and k2: "kinv_at s2 fl2 efl" and mo: "mem_only s s2"
      using kinv_alloc_insert [OF k en d st lb al] by auto
    have d2: "env_pgdir (envs s2 e) = Some d" using d mem_only_fields(2) [OF mo] by simp
    have "UTEXT + of_nat i * BY2PG < UTOP" if "i \<in> set [0..<unat (ROUND sz BY2PG div BY2PG)]" for i
      by (rule ROUND_pages [OF sz]) (use that in simp)
    from load_pages_ok [OF k2 en d2 this] obtain s' fl' where
      "load_pages s2 d binary [0..<unat (ROUND sz BY2PG div BY2PG)] = Some s'"
      "kinv_at s' fl' efl" "mem_only s2 s'" by blast
    then show ?thesis using d al ins mem_only_trans [OF mo] by (auto simp: load_icode_def Let_def)
  qed
qed

lemma env_create_ok:
  assumes k: "kinv_at s (p # fl) (e # efl)" and sz: "sz < UTOP - UTEXT"
  shows "\<exists>s' fl'. env_create s binary sz = Some s' \<and> kinv_at s' fl' efl
      \<and> live s' e \<and> env_status (envs s' e) = ENV_RUNNABLE"
proof -
  obtain s1 where a: "env_alloc s 0 = Some (Inr e, s1)" "kinv_at s1 fl efl" "env_created s e 0 s1"
    using env_alloc_created [OF k] by blast
  have l: "live s1 e" using a(3) by (simp add: env_created_def)
  obtain s' fl' where b: "load_icode s1 e binary sz = Some s'" "kinv_at s' fl' efl" "mem_only s1 s'"
    using load_icode_ok [OF a(2) l sz] by blast
  have "live s' e" "env_status (envs s' e) = ENV_RUNNABLE"
    using l a(3) live_mem_only [OF b(3)] mem_only_fields(2) [OF b(3)]
    by (simp_all add: env_created_def)
  then show ?thesis using a(1) b by (auto simp: env_create_def)
qed

end
