(* ===== verification/Bytes.thy ===== *)
theory Bytes
  imports Prelude
begin

text \<open>
  The bytes of a word, little endian as on the processor of the program, and the view of a
  C string: a \<open>char *\<close> that is only read is the function from an offset to the byte there.
\<close>

unbundle bit_operations_syntax

section \<open>Bytes of words\<close>

definition get_byte :: "u32 \<Rightarrow> nat \<Rightarrow> u8" where
  "get_byte w b = ucast (drop_bit (8 * b) w)"

definition put_byte :: "u32 \<Rightarrow> nat \<Rightarrow> u8 \<Rightarrow> u32" where
  "put_byte w b x = (w AND NOT (push_bit (8 * b) 0xFF)) OR push_bit (8 * b) (ucast x)"

definition word_of_bytes :: "u8 list \<Rightarrow> u32" where
  "word_of_bytes bs = foldr (\<lambda>b w. ucast b OR push_bit 8 w) bs 0"

lemma get_byte_put_byte:
  "b < 4 \<Longrightarrow> c < 4 \<Longrightarrow> get_byte (put_byte w b x) c = (if c = b then x else get_byte w c)"
proof -
  assume b: "b < 4" and c: "c < 4"
  have m: "(0xFF :: u32) = mask 8" by (simp add: mask_eq_exp_minus_1)
  show ?thesis
  proof (rule bit_word_eqI)
    fix n :: nat
    assume n: "n < LENGTH(8)"
    have "c < b \<Longrightarrow> 8 * c + n < 8 * b" "b < c \<Longrightarrow> 8 * b + 8 \<le> 8 * c + n" using n by auto
    then show "bit (get_byte (put_byte w b x) c) n = bit (if c = b then x else get_byte w c) n"
      using n b c by (cases c b rule: linorder_cases)
        (auto simp: get_byte_def put_byte_def m bit_simps dest: bit_imp_le_length)
  qed
qed

section \<open>Strings\<close>

text \<open>The bytes at a pointer start with a string and its terminator.\<close>

fun cstr :: "(nat \<Rightarrow> u8) \<Rightarrow> u8 list \<Rightarrow> bool" where
  "cstr r [] \<longleftrightarrow> r 0 = 0"
| "cstr r (x # xs) \<longleftrightarrow> x \<noteq> 0 \<and> r 0 = x \<and> cstr (\<lambda>i. r (Suc i)) xs"

lemma cstr_nth: "cstr r xs \<longleftrightarrow> (\<forall>i < length xs. r i = xs ! i \<and> xs ! i \<noteq> 0) \<and> r (length xs) = 0"
proof (induction xs arbitrary: r)
  case (Cons x xs)
  have "(\<forall>i < Suc n. P i) \<longleftrightarrow> P 0 \<and> (\<forall>i < n. P (Suc i))" for P and n :: nat
    by (metis gr0_conv_Suc less_Suc_eq_0_disj)
  then show ?case using Cons.IH [of "\<lambda>i. r (Suc i)"] by auto
qed simp

lemma cstr_unique: "cstr r xs \<Longrightarrow> cstr r ys \<Longrightarrow> xs = ys"
proof (induction xs arbitrary: r ys)
  case Nil
  then show ?case by (cases ys) auto
next
  case (Cons x xs)
  then show ?case by (cases ys) auto
qed

end
