(* ===== verification/Usermem.thy ===== *)
theory Usermem
  imports Kinv_Mem Bytes
begin

text \<open>
  The kernel's own accesses to user memory: the processor translates them through the page
  directory in \<open>cr3\<close>, and an access to an unmapped address is a page fault in kernel mode.
  A write also needs \<open>PTE_W\<close> at both levels, because \<open>i386_vm_init\<close> sets \<open>CR0_WP\<close>.

  The bytes of a word are little endian. The trap frame is laid out as \<open>struct Trapframe\<close>
  of \<open>inc/trap.h\<close>: seventeen words.
\<close>

unbundle bit_operations_syntax

section \<open>Accesses\<close>

definition load_byte :: "kstate \<Rightarrow> u32 \<Rightarrow> u8 option" where
  "load_byte s va =
     (case vm_lookup (phys s) (frame_of (cr3 s)) va of
        None \<Rightarrow> None
      | Some w \<Rightarrow>
          Some (get_byte (phys s (frame_of w) (unat (PGOFF va) div 4)) (unat (PGOFF va) mod 4)))"

definition writable :: "u32 \<Rightarrow> bool" where
  "writable w \<longleftrightarrow> w AND PTE_W \<noteq> 0"

text \<open>The entry through which a store goes, or \<open>None\<close> for a fault.\<close>

definition store_entry :: "kstate \<Rightarrow> u32 \<Rightarrow> u32 option" where
  "store_entry s va =
     (case vm_lookup (phys s) (frame_of (cr3 s)) va of
        None \<Rightarrow> None
      | Some w \<Rightarrow>
          if writable w \<and> writable (phys s (frame_of (cr3 s)) (pdx va)) then Some w else None)"

definition put_byte_at :: "kstate \<Rightarrow> u32 \<Rightarrow> u32 \<Rightarrow> u8 \<Rightarrow> kstate" where
  "put_byte_at s w va b =
     (let t = frame_of w; j = unat (PGOFF va) div 4
      in set_phys s t j (put_byte (phys s t j) (unat (PGOFF va) mod 4) b))"

text \<open>The outcome of an access: \<open>Inl\<close> the faulting address, or the result.\<close>

fun load_bytes :: "kstate \<Rightarrow> u32 \<Rightarrow> nat \<Rightarrow> u32 + u8 list" where
  "load_bytes s va 0 = Inr []"
| "load_bytes s va (Suc n) =
     (case load_byte s va of
        None \<Rightarrow> Inl va
      | Some b \<Rightarrow>
          (case load_bytes s (va + 1) n of Inl a \<Rightarrow> Inl a | Inr bs \<Rightarrow> Inr (b # bs)))"

definition store32 :: "kstate \<Rightarrow> u32 \<Rightarrow> u32 \<Rightarrow> u32 + kstate" where
  "store32 s va w =
     (case find (\<lambda>i. store_entry s (va + of_nat i) = None) [0..<4] of
        Some i \<Rightarrow> Inl (va + of_nat i)
      | None \<Rightarrow>
          Inr (fold (\<lambda>i t. put_byte_at t (the (store_entry s (va + of_nat i))) (va + of_nat i) (get_byte w i))
                 [0..<4] s))"

fun store_words :: "kstate \<Rightarrow> (u32 \<times> u32) list \<Rightarrow> (u32 \<times> kstate) + kstate" where
  "store_words s [] = Inr s"
| "store_words s ((va, w) # ws) =
     (case store32 s va w of Inl a \<Rightarrow> Inl (a, s) | Inr s1 \<Rightarrow> store_words s1 ws)"

text \<open>
  A zero terminated string: the characters, up to the terminator or to the first
  address that cannot be read. A string that never ends and never faults is \<open>None\<close>.
\<close>

partial_function (option) load_string :: "kstate \<Rightarrow> u32 \<Rightarrow> (u8 list \<times> u32 option) option" where
  "load_string s va =
     (case load_byte s va of
        None \<Rightarrow> Some ([], Some va)
      | Some b \<Rightarrow>
          if b = 0 then Some ([], None)
          else
            do {
              (bs, f) \<leftarrow> load_string s (va + 1);
              Some (b # bs, f)
            })"

section \<open>Trap frames in memory\<close>

fun words_of_bytes :: "u8 list \<Rightarrow> u32 list" where
  "words_of_bytes (a # b # c # d # bs) = word_of_bytes [a, b, c, d] # words_of_bytes bs"
| "words_of_bytes _ = []"

definition trapframe_of_words :: "u32 list \<Rightarrow> trapframe" where
  "trapframe_of_words w =
     \<lparr>tf_edi = w ! 0, tf_esi = w ! 1, tf_ebp = w ! 2, tf_oesp = w ! 3, tf_ebx = w ! 4,
      tf_edx = w ! 5, tf_ecx = w ! 6, tf_eax = w ! 7, tf_es = ucast (w ! 8),
      tf_ds = ucast (w ! 9), tf_trapno = w ! 10, tf_err = w ! 11, tf_eip = w ! 12,
      tf_cs = ucast (w ! 13), tf_eflags = w ! 14, tf_esp = w ! 15, tf_ss = ucast (w ! 16)\<rparr>"

definition words_of_trapframe :: "trapframe \<Rightarrow> u32 list" where
  "words_of_trapframe t =
     [tf_edi t, tf_esi t, tf_ebp t, tf_oesp t, tf_ebx t, tf_edx t, tf_ecx t, tf_eax t,
      ucast (tf_es t), ucast (tf_ds t), tf_trapno t, tf_err t, tf_eip t, ucast (tf_cs t),
      tf_eflags t, tf_esp t, ucast (tf_ss t)]"

lemma u16_of_u32: "ucast (ucast (x :: u16) :: u32) = x"
  by (rule bit_word_eqI) (auto simp: bit_simps)

lemma trapframe_words: "trapframe_of_words (words_of_trapframe t) = t"
  by (simp add: u16_of_u32 trapframe_of_words_def words_of_trapframe_def)

section \<open>Stores to the pages of a user\<close>

text \<open>A store to a user address changes one data page.\<close>

lemma put_byte_at_kinv:
  assumes k: "kinv_at s fl efl" and dp: "data_page s (dirs s) fl (frame_of w)"
  shows "kinv_at (put_byte_at s w va b) fl efl"
    "\<And>x. data_page (put_byte_at s w va b) (dirs s) fl x = data_page s (dirs s) fl x"
    "dirs (put_byte_at s w va b) = dirs s"
    "\<And>d a. d \<in> dirs s \<Longrightarrow> a < UTOP \<Longrightarrow> vm_lookup (phys (put_byte_at s w va b)) d a = vm_lookup (phys s) d a"
proof -
  let ?m = "phys (put_byte_at s w va b)"
  have e: "put_byte_at s w va b = s\<lparr>phys := ?m\<rparr>"
    by (simp add: put_byte_at_def Let_def set_phys_def)
  have q: "q \<noteq> frame_of w \<Longrightarrow> ?m q = phys s q" for q
    by (simp add: put_byte_at_def Let_def put_word_def)
  show "kinv_at (put_byte_at s w va b) fl efl"
    by (subst e) (rule kinv_write(1) [OF k dp q])
  show "data_page (put_byte_at s w va b) (dirs s) fl x = data_page s (dirs s) fl x" for x
    by (subst e) (rule kinv_write(3) [OF k dp q])
  show "dirs (put_byte_at s w va b) = dirs s"
    by (subst e, rule dirs_cong) simp_all
  show "vm_lookup ?m d a = vm_lookup (phys s) d a" if "d \<in> dirs s" "a < UTOP" for d a
    by (rule kinv_write(2) [OF k dp q that])
qed

end
