(* ===== verification/Syscall.thy ===== *)
theory Syscall
  imports Usermem
begin

text \<open>
  The system calls: \<open>kern/syscall.c\<close>, with the kernel-mode branch of the page fault handler
  of \<open>kern/trap.c\<close> that a bad user pointer reaches.

  A call comes back to its caller with a value (\<open>Back\<close>), or leaves through \<open>env_run\<close>
  (\<open>Away\<close>), or stops the machine (\<open>None\<close>: a panic or a null pointer). \<open>kip\<close> is the address of
  the kernel instruction that faults; it is only printed.
\<close>

unbundle bit_operations_syntax

datatype sysret = Back u32 kstate | Away kstate

fun ret_state :: "sysret \<Rightarrow> kstate" where
  "ret_state (Back _ s) = s"
| "ret_state (Away s) = s"

text \<open>The negative integer that reports an error.\<close>

definition neg_err :: "error \<Rightarrow> u32" where
  "neg_err e = - of_nat (errno e)"

section \<open>A fault of the kernel on a user pointer\<close>

text \<open>The part of \<open>page_fault_handler\<close> for a fault in kernel mode. \<open>env_destroy\<close> of the
  current environment does not return, so the reset of \<open>page_fault_mode\<close> is not reached.\<close>

definition kernel_fault :: "kstate \<Rightarrow> u32 \<Rightarrow> u32 \<Rightarrow> sysret option" where
  "kernel_fault s va ip =
     do {
       let s1 = kprintf_msg ''page fault at kernel\<newline>'' [] s;
       if page_fault_mode s1 = PFM_NONE then None
       else
         do {
           c \<leftarrow> curenv s1;
           let s2 = kprintf_msg ''[%08x] PFM_KILL va %08x ip %08x\<newline>'' [env_id (envs s1 c), va, ip] s1;
           r \<leftarrow> env_destroy s2 c;
           case r of
             Sched s3 \<Rightarrow> Some (Away s3)
           | Ret s3 \<Rightarrow> Some (Back 0 (s3\<lparr>page_fault_mode := PFM_NONE\<rparr>))
         }
     }"

definition print_chars :: "u8 list \<Rightarrow> kstate \<Rightarrow> kstate" where
  "print_chars bs s = s\<lparr>klog := klog s @ [Msg ''%s'' (map ucast bs)]\<rparr>"

section \<open>The calls\<close>

definition sys_getenvid :: "kstate \<Rightarrow> sysret option" where
  "sys_getenvid s = do { c \<leftarrow> curenv s; Some (Back (env_id (envs s c)) s) }"

text \<open>The string that \<open>%s\<close> prints: a null pointer is \<open>(null)\<close>.\<close>

definition shown_string :: "kstate \<Rightarrow> u32 \<Rightarrow> (u8 list \<times> u32 option) option" where
  "shown_string s p = (if p = 0 then Some (map of_char ''(null)'', None) else load_string s p)"

definition sys_cputs :: "kstate \<Rightarrow> u32 \<Rightarrow> u32 \<Rightarrow> sysret option" where
  "sys_cputs s str kip =
     do {
       (bs, f) \<leftarrow> shown_string s (TRUP str);
       let s1 = print_chars bs s;
       case f of
         None \<Rightarrow> Some (Back 0 s1)
       | Some va \<Rightarrow> kernel_fault s1 va kip
     }"

definition sys_set_color :: "kstate \<Rightarrow> u32 \<Rightarrow> sysret option" where
  "sys_set_color s c = Some (Back 0 (s\<lparr>color := c\<rparr>))"

definition sys_yield :: "kstate \<Rightarrow> sysret option" where
  "sys_yield s = Some (Away (sched_yield s))"

definition sys_env_destroy :: "kstate \<Rightarrow> u32 \<Rightarrow> sysret option" where
  "sys_env_destroy s envid =
     do {
       r \<leftarrow> envid2env s envid True;
       case r of
         Inl err \<Rightarrow> Some (Back (neg_err err) s)
       | Inr None \<Rightarrow> None
       | Inr (Some e) \<Rightarrow>
           do {
             d \<leftarrow> env_destroy s e;
             case d of Ret s1 \<Rightarrow> Some (Back 0 s1) | Sched s1 \<Rightarrow> Some (Away s1)
           }
     }"

definition sys_ipc_recv :: "kstate \<Rightarrow> u32 \<Rightarrow> sysret option" where
  "sys_ipc_recv s dstva =
     do {
       c \<leftarrow> curenv s;
       if env_ipc_recving (envs s c) \<noteq> 0 then None
       else if dstva \<ge> UTOP then None
       else
         Some (Away (sched_yield (upd_env s c (\<lambda>v. v\<lparr>env_ipc_recving := 1, env_ipc_dstva := dstva,
            env_status := ENV_NOT_RUNNABLE\<rparr>))))
     }"

text \<open>The delivery at the end of \<open>sys_ipc_can_send\<close>.\<close>

definition ipc_deliver :: "kstate \<Rightarrow> nat \<Rightarrow> u32 \<Rightarrow> u32 \<Rightarrow> u32 \<Rightarrow> kstate" where
  "ipc_deliver s e perm from value =
     upd_env s e (\<lambda>v. v\<lparr>env_ipc_perm := perm, env_ipc_recving := 0, env_ipc_from := from,
        env_ipc_value := value, env_status := ENV_RUNNABLE\<rparr>)"

definition perm_ok :: "u32 \<Rightarrow> bool" where
  "perm_ok perm \<longleftrightarrow>
     \<not> (NOT perm AND (PTE_U OR PTE_P) \<noteq> 0
        \<or> perm AND NOT (PTE_U OR PTE_P OR PTE_AVAIL OR PTE_W) \<noteq> 0)"

definition sys_ipc_can_send :: "kstate \<Rightarrow> u32 \<Rightarrow> u32 \<Rightarrow> u32 \<Rightarrow> u32 \<Rightarrow> sysret option" where
  "sys_ipc_can_send s envid value srcva perm =
     do {
       r \<leftarrow> envid2env s envid False;
       case r of
         Inl err \<Rightarrow> Some (Back (neg_err err) s)
       | Inr None \<Rightarrow> None
       | Inr (Some e) \<Rightarrow>
           if env_ipc_recving (envs s e) = 0 then Some (Back (neg_err E_IPC_NOT_RECV) s)
           else
             do {
               c \<leftarrow> curenv s;
               let from = env_id (envs s c);
               if srcva \<noteq> 0 \<and> env_ipc_dstva (envs s e) \<noteq> 0 then
                 if srcva \<ge> UTOP then Some (Back (neg_err E_INVAL) s)
                 else if \<not> perm_ok perm then Some (Back (neg_err E_INVAL) s)
                 else
                   do {
                     d \<leftarrow> env_pgdir (envs s c);
                     (l, s1) \<leftarrow> page_lookup s d srcva;
                     case l of
                       None \<Rightarrow>
                         Some (Back (neg_err E_INVAL)
                           (kprintf_msg ''[%08x] page_lookup %08x failed in sys_ipc_can_send\<newline>'' [from, srcva] s1))
                     | Some (p, _) \<Rightarrow>
                         do {
                           d' \<leftarrow> env_pgdir (envs s1 e);
                           (i, s2) \<leftarrow> page_insert s1 d' p (env_ipc_dstva (envs s1 e)) perm;
                           case i of
                             Inl err \<Rightarrow> Some (Back (neg_err err) s2)
                           | Inr _ \<Rightarrow> Some (Back 0 (ipc_deliver s2 e perm from value))
                         }
                   }
               else Some (Back 0 (ipc_deliver s e 0 from value))
             }
     }"

definition sys_set_pgfault_handler :: "kstate \<Rightarrow> u32 \<Rightarrow> u32 \<Rightarrow> u32 \<Rightarrow> sysret option" where
  "sys_set_pgfault_handler s envid func xstacktop =
     do {
       r \<leftarrow> envid2env s envid True;
       case r of
         Inl err \<Rightarrow> Some (Back (neg_err err) s)
       | Inr None \<Rightarrow> None
       | Inr (Some e) \<Rightarrow>
           Some (Back 0 (upd_env s e (\<lambda>v. v\<lparr>env_pgfault_handler := func, env_xstacktop := xstacktop\<rparr>)))
     }"

definition sys_mem_alloc :: "kstate \<Rightarrow> u32 \<Rightarrow> u32 \<Rightarrow> u32 \<Rightarrow> sysret option" where
  "sys_mem_alloc s envid va perm =
     (if va \<ge> UTOP then Some (Back (neg_err E_INVAL) (kprintf_msg ''!!!!%x\<newline>'' [va] s))
      else
        do {
          (r, s1) \<leftarrow> page_alloc s;
          case r of
            Inl err \<Rightarrow> Some (Back (neg_err err) (kprintf_msg ''@@@@%x\<newline>'' [neg_err err] s1))
          | Inr p \<Rightarrow>
              do {
                q \<leftarrow> envid2env s1 envid False;
                case q of
                  Inl err \<Rightarrow> Some (Back (neg_err err) (kprintf_msg ''####%x\<newline>'' [va] s1))
                | Inr None \<Rightarrow> None
                | Inr (Some e) \<Rightarrow>
                    do {
                      kva \<leftarrow> page2kva s1 p;
                      let s2 = bzero_page s1 kva;
                      d \<leftarrow> env_pgdir (envs s2 e);
                      (i, s3) \<leftarrow> page_insert s2 d p va perm;
                      case i of
                        Inl err \<Rightarrow> Some (Back (neg_err err) (kprintf_msg ''$$$$%x\<newline>'' [va] s3))
                      | Inr _ \<Rightarrow> Some (Back 0 s3)
                    }
              }
        })"

definition sys_mem_map :: "kstate \<Rightarrow> u32 \<Rightarrow> u32 \<Rightarrow> u32 \<Rightarrow> u32 \<Rightarrow> u32 \<Rightarrow> sysret option" where
  "sys_mem_map s srcid srcva dstid dstva perm =
     (if srcva \<ge> UTOP \<or> dstva \<ge> UTOP then Some (Back (neg_err E_INVAL) s)
      else
        do {
          r \<leftarrow> envid2env s srcid False;
          case r of
            Inl err \<Rightarrow> Some (Back (neg_err err) s)
          | Inr src \<Rightarrow>
              do {
                r' \<leftarrow> envid2env s dstid False;
                case r' of
                  Inl err \<Rightarrow> Some (Back (neg_err err) s)
                | Inr dst \<Rightarrow>
                    do {
                      e \<leftarrow> src;
                      d \<leftarrow> env_pgdir (envs s e);
                      (l, s1) \<leftarrow> page_lookup s d srcva;
                      case l of
                        None \<Rightarrow> Some (Back (neg_err E_INVAL) s1)
                      | Some (p, _) \<Rightarrow>
                          do {
                            e' \<leftarrow> dst;
                            d' \<leftarrow> env_pgdir (envs s1 e');
                            (i, s2) \<leftarrow> page_insert s1 d' p dstva perm;
                            Some (Back (case i of Inl err \<Rightarrow> neg_err err | Inr _ \<Rightarrow> 0) s2)
                          }
                    }
              }
        })"

definition sys_mem_unmap :: "kstate \<Rightarrow> u32 \<Rightarrow> u32 \<Rightarrow> sysret option" where
  "sys_mem_unmap s envid va =
     (if va \<ge> UTOP then Some (Back (neg_err E_INVAL) s)
      else
        do {
          r \<leftarrow> envid2env s envid False;
          case r of
            Inl err \<Rightarrow> Some (Back (neg_err err) s)
          | Inr None \<Rightarrow> None
          | Inr (Some e) \<Rightarrow>
              do {
                d \<leftarrow> env_pgdir (envs s e);
                s1 \<leftarrow> page_remove s d va;
                Some (Back 0 s1)
              }
        })"

text \<open>The register set of the child: the parent's, with \<open>eax\<close> 0.\<close>

definition child_tf :: "trapframe \<Rightarrow> trapframe \<Rightarrow> trapframe" where
  "child_tf p tf =
     tf\<lparr>tf_eax := 0, tf_ebx := tf_ebx p, tf_ecx := tf_ecx p, tf_edx := tf_edx p,
        tf_edi := tf_edi p, tf_esi := tf_esi p, tf_ebp := tf_ebp p, tf_es := tf_es p,
        tf_ds := tf_ds p, tf_eip := tf_eip p, tf_cs := tf_cs p, tf_eflags := tf_eflags p,
        tf_esp := tf_esp p\<rparr>"

definition sys_env_alloc :: "kstate \<Rightarrow> sysret option" where
  "sys_env_alloc s =
     do {
       c \<leftarrow> curenv s;
       (r, s1) \<leftarrow> env_alloc s (env_id (envs s c));
       case r of
         Inl err \<Rightarrow> Some (Back (neg_err err) s1)
       | Inr e \<Rightarrow>
           do {
             let s2 = upd_env s1 e (\<lambda>v. v\<lparr>env_status := ENV_NOT_RUNNABLE,
                 env_tf := child_tf (env_tf (envs s1 c)) (env_tf v)\<rparr>);
             Some (Back (env_id (envs s2 e)) s2)
           }
     }"

definition sys_set_env_status :: "kstate \<Rightarrow> u32 \<Rightarrow> u32 \<Rightarrow> sysret option" where
  "sys_set_env_status s envid status =
     do {
       r \<leftarrow> envid2env s envid False;
       case r of
         Inl err \<Rightarrow> Some (Back (neg_err err) s)
       | Inr e' \<Rightarrow>
           if status \<noteq> ENV_FREE \<and> status \<noteq> ENV_RUNNABLE \<and> status \<noteq> ENV_NOT_RUNNABLE
           then Some (Back (neg_err E_INVAL) s)
           else do { e \<leftarrow> e'; Some (Back 0 (upd_env s e (env_status_update (\<lambda>_. status)))) }
     }"

definition fix_tf :: "trapframe \<Rightarrow> trapframe" where
  "fix_tf tf = tf\<lparr>tf_eflags := tf_eflags tf OR FL_IF, tf_cs := tf_cs tf OR 3\<rparr>"

definition sys_set_trapframe :: "kstate \<Rightarrow> u32 \<Rightarrow> u32 \<Rightarrow> u32 \<Rightarrow> sysret option" where
  "sys_set_trapframe s envid tf kip =
     do {
       let s1 = s\<lparr>page_fault_mode := PFM_KILL\<rparr>;
       case load_bytes s1 (TRUP tf) 68 of
         Inl va \<Rightarrow> kernel_fault s1 va kip
       | Inr bs \<Rightarrow>
           do {
             let s2 = s1\<lparr>page_fault_mode := PFM_NONE\<rparr>;
             let ltf = fix_tf (trapframe_of_words (words_of_bytes bs));
             r \<leftarrow> envid2env s2 envid True;
             case r of
               Inl err \<Rightarrow> Some (Back (neg_err err) s2)
             | Inr e' \<Rightarrow>
                 if e' = curenv s2 then Some (Back 0 (s2\<lparr>utf := ltf\<rparr>))
                 else do { e \<leftarrow> e'; Some (Back 0 (upd_env s2 e (env_tf_update (\<lambda>_. ltf)))) }
           }
     }"

definition sys_cgetc :: "kstate \<Rightarrow> sysret option" where
  "sys_cgetc s = (let (c, b) = cons_getc (cons s) in Some (Back c (s\<lparr>cons := b\<rparr>)))"

text \<open>The panic itself prints before it reads the message; a fault in the message then
  kills the environment, because \<open>syscall\<close> has set \<open>page_fault_mode\<close>.\<close>

definition sys_panic :: "kstate \<Rightarrow> u32 \<Rightarrow> u32 \<Rightarrow> sysret option" where
  "sys_panic s msg kip =
     do {
       (bs, f) \<leftarrow> shown_string s (TRUP msg);
       case f of
         None \<Rightarrow> None
       | Some va \<Rightarrow> kernel_fault (print_chars bs s) va kip
     }"

section \<open>The dispatcher\<close>

text \<open>The calls whose result the dispatcher replaces by 0.\<close>

fun ret0 :: "sysret \<Rightarrow> sysret" where
  "ret0 (Back _ s) = Back 0 s"
| "ret0 (Away s) = Away s"

definition syscall :: "kstate \<Rightarrow> u32 \<Rightarrow> u32 \<Rightarrow> u32 \<Rightarrow> u32 \<Rightarrow> u32 \<Rightarrow> u32 \<Rightarrow> u32 \<Rightarrow> sysret option" where
  "syscall s sn a1 a2 a3 a4 a5 kip =
     (let s0 = s\<lparr>page_fault_mode := PFM_KILL\<rparr> in
      if sn = 0 then sys_getenvid s0
      else if sn = 1 then sys_cputs s0 a1 kip
      else if sn = 2 then sys_yield s0
      else if sn = 3 then map_option ret0 (sys_env_destroy s0 a1)
      else if sn = 4 then sys_env_alloc s0
      else if sn = 5 then sys_ipc_can_send s0 a1 a2 a3 a4
      else if sn = 6 then sys_ipc_recv s0 a1
      else if sn = 7 then sys_set_pgfault_handler s0 a1 a2 a3
      else if sn = 8 then sys_set_env_status s0 a1 a2
      else if sn = 9 then sys_mem_alloc s0 a1 a2 a3
      else if sn = 10 then sys_mem_map s0 a1 a2 a3 a4 a5
      else if sn = 11 then sys_mem_unmap s0 a1 a2
      else if sn = 12 then sys_set_trapframe s0 a1 a2 kip
      else if sn = 13 then sys_panic s0 a1 kip
      else if sn = 14 then sys_cgetc s0
      else if sn = 15 then sys_set_color s0 a1
      else Some (Back (neg_err E_INVAL) s0))"

end
