(* ===== verification/Trap.thy ===== *)
theory Trap
  imports Syscall
begin

text \<open>
  Traps: \<open>kern/trap.c\<close>, and the interrupt side of \<open>kern/console.c\<close>, which can destroy the
  current environment. \<open>trap\<close> is entered from user mode with the frame at \<open>UTF\<close>; the
  address that \<open>rcr2\<close> reads and the bytes that the devices hold are arguments.
\<close>

unbundle bit_operations_syntax

section \<open>The interrupt descriptor table\<close>

record gatedesc =
  gd_off_15_0 :: u16
  gd_ss :: u16
  gd_type :: nat
  gd_dpl :: nat
  gd_p :: bool
  gd_off_31_16 :: u16

definition STS_IG32 :: nat where "STS_IG32 = 0xe"
definition STS_TG32 :: nat where "STS_TG32 = 0xf"

definition SETGATE :: "bool \<Rightarrow> u16 \<Rightarrow> u32 \<Rightarrow> nat \<Rightarrow> gatedesc" where
  "SETGATE istrap ss off dpl =
     \<lparr>gd_off_15_0 = ucast (off AND 0xffff), gd_ss = ss,
      gd_type = (if istrap then STS_TG32 else STS_IG32), gd_dpl = dpl, gd_p = True,
      gd_off_31_16 = ucast (drop_bit 16 off)\<rparr>"

definition gate_offset :: "gatedesc \<Rightarrow> u32" where
  "gate_offset g = push_bit 16 (ucast (gd_off_31_16 g)) OR ucast (gd_off_15_0 g)"

definition IRQ_OFFSET :: nat where "IRQ_OFFSET = 0x20"

definition T_DIVIDE :: nat where "T_DIVIDE = 0"
definition T_DEBUG :: nat where "T_DEBUG = 1"
definition T_NMI :: nat where "T_NMI = 2"
definition T_BRKPT :: nat where "T_BRKPT = 3"
definition T_OFLOW :: nat where "T_OFLOW = 4"
definition T_BOUND :: nat where "T_BOUND = 5"
definition T_ILLOP :: nat where "T_ILLOP = 6"
definition T_DEVICE :: nat where "T_DEVICE = 7"
definition T_DBLFLT :: nat where "T_DBLFLT = 8"
definition T_TSS :: nat where "T_TSS = 10"
definition T_SEGNP :: nat where "T_SEGNP = 11"
definition T_STACK :: nat where "T_STACK = 12"
definition T_GPFLT :: nat where "T_GPFLT = 13"
definition T_PGFLT :: nat where "T_PGFLT = 14"
definition T_FPERR :: nat where "T_FPERR = 16"
definition T_ALIGN :: nat where "T_ALIGN = 17"
definition T_MCHK :: nat where "T_MCHK = 18"
definition T_SYSCALL :: nat where "T_SYSCALL = 0x30"

text \<open>The entry points of \<open>locore.S\<close>, without the leading underscore.\<close>

datatype handler =
    H_divide | H_debug | H_nmi | H_brkpt | H_oflow | H_bound | H_illop | H_device | H_dblflt
  | H_tss | H_segnp | H_stack | H_gpflt | H_pgflt | H_fperr | H_align | H_mchk
  | H_systemcall | H_clockrpt | H_keybdrpt

text \<open>\<open>addr\<close> gives the addresses that the linker chose for the entry points; an entry of the table
  that is all zeros is None.\<close>

definition idt_init :: "(handler \<Rightarrow> u32) \<Rightarrow> (nat \<Rightarrow> gatedesc option) \<Rightarrow> (nat \<Rightarrow> gatedesc option)" where
  "idt_init addr idt =
     idt(T_DIVIDE := Some (SETGATE False 0x8 (addr H_divide) 0),
         T_DEBUG := Some (SETGATE False 0x8 (addr H_debug) 0),
         T_NMI := Some (SETGATE False 0x8 (addr H_nmi) 0),
         T_BRKPT := Some (SETGATE False 0x8 (addr H_brkpt) 3),
         T_OFLOW := Some (SETGATE False 0x8 (addr H_oflow) 0),
         T_BOUND := Some (SETGATE False 0x8 (addr H_bound) 0),
         T_ILLOP := Some (SETGATE False 0x8 (addr H_illop) 0),
         T_DEVICE := Some (SETGATE False 0x8 (addr H_device) 0),
         T_DBLFLT := Some (SETGATE False 0x8 (addr H_dblflt) 0),
         T_TSS := Some (SETGATE False 0x8 (addr H_tss) 0),
         T_SEGNP := Some (SETGATE False 0x8 (addr H_segnp) 0),
         T_STACK := Some (SETGATE False 0x8 (addr H_stack) 0),
         T_GPFLT := Some (SETGATE False 0x8 (addr H_gpflt) 0),
         T_PGFLT := Some (SETGATE False 0x8 (addr H_pgflt) 0),
         T_FPERR := Some (SETGATE False 0x8 (addr H_fperr) 0),
         T_ALIGN := Some (SETGATE False 0x8 (addr H_align) 0),
         T_MCHK := Some (SETGATE False 0x8 (addr H_mchk) 0),
         T_SYSCALL := Some (SETGATE False 0x8 (addr H_systemcall) 3),
         IRQ_OFFSET := Some (SETGATE False 0x8 (addr H_clockrpt) 0),
         IRQ_OFFSET + 1 := Some (SETGATE False 0x8 (addr H_keybdrpt) 3))"

section \<open>Console interrupts\<close>

text \<open>The characters are those that \<open>proc\<close> returns before -1.\<close>

fun cons_intr :: "kstate \<Rightarrow> int list \<Rightarrow> outcome option" where
  "cons_intr s [] = Some (Ret s)"
| "cons_intr s (c # cs) =
     (if c = 0 then cons_intr s cs
      else
        do {
          r \<leftarrow> (if c = 3 then Option.bind (curenv s) (env_destroy s) else Some (Ret s));
          case r of
            Sched s1 \<Rightarrow> Some (Sched s1)
          | Ret s1 \<Rightarrow>
              let s2 = (if c < 0x80 then kprintf_msg ''%c'' [word_of_int c] s1 else s1)
              in cons_intr (s2\<lparr>cons := cons_put (cons s2) (word_of_int c)\<rparr>) cs
        })"

definition serial_intr :: "kstate \<Rightarrow> u8 list \<Rightarrow> outcome option" where
  "serial_intr s bs = cons_intr s (map uint bs)"

definition kbd_intr :: "kstate \<Rightarrow> u8 list \<Rightarrow> outcome option" where
  "kbd_intr s ds =
     (let (cs, sh) = kbd_chars (kbd_shift s) ds in cons_intr (s\<lparr>kbd_shift := sh\<rparr>) cs)"

section \<open>The trap handlers\<close>

definition UTF_ADDR :: u32 where "UTF_ADDR = KSTACKTOP - 68"

definition tabbed :: "string \<Rightarrow> string" where "tabbed f = CHR 0x09 # f"

definition print_trapframe :: "u32 \<Rightarrow> trapframe \<Rightarrow> kstate \<Rightarrow> kstate" where
  "print_trapframe a t s =
     fold (\<lambda>(f, v). kprintf_msg f [v])
       [(''TRAP frame at %p\<newline>'', a),
        (tabbed ''edi  0x%x\<newline>'', tf_edi t), (tabbed ''esi  0x%x\<newline>'', tf_esi t), (tabbed ''ebp  0x%x\<newline>'', tf_ebp t),
        (tabbed ''oesp 0x%x\<newline>'', tf_oesp t), (tabbed ''ebx  0x%x\<newline>'', tf_ebx t), (tabbed ''edx  0x%x\<newline>'', tf_edx t),
        (tabbed ''ecx  0x%x\<newline>'', tf_ecx t), (tabbed ''eax  0x%x\<newline>'', tf_eax t), (tabbed ''es   0x%x\<newline>'', ucast (tf_es t)),
        (tabbed ''ds   0x%x\<newline>'', ucast (tf_ds t)), (tabbed ''trap 0x%x\<newline>'', tf_trapno t),
        (tabbed ''err  0x%x\<newline>'', tf_err t), (tabbed ''eip  0x%x\<newline>'', tf_eip t), (tabbed ''cs   0x%x\<newline>'', ucast (tf_cs t)),
        (tabbed ''flag 0x%x\<newline>'', tf_eflags t), (tabbed ''esp  0x%x\<newline>'', tf_esp t), (tabbed ''ss   0x%x\<newline>'', ucast (tf_ss t))] s"

fun outcome_of :: "sysret \<Rightarrow> outcome" where
  "outcome_of (Back _ s) = Ret s"
| "outcome_of (Away s) = Sched s"

text \<open>The exception frame on the user's exception stack: \<open>tos[0]\<close> to \<open>tos[-9]\<close>.\<close>

definition exception_frame :: "u32 \<Rightarrow> trapframe \<Rightarrow> u32 \<Rightarrow> (u32 \<times> u32) list" where
  "exception_frame tos tf va =
     [(tos, 0), (tos - 4, 0), (tos - 8, 0), (tos - 12, 0), (tos - 16, 0),
      (tos - 20, tf_eip tf), (tos - 24, tf_eflags tf), (tos - 28, tf_esp tf),
      (tos - 32, tf_err tf), (tos - 36, va)]"

definition exception_tos :: "env \<Rightarrow> trapframe \<Rightarrow> u32" where
  "exception_tos v tf =
     (if tf_esp tf \<ge> env_xstacktop v - BY2PG \<and> tf_esp tf < env_xstacktop v
      then tf_esp tf - 4 else TRUP (env_xstacktop v - 4))"

definition page_fault_handler :: "kstate \<Rightarrow> trapframe \<Rightarrow> u32 \<Rightarrow> u32 \<Rightarrow> outcome option" where
  "page_fault_handler s tf va kip =
     (if tf_cs tf AND 1 = 0 then map_option outcome_of (kernel_fault s va (tf_eip tf))
      else
        do {
          c \<leftarrow> curenv s;
          if env_pgfault_handler (envs s c) = 0 then
            env_destroy
              (kprintf_msg ''[%08x] user fault va %08x errcode %08x ip %08x\<newline>''
                 [env_id (envs s c), va, tf_err tf, tf_eip tf] s) c
          else
            let tos = exception_tos (envs s c) tf in
            case store_words s (exception_frame tos tf va) of
              Inl (a, s1) \<Rightarrow> map_option outcome_of (kernel_fault s1 a kip)
            | Inr s1 \<Rightarrow>
                Some (Sched (env_run
                  (s1\<lparr>utf := tf\<lparr>tf_eip := env_pgfault_handler (envs s1 c), tf_esp := tos - 36\<rparr>\<rparr>) c))
        })"

definition trap :: "kstate \<Rightarrow> u32 \<Rightarrow> u8 list \<Rightarrow> u32 \<Rightarrow> outcome option" where
  "trap s va input kip =
     (let tf = utf s; n = unat (tf_trapno tf) in
      if n = T_PGFLT then page_fault_handler s tf va kip
      else if n = T_SYSCALL then
        (let s1 = (case curenv s of None \<Rightarrow> s | Some c \<Rightarrow> upd_env s c (env_tf_update (\<lambda>_. tf)))
         in do {
              r \<leftarrow> syscall s1 (tf_eax tf) (tf_edx tf) (tf_ecx tf) (tf_ebx tf) (tf_edi tf) (tf_esi tf) kip;
              case r of
                Back v s2 \<Rightarrow> Some (Ret (s2\<lparr>utf := (utf s2)\<lparr>tf_eax := v\<rparr>\<rparr>))
              | Away s2 \<Rightarrow> Some (Sched s2)
            })
      else if n = IRQ_OFFSET then Some (Sched (sched_yield s))
      else if n = IRQ_OFFSET + 4 then serial_intr s input
      else if n = IRQ_OFFSET + 1 then kbd_intr s input
      else if IRQ_OFFSET + 1 < n \<and> n < IRQ_OFFSET + 16 then
        Some (Ret (print_trapframe UTF_ADDR tf
          (kprintf_msg ''spurious interrupt on irq %d\<newline>'' [tf_trapno tf - of_nat IRQ_OFFSET] s)))
      else None)"

lemma gate_offset_SETGATE: "gate_offset (SETGATE istrap ss off dpl) = off"
proof -
  have m: "(0xffff :: u32) = mask 16" by (simp add: mask_eq_exp_minus_1)
  show ?thesis
    by (rule bit_word_eqI) (auto simp: gate_offset_def SETGATE_def m bit_simps)
qed

end
