(* ===== verification/Kernel_Inv.thy ===== *)
theory Kernel_Inv
  imports Trap
begin

text \<open>
  Every system call and trap keeps the kernel invariant, under the conditions the code
  does not check itself, and the kernel as a transition system with its reachable states.
\<close>

unbundle bit_operations_syntax

section \<open>Looking up a page\<close>

lemma page_lookup_mapped:
  assumes inv: "vm_inv s D fl X" and d: "d \<in> D" and va: "va < UTOP"
    and w: "vm_lookup (phys s) d va = Some w"
  shows "page_lookup s d va = Some (Some (frame_of w, (pt_at (phys s) (d, pdx va), ptx va)), s)"
proof -
  have pr: "present (phys s d (pdx va))" and tw: "phys s (pt_at (phys s) (d, pdx va)) (ptx va) = w"
    using vm_lookup_pde [OF w] by (simp_all add: pt_at_def)
  show ?thesis
    using vm_inv_leaf(4) [OF inv w d va]
    by (simp add: page_lookup_def pgdir_walk_found [OF inv d va pr] tw pa2page_frame)
qed

lemma page_lookup_no_table:
  "\<not> present (phys s d (pdx va)) \<Longrightarrow> page_lookup s d va = Some (None, s)"
  by (simp add: page_lookup_def pgdir_walk_absent)

text \<open>The lookup does not check the entry: an address without a mapping, in a directory
  slot with a page table, gives page 0.\<close>

lemma page_lookup_unmapped:
  assumes inv: "vm_inv s D fl X" and d: "d \<in> D" and va: "va < UTOP"
    and pr: "present (phys s d (pdx va))" and z: "phys s (pt_at (phys s) (d, pdx va)) (ptx va) = 0"
  shows "page_lookup s d va = Some (Some (0, (pt_at (phys s) (d, pdx va), ptx va)), s)"
proof -
  have "0 < npage s" using vm_inv_pt(2) [OF inv d va pr] by simp
  then show ?thesis
    by (simp add: page_lookup_def pgdir_walk_found [OF inv d va pr] z pa2page_frame)
qed

section \<open>Running states\<close>

definition running :: "kstate \<Rightarrow> bool" where
  "running s \<longleftrightarrow> (\<exists>c. curenv s = Some c \<and> live s c \<and> cr3 s = env_cr3 (envs s c))"

definition kinv_ret :: "sysret \<Rightarrow> bool" where
  "kinv_ret r \<longleftrightarrow> kinv (ret_state r) \<and> (case r of Back _ s \<Rightarrow> running s | Away _ \<Rightarrow> True)"

lemma kinv_ret_simps [simp]:
  "kinv_ret (Back v s) \<longleftrightarrow> kinv s \<and> running s" "kinv_ret (Away s) \<longleftrightarrow> kinv s"
  by (simp_all add: kinv_ret_def)

lemma kinvI [intro]: "kinv_at s fl efl \<Longrightarrow> kinv s"
  by (auto simp: kinv_def)

lemma running_cong:
  assumes "running s" "curenv s' = curenv s" "cr3 s' = cr3 s"
    "\<And>c. env_pgdir (envs s' c) = env_pgdir (envs s c)" "\<And>c. env_cr3 (envs s' c) = env_cr3 (envs s c)"
  shows "running s'"
  using assms by (simp add: running_def live_def)

lemma running_mem_only: "running s \<Longrightarrow> mem_only s s' \<Longrightarrow> running s'"
  by (rule running_cong) (simp_all add: mem_only_fields)

lemma running_upd_env:
  assumes "running s" "env_pgdir (f (envs s e)) = env_pgdir (envs s e)" "env_cr3 (f (envs s e)) = env_cr3 (envs s e)"
  shows "running (upd_env s e f)"
  by (rule running_cong [OF assms(1)]) (simp_all add: envs_upd_env assms upd_env_def)

lemma running_fields [simp]:
  "running (kprintf_msg m a s) = running s" "running (s\<lparr>page_fault_mode := x\<rparr>) = running s"
  "running (s\<lparr>utf := t\<rparr>) = running s" "running (s\<lparr>cons := b\<rparr>) = running s"
  "running (s\<lparr>kbd_shift := k\<rparr>) = running s" "running (s\<lparr>color := w\<rparr>) = running s"
  "running (print_chars bs s) = running s"
  by (simp_all add: running_def live_def kprintf_msg_def print_chars_def)

lemma kinv_at_more [simp]:
  "kinv_at (s\<lparr>kbd_shift := k\<rparr>) fl efl = kinv_at s fl efl"
  "kinv_at (s\<lparr>color := w\<rparr>) fl efl = kinv_at s fl efl"
  "kinv_at (print_chars bs s) fl efl = kinv_at s fl efl"
  by (simp_all add: kinv_at_def vm_inv_def free_ok_def envs_ok_def dirs_def pgdirs_def print_chars_def)

lemma kinv_fields [simp]:
  "kinv (kprintf_msg m a s) = kinv s" "kinv (s\<lparr>page_fault_mode := x\<rparr>) = kinv s"
  "kinv (s\<lparr>utf := t\<rparr>) = kinv s" "kinv (s\<lparr>cons := b\<rparr>) = kinv s"
  "kinv (s\<lparr>kbd_shift := k\<rparr>) = kinv s" "kinv (s\<lparr>color := w\<rparr>) = kinv s"
  "kinv (print_chars bs s) = kinv s"
  by (simp_all add: kinv_def)

lemma running_curenv: "running s \<Longrightarrow> \<exists>c. curenv s = Some c \<and> live s c"
  by (auto simp: running_def)

text \<open>Under a running environment every lookup of an id succeeds or reports an error.\<close>

lemma envid2env_running:
  assumes "running s" "kinv_at s fl efl"
  shows "(\<exists>err. envid2env s envid cp = Some (Inl err))
    \<or> (\<exists>e. envid2env s envid cp = Some (Inr (Some e)) \<and> live s e)"
proof -
  obtain c where c: "curenv s = Some c" "live s c" using running_curenv [OF assms(1)] by blast
  have "\<exists>r. envid2env s envid cp = Some r \<and> r \<noteq> Inr None"
    using c by (auto simp: envid2env_def Let_def)
  then obtain r where r: "envid2env s envid cp = Some r" "r \<noteq> Inr None" by blast
  show ?thesis
  proof (cases r)
    case (Inl err)
    then show ?thesis using r by simp
  next
    case (Inr o')
    then obtain e where e: "envid2env s envid cp = Some (Inr (Some e))" using r by (cases o') auto
    then have "live s e" using envid2env_ok [OF assms(2) e] c by (cases "envid = 0") auto
    with e show ?thesis by simp
  qed
qed

section \<open>Destroying an environment\<close>

lemma env_destroy_running:
  assumes k: "kinv_at s fl efl" and r: "running s" and e: "live s e"
  shows "(\<exists>s'. env_destroy s e = Some (Ret s') \<and> kinv s' \<and> running s' \<and> curenv s \<noteq> Some e)
    \<or> (\<exists>s'. env_destroy s e = Some (Sched s') \<and> kinv s' \<and> curenv s = Some e)"
proof -
  obtain s1 fl1 where f: "env_free s e = Some s1" "kinv_at s1 fl1 (e # efl)" "env_freed s e s1"
    using env_free_ok [OF k e] by blast
  have cu: "curenv s1 = curenv s" using f(3) by (simp add: env_freed_def)
  have cr: "cr3 s1 = cr3 s" using f(3) by (simp add: env_freed_def)
  show ?thesis
  proof (cases "curenv s = Some e")
    case True
    have "kinv_at (s1\<lparr>curenv := None\<rparr>) fl1 (e # efl)" using f(2) by (intro kinv_at_curenv) auto
    from sched_yield_inv [OF this] show ?thesis using f(1) True cu by (auto simp: env_destroy_def)
  next
    case False
    obtain c where c: "curenv s = Some c" "live s c" "cr3 s = env_cr3 (envs s c)"
      using r by (auto simp: running_def)
    then have "envs s1 c = envs s c" using f(3) False by (auto simp: env_freed_def)
    then have "running s1" using c cu cr by (auto simp: running_def live_def)
    then show ?thesis using f(1,2) False cu by (auto simp: env_destroy_def)
  qed
qed


section \<open>The calls\<close>

lemma kernel_fault_inv:
  assumes "kinv s" "running s" "page_fault_mode s \<noteq> PFM_NONE"
  shows "\<exists>r. kernel_fault s va ip = Some r \<and> kinv_ret r"
proof -
  obtain fl efl where k: "kinv_at s fl efl" using assms(1) by (auto simp: kinv_def)
  obtain c where c: "curenv s = Some c" "live s c" using running_curenv [OF assms(2)] by blast
  let ?s = "kprintf_msg ''[%08x] PFM_KILL va %08x ip %08x\<newline>'' [env_id (envs s c), va, ip]
      (kprintf_msg ''page fault at kernel\<newline>'' [] s)"
  have l: "live ?s c" using c by (simp add: live_def)
  have k': "kinv_at ?s fl efl" and r': "running ?s" using k assms(2) by simp_all
  from env_destroy_running [OF k' r' l]
  obtain s' where "env_destroy ?s c = Some (Sched s')" "kinv s'"
    using c by auto
  then show ?thesis using assms(3) c by (simp add: kernel_fault_def Let_def)
qed

text \<open>A call that finds an environment and changes fields the invariant does not read.\<close>

lemma upd_env_ret:
  assumes "kinv_at s fl efl" "running s" "live s e"
    "env_pgdir (f (envs s e)) = env_pgdir (envs s e)" "env_cr3 (f (envs s e)) = env_cr3 (envs s e)"
    "env_entry_ok e (envs s e) \<Longrightarrow> env_entry_ok e (f (envs s e))"
  shows "kinv (upd_env s e f)" "running (upd_env s e f)"
proof -
  have "env_entry_ok e (envs s e)" using assms(1,3) by (simp add: kinv_at_def envs_ok_def live_def)
  then show "kinv (upd_env s e f)" using kinv_at_upd_env [OF assms(1), of f e] assms by auto
  show "running (upd_env s e f)" by (rule running_upd_env [of s f e, OF assms(2,4,5)])
qed

lemma entry_status: "env_pgdir v \<noteq> None \<Longrightarrow> env_entry_ok e (env_status_update f v) = env_entry_ok e v"
  by (auto simp: env_entry_ok_def)

lemma sys_env_destroy_inv:
  assumes k: "kinv s" and r: "running s"
  shows "\<exists>x. sys_env_destroy s envid = Some x \<and> kinv_ret x"
proof -
  obtain fl efl where k: "kinv_at s fl efl" using k by (auto simp: kinv_def)
  from envid2env_running [OF r k, of envid True] show ?thesis
  proof (elim disjE exE conjE)
    fix err assume "envid2env s envid True = Some (Inl err)"
    then show ?thesis using k r by (auto simp: sys_env_destroy_def)
  next
    fix e assume e: "envid2env s envid True = Some (Inr (Some e))" "live s e"
    from env_destroy_running [OF k r e(2)] e show ?thesis
      by (auto simp: sys_env_destroy_def)
  qed
qed

lemma sys_set_pgfault_handler_inv:
  assumes k: "kinv s" and r: "running s"
  shows "\<exists>x. sys_set_pgfault_handler s envid func xst = Some x \<and> kinv_ret x"
proof -
  obtain fl efl where k: "kinv_at s fl efl" using k by (auto simp: kinv_def)
  from envid2env_running [OF r k, of envid True] show ?thesis
  proof (elim disjE exE conjE)
    fix err assume "envid2env s envid True = Some (Inl err)"
    then show ?thesis using k r by (auto simp: sys_set_pgfault_handler_def)
  next
    fix e assume e: "envid2env s envid True = Some (Inr (Some e))" "live s e"
    then show ?thesis
      using upd_env_ret [OF k r e(2), of "\<lambda>v. v\<lparr>env_pgfault_handler := func, env_xstacktop := xst\<rparr>"]
      by (simp add: sys_set_pgfault_handler_def)
  qed
qed

lemma sys_set_env_status_inv:
  assumes k: "kinv s" and r: "running s"
  shows "\<exists>x. sys_set_env_status s envid st = Some x \<and> kinv_ret x"
proof -
  obtain fl efl where k: "kinv_at s fl efl" using k by (auto simp: kinv_def)
  from envid2env_running [OF r k, of envid False] show ?thesis
  proof (elim disjE exE conjE)
    fix err assume "envid2env s envid False = Some (Inl err)"
    then show ?thesis using k r by (auto simp: sys_set_env_status_def)
  next
    fix e assume e: "envid2env s envid False = Some (Inr (Some e))" "live s e"
    then have "env_pgdir (envs s e) \<noteq> None" by (simp add: live_def)
    then show ?thesis
      using upd_env_ret [OF k r e(2), of "env_status_update (\<lambda>_. st)"] e k r
      by (auto simp: sys_set_env_status_def entry_status)
  qed
qed

lemma sys_ipc_recv_inv:
  assumes k: "kinv s" and r: "running s"
  shows "sys_ipc_recv s dstva = None
      \<and> (dstva \<ge> UTOP \<or> (\<exists>c. curenv s = Some c \<and> env_ipc_recving (envs s c) \<noteq> 0))
    \<or> (\<exists>x. sys_ipc_recv s dstva = Some x \<and> kinv_ret x)"
proof -
  obtain fl efl where k: "kinv_at s fl efl" using k by (auto simp: kinv_def)
  obtain c where c: "curenv s = Some c" "live s c" using running_curenv [OF r] by blast
  let ?f = "\<lambda>v. v\<lparr>env_ipc_recving := 1, env_ipc_dstva := dstva, env_status := ENV_NOT_RUNNABLE\<rparr>"
  have "kinv_at (sched_yield (upd_env s c ?f)) fl efl" if "dstva < UTOP"
  proof (rule sched_yield_inv, rule kinv_at_upd_env [OF k])
    show "env_pgdir (?f (envs s c)) = env_pgdir (envs s c)" by simp
    show "env_entry_ok c (?f (envs s c))" if "c < NENV"
      using k c \<open>dstva < UTOP\<close> by (auto simp: kinv_at_def envs_ok_def env_entry_ok_def live_def)
  qed
  then show ?thesis using c by (auto simp: sys_ipc_recv_def not_le)
qed

lemma sys_mem_unmap_inv:
  assumes k: "kinv s" and r: "running s"
  shows "\<exists>x. sys_mem_unmap s envid va = Some x \<and> kinv_ret x"
proof (cases "va < UTOP")
  case False
  then show ?thesis using k r by (auto simp: sys_mem_unmap_def not_less)
next
  case True
  obtain fl efl where k: "kinv_at s fl efl" using k by (auto simp: kinv_def)
  from envid2env_running [OF r k, of envid False] show ?thesis
  proof (elim disjE exE conjE)
    fix err assume "envid2env s envid False = Some (Inl err)"
    then show ?thesis using k r True by (auto simp: sys_mem_unmap_def not_le)
  next
    fix e assume e: "envid2env s envid False = Some (Inr (Some e))" "live s e"
    obtain d where d: "env_pgdir (envs s e) = Some d" using liveD [OF e(2)] by blast
    have en: "e < NENV" using e(2) by (simp add: live_def)
    obtain s' fl' where "page_remove s d va = Some s'" "kinv_at s' fl' efl" "mem_only s s'"
      using kinv_remove [OF k en d True] by blast
    then show ?thesis using e d True running_mem_only [OF r] by (auto simp: sys_mem_unmap_def not_le)
  qed
qed

lemma sys_env_alloc_inv:
  assumes k: "kinv s" and r: "running s"
  shows "\<exists>x. sys_env_alloc s = Some x \<and> kinv_ret x"
proof -
  obtain fl efl where k: "kinv_at s fl efl" using k by (auto simp: kinv_def)
  obtain c where c: "curenv s = Some c" "live s c" "cr3 s = env_cr3 (envs s c)"
    using r by (auto simp: running_def)
  obtain res s1 fl1 efl1 where a: "env_alloc s (env_id (envs s c)) = Some (res, s1)"
      "kinv_at s1 fl1 efl1"
      "case res of Inl _ \<Rightarrow> s1 = s | Inr e \<Rightarrow> env_created s e (env_id (envs s c)) s1"
    using env_alloc_inv [OF k] by blast
  show ?thesis
  proof (cases res)
    case (Inl err)
    then show ?thesis using a r k c by (auto simp: sys_env_alloc_def)
  next
    case (Inr e)
    then have cr: "env_created s e (env_id (envs s c)) s1" using a(3) by simp
    then have l: "live s1 e" and ne: "e \<noteq> c" using c by (auto simp: env_created_def)
    have r1: "running s1" using cr c ne by (auto simp: env_created_def running_def live_def)
    show ?thesis using a(1) Inr c l
        upd_env_ret [OF a(2) r1 l, of "\<lambda>v. v\<lparr>env_status := ENV_NOT_RUNNABLE,
            env_tf := child_tf (env_tf (envs s1 c)) (env_tf v)\<rparr>"]
      by (auto simp: sys_env_alloc_def Let_def live_def env_entry_ok_def)
  qed
qed


text \<open>
  What \<open>sys_mem_map\<close> and \<open>sys_ipc_can_send\<close> need of their source address and do not check: if it
  has a page table, it is mapped, and the reference count of the page does not overflow.
\<close>

definition source_ok :: "kstate \<Rightarrow> nat \<Rightarrow> u32 \<Rightarrow> bool" where
  "source_ok s e va \<longleftrightarrow>
     (case env_pgdir (envs s e) of
        None \<Rightarrow> True
      | Some d \<Rightarrow> present (phys s d (pdx va)) \<longrightarrow>
          (case vm_lookup (phys s) d va of
             None \<Rightarrow> False
           | Some w \<Rightarrow> unat (pp_ref s (frame_of w)) < 65535))"

lemma page_lookup_source:
  assumes k: "kinv_at s fl efl" and e: "live s e" and d: "env_pgdir (envs s e) = Some d"
    and va: "va < UTOP" and ok: "source_ok s e va"
  shows "page_lookup s d va = Some (None, s)
    \<or> (\<exists>w x. page_lookup s d va = Some (Some (frame_of w, x), s) \<and> vm_lookup (phys s) d va = Some w
        \<and> data_page s (dirs s) fl (frame_of w) \<and> unat (pp_ref s (frame_of w)) < 65535)"
proof (cases "present (phys s d (pdx va))")
  case False
  then show ?thesis by (simp add: page_lookup_no_table)
next
  case True
  have dD: "d \<in> dirs s" using e d dirs_pgdir by (auto simp: live_def)
  obtain w where w: "vm_lookup (phys s) d va = Some w" "unat (pp_ref s (frame_of w)) < 65535"
    using ok d True by (auto simp: source_ok_def split: option.splits)
  show ?thesis
    using page_lookup_mapped [OF kinv_at_vm [OF k] dD va w(1)] w
      data_page_leaf [OF kinv_at_vm [OF k] w(1) dD va] by blast
qed

lemma low_bits_perm_ok: "perm_ok perm \<Longrightarrow> low_bits perm"
proof -
  assume "perm_ok perm"
  then have z: "perm AND NOT 0xE07 = 0" by (simp add: perm_ok_def PTE_U_def PTE_P_def PTE_AVAIL_def PTE_W_def)
  have "perm AND NOT 0xFFF = (perm AND NOT 0xE07) AND NOT 0xFFF"
  proof -
    have "(NOT 0xE07 AND NOT 0xFFF :: u32) = NOT 0xFFF" by simp
    then show ?thesis by (simp only: and.assoc)
  qed
  then show ?thesis unfolding low_bits_def z by (simp only: and_zero_eq zero_and_eq)
qed

lemma sys_mem_map_inv:
  assumes k: "kinv s" and r: "running s" and lb: "low_bits perm"
    and ok: "\<And>e. envid2env s srcid False = Some (Inr (Some e)) \<Longrightarrow> srcva < UTOP \<Longrightarrow> source_ok s e srcva"
  shows "\<exists>x. sys_mem_map s srcid srcva dstid dstva perm = Some x \<and> kinv_ret x"
proof (cases "srcva < UTOP \<and> dstva < UTOP")
  case False
  then show ?thesis using k r by (auto simp: sys_mem_map_def not_less)
next
  case va: True
  then have nva: "\<not> (UTOP \<le> srcva \<or> UTOP \<le> dstva)" by auto
  obtain fl efl where k': "kinv_at s fl efl" using k by (auto simp: kinv_def)
  from envid2env_running [OF r k', of srcid False] show ?thesis
  proof (elim disjE exE conjE)
    fix err assume "envid2env s srcid False = Some (Inl err)"
    then show ?thesis using k r nva by (auto simp: sys_mem_map_def)
  next
    fix e assume e: "envid2env s srcid False = Some (Inr (Some e))" "live s e"
    from envid2env_running [OF r k', of dstid False] show ?thesis
    proof (elim disjE exE conjE)
      fix err assume "envid2env s dstid False = Some (Inl err)"
      then show ?thesis using k r nva e by (auto simp: sys_mem_map_def)
    next
      fix e' assume e': "envid2env s dstid False = Some (Inr (Some e'))" "live s e'"
      obtain d d' where d: "env_pgdir (envs s e) = Some d" and d': "env_pgdir (envs s e') = Some d'"
        using liveD e(2) e'(2) by blast
      have en: "e' < NENV" using e'(2) by (simp add: live_def)
      from page_lookup_source [OF k' e(2) d _ ok [OF e(1)]] va
      have "page_lookup s d srcva = Some (None, s) \<or> (\<exists>w x.
          page_lookup s d srcva = Some (Some (frame_of w, x), s) \<and> insert_pre s (dirs s) fl (frame_of w) perm)"
        using lb by (auto simp: insert_pre_def)
      then show ?thesis
      proof (elim disjE exE conjE)
        assume "page_lookup s d srcva = Some (None, s)"
        then show ?thesis using k r nva e e' d by (auto simp: sys_mem_map_def)
      next
        fix w x assume l: "page_lookup s d srcva = Some (Some (frame_of w, x), s)"
          and pre: "insert_pre s (dirs s) fl (frame_of w) perm"
        from va kinv_insert [OF k' en d' _ pre, of dstva] show ?thesis
          using k r nva e e' d d' l running_mem_only [OF r]
          by (auto simp: sys_mem_map_def inserted_def)
      qed
    qed
  qed
qed

lemma sys_mem_alloc_inv:
  assumes k: "kinv s" and r: "running s" and lb: "low_bits perm"
  shows "\<exists>x. sys_mem_alloc s envid va perm = Some x \<and> kinv_ret x"
proof (cases "va < UTOP")
  case False
  then show ?thesis using k r by (auto simp: sys_mem_alloc_def not_less)
next
  case True
  then have nva: "\<not> UTOP \<le> va" by auto
  obtain fl efl where k': "kinv_at s fl efl" using k by (auto simp: kinv_def)
  from kinv_alloc [OF k'] show ?thesis
  proof (elim disjE exE conjE)
    assume "page_alloc s = Some (Inl E_NO_MEM, s)"
    then show ?thesis using k r nva by (auto simp: sys_mem_alloc_def)
  next
    fix p fl' s1
    assume al: "page_alloc s = Some (Inr p, s1)" and mo: "mem_only s s1" and k1: "kinv_at s1 fl' efl"
      and dp: "data_page s1 (dirs s) fl' p" and r0: "pp_ref s1 p = 0"
    have r1: "running s1" by (rule running_mem_only [OF r mo])
    have D1: "dirs s1 = dirs s" by (rule dirs_mem_only [OF mo])
    from envid2env_running [OF r1 k1, of envid False] show ?thesis
    proof (elim disjE exE conjE)
      fix err assume "envid2env s1 envid False = Some (Inl err)"
      then show ?thesis using al k1 r1 nva by (auto simp: sys_mem_alloc_def)
    next
      fix e assume e: "envid2env s1 envid False = Some (Inr (Some e))" "live s1 e"
      obtain d where d: "env_pgdir (envs s1 e) = Some d" using liveD [OF e(2)] by blast
      have en: "e < NENV" using e(2) by (simp add: live_def)
      have pn: "p < npage s1" "p < 2 ^ 20"
        using dp kinv_at_vm [OF k1] D1 by (simp_all add: data_page_def vm_inv_def vm_struct_def)
      let ?s2 = "bzero_page s1 p"
      have k2: "kinv_at ?s2 fl' efl" unfolding bzero_page_def
        by (rule kinv_write(1) [OF k1, of p]) (use dp D1 in auto)
      have mo2: "mem_only s1 ?s2" by simp
      have D2: "dirs ?s2 = dirs s" using dirs_mem_only [OF mo2] D1 by simp
      have "data_page ?s2 (dirs s1) fl' p" unfolding bzero_page_def
        using kinv_write(3) [OF k1, of p "(phys s1)(p := \<lambda>_. 0)" p] dp D1 by auto
      then have pre: "insert_pre ?s2 (dirs ?s2) fl' p perm"
        using r0 lb D1 D2 by (simp add: insert_pre_fresh)
      have d2: "env_pgdir (envs ?s2 e) = Some d" using d by simp
      from kinv_insert [OF k2 en d2 True pre] show ?thesis
        using al e(1) d nva pn k2 running_mem_only [OF r1 mo2] running_mem_only [OF r1 mem_only_trans [OF mo2]]
        by (auto simp: sys_mem_alloc_def page2kva_page inserted_def)
    qed
  qed
qed


lemma ipc_deliver_inv:
  assumes "kinv_at s fl efl" "running s" "live s e"
  shows "kinv (ipc_deliver s e perm from value)" "running (ipc_deliver s e perm from value)"
proof -
  have "env_pgdir (envs s e) \<noteq> None" using assms(3) by (simp add: live_def)
  then show "kinv (ipc_deliver s e perm from value)" "running (ipc_deliver s e perm from value)"
    using upd_env_ret [OF assms, of "\<lambda>v. v\<lparr>env_ipc_perm := perm, env_ipc_recving := 0,
        env_ipc_from := from, env_ipc_value := value, env_status := ENV_RUNNABLE\<rparr>"]
    by (simp_all add: ipc_deliver_def entry_status)
qed

lemma sys_ipc_can_send_inv:
  assumes k: "kinv s" and r: "running s"
    and ok: "\<And>c. curenv s = Some c \<Longrightarrow> srcva \<noteq> 0 \<Longrightarrow> srcva < UTOP \<Longrightarrow> source_ok s c srcva"
  shows "\<exists>x. sys_ipc_can_send s envid value srcva perm = Some x \<and> kinv_ret x"
proof -
  obtain fl efl where k': "kinv_at s fl efl" using k by (auto simp: kinv_def)
  obtain c where c: "curenv s = Some c" "live s c" using running_curenv [OF r] by blast
  from envid2env_running [OF r k', of envid False] show ?thesis
  proof (elim disjE exE conjE)
    fix err assume "envid2env s envid False = Some (Inl err)"
    then show ?thesis using k r by (auto simp: sys_ipc_can_send_def)
  next
    fix e assume e: "envid2env s envid False = Some (Inr (Some e))" "live s e"
    show ?thesis
    proof (cases "env_ipc_recving (envs s e) \<noteq> 0 \<and> srcva \<noteq> 0 \<and> env_ipc_dstva (envs s e) \<noteq> 0
        \<and> srcva < UTOP \<and> perm_ok perm")
      case False
      have "kinv (ipc_deliver s e 0 (env_id (envs s c)) value) \<and> running (ipc_deliver s e 0 (env_id (envs s c)) value)"
        using ipc_deliver_inv [OF k' r e(2)] by simp
      then show ?thesis using False k r e c by (auto simp: sys_ipc_can_send_def Let_def not_less)
    next
      case True
      obtain d d' where d: "env_pgdir (envs s c) = Some d" and d': "env_pgdir (envs s e) = Some d'"
        using liveD e(2) c(2) by blast
      have en: "e < NENV" using e(2) by (simp add: live_def)
      have dv: "env_ipc_dstva (envs s e) < UTOP"
        using k' en by (simp add: kinv_at_def envs_ok_def env_entry_ok_def)
      from page_lookup_source [OF k' c(2) d _ ok [OF c(1)]] True
      have "page_lookup s d srcva = Some (None, s) \<or> (\<exists>w x.
          page_lookup s d srcva = Some (Some (frame_of w, x), s) \<and> insert_pre s (dirs s) fl (frame_of w) perm)"
        using low_bits_perm_ok by (auto simp: insert_pre_def)
      then show ?thesis
      proof (elim disjE exE conjE)
        assume "page_lookup s d srcva = Some (None, s)"
        then show ?thesis using k r True e c d by (auto simp: sys_ipc_can_send_def Let_def not_le)
      next
        fix w x assume l: "page_lookup s d srcva = Some (Some (frame_of w, x), s)"
          and pre: "insert_pre s (dirs s) fl (frame_of w) perm"
        have run: "sys_ipc_can_send s envid value srcva perm = do {
            (i, s2) \<leftarrow> page_insert s d' (frame_of w) (env_ipc_dstva (envs s e)) perm;
            case i of Inl err \<Rightarrow> Some (Back (neg_err err) s2)
            | Inr _ \<Rightarrow> Some (Back 0 (ipc_deliver s2 e perm (env_id (envs s c)) value)) }"
        proof -
          have "\<not> UTOP \<le> srcva" using True by auto
          then show ?thesis using True e c d d' l by (simp add: sys_ipc_can_send_def Let_def)
        qed
        from kinv_insert [OF k' en d' dv pre] show ?thesis
        proof (elim disjE exE conjE)
          assume "page_insert s d' (frame_of w) (env_ipc_dstva (envs s e)) perm = Some (Inl E_NO_MEM, s)"
          then show ?thesis using k r by (simp add: run)
        next
          fix s2 fl2 assume i: "page_insert s d' (frame_of w) (env_ipc_dstva (envs s e)) perm = Some (Inr (), s2)"
            and k2: "kinv_at s2 fl2 efl" and ins: "inserted s (dirs s) fl d' (frame_of w)
              (env_ipc_dstva (envs s e)) perm s2 fl2"
          have mo: "mem_only s s2" using ins by (simp add: inserted_def)
          have "live s2 e" using live_mem_only [OF mo] e(2) by simp
          from ipc_deliver_inv [OF k2 running_mem_only [OF r mo] this] i show ?thesis
            by (simp add: run)
        qed
      qed
    qed
  qed
qed

lemma sys_set_trapframe_inv:
  assumes k: "kinv s" and r: "running s"
  shows "\<exists>x. sys_set_trapframe s envid tf kip = Some x \<and> kinv_ret x"
proof -
  let ?s1 = "s\<lparr>page_fault_mode := PFM_KILL\<rparr>"
  let ?s2 = "s\<lparr>page_fault_mode := PFM_NONE\<rparr>"
  obtain fl efl where k': "kinv_at s fl efl" using k by (auto simp: kinv_def)
  have k2: "kinv_at ?s2 fl efl" and r2: "running ?s2" using k' r by simp_all
  show ?thesis
  proof (cases "load_bytes ?s1 (TRUP tf) 68")
    case (Inl va)
    have "\<exists>x. kernel_fault ?s1 va kip = Some x \<and> kinv_ret x"
      by (rule kernel_fault_inv) (use k r in \<open>simp_all add: PFM_KILL_def PFM_NONE_def\<close>)
    then show ?thesis using Inl by (simp add: sys_set_trapframe_def Let_def)
  next
    case (Inr bs)
    let ?ltf = "fix_tf (trapframe_of_words (words_of_bytes bs))"
    have u2: "kinv (?s2\<lparr>utf := ?ltf\<rparr>) \<and> running (?s2\<lparr>utf := ?ltf\<rparr>)"
      using kinvI [OF k2] r2 unfolding kinv_fields running_fields by simp
    from envid2env_running [OF r2 k2, of envid True] show ?thesis
    proof (elim disjE exE conjE)
      fix err assume "envid2env ?s2 envid True = Some (Inl err)"
      then show ?thesis using Inr k r by (simp add: sys_set_trapframe_def Let_def)
    next
      fix e assume e: "envid2env ?s2 envid True = Some (Inr (Some e))" "live ?s2 e"
      have "kinv (upd_env ?s2 e (env_tf_update (\<lambda>_. ?ltf)))" "running (upd_env ?s2 e (env_tf_update (\<lambda>_. ?ltf)))"
        by (rule upd_env_ret [OF k2 r2 e(2)]; simp)+
      then show ?thesis using Inr e u2 by (simp add: sys_set_trapframe_def Let_def)
    qed
  qed
qed

section \<open>The dispatcher\<close>

text \<open>What a call must satisfy for the invariant, beyond what the kernel checks.\<close>

definition safe_call :: "kstate \<Rightarrow> u32 \<Rightarrow> u32 \<Rightarrow> u32 \<Rightarrow> u32 \<Rightarrow> u32 \<Rightarrow> u32 \<Rightarrow> bool" where
  "safe_call s sn a1 a2 a3 a4 a5 \<longleftrightarrow>
     (sn = 5 \<longrightarrow> a3 \<noteq> 0 \<and> a3 < UTOP \<longrightarrow> (\<forall>c. curenv s = Some c \<longrightarrow> source_ok s c a3))
     \<and> (sn = 9 \<longrightarrow> low_bits a3)
     \<and> (sn = 10 \<longrightarrow> low_bits a5
          \<and> (\<forall>e. envid2env s a1 False = Some (Inr (Some e)) \<longrightarrow> a2 < UTOP \<longrightarrow> source_ok s e a2))"

text \<open>The calls that stop the machine: a second receive or a bad address in
  \<open>sys_ipc_recv\<close>, \<open>sys_panic\<close>, and a string without an end.\<close>

definition stops :: "kstate \<Rightarrow> u32 \<Rightarrow> u32 \<Rightarrow> bool" where
  "stops s sn a1 \<longleftrightarrow>
     (sn = 1 \<and> shown_string (s\<lparr>page_fault_mode := PFM_KILL\<rparr>) (TRUP a1) = None)
     \<or> (sn = 6 \<and> (a1 \<ge> UTOP \<or> (\<exists>c. curenv s = Some c \<and> env_ipc_recving (envs s c) \<noteq> 0)))
     \<or> sn = 13"

lemma pfm_same:
  "envid2env (s\<lparr>page_fault_mode := m\<rparr>) i cp = envid2env s i cp"
  "source_ok (s\<lparr>page_fault_mode := m\<rparr>) e va = source_ok s e va"
  by (simp_all add: envid2env_def source_ok_def Let_def
      cong: if_cong option.case_cong)

lemma sys_string_inv:
  assumes "kinv s" "running s" "page_fault_mode s \<noteq> PFM_NONE"
  shows "sys_cputs s str kip = None \<and> shown_string s (TRUP str) = None
      \<or> (\<exists>x. sys_cputs s str kip = Some x \<and> kinv_ret x)"
    "sys_panic s str kip = None \<or> (\<exists>x. sys_panic s str kip = Some x \<and> kinv_ret x)"
proof -
  have f: "\<exists>r. kernel_fault (print_chars bs s) va kip = Some r \<and> kinv_ret r" for bs va
    by (rule kernel_fault_inv) (use assms in \<open>simp_all add: print_chars_def kinv_def running_def live_def
        kinv_at_def vm_inv_def free_ok_def envs_ok_def dirs_def pgdirs_def\<close>)
  show "sys_cputs s str kip = None \<and> shown_string s (TRUP str) = None
      \<or> (\<exists>x. sys_cputs s str kip = Some x \<and> kinv_ret x)"
    using f assms by (cases "shown_string s (TRUP str)") (auto simp: sys_cputs_def Let_def split: option.splits)
  show "sys_panic s str kip = None \<or> (\<exists>x. sys_panic s str kip = Some x \<and> kinv_ret x)"
  proof (cases "shown_string s (TRUP str)")
    case None
    then show ?thesis by (simp add: sys_panic_def)
  next
    case (Some y)
    obtain bs a where y: "y = (bs, a)" by (cases y)
    show ?thesis using Some y f [of bs] by (cases a) (simp_all add: sys_panic_def)
  qed
qed


lemma syscall_inv:
  assumes k: "kinv s" and r: "running s" and ok: "safe_call s sn a1 a2 a3 a4 a5"
  shows "syscall s sn a1 a2 a3 a4 a5 kip = None \<and> stops s sn a1
    \<or> (\<exists>x. syscall s sn a1 a2 a3 a4 a5 kip = Some x \<and> kinv_ret x)"
proof -
  let ?s = "s\<lparr>page_fault_mode := PFM_KILL\<rparr>"
  have k': "kinv ?s" and r': "running ?s" and m: "page_fault_mode ?s \<noteq> PFM_NONE"
    using k r by (simp_all add: PFM_KILL_def PFM_NONE_def)
  obtain c where c: "curenv ?s = Some c" using running_curenv [OF r'] by blast
  have y: "kinv (sched_yield ?s)" using k' sched_yield_inv unfolding kinv_def by blast
  show ?thesis
  proof (cases "sn \<in> {0, 1, 2, 3, 4, 5, 6, 7}")
    case True
    then consider "sn = 0" | "sn = 1" | "sn = 2" | "sn = 3" | "sn = 4" | "sn = 5" | "sn = 6" | "sn = 7"
      by auto
    then show ?thesis
    proof cases
      case 1
      then show ?thesis using c k' r' by (simp add: syscall_def sys_getenvid_def)
    next
      case 2
      then show ?thesis using sys_string_inv(1) [OF k' r' m, of a1 kip]
        by (auto simp: syscall_def stops_def)
    next
      case 3
      then show ?thesis using y by (simp add: syscall_def sys_yield_def)
    next
      case 4
      obtain x where "sys_env_destroy ?s a1 = Some x" "kinv_ret x"
        using sys_env_destroy_inv [OF k' r'] by blast
      then show ?thesis using 4 by (cases x) (simp_all add: syscall_def)
    next
      case 5
      then show ?thesis using sys_env_alloc_inv [OF k' r'] by (simp add: syscall_def)
    next
      case 6
      have "\<exists>x. sys_ipc_can_send ?s a1 a2 a3 a4 = Some x \<and> kinv_ret x"
        by (rule sys_ipc_can_send_inv [OF k' r'])
          (use ok 6 in \<open>simp add: safe_call_def pfm_same\<close>)
      then show ?thesis using 6 by (simp add: syscall_def)
    next
      case 7
      then show ?thesis using sys_ipc_recv_inv [OF k' r', of a1]
        by (auto simp: syscall_def stops_def)
    next
      case 8
      then show ?thesis using sys_set_pgfault_handler_inv [OF k' r'] by (simp add: syscall_def)
    qed
  next
    case low: False
    show ?thesis
    proof (cases "sn \<in> {8, 9, 10, 11, 12, 13, 14, 15}")
      case True
      then consider "sn = 8" | "sn = 9" | "sn = 10" | "sn = 11" | "sn = 12" | "sn = 13" | "sn = 14" | "sn = 15"
        by auto
      then show ?thesis
      proof cases
        case 1
        then show ?thesis using sys_set_env_status_inv [OF k' r'] by (simp add: syscall_def)
      next
        case 2
        have "low_bits a3" using ok 2 by (simp add: safe_call_def)
        then show ?thesis using 2 sys_mem_alloc_inv [OF k' r'] by (simp add: syscall_def)
      next
        case 3
        have "\<exists>x. sys_mem_map ?s a1 a2 a3 a4 a5 = Some x \<and> kinv_ret x"
          by (rule sys_mem_map_inv [OF k' r']) (use ok 3 in \<open>auto simp: safe_call_def pfm_same\<close>)
        then show ?thesis using 3 by (simp add: syscall_def)
      next
        case 4
        then show ?thesis using sys_mem_unmap_inv [OF k' r'] by (simp add: syscall_def)
      next
        case 5
        then show ?thesis using sys_set_trapframe_inv [OF k' r'] by (simp add: syscall_def)
      next
        case 6
        then show ?thesis using sys_string_inv(2) [OF k' r' m, of a1 kip]
          by (auto simp: syscall_def stops_def)
      next
        case 7
        obtain v b where "cons_getc (cons ?s) = (v, b)" by (cases "cons_getc (cons ?s)")
        moreover have "kinv (?s\<lparr>cons := b\<rparr>)" "running (?s\<lparr>cons := b\<rparr>)"
          unfolding kinv_fields running_fields using k r by simp_all
        ultimately show ?thesis using 7 by (simp add: syscall_def sys_cgetc_def)
      next
        case 8
        have "kinv (?s\<lparr>color := a1\<rparr>)" "running (?s\<lparr>color := a1\<rparr>)"
          unfolding kinv_fields running_fields using k r by simp_all
        then show ?thesis using 8 by (simp add: syscall_def sys_set_color_def)
      qed
    next
      case False
      then show ?thesis using low k' r' by (simp add: syscall_def)
    qed
  qed
qed


section \<open>Traps\<close>

definition kinv_out :: "outcome \<Rightarrow> bool" where
  "kinv_out o' \<longleftrightarrow> kinv (final o') \<and> (case o' of Ret s \<Rightarrow> running s | Sched _ \<Rightarrow> True)"

lemma kinv_out_simps [simp]:
  "kinv_out (Ret s) \<longleftrightarrow> kinv s \<and> running s" "kinv_out (Sched s) \<longleftrightarrow> kinv s"
  by (simp_all add: kinv_out_def)

lemma kinv_out_of: "kinv_ret x \<Longrightarrow> kinv_out (outcome_of x)"
  by (cases x) simp_all

lemma env_destroy_out:
  "kinv s \<Longrightarrow> running s \<Longrightarrow> live s e \<Longrightarrow> \<exists>x. env_destroy s e = Some x \<and> kinv_out x"
  using env_destroy_running by (fastforce simp: kinv_def)

lemma cons_intr_inv:
  "kinv s \<Longrightarrow> running s \<Longrightarrow> \<exists>x. cons_intr s cs = Some x \<and> kinv_out x"
proof (induction cs arbitrary: s)
  case Nil
  then show ?case by simp
next
  case (Cons c cs)
  have store: "kinv (t\<lparr>cons := b\<rparr>) \<and> running (t\<lparr>cons := b\<rparr>)" if "kinv t" "running t" for t b
    using that unfolding kinv_fields running_fields by simp
  obtain e where e: "curenv s = Some e" "live s e" using running_curenv [OF Cons.prems(2)] by blast
  obtain x where x: "(if c = 3 then Option.bind (curenv s) (env_destroy s) else Some (Ret s)) = Some x"
      "kinv_out x"
    using env_destroy_out [OF Cons.prems e(2)] e(1) Cons.prems by (cases "c = 3") auto
  show ?case
  proof (cases x)
    case (Sched s1)
    then show ?thesis using x Cons.IH [OF Cons.prems] by auto
  next
    case (Ret s1)
    then have "kinv (if c < 0x80 then kprintf_msg ''%c'' [word_of_int c] s1 else s1)"
        "running (if c < 0x80 then kprintf_msg ''%c'' [word_of_int c] s1 else s1)"
      using x(2) by simp_all
    from Cons.IH [OF store [OF this, THEN conjunct1] store [OF this, THEN conjunct2]]
    show ?thesis using x(1) Ret Cons.IH [OF Cons.prems] by (auto simp: Let_def)
  qed
qed

definition phys_only :: "kstate \<Rightarrow> kstate \<Rightarrow> bool" where
  "phys_only s s' \<longleftrightarrow> s' = s\<lparr>phys := phys s'\<rparr>"

lemma phys_only_refl [simp]: "phys_only s s"
  by (simp add: phys_only_def)

lemma phys_only_trans: "phys_only s t \<Longrightarrow> phys_only t u \<Longrightarrow> phys_only s u"
  unfolding phys_only_def by (cases s, cases t, cases u) simp

lemma phys_only_put: "phys_only s (put_byte_at s w va b)"
  by (simp add: phys_only_def put_byte_at_def set_phys_def Let_def)

lemma phys_only_fields:
  assumes "phys_only s s'"
  shows "envs s' = envs s" "curenv s' = curenv s" "cr3 s' = cr3 s" "boot_pgdir s' = boot_pgdir s"
    "page_fault_mode s' = page_fault_mode s" "utf s' = utf s"
  using assms by (simp_all add: phys_only_def) (metis kstate.select_convs kstate.update_convs(2) kstate.surjective)+


lemma phys_only_dirs: "phys_only s s' \<Longrightarrow> dirs s' = dirs s"
  by (rule dirs_cong) (simp_all add: phys_only_fields)

lemma phys_only_running: "phys_only s s' \<Longrightarrow> running s \<Longrightarrow> running s'"
  by (rule running_cong) (simp_all add: phys_only_fields)

text \<open>A sequence of byte stores into data pages.\<close>

lemma fold_put_byte_kinv:
  assumes "kinv_at s fl efl" "\<And>i. i \<in> set is \<Longrightarrow> data_page s (dirs s) fl (frame_of (g i))"
  shows "kinv_at (fold (\<lambda>i t. put_byte_at t (g i) (a i) (b i)) is s) fl efl
    \<and> phys_only s (fold (\<lambda>i t. put_byte_at t (g i) (a i) (b i)) is s)
    \<and> (\<forall>x. data_page (fold (\<lambda>i t. put_byte_at t (g i) (a i) (b i)) is s) (dirs s) fl x
          = data_page s (dirs s) fl x)
    \<and> (\<forall>d \<in> dirs s. \<forall>va < UTOP. vm_lookup (phys (fold (\<lambda>i t. put_byte_at t (g i) (a i) (b i)) is s)) d va
          = vm_lookup (phys s) d va)"
  using assms
proof (induction "is" arbitrary: s)
  case Nil
  then show ?case by simp
next
  case (Cons i "is")
  let ?t = "put_byte_at s (g i) (a i) (b i)"
  have dp: "data_page s (dirs s) fl (frame_of (g i))" using Cons.prems(2) by simp
  note p = put_byte_at_kinv [OF Cons.prems(1) dp, where va = "a i" and b = "b i"]
  have "data_page ?t (dirs ?t) fl (frame_of (g j))" if "j \<in> set is" for j
    using Cons.prems(2) that p(2,3) by simp
  from Cons.IH [OF p(1) this] p(2-4) phys_only_trans [OF phys_only_put [of s "g i" "a i" "b i"]]
  show ?case by simp
qed

lemma running_dir:
  assumes k: "kinv_at s fl efl" and "running s"
  obtains c d where "curenv s = Some c" "c < NENV" "env_pgdir (envs s c) = Some d" "d \<in> dirs s"
    "frame_of (cr3 s) = d"
proof -
  obtain c where c: "curenv s = Some c" "live s c" "cr3 s = env_cr3 (envs s c)"
    using assms(2) by (auto simp: running_def)
  then obtain d where d: "env_pgdir (envs s c) = Some d" "d \<in> dirs s" using liveD by blast
  have "env_cr3 (envs s c) = page2pa d"
    using k c(2) d by (auto simp: kinv_at_def envs_ok_def env_entry_ok_def live_def)
  moreover have "d < 2 ^ 20" using kinv_at_vm [OF k] d(2) by (auto simp: vm_inv_def vm_struct_def)
  ultimately have "frame_of (cr3 s) = d" using c(3) frame_of_page2pa by simp
  then show thesis using c d that by (auto simp: live_def)
qed

lemma store_entry_data:
  assumes k: "kinv_at s fl efl" and r: "running s" and va: "va < UTOP" and e: "store_entry s va = Some w"
  shows "data_page s (dirs s) fl (frame_of w)"
proof -
  obtain d where d: "d \<in> dirs s" "frame_of (cr3 s) = d" using running_dir [OF k r] by metis
  have "vm_lookup (phys s) d va = Some w"
    using e d(2) by (auto simp: store_entry_def split: option.splits if_splits)
  then show ?thesis using data_page_leaf [OF kinv_at_vm [OF k] _ d(1) va] by simp
qed

definition user_word :: "u32 \<Rightarrow> bool" where
  "user_word va \<longleftrightarrow> (\<forall>i < 4. va + of_nat i < UTOP)"

lemma store32_inv:
  assumes k: "kinv_at s fl efl" and r: "running s" and va: "user_word va"
    and st: "store32 s va w = Inr s'"
  shows "kinv_at s' fl efl" "running s'" "phys_only s s'"
proof -
  have n: "store_entry s (va + of_nat i) \<noteq> None" if "i < 4" for i
    using st that by (auto simp: store32_def find_None_iff split: option.splits)
  have "data_page s (dirs s) fl (frame_of (the (store_entry s (va + of_nat i))))" if "i \<in> set [0..<4]" for i
    using store_entry_data [OF k r, of "va + of_nat i"] n [of i] va that by (auto simp: user_word_def)
  note F = fold_put_byte_kinv [of s fl efl "[0..<4]" "\<lambda>i. the (store_entry s (va + of_nat i))"
      "\<lambda>i. va + of_nat i" "\<lambda>i. get_byte w i", OF k this]
  have "s' = fold (\<lambda>i t. put_byte_at t (the (store_entry s (va + of_nat i))) (va + of_nat i)
      (get_byte w i)) [0..<4] s"
    using st by (simp add: store32_def split: option.splits)
  with F show "kinv_at s' fl efl" "phys_only s s'" by (simp_all only:)
  then show "running s'" using phys_only_running r by blast
qed

lemma store_words_inv:
  assumes "kinv_at s fl efl" "running s" "\<forall>(va, w) \<in> set ws. user_word va"
  shows "case store_words s ws of
      Inl (a, s') \<Rightarrow> kinv_at s' fl efl \<and> running s' \<and> phys_only s s'
    | Inr s' \<Rightarrow> kinv_at s' fl efl \<and> running s' \<and> phys_only s s'"
  using assms
proof (induction s ws rule: store_words.induct)
  case (1 s)
  then show ?case by simp
next
  case (2 s va w ws)
  show ?case
  proof (cases "store32 s va w")
    case (Inl a)
    then show ?thesis using 2 by simp
  next
    case (Inr s1)
    have i: "kinv_at s1 fl efl" "running s1" "phys_only s s1"
      using store32_inv [OF 2(2,3) _ Inr] 2(4) by simp_all
    have "\<forall>(va, w) \<in> set ws. user_word va" using 2(4) by simp
    from 2(1) [OF Inr i(1,2) this] show ?thesis
      using Inr phys_only_trans [OF i(3)] by (auto split: sum.splits)
  qed
qed

text \<open>The exception stack lies in the user's part of the address space.\<close>

definition safe_fault :: "kstate \<Rightarrow> trapframe \<Rightarrow> bool" where
  "safe_fault s tf \<longleftrightarrow>
     (\<forall>c. curenv s = Some c \<longrightarrow> env_pgfault_handler (envs s c) \<noteq> 0 \<longrightarrow>
        (\<forall>(va, w) \<in> set (exception_frame (exception_tos (envs s c) tf) tf 0). user_word va))"

lemma page_fault_handler_inv:
  assumes k: "kinv s" and r: "running s" and u: "tf_cs tf AND 1 \<noteq> 0" and ok: "safe_fault s tf"
  shows "page_fault_mode s = PFM_NONE \<and> page_fault_handler s tf va kip = None
    \<or> (\<exists>x. page_fault_handler s tf va kip = Some x \<and> kinv_out x)"
proof -
  obtain fl efl where k': "kinv_at s fl efl" using k by (auto simp: kinv_def)
  obtain c where c: "curenv s = Some c" "live s c" using running_curenv [OF r] by blast
  show ?thesis
  proof (cases "env_pgfault_handler (envs s c) = 0")
    case True
    let ?s = "kprintf_msg ''[%08x] user fault va %08x errcode %08x ip %08x\<newline>''
        [env_id (envs s c), va, tf_err tf, tf_eip tf] s"
    have "live ?s c" using c by (simp add: live_def)
    from env_destroy_out [OF _ _ this] k r show ?thesis
      using True c u by (simp add: page_fault_handler_def)
  next
    case False
    let ?tos = "exception_tos (envs s c) tf"
    have "\<forall>(a, w) \<in> set (exception_frame ?tos tf va). user_word a"
      using ok c False by (simp add: safe_fault_def exception_frame_def)
    note st = store_words_inv [OF k' r this]
    show ?thesis
    proof (cases "store_words s (exception_frame ?tos tf va)")
      case (Inl y)
      obtain a s1 where y: "y = (a, s1)" by (cases y)
      have i: "kinv s1" "running s1" "phys_only s s1" using st Inl y by auto
      show ?thesis
      proof (cases "page_fault_mode s = PFM_NONE")
        case True
        then show ?thesis using False c u Inl y i
          by (simp add: page_fault_handler_def Let_def kernel_fault_def phys_only_fields)
      next
        case m: False
        then have "page_fault_mode s1 \<noteq> PFM_NONE" using phys_only_fields(5) [OF i(3)] by simp
        from kernel_fault_inv [OF i(1,2) this] kinv_out_of show ?thesis
          using False c u Inl y by (fastforce simp: page_fault_handler_def Let_def)
      qed
    next
      case (Inr s1)
      let ?t = "tf\<lparr>tf_eip := env_pgfault_handler (envs s1 c), tf_esp := ?tos - 36\<rparr>"
      have "kinv_at (s1\<lparr>utf := ?t\<rparr>) fl efl" using st Inr by simp
      moreover have "c < NENV" using c(2) by (simp add: live_def)
      ultimately have "kinv_at (env_run (s1\<lparr>utf := ?t\<rparr>) c) fl efl" by (rule env_run_inv)
      then show ?thesis using False c u Inr by (auto simp: page_fault_handler_def Let_def)
    qed
  qed
qed


lemma print_trapframe_inv [simp]:
  "kinv (print_trapframe a t s) = kinv s" "running (print_trapframe a t s) = running s"
  by (simp_all add: print_trapframe_def)

text \<open>The state in which the dispatcher runs: the registers of the caller are saved.\<close>

definition saved :: "kstate \<Rightarrow> kstate" where
  "saved s = (case curenv s of None \<Rightarrow> s | Some c \<Rightarrow> upd_env s c (env_tf_update (\<lambda>_. utf s)))"

definition safe_trap :: "kstate \<Rightarrow> bool" where
  "safe_trap s \<longleftrightarrow>
     (unat (tf_trapno (utf s)) = T_PGFLT \<longrightarrow> safe_fault s (utf s))
     \<and> (unat (tf_trapno (utf s)) = T_SYSCALL \<longrightarrow>
          safe_call (saved s) (tf_eax (utf s)) (tf_edx (utf s)) (tf_ecx (utf s)) (tf_ebx (utf s))
            (tf_edi (utf s)) (tf_esi (utf s)))"

lemma saved_inv:
  assumes k: "kinv s" and r: "running s"
  shows "kinv (saved s)" "running (saved s)"
proof -
  obtain fl efl where k': "kinv_at s fl efl" using k by (auto simp: kinv_def)
  obtain c where c: "curenv s = Some c" "live s c" using running_curenv [OF r] by blast
  have "kinv (upd_env s c (env_tf_update (\<lambda>_. utf s)))" "running (upd_env s c (env_tf_update (\<lambda>_. utf s)))"
    by (rule upd_env_ret [OF k' r c(2)]; simp)+
  then show "kinv (saved s)" "running (saved s)" using c by (simp_all add: saved_def)
qed

lemma trap_syscall_inv:
  assumes k: "kinv s" and r: "running s" and n: "unat (tf_trapno (utf s)) = T_SYSCALL" and ok: "safe_trap s"
    and t: "trap s va input kip = Some x"
  shows "kinv_out x"
proof -
  let ?call = "syscall (saved s) (tf_eax (utf s)) (tf_edx (utf s)) (tf_ecx (utf s)) (tf_ebx (utf s))
            (tf_edi (utf s)) (tf_esi (utf s)) kip"
  have "trap s va input kip = do { y \<leftarrow> ?call; case y of
      Back v s2 \<Rightarrow> Some (Ret (s2\<lparr>utf := (utf s2)\<lparr>tf_eax := v\<rparr>\<rparr>)) | Away s2 \<Rightarrow> Some (Sched s2) }"
    using n by (simp add: trap_def saved_def Let_def T_SYSCALL_def T_PGFLT_def)
  with t obtain y where y: "?call = Some y"
      "(case y of Back v s2 \<Rightarrow> Some (Ret (s2\<lparr>utf := (utf s2)\<lparr>tf_eax := v\<rparr>\<rparr>)) | Away s2 \<Rightarrow> Some (Sched s2)) = Some x"
    by (auto elim!: bind_eq_SomeE)
  have ok': "safe_call (saved s) (tf_eax (utf s)) (tf_edx (utf s)) (tf_ecx (utf s)) (tf_ebx (utf s))
            (tf_edi (utf s)) (tf_esi (utf s))"
    using ok n by (simp add: safe_trap_def)
  from syscall_inv [OF saved_inv [OF k r] ok', of kip] y(1) have "kinv_ret y" by auto
  then show ?thesis using y(2) by (cases y) (auto simp del: kinv_fields simp: kinv_fields(3))
qed

lemma trap_inv:
  assumes k: "kinv s" and r: "running s" and u: "tf_cs (utf s) AND 1 \<noteq> 0" and ok: "safe_trap s"
    and t: "trap s va input kip = Some x"
  shows "kinv_out x"
proof -
  let ?n = "unat (tf_trapno (utf s))"
  have y: "kinv (sched_yield s)" using k sched_yield_inv unfolding kinv_def by blast
  consider "?n = T_PGFLT" | "?n = T_SYSCALL" | "?n = IRQ_OFFSET" | "?n = IRQ_OFFSET + 4"
    | "?n = IRQ_OFFSET + 1" | "?n \<noteq> T_PGFLT \<and> ?n \<noteq> T_SYSCALL \<and> ?n \<noteq> IRQ_OFFSET
        \<and> ?n \<noteq> IRQ_OFFSET + 4 \<and> ?n \<noteq> IRQ_OFFSET + 1" by blast
  then show ?thesis
  proof cases
    case 1
    then have "safe_fault s (utf s)" using ok by (simp add: safe_trap_def)
    from page_fault_handler_inv [OF k r u this, of va kip] 1 t show ?thesis by (auto simp: trap_def Let_def)
  next
    case 2
    from trap_syscall_inv [OF k r 2 ok t] show ?thesis .
  next
    case 3
    then show ?thesis using t y by (auto simp: trap_def Let_def T_PGFLT_def T_SYSCALL_def IRQ_OFFSET_def)
  next
    case 4
    then have "cons_intr s (map uint input) = Some x"
      using t by (simp add: trap_def Let_def T_PGFLT_def T_SYSCALL_def IRQ_OFFSET_def serial_intr_def)
    then show ?thesis using cons_intr_inv [OF k r, of "map uint input"] by auto
  next
    case 5
    obtain cs sh where q: "kbd_chars (kbd_shift s) input = (cs, sh)" by (cases "kbd_chars (kbd_shift s) input")
    then have e: "cons_intr (s\<lparr>kbd_shift := sh\<rparr>) cs = Some x"
      using 5 t by (simp add: trap_def Let_def T_PGFLT_def T_SYSCALL_def IRQ_OFFSET_def kbd_intr_def)
    have "kinv (s\<lparr>kbd_shift := sh\<rparr>)" "running (s\<lparr>kbd_shift := sh\<rparr>)"
      unfolding kinv_fields running_fields by (fact k r)+
    from cons_intr_inv [OF this, of cs] e show ?thesis by auto
  next
    case 6
    then show ?thesis using t k r by (auto simp: trap_def Let_def split: if_splits)
  qed
qed

section \<open>The kernel as a transition system\<close>

text \<open>
  A step is a store of the running environment to one of its writable pages, or a trap
  from user mode with any contents of the registers. A store of user code needs
  \<open>PTE_U\<close> and \<open>PTE_W\<close>; traps that would break the conditions of \<open>safe_trap\<close> are left out.
\<close>

definition user_entry :: "kstate \<Rightarrow> u32 \<Rightarrow> u32 option" where
  "user_entry s va =
     (case store_entry s va of
        None \<Rightarrow> None
      | Some w \<Rightarrow> if va < UTOP \<and> w AND PTE_U \<noteq> 0 then Some w else None)"

inductive kstep :: "kstate \<Rightarrow> kstate \<Rightarrow> bool" where
  user_store: "running s \<Longrightarrow> user_entry s va = Some w \<Longrightarrow> kstep s (put_byte_at s w va b)"
| user_trap: "running s \<Longrightarrow> tf_cs tf AND 1 \<noteq> 0 \<Longrightarrow> safe_trap (s\<lparr>utf := tf\<rparr>) \<Longrightarrow>
    trap (s\<lparr>utf := tf\<rparr>) va input kip = Some x \<Longrightarrow> kstep s (final x)"

inductive kreach :: "kstate \<Rightarrow> kstate \<Rightarrow> bool" where
  kreach_refl: "kreach s s"
| kreach_step: "kreach s t \<Longrightarrow> kstep t u \<Longrightarrow> kreach s u"

inductive_cases kstepE: "kstep s t"
inductive_cases kreachE: "kreach s t"

lemma kstep_inv: "kstep s t \<Longrightarrow> kinv s \<Longrightarrow> kinv t"
proof (erule kstepE)
  fix va w b
  assume k: "kinv s" and t: "t = put_byte_at s w va b" and r: "running s" and e: "user_entry s va = Some w"
  obtain fl efl where k': "kinv_at s fl efl" using k by (auto simp: kinv_def)
  have "va < UTOP" "store_entry s va = Some w"
    using e by (auto simp: user_entry_def split: option.splits if_splits)
  from put_byte_at_kinv(1) [OF k' store_entry_data [OF k' r this]] t show "kinv t" by auto
next
  fix tf va input kip x
  assume k: "kinv s" and t: "t = final x" and r: "running s" and c: "tf_cs tf AND 1 \<noteq> 0"
    and s: "safe_trap (s\<lparr>utf := tf\<rparr>)" and x: "trap (s\<lparr>utf := tf\<rparr>) va input kip = Some x"
  have "kinv (s\<lparr>utf := tf\<rparr>)" "running (s\<lparr>utf := tf\<rparr>)"
    unfolding kinv_fields running_fields by (fact k r)+
  from trap_inv [OF this _ s x] c t show "kinv t" by (simp add: kinv_out_def)
qed

lemma kreach_inv: "kreach s t \<Longrightarrow> kinv s \<Longrightarrow> kinv t"
  by (induction rule: kreach.induct) (auto intro: kstep_inv)

end
