(* ===== verification/Sched.thy ===== *)
theory Sched
  imports Env_Inv
begin

text \<open>
  Fairness of the round robin of \<open>kern/sched.c\<close>: a runnable environment other than the idle
  environment 0 gets the processor after fewer than \<open>NENV\<close> switches, whatever the others
  do in between, as long as they only yield.
\<close>

section \<open>The cyclic distance\<close>

definition current :: "kstate \<Rightarrow> nat" where
  "current s = (case curenv s of None \<Rightarrow> 0 | Some c \<Rightarrow> c)"

text \<open>The number of positions from \<open>c\<close> to \<open>e\<close> in the cyclic order of 1 to 1023.\<close>

definition cyc_dist :: "nat \<Rightarrow> nat \<Rightarrow> nat" where
  "cyc_dist c e = (if c < e then e - c else e + (NENV - 1) - c)"

lemma sched_order_current: "sched_order (curenv s) = [current s + 1..<NENV] @ [1..<current s + 1]"
  by (simp add: sched_order_def current_def split: option.split)

lemma find_first: "find P xs = Some x \<Longrightarrow> \<exists>ys zs. xs = ys @ x # zs \<and> (\<forall>y \<in> set ys. \<not> P y) \<and> P x"
proof (induction xs)
  case Nil
  then show ?case by simp
next
  case (Cons a xs)
  show ?case
  proof (cases "P a")
    case True
    then show ?thesis using Cons.prems by fastforce
  next
    case False
    then have "find P xs = Some x" using Cons.prems by simp
    then obtain ys zs where "xs = ys @ x # zs" "\<forall>y \<in> set ys. \<not> P y" "P x" using Cons.IH by blast
    then have "a # xs = (a # ys) @ x # zs" "\<forall>y \<in> set (a # ys). \<not> P y" "P x" using False by auto
    then show ?thesis by blast
  qed
qed

text \<open>One switch reaches the environment or comes closer to it.\<close>

lemma sched_next_closer:
  assumes c: "current s < NENV" and e: "1 \<le> e" "e < NENV" "runnable s e"
  shows "sched_next s = e \<or> cyc_dist (sched_next s) e < cyc_dist (current s) e"
proof (cases "find (runnable s) [current s + 1..<NENV]")
  case (Some x)
  then have n: "sched_next s = x"
    by (simp add: sched_next_def sched_order_current find_append)
  from find_upt_first [OF Some] have x: "current s + 1 \<le> x" "x < NENV"
    "\<And>y. current s + 1 \<le> y \<Longrightarrow> y < x \<Longrightarrow> \<not> runnable s y" by auto
  show ?thesis
  proof (cases "current s < e")
    case True
    then have "x \<le> e" using x(3) [of e] e(3) by (cases "e < x") auto
    then show ?thesis using n x(1) True by (auto simp: cyc_dist_def)
  next
    case False
    then show ?thesis using n x(1,2) by (auto simp: cyc_dist_def)
  qed
next
  case None
  then have "\<not> (current s + 1 \<le> e \<and> e < NENV)" using e(3) find_upt_None [of "runnable s"] by blast
  then have le: "e \<le> current s" using e(2) by auto
  show ?thesis
  proof (cases "find (runnable s) [1..<current s + 1]")
    case (Some x)
    then have n: "sched_next s = x"
      using None by (simp add: sched_next_def sched_order_current find_append)
    from find_upt_first [OF Some] have x: "1 \<le> x" "\<And>y. 1 \<le> y \<Longrightarrow> y < x \<Longrightarrow> \<not> runnable s y" by auto
    then have "x \<le> e" using e by (meson not_le)
    then show ?thesis using n x(1) le c e by (auto simp: cyc_dist_def)
  next
    case n: None
    then have "\<not> (1 \<le> e \<and> e < current s + 1)" using e(3) find_upt_None [of "runnable s"] by blast
    then show ?thesis using e le by simp
  qed
qed

section \<open>Repeated switches\<close>

fun yields :: "nat \<Rightarrow> kstate \<Rightarrow> kstate" where
  "yields 0 s = s"
| "yields (Suc n) s = yields n (sched_yield s)"

lemma env_run_status: "env_status (envs (env_run s e) i) = env_status (envs s i)"
  by (simp add: env_run_def Let_def envs_upd_env split: option.split)

lemma env_run_current: "current (env_run s e) = e" "curenv (env_run s e) = Some e"
  by (simp_all add: env_run_def Let_def current_def upd_env_def)

lemma sched_yield_runnable: "runnable (sched_yield s) i = runnable s i"
  by (simp add: runnable_def sched_yield_order env_run_status)

lemma sched_fair:
  assumes "current s < NENV" "1 \<le> e" "e < NENV" "runnable s e"
  shows "\<exists>n. 1 \<le> n \<and> n \<le> cyc_dist (current s) e \<and> curenv (yields n s) = Some e"
  using assms
proof (induction "cyc_dist (current s) e" arbitrary: s rule: less_induct)
  case less
  let ?s = "sched_yield s"
  have cu: "current ?s = sched_next s" "curenv ?s = Some (sched_next s)"
    by (simp_all add: sched_yield_order env_run_current)
  have pos: "1 \<le> cyc_dist (current s) e" using less.prems by (auto simp: cyc_dist_def NENV_def)
  show ?case
  proof (cases "sched_next s = e")
    case True
    then show ?thesis using cu(2) pos by (auto intro!: exI [of _ 1])
  next
    case False
    then have d: "cyc_dist (current ?s) e < cyc_dist (current s) e"
      using sched_next_closer [OF less.prems] cu by simp
    have "sched_next s < NENV"
    proof (rule sched_next_cases(1))
      show "c < NENV" if "curenv s = Some c" for c
        using less.prems(1) that by (simp add: current_def)
    qed
    then have "current ?s < NENV" using cu by simp
    from less.hyps [OF d this less.prems(2,3)] less.prems(4)
    obtain n where "1 \<le> n" "n \<le> cyc_dist (current ?s) e" "curenv (yields n ?s) = Some e"
      by (auto simp: sched_yield_runnable)
    then show ?thesis using d by (intro exI [of _ "Suc n"]) simp
  qed
qed

lemma cyc_dist_bound: "c < NENV \<Longrightarrow> e < NENV \<Longrightarrow> cyc_dist c e < NENV"
  by (auto simp: cyc_dist_def)

end
