(* ===== verification/Demo.thy ===== *)
theory Demo
  imports Kernel_Inv Sched
begin

text \<open>
  Concrete states: a machine with sixteen pages after \<open>env_init\<close>, and the same machine
  running one environment with a page mapped. The conditional properties of the
  development are applied to them.
\<close>

unbundle bit_operations_syntax

definition demo_boot :: kstate where
  "demo_boot =
     \<lparr>npage = 16, phys = (\<lambda>_ _. 0), pp_ref = (\<lambda>_. 0),
      page_free_list = fold (\<lambda>p q. LIST_INSERT_HEAD q p) (rev [2..<15]) (LIST_INIT nil_queue),
      boot_pgdir = 15, envs = (\<lambda>_. zero_env), env_free_list = nil_queue, curenv = None,
      next_env_id = 0, cr3 = page2pa 15, utf = zero_tf, page_fault_mode = PFM_NONE, invlpgs = [],
      cons = \<lparr>cbuf = (\<lambda>_. 0), rpos = 0, wpos = 0\<rparr>, kbd_shift = 0, color = 0x700, klog = []\<rparr>"


definition demo_envs :: kstate where
  "demo_envs = env_init demo_boot"

lemma demo_boot_inv: "vm_inv demo_boot {15} [2..<15] no_pending"
proof -
  have p: "ptslots (phys demo_boot) {15} = {}" and l: "leafslots (phys demo_boot) {15} = {}"
    by (auto simp: ptslots_def leafslots_def demo_boot_def)
  have "list_repr (page_free_list demo_boot) [2..<15]"
    using qm.insert_all [OF qm.initial, of "rev [2..<15]" nil_queue]
    by (simp add: demo_boot_def)
  then show ?thesis
    by (simp add: vm_inv_def vm_struct_def vm_count_def free_ok_def p l refs_def no_pending_def)
      (simp add: demo_boot_def)
qed

lemma demo_envs_inv: "kinv_at demo_envs [2..<15] [0..<NENV]"
  unfolding demo_envs_def
proof (rule env_init_ok)
  show "vm_inv demo_boot {boot_pgdir demo_boot} [2..<15] no_pending"
    using demo_boot_inv by (simp add: demo_boot_def)
qed (simp_all add: demo_boot_def no_user_slots_def zero_env_def layout)


text \<open>The first environment, running.\<close>

definition demo_alloc :: kstate where
  "demo_alloc = snd (the (env_alloc demo_envs 0))"

definition demo_run :: kstate where
  "demo_run = env_run demo_alloc 0"

lemma demo_alloc_ok:
  "env_alloc demo_envs 0 = Some (Inr 0, demo_alloc)" "kinv_at demo_alloc [3..<15] [1..<NENV]"
  "env_created demo_envs 0 0 demo_alloc" "env_pgdir (envs demo_alloc 0) = Some 2"
proof -
  have l1: "[2..<15] = 2 # [3..<15]" using upt_conv_Cons [of 2 15] by simp
  have l2: "[0..<NENV] = 0 # [1..<NENV]"
    using upt_conv_Cons [of 0 NENV] by (simp only: NENV_def One_nat_def)
  note l = l1 l2
  have "kinv_at demo_envs (2 # [3..<15]) (0 # [1..<NENV])" using demo_envs_inv by (simp only: l)
  from env_alloc_created [OF this, of 0]
  show "env_alloc demo_envs 0 = Some (Inr 0, demo_alloc)" "kinv_at demo_alloc [3..<15] [1..<NENV]"
    "env_created demo_envs 0 0 demo_alloc" "env_pgdir (envs demo_alloc 0) = Some 2" by (auto simp: demo_alloc_def)
qed

lemma demo_run_ok:
  "kinv_at demo_run [3..<15] [1..<NENV]" "running demo_run" "curenv demo_run = Some 0" "live demo_run 0"
  "env_pgdir (envs demo_run 0) = Some 2"
proof -
  show "kinv_at demo_run [3..<15] [1..<NENV]"
    unfolding demo_run_def by (rule env_run_inv [OF demo_alloc_ok(2)]) (simp add: NENV_def)
  have l: "live demo_alloc 0" using demo_alloc_ok(3) by (simp add: env_created_def)
  show c: "curenv demo_run = Some 0" by (simp add: demo_run_def env_run_current)
  have p: "env_pgdir (envs demo_run i) = env_pgdir (envs demo_alloc i)"
      "env_cr3 (envs demo_run i) = env_cr3 (envs demo_alloc i)" for i
    by (simp_all add: demo_run_def env_run_def Let_def envs_upd_env split: option.split)
  then show l': "live demo_run 0" using l by (simp add: live_def)
  show "env_pgdir (envs demo_run 0) = Some 2" using demo_alloc_ok(4) by (simp add: p)
  have "cr3 demo_run = env_cr3 (envs demo_run 0)"
    unfolding p by (simp add: demo_run_def env_run_def Let_def upd_env_def split: option.split)
  then show "running demo_run" using c l' by (simp add: running_def)
qed


lemma demo_run_dirs: "dirs demo_run = {15, 2}" "pgdirs demo_run = {2}" "boot_pgdir demo_run = 15"
proof -
  have b: "boot_pgdir demo_envs = 15"
    using env_init_boot(1) [of demo_boot] by (simp add: demo_envs_def demo_boot_def)
  show b': "boot_pgdir demo_run = 15"
    using demo_alloc_ok(3) b
    by (simp add: env_created_def demo_run_def env_run_def Let_def upd_env_def split: option.split)
  have pg: "env_pgdir (envs demo_run e) = None" if "e < NENV" "e \<noteq> 0" for e
    using demo_run_ok(1) that by (auto simp: kinv_at_def envs_ok_def)
  show "pgdirs demo_run = {2}"
  proof (rule set_eqI)
    fix x
    show "x \<in> pgdirs demo_run \<longleftrightarrow> x \<in> {2}"
      using pg demo_run_ok(5) unfolding pgdirs_def mem_Collect_eq singleton_iff
      by (metis NENV_def option.distinct(1) option.inject zero_less_numeral)
  qed
  then show "dirs demo_run = {15, 2}" by (simp add: dirs_def b')
qed

lemma demo_run_pages: "npage demo_run = 16" "pp_ref demo_run = (\<lambda>_. 0)"
proof -
  have "npage demo_envs = 16" "pp_ref demo_envs = (\<lambda>_. 0)"
    using env_init_boot [of demo_boot] by (simp_all add: demo_envs_def demo_boot_def)
  then show "npage demo_run = 16" "pp_ref demo_run = (\<lambda>_. 0)"
    using demo_alloc_ok(3)
    by (simp_all add: env_created_def demo_run_def env_run_def Let_def upd_env_def split: option.split)
qed

text \<open>Its address space is empty: no page table is in use.\<close>

lemma demo_run_empty: "ptslots (phys demo_run) (dirs demo_run) = {}"
proof -
  have ph: "phys demo_run = phys demo_alloc"
    by (simp add: demo_run_def env_run_def Let_def split: option.split)
  have "no_user_slots (phys demo_alloc) 2" using demo_alloc_ok(3,4) by (simp add: env_created_def)
  moreover have "no_user_slots (phys demo_run) 15"
    using demo_run_ok(1) demo_run_dirs(3) by (simp add: kinv_at_def envs_ok_def)
  ultimately show ?thesis
    by (auto simp: ph demo_run_dirs(1) ptslots_def no_user_slots_def)
qed

text \<open>The same machine with an empty page table for the addresses from \<open>0x800000\<close>.\<close>

definition demo_table :: kstate where
  "demo_table = snd (the (pgdir_walk demo_run 2 0x800000 True))"

lemma demo_table_ok:
  "kinv_at demo_table [4..<15] [1..<NENV]" "mem_only demo_run demo_table"
  "phys demo_table = put_table (phys demo_run) 3 2 2 (PDE 3)"
  "pp_ref demo_table = (pp_ref demo_run)(3 := 1)"
  "ptslots (phys demo_table) {15, 2} = {(2, 2)}" "pt_at (phys demo_table) (2, 2) = 3"
proof -
  have px: "pdx 0x800000 = 2" by (simp add: pdx_div)
  have va: "(0x800000 :: u32) < UTOP" by (simp add: layout)
  have l: "[3..<15] = 3 # [4..<15]" using upt_conv_Cons [of 3 15] by simp
  have iv: "vm_inv demo_run {15, 2} (3 # [4..<15]) no_pending"
    using demo_run_ok(1) by (simp only: kinv_at_def demo_run_dirs l)
  have np: "\<not> present (phys demo_run 2 (pdx 0x800000))"
    using demo_run_empty ptslots_iff [of 2 2 "phys demo_run" "{15, 2}"]
    by (simp add: px demo_run_dirs(1) user_slots_value)
  have two: "(2 :: nat) \<in> {15, 2}" by simp
  from pgdir_walk_create [OF iv two va np]
  show mo: "mem_only demo_run demo_table"
    and ph: "phys demo_table = put_table (phys demo_run) 3 2 2 (PDE 3)"
    and "pp_ref demo_table = (pp_ref demo_run)(3 := 1)"
    by (auto simp: demo_table_def px)
  from pgdir_walk_create [OF iv two va np] have iv': "vm_inv demo_table (dirs demo_run) [4..<15] no_pending"
    by (auto simp: demo_table_def demo_run_dirs)
  have b: "no_user_slots (phys demo_run) 15"
    using demo_run_ok(1) demo_run_dirs(3) by (simp add: kinv_at_def envs_ok_def)
  have "no_user_slots (phys demo_table) (boot_pgdir demo_run)"
    using b by (simp add: ph demo_run_dirs(3) put_table_def put_word_def no_user_slots_def)
  then show "kinv_at demo_table [4..<15] [1..<NENV]"
    by (rule kinv_at_mem_only [OF demo_run_ok(1) mo iv'])
  have st: "vm_struct (phys demo_run) (npage demo_run) {15, 2}" using iv by (simp add: vm_inv_def)
  have e: "ptslots (phys demo_run) {15, 2} = {}" using demo_run_empty by (simp add: demo_run_dirs)
  note sl = put_table_slots [OF st two _ np, of 3, unfolded px]
  show "ptslots (phys demo_table) {15, 2} = {(2, 2)}" "pt_at (phys demo_table) (2, 2) = 3"
    unfolding ph using put_table_slots(1,3) [OF st two, of 2 3 "PDE 3"] np e
    by (simp_all add: px user_slots_value PDE_entry)
qed

end
