(* ===== verification/Fault_Frame.thy ===== *)
theory Fault_Frame
  imports Kernel_Inv
begin

text \<open>
  The exception frame that \<open>page_fault_handler\<close> writes: aligned word stores through the
  page tables, and the ten words that the user's handler finds on its exception stack.
\<close>

unbundle bit_operations_syntax

section \<open>Aligned words\<close>

lemma ptx_div: "ptx va = unat va div 2 ^ 12 mod 2 ^ 10"
proof -
  have "ptx va = take_bit 10 (drop_bit 12 (unat va))"
    by (simp only: ptx_def PTX_def mask10 unsigned_take_bit_eq unat_drop_bit_eq flip: take_bit_eq_mask)
  then show ?thesis by (simp add: drop_bit_eq_div take_bit_eq_mod)
qed

lemma PGOFF_mod: "unat (PGOFF va) = unat va mod 2 ^ 12"
proof -
  have "unat (PGOFF va) = take_bit 12 (unat va)"
    by (simp only: PGOFF_def mask12 unsigned_take_bit_eq flip: take_bit_eq_mask)
  then show ?thesis by (simp add: take_bit_eq_mod)
qed

definition aligned4 :: "u32 \<Rightarrow> bool" where
  "aligned4 va \<longleftrightarrow> unat va mod 4 = 0"

lemma aligned4_byte:
  assumes "aligned4 va" "i < 4"
  shows "unat (va + of_nat i) = unat va + i" "pdx (va + of_nat i) = pdx va" "ptx (va + of_nat i) = ptx va"
    "unat (PGOFF (va + of_nat i)) div 4 = unat (PGOFF va) div 4" "unat (PGOFF (va + of_nat i)) mod 4 = i"
proof -
  have b: "unat va < 2 ^ 32" using unsigned_less [of va, where ?'a = nat] by simp
  obtain q where q: "unat va = 4 * q" using assms(1) by (auto simp: aligned4_def)
  have "unat va < 4294967296" using b by simp
  then have "4 * q + i < 4294967296" using q assms(2) by presburger
  then have "unat va + i < 2 ^ 32" using q by simp
  then show u: "unat (va + of_nat i) = unat va + i"
    using assms(2) by (simp add: unat_word_ariths word_nat)
  show "pdx (va + of_nat i) = pdx va" using assms(2) by (simp add: pdx_div u q)
  have "(4 * q + i) div 4096 = (4 * q + i) div 4 div 1024" using div_mult2_eq [of "4 * q + i" 4 1024] by simp
  then have d: "(4 * q + i) div 4096 = q div 1024" using assms(2) by simp
  show "ptx (va + of_nat i) = ptx va" by (simp add: ptx_div u q d)
  have "(4 * q + i) mod (4 * 1024) = 4 * ((4 * q + i) div 4 mod 1024) + (4 * q + i) mod 4"
    by (rule mod_mult2_eq)
  then have o: "(4 * q + i) mod 4096 = 4 * (q mod 1024) + i" using assms(2) by simp
  have z: "4 * q mod 4096 = 4 * (q mod 1024)" by (simp add: mod_mult2_eq [of "4 * q" 4 1024, simplified])
  show "unat (PGOFF (va + of_nat i)) div 4 = unat (PGOFF va) div 4"
    "unat (PGOFF (va + of_nat i)) mod 4 = i"
    using assms(2) by (simp_all add: PGOFF_mod u q o z)
qed

lemma store_entry_byte:
  "aligned4 va \<Longrightarrow> i < 4 \<Longrightarrow> store_entry s (va + of_nat i) = store_entry s va"
  unfolding store_entry_def vm_lookup_def by (simp only: aligned4_byte(2,3))

lemma put_bytes_word:
  "put_byte (put_byte (put_byte (put_byte u 0 (get_byte w 0)) (Suc 0) (get_byte w (Suc 0)))
      2 (get_byte w 2)) 3 (get_byte w 3) = w"
proof -
  have m: "(0xFF :: u32) = mask 8" by (simp add: mask_eq_exp_minus_1)
  show ?thesis
  proof (rule bit_word_eqI)
    fix n :: nat
    assume "n < LENGTH(32)"
    then have "n < 32" by simp
    then consider "n < 8" | "8 \<le> n \<and> n < 16" | "16 \<le> n \<and> n < 24" | "24 \<le> n \<and> n < 32" by linarith
    then show "bit (put_byte (put_byte (put_byte (put_byte u 0 (get_byte w 0)) (Suc 0) (get_byte w (Suc 0)))
        2 (get_byte w 2)) 3 (get_byte w 3)) n = bit w n"
      by cases (auto simp: put_byte_def get_byte_def m bit_simps)
  qed
qed

lemma store32_aligned:
  assumes a: "aligned4 va" and e: "store_entry s va = Some w"
  shows "store32 s va x = Inr (set_phys s (frame_of w) (unat (PGOFF va) div 4) x)"
proof -
  have u: "[0..<4] = [0, Suc 0, 2, 3]" by (simp add: upt_rec)
  have se: "store_entry s (va + of_nat i) = Some w" if "i < 4" for i
    using store_entry_byte [OF a that] e by simp
  have pb: "put_byte_at t w (va + of_nat i) b
      = set_phys t (frame_of w) (unat (PGOFF va) div 4)
          (put_byte (phys t (frame_of w) (unat (PGOFF va) div 4)) i b)" if "i < 4" for t i b
    using aligned4_byte(4,5) [OF a that] by (simp only: put_byte_at_def Let_def)
  have n: "find (\<lambda>i. store_entry s (va + of_nat i) = None) [0..<4] = None"
    using se by (simp add: find_None_iff)
  have "fold (\<lambda>i t. put_byte_at t (the (store_entry s (va + of_nat i))) (va + of_nat i) (get_byte x i)) [0..<4] s
      = fold (\<lambda>i t. set_phys t (frame_of w) (unat (PGOFF va) div 4)
          (put_byte (phys t (frame_of w) (unat (PGOFF va) div 4)) i (get_byte x i))) [0..<4] s"
    by (rule fold_cong) (simp_all only: se pb option.sel set_upt atLeastLessThan_iff simp_thms)
  also have "\<dots> = set_phys s (frame_of w) (unat (PGOFF va) div 4) x"
    unfolding u by (simp add: set_phys_def put_bytes_word)
  finally show ?thesis by (simp only: store32_def n option.case)
qed


section \<open>The frame\<close>

text \<open>A store through an entry of the current address space leaves the entry in place.\<close>

lemma store_entry_same:
  assumes k: "kinv_at s fl efl" and r: "running s" and va: "va < UTOP" "va' < UTOP"
    and e: "store_entry s va = Some w" and e': "store_entry s va' = Some w'"
  shows "store_entry (set_phys s (frame_of w) j x) va' = Some w'"
    "kinv_at (set_phys s (frame_of w) j x) fl efl" "running (set_phys s (frame_of w) j x)"
proof -
  obtain d where d: "d \<in> dirs s" "frame_of (cr3 s) = d" using running_dir [OF k r] by metis
  have dp: "data_page s (dirs s) fl (frame_of w)" by (rule store_entry_data [OF k r va(1) e])
  let ?m = "put_word (phys s) (frame_of w) j x"
  have q: "\<And>q. q \<noteq> frame_of w \<Longrightarrow> ?m q = phys s q" by (simp add: put_word_def)
  have eq: "set_phys s (frame_of w) j x = s\<lparr>phys := ?m\<rparr>" by (simp add: set_phys_def put_word_def)
  show "kinv_at (set_phys s (frame_of w) j x) fl efl" unfolding eq by (rule kinv_write(1) [OF k dp q])
  show "running (set_phys s (frame_of w) j x)"
    by (rule running_mem_only [OF r]) simp
  have "frame_of w \<noteq> d" using dp d(1) by (auto simp: data_page_def)
  then have "?m d = phys s d" by (simp add: put_word_def)
  moreover have "vm_lookup ?m d va' = vm_lookup (phys s) d va'" by (rule kinv_write(2) [OF k dp q d(1) va(2)])
  ultimately show "store_entry (set_phys s (frame_of w) j x) va' = Some w'"
    using e' d(2) by (simp add: store_entry_def cong: option.case_cong if_cong)
qed

text \<open>A list of aligned stores through one entry is a list of word updates of one page.\<close>

definition set_words :: "kstate \<Rightarrow> nat \<Rightarrow> (u32 \<times> u32) list \<Rightarrow> kstate" where
  "set_words s t ws = fold (\<lambda>(va, x) u. set_phys u t (unat (PGOFF va) div 4) x) ws s"

lemma store_words_aligned:
  assumes "kinv_at s fl efl" "running s"
    "\<forall>(va, x) \<in> set ws. aligned4 va \<and> va < UTOP \<and> store_entry s va = Some w"
  shows "store_words s ws = Inr (set_words s (frame_of w) ws)"
  using assms
proof (induction ws arbitrary: s)
  case Nil
  then show ?case by (simp add: set_words_def)
next
  case (Cons vx ws)
  obtain va x where vx: "vx = (va, x)" by (cases vx)
  have a: "aligned4 va" "va < UTOP" "store_entry s va = Some w" using Cons.prems(3) vx by auto
  let ?s = "set_phys s (frame_of w) (unat (PGOFF va) div 4) x"
  have "\<forall>(va, x) \<in> set ws. aligned4 va \<and> va < UTOP \<and> store_entry ?s va = Some w"
  proof clarify
    fix va' x' assume "(va', x') \<in> set ws"
    then have "aligned4 va'" "va' < UTOP" "store_entry s va' = Some w" using Cons.prems(3) by auto
    then show "aligned4 va' \<and> va' < UTOP \<and> store_entry ?s va' = Some w"
      using store_entry_same(1) [OF Cons.prems(1,2) a(2) _ a(3)] by simp
  qed
  from Cons.IH [OF store_entry_same(2,3) [OF Cons.prems(1,2) a(2,2,3,3)] this]
  show ?case by (simp add: vx store32_aligned [OF a(1,3)] set_words_def)
qed


text \<open>The ten words lie in one page when \<open>tos\<close> is aligned and at least 36 bytes into it.\<close>

lemma tos_word:
  assumes a: "aligned4 tos" and o: "36 \<le> unat (PGOFF tos)" and k: "k < 10"
  shows "unat (tos - of_nat (4 * k)) = unat tos - 4 * k" "aligned4 (tos - of_nat (4 * k))"
    "unat (PGOFF (tos - of_nat (4 * k))) div 4 = unat (PGOFF tos) div 4 - k"
    "store_entry s (tos - of_nat (4 * k)) = store_entry s tos"
    "tos < UTOP \<Longrightarrow> tos - of_nat (4 * k) < UTOP"
proof -
  have m: "36 \<le> unat tos mod 4096" using o by (simp add: PGOFF_mod)
  obtain p where p: "unat tos = 4096 * p + unat tos mod 4096" by (metis mult_div_mod_eq)
  obtain r where r: "unat tos mod 4096 = 4 * r"
  proof -
    have "unat tos mod 4096 mod 4 = unat tos mod 4" by (simp add: mod_mod_cancel)
    then show thesis using that a by (auto simp: aligned4_def)
  qed
  have rr: "9 \<le> r" "r < 1024" using m r mod_less_divisor [of 4096 "unat tos"] by linarith+
  have t: "unat tos = 4096 * p + 4 * r" using p r by simp
  have n: "unat (of_nat (4 * k) :: u32) = 4 * k" by (rule unat_of_nat_u32) (use k in simp)
  have "4 * k \<le> unat tos" using t rr k by linarith
  then have le: "of_nat (4 * k) \<le> tos" unfolding word_le_nat_alt n .
  show u: "unat (tos - of_nat (4 * k)) = unat tos - 4 * k" by (simp only: unat_sub [OF le] n)
  have u': "unat (tos - of_nat (4 * k)) = 4096 * p + 4 * (r - k)" using u t rr k by simp
  show "aligned4 (tos - of_nat (4 * k))" 
  proof -
    have "4096 * p + 4 * (r - k) = 4 * (1024 * p + (r - k))" by simp
    then show ?thesis unfolding aligned4_def u' by (simp only: mod_mult_self1_is_0)
  qed
  have "unat (PGOFF (tos - of_nat (4 * k))) = 4 * (r - k)"
    unfolding PGOFF_mod u' using rr by simp
  moreover have "unat (PGOFF tos) = 4 * r" using r by (simp add: PGOFF_mod)
  ultimately show "unat (PGOFF (tos - of_nat (4 * k))) div 4 = unat (PGOFF tos) div 4 - k" by simp
  have d: "unat (tos - of_nat (4 * k)) div 4096 = p" "unat tos div 4096 = p" unfolding u' t using rr by simp_all
  have "x div 2 ^ 22 = x div 4096 div 1024" "x div 2 ^ 12 mod 2 ^ 10 = x div 4096 mod 1024" for x :: nat
    using div_mult2_eq [of x 4096 1024] by simp_all
  then have "pdx (tos - of_nat (4 * k)) = pdx tos" "ptx (tos - of_nat (4 * k)) = ptx tos"
    by (simp_all only: pdx_div ptx_div d)
  then show "store_entry s (tos - of_nat (4 * k)) = store_entry s tos"
    unfolding store_entry_def vm_lookup_def by (simp only:)
  show "tos < UTOP \<Longrightarrow> tos - of_nat (4 * k) < UTOP" unfolding word_less_nat_alt u by simp
qed

text \<open>The words of the frame, from \<open>tos[0]\<close> down.\<close>

definition frame_words :: "trapframe \<Rightarrow> u32 \<Rightarrow> u32 list" where
  "frame_words tf va = [0, 0, 0, 0, 0, tf_eip tf, tf_eflags tf, tf_esp tf, tf_err tf, va]"

lemma exception_frame_map:
  "exception_frame tos tf va = map (\<lambda>k. (tos - of_nat (4 * k), frame_words tf va ! k)) [0..<10]"
  by (simp add: exception_frame_def frame_words_def upt_rec numeral_nat)

lemma set_words_phys:
  assumes "\<And>k. k < n \<Longrightarrow> unat (PGOFF (f k)) div 4 = m - k" "n \<le> Suc m"
  shows "phys (set_words s t (map (\<lambda>k. (f k, g k)) [0..<n]))
    = (phys s)(t := (\<lambda>j. if m < j + n \<and> j \<le> m then g (m - j) else phys s t j))"
  using assms
proof (induction n)
  case 0
  then show ?case by (auto simp: set_words_def fun_eq_iff)
next
  case (Suc n)
  have "set_words s t (map (\<lambda>k. (f k, g k)) [0..<Suc n])
      = set_phys (set_words s t (map (\<lambda>k. (f k, g k)) [0..<n])) t (unat (PGOFF (f n)) div 4) (g n)"
    by (simp add: set_words_def)
  then show ?case using Suc by (auto simp: put_word_def fun_eq_iff)
qed

lemma set_words_phys_only: "phys_only s (set_words s t ws)"
proof (induction ws arbitrary: s)
  case Nil
  then show ?case by (simp add: set_words_def)
next
  case (Cons a ws)
  have "phys_only s (set_phys s t j x)" for j x by (simp add: phys_only_def set_phys_def)
  then show ?case using phys_only_trans Cons by (fastforce simp: set_words_def split: prod.split)
qed

lemma page_fault_frame:
  assumes k: "kinv_at s fl efl" and r: "running s" and c: "curenv s = Some c"
    and u: "tf_cs tf AND 1 \<noteq> 0" and h: "env_pgfault_handler (envs s c) \<noteq> 0"
    and a: "aligned4 (exception_tos (envs s c) tf)" and o: "36 \<le> unat (PGOFF (exception_tos (envs s c) tf))"
    and t: "exception_tos (envs s c) tf < UTOP"
    and w: "store_entry s (exception_tos (envs s c) tf) = Some w"
  defines "tos \<equiv> exception_tos (envs s c) tf"
  defines "m \<equiv> unat (PGOFF tos) div 4"
  shows "\<exists>s'. page_fault_handler s tf va kip = Some (Sched s') \<and> curenv s' = Some c
      \<and> env_tf (envs s' c) = tf\<lparr>tf_eip := env_pgfault_handler (envs s c), tf_esp := tos - 36\<rparr>
      \<and> (\<forall>k < 10. phys s' (frame_of w) (m - k) = frame_words tf va ! k)
      \<and> (\<forall>q. q \<noteq> frame_of w \<longrightarrow> phys s' q = phys s q)"
proof -
  let ?ws = "exception_frame tos tf va"
  note tw = tos_word [OF a o, folded tos_def]
  have all: "\<forall>(a, x) \<in> set ?ws. aligned4 a \<and> a < UTOP \<and> store_entry s a = Some w"
    unfolding exception_frame_map using tw(2,4,5) t w by (auto simp: tos_def [symmetric])
  let ?s1 = "set_words s (frame_of w) ?ws"
  have st: "store_words s ?ws = Inr ?s1" by (rule store_words_aligned [OF k r all])
  have m9: "9 \<le> m" using o by (simp add: m_def tos_def)
  have ph: "phys ?s1 = (phys s)(frame_of w := (\<lambda>j. if m < j + 10 \<and> j \<le> m
      then frame_words tf va ! (m - j) else phys s (frame_of w) j))"
    unfolding exception_frame_map
    by (rule set_words_phys) (use tw(3) m9 in \<open>simp_all add: m_def\<close>)
  have po: "phys_only s ?s1" by (rule set_words_phys_only)
  note f = phys_only_fields [OF po]
  let ?t = "tf\<lparr>tf_eip := env_pgfault_handler (envs ?s1 c), tf_esp := tos - 36\<rparr>"
  let ?s' = "env_run (?s1\<lparr>utf := ?t\<rparr>) c"
  have run: "page_fault_handler s tf va kip = Some (Sched ?s')"
    using c u h st by (simp add: page_fault_handler_def Let_def tos_def)
  have "env_tf (envs ?s' c) = ?t" "curenv ?s' = Some c" "phys ?s' = phys ?s1"
    using c f by (simp_all add: env_run_def Let_def envs_upd_env)
  then show ?thesis
    using run m9 f(1) by (intro exI [of _ ?s']) (auto simp: ph)
qed

end
