(* ===== verification/Console_Props.thy ===== *)
theory Console_Props
  imports Kernel_Props
begin

text \<open>
  The console input as a queue: over any sequence of stores by the interrupt handler and
  reads by \<open>cons_getc\<close> the ring behaves as the list of the characters not read yet, until
  the 512th unread character, which empties it.
\<close>

section \<open>Sequences of stores and reads\<close>

datatype cons_op = Store u8 | Read

text \<open>What the reads of a sequence return on the ring.\<close>

fun cons_run :: "consbuf \<Rightarrow> cons_op list \<Rightarrow> u32 list" where
  "cons_run c [] = []"
| "cons_run c (Store ch # ops) = cons_run (cons_put c ch) ops"
| "cons_run c (Read # ops) = fst (cons_getc c) # cons_run (snd (cons_getc c)) ops"

text \<open>The same on a queue, with 0 for an empty one.\<close>

fun fifo_run :: "u8 list \<Rightarrow> cons_op list \<Rightarrow> u32 list" where
  "fifo_run q [] = []"
| "fifo_run q (Store ch # ops) = fifo_run (q @ [ch]) ops"
| "fifo_run [] (Read # ops) = 0 # fifo_run [] ops"
| "fifo_run (ch # q) (Read # ops) = ucast ch # fifo_run q ops"

text \<open>The queue never holds more than 511 characters along the sequence.\<close>

fun fifo_fits :: "u8 list \<Rightarrow> cons_op list \<Rightarrow> bool" where
  "fifo_fits q [] = True"
| "fifo_fits q (Store ch # ops) \<longleftrightarrow> length q < BY2CONS - 1 \<and> fifo_fits (q @ [ch]) ops"
| "fifo_fits q (Read # ops) = fifo_fits (tl q) ops"

lemma cons_run_fifo:
  "cons_wf c \<Longrightarrow> cons_list c = q \<Longrightarrow> fifo_fits q ops \<Longrightarrow> cons_run c ops = fifo_run q ops"
proof (induction q ops arbitrary: c rule: fifo_run.induct)
  case (2 q ch ops)
  then have "cons_size c < BY2CONS - 1" by (auto simp: cons_list_def)
  with 2 show ?case by (simp add: cons_put_wf cons_list_put)
next
  case (3 ops)
  then show ?case using cons_getc_empty [of c] by simp
next
  case (4 ch q ops)
  then show ?case using cons_getc_list [of c ch q] by (simp add: cons_getc_wf)
qed simp

definition cons_empty :: consbuf where
  "cons_empty = \<lparr>cbuf = (\<lambda>_. 0), rpos = 0, wpos = 0\<rparr>"

lemma cons_empty_ok: "cons_wf cons_empty" "cons_list cons_empty = []"
  by (simp_all add: cons_empty_def cons_wf_def cons_list_def cons_size_def BY2CONS_def)

section \<open>Properties\<close>

text \<open>
  C13. The console ring refines a queue: for every sequence of stores and reads along which
  at most 511 characters are unread, the reads return what a queue returns, and 0 when it
  is empty.
\<close>

theorem console_refines_fifo:
  assumes "cons_wf c" "fifo_fits (cons_list c) ops"
  shows "cons_run c ops = fifo_run (cons_list c) ops"
  by (rule cons_run_fifo [OF assms(1) refl assms(2)])

theorem console_refines_fifo_witness:
  "cons_run cons_empty [Store 65, Read, Store 66, Store 67, Read, Read, Read] = [65, 66, 67, 0]"
proof -
  let ?ops = "[Store 65, Read, Store 66, Store 67, Read, Read, Read]"
  have "fifo_fits (cons_list cons_empty) ?ops" by (simp add: cons_empty_ok BY2CONS_def)
  from console_refines_fifo [OF cons_empty_ok(1) this]
  have "cons_run cons_empty ?ops = fifo_run [] ?ops" by (simp only: cons_empty_ok(2))
  also have "\<dots> = [65, 66, 67, 0]" by simp
  finally show ?thesis .
qed

text \<open>
  A character that arrives while 511 characters are unread loses all 512: the write
  position meets the read position and the next read finds the ring empty.
\<close>

lemma console_overflow_loses_all:
  assumes "cons_wf c" "length (cons_list c) = BY2CONS - 1"
  shows "cons_list (cons_put c ch) = [] \<and> fst (cons_getc (cons_put c ch)) = 0"
proof -
  have "cons_size c = BY2CONS - 1" using assms(2) by (simp add: cons_list_def)
  from cons_list_put_full [OF assms(1) this] show ?thesis
    using cons_getc_empty [OF cons_put_wf [OF assms(1)]] by simp
qed

end
