(* ===== verification/Ustring.thy ===== *)
theory Ustring
  imports Bytes "HOL-Library.List_Lexorder"
begin

text \<open>
  The string routines of \<open>user/string.c\<close>. A routine that only reads takes its strings
  as functions from an offset to a byte; one that writes takes the memory as a function from
  addresses to bytes, so that overlapping arguments behave as in the code.

  The loops over strings stop at a terminator only: without one they run on, which is the
  value \<open>None\<close>.
\<close>

unbundle bit_operations_syntax

section \<open>Reading\<close>

partial_function (option) strlen_loop :: "nat \<Rightarrow> (nat \<Rightarrow> u8) \<Rightarrow> nat option" where
  "strlen_loop n s = (if s 0 \<noteq> 0 then strlen_loop (n + 1) (\<lambda>i. s (Suc i)) else Some n)"

definition strlen :: "(nat \<Rightarrow> u8) \<Rightarrow> nat option" where
  "strlen s = strlen_loop 0 s"

text \<open>\<open>strchr\<close> returns the offset of the first occurrence, if there is one.\<close>

partial_function (option) strchr_loop :: "nat \<Rightarrow> (nat \<Rightarrow> u8) \<Rightarrow> u8 \<Rightarrow> nat option option" where
  "strchr_loop n s c =
     (if s 0 \<noteq> 0 then if s 0 = c then Some (Some n) else strchr_loop (n + 1) (\<lambda>i. s (Suc i)) c
      else Some None)"

definition strchr :: "(nat \<Rightarrow> u8) \<Rightarrow> u8 \<Rightarrow> nat option option" where
  "strchr s c = strchr_loop 0 s c"

text \<open>A \<open>char\<close> is signed: the comparison is between the sign extended bytes.\<close>

partial_function (option) strcmp :: "(nat \<Rightarrow> u8) \<Rightarrow> (nat \<Rightarrow> u8) \<Rightarrow> int option" where
  "strcmp p q =
     (if p 0 \<noteq> 0 \<and> p 0 = q 0 then strcmp (\<lambda>i. p (Suc i)) (\<lambda>i. q (Suc i))
      else if (scast (p 0) :: u32) < scast (q 0) then Some (- 1)
      else if (scast (p 0) :: u32) > scast (q 0) then Some 1
      else Some 0)"

section \<open>Writing\<close>

partial_function (option) strcpy :: "(u32 \<Rightarrow> u8) \<Rightarrow> u32 \<Rightarrow> u32 \<Rightarrow> (u32 \<Rightarrow> u8) option" where
  "strcpy m dst src =
     (let m1 = m(dst := m src) in if m1 dst \<noteq> 0 then strcpy m1 (dst + 1) (src + 1) else Some m1)"

text \<open>The count is an \<open>int\<close>: a count of \<open>2 ^ 31\<close> or more does nothing.\<close>

definition loop_count :: "u32 \<Rightarrow> nat" where
  "loop_count n = nat (sint n)"

fun bzero_loop :: "nat \<Rightarrow> (u32 \<Rightarrow> u8) \<Rightarrow> u32 \<Rightarrow> u32 \<Rightarrow> u8" where
  "bzero_loop 0 m p = m"
| "bzero_loop (Suc k) m p = bzero_loop k (m(p := 0)) (p + 1)"

definition bzero :: "(u32 \<Rightarrow> u8) \<Rightarrow> u32 \<Rightarrow> u32 \<Rightarrow> u32 \<Rightarrow> u8" where
  "bzero m v n = bzero_loop (loop_count n) m v"

fun bcopy_loop :: "nat \<Rightarrow> (u32 \<Rightarrow> u8) \<Rightarrow> u32 \<Rightarrow> u32 \<Rightarrow> u32 \<Rightarrow> u8" where
  "bcopy_loop 0 m s d = m"
| "bcopy_loop (Suc k) m s d = bcopy_loop k (m(d := m s)) (s + 1) (d + 1)"

definition bcopy :: "(u32 \<Rightarrow> u8) \<Rightarrow> u32 \<Rightarrow> u32 \<Rightarrow> u32 \<Rightarrow> u32 \<Rightarrow> u8" where
  "bcopy m src dst n = bcopy_loop (loop_count n) m src dst"

section \<open>What the reading routines return\<close>

lemma strlen_loop_cstr: "cstr s xs \<Longrightarrow> strlen_loop n s = Some (n + length xs)"
  by (induction xs arbitrary: n s) (subst strlen_loop.simps; simp)+

lemma strlen_cstr: "cstr s xs \<Longrightarrow> strlen s = Some (length xs)"
  by (simp add: strlen_def strlen_loop_cstr)

lemma strchr_loop_cstr:
  "cstr s xs \<Longrightarrow> strchr_loop n s c =
     Some (if c \<in> set xs then Some (n + length (takeWhile (\<lambda>x. x \<noteq> c) xs)) else None)"
  by (induction xs arbitrary: n s) (subst strchr_loop.simps; simp)+

lemma strchr_cstr:
  "cstr s xs \<Longrightarrow> strchr s c =
     Some (if c \<in> set xs then Some (length (takeWhile (\<lambda>x. x \<noteq> c) xs)) else None)"
  by (simp add: strchr_def strchr_loop_cstr)

text \<open>Sign extension keeps the order of the bytes.\<close>

lemma byte_int:
  assumes "0 \<le> k" "k < 256"
  shows "signed_take_bit 7 k = (if k < 128 then k else k - (256 :: int))"
proof -
  have "k div 128 = (if k < 128 then 0 else 1)" using assms by presburger
  then have "bit k 7 \<longleftrightarrow> \<not> k < 128" by (simp add: bit_iff_odd)
  moreover have "take_bit 8 k = k" using assms by (simp add: take_bit_int_eq_self_iff)
  ultimately show ?thesis by (simp add: signed_take_bit_eq_take_bit_minus)
qed

lemma byte_mod:
  assumes "k < (256 :: nat)"
  shows "(if k < 128 then int k else int k - 256) mod 2 ^ 32 = int (if k < 128 then k else k + 4294967040)"
proof (cases "k < 128")
  case False
  then have "(int k - 256 + 2 ^ 32) mod 2 ^ 32 = int k - 256 + 2 ^ 32"
    using assms by (intro mod_pos_pos_trivial) auto
  then show ?thesis using False by (simp only: mod_add_self2 if_False) simp
qed simp

lemma unat_scast_u8: "unat (scast (x :: u8) :: u32) = (if unat x < 128 then unat x else unat x + 4294967040)"
proof -
  let ?k = "unat x"
  have k: "?k < 256" using unsigned_less [of x, where ?'a = nat] by simp
  have u: "uint x = int ?k" by (simp only: unat_eq_nat_uint) simp
  have "sint x = signed_take_bit 7 (int ?k)"
  proof -
    have l: "LENGTH(8) - Suc 0 = 7" by simp
    show ?thesis by (simp only: sint_uint l u)
  qed
  also have "\<dots> = (if ?k < 128 then int ?k else int ?k - 256)"
    using byte_int [of "int ?k"] k by (simp only: of_nat_0_le_iff of_nat_less_numeral_iff simp_thms)
  finally have "uint (scast x :: u32) = int (if ?k < 128 then ?k else ?k + 4294967040)"
  proof -
    assume e: "sint x = (if ?k < 128 then int ?k else int ?k - 256)"
    have l: "LENGTH(32) = 32" by simp
    show ?thesis by (simp only: scast_eq uint_word_of_int take_bit_eq_mod l e byte_mod [OF k])
  qed
  then show ?thesis by (simp only: unat_eq_nat_uint [of "scast x"] nat_int)
qed

lemma scast_u8_less: "(scast (a :: u8) :: u32) < scast b \<longleftrightarrow> a < b"
proof -
  have "unat a < 256" "unat b < 256"
    using unsigned_less [of a, where ?'a = nat] unsigned_less [of b, where ?'a = nat] by simp_all
  then show ?thesis by (simp add: word_less_nat_alt unat_scast_u8)
qed

lemma scast_u8_zero: "(scast (a :: u8) :: u32) < scast (0 :: u8) \<longleftrightarrow> False"
  "(scast (0 :: u8) :: u32) < scast a \<longleftrightarrow> a \<noteq> 0"
  by (simp_all only: scast_u8_less word_gt_0) simp_all

lemma strcmp_cstr:
  "cstr p xs \<Longrightarrow> cstr q ys \<Longrightarrow>
     strcmp p q = Some (if xs = ys then 0 else if xs < ys then - 1 else 1)"
proof (induction xs arbitrary: p q ys)
  case Nil
  then have "p 0 = 0" by simp
  with Nil show ?case
    by (subst strcmp.simps, cases ys) (simp_all only: scast_u8_zero cstr.simps, simp_all)
next
  case (Cons x xs)
  then have p: "p 0 = x" "x \<noteq> 0" by simp_all
  show ?case
  proof (cases ys)
    case Nil
    then have "q 0 = 0" using Cons.prems(2) by simp
    then show ?thesis using p Nil by (subst strcmp.simps) (simp only: scast_u8_zero, simp)
  next
    case (Cons y zs)
    then have q: "q 0 = y" using Cons.prems(2) by simp
    have "x = y \<Longrightarrow> strcmp p q = Some (if xs = zs then 0 else if xs < zs then - 1 else 1)"
      using Cons.IH [of "\<lambda>i. p (Suc i)" "\<lambda>i. q (Suc i)" zs] Cons.prems Cons p q
      by (subst strcmp.simps) simp
    moreover have "x \<noteq> y \<Longrightarrow> strcmp p q = Some (if x < y then - 1 else 1)"
      using p q by (subst strcmp.simps) (simp only: scast_u8_less, auto)
    ultimately show ?thesis using Cons by (cases "x = y") (auto simp: Cons_less_Cons)
  qed
qed

section \<open>What the writing routines do\<close>

text \<open>The addresses \<open>a, a + 1, \<dots>\<close> of a block of bytes.\<close>

lemma addr_distinct: "i < 2 ^ 32 \<Longrightarrow> j < 2 ^ 32 \<Longrightarrow> (a :: u32) + of_nat i = a + of_nat j \<longleftrightarrow> i = j"
  by (auto dest: arg_cong [where f = unat] simp: unat_of_nat_u32)

lemma addr_Suc: "(a :: u32) + of_nat (Suc i) = (a + 1) + of_nat i"
  by simp

lemma bzero_loop_eq:
  "k \<le> 2 ^ 32 \<Longrightarrow> bzero_loop k m p a = (if \<exists>i < k. a = p + of_nat i then 0 else m a)"
proof (induction k arbitrary: m p)
  case (Suc k)
  have e: "(\<exists>i < Suc k. a = p + of_nat i) \<longleftrightarrow> a = p \<or> (\<exists>i < k. a = (p + 1) + of_nat i)"
    unfolding Ex_less_Suc2 addr_Suc by simp
  define m1 where "m1 = m(p := 0)"
  have "bzero_loop (Suc k) m p a = bzero_loop k m1 (p + 1) a" by (simp add: m1_def)
  also have "\<dots> = (if \<exists>i < k. a = (p + 1) + of_nat i then 0 else m1 a)"
    by (rule Suc.IH) (use Suc.prems in simp)
  finally show ?case unfolding e by (auto simp: m1_def)
qed simp

text \<open>A copy is right if it never reads a byte that it has already written.\<close>

lemma bcopy_loop_eq:
  assumes "k \<le> 2 ^ 32" "\<And>i j. i < j \<Longrightarrow> j < k \<Longrightarrow> (d :: u32) + of_nat i \<noteq> s + of_nat j"
  shows "(\<forall>i < k. bcopy_loop k m s d (d + of_nat i) = m (s + of_nat i))
    \<and> (\<forall>a. (\<forall>i < k. a \<noteq> d + of_nat i) \<longrightarrow> bcopy_loop k m s d a = m a)"
  using assms
proof (induction k arbitrary: m s d)
  case (Suc k)
  define m1 where "m1 = m(d := m s)"
  have d: "d \<noteq> (s + 1) + of_nat j" if "j < k" for j
    using Suc.prems(2) [of 0 "Suc j"] that by (simp add: add.assoc)
  have r: "(d + 1) + of_nat i \<noteq> (s + 1) + of_nat j" if "i < j" "j < k" for i j
    using Suc.prems(2) [of "Suc i" "Suc j"] that by (simp add: add.assoc)
  have f: "d \<noteq> (d + 1) + of_nat i" if "i < k" for i
    using addr_distinct [of 0 "Suc i" d] that Suc.prems(1) by (simp add: add.assoc)
  have u: "bcopy_loop (Suc k) m s d = bcopy_loop k m1 (s + 1) (d + 1)" by (simp add: m1_def)
  have IH: "bcopy_loop k m1 (s + 1) (d + 1) ((d + 1) + of_nat i) = m1 ((s + 1) + of_nat i)" if "i < k" for i
    using Suc.IH [of "d + 1" "s + 1" m1] Suc.prems(1) r that by simp
  have IH2: "bcopy_loop k m1 (s + 1) (d + 1) a = m1 a" if "\<forall>i < k. a \<noteq> (d + 1) + of_nat i" for a
    using Suc.IH [of "d + 1" "s + 1" m1] Suc.prems(1) r that by simp
  have v: "m1 ((s + 1) + of_nat i) = m ((s + 1) + of_nat i)" if "i < k" for i
    using d [OF that] by (simp add: m1_def)
  show ?case unfolding All_less_Suc2 addr_Suc u
  proof (intro conjI allI impI)
    show "bcopy_loop k m1 (s + 1) (d + 1) (d + of_nat 0) = m (s + of_nat 0)"
      using IH2 [of d] f by (simp add: m1_def)
    show "bcopy_loop k m1 (s + 1) (d + 1) (d + 1 + of_nat i) = m (s + 1 + of_nat i)" if "i < k" for i
      using IH [OF that] v [OF that] by simp
    show "bcopy_loop k m1 (s + 1) (d + 1) a = m a"
      if "a \<noteq> d + of_nat 0 \<and> (\<forall>i < k. a \<noteq> d + 1 + of_nat i)" for a
      using IH2 [of a] that by (simp add: m1_def)
  qed
qed simp

lemma strcpy_eq:
  assumes "cstr (\<lambda>i. m (s + of_nat i)) xs"
    "\<And>i j. i \<le> length xs \<Longrightarrow> j \<le> length xs \<Longrightarrow> (d :: u32) + of_nat i \<noteq> s + of_nat j"
  shows "strcpy m d s = Some (bcopy_loop (Suc (length xs)) m s d)"
  using assms
proof (induction xs arbitrary: m s d)
  case Nil
  then show ?case by (subst strcpy.simps) (simp add: Let_def)
next
  case (Cons x xs)
  define m1 where "m1 = m(d := m s)"
  have "m1 ((s + 1) + of_nat j) = m ((s + 1) + of_nat j)" if "j \<le> length xs" for j
    using Cons.prems(2) [of 0 "Suc j"] that by (simp add: m1_def add.assoc)
  moreover have "cstr (\<lambda>i. m ((s + 1) + of_nat i)) xs"
    using Cons.prems(1) by (simp add: add.assoc)
  ultimately have c: "cstr (\<lambda>i. m1 ((s + 1) + of_nat i)) xs" unfolding cstr_nth by auto
  have "(d + 1) + of_nat i \<noteq> (s + 1) + of_nat j" if "i \<le> length xs" "j \<le> length xs" for i j
    using Cons.prems(2) [of "Suc i" "Suc j"] that by (simp add: add.assoc)
  from Cons.IH [OF c this]
  have "strcpy m1 (d + 1) (s + 1) = Some (bcopy_loop (Suc (length xs)) m1 (s + 1) (d + 1))" .
  moreover have "m1 d \<noteq> 0" using Cons.prems(1) by (simp add: m1_def)
  ultimately show ?case by (subst strcpy.simps) (simp add: m1_def [symmetric] Let_def)
qed

end
