(* ===== verification/Fs.thy ===== *)
theory Fs
  imports Mmu Ustring
begin

text \<open>
  The file system server, first part: the disk of \<open>fs/ide.c\<close>, the block cache and the
  block bitmap of \<open>fs/fs.c\<close>.

  Block \<open>n\<close> of the disk, when it is in memory, is the page at \<open>DISKMAP + n * BY2BLK\<close> of
  the server; \<open>read_super\<close> refuses a disk whose last block would lie beyond the end of the
  address space, so a block number stands for this address. Memory is read in words of 4
  bytes: a pointer into the cache is a block number and a word index. An access to a block
  that is not mapped is a page fault, which the server does not handle: it is the value
  \<open>None\<close>, as a panic is.

  The kernel's answers to \<open>sys_mem_alloc\<close> are the field \<open>grants\<close>: whether the next,
  the one after it, and so on, finds a free page (theorem \<open>sys_mem_alloc_maps\<close> of the kernel
  gives the two cases). A page that is granted is zero and not dirty.
\<close>

unbundle bit_operations_syntax

section \<open>State\<close>

definition DISKNO :: u32 where "DISKNO = 1"
definition BY2SECT :: u32 where "BY2SECT = 512"
definition BY2BLK :: u32 where "BY2BLK = BY2PG"
definition SECT2BLK :: u32 where "SECT2BLK = BY2BLK div BY2SECT"
definition DISKMAP :: u32 where "DISKMAP = 0x10000000"
definition DISKMAX :: u32 where "DISKMAX = 0xc0000000"
definition FS_MAGIC :: u32 where "FS_MAGIC = 0x68286097"

record fsstate =
  mem :: "nat \<Rightarrow> nat \<Rightarrow> u32"
  mapped :: "nat \<Rightarrow> bool"
  dirty :: "nat \<Rightarrow> bool"
  disk :: "nat \<Rightarrow> nat \<Rightarrow> u32"
  super :: "nat option"
  bitmap :: "nat option"
  nbitmap :: u32
  grants :: "nat \<Rightarrow> bool"

text \<open>A result that is an error code or a value, with the state after it.\<close>

type_synonym 'a fsres = "((error + 'a) \<times> fsstate) option"

definition rd :: "fsstate \<Rightarrow> nat \<Rightarrow> nat \<Rightarrow> u32 option" where
  "rd s b k = (if mapped s b then Some (mem s b k) else None)"

text \<open>A store sets \<open>PTE_D\<close> of its page.\<close>

definition wr :: "fsstate \<Rightarrow> nat \<Rightarrow> nat \<Rightarrow> u32 \<Rightarrow> fsstate option" where
  "wr s b k w =
     (if mapped s b
      then Some (s\<lparr>mem := (mem s)(b := (mem s b)(k := w)), dirty := (dirty s)(b := True)\<rparr>)
      else None)"

section \<open>The disk\<close>

text \<open>
  What a command writes to the registers of the controller: the sector count, the sector
  number in four parts, and the command.
\<close>

definition ide_regs :: "u32 \<Rightarrow> u32 \<Rightarrow> u32 \<Rightarrow> u32 \<Rightarrow> (u32 \<times> u8) list" where
  "ide_regs cmd diskno secno nsecs =
     [(0x1F2, ucast nsecs), (0x1F3, ucast (secno AND 0xFF)), (0x1F4, ucast (drop_bit 8 secno AND 0xFF)),
      (0x1F5, ucast (drop_bit 16 secno AND 0xFF)),
      (0x1F6, ucast (0xE0 OR push_bit 4 (diskno AND 1) OR (drop_bit 24 secno AND 0x0F))),
      (0x1F7, ucast cmd)]"

text \<open>The sector that the registers select: bits 0 to 27.\<close>

definition ide_lba :: "(u32 \<times> u8) list \<Rightarrow> u32" where
  "ide_lba regs =
     (let r = (\<lambda>p. ucast (the (map_of regs p)) :: u32)
      in r 0x1F3 OR push_bit 8 (r 0x1F4) OR push_bit 16 (r 0x1F5) OR push_bit 24 (r 0x1F6 AND 0x0F))"

text \<open>
  A transfer of \<open>nsecs\<close> sectors is \<open>nsecs * BY2SECT / 4\<close> words. The disk has 128 words in
  a sector; block \<open>b\<close> in memory receives or gives them from its start.
\<close>

definition ide_read :: "fsstate \<Rightarrow> u32 \<Rightarrow> u32 \<Rightarrow> nat \<Rightarrow> u32 \<Rightarrow> fsstate option" where
  "ide_read s diskno secno b nsecs =
     (if nsecs > 256 then None
      else if \<not> mapped s b then None
      else
        (let sec = unat (ide_lba (ide_regs 0x20 diskno secno nsecs));
             n = unat (nsecs * BY2SECT div 4)
         in Some (s\<lparr>mem := (mem s)(b := (\<lambda>k. if k < n then disk s (sec + k div 128) (k mod 128) else mem s b k)),
                    dirty := (dirty s)(b := True)\<rparr>)))"

definition ide_write :: "fsstate \<Rightarrow> u32 \<Rightarrow> u32 \<Rightarrow> nat \<Rightarrow> u32 \<Rightarrow> fsstate option" where
  "ide_write s diskno secno b nsecs =
     (if nsecs > 256 then None
      else if \<not> mapped s b then None
      else
        (let sec = unat (ide_lba (ide_regs 0x30 diskno secno nsecs))
         in Some (s\<lparr>disk := (\<lambda>t k. if sec \<le> t \<and> t < sec + unat nsecs \<and> k < 128
                                 then mem s b ((t - sec) * 128 + k) else disk s t k)\<rparr>)))"

section \<open>The block cache\<close>

definition s_magic :: "fsstate \<Rightarrow> nat \<Rightarrow> u32 option" where
  "s_magic s sb = rd s sb 0"

definition s_nblocks :: "fsstate \<Rightarrow> nat \<Rightarrow> nat option" where
  "s_nblocks s sb = map_option unat (rd s sb 1)"

definition bad_block :: "fsstate \<Rightarrow> nat \<Rightarrow> bool option" where
  "bad_block s bno =
     (case super s of None \<Rightarrow> Some False | Some sb \<Rightarrow> map_option (\<lambda>n. n \<le> bno) (s_nblocks s sb))"

definition diskaddr :: "fsstate \<Rightarrow> nat \<Rightarrow> nat option" where
  "diskaddr s bno = do { bad \<leftarrow> bad_block s bno; if bad then None else Some bno }"

definition va_is_mapped :: "fsstate \<Rightarrow> nat \<Rightarrow> bool" where
  "va_is_mapped s va = mapped s va"

definition block_is_mapped :: "fsstate \<Rightarrow> nat \<Rightarrow> bool option" where
  "block_is_mapped s bno = do { va \<leftarrow> diskaddr s bno; Some (va_is_mapped s va) }"

definition va_is_dirty :: "fsstate \<Rightarrow> nat \<Rightarrow> bool" where
  "va_is_dirty s va = dirty s va"

definition block_is_dirty :: "fsstate \<Rightarrow> nat \<Rightarrow> bool option" where
  "block_is_dirty s bno =
     do { va \<leftarrow> diskaddr s bno; Some (va_is_mapped s va \<and> va_is_dirty s va) }"

text \<open>The three calls to the kernel.\<close>

definition fs_mem_alloc :: "fsstate \<Rightarrow> nat \<Rightarrow> (error + unit) \<times> fsstate" where
  "fs_mem_alloc s va =
     (let s1 = s\<lparr>grants := (\<lambda>n. grants s (Suc n))\<rparr>
      in if grants s 0
         then (Inr (), s1\<lparr>mem := (mem s)(va := (\<lambda>_. 0)), mapped := (mapped s)(va := True),
                         dirty := (dirty s)(va := False)\<rparr>)
         else (Inl E_NO_MEM, s1))"

definition fs_mem_unmap :: "fsstate \<Rightarrow> nat \<Rightarrow> fsstate" where
  "fs_mem_unmap s va = s\<lparr>mapped := (mapped s)(va := False), dirty := (dirty s)(va := False)\<rparr>"

text \<open>\<open>sys_mem_map\<close> of a page onto itself: the new entry has \<open>PTE_D\<close> clear.\<close>

definition fs_mem_remap :: "fsstate \<Rightarrow> nat \<Rightarrow> fsstate" where
  "fs_mem_remap s va = s\<lparr>dirty := (dirty s)(va := False)\<rparr>"

definition map_block :: "fsstate \<Rightarrow> nat \<Rightarrow> unit fsres" where
  "map_block s bno =
     do {
       m \<leftarrow> block_is_mapped s bno;
       if m then Some (Inr (), s)
       else do { va \<leftarrow> diskaddr s bno; Some (fs_mem_alloc s va) }
     }"

section \<open>The bitmap\<close>

text \<open>The word of the bitmap for a block, counted from the pointer \<open>bitmap\<close>.\<close>

definition bm_word :: "nat \<Rightarrow> nat \<Rightarrow> nat \<times> nat" where
  "bm_word bm bno = (bm + bno div 32 div 1024, bno div 32 mod 1024)"

definition bm_mask :: "nat \<Rightarrow> u32" where
  "bm_mask bno = push_bit (bno mod 32) 1"

definition block_is_free :: "fsstate \<Rightarrow> nat \<Rightarrow> bool option" where
  "block_is_free s bno =
     (case super s of
        None \<Rightarrow> Some False
      | Some sb \<Rightarrow>
          do {
            n \<leftarrow> s_nblocks s sb;
            if n \<le> bno then Some False
            else
              do {
                bm \<leftarrow> bitmap s;
                let (b, k) = bm_word bm bno;
                w \<leftarrow> rd s b k;
                Some (w AND bm_mask bno \<noteq> 0)
              }
          })"

definition free_block :: "fsstate \<Rightarrow> nat \<Rightarrow> fsstate option" where
  "free_block s bno =
     (if bno = 0 then None
      else
        do {
          bm \<leftarrow> bitmap s;
          let (b, k) = bm_word bm bno;
          w \<leftarrow> rd s b k;
          wr s b k (w OR bm_mask bno)
        })"

text \<open>The search runs over the block numbers from 2 to the end of the disk.\<close>

fun alloc_scan :: "fsstate \<Rightarrow> nat \<Rightarrow> nat list \<Rightarrow> nat fsres" where
  "alloc_scan s bm [] = Some (Inl E_NO_DISK, s)"
| "alloc_scan s bm (bno # bnos) =
     (let (b, k) = bm_word bm bno
      in do {
        w \<leftarrow> rd s b k;
        if w AND bm_mask bno \<noteq> 0
        then do { s1 \<leftarrow> wr s b k (w AND NOT (bm_mask bno)); Some (Inr bno, s1) }
        else alloc_scan s bm bnos
      })"

definition alloc_block_num :: "fsstate \<Rightarrow> nat fsres" where
  "alloc_block_num s =
     do {
       sb \<leftarrow> super s;
       n \<leftarrow> s_nblocks s sb;
       if n \<le> 2 then Some (Inl E_NO_DISK, s)
       else do { bm \<leftarrow> bitmap s; alloc_scan s bm [2..<n] }
     }"

definition alloc_block :: "fsstate \<Rightarrow> nat fsres" where
  "alloc_block s =
     do {
       (r, s1) \<leftarrow> alloc_block_num s;
       case r of
         Inl e \<Rightarrow> Some (Inl e, s1)
       | Inr bno \<Rightarrow>
           do {
             (m, s2) \<leftarrow> map_block s1 bno;
             case m of
               Inl e \<Rightarrow> do { s3 \<leftarrow> free_block s2 bno; Some (Inl e, s3) }
             | Inr _ \<Rightarrow> Some (Inr bno, s2)
           }
     }"

section \<open>Reading and writing blocks\<close>

text \<open>The value of \<open>read_block\<close> is \<open>isnew\<close>; the address it sets is the block itself.\<close>

definition read_block :: "fsstate \<Rightarrow> nat \<Rightarrow> bool fsres" where
  "read_block s bno =
     do {
       bad \<leftarrow> bad_block s bno;
       if bad then None
       else
         do {
           free \<leftarrow> (case bitmap s of None \<Rightarrow> Some False | Some _ \<Rightarrow> block_is_free s bno);
           if free then None
           else
             do {
               m \<leftarrow> block_is_mapped s bno;
               if m then Some (Inr False, s)
               else
                 do {
                   va \<leftarrow> diskaddr s bno;
                   let (r, s1) = fs_mem_alloc s va;
                   case r of
                     Inl e \<Rightarrow> Some (Inl e, s1)
                   | Inr _ \<Rightarrow>
                       do { s2 \<leftarrow> ide_read s1 DISKNO (push_bit 3 (of_nat bno)) va 8; Some (Inr True, s2) }
                 }
             }
         }
     }"

definition write_block :: "fsstate \<Rightarrow> nat \<Rightarrow> fsstate option" where
  "write_block s bno =
     do {
       m \<leftarrow> block_is_mapped s bno;
       if \<not> m then None
       else
         do {
           d \<leftarrow> block_is_dirty s bno;
           if \<not> d then Some s
           else
             do {
               va \<leftarrow> diskaddr s bno;
               s1 \<leftarrow> ide_write s DISKNO (push_bit 3 (of_nat bno)) va 8;
               Some (fs_mem_remap s1 va)
             }
         }
     }"

definition unmap_block :: "fsstate \<Rightarrow> nat \<Rightarrow> fsstate option" where
  "unmap_block s bno =
     do {
       m \<leftarrow> block_is_mapped s bno;
       if \<not> m then Some s
       else
         do {
           f \<leftarrow> block_is_free s bno;
           d \<leftarrow> (if f then Some False else block_is_dirty s bno);
           if d then None
           else
             do {
               va \<leftarrow> diskaddr s bno;
               let s1 = fs_mem_unmap s va;
               m1 \<leftarrow> block_is_mapped s1 bno;
               if m1 then None else Some s1
             }
         }
     }"

section \<open>Initialisation\<close>

definition read_super :: "fsstate \<Rightarrow> fsstate option" where
  "read_super s =
     do {
       (r, s1) \<leftarrow> read_block s 1;
       case r of
         Inl _ \<Rightarrow> None
       | Inr _ \<Rightarrow>
           do {
             let s2 = s1\<lparr>super := Some 1\<rparr>;
             m \<leftarrow> s_magic s2 1;
             if m \<noteq> FS_MAGIC then None
             else
               do {
                 n \<leftarrow> s_nblocks s2 1;
                 if n > unat (DISKMAX div BY2BLK) then None else Some s2
               }
           }
     }"

fun read_bitmap_rest :: "fsstate \<Rightarrow> nat list \<Rightarrow> fsstate option" where
  "read_bitmap_rest s [] = Some s"
| "read_bitmap_rest s (i # js) =
     do {
       (r, s1) \<leftarrow> read_block s (2 + i);
       case r of Inl _ \<Rightarrow> None | Inr _ \<Rightarrow> read_bitmap_rest s1 js
     }"

definition read_bitmap :: "fsstate \<Rightarrow> fsstate option" where
  "read_bitmap s =
     do {
       sb \<leftarrow> super s;
       n \<leftarrow> s_nblocks s sb;
       let s1 = s\<lparr>nbitmap := (of_nat n + 32767) div 32768\<rparr>;
       (r, s2) \<leftarrow> read_block s1 2;
       case r of
         Inl _ \<Rightarrow> None
       | Inr _ \<Rightarrow>
           do {
             let s3 = s2\<lparr>bitmap := Some 2\<rparr>;
             s4 \<leftarrow> read_bitmap_rest s3 [1..<unat (nbitmap s3)];
             f0 \<leftarrow> block_is_free s4 0;
             f1 \<leftarrow> block_is_free s4 1;
             if f0 \<or> f1 then None else Some s4
           }
     }"

text \<open>\<open>bcopy\<close> of a block, and \<open>strcpy\<close> of \<open>OOPS!\<close> with its newline and terminator.\<close>

definition copy_block :: "fsstate \<Rightarrow> nat \<Rightarrow> nat \<Rightarrow> fsstate option" where
  "copy_block s src dst =
     (if mapped s src \<and> mapped s dst
      then Some (s\<lparr>mem := (mem s)(dst := (\<lambda>k. if k < 1024 then mem s src k else mem s dst k)),
                   dirty := (dirty s)(dst := True)\<rparr>)
      else None)"

definition smash_text :: "u8 list" where "smash_text = [79, 79, 80, 83, 33, 10, 0]"

definition get_bytes :: "(nat \<Rightarrow> u32) \<Rightarrow> nat \<Rightarrow> u8" where
  "get_bytes m i = get_byte (m (i div 4)) (i mod 4)"

fun put_bytes :: "(nat \<Rightarrow> u32) \<Rightarrow> nat \<Rightarrow> u8 list \<Rightarrow> nat \<Rightarrow> u32" where
  "put_bytes m i [] = m"
| "put_bytes m i (x # xs) = put_bytes (m(i div 4 := put_byte (m (i div 4)) (i mod 4) x)) (i + 1) xs"

definition put_string :: "fsstate \<Rightarrow> nat \<Rightarrow> nat \<Rightarrow> u8 list \<Rightarrow> fsstate option" where
  "put_string s b i xs =
     (if mapped s b
      then Some (s\<lparr>mem := (mem s)(b := put_bytes (mem s b) i xs), dirty := (dirty s)(b := True)\<rparr>)
      else None)"

definition check_write_block :: "fsstate \<Rightarrow> fsstate option" where
  "check_write_block s =
     do {
       let s0 = s\<lparr>super := None\<rparr>;
       (_, s1) \<leftarrow> read_block s0 0;
       s2 \<leftarrow> copy_block s1 1 0;
       s3 \<leftarrow> put_string s2 1 0 smash_text;
       s4 \<leftarrow> write_block s3 1;
       m \<leftarrow> block_is_mapped s4 1;
       if \<not> m \<or> va_is_dirty s4 1 then None
       else
         do {
           let s5 = fs_mem_unmap s4 1;
           m5 \<leftarrow> block_is_mapped s5 1;
           if m5 then None
           else
             do {
               (_, s6) \<leftarrow> read_block s5 1;
               if \<not> mapped s6 1 then None
               else
                 do {
                   c \<leftarrow> strcmp (get_bytes (mem s6 1)) (\<lambda>i. smash_text ! i);
                   if c \<noteq> 0 then None
                   else
                     do {
                       s7 \<leftarrow> copy_block s6 0 1;
                       s8 \<leftarrow> write_block s7 1;
                       Some (s8\<lparr>super := Some 1\<rparr>)
                     }
                 }
             }
         }
     }"

definition fs_init :: "fsstate \<Rightarrow> fsstate option" where
  "fs_init s = do { s1 \<leftarrow> read_super s; s2 \<leftarrow> check_write_block s1; read_bitmap s2 }"

end
