(* ===== verification/Fs_File.thy ===== *)
theory Fs_File
  imports Fs
begin

text \<open>
  The file system server, second part: files, directories and paths of \<open>fs/fs.c\<close>.

  A \<open>struct File\<close> is 256 bytes, so 64 words, at a pointer into the block cache: its name
  in words 0 to 31, its size, type, ten direct block numbers, the indirect block number and
  the pointer \<open>f_dir\<close> in words 32, 33, 34 to 43, 44 and 45. The root directory lies behind
  the two words of the superblock. A path is the list of its bytes without the terminator; a
  pointer into it is the rest of the list.
\<close>

unbundle bit_operations_syntax

section \<open>Files in memory\<close>

type_synonym fptr = "nat \<times> nat"

definition MAXNAMELEN :: nat where "MAXNAMELEN = 128"
definition NDIRECT :: nat where "NDIRECT = 10"
definition NINDIRECT :: nat where "NINDIRECT = 1024"
definition FILE2BLK :: nat where "FILE2BLK = 16"
definition FTYPE_REG :: u32 where "FTYPE_REG = 0"
definition FTYPE_DIR :: u32 where "FTYPE_DIR = 1"

definition off_size :: nat where "off_size = 32"
definition off_type :: nat where "off_type = 33"
definition off_direct :: nat where "off_direct = 34"
definition off_indirect :: nat where "off_indirect = 44"
definition off_dir :: nat where "off_dir = 45"

lemmas file_layout = off_size_def off_type_def off_direct_def off_indirect_def off_dir_def

definition frd :: "fsstate \<Rightarrow> fptr \<Rightarrow> nat \<Rightarrow> u32 option" where
  "frd s f off = rd s (fst f) (snd f + off)"

definition fwr :: "fsstate \<Rightarrow> fptr \<Rightarrow> nat \<Rightarrow> u32 \<Rightarrow> fsstate option" where
  "fwr s f off w = wr s (fst f) (snd f + off) w"

definition ptr_word :: "fptr \<Rightarrow> u32" where
  "ptr_word f = DISKMAP + of_nat (4096 * fst f + 4 * snd f)"

definition word_ptr :: "u32 \<Rightarrow> fptr option" where
  "word_ptr w =
     (if w = 0 then None
      else Some (unat (w - DISKMAP) div 4096, unat (w - DISKMAP) mod 4096 div 4))"

text \<open>The \<open>j\<close>th \<open>struct File\<close> of a directory block.\<close>

definition dir_slot :: "nat \<Rightarrow> nat \<Rightarrow> fptr" where
  "dir_slot b j = (b, 64 * j)"

definition s_root :: "nat \<Rightarrow> fptr" where
  "s_root sb = (sb, 2)"

section \<open>The block map of a file\<close>

definition file_block_walk :: "fsstate \<Rightarrow> fptr \<Rightarrow> u32 \<Rightarrow> bool \<Rightarrow> fptr fsres" where
  "file_block_walk s f filebno alloc =
     (if unat filebno < NDIRECT
      then Some (Inr (fst f, snd f + off_direct + unat filebno), s)
      else if unat filebno < NINDIRECT then
        do {
          ind \<leftarrow> frd s f off_indirect;
          (r, s1) \<leftarrow>
            (if ind = 0 then
               if \<not> alloc then Some (Inl E_NOT_FOUND, s)
               else
                 do {
                   (r, s1) \<leftarrow> alloc_block s;
                   case r of
                     Inl e \<Rightarrow> Some (Inl e, s1)
                   | Inr b \<Rightarrow> do { s2 \<leftarrow> fwr s1 f off_indirect (of_nat b); Some (Inr (), s2) }
                 }
             else Some (Inr (), s));
          case r of
            Inl e \<Rightarrow> Some (Inl e, s1)
          | Inr _ \<Rightarrow>
              do {
                ind1 \<leftarrow> frd s1 f off_indirect;
                (r1, s2) \<leftarrow> read_block s1 (unat ind1);
                case r1 of
                  Inl e \<Rightarrow> Some (Inl e, s2)
                | Inr _ \<Rightarrow> Some (Inr (unat ind1, unat filebno), s2)
              }
        }
      else Some (Inl E_INVAL, s))"

definition file_map_block :: "fsstate \<Rightarrow> fptr \<Rightarrow> u32 \<Rightarrow> bool \<Rightarrow> nat fsres" where
  "file_map_block s f filebno alloc =
     do {
       (r, s1) \<leftarrow> file_block_walk s f filebno alloc;
       case r of
         Inl e \<Rightarrow> Some (Inl e, s1)
       | Inr (b, k) \<Rightarrow>
           do {
             w \<leftarrow> rd s1 b k;
             if w \<noteq> 0 then Some (Inr (unat w), s1)
             else if \<not> alloc then Some (Inl E_NOT_FOUND, s1)
             else
               do {
                 (q, s2) \<leftarrow> alloc_block s1;
                 case q of
                   Inl e \<Rightarrow> Some (Inl e, s2)
                 | Inr n \<Rightarrow> do { s3 \<leftarrow> wr s2 b k (of_nat n); Some (Inr n, s3) }
               }
           }
     }"

definition file_clear_block :: "fsstate \<Rightarrow> fptr \<Rightarrow> u32 \<Rightarrow> unit fsres" where
  "file_clear_block s f filebno =
     do {
       (r, s1) \<leftarrow> file_block_walk s f filebno False;
       case r of
         Inl e \<Rightarrow> Some (Inl e, s1)
       | Inr (b, k) \<Rightarrow>
           do {
             w \<leftarrow> rd s1 b k;
             if w = 0 then Some (Inr (), s1)
             else
               do {
                 s2 \<leftarrow> free_block s1 (unat w);
                 s3 \<leftarrow> wr s2 b k 0;
                 Some (Inr (), s3)
               }
           }
     }"

text \<open>The loop that sets \<open>f_dir\<close> in each dir_slot of a block that came in off disk.\<close>

definition set_dir :: "fptr \<Rightarrow> fptr \<Rightarrow> fsstate \<Rightarrow> fsstate option" where
  "set_dir d e s = fwr s e off_dir (ptr_word d)"

definition file_get_block :: "fsstate \<Rightarrow> fptr \<Rightarrow> u32 \<Rightarrow> nat fsres" where
  "file_get_block s f filebno =
     do {
       (r, s1) \<leftarrow> file_map_block s f filebno True;
       case r of
         Inl e \<Rightarrow> Some (Inl e, s1)
       | Inr diskbno \<Rightarrow>
           do {
             (q, s2) \<leftarrow> read_block s1 diskbno;
             case q of
               Inl e \<Rightarrow> Some (Inl e, s2)
             | Inr isnew \<Rightarrow>
                 do {
                   t \<leftarrow> frd s2 f off_type;
                   if isnew \<and> t = FTYPE_DIR
                   then
                     do {
                       s3 \<leftarrow> mfold (\<lambda>i. set_dir f (dir_slot diskbno i)) [0..<FILE2BLK] s2;
                       Some (Inr diskbno, s3)
                     }
                   else Some (Inr diskbno, s2)
                 }
           }
     }"

text \<open>The byte store that \<open>file_dirty\<close> makes to the first byte of the block.\<close>

definition file_dirty :: "fsstate \<Rightarrow> fptr \<Rightarrow> u32 \<Rightarrow> unit fsres" where
  "file_dirty s f offset =
     do {
       (r, s1) \<leftarrow> file_get_block s f (offset div BY2BLK);
       case r of
         Inl e \<Rightarrow> Some (Inl e, s1)
       | Inr b \<Rightarrow> do { w \<leftarrow> rd s1 b 0; s2 \<leftarrow> wr s1 b 0 (put_byte w 0 (get_byte w 0)); Some (Inr (), s2) }
     }"

section \<open>Directories\<close>

definition f_name :: "fsstate \<Rightarrow> fptr \<Rightarrow> nat \<Rightarrow> u8" where
  "f_name s f i = get_bytes (mem s (fst f)) (4 * snd f + i)"

text \<open>A name from the path, with its terminator, as \<open>strcmp\<close> reads it.\<close>

definition name_bytes :: "u8 list \<Rightarrow> nat \<Rightarrow> u8" where
  "name_bytes name i = (if i < length name then name ! i else 0)"

fun lookup_entries :: "fsstate \<Rightarrow> nat \<Rightarrow> u8 list \<Rightarrow> nat list \<Rightarrow> fptr option option" where
  "lookup_entries s b name [] = Some None"
| "lookup_entries s b name (j # js) =
     do {
       c \<leftarrow> (if mapped s b then strcmp (f_name s (dir_slot b j)) (name_bytes name) else None);
       if c = 0 then Some (Some (dir_slot b j)) else lookup_entries s b name js
     }"

fun lookup_blocks :: "fsstate \<Rightarrow> fptr \<Rightarrow> u8 list \<Rightarrow> nat list \<Rightarrow> fptr fsres" where
  "lookup_blocks s dir name [] = Some (Inl E_NOT_FOUND, s)"
| "lookup_blocks s dir name (i # bs) =
     do {
       (r, s1) \<leftarrow> file_get_block s dir (of_nat i);
       case r of
         Inl e \<Rightarrow> Some (Inl e, s1)
       | Inr b \<Rightarrow>
           do {
             l \<leftarrow> lookup_entries s1 b name [0..<FILE2BLK];
             case l of
               Some f \<Rightarrow> do { s2 \<leftarrow> set_dir dir f s1; Some (Inr f, s2) }
             | None \<Rightarrow> lookup_blocks s1 dir name bs
           }
     }"

definition dir_nblocks :: "u32 \<Rightarrow> nat" where
  "dir_nblocks f_size = unat (f_size div BY2BLK)"

definition dir_lookup :: "fsstate \<Rightarrow> fptr \<Rightarrow> u8 list \<Rightarrow> fptr fsres" where
  "dir_lookup s dir name =
     do { sz \<leftarrow> frd s dir off_size; lookup_blocks s dir name [0..<dir_nblocks sz] }"

fun free_entry :: "fsstate \<Rightarrow> nat \<Rightarrow> nat list \<Rightarrow> fptr option option" where
  "free_entry s b [] = Some None"
| "free_entry s b (j # js) =
     (if \<not> mapped s b then None
      else if f_name s (dir_slot b j) 0 = 0 then Some (Some (dir_slot b j)) else free_entry s b js)"

text \<open>\<open>Inr None\<close>: every block of the directory is full.\<close>

fun alloc_blocks :: "fsstate \<Rightarrow> fptr \<Rightarrow> nat list \<Rightarrow> fptr option fsres" where
  "alloc_blocks s dir [] = Some (Inr None, s)"
| "alloc_blocks s dir (i # bs) =
     do {
       (r, s1) \<leftarrow> file_get_block s dir (of_nat i);
       case r of
         Inl e \<Rightarrow> Some (Inl e, s1)
       | Inr b \<Rightarrow>
           do {
             l \<leftarrow> free_entry s1 b [0..<FILE2BLK];
             case l of Some f \<Rightarrow> Some (Inr (Some f), s1) | None \<Rightarrow> alloc_blocks s1 dir bs
           }
     }"

definition dir_alloc_file :: "fsstate \<Rightarrow> fptr \<Rightarrow> fptr fsres" where
  "dir_alloc_file s dir =
     do {
       sz \<leftarrow> frd s dir off_size;
       let nblock = dir_nblocks sz;
       (r, s1) \<leftarrow> alloc_blocks s dir [0..<nblock];
       case r of
         Inl e \<Rightarrow> Some (Inl e, s1)
       | Inr (Some f) \<Rightarrow> Some (Inr f, s1)
       | Inr None \<Rightarrow>
           do {
             sz1 \<leftarrow> frd s1 dir off_size;
             s2 \<leftarrow> fwr s1 dir off_size (sz1 + BY2BLK);
             (q, s3) \<leftarrow> file_get_block s2 dir (of_nat nblock);
             case q of Inl e \<Rightarrow> Some (Inl e, s3) | Inr b \<Rightarrow> Some (Inr (dir_slot b 0), s3)
           }
     }"

section \<open>Paths\<close>

definition SLASH :: u8 where "SLASH = 47"

fun skip_slash :: "u8 list \<Rightarrow> u8 list" where
  "skip_slash [] = []"
| "skip_slash (c # p) = (if c = SLASH then skip_slash p else c # p)"

text \<open>Each round of \<open>walk_path\<close> consumes some of the path.\<close>

lemma skip_slash_length: "length (skip_slash p) \<le> length p"
  by (induction p) auto

lemma rest_shorter: "p \<noteq> [] \<Longrightarrow> length (skip_slash (dropWhile (\<lambda>c. c \<noteq> SLASH) p)) < length p"
proof (cases p)
  case (Cons c q)
  have "length (skip_slash (dropWhile (\<lambda>c. c \<noteq> SLASH) q)) \<le> length q"
    using skip_slash_length [of "dropWhile (\<lambda>c. c \<noteq> SLASH) q"] length_dropWhile_le [of "\<lambda>c. c \<noteq> SLASH" q]
    by linarith
  then show ?thesis using Cons skip_slash_length [of q] by auto
qed simp

text \<open>
  What \<open>walk_path\<close> leaves behind: the return code with \<open>*pfile\<close>, \<open>*pdir\<close> (\<open>None\<close> is
  null) and the last element, which it sets in one error case only.
\<close>

datatype walked = Walked (wres: "error + fptr") (wdir: "fptr option") (wlast: "u8 list option")

function walk_loop :: "fsstate \<Rightarrow> u8 list \<Rightarrow> fptr option \<Rightarrow> fptr \<Rightarrow> (walked \<times> fsstate) option" where
  "walk_loop s path dir file =
     (if path = [] then Some (Walked (Inr file) dir None, s)
      else
        (let name = takeWhile (\<lambda>c. c \<noteq> SLASH) path;
             rest = skip_slash (dropWhile (\<lambda>c. c \<noteq> SLASH) path)
         in if length name \<ge> MAXNAMELEN then Some (Walked (Inl E_BAD_PATH) None None, s)
            else
              do {
                t \<leftarrow> frd s file off_type;
                if t \<noteq> FTYPE_DIR then Some (Walked (Inl E_NOT_FOUND) None None, s)
                else
                  do {
                    (r, s1) \<leftarrow> dir_lookup s file name;
                    case r of
                      Inl e \<Rightarrow>
                        if e = E_NOT_FOUND \<and> rest = []
                        then Some (Walked (Inl e) (Some file) (Some name), s1)
                        else Some (Walked (Inl e) None None, s1)
                    | Inr f \<Rightarrow> walk_loop s1 rest (Some file) f
                  }
              }))"
  by pat_completeness auto
termination
  by (relation "measure (\<lambda>(s, path, dir, file). length path)") (auto simp: rest_shorter)

declare walk_loop.simps [simp del]

definition walk_path :: "fsstate \<Rightarrow> u8 list \<Rightarrow> (walked \<times> fsstate) option" where
  "walk_path s path = do { sb \<leftarrow> super s; walk_loop s (skip_slash path) None (s_root sb) }"

section \<open>Operations on files\<close>

definition file_open :: "fsstate \<Rightarrow> u8 list \<Rightarrow> fptr fsres" where
  "file_open s path = do { (w, s1) \<leftarrow> walk_path s path; Some (wres w, s1) }"

definition strcpy_name :: "fsstate \<Rightarrow> fptr \<Rightarrow> u8 list \<Rightarrow> fsstate option" where
  "strcpy_name s f name = put_string s (fst f) (4 * snd f) (name @ [0])"

definition file_create :: "fsstate \<Rightarrow> u8 list \<Rightarrow> fptr fsres" where
  "file_create s path =
     do {
       (w, s1) \<leftarrow> walk_path s path;
       case wres w of
         Inr _ \<Rightarrow> Some (Inl E_FILE_EXISTS, s1)
       | Inl e \<Rightarrow>
           (case wdir w of
              None \<Rightarrow> Some (Inl e, s1)
            | Some dir \<Rightarrow>
                if e \<noteq> E_NOT_FOUND then Some (Inl e, s1)
                else
                  do {
                    (r, s2) \<leftarrow> dir_alloc_file s1 dir;
                    case r of
                      Inl _ \<Rightarrow> Some (Inl e, s2)
                    | Inr f \<Rightarrow>
                        do {
                          name \<leftarrow> wlast w;
                          s3 \<leftarrow> strcpy_name s2 f name;
                          Some (Inr f, s3)
                        }
                  })
     }"

definition nblocks_of :: "u32 \<Rightarrow> u32" where
  "nblocks_of sz = (sz + BY2BLK - 1) div BY2BLK"

text \<open>The results of \<open>file_clear_block\<close> are ignored.\<close>

definition clear_one :: "fptr \<Rightarrow> nat \<Rightarrow> fsstate \<Rightarrow> fsstate option" where
  "clear_one f bno s = do { (_, s1) \<leftarrow> file_clear_block s f (of_nat bno); Some s1 }"

definition file_truncate :: "fsstate \<Rightarrow> fptr \<Rightarrow> u32 \<Rightarrow> fsstate option" where
  "file_truncate s f newsize =
     do {
       sz \<leftarrow> frd s f off_size;
       let old_nblocks = unat (nblocks_of sz);
       let new_nblocks = unat (nblocks_of newsize);
       s1 \<leftarrow> fwr s f off_size newsize;
       s2 \<leftarrow> mfold (clear_one f) [new_nblocks..<old_nblocks] s1;
       if old_nblocks > NDIRECT \<and> new_nblocks \<le> NDIRECT
       then do { ind \<leftarrow> frd s2 f off_indirect; free_block s2 (unat ind) }
       else Some s2
     }"

text \<open>The loop of \<open>file_flush\<close>: it returns at the first block that is not there.\<close>

fun flush_blocks :: "fsstate \<Rightarrow> fptr \<Rightarrow> nat list \<Rightarrow> fsstate option" where
  "flush_blocks s f [] = Some s"
| "flush_blocks s f (i # bs) =
     do {
       (r, s1) \<leftarrow> file_map_block s f (of_nat i) False;
       case r of
         Inl _ \<Rightarrow> Some s1
       | Inr diskbno \<Rightarrow>
           do {
             d \<leftarrow> block_is_dirty s1 diskbno;
             s2 \<leftarrow> (if d then write_block s1 diskbno else Some s1);
             flush_blocks s2 f bs
           }
     }"

definition file_flush :: "fsstate \<Rightarrow> fptr \<Rightarrow> fsstate option" where
  "file_flush s f =
     do { sz \<leftarrow> frd s f off_size; flush_blocks s f [0..<unat (nblocks_of sz)] }"

definition flush_dir :: "fsstate \<Rightarrow> fptr \<Rightarrow> fsstate option" where
  "flush_dir s f =
     do {
       d \<leftarrow> frd s f off_dir;
       case word_ptr d of None \<Rightarrow> Some s | Some dir \<Rightarrow> file_flush s dir
     }"

definition file_set_size :: "fsstate \<Rightarrow> fptr \<Rightarrow> u32 \<Rightarrow> unit fsres" where
  "file_set_size s f newsize =
     do {
       sz \<leftarrow> frd s f off_size;
       s1 \<leftarrow> (if sz > newsize then file_truncate s f newsize else Some s);
       s2 \<leftarrow> fwr s1 f off_size newsize;
       s3 \<leftarrow> flush_dir s2 f;
       Some (Inr (), s3)
     }"

definition fs_sync_block :: "nat \<Rightarrow> fsstate \<Rightarrow> fsstate option" where
  "fs_sync_block i s =
     do { d \<leftarrow> block_is_dirty s i; if d then write_block s i else Some s }"

definition fs_sync :: "fsstate \<Rightarrow> fsstate option" where
  "fs_sync s =
     do { sb \<leftarrow> super s; n \<leftarrow> s_nblocks s sb; mfold fs_sync_block [0..<n] s }"

definition file_close :: "fsstate \<Rightarrow> fptr \<Rightarrow> fsstate option" where
  "file_close s f = do { s1 \<leftarrow> file_flush s f; flush_dir s1 f }"

definition file_remove :: "fsstate \<Rightarrow> u8 list \<Rightarrow> unit fsres" where
  "file_remove s path =
     do {
       (w, s1) \<leftarrow> walk_path s path;
       case wres w of
         Inl e \<Rightarrow> Some (Inl e, s1)
       | Inr f \<Rightarrow>
           do {
             s2 \<leftarrow> file_truncate s1 f 0;
             w0 \<leftarrow> frd s2 f 0;
             s3 \<leftarrow> fwr s2 f 0 (put_byte w0 0 0);
             s4 \<leftarrow> file_flush s3 f;
             s5 \<leftarrow> flush_dir s4 f;
             Some (Inr (), s5)
           }
     }"

end
