(* ===== verification/Fs_Disk.thy ===== *)
theory Fs_Disk
  imports Fs_File
begin

text \<open>
  What the block cache promises about the disk: a block that is read has the contents of its
  eight sectors, a block that is written has given them its own, and \<open>fs_sync\<close> writes every
  dirty block.
\<close>

unbundle bit_operations_syntax

section \<open>The sector registers\<close>

lemma ide_lba_regs: "secno < 2 ^ 28 \<Longrightarrow> ide_lba (ide_regs cmd diskno secno nsecs) = secno"
proof -
  assume s: "secno < 2 ^ 28"
  have hi: "\<not> bit secno n" if "28 \<le> n" for n
  proof
    assume "bit secno n"
    then have "bit (take_bit 28 (unat secno)) n"
      using s by (simp add: word_less_nat_alt take_bit_nat_eq_self bit_unsigned_iff)
    then show False using that by (simp add: bit_take_bit_iff)
  qed
  have m: "(0xFF :: u32) = mask 8" "(0x0F :: u32) = mask 4" by (simp_all add: mask_eq_exp_minus_1)
  have c: "bit (0xE0 :: u32) n \<Longrightarrow> 4 < n" for n
  proof -
    assume b: "bit (0xE0 :: u32) n"
    have e: "(0xE0 :: u32) = push_bit 5 7" by simp
    show "4 < n" using b unfolding e by (auto simp only: bit_push_bit_iff)
  qed
  show ?thesis
  proof (rule bit_word_eqI)
    fix n :: nat
    assume n: "n < LENGTH(32)"
    consider "n < 8" | "8 \<le> n" "n < 16" | "16 \<le> n" "n < 24" | "24 \<le> n" "n < 28" | "28 \<le> n" by linarith
    then show "bit (ide_lba (ide_regs cmd diskno secno nsecs)) n = bit secno n"
    proof cases
      case 4
      have "\<not> bit (0xE0 :: u32) (n - 24)" using c [of "n - 24"] 4 by auto
      with 4 n show ?thesis
        by (auto simp: ide_lba_def ide_regs_def Let_def m bit_simps)
    next
      case 5
      then show ?thesis using hi
        by (auto simp: ide_lba_def ide_regs_def Let_def m bit_simps)
    qed (use n in \<open>auto simp: ide_lba_def ide_regs_def Let_def m bit_simps\<close>)
  qed
qed

text \<open>The sector number of a block of a disk that the server accepts.\<close>

definition block_limit :: nat where "block_limit = 0xc0000"

lemma block_sector:
  assumes "b \<le> block_limit"
  shows "unat (ide_lba (ide_regs cmd DISKNO (push_bit 3 (of_nat b)) 8)) = 8 * b"
proof -
  have u: "unat (push_bit 3 (of_nat b) :: u32) = 8 * b"
  proof -
    have "push_bit 3 (of_nat b :: u32) = of_nat (8 * b)" by (simp add: push_bit_eq_mult)
    then show ?thesis using assms by (simp add: block_limit_def unat_of_nat_u32 del: of_nat_mult)
  qed
  moreover from u have "(push_bit 3 (of_nat b) :: u32) < 2 ^ 28"
    using assms by (simp add: word_less_nat_alt block_limit_def)
  ultimately show ?thesis by (simp add: ide_lba_regs)
qed

section \<open>The cache and the disk\<close>

definition disk_word :: "fsstate \<Rightarrow> nat \<Rightarrow> nat \<Rightarrow> u32" where
  "disk_word s b k = disk s (8 * b + k div 128) (k mod 128)"

lemma ide_read_block:
  assumes "b \<le> block_limit" "mapped s b"
  shows "\<exists>w. ide_read s DISKNO (push_bit 3 (of_nat b)) b 8
      = Some (s\<lparr>mem := (mem s)(b := w), dirty := (dirty s)(b := True)\<rparr>)
    \<and> (\<forall>k < 1024. w k = disk_word s b k)"
proof -
  have n: "unat ((8 :: u32) * BY2SECT div 4) = 1024" by (simp add: BY2SECT_def)
  define w where "w = (\<lambda>k. if k < 1024 then disk s (8 * b + k div 128) (k mod 128) else mem s b k)"
  have "ide_read s DISKNO (push_bit 3 (of_nat b)) b 8
      = Some (s\<lparr>mem := (mem s)(b := w), dirty := (dirty s)(b := True)\<rparr>)"
  proof -
    have c: "\<not> (8 :: u32) > 256" by simp
    show ?thesis
      unfolding ide_read_def block_sector [OF assms(1)] Let_def n w_def
      by (simp only: c assms(2) if_False not_True_eq_False)
  qed
  moreover have "\<forall>k < 1024. w k = disk_word s b k" by (simp add: w_def disk_word_def)
  ultimately show ?thesis by blast
qed

lemma ide_write_block:
  assumes "b \<le> block_limit" "mapped s b"
  shows "\<exists>dk. ide_write s DISKNO (push_bit 3 (of_nat b)) b 8 = Some (s\<lparr>disk := dk\<rparr>)
    \<and> (\<forall>c k. k < 1024 \<longrightarrow> disk_word (s\<lparr>disk := dk\<rparr>) c k = (if c = b then mem s b k else disk_word s c k))"
proof -
  have *: "8 * b \<le> 8 * c + k div 128 \<and> 8 * c + k div 128 < 8 * b + 8 \<longleftrightarrow> c = b" if "k < 1024" for c k
  proof -
    have "q < 8 \<Longrightarrow> 8 * b \<le> 8 * c + q \<and> 8 * c + q < 8 * b + 8 \<longleftrightarrow> c = b" for q by arith
    moreover have "k div 128 < 8" using that by simp
    ultimately show ?thesis by blast
  qed
  have m: "k mod 128 < 128" for k :: nat by simp
  have e: "(8 * b + k div 128 - 8 * b) * 128 + k mod 128 = k" for k :: nat by simp
  have u: "unat (8 :: u32) = 8" by simp
  define dk where "dk = (\<lambda>t k. if 8 * b \<le> t \<and> t < 8 * b + 8 \<and> k < 128
      then mem s b ((t - 8 * b) * 128 + k) else disk s t k)"
  have "ide_write s DISKNO (push_bit 3 (of_nat b)) b 8 = Some (s\<lparr>disk := dk\<rparr>)"
    using assms(2) by (simp add: ide_write_def block_sector [OF assms(1)] Let_def dk_def)
  moreover have "disk_word (s\<lparr>disk := dk\<rparr>) c k = (if c = b then mem s b k else disk_word s c k)"
    if "k < 1024" for c k
  proof -
    have "disk_word (s\<lparr>disk := dk\<rparr>) c k = (if c = b then mem s b ((8 * c + k div 128 - 8 * b) * 128 + k mod 128)
        else disk s (8 * c + k div 128) (k mod 128))"
      using * [OF that, of c] m [of k] by (auto simp: disk_word_def dk_def)
    then show ?thesis by (simp only: disk_word_def e split: if_split) (simp add: e)
  qed
  ultimately show ?thesis by blast
qed

text \<open>The superblock is in memory and the disk is not too large.\<close>

definition super_ok :: "fsstate \<Rightarrow> nat \<Rightarrow> bool" where
  "super_ok s n \<longleftrightarrow> (\<exists>sb. super s = Some sb \<and> mapped s sb \<and> unat (mem s sb 1) = n) \<and> n \<le> block_limit"

lemma super_ok_bad: "super_ok s n \<Longrightarrow> bad_block s b = Some (n \<le> b)"
  by (auto simp: super_ok_def bad_block_def s_nblocks_def rd_def)

lemma super_ok_diskaddr: "super_ok s n \<Longrightarrow> diskaddr s b = (if n \<le> b then None else Some b)"
  by (simp add: diskaddr_def super_ok_bad)

lemma super_ok_is_mapped: "super_ok s n \<Longrightarrow> b < n \<Longrightarrow> block_is_mapped s b = Some (mapped s b)"
  by (simp add: block_is_mapped_def super_ok_diskaddr va_is_mapped_def)

lemma super_ok_is_dirty: "super_ok s n \<Longrightarrow> b < n \<Longrightarrow> block_is_dirty s b = Some (mapped s b \<and> dirty s b)"
  by (simp add: block_is_dirty_def super_ok_diskaddr va_is_mapped_def va_is_dirty_def)

lemma super_ok_cong:
  "super s' = super s \<Longrightarrow> mapped s' = mapped s \<Longrightarrow> mem s' = mem s \<Longrightarrow> super_ok s' n = super_ok s n"
  by (simp add: super_ok_def)

text \<open>The three outcomes of \<open>read_block\<close> for a block that is in use.\<close>

lemma read_block_mapped:
  assumes "super_ok s n" "b < n" "bitmap s = None \<or> block_is_free s b = Some False" "mapped s b"
  shows "read_block s b = Some (Inr False, s)"
  using assms by (auto simp: read_block_def super_ok_bad super_ok_is_mapped split: option.splits)

lemma read_block_no_mem:
  assumes "super_ok s n" "b < n" "bitmap s = None \<or> block_is_free s b = Some False" "\<not> mapped s b"
    "\<not> grants s 0"
  shows "read_block s b = Some (Inl E_NO_MEM, s\<lparr>grants := (\<lambda>k. grants s (Suc k))\<rparr>)"
  using assms
  by (auto simp: read_block_def super_ok_bad super_ok_is_mapped super_ok_diskaddr fs_mem_alloc_def
      Let_def split: option.splits)

lemma read_block_loads:
  assumes "super_ok s n" "b < n" "bitmap s = None \<or> block_is_free s b = Some False" "\<not> mapped s b"
    "grants s 0"
  shows "\<exists>w. read_block s b = Some (Inr True, s\<lparr>mem := (mem s)(b := w), mapped := (mapped s)(b := True),
      dirty := (dirty s)(b := True), grants := (\<lambda>k. grants s (Suc k))\<rparr>)
    \<and> (\<forall>k < 1024. w k = disk_word s b k)"
proof -
  define s1 where "s1 = snd (fs_mem_alloc s b)"
  have s1: "fs_mem_alloc s b = (Inr (), s1)" "mapped s1 b" "\<And>k. disk_word s1 b k = disk_word s b k"
    using assms(5) by (simp_all add: s1_def fs_mem_alloc_def Let_def disk_word_def)
  have lim: "b \<le> block_limit" using assms(1,2) by (simp add: super_ok_def)
  obtain w where r: "ide_read s1 DISKNO (push_bit 3 (of_nat b)) b 8
        = Some (s1\<lparr>mem := (mem s1)(b := w), dirty := (dirty s1)(b := True)\<rparr>)"
      and d: "\<forall>k < 1024. w k = disk_word s1 b k"
    using ide_read_block [OF lim s1(2)] by blast
  have "read_block s b = Some (Inr True, s1\<lparr>mem := (mem s1)(b := w), dirty := (dirty s1)(b := True)\<rparr>)"
    using assms by (auto simp: read_block_def super_ok_bad super_ok_is_mapped super_ok_diskaddr s1 r
        split: option.splits)
  moreover have "s1\<lparr>mem := (mem s1)(b := w), dirty := (dirty s1)(b := True)\<rparr>
      = s\<lparr>mem := (mem s)(b := w), mapped := (mapped s)(b := True),
      dirty := (dirty s)(b := True), grants := (\<lambda>k. grants s (Suc k))\<rparr>"
    using assms(5) by (simp add: s1_def fs_mem_alloc_def Let_def)
  ultimately show ?thesis using d s1(3) by auto
qed

text \<open>\<open>write_block\<close> of a block in memory.\<close>

definition flushed :: "fsstate \<Rightarrow> nat \<Rightarrow> fsstate \<Rightarrow> bool" where
  "flushed s b s' \<longleftrightarrow>
     (\<exists>dk. s' = s\<lparr>disk := dk, dirty := (dirty s)(b := False)\<rparr>)
     \<and> (\<forall>c k. k < 1024 \<longrightarrow> disk_word s' c k = (if c = b \<and> dirty s b then mem s b k else disk_word s c k))"

lemma write_block_ok:
  assumes "super_ok s n" "b < n" "mapped s b"
  shows "\<exists>s'. write_block s b = Some s' \<and> flushed s b s'"
proof (cases "dirty s b")
  case False
  then have "(dirty s)(b := False) = dirty s" by (simp add: fun_upd_idem)
  then have "s = s\<lparr>disk := disk s, dirty := (dirty s)(b := False)\<rparr>" by simp
  then have "\<exists>dk. s = s\<lparr>disk := dk, dirty := (dirty s)(b := False)\<rparr>"
    by (rule exI [of "\<lambda>dk. s = s\<lparr>disk := dk, dirty := (dirty s)(b := False)\<rparr>" "disk s"])
  then have "flushed s b s" using False by (simp add: flushed_def)
  then show ?thesis using assms False
    by (simp add: write_block_def super_ok_is_mapped super_ok_is_dirty)
next
  case True
  have lim: "b \<le> block_limit" using assms(1,2) by (simp add: super_ok_def)
  obtain dk where w: "ide_write s DISKNO (push_bit 3 (of_nat b)) b 8 = Some (s\<lparr>disk := dk\<rparr>)"
      and d: "\<forall>c k. k < 1024 \<longrightarrow> disk_word (s\<lparr>disk := dk\<rparr>) c k = (if c = b then mem s b k else disk_word s c k)"
    using ide_write_block [OF lim assms(3)] by blast
  let ?s = "s\<lparr>disk := dk, dirty := (dirty s)(b := False)\<rparr>"
  have "write_block s b = Some ?s"
    using assms True w
    by (simp add: write_block_def super_ok_is_mapped super_ok_is_dirty super_ok_diskaddr fs_mem_remap_def)
  moreover have "disk_word ?s c k = disk_word (s\<lparr>disk := dk\<rparr>) c k" for c k
    by (simp add: disk_word_def)
  ultimately show ?thesis using True d by (auto simp: flushed_def)
qed

section \<open>Synchronisation\<close>

text \<open>Block by block: those still to come are as at the start, those done are on disk.\<close>

definition synced :: "fsstate \<Rightarrow> nat \<Rightarrow> fsstate \<Rightarrow> bool" where
  "synced s i t \<longleftrightarrow>
     (\<exists>dk. t = s\<lparr>disk := dk, dirty := (\<lambda>b. dirty s b \<and> (b < i \<longrightarrow> \<not> mapped s b))\<rparr>)
     \<and> (\<forall>c k. k < 1024 \<longrightarrow>
          disk_word t c k = (if c < i \<and> mapped s c \<and> dirty s c then mem s c k else disk_word s c k))"

lemma synced_fields:
  assumes "synced s i t"
  shows "super t = super s" "mapped t = mapped s" "mem t = mem s"
    "dirty t = (\<lambda>b. dirty s b \<and> (b < i \<longrightarrow> \<not> mapped s b))"
  using assms by (auto simp: synced_def)

lemma synced_step:
  assumes "super_ok s n" "i < n" "synced s i t"
  shows "\<exists>t'. fs_sync_block i t = Some t' \<and> synced s (Suc i) t'"
proof -
  note f = synced_fields [OF assms(3)]
  have ok: "super_ok t n" using assms(1) super_ok_cong [OF f(1-3)] by simp
  have less: "b < Suc i \<longleftrightarrow> b < i \<or> b = i" for b by auto
  obtain dk where t: "t = s\<lparr>disk := dk, dirty := (\<lambda>b. dirty s b \<and> (b < i \<longrightarrow> \<not> mapped s b))\<rparr>"
    using assms(3) by (auto simp: synced_def)
  show ?thesis
  proof (cases "mapped s i \<and> dirty s i")
    case False
    then have nd: "block_is_dirty t i = Some False" using super_ok_is_dirty [OF ok assms(2)] f by auto
    have "(\<lambda>b. dirty s b \<and> (b < Suc i \<longrightarrow> \<not> mapped s b)) = (\<lambda>b. dirty s b \<and> (b < i \<longrightarrow> \<not> mapped s b))"
      using False by (auto simp: fun_eq_iff less)
    then have "synced s (Suc i) t" using assms(3) False by (auto simp: synced_def less)
    then show ?thesis using nd by (simp add: fs_sync_block_def)
  next
    case True
    then have d: "block_is_dirty t i = Some True" "mapped t i" "dirty t i"
      using super_ok_is_dirty [OF ok assms(2)] f by auto
    obtain t' where w: "write_block t i = Some t'" and fl: "flushed t i t'"
      using write_block_ok [OF ok assms(2) d(2)] by blast
    have "(dirty t)(i := False) = (\<lambda>b. dirty s b \<and> (b < Suc i \<longrightarrow> \<not> mapped s b))"
      using True by (auto simp: f(4) fun_eq_iff less)
    moreover obtain dk' where "t' = t\<lparr>disk := dk', dirty := (dirty t)(i := False)\<rparr>"
      using fl by (auto simp: flushed_def)
    ultimately have "t' = s\<lparr>disk := dk', dirty := (\<lambda>b. dirty s b \<and> (b < Suc i \<longrightarrow> \<not> mapped s b))\<rparr>"
      by (simp add: t)
    moreover have "disk_word t' c k = (if c < Suc i \<and> mapped s c \<and> dirty s c then mem s c k else disk_word s c k)"
      if "k < 1024" for c k
      using fl assms(3) d True that f(3) by (auto simp: flushed_def synced_def less)
    ultimately have "synced s (Suc i) t'" unfolding synced_def by blast
    then show ?thesis using w d by (auto simp: fs_sync_block_def)
  qed
qed

lemma fs_sync_ok:
  assumes "super_ok s n"
  shows "\<exists>t. fs_sync s = Some t \<and> synced s n t"
proof -
  obtain sb where sb: "super s = Some sb" "s_nblocks s sb = Some n"
    using assms by (auto simp: super_ok_def s_nblocks_def rd_def)
  let ?I = "\<lambda>xs t. \<exists>i \<le> n. xs = [i..<n] \<and> synced s i t"
  have "s = s\<lparr>disk := disk s, dirty := (\<lambda>b. dirty s b \<and> (b < 0 \<longrightarrow> \<not> mapped s b))\<rparr>" by simp
  then have "\<exists>dk. s = s\<lparr>disk := dk, dirty := (\<lambda>b. dirty s b \<and> (b < 0 \<longrightarrow> \<not> mapped s b))\<rparr>"
    by (rule exI [of "\<lambda>dk. s = s\<lparr>disk := dk, dirty := (\<lambda>b. dirty s b \<and> (b < 0 \<longrightarrow> \<not> mapped s b))\<rparr>" "disk s"])
  then have "synced s 0 s" by (simp add: synced_def)
  then have "?I [0..<n] s" by blast
  moreover have "\<exists>t'. fs_sync_block y t = Some t' \<and> ?I ys t'" if I: "?I (y # ys) t" for y ys t
  proof -
    from I obtain i where i: "i \<le> n" "y # ys = [i..<n]" "synced s i t" by blast
    then have "i < n" by (cases "i < n") auto
    moreover from this have "y = i" "ys = [Suc i..<n]" using i(2) by (simp_all add: upt_conv_Cons)
    ultimately show ?thesis using synced_step [OF assms _ i(3)] by (auto intro: Suc_leI)
  qed
  ultimately obtain t where t: "mfold fs_sync_block [0..<n] s = Some t" "?I [] t"
    using mfold_rule [of ?I "[0..<n]" s fs_sync_block] by blast
  then obtain i where "i \<le> n" "[] = [i..<n]" "synced s i t" by blast
  moreover from this have "i = n" by (metis le_neq_implies_less list.distinct(1) upt_conv_Cons)
  ultimately have "synced s n t" by simp
  then show ?thesis using sb t(1) by (simp add: fs_sync_def)
qed

end
