(* ===== verification/Pool.thy ===== *)
theory Pool
  imports Pmap
begin

text \<open>
  The contract of an allocator: a finite pool of numbers, an operation that takes one and
  one that gives one back. The kernel's page allocator and the block bitmap of the file
  server both provide it; what a client may rely on is proved once.
\<close>

locale pool =
  fixes inv :: "'s \<Rightarrow> bool"
    and avail :: "'s \<Rightarrow> nat set"
    and legal :: "'s \<Rightarrow> nat \<Rightarrow> bool"
    and take :: "'s \<Rightarrow> ((error + nat) \<times> 's) option"
    and give :: "'s \<Rightarrow> nat \<Rightarrow> 's option"
  assumes finite_avail: "inv s \<Longrightarrow> finite (avail s)"
    and take_none: "inv s \<Longrightarrow> avail s = {} \<Longrightarrow> \<exists>e. take s = Some (Inl e, s)"
    and take_some: "inv s \<Longrightarrow> avail s \<noteq> {} \<Longrightarrow>
      \<exists>x s'. take s = Some (Inr x, s') \<and> inv s' \<and> x \<in> avail s \<and> avail s' = avail s - {x}"
    and give_back: "inv s \<Longrightarrow> legal s x \<Longrightarrow> x \<notin> avail s \<Longrightarrow>
      \<exists>s'. give s x = Some s' \<and> inv s' \<and> avail s' = insert x (avail s)"
begin

text \<open>Take \<open>n\<close> numbers one after the other.\<close>

fun takes :: "nat \<Rightarrow> 's \<Rightarrow> (nat list \<times> 's) option" where
  "takes 0 s = Some ([], s)"
| "takes (Suc n) s =
     do {
       (r, s1) \<leftarrow> take s;
       case r of
         Inl _ \<Rightarrow> Some ([], s1)
       | Inr x \<Rightarrow> do { (xs, s2) \<leftarrow> takes n s1; Some (x # xs, s2) }
     }"

text \<open>They are distinct, come from the pool, and are as many as there are.\<close>

lemma takes_distinct:
  "inv s \<Longrightarrow> \<exists>xs s'. takes n s = Some (xs, s') \<and> inv s' \<and> distinct xs \<and> set xs \<subseteq> avail s
     \<and> avail s' = avail s - set xs \<and> length xs = min n (card (avail s))"
proof (induction n arbitrary: s)
  case (Suc n)
  show ?case
  proof (cases "avail s = {}")
    case True
    then obtain e where "takes (Suc n) s = Some ([], s)"
      using take_none [OF Suc.prems] by auto
    then show ?thesis using True Suc.prems by simp
  next
    case False
    obtain x s1 where t: "take s = Some (Inr x, s1)" "inv s1" "x \<in> avail s" "avail s1 = avail s - {x}"
      using take_some [OF Suc.prems False] by blast
    obtain xs s2 where r: "takes n s1 = Some (xs, s2)" "inv s2" "distinct xs" "set xs \<subseteq> avail s1"
        "avail s2 = avail s1 - set xs" "length xs = min n (card (avail s1))"
      using Suc.IH [OF t(2)] by blast
    have "card (avail s) = Suc (card (avail s1))"
      unfolding t(4) by (rule card.remove [OF finite_avail [OF Suc.prems] t(3)])
    then have "length (x # xs) = min (Suc n) (card (avail s))" using r(6) by simp
    moreover have "takes (Suc n) s = Some (x # xs, s2)" using t(1) r(1) by simp
    moreover have "distinct (x # xs)" "set (x # xs) \<subseteq> avail s" "avail s2 = avail s - set (x # xs)"
      using t(3,4) r(3-5) by auto
    ultimately show ?thesis using r(2) by blast
  qed
qed simp

text \<open>A number that was given back is taken again, if the pool was empty.\<close>

lemma take_given:
  assumes "inv s" "legal s x" "avail s = {}"
  shows "\<exists>s1 s2. give s x = Some s1 \<and> take s1 = Some (Inr x, s2) \<and> avail s2 = {}"
proof -
  obtain s1 where g: "give s x = Some s1" "inv s1" "avail s1 = {x}"
    using give_back [OF assms(1,2)] assms(3) by auto
  then show ?thesis using take_some [of s1] by auto
qed

end

section \<open>The page allocator\<close>

definition free_pages :: "kstate \<Rightarrow> nat set" where
  "free_pages s = {p. \<exists>fl. list_repr (page_free_list s) fl \<and> p \<in> set fl}"

definition page_list_ok :: "kstate \<Rightarrow> bool" where
  "page_list_ok s \<longleftrightarrow> (\<exists>fl. list_repr (page_free_list s) fl)"

lemma free_pages_list: "list_repr (page_free_list s) fl \<Longrightarrow> free_pages s = set fl"
  using qm.unique by (auto simp: free_pages_def)

interpretation pages: pool page_list_ok free_pages "\<lambda>_ _. True" page_alloc "\<lambda>s p. Some (page_free s p)"
proof
  fix s :: kstate and x :: nat
  assume "page_list_ok s"
  then obtain fl where fl: "list_repr (page_free_list s) fl" by (auto simp: page_list_ok_def)
  note av = free_pages_list [OF fl]
  show "finite (free_pages s)" by (simp add: av)
  show "\<exists>e. page_alloc s = Some (Inl e, s)" if "free_pages s = {}"
    using page_alloc_empty fl that av by auto
  show "\<exists>x s'. page_alloc s = Some (Inr x, s') \<and> page_list_ok s' \<and> x \<in> free_pages s
      \<and> free_pages s' = free_pages s - {x}" if ne: "free_pages s \<noteq> {}"
  proof -
    obtain p ps where c: "fl = p # ps" using ne av by (cases fl) auto
    obtain q where q: "page_alloc s = Some (Inr p, s\<lparr>page_free_list := q\<rparr>)" "list_repr q ps"
      using page_alloc_cons fl c by blast
    have "p \<notin> set ps" using qm.distinct [OF fl] c by simp
    moreover have "free_pages (s\<lparr>page_free_list := q\<rparr>) = set ps"
      by (rule free_pages_list) (simp add: q(2))
    ultimately show ?thesis using q c av by (auto simp: page_list_ok_def)
  qed
  show "\<exists>s'. Some (page_free s x) = Some s' \<and> page_list_ok s' \<and> free_pages s' = insert x (free_pages s)"
    if "x \<notin> free_pages s"
  proof -
    have l: "list_repr (page_free_list (page_free s x)) (x # fl)"
      by (rule page_free_list_free [OF fl]) (use that av in simp)
    then show ?thesis using free_pages_list [OF l] av by (auto simp: page_list_ok_def)
  qed
qed

end
