(* ===== verification/Fs_Bitmap.thy ===== *)
theory Fs_Bitmap
  imports Fs_Disk Pool
begin

text \<open>
  The block bitmap as a set: \<open>alloc_block_num\<close> takes the least free block from 2 on,
  \<open>free_block\<close> gives one back, and no other block changes. The bitmap is an instance of the
  allocator contract of theory \<open>Pool\<close>.
\<close>

unbundle bit_operations_syntax

section \<open>The bits\<close>

lemma bm_mask_bit: "bit (bm_mask b) n \<longleftrightarrow> n = b mod 32"
  by (auto simp: bm_mask_def bit_simps)

lemma bm_test: "w AND bm_mask b \<noteq> 0 \<longleftrightarrow> bit w (b mod 32)"
proof
  assume "w AND bm_mask b \<noteq> 0"
  then obtain n where "bit (w AND bm_mask b) n" by (auto simp: bit_eq_iff)
  then show "bit w (b mod 32)" by (auto simp: bit_and_iff bm_mask_bit)
next
  assume "bit w (b mod 32)"
  then have "bit (w AND bm_mask b) (b mod 32)" by (simp add: bit_and_iff bm_mask_bit)
  then show "w AND bm_mask b \<noteq> 0" by auto
qed

lemma bm_set: "bit (w OR bm_mask b) (c mod 32) \<longleftrightarrow> c mod 32 = b mod 32 \<or> bit w (c mod 32)"
  by (auto simp: bit_or_iff bm_mask_bit)

lemma bm_clear: "bit (w AND NOT (bm_mask b)) (c mod 32) \<longleftrightarrow> c mod 32 \<noteq> b mod 32 \<and> bit w (c mod 32)"
proof -
  have "c mod 32 < 32" by simp
  then show ?thesis by (auto simp: bit_and_iff bit_not_iff bm_mask_bit)
qed

lemma bm_word_inj: "bm_word bm b = bm_word bm c \<Longrightarrow> b mod 32 = c mod 32 \<Longrightarrow> b = c"
proof -
  assume "bm_word bm b = bm_word bm c" and r: "b mod 32 = c mod 32"
  then have "b div 32 div 1024 = c div 32 div 1024" "b div 32 mod 1024 = c div 32 mod 1024"
    by (simp_all add: bm_word_def)
  then have "b div 32 = c div 32" by (metis div_mult_mod_eq)
  with r show "b = c" by (metis div_mult_mod_eq)
qed

section \<open>Free blocks\<close>

definition bm_bit :: "fsstate \<Rightarrow> nat \<Rightarrow> nat \<Rightarrow> bool" where
  "bm_bit s bm b = bit (mem s (fst (bm_word bm b)) (snd (bm_word bm b))) (b mod 32)"

definition bm_ok :: "fsstate \<Rightarrow> nat \<Rightarrow> nat \<Rightarrow> bool" where
  "bm_ok s n bm \<longleftrightarrow> super_ok s n \<and> bitmap s = Some bm \<and> (\<exists>sb. super s = Some sb \<and> sb < bm)
     \<and> (\<forall>b < n. mapped s (fst (bm_word bm b)))"

definition free_set :: "fsstate \<Rightarrow> nat set" where
  "free_set s = {b. block_is_free s b = Some True}"

lemma bm_ok_is_free: "bm_ok s n bm \<Longrightarrow> block_is_free s b = Some (b < n \<and> bm_bit s bm b)"
proof -
  assume ok: "bm_ok s n bm"
  then obtain sb where sb: "super s = Some sb" "s_nblocks s sb = Some n"
    by (auto simp: bm_ok_def super_ok_def s_nblocks_def rd_def)
  show ?thesis
  proof (cases "b < n")
    case True
    then have "mapped s (fst (bm_word bm b))" using ok by (simp add: bm_ok_def)
    then show ?thesis using ok sb True
      by (simp add: bm_ok_def block_is_free_def bm_bit_def rd_def bm_test case_prod_unfold Let_def)
  next
    case False
    then show ?thesis using ok sb by (simp add: block_is_free_def)
  qed
qed

lemma bm_ok_free_set: "bm_ok s n bm \<Longrightarrow> free_set s = {b. b < n \<and> bm_bit s bm b}"
  by (auto simp: free_set_def bm_ok_is_free)

text \<open>A store to the bitmap: nothing else changes.\<close>

definition bm_store :: "fsstate \<Rightarrow> nat \<Rightarrow> nat \<Rightarrow> u32 \<Rightarrow> fsstate" where
  "bm_store s b k w = s\<lparr>mem := (mem s)(b := (mem s b)(k := w)), dirty := (dirty s)(b := True)\<rparr>"

lemma bm_store_fields [simp]:
  "super (bm_store s b k w) = super s" "bitmap (bm_store s b k w) = bitmap s"
  "mapped (bm_store s b k w) = mapped s" "disk (bm_store s b k w) = disk s"
  "grants (bm_store s b k w) = grants s"
  "mem (bm_store s b k w) = (mem s)(b := (mem s b)(k := w))"
  by (simp_all add: bm_store_def)

lemma wr_store: "mapped s b \<Longrightarrow> wr s b k w = Some (bm_store s b k w)"
  by (simp add: wr_def bm_store_def)

lemma bm_ok_store:
  assumes "bm_ok s n bm" "bm \<le> b"
  shows "bm_ok (bm_store s b k w) n bm"
  using assms by (auto simp: bm_ok_def super_ok_def)

lemma bm_word_ge: "bm \<le> fst (bm_word bm b)"
  by (simp add: bm_word_def)

lemma bm_bit_store:
  assumes "bm_word bm b = (c, k)"
  shows "bm_bit (bm_store s c k w) bm x
    = (if bm_word bm x = (c, k) then bit w (x mod 32) else bm_bit s bm x)"
  using assms by (cases "bm_word bm x") (auto simp: bm_bit_def)

lemma bm_other_bit: "bm_word bm b = bm_word bm x \<Longrightarrow> x \<noteq> b \<Longrightarrow> x mod 32 \<noteq> b mod 32"
  using bm_word_inj by metis

lemma bm_bit_clear:
  assumes "bm_word bm b = (c, k)"
  shows "bm_bit (bm_store s c k (mem s c k AND NOT (bm_mask b))) bm x \<longleftrightarrow> x \<noteq> b \<and> bm_bit s bm x"
  using bm_other_bit [of bm b x] assms by (auto simp: bm_bit_store [OF assms] bm_clear) (auto simp: bm_bit_def)

lemma bm_bit_set:
  assumes "bm_word bm b = (c, k)"
  shows "bm_bit (bm_store s c k (mem s c k OR bm_mask b)) bm x \<longleftrightarrow> x = b \<or> bm_bit s bm x"
  using bm_other_bit [of bm b x] assms by (auto simp: bm_bit_store [OF assms] bm_set) (auto simp: bm_bit_def)

section \<open>Allocation\<close>

lemma alloc_scan_none:
  assumes "bm_ok s n bm" "\<forall>b \<in> set bs. b < n \<and> \<not> bm_bit s bm b"
  shows "alloc_scan s bm bs = Some (Inl E_NO_DISK, s)"
  using assms(2)
proof (induction bs)
  case (Cons b bs)
  then have "mapped s (fst (bm_word bm b))" using assms(1) by (simp add: bm_ok_def)
  then show ?case using Cons
    by (simp add: Let_def case_prod_unfold rd_def bm_test bm_bit_def)
qed simp

lemma alloc_scan_some:
  assumes "bm_ok s n bm" "\<forall>b \<in> set bs. b < n \<and> \<not> bm_bit s bm b" "x < n" "bm_bit s bm x"
  shows "alloc_scan s bm (bs @ x # cs) = Some (Inr x, bm_store s (fst (bm_word bm x)) (snd (bm_word bm x))
     (mem s (fst (bm_word bm x)) (snd (bm_word bm x)) AND NOT (bm_mask x)))"
  using assms(2)
proof (induction bs)
  case Nil
  have "mapped s (fst (bm_word bm x))" using assms(1,3) by (simp add: bm_ok_def)
  then show ?case using assms(4)
    by (simp add: Let_def case_prod_unfold rd_def bm_test bm_bit_def wr_store)
next
  case (Cons b bs)
  then have "mapped s (fst (bm_word bm b))" using assms(1) by (simp add: bm_ok_def)
  then show ?case using Cons
    by (simp add: Let_def case_prod_unfold rd_def bm_test bm_bit_def)
qed

text \<open>What changed: one bit, in a block of the bitmap.\<close>

definition bm_changed :: "fsstate \<Rightarrow> nat \<Rightarrow> nat \<Rightarrow> fsstate \<Rightarrow> bool" where
  "bm_changed s bm b s' \<longleftrightarrow> (\<exists>w. s' = bm_store s (fst (bm_word bm b)) (snd (bm_word bm b)) w)"

lemma alloc_block_num_none:
  assumes "bm_ok s n bm" "\<forall>b \<in> free_set s. b < 2"
  shows "alloc_block_num s = Some (Inl E_NO_DISK, s)"
proof -
  obtain sb where sb: "super s = Some sb" "s_nblocks s sb = Some n" "bitmap s = Some bm"
    using assms(1) by (auto simp: bm_ok_def super_ok_def s_nblocks_def rd_def)
  have "\<forall>b \<in> set [2..<n]. b < n \<and> \<not> bm_bit s bm b"
    using assms(2) by (auto simp: bm_ok_free_set [OF assms(1)])
  from alloc_scan_none [OF assms(1) this] show ?thesis using sb by (simp add: alloc_block_num_def)
qed

lemma alloc_block_num_some:
  assumes "bm_ok s n bm" "x \<in> free_set s" "2 \<le> x" "\<forall>b \<in> free_set s. 2 \<le> b \<longrightarrow> x \<le> b"
  shows "\<exists>s'. alloc_block_num s = Some (Inr x, s') \<and> bm_ok s' n bm \<and> bm_changed s bm x s'
    \<and> free_set s' = free_set s - {x}"
proof -
  obtain sb where sb: "super s = Some sb" "s_nblocks s sb = Some n" "bitmap s = Some bm"
    using assms(1) by (auto simp: bm_ok_def super_ok_def s_nblocks_def rd_def)
  note fs = bm_ok_free_set [OF assms(1)]
  have x: "x < n" "bm_bit s bm x" using assms(2) fs by auto
  obtain c k where ck: "bm_word bm x = (c, k)" by (cases "bm_word bm x")
  let ?s = "bm_store s c k (mem s c k AND NOT (bm_mask x))"
  have "[2..<n] = [2..<x] @ x # [Suc x..<n]"
    using x(1) assms(3) by (metis le_add_diff_inverse less_imp_le_nat upt_add_eq_append upt_conv_Cons)
  moreover have "\<forall>b \<in> set [2..<x]. b < n \<and> \<not> bm_bit s bm b"
    using assms(4) x(1) fs by fastforce
  ultimately have "alloc_block_num s = Some (Inr x, ?s)"
    using sb x assms(3) alloc_scan_some [OF assms(1) _ x, of "[2..<x]" "[Suc x..<n]"] ck
    by (simp add: alloc_block_num_def)
  moreover have ok: "bm_ok ?s n bm"
    by (rule bm_ok_store [OF assms(1)]) (use bm_word_ge [of bm x] ck in simp)
  moreover have "free_set ?s = free_set s - {x}"
    unfolding bm_ok_free_set [OF ok] fs
    by (auto simp: bm_bit_clear [OF ck])
  moreover have "bm_changed s bm x ?s" using ck by (auto simp: bm_changed_def)
  ultimately show ?thesis by blast
qed

lemma free_block_ok:
  assumes "bm_ok s n bm" "x \<noteq> 0" "x < n"
  shows "\<exists>s'. free_block s x = Some s' \<and> bm_ok s' n bm \<and> bm_changed s bm x s'
    \<and> free_set s' = insert x (free_set s)"
proof -
  obtain c k where ck: "bm_word bm x = (c, k)" by (cases "bm_word bm x")
  have m: "mapped s c" "bitmap s = Some bm" using assms(1,3) ck by (auto simp: bm_ok_def)
  let ?s = "bm_store s c k (mem s c k OR bm_mask x)"
  have "free_block s x = Some ?s"
    using assms(2) m ck by (simp add: free_block_def rd_def wr_store)
  moreover have ok: "bm_ok ?s n bm"
    by (rule bm_ok_store [OF assms(1)]) (use bm_word_ge [of bm x] ck in simp)
  moreover have "free_set ?s = insert x (free_set s)"
    unfolding bm_ok_free_set [OF ok] bm_ok_free_set [OF assms(1)]
    using assms(3) by (auto simp: bm_bit_set [OF ck])
  moreover have "bm_changed s bm x ?s" using ck by (auto simp: bm_changed_def)
  ultimately show ?thesis by blast
qed

section \<open>The bitmap is a pool\<close>

definition fs_inv :: "fsstate \<Rightarrow> bool" where
  "fs_inv s \<longleftrightarrow> (\<exists>n bm. bm_ok s n bm)"

definition fs_avail :: "fsstate \<Rightarrow> nat set" where
  "fs_avail s = {b \<in> free_set s. 2 \<le> b}"

definition fs_legal :: "fsstate \<Rightarrow> nat \<Rightarrow> bool" where
  "fs_legal s b \<longleftrightarrow> 2 \<le> b \<and> bad_block s b = Some False"

lemma fs_avail_finite: "bm_ok s n bm \<Longrightarrow> finite (fs_avail s)"
  by (simp add: fs_avail_def bm_ok_free_set)

interpretation blocks: pool fs_inv fs_avail fs_legal alloc_block_num free_block
proof
  fix s :: fsstate and x :: nat
  assume "fs_inv s"
  then obtain n bm where ok: "bm_ok s n bm" by (auto simp: fs_inv_def)
  show fin: "finite (fs_avail s)" by (rule fs_avail_finite [OF ok])
  show "\<exists>e. alloc_block_num s = Some (Inl e, s)" if "fs_avail s = {}"
    using alloc_block_num_none [OF ok] that by (force simp: fs_avail_def)
  show "\<exists>x s'. alloc_block_num s = Some (Inr x, s') \<and> fs_inv s' \<and> x \<in> fs_avail s
      \<and> fs_avail s' = fs_avail s - {x}" if ne: "fs_avail s \<noteq> {}"
  proof -
    have m: "Min (fs_avail s) \<in> fs_avail s" by (rule Min_in [OF fin ne])
    then have "Min (fs_avail s) \<in> free_set s" "2 \<le> Min (fs_avail s)" by (simp_all add: fs_avail_def)
    moreover have "\<forall>b \<in> free_set s. 2 \<le> b \<longrightarrow> Min (fs_avail s) \<le> b"
      using Min_le [OF fin] by (simp add: fs_avail_def)
    ultimately obtain s' where "alloc_block_num s = Some (Inr (Min (fs_avail s)), s')" "bm_ok s' n bm"
        "free_set s' = free_set s - {Min (fs_avail s)}"
      using alloc_block_num_some [OF ok] by blast
    then show ?thesis using m by (auto simp: fs_inv_def fs_avail_def)
  qed
  show "\<exists>s'. free_block s x = Some s' \<and> fs_inv s' \<and> fs_avail s' = insert x (fs_avail s)"
    if "fs_legal s x" "x \<notin> fs_avail s"
  proof -
    have "x < n" "2 \<le> x" using that(1) ok by (auto simp: fs_legal_def bm_ok_def super_ok_bad)
    then obtain s' where "free_block s x = Some s'" "bm_ok s' n bm" "free_set s' = insert x (free_set s)"
      using free_block_ok [OF ok, of x] by auto
    then show ?thesis using \<open>2 \<le> x\<close> by (auto simp: fs_inv_def fs_avail_def)
  qed
qed

end
