(* ===== verification/Fs_Map.thy ===== *)
theory Fs_Map
  imports Fs_Bitmap
begin

text \<open>
  The block map of a file: \<open>file_block_walk\<close> and \<open>file_map_block\<close> against the function
  from file block numbers to disk block numbers that a \<open>struct File\<close> and its indirect block
  represent.

  The contents of a block are those of the page that caches it, or of the disk. The
  invariant \<open>fs_ok\<close> says that the superblock and the bitmap are in memory and that a free
  block is not: with it, a block that \<open>alloc_block\<close> returns is zero.
\<close>

unbundle bit_operations_syntax

section \<open>Invariant\<close>

definition view :: "fsstate \<Rightarrow> nat \<Rightarrow> nat \<Rightarrow> u32" where
  "view s b k = (if mapped s b then mem s b k else disk_word s b k)"

definition bm_area :: "nat \<Rightarrow> nat \<Rightarrow> nat set" where
  "bm_area bm n = (\<lambda>b. fst (bm_word bm b)) ` {..<n}"

definition fs_ok :: "fsstate \<Rightarrow> nat \<Rightarrow> nat \<Rightarrow> bool" where
  "fs_ok s n bm \<longleftrightarrow> bm_ok s n bm \<and> (\<forall>b \<in> free_set s. \<not> mapped s b)"

text \<open>What an operation leaves alone: blocks in use outside the bitmap.\<close>

definition kept :: "fsstate \<Rightarrow> nat \<Rightarrow> nat \<Rightarrow> fsstate \<Rightarrow> bool" where
  "kept s n bm s' \<longleftrightarrow> fs_ok s' n bm \<and> free_set s' \<subseteq> free_set s \<and> (\<forall>c. mapped s c \<longrightarrow> mapped s' c)
     \<and> super s' = super s
     \<and> (\<forall>c k. k < 1024 \<longrightarrow> c \<notin> bm_area bm n \<longrightarrow> c \<notin> free_set s \<longrightarrow> view s' c k = view s c k)"

lemma kept_refl: "fs_ok s n bm \<Longrightarrow> kept s n bm s"
  by (simp add: kept_def)

lemma kept_trans: "kept s n bm s1 \<Longrightarrow> kept s1 n bm s2 \<Longrightarrow> kept s n bm s2"
  by (auto simp: kept_def subset_eq)

lemma fs_ok_free: "fs_ok s n bm \<Longrightarrow> mapped s b \<Longrightarrow> b \<notin> free_set s"
  by (auto simp: fs_ok_def)

lemma fs_ok_super: "fs_ok s n bm \<Longrightarrow> super_ok s n"
  by (simp add: fs_ok_def bm_ok_def)

lemma fs_ok_is_free: "fs_ok s n bm \<Longrightarrow> b \<notin> free_set s \<Longrightarrow> block_is_free s b = Some False"
  by (auto simp: fs_ok_def bm_ok_is_free bm_ok_free_set)

section \<open>Allocation of a block\<close>

lemma bm_changed_fields:
  assumes "bm_changed s bm x s'"
  shows "super s' = super s" "bitmap s' = bitmap s" "mapped s' = mapped s" "disk s' = disk s"
    "grants s' = grants s" "c \<noteq> fst (bm_word bm x) \<Longrightarrow> mem s' c = mem s c"
  using assms by (auto simp: bm_changed_def)

lemma fs_mem_alloc_bm_ok:
  assumes ok: "bm_ok s n bm" and x: "\<not> mapped s x" and a: "fs_mem_alloc s x = (r, s')"
  shows "bm_ok s' n bm" "free_set s' = free_set s"
proof -
  have m: "mem s' c = mem s c" if "mapped s c" for c
    using that x a by (auto simp: fs_mem_alloc_def Let_def split: if_splits)
  have f: "super s' = super s" "bitmap s' = bitmap s" "\<And>c. mapped s c \<Longrightarrow> mapped s' c"
    using a by (auto simp: fs_mem_alloc_def Let_def split: if_splits)
  show ok': "bm_ok s' n bm" using ok f m by (auto simp: bm_ok_def super_ok_def)
  have "bm_bit s' bm b = bm_bit s bm b" if "b < n" for b
    using ok m that by (simp add: bm_ok_def bm_bit_def)
  then show "free_set s' = free_set s"
    by (auto simp: bm_ok_free_set [OF ok] bm_ok_free_set [OF ok'])
qed

text \<open>The three outcomes of \<open>alloc_block\<close>.\<close>

definition got_block :: "fsstate \<Rightarrow> nat \<Rightarrow> fsstate \<Rightarrow> bool" where
  "got_block s x s' \<longleftrightarrow> x \<in> free_set s \<and> 2 \<le> x \<and> free_set s' = free_set s - {x} \<and> mapped s' x \<and> mem s' x = (\<lambda>_. 0)"

lemma alloc_block_ok:
  assumes ok: "fs_ok s n bm"
  obtains e s' where "alloc_block s = Some (Inl e, s')" "e = E_NO_DISK \<or> e = E_NO_MEM" "kept s n bm s'"
    | x s' where "alloc_block s = Some (Inr x, s')" "got_block s x s'" "kept s n bm s'"
proof -
  have bm: "bm_ok s n bm" using ok by (simp add: fs_ok_def)
  show thesis
  proof (cases "\<forall>b \<in> free_set s. b < 2")
    case True
    then show thesis using that(1) alloc_block_num_none [OF bm True] kept_refl [OF ok]
      by (simp add: alloc_block_def)
  next
    case False
    define x where "x = (LEAST b. b \<in> free_set s \<and> 2 \<le> b)"
    have x: "x \<in> free_set s \<and> 2 \<le> x" unfolding x_def by (rule LeastI_ex) (use False in force)
    have least: "\<forall>b \<in> free_set s. 2 \<le> b \<longrightarrow> x \<le> b" by (auto simp: x_def intro: Least_le)
    obtain s1 where s1: "alloc_block_num s = Some (Inr x, s1)" "bm_ok s1 n bm" "bm_changed s bm x s1"
        "free_set s1 = free_set s - {x}"
      using alloc_block_num_some [OF bm _ _ least] x by blast
    note f1 = bm_changed_fields [OF s1(3)]
    have xn: "x < n" and xm: "\<not> mapped s1 x"
      using x ok f1(3) by (auto simp: bm_ok_free_set [OF bm] fs_ok_def)
    have xa: "fst (bm_word bm x) \<in> bm_area bm n" using xn by (auto simp: bm_area_def)
    obtain r s2 where a: "fs_mem_alloc s1 x = (r, s2)" by (cases "fs_mem_alloc s1 x")
    note m2 = fs_mem_alloc_bm_ok [OF s1(2) xm a]
    have so1: "super_ok s1 n" using s1(2) by (simp add: bm_ok_def)
    have mb: "map_block s1 x = Some (r, s2)"
      using xm xn a by (simp add: map_block_def super_ok_is_mapped [OF so1 xn] super_ok_diskaddr [OF so1])
    have f2: "super s2 = super s1" "disk s2 = disk s1" "\<And>c. mapped s1 c \<Longrightarrow> mapped s2 c"
        "\<And>c. c \<noteq> x \<Longrightarrow> mem s2 c = mem s1 c \<and> mapped s2 c = mapped s1 c"
      using a by (auto simp: fs_mem_alloc_def Let_def split: if_splits)
    have v2: "view s2 c k = view s c k" if "c \<notin> bm_area bm n" "c \<notin> free_set s" for c k
    proof -
      have "c \<noteq> x" "c \<noteq> fst (bm_word bm x)" using that x xa by auto
      then show ?thesis using f1 f2 by (simp add: view_def disk_word_def)
    qed
    show thesis
    proof (cases r)
      case Inr
      then have g: "mapped s2 x" "mem s2 x = (\<lambda>_. 0)"
        using a by (auto simp: fs_mem_alloc_def Let_def split: if_splits)
      have "fs_ok s2 n bm" using m2 ok f1 f2(4) s1(4) by (auto simp: fs_ok_def)
      then have "kept s n bm s2" using v2 f1 f2 m2 s1(4) by (auto simp: kept_def)
      moreover have "got_block s x s2" using x m2 s1(4) g by (simp add: got_block_def)
      moreover have "alloc_block s = Some (Inr x, s2)" using s1 mb Inr by (simp add: alloc_block_def)
      ultimately show thesis using that(2) by blast
    next
      case (Inl e)
      then have nm: "e = E_NO_MEM" "mapped s2 = mapped s1"
        using a by (auto simp: fs_mem_alloc_def Let_def split: if_splits)
      obtain s3 where s3: "free_block s2 x = Some s3" "bm_ok s3 n bm" "bm_changed s2 bm x s3"
          "free_set s3 = insert x (free_set s2)"
        using free_block_ok [OF m2(1) _ xn] x by auto
      note f3 = bm_changed_fields [OF s3(3)]
      have fs: "free_set s3 = free_set s" using s3(4) m2(2) s1(4) x by auto
      have "fs_ok s3 n bm" using s3(2) fs nm f1(3) f3(3) ok by (simp add: fs_ok_def)
      moreover have "view s3 c k = view s2 c k" if "c \<notin> bm_area bm n" for c k
      proof -
        have "c \<noteq> fst (bm_word bm x)" using that xa by auto
        then show ?thesis using f3 by (simp add: view_def disk_word_def)
      qed
      ultimately have "kept s n bm s3" using v2 fs nm f1 f2(1) f3 by (auto simp: kept_def)
      moreover have "alloc_block s = Some (Inl e, s3)" using s1 mb Inl s3 by (simp add: alloc_block_def)
      ultimately show thesis using that(1) nm(1) by blast
    qed
  qed
qed

section \<open>Reading a block and storing to one\<close>

lemma read_block_ok:
  assumes ok: "fs_ok s n bm" and b: "b < n" "b \<notin> free_set s"
  obtains s' where "read_block s b = Some (Inl E_NO_MEM, s')" "kept s n bm s'"
    | new s' where "read_block s b = Some (Inr new, s')" "mapped s' b" "kept s n bm s'"
      "free_set s' = free_set s"
proof -
  have so: "super_ok s n" and bm: "bm_ok s n bm" using ok by (simp_all add: fs_ok_def bm_ok_def)
  have nf: "bitmap s = None \<or> block_is_free s b = Some False" using fs_ok_is_free [OF ok b(2)] by simp
  consider "mapped s b" | "\<not> mapped s b" "\<not> grants s 0" | "\<not> mapped s b" "grants s 0" by blast
  then show thesis
  proof cases
    case 1
    then show thesis using that(2) read_block_mapped [OF so b(1) nf 1] kept_refl [OF ok] by blast
  next
    case 2
    let ?s = "s\<lparr>grants := \<lambda>k. grants s (Suc k)\<rparr>"
    have e: "bm_ok ?s n bm" using bm by (simp add: bm_ok_def super_ok_def)
    have "free_set ?s = free_set s" by (simp add: bm_ok_free_set [OF e] bm_ok_free_set [OF bm] bm_bit_def)
    then have "kept s n bm ?s" using ok e by (auto simp: kept_def fs_ok_def view_def disk_word_def)
    then show thesis using that(1) read_block_no_mem [OF so b(1) nf 2] by blast
  next
    case 3
    obtain w where w: "read_block s b = Some (Inr True, s\<lparr>mem := (mem s)(b := w),
        mapped := (mapped s)(b := True), dirty := (dirty s)(b := True), grants := (\<lambda>k. grants s (Suc k))\<rparr>)"
        (is "_ = Some (_, ?s)") and d: "\<forall>k < 1024. w k = disk_word s b k"
      using read_block_loads [OF so b(1) nf 3] by blast
    have c: "mem ?s c = mem s c" "mapped ?s c = mapped s c" if "c \<noteq> b" for c using that by simp_all
    have area: "mapped s (fst (bm_word bm x))" if "x < n" for x using bm that by (simp add: bm_ok_def)
    have e: "bm_ok ?s n bm"
      using bm 3(1) area by (auto simp: bm_ok_def super_ok_def)
    have "bm_bit ?s bm x = bm_bit s bm x" if "x < n" for x
    proof -
      have "fst (bm_word bm x) \<noteq> b" using area [OF that] 3(1) by auto
      then show ?thesis by (simp add: bm_bit_def)
    qed
    then have f: "free_set ?s = free_set s"
      by (auto simp: bm_ok_free_set [OF e] bm_ok_free_set [OF bm])
    moreover have "view ?s c k = view s c k" if "k < 1024" for c k
      using d that 3(1) by (auto simp: view_def disk_word_def)
    ultimately have "kept s n bm ?s" using ok e b(2) by (auto simp: kept_def fs_ok_def)
    then show thesis using that(2) w f by simp
  qed
qed

lemma wr_ok:
  assumes ok: "fs_ok s n bm" and b: "mapped s b" "b \<notin> bm_area bm n" "k \<noteq> 1"
  obtains s' where "wr s b k w = Some s'" "fs_ok s' n bm" "free_set s' = free_set s" "mapped s' = mapped s"
    "super s' = super s" "\<And>c j. view s' c j = (if c = b \<and> j = k then w else view s c j)"
proof -
  have bm: "bm_ok s n bm" using ok by (simp add: fs_ok_def)
  let ?s = "bm_store s b k w"
  have e: "bm_ok ?s n bm" using bm b(3) by (auto simp: bm_ok_def super_ok_def)
  have "bm_bit ?s bm x = bm_bit s bm x" if "x < n" for x
  proof -
    have "fst (bm_word bm x) \<noteq> b" using b(2) that by (auto simp: bm_area_def)
    then show ?thesis by (simp add: bm_bit_def)
  qed
  then have f: "free_set ?s = free_set s" by (auto simp: bm_ok_free_set [OF e] bm_ok_free_set [OF bm])
  have "fs_ok ?s n bm" using ok e f by (simp add: fs_ok_def)
  moreover have "view ?s c j = (if c = b \<and> j = k then w else view s c j)" for c j
    using b(1) by (auto simp: view_def disk_word_def)
  ultimately show thesis using that [of ?s] f wr_store [OF b(1)] by simp
qed

section \<open>Files\<close>

text \<open>The disk block of each file block: 0 is a hole.\<close>

definition file_lookup :: "fsstate \<Rightarrow> fptr \<Rightarrow> nat \<Rightarrow> nat" where
  "file_lookup s f i =
     (if i < NDIRECT then unat (view s (fst f) (snd f + off_direct + i))
      else let ind = unat (view s (fst f) (snd f + off_indirect))
           in if ind = 0 then 0 else unat (view s ind i))"

text \<open>The file structure is in memory, and its indirect block is in use, elsewhere.\<close>

definition file_ok :: "fsstate \<Rightarrow> nat \<Rightarrow> nat \<Rightarrow> fptr \<Rightarrow> bool" where
  "file_ok s n bm f \<longleftrightarrow> mapped s (fst f) \<and> fst f \<notin> bm_area bm n \<and> snd f + off_dir < 1024
     \<and> (let ind = unat (view s (fst f) (snd f + off_indirect))
        in ind \<noteq> 0 \<longrightarrow> ind < n \<and> ind \<notin> free_set s \<and> ind \<notin> bm_area bm n \<and> ind \<noteq> fst f)"

lemma kept_file:
  assumes ok: "fs_ok s n bm" "file_ok s n bm f" and k: "kept s n bm s'"
  shows "file_ok s' n bm f" "i < 1024 \<Longrightarrow> file_lookup s' f i = file_lookup s f i"
    "view s' (fst f) (snd f + off_indirect) = view s (fst f) (snd f + off_indirect)"
proof -
  have m: "fst f \<notin> free_set s" using ok fs_ok_free by (simp add: file_ok_def)
  have v: "view s' (fst f) j = view s (fst f) j" if "j < 1024" for j
    using k ok(2) m that by (simp add: kept_def file_ok_def)
  have lay: "snd f + off_indirect < 1024" "j < NDIRECT \<Longrightarrow> snd f + off_direct + j < 1024" for j
    using ok(2) by (simp_all add: file_ok_def file_layout NDIRECT_def)
  show e: "view s' (fst f) (snd f + off_indirect) = view s (fst f) (snd f + off_indirect)"
    by (rule v [OF lay(1)])
  show "file_ok s' n bm f" using ok(2) k unfolding file_ok_def e by (auto simp: kept_def Let_def)
  show "file_lookup s' f i = file_lookup s f i" if "i < 1024"
    using ok(2) k that v [OF lay(2)] unfolding file_lookup_def e by (auto simp: kept_def file_ok_def Let_def)
qed

text \<open>
  The pointer that the walk finds is the word of the map for this file block, in a block of
  memory, and is the word of no other file block.
\<close>

definition slot_ok :: "fsstate \<Rightarrow> nat \<Rightarrow> nat \<Rightarrow> fptr \<Rightarrow> nat \<Rightarrow> fptr \<Rightarrow> bool" where
  "slot_ok s n bm f i p \<longleftrightarrow> mapped s (fst p) \<and> fst p \<notin> bm_area bm n \<and> snd p \<noteq> 1 \<and> snd p < 1024
     \<and> p = (if i < NDIRECT then (fst f, snd f + off_direct + i)
            else (unat (view s (fst f) (snd f + off_indirect)), i))
     \<and> (NDIRECT \<le> i \<longrightarrow> view s (fst f) (snd f + off_indirect) \<noteq> 0)"

lemma slot_lookup: "slot_ok s n bm f i p \<Longrightarrow> file_lookup s f i = unat (view s (fst p) (snd p))"
  by (auto simp: slot_ok_def file_lookup_def Let_def unat_eq_0 not_less split: if_splits)

lemma slot_kept:
  assumes "slot_ok s n bm f i p" "fs_ok s n bm" "file_ok s n bm f" "kept s n bm s'"
  shows "slot_ok s' n bm f i p"
proof -
  have "view s' (fst f) (snd f + off_indirect) = view s (fst f) (snd f + off_indirect)"
    by (rule kept_file(3) [OF assms(2-4)])
  then show ?thesis using assms(1,4) unfolding slot_ok_def kept_def by metis
qed

text \<open>A store to the slot changes the map at this file block only.\<close>

lemma slot_store:
  assumes s: "slot_ok s n bm f i p" and ok: "fs_ok s n bm" "file_ok s n bm f"
  obtains s' where "wr s (fst p) (snd p) w = Some s'" "fs_ok s' n bm" "file_ok s' n bm f"
    "free_set s' = free_set s" "file_lookup s' f i = unat w"
    "\<And>j. j \<noteq> i \<Longrightarrow> file_lookup s' f j = file_lookup s f j"
proof -
  obtain s' where w: "wr s (fst p) (snd p) w = Some s'" "fs_ok s' n bm" "free_set s' = free_set s"
      "mapped s' = mapped s" "super s' = super s"
      and v: "\<And>c j. view s' c j = (if c = fst p \<and> j = snd p then w else view s c j)"
    using wr_ok [OF ok(1), of "fst p" "snd p" w] s by (auto simp: slot_ok_def)
  let ?ind = "view s (fst f) (snd f + off_indirect)"
  have ne: "\<not> (fst p = fst f \<and> snd p = snd f + off_indirect)"
    using s ok(2) by (auto simp: slot_ok_def file_ok_def file_layout NDIRECT_def Let_def unat_eq_0 split: if_splits)
  have ind: "unat ?ind \<noteq> fst f" if "NDIRECT \<le> i"
    using s ok(2) that by (auto simp: slot_ok_def file_ok_def Let_def unat_eq_0)
  have vi: "view s' (fst f) (snd f + off_indirect) = ?ind" using v ne by auto
  have "file_ok s' n bm f" using ok(2) w unfolding file_ok_def vi by simp
  moreover have "file_lookup s' f i = unat w"
    using s ind v by (auto simp: slot_ok_def file_lookup_def Let_def vi unat_eq_0 not_less split: if_splits)
  moreover have "file_lookup s' f j = file_lookup s f j" if "j \<noteq> i" for j
    using s that ok(2) unfolding file_lookup_def vi
    by (auto simp: v slot_ok_def file_ok_def Let_def unat_eq_0 file_layout split: if_splits)
  ultimately show thesis using that w by blast
qed

section \<open>The walk\<close>

text \<open>What a walk leaves: the map of the file, and every block in use but the indirect pointer.\<close>

definition walk_kept :: "fsstate \<Rightarrow> nat \<Rightarrow> nat \<Rightarrow> fptr \<Rightarrow> fsstate \<Rightarrow> bool" where
  "walk_kept s n bm f s' \<longleftrightarrow> fs_ok s' n bm \<and> file_ok s' n bm f \<and> free_set s' \<subseteq> free_set s
     \<and> (\<forall>j < 1024. file_lookup s' f j = file_lookup s f j)
     \<and> (\<forall>c k. k < 1024 \<longrightarrow> c \<notin> bm_area bm n \<longrightarrow> c \<notin> free_set s \<longrightarrow>
          (c, k) \<noteq> (fst f, snd f + off_indirect) \<longrightarrow> view s' c k = view s c k)"

lemma kept_walk_kept:
  assumes "fs_ok s n bm" "file_ok s n bm f" "kept s n bm s'"
  shows "walk_kept s n bm f s'"
  unfolding walk_kept_def
proof (intro conjI allI impI)
  show "file_ok s' n bm f" by (rule kept_file(1) [OF assms])
  show "file_lookup s' f j = file_lookup s f j" if "j < 1024" for j by (rule kept_file(2) [OF assms that])
qed (use assms(3) in \<open>auto simp: kept_def\<close>)

lemma free_block_elsewhere:
  assumes "fs_ok s n bm" "x \<in> free_set s"
  shows "x < n" "x \<notin> bm_area bm n" "unat (of_nat x :: u32) = x" "mapped s c \<Longrightarrow> c \<noteq> x"
proof -
  have bm: "bm_ok s n bm" using assms(1) by (simp add: fs_ok_def)
  show x: "x < n" using assms(2) by (simp add: bm_ok_free_set [OF bm])
  have nm: "\<not> mapped s x" using assms by (simp add: fs_ok_def)
  then show "x \<notin> bm_area bm n" "mapped s c \<Longrightarrow> c \<noteq> x" using bm by (auto simp: bm_area_def bm_ok_def)
  show "unat (of_nat x :: u32) = x"
    using x bm by (simp add: bm_ok_def super_ok_def block_limit_def unat_of_nat_u32)
qed

lemma file_block_walk_ok:
  assumes ok: "fs_ok s n bm" "file_ok s n bm f" and i: "i < 1024"
  obtains e s' where "file_block_walk s f (of_nat i) alloc = Some (Inl e, s')" "walk_kept s n bm f s'"
      "e = E_NO_DISK \<or> e = E_NO_MEM \<or> e = E_NOT_FOUND \<and> \<not> alloc \<and> file_lookup s f i = 0"
    | p s' where "file_block_walk s f (of_nat i) alloc = Some (Inr p, s')" "walk_kept s n bm f s'"
      "slot_ok s' n bm f i p"
proof -
  have ui: "unat (of_nat i :: u32) = i" using i by (simp add: unat_of_nat_u32)
  have mf: "mapped s (fst f)" using ok(2) by (simp add: file_ok_def)
  let ?ind = "view s (fst f) (snd f + off_indirect)"
  have rind: "frd s f off_indirect = Some ?ind" using mf by (simp add: frd_def rd_def view_def)
  show thesis
  proof (cases "i < NDIRECT")
    case True
    have "slot_ok s n bm f i (fst f, snd f + off_direct + i)"
      using True ok(2) by (simp add: slot_ok_def file_ok_def file_layout NDIRECT_def)
    then show thesis using that(2) True ui kept_walk_kept [OF ok kept_refl [OF ok(1)]]
      by (simp add: file_block_walk_def)
  next
    case ge: False
    have ui2: "unat (of_nat i :: u32) < NINDIRECT" using ui i by (simp add: NINDIRECT_def)
    show thesis
    proof (cases "?ind = 0")
      case False
      then have "unat ?ind \<noteq> 0" by (simp add: unat_eq_0)
      then have ind: "unat ?ind < n" "unat ?ind \<notin> free_set s" "unat ?ind \<notin> bm_area bm n"
        using ok(2) unfolding file_ok_def Let_def by blast+
      show thesis
      proof (rule read_block_ok [OF ok(1) ind(1,2)])
        fix s' assume r: "read_block s (unat ?ind) = Some (Inl E_NO_MEM, s')" "kept s n bm s'"
        show thesis using that(1) r kept_walk_kept [OF ok r(2)] ge ui ui2 rind False
          by (simp add: file_block_walk_def)
      next
        fix new s' assume r: "read_block s (unat ?ind) = Some (Inr new, s')" "mapped s' (unat ?ind)" "kept s n bm s'"
        have "slot_ok s' n bm f i (unat ?ind, i)"
          using ge r(2) ind i False kept_file(3) [OF ok r(3)] by (simp add: slot_ok_def NDIRECT_def)
        then show thesis using that(2) r kept_walk_kept [OF ok r(3)] ge ui ui2 rind False
          by (simp add: file_block_walk_def)
      qed
    next
      case hole: True
      have z: "file_lookup s f j = 0" if "\<not> j < NDIRECT" for j using that hole by (simp add: file_lookup_def)
      show thesis
      proof (cases alloc)
        case False
        then show thesis using that(1) ge ui ui2 rind hole z [OF ge] kept_walk_kept [OF ok kept_refl [OF ok(1)]]
          by (simp add: file_block_walk_def)
      next
        case True
        show thesis
        proof (rule alloc_block_ok [OF ok(1)])
          fix e s1 assume a: "alloc_block s = Some (Inl e, s1)" "e = E_NO_DISK \<or> e = E_NO_MEM" "kept s n bm s1"
          show thesis using that(1) a kept_walk_kept [OF ok a(3)] ge ui ui2 rind hole True
            by (simp add: file_block_walk_def)
        next
          fix x s1 assume a: "alloc_block s = Some (Inr x, s1)" and g: "got_block s x s1" and k: "kept s n bm s1"
          have ok1: "fs_ok s1 n bm" "file_ok s1 n bm f" using k kept_file(1) [OF ok k] by (simp_all add: kept_def)
          have xf: "x \<in> free_set s" "x \<noteq> 0" using g by (auto simp: got_block_def)
          note fx = free_block_elsewhere [OF ok(1) xf(1)]
          have x: "x < n" "x \<notin> bm_area bm n" "unat (of_nat x :: u32) = x" "x \<noteq> fst f" "x \<noteq> 0"
            using fx(1-3) fx(4) [OF mf] xf(2) by auto
          then have wx: "(of_nat x :: u32) \<noteq> 0" by (metis unat_0)
          have mx: "mapped s1 x" "mem s1 x = (\<lambda>_. 0)" "x \<notin> free_set s1" using g by (simp_all add: got_block_def)
          have f1: "mapped s1 (fst f)" "fst f \<notin> bm_area bm n" "snd f + off_indirect \<noteq> 1"
            using ok1(2) by (simp_all add: file_ok_def file_layout)
          obtain s2 where w: "wr s1 (fst f) (snd f + off_indirect) (of_nat x) = Some s2" "fs_ok s2 n bm"
              "free_set s2 = free_set s1" "mapped s2 = mapped s1"
              and v: "\<And>c j. view s2 c j = (if c = fst f \<and> j = snd f + off_indirect then of_nat x else view s1 c j)"
            by (rule wr_ok [OF ok1(1) f1]) blast
          have vi: "view s2 (fst f) (snd f + off_indirect) = of_nat x" by (simp add: v)
          have fo: "file_ok s2 n bm f"
            using ok1(2) w x mx unfolding file_ok_def vi by (simp add: Let_def)
          have rd2: "frd s2 f off_indirect = Some (of_nat x)"
            using vi w(4) f1(1) by (simp add: frd_def rd_def view_def)
          have nf: "bitmap s2 = None \<or> block_is_free s2 x = Some False"
            using fs_ok_is_free [OF w(2)] mx(3) w(3) by simp
          have rb: "read_block s2 x = Some (Inr False, s2)"
            by (rule read_block_mapped [OF fs_ok_super [OF w(2)] x(1) nf]) (simp add: w(4) mx(1))
          have run: "file_block_walk s f (of_nat i) alloc = Some (Inr (x, i), s2)"
            using ge ui ui2 rind hole True a w(1) rd2 rb x(3)
            by (simp add: file_block_walk_def fwr_def)
          have lk: "file_lookup s2 f j = file_lookup s f j" if "j < 1024" for j
          proof (cases "j < NDIRECT")
            case True
            then have "file_lookup s2 f j = file_lookup s1 f j"
              by (simp add: file_lookup_def v file_layout NDIRECT_def)
            then show ?thesis using kept_file(2) [OF ok k that] by simp
          next
            case False
            have "view s2 x j = 0" using v [of x j] x(4) mx by (simp add: view_def [of s1])
            then show ?thesis using z False x by (simp add: file_lookup_def vi)
          qed
          have "slot_ok s2 n bm f i (x, i)"
            using ge x mx w(4) i wx vi by (simp add: slot_ok_def NDIRECT_def)
          moreover have "walk_kept s n bm f s2"
            using w(2,3) fo lk k v by (auto simp: walk_kept_def kept_def)
          ultimately show thesis using that(2) run by blast
        qed
      qed
    qed
  qed
qed

section \<open>The map of a file\<close>

text \<open>A result of \<open>file_map_block\<close>: a block that was there, a new one, or an error.\<close>

lemma file_map_block_ok:
  assumes ok: "fs_ok s n bm" "file_ok s n bm f" and i: "i < 1024"
  obtains e s' where "file_map_block s f (of_nat i) alloc = Some (Inl e, s')" "fs_ok s' n bm"
      "file_ok s' n bm f" "\<forall>j < 1024. file_lookup s' f j = file_lookup s f j"
      "file_lookup s f i = 0" "e = E_NO_DISK \<or> e = E_NO_MEM \<or> e = E_NOT_FOUND \<and> \<not> alloc"
    | e s' where "file_map_block s f (of_nat i) alloc = Some (Inl e, s')" "fs_ok s' n bm"
      "file_ok s' n bm f" "\<forall>j < 1024. file_lookup s' f j = file_lookup s f j" "e = E_NO_DISK \<or> e = E_NO_MEM"
    | s' where "file_map_block s f (of_nat i) alloc = Some (Inr (file_lookup s f i), s')" "fs_ok s' n bm"
      "file_ok s' n bm f" "\<forall>j < 1024. file_lookup s' f j = file_lookup s f j" "file_lookup s f i \<noteq> 0"
    | b s' where "file_map_block s f (of_nat i) alloc = Some (Inr b, s')" "fs_ok s' n bm"
      "file_ok s' n bm f" "\<forall>j < 1024. j \<noteq> i \<longrightarrow> file_lookup s' f j = file_lookup s f j"
      "file_lookup s' f i = b" "b \<noteq> 0" "file_lookup s f i = 0" "alloc" "b \<in> free_set s" "b \<notin> free_set s'"
      "mapped s' b" "\<forall>k. mem s' b k = 0"
proof (rule file_block_walk_ok [OF ok i, of alloc])
  fix e s' assume w: "file_block_walk s f (of_nat i) alloc = Some (Inl e, s')" "walk_kept s n bm f s'"
    "e = E_NO_DISK \<or> e = E_NO_MEM \<or> e = E_NOT_FOUND \<and> \<not> alloc \<and> file_lookup s f i = 0"
  then show thesis using that(1,2) by (auto simp: file_map_block_def walk_kept_def)
next
  fix p s1 assume w: "file_block_walk s f (of_nat i) alloc = Some (Inr p, s1)"
    and k: "walk_kept s n bm f s1" and sl: "slot_ok s1 n bm f i p"
  obtain b j where p: "p = (b, j)" by (cases p)
  have ok1: "fs_ok s1 n bm" "file_ok s1 n bm f" "free_set s1 \<subseteq> free_set s"
      "\<forall>j < 1024. file_lookup s1 f j = file_lookup s f j" using k by (simp_all add: walk_kept_def)
  have r: "rd s1 b j = Some (view s1 b j)" using sl p by (simp add: slot_ok_def rd_def view_def)
  have l: "file_lookup s f i = unat (view s1 b j)" using slot_lookup [OF sl] ok1(4) i p by simp
  show thesis
  proof (cases "view s1 b j = 0")
    case False
    then show thesis using that(3) [of s1] w r l ok1 p by (simp add: file_map_block_def unat_eq_0)
  next
    case hole: True
    show thesis
    proof (cases alloc)
      case False
      then show thesis using that(1) [of E_NOT_FOUND s1] w r l ok1 p hole by (simp add: file_map_block_def)
    next
      case True
      show thesis
      proof (rule alloc_block_ok [OF ok1(1)])
        fix e s2 assume a: "alloc_block s1 = Some (Inl e, s2)" "e = E_NO_DISK \<or> e = E_NO_MEM" "kept s1 n bm s2"
        have "fs_ok s2 n bm" using a(3) by (simp add: kept_def)
        then show thesis using that(2) [of e s2] w r p hole True a ok1(4) kept_file(1,2) [OF ok1(1,2) a(3)]
          by (simp add: file_map_block_def)
      next
        fix x s2 assume a: "alloc_block s1 = Some (Inr x, s2)" and g: "got_block s1 x s2" and k2: "kept s1 n bm s2"
        have ok2: "fs_ok s2 n bm" "file_ok s2 n bm f" using k2 kept_file(1) [OF ok1(1,2) k2] by (simp_all add: kept_def)
        have x: "x \<noteq> 0" "x \<in> free_set s1" "x \<notin> free_set s2" "mapped s2 x" "mem s2 x = (\<lambda>_. 0)"
          using g by (auto simp: got_block_def)
        have mb: "mapped s1 b" using sl p by (simp add: slot_ok_def)
        note fx = free_block_elsewhere [OF ok1(1) x(2)]
        have xb: "unat (of_nat x :: u32) = x" "x \<noteq> b" using fx(3) fx(4) [OF mb] by auto
        have sl2: "slot_ok s2 n bm f i p" by (rule slot_kept [OF sl ok1(1,2) k2])
        obtain s3 where s3: "wr s2 b j (of_nat x) = Some s3" "fs_ok s3 n bm" "file_ok s3 n bm f"
            "free_set s3 = free_set s2" "file_lookup s3 f i = x"
            "\<And>j. j \<noteq> i \<Longrightarrow> file_lookup s3 f j = file_lookup s2 f j"
          using slot_store [OF sl2 ok2, of "of_nat x"] p xb(1) by auto
        have "mapped s3 x" "\<forall>k. mem s3 x k = 0" using s3(1) x(4,5) xb(2) by (auto simp: wr_def split: if_splits)
        moreover have "file_map_block s f (of_nat i) alloc = Some (Inr x, s3)"
          using w r p hole True a s3(1) by (simp add: file_map_block_def)
        ultimately show thesis
          using that(4) [of x s3] s3 x l hole ok1(3,4) kept_file(2) [OF ok1(1,2) k2] True by auto
      qed
    qed
  qed
qed

end
