(* ===== verification/Fs_Path.thy ===== *)
theory Fs_Path
  imports Fs_File
begin

text \<open>
  \<open>walk_path\<close> against a reference: split the path at its slashes, drop the empty pieces, and
  look the remaining names up one after the other. Slashes at either end and repeated ones
  make no difference.
\<close>

section \<open>The names of a path\<close>

fun split_slash :: "u8 list \<Rightarrow> u8 list list" where
  "split_slash [] = [[]]"
| "split_slash (c # p) =
     (if c = SLASH then [] # split_slash p
      else case split_slash p of x # xs \<Rightarrow> (c # x) # xs | [] \<Rightarrow> [[c]])"

definition components :: "u8 list \<Rightarrow> u8 list list" where
  "components p = filter (\<lambda>n. n \<noteq> []) (split_slash p)"

lemma split_slash_nonempty: "split_slash p \<noteq> []"
  by (cases p) (auto split: list.splits)

lemma split_slash_word:
  "split_slash p = takeWhile (\<lambda>c. c \<noteq> SLASH) p #
     (case dropWhile (\<lambda>c. c \<noteq> SLASH) p of [] \<Rightarrow> [] | _ # q \<Rightarrow> split_slash q)"
proof (induction p)
  case (Cons c p)
  then show ?case by (cases "c = SLASH") (simp_all only: split_slash.simps, simp_all)
qed simp

lemma components_slash: "components (SLASH # p) = components p"
  by (simp add: components_def)

lemma components_skip: "components (skip_slash p) = components p"
  by (induction p) (simp_all add: components_slash)

text \<open>The recursion of the code.\<close>

lemma components_step:
  assumes "p \<noteq> []" "hd p \<noteq> SLASH"
  shows "components p = takeWhile (\<lambda>c. c \<noteq> SLASH) p
    # components (skip_slash (dropWhile (\<lambda>c. c \<noteq> SLASH) p))"
proof -
  have n: "takeWhile (\<lambda>c. c \<noteq> SLASH) p \<noteq> []" using assms by (cases p) auto
  have "filter (\<lambda>n. n \<noteq> []) (case dropWhile (\<lambda>c. c \<noteq> SLASH) p of [] \<Rightarrow> [] | _ # q \<Rightarrow> split_slash q)
      = components (dropWhile (\<lambda>c. c \<noteq> SLASH) p)"
  proof (cases "dropWhile (\<lambda>c. c \<noteq> SLASH) p")
    case (Cons d q)
    then have "d = SLASH" by (metis (full_types) hd_dropWhile list.discI list.sel(1))
    then show ?thesis using Cons by (simp add: components_def)
  next
    case Nil
    then show ?thesis unfolding Nil components_def by simp
  qed
  then show ?thesis using n by (subst components_def, subst split_slash_word) (simp add: components_skip)
qed

lemma skip_slash_hd: "skip_slash p \<noteq> [] \<Longrightarrow> hd (skip_slash p) \<noteq> SLASH"
  by (induction p) auto

lemma components_skip_empty: "components (skip_slash p) = [] \<longleftrightarrow> skip_slash p = []"
proof
  assume "components (skip_slash p) = []"
  then show "skip_slash p = []"
    using components_step [of "skip_slash p"] skip_slash_hd [of p] by auto
qed (simp add: components_def)

section \<open>Resolving a list of names\<close>

fun resolve :: "fsstate \<Rightarrow> u8 list list \<Rightarrow> fptr option \<Rightarrow> fptr \<Rightarrow> (walked \<times> fsstate) option" where
  "resolve s [] dir file = Some (Walked (Inr file) dir None, s)"
| "resolve s (name # names) dir file =
     (if length name \<ge> MAXNAMELEN then Some (Walked (Inl E_BAD_PATH) None None, s)
      else
        do {
          t \<leftarrow> frd s file off_type;
          if t \<noteq> FTYPE_DIR then Some (Walked (Inl E_NOT_FOUND) None None, s)
          else
            do {
              (r, s1) \<leftarrow> dir_lookup s file name;
              case r of
                Inl e \<Rightarrow>
                  Some (if e = E_NOT_FOUND \<and> names = [] then Walked (Inl e) (Some file) (Some name)
                        else Walked (Inl e) None None, s1)
              | Inr f \<Rightarrow> resolve s1 names (Some file) f
            }
        })"

lemma walk_loop_resolve:
  assumes "path \<noteq> [] \<Longrightarrow> hd path \<noteq> SLASH"
  shows "walk_loop s path dir f0 = resolve s (components path) dir f0"
  using assms
proof (induction s path dir f0 rule: walk_loop.induct)
  case (1 s path dir f0)
  show ?case
  proof (cases "path = []")
    case True
    then show ?thesis by (simp add: walk_loop.simps components_def)
  next
    case False
    let ?name = "takeWhile (\<lambda>c. c \<noteq> SLASH) path"
    let ?rest = "skip_slash (dropWhile (\<lambda>c. c \<noteq> SLASH) path)"
    have c: "components path = ?name # components ?rest"
      using components_step [OF False] 1(2) False by blast
    have e: "components ?rest = [] \<longleftrightarrow> ?rest = []" by (rule components_skip_empty)
    have IH: "walk_loop s1 ?rest (Some f0) f = resolve s1 (components ?rest) (Some f0) f"
      if "\<not> length ?name \<ge> MAXNAMELEN" "frd s f0 off_type = Some FTYPE_DIR"
        "dir_lookup s f0 ?name = Some (Inr f, s1)" for f s1
      by (rule 1(1) [OF False refl refl that(1) that(2) _ that(3)]) (use skip_slash_hd in auto)
    show ?thesis
      unfolding c resolve.simps
      by (subst walk_loop.simps)
        (use False IH in \<open>auto simp: Let_def e split: sum.splits bind_splits option.splits if_splits\<close>)
  qed
qed

lemma walk_path_resolve:
  "walk_path s path = do { sb \<leftarrow> super s; resolve s (components path) None (s_root sb) }"
  using walk_loop_resolve [OF skip_slash_hd, of path s None] components_skip [of path]
  by (simp add: walk_path_def)

end
