(* ===== verification/Fs_Dir.thy ===== *)
theory Fs_Dir
  imports Fs_Map Fs_Path
begin

text \<open>
  Directories, flushing and truncation: \<open>dir_lookup\<close> finds the first dir_slot with a name,
  \<open>file_flush\<close> writes the blocks of a file without holes and stops at a hole, and
  \<open>file_truncate\<close> frees the indirect block but leaves the pointer to it.
\<close>

unbundle bit_operations_syntax

section \<open>Blocks in memory\<close>

text \<open>A file block that is there and cached is returned as it is.\<close>

definition cached :: "fsstate \<Rightarrow> nat \<Rightarrow> nat \<Rightarrow> fptr \<Rightarrow> nat \<Rightarrow> bool" where
  "cached s n bm f i \<longleftrightarrow> fs_ok s n bm \<and> mapped s (fst f)
     \<and> (NDIRECT \<le> i \<longrightarrow> mapped s (unat (mem s (fst f) (snd f + off_indirect)))
          \<and> unat (mem s (fst f) (snd f + off_indirect)) \<in> {1..<n})
     \<and> file_lookup s f i \<in> {1..<n} \<and> mapped s (file_lookup s f i)"

lemma read_cached:
  assumes "fs_ok s n bm" "b < n" "mapped s b"
  shows "read_block s b = Some (Inr False, s)"
proof -
  have "block_is_free s b = Some False" by (rule fs_ok_is_free [OF assms(1) fs_ok_free [OF assms(1,3)]])
  then show ?thesis using read_block_mapped [OF fs_ok_super [OF assms(1)] assms(2) _ assms(3)] by blast
qed

lemma file_map_cached:
  assumes c: "cached s n bm f i" and i: "i < 1024"
  shows "file_map_block s f (of_nat i) alloc = Some (Inr (file_lookup s f i), s)"
proof -
  have ui: "unat (of_nat i :: u32) = i" using i by (simp add: unat_of_nat_u32)
  have f: "mapped s (fst f)" "file_lookup s f i \<noteq> 0" using c by (auto simp: cached_def)
  show ?thesis
  proof (cases "i < NDIRECT")
    case True
    then show ?thesis using f ui
      by (simp add: file_map_block_def file_block_walk_def rd_def file_lookup_def view_def unat_eq_0)
  next
    case False
    let ?ind = "mem s (fst f) (snd f + off_indirect)"
    have m: "mapped s (unat ?ind)" "unat ?ind < n" "?ind \<noteq> 0" "fs_ok s n bm"
      using c False by (auto simp: cached_def unat_eq_0)
    have l: "file_lookup s f i = unat (mem s (unat ?ind) i)"
      using False f(1) m by (simp add: file_lookup_def view_def Let_def unat_eq_0)
    show ?thesis using False f ui i m read_cached [OF m(4,2,1)]
      by (simp add: file_map_block_def file_block_walk_def frd_def rd_def l NINDIRECT_def unat_eq_0)
  qed
qed

lemma file_get_cached:
  assumes c: "cached s n bm f i" and i: "i < 1024"
  shows "file_get_block s f (of_nat i) = Some (Inr (file_lookup s f i), s)"
proof -
  have m: "fs_ok s n bm" "file_lookup s f i < n" "mapped s (file_lookup s f i)" "mapped s (fst f)"
    using c by (auto simp: cached_def)
  show ?thesis using file_map_cached [OF c i, of True] read_cached [OF m(1-3)] m(4)
    by (simp add: file_get_block_def frd_def rd_def)
qed

section \<open>Names\<close>

lemma strcmp_zero:
  assumes "cstr q ys"
  shows "\<exists>c. strcmp p q = Some c \<and> (c = 0 \<longleftrightarrow> cstr p ys)"
  using assms
proof (induction ys arbitrary: p q)
  case Nil
  then have "q 0 = 0" by simp
  then show ?case by (subst strcmp.simps) (simp only: scast_u8_zero cstr.simps, auto)
next
  case (Cons y ys)
  then have q: "q 0 = y" "y \<noteq> 0" by simp_all
  show ?case
  proof (cases "p 0 = y")
    case True
    then show ?thesis using Cons.IH [of "\<lambda>i. q (Suc i)" "\<lambda>i. p (Suc i)"] Cons.prems q
      by (subst strcmp.simps) simp
  next
    case False
    then have "p 0 < y \<or> y < p 0" by auto
    then show ?thesis using False q
      by (subst strcmp.simps) (simp only: scast_u8_less cstr.simps, auto)
  qed
qed

lemma cstr_name_bytes: "0 \<notin> set name \<Longrightarrow> cstr (name_bytes name) name"
  unfolding cstr_nth by (auto simp: name_bytes_def in_set_conv_nth)

definition has_name :: "fsstate \<Rightarrow> u8 list \<Rightarrow> fptr \<Rightarrow> bool" where
  "has_name s name f \<longleftrightarrow> cstr (f_name s f) name"

lemma lookup_entries_find:
  assumes "mapped s b" "0 \<notin> set name"
  shows "lookup_entries s b name js = Some (find (has_name s name) (map (dir_slot b) js))"
proof (induction js)
  case (Cons j js)
  obtain c where "strcmp (f_name s (dir_slot b j)) (name_bytes name) = Some c"
      "c = 0 \<longleftrightarrow> has_name s name (dir_slot b j)"
    using strcmp_zero [OF cstr_name_bytes [OF assms(2)]] unfolding has_name_def by blast
  then show ?case using Cons assms(1) by simp
qed simp

text \<open>The entries of a directory in the order of the search.\<close>

definition dir_entries :: "fsstate \<Rightarrow> fptr \<Rightarrow> nat list \<Rightarrow> fptr list" where
  "dir_entries s dir bl = concat (map (\<lambda>i. map (dir_slot (file_lookup s dir i)) [0..<FILE2BLK]) bl)"

lemma lookup_blocks_find:
  assumes "\<forall>i \<in> set bl. cached s n bm dir i \<and> i < 1024" "0 \<notin> set name"
  shows "lookup_blocks s dir name bl =
    (case find (has_name s name) (dir_entries s dir bl) of
       None \<Rightarrow> Some (Inl E_NOT_FOUND, s)
     | Some f \<Rightarrow> do { s1 \<leftarrow> set_dir dir f s; Some (Inr f, s1) })"
  using assms(1)
proof (induction bl)
  case (Cons i bl)
  have m: "mapped s (file_lookup s dir i)" using Cons.prems by (simp add: cached_def)
  have g: "file_get_block s dir (of_nat i) = Some (Inr (file_lookup s dir i), s)"
    by (rule file_get_cached) (use Cons.prems in auto)
  note e = lookup_entries_find [OF m assms(2), of "[0..<FILE2BLK]"]
  show ?case using Cons g e
    by (auto simp: dir_entries_def find_append split: option.splits)
qed (simp add: dir_entries_def)

lemma dir_lookup_find:
  assumes "frd s dir off_size = Some sz" "dir_nblocks sz \<le> 1024"
    "\<forall>i < dir_nblocks sz. cached s n bm dir i" "0 \<notin> set name"
  shows "dir_lookup s dir name =
    (case find (has_name s name) (dir_entries s dir [0..<dir_nblocks sz]) of
       None \<Rightarrow> Some (Inl E_NOT_FOUND, s)
     | Some f \<Rightarrow> do { s1 \<leftarrow> set_dir dir f s; Some (Inr f, s1) })"
  using lookup_blocks_find [of "[0..<dir_nblocks sz]" s n bm dir name] assms
  by (simp add: dir_lookup_def)

section \<open>Flushing\<close>

text \<open>A file of at most ten blocks, all of them cached.\<close>

definition small_file :: "fsstate \<Rightarrow> nat \<Rightarrow> nat \<Rightarrow> fptr \<Rightarrow> nat \<Rightarrow> bool" where
  "small_file s n bm f k \<longleftrightarrow> k \<le> NDIRECT \<and> (\<forall>i < k. cached s n bm f i)
     \<and> frd s f off_size = Some (mem s (fst f) (snd f + off_size))
     \<and> unat (nblocks_of (mem s (fst f) (snd f + off_size))) = k"

text \<open>Only the disk and the dirty bits change.\<close>

definition disk_only :: "fsstate \<Rightarrow> fsstate \<Rightarrow> bool" where
  "disk_only s t \<longleftrightarrow> (\<exists>dk d. t = s\<lparr>disk := dk, dirty := d\<rparr> \<and> (\<forall>b. d b \<longrightarrow> dirty s b))"

lemma disk_only_trans: "disk_only s t \<Longrightarrow> disk_only t u \<Longrightarrow> disk_only s u"
  by (fastforce simp: disk_only_def)

lemma disk_only_fields:
  assumes "disk_only s t"
  shows "mem t = mem s" "mapped t = mapped s" "super t = super s" "bitmap t = bitmap s"
  using assms by (auto simp: disk_only_def)

lemma disk_only_cached:
  assumes "disk_only s t" "cached s n bm f i" "i < NDIRECT"
  shows "cached t n bm f i" "file_lookup t f i = file_lookup s f i"
proof -
  note f = disk_only_fields [OF assms(1)]
  have bm: "bm_ok s n bm" and m: "mapped s (fst f)" using assms(2) by (simp_all add: cached_def fs_ok_def)
  have bm': "bm_ok t n bm" using bm f by (simp add: bm_ok_def super_ok_def)
  have "free_set t = free_set s" using f by (simp add: bm_ok_free_set [OF bm] bm_ok_free_set [OF bm'] bm_bit_def)
  then have "fs_ok t n bm" using assms(2) bm' f by (simp add: fs_ok_def cached_def)
  moreover show l: "file_lookup t f i = file_lookup s f i"
    using m f assms(3) by (simp add: file_lookup_def view_def)
  ultimately show "cached t n bm f i" using assms(2,3) f by (simp add: cached_def)
qed

text \<open>The last of several writes to a disk word.\<close>

lemma then_flush:
  "x = (if B \<and> D1 then m1 else w1) \<Longrightarrow> w1 = (if b = c \<and> D c then m else w) \<Longrightarrow>
    D1 = (b \<noteq> c \<and> D b) \<Longrightarrow> m1 = m \<Longrightarrow> x = (if (b = c \<or> B) \<and> D b then m else w)"
  by auto

text \<open>After the flush of the blocks \<open>bl\<close> they are clean and on disk.\<close>

lemma flush_blocks_ok:
  assumes "\<forall>i \<in> set bl. cached s n bm f i \<and> i < NDIRECT"
  shows "\<exists>t. flush_blocks s f bl = Some t \<and> disk_only s t
    \<and> (\<forall>i \<in> set bl. \<not> dirty t (file_lookup s f i))
    \<and> (\<forall>b k. k < 1024 \<longrightarrow> disk_word t b k =
         (if b \<in> file_lookup s f ` set bl \<and> dirty s b then mem s b k else disk_word s b k))"
  using assms
proof (induction bl arbitrary: s)
  case Nil
  have "s = s\<lparr>disk := disk s, dirty := dirty s\<rparr>" by simp
  then have "disk_only s s" unfolding disk_only_def by blast
  then show ?case by simp
next
  case (Cons i bl)
  let ?b = "file_lookup s f i"
  have c: "cached s n bm f i" "i < NDIRECT" using Cons.prems by simp_all
  have so: "super_ok s n" using c(1) fs_ok_super unfolding cached_def by blast
  have b: "?b < n" "mapped s ?b" using c by (auto simp: cached_def)
  have g: "file_map_block s f (of_nat i) False = Some (Inr ?b, s)"
    by (rule file_map_cached [OF c(1)]) (use c(2) in \<open>simp add: NDIRECT_def\<close>)
  obtain s1 where w: "write_block s ?b = Some s1" and fl: "flushed s ?b s1"
    using write_block_ok [OF so b] by blast
  have run: "flush_blocks s f (i # bl) = flush_blocks s1 f bl"
  proof (cases "dirty s ?b")
    case True
    then show ?thesis using g w super_ok_is_dirty [OF so b(1)] b(2) by simp
  next
    case False
    then have "s1 = s" using w super_ok_is_dirty [OF so b(1)] super_ok_is_mapped [OF so b(1)] b(2)
      by (simp add: write_block_def)
    then show ?thesis using g False super_ok_is_dirty [OF so b(1)] b(2) by simp
  qed
  obtain dk where s1: "s1 = s\<lparr>disk := dk, dirty := (dirty s)(?b := False)\<rparr>" using fl by (auto simp: flushed_def)
  then have d1: "disk_only s s1" unfolding disk_only_def by (metis fun_upd_apply)
  have "\<forall>j \<in> set bl. cached s1 n bm f j \<and> j < NDIRECT"
    using Cons.prems disk_only_cached(1) [OF d1] by simp
  from Cons.IH [OF this] obtain t where t: "flush_blocks s1 f bl = Some t" "disk_only s1 t"
      "\<forall>j \<in> set bl. \<not> dirty t (file_lookup s1 f j)"
      "\<forall>b k. k < 1024 \<longrightarrow> disk_word t b k =
         (if b \<in> file_lookup s1 f ` set bl \<and> dirty s1 b then mem s1 b k else disk_word s1 b k)"
    by blast
  have l: "file_lookup s1 f j = file_lookup s f j" if "j \<in> set bl" for j
    using disk_only_cached(2) [OF d1, of n bm f j] Cons.prems that by simp
  then have im: "file_lookup s1 f ` set bl = file_lookup s f ` set bl" by simp
  have "disk_word t b k = (if b \<in> file_lookup s f ` set (i # bl) \<and> dirty s b then mem s b k else disk_word s b k)"
    if "k < 1024" for b k
  proof -
    have w1: "disk_word s1 b k = (if b = ?b \<and> dirty s ?b then mem s b k else disk_word s b k)"
      using fl that by (simp add: flushed_def)
    have d1: "dirty s1 b \<longleftrightarrow> b \<noteq> ?b \<and> dirty s b" "mem s1 b k = mem s b k" using s1 by simp_all
    have "b \<in> file_lookup s f ` set (i # bl) \<longleftrightarrow> b = ?b \<or> b \<in> file_lookup s f ` set bl" by auto
    then show ?thesis
      using then_flush [OF t(4) [rule_format, OF that, of b, unfolded im] w1 d1] by simp
  qed
  moreover have "\<not> dirty t (file_lookup s f j)" if "j \<in> set (i # bl)" for j
  proof (cases "j \<in> set bl")
    case True
    then show ?thesis using t(3) l by simp
  next
    case False
    then have "\<not> dirty s1 (file_lookup s f j)" using that s1 by simp
    then show ?thesis using t(2) by (auto simp: disk_only_def)
  qed
  ultimately show ?case using run t(1) disk_only_trans [OF d1 t(2)] by (intro exI [of _ t]) simp
qed

lemma file_flush_ok:
  assumes "small_file s n bm f k"
  shows "\<exists>t. file_flush s f = Some t \<and> disk_only s t
    \<and> (\<forall>i < k. \<not> dirty t (file_lookup s f i))
    \<and> (\<forall>i < k. \<forall>j < 1024. dirty s (file_lookup s f i) \<longrightarrow>
         disk_word t (file_lookup s f i) j = mem s (file_lookup s f i) j)"
proof -
  have "\<forall>i \<in> set [0..<k]. cached s n bm f i \<and> i < NDIRECT" using assms by (auto simp: small_file_def)
  from flush_blocks_ok [OF this] show ?thesis using assms by (fastforce simp: file_flush_def small_file_def)
qed

section \<open>Truncation\<close>

text \<open>
  What holds while \<open>file_truncate\<close> clears blocks: the bitmap is in memory, the file structure
  and its indirect block \<open>ind\<close> (0 if there is none) lie outside it, and the map names blocks of
  the disk only.
\<close>

definition trunc_inv :: "fsstate \<Rightarrow> nat \<Rightarrow> nat \<Rightarrow> fptr \<Rightarrow> u32 \<Rightarrow> bool" where
  "trunc_inv s n bm f ind \<longleftrightarrow> bm_ok s n bm \<and> mapped s (fst f) \<and> fst f \<notin> bm_area bm n
     \<and> mem s (fst f) (snd f + off_indirect) = ind
     \<and> (\<forall>i < NDIRECT. unat (mem s (fst f) (snd f + off_direct + i)) < n)
     \<and> (ind \<noteq> 0 \<longrightarrow> unat ind < n \<and> unat ind \<notin> bm_area bm n \<and> unat ind \<noteq> fst f \<and> mapped s (unat ind)
          \<and> (\<forall>i < 1024. unat (mem s (unat ind) i) < n))"

text \<open>Storing 0 to a word of the map, after the block was freed, keeps the invariant.\<close>

lemma trunc_clear:
  assumes t: "trunc_inv s n bm f ind" and b: "mapped s b" "b \<notin> bm_area bm n" "k \<noteq> 1"
    "(b, k) \<noteq> (fst f, snd f + off_indirect)"
    and fr: "free_block s x = Some s1" "x < n" and w: "wr s1 b k 0 = Some s2"
  shows "trunc_inv s2 n bm f ind"
proof -
  have bm: "bm_ok s n bm" using t by (simp add: trunc_inv_def)
  have x: "x \<noteq> 0" using fr(1) by (auto simp: free_block_def)
  obtain s1' where s1: "free_block s x = Some s1'" "bm_ok s1' n bm" "bm_changed s bm x s1'"
    using free_block_ok [OF bm x fr(2)] by blast
  then have e: "s1' = s1" using fr(1) by simp
  note ch = bm_changed_fields [OF s1(3) [unfolded e]]
  have area: "c \<notin> bm_area bm n \<Longrightarrow> mem s1 c = mem s c" for c
    using ch(6) fr(2) by (auto simp: bm_area_def)
  have s2: "s2 = bm_store s1 b k 0" using w wr_store [of s1 b k 0] ch(3) b(1) by simp
  have bm2: "bm_ok s2 n bm"
    using s1(2) b(3) unfolding e s2 by (auto simp: bm_ok_def super_ok_def)
  have m: "mem s2 c j = (if c = b \<and> j = k then 0 else mem s c j)" if "c \<notin> bm_area bm n" for c j
    using area [OF that] by (auto simp: s2)
  have n0: "0 < n" using fr(2) by simp
  have mp: "mapped s2 = mapped s" using ch(3) by (simp add: s2)
  show ?thesis
    using t bm2 b(4) n0 unfolding trunc_inv_def mp
    by (auto simp: m)
qed

lemma clear_one_inv:
  assumes t: "trunc_inv s n bm f ind" and r: "clear_one f i s = Some s'" and i: "i < 2 ^ 32"
  shows "trunc_inv s' n bm f ind"
proof -
  have ui: "unat (of_nat i :: u32) = i" using i by (simp add: unat_of_nat_u32)
  have f: "mapped s (fst f)" "mem s (fst f) (snd f + off_indirect) = ind" "super_ok s n"
    using t by (simp_all add: trunc_inv_def bm_ok_def)
  show ?thesis
  proof (cases "i < NDIRECT")
    case True
    let ?k = "snd f + off_direct + i"
    have b: "fst f \<notin> bm_area bm n" "unat (mem s (fst f) ?k) < n" using t True by (simp_all add: trunc_inv_def)
    have k: "?k \<noteq> 1" "(fst f, ?k) \<noteq> (fst f, snd f + off_indirect)"
      using True by (simp_all add: file_layout NDIRECT_def)
    show ?thesis
    proof (cases "mem s (fst f) ?k = 0")
      case True
      then have "s' = s" using r f(1) ui \<open>i < NDIRECT\<close>
        by (simp add: clear_one_def file_clear_block_def file_block_walk_def rd_def)
      then show ?thesis using t by simp
    next
      case False
      then obtain s1 where "free_block s (unat (mem s (fst f) ?k)) = Some s1" "wr s1 (fst f) ?k 0 = Some s'"
        using r f(1) ui \<open>i < NDIRECT\<close>
        by (auto simp: clear_one_def file_clear_block_def file_block_walk_def rd_def split: bind_splits)
      then show ?thesis using trunc_clear [OF t f(1) b(1) k _ b(2)] by blast
    qed
  next
    case ge: False
    show ?thesis
    proof (cases "i < 1024 \<and> ind \<noteq> 0")
      case False
      then have "s' = s" using r f ui ge
        by (auto simp: clear_one_def file_clear_block_def file_block_walk_def frd_def rd_def NINDIRECT_def
            split: if_splits)
      then show ?thesis using t by simp
    next
      case True
      let ?b = "unat ind"
      have b: "mapped s ?b" "?b \<notin> bm_area bm n" "?b < n" "?b \<noteq> fst f" "unat (mem s ?b i) < n"
        using t True by (simp_all add: trunc_inv_def)
      have k: "i \<noteq> 1" "(?b, i) \<noteq> (fst f, snd f + off_indirect)" using ge b(4) by (auto simp: NDIRECT_def)
      have rb: "read_block s ?b = Some (Inr False, s) \<or> read_block s ?b = None"
        using b(1,3) f(3) by (auto simp: read_block_def super_ok_bad super_ok_is_mapped split: bind_splits option.splits)
      show ?thesis
      proof (cases "mem s ?b i = 0")
        case True
        then have "s' = s" using r f ui ge \<open>i < 1024 \<and> ind \<noteq> 0\<close> rb b(1)
          by (auto simp: clear_one_def file_clear_block_def file_block_walk_def frd_def rd_def NINDIRECT_def)
        then show ?thesis using t by simp
      next
        case False
        then obtain s1 where "free_block s (unat (mem s ?b i)) = Some s1" "wr s1 ?b i 0 = Some s'"
          using r f ui ge True rb b(1)
          by (auto simp: clear_one_def file_clear_block_def file_block_walk_def frd_def rd_def NINDIRECT_def
              split: bind_splits)
        then show ?thesis using trunc_clear [OF t b(1,2) k _ b(5)] by blast
      qed
    qed
  qed
qed

lemma clear_all_inv:
  "trunc_inv s n bm f ind \<Longrightarrow> mfold (clear_one f) bl s = Some s' \<Longrightarrow> \<forall>i \<in> set bl. i < 2 ^ 32 \<Longrightarrow>
     trunc_inv s' n bm f ind"
proof (induction bl arbitrary: s)
  case (Cons i bl)
  then obtain s1 where "clear_one f i s = Some s1" "mfold (clear_one f) bl s1 = Some s'"
    by (auto split: bind_splits)
  then show ?case using Cons clear_one_inv [of s n bm f ind i s1] by simp
qed simp

text \<open>The last steps of a truncation to at most ten blocks.\<close>

lemma truncate_indirect:
  assumes t: "trunc_inv s n bm f ind" and sz: "frd s f off_size = Some sz"
    and old: "NDIRECT < unat (nblocks_of sz)" and new: "unat (nblocks_of newsize) \<le> NDIRECT"
    and r: "file_truncate s f newsize = Some s'"
  shows "ind \<noteq> 0 \<and> mem s' (fst f) (snd f + off_indirect) = ind \<and> mapped s' (fst f)
    \<and> block_is_free s' (unat ind) = Some True \<and> bm_ok s' n bm"
proof -
  have bm: "bm_ok s n bm" and fm: "mapped s (fst f)" using t by (simp_all add: trunc_inv_def)
  define s1 where "s1 = bm_store s (fst f) (snd f + off_size) newsize"
  have w: "fwr s f off_size newsize = Some s1" using fm by (simp add: fwr_def wr_store s1_def)
  have "bm_ok s1 n bm" using bm by (auto simp: s1_def bm_ok_def super_ok_def file_layout)
  then have t1: "trunc_inv s1 n bm f ind"
    using t by (auto simp: trunc_inv_def s1_def file_layout NDIRECT_def)
  obtain s2 where c: "mfold (clear_one f) [unat (nblocks_of newsize)..<unat (nblocks_of sz)] s1 = Some s2"
      and l: "do { i \<leftarrow> frd s2 f off_indirect; free_block s2 (unat i) } = Some s'"
    using r sz w old new by (auto simp: file_truncate_def Let_def split: bind_splits)
  have "\<forall>i \<in> set [unat (nblocks_of newsize)..<unat (nblocks_of sz)]. i < 2 ^ 32"
    using unsigned_less [of "nblocks_of sz", where ?'a = nat] by (auto dest: order.strict_trans)
  from clear_all_inv [OF t1 c this] have t2: "trunc_inv s2 n bm f ind" .
  then have m2: "mapped s2 (fst f)" "mem s2 (fst f) (snd f + off_indirect) = ind" "bm_ok s2 n bm"
    by (simp_all add: trunc_inv_def)
  then have fb: "free_block s2 (unat ind) = Some s'" using l by (simp add: frd_def rd_def)
  then have i0: "unat ind \<noteq> 0" by (auto simp: free_block_def)
  then have ind: "ind \<noteq> 0" by auto
  then have "unat ind < n" using t2 by (simp add: trunc_inv_def)
  from free_block_ok [OF m2(3) i0 this] fb
  have s': "bm_ok s' n bm" "bm_changed s2 bm (unat ind) s'" "unat ind \<in> free_set s'" by auto
  note ch = bm_changed_fields [OF s'(2)]
  have "fst f \<noteq> fst (bm_word bm (unat ind))"
    using t2 ind by (auto simp: trunc_inv_def bm_area_def)
  then have "mem s' (fst f) = mem s2 (fst f)" using ch(6) by simp
  then show ?thesis using ind m2 ch(3) s' by (simp add: free_set_def)
qed

text \<open>A file with such a pointer stops the server at its next access beyond block ten.\<close>

lemma stale_indirect_stops:
  assumes "bm_ok s n bm" "mapped s (fst f)" "mem s (fst f) (snd f + off_indirect) = ind" "ind \<noteq> 0"
    "block_is_free s (unat ind) = Some True" "NDIRECT \<le> i" "i < 1024"
  shows "file_block_walk s f (of_nat i) alloc = None"
proof -
  have ui: "unat (of_nat i :: u32) = i" using assms(7) by (simp add: unat_of_nat_u32)
  have "super_ok s n" "unat ind < n" "bitmap s = Some bm"
    using assms(1,5) by (auto simp: bm_ok_def bm_ok_is_free [OF assms(1)])
  then have "read_block s (unat ind) = None" using assms(5) by (simp add: read_block_def super_ok_bad)
  then show ?thesis using assms ui by (simp add: file_block_walk_def frd_def rd_def NINDIRECT_def)
qed

end
