(* ===== verification/Serv.thy ===== *)
theory Serv
  imports Fs_Dir
begin

text \<open>
  The file server's request loop, \<open>fs/serv.c\<close>: the table of open files and one handler per
  request.

  An entry of \<open>opentab\<close> is free when the reference count of its \<open>Filefd\<close> page is 0 (never
  allocated) or 1 (only the server maps it). The counts are the field \<open>refs\<close>; they change when
  a client maps or unmaps its copy, outside the server. The reply of a handler is the
  \<open>ipc_send\<close> it makes; a page that it sends is named by what it holds.
\<close>

unbundle bit_operations_syntax

section \<open>State\<close>

definition MAXOPEN :: nat where "MAXOPEN = 1024"
definition FILEVA :: u32 where "FILEVA = 0xD0000000"
definition MAXPATHLEN :: nat where "MAXPATHLEN = 1024"
definition O_WRONLY :: u32 where "O_WRONLY = 1"
definition O_CREAT :: u32 where "O_CREAT = 0x100"
definition SHARE_PERM :: u32 where "SHARE_PERM = PTE_LIBRARY OR PTE_P OR PTE_U OR PTE_W"

datatype sentpage = NoPage | FfPage nat | BlockPage nat

record reply =
  r_to :: u32
  r_value :: u32
  r_page :: sentpage
  r_perm :: u32

record servstate =
  fs :: fsstate
  o_file :: "nat \<Rightarrow> fptr option"
  o_fileid :: "nat \<Rightarrow> u32"
  o_mode :: "nat \<Rightarrow> u32"
  o_va :: "nat \<Rightarrow> u32"
  refs :: "nat \<Rightarrow> nat"
  ff_page :: "nat \<Rightarrow> nat \<Rightarrow> u32"
  sent :: "reply list"

text \<open>An error code as the word that the reply carries.\<close>

definition err_word :: "error \<Rightarrow> u32" where
  "err_word e = - of_nat (errno e)"

definition result_word :: "error + 'a \<Rightarrow> u32" where
  "result_word r = (case r of Inl e \<Rightarrow> err_word e | Inr _ \<Rightarrow> 0)"

definition ipc_reply :: "u32 \<Rightarrow> u32 \<Rightarrow> sentpage \<Rightarrow> u32 \<Rightarrow> servstate \<Rightarrow> servstate" where
  "ipc_reply whom v p perm s =
     s\<lparr>sent := sent s @ [\<lparr>r_to = whom, r_value = v, r_page = p, r_perm = perm\<rparr>]\<rparr>"

section \<open>The table of open files\<close>

fun serve_init_loop :: "nat list \<Rightarrow> u32 \<Rightarrow> servstate \<Rightarrow> servstate" where
  "serve_init_loop [] va s = s"
| "serve_init_loop (i # js) va s =
     serve_init_loop js (va + BY2PG)
       (s\<lparr>o_fileid := (o_fileid s)(i := of_nat i), o_va := (o_va s)(i := va)\<rparr>)"

definition serve_init :: "servstate \<Rightarrow> servstate" where
  "serve_init s = serve_init_loop [0..<MAXOPEN] FILEVA s"

text \<open>The second case of the \<open>switch\<close>, into which the first falls through.\<close>

definition open_take :: "servstate \<Rightarrow> nat \<Rightarrow> servstate" where
  "open_take s i =
     s\<lparr>o_fileid := (o_fileid s)(i := o_fileid s i + of_nat MAXOPEN), ff_page := (ff_page s)(i := (\<lambda>_. 0))\<rparr>"

fun open_scan :: "servstate \<Rightarrow> nat list \<Rightarrow> (error + nat) \<times> servstate" where
  "open_scan s [] = (Inl E_MAX_OPEN, s)"
| "open_scan s (i # js) =
     (if refs s i = 0 then
        let f = fs s; f1 = f\<lparr>grants := (\<lambda>n. grants f (Suc n))\<rparr>
        in if grants f 0
           then (Inr i, open_take (s\<lparr>fs := f1, refs := (refs s)(i := 1)\<rparr>) i)
           else (Inl E_NO_MEM, s\<lparr>fs := f1\<rparr>)
      else if refs s i = 1 then (Inr i, open_take s i)
      else open_scan s js)"

definition open_alloc :: "servstate \<Rightarrow> (error + nat) \<times> servstate" where
  "open_alloc s = open_scan s [0..<MAXOPEN]"

definition open_lookup :: "servstate \<Rightarrow> u32 \<Rightarrow> error + nat" where
  "open_lookup s fileid =
     (let i = unat fileid mod MAXOPEN
      in if refs s i = 1 \<or> o_fileid s i \<noteq> fileid then Inl E_INVAL else Inr i)"

section \<open>Requests\<close>

text \<open>A path in the request page: at most 1023 bytes, up to the first zero.\<close>

definition req_path :: "(nat \<Rightarrow> u32) \<Rightarrow> u8 list" where
  "req_path rq = takeWhile (\<lambda>c. c \<noteq> 0) (map (get_bytes rq) [0..<MAXPATHLEN - 1])"

text \<open>Run an operation of the file layer on the server's state.\<close>

definition on_fs :: "'a fsres \<Rightarrow> servstate \<Rightarrow> ((error + 'a) \<times> servstate) option" where
  "on_fs m s = do { (r, f) \<leftarrow> m; Some (r, s\<lparr>fs := f\<rparr>) }"

text \<open>The choice between opening and creating.\<close>

definition open_or_create :: "fsstate \<Rightarrow> u32 \<Rightarrow> u8 list \<Rightarrow> fptr fsres" where
  "open_or_create f mode path =
     (if mode AND O_CREAT = 0 then
        do {
          (r, f1) \<leftarrow> file_open f path;
          case r of
            Inr p \<Rightarrow> Some (Inr p, f1)
          | Inl e \<Rightarrow> if mode AND O_WRONLY = 0 then Some (Inl e, f1) else file_create f1 path
        }
      else file_create f path)"

text \<open>The \<open>Filefd\<close> page: device, offset, mode, file id, and a copy of the file structure.\<close>

definition fill_ff :: "(nat \<Rightarrow> u32) \<Rightarrow> (nat \<Rightarrow> u32) \<Rightarrow> nat \<Rightarrow> u32 \<Rightarrow> u32 \<Rightarrow> nat \<Rightarrow> u32" where
  "fill_ff pg m off fileid mode =
     (\<lambda>k. if 4 \<le> k \<and> k < 68 then m (off + (k - 4)) else pg k)(3 := fileid, 2 := mode, 0 := 102)"

definition serve_open :: "servstate \<Rightarrow> u32 \<Rightarrow> (nat \<Rightarrow> u32) \<Rightarrow> servstate option" where
  "serve_open s envid rq =
     (let path = req_path rq; mode = rq 256
      in case open_alloc s of
           (Inl e, s1) \<Rightarrow> Some (ipc_reply envid (err_word e) NoPage 0 s1)
         | (Inr i, s1) \<Rightarrow>
             if sint (o_fileid s1 i) < 0 then Some (ipc_reply envid (o_fileid s1 i) NoPage 0 s1)
             else
               do {
                 (r, s2) \<leftarrow> on_fs (open_or_create (fs s1) mode path) s1;
                 case r of
                   Inl e \<Rightarrow> Some (ipc_reply envid (err_word e) NoPage 0 s2)
                 | Inr p \<Rightarrow>
                     if \<not> mapped (fs s2) (fst p) then None
                     else
                       Some (ipc_reply envid 0 (FfPage i) SHARE_PERM
                         (s2\<lparr>o_file := (o_file s2)(i := Some p),
                             ff_page := (ff_page s2)(i := fill_ff (ff_page s2 i) (mem (fs s2) (fst p)) (snd p)
                                                           (o_fileid s2 i) mode),
                             o_mode := (o_mode s2)(i := mode)\<rparr>))
               })"

text \<open>
  \<open>file_get_block\<close> sets its pointer before it can fail to read the block: the reply then
  carries the address of a page that is not there.
\<close>

definition get_block_ptr :: "fsstate \<Rightarrow> fptr \<Rightarrow> u32 \<Rightarrow> sentpage" where
  "get_block_ptr f p off =
     (case file_map_block f p off True of Some (Inr b, _) \<Rightarrow> BlockPage b | _ \<Rightarrow> NoPage)"

definition serve_map :: "servstate \<Rightarrow> u32 \<Rightarrow> (nat \<Rightarrow> u32) \<Rightarrow> servstate option" where
  "serve_map s envid rq =
     (case open_lookup s (rq 0) of
        Inl e \<Rightarrow> Some (ipc_reply envid (err_word e) NoPage SHARE_PERM s)
      | Inr i \<Rightarrow>
          (case o_file s i of
             None \<Rightarrow> Some (ipc_reply envid (err_word E_INVAL) NoPage SHARE_PERM s)
           | Some p \<Rightarrow>
               do {
                 (r, s1) \<leftarrow> on_fs (file_get_block (fs s) p (rq 1)) s;
                 Some (ipc_reply envid (result_word r) (get_block_ptr (fs s) p (rq 1)) SHARE_PERM s1)
               }))"

definition serve_set_size :: "servstate \<Rightarrow> u32 \<Rightarrow> (nat \<Rightarrow> u32) \<Rightarrow> servstate option" where
  "serve_set_size s envid rq =
     (case open_lookup s (rq 0) of
        Inl e \<Rightarrow> Some (ipc_reply envid (err_word e) NoPage 0 s)
      | Inr i \<Rightarrow>
          (case o_file s i of
             None \<Rightarrow> Some (ipc_reply envid (err_word E_INVAL) NoPage 0 s)
           | Some p \<Rightarrow>
               do {
                 (r, s1) \<leftarrow> on_fs (file_set_size (fs s) p (rq 1)) s;
                 Some (ipc_reply envid (result_word r) NoPage 0 s1)
               }))"

definition serve_close :: "servstate \<Rightarrow> u32 \<Rightarrow> (nat \<Rightarrow> u32) \<Rightarrow> servstate option" where
  "serve_close s envid rq = Some (ipc_reply envid (result_word (open_lookup s (rq 0))) NoPage 0 s)"

definition serve_remove :: "servstate \<Rightarrow> u32 \<Rightarrow> (nat \<Rightarrow> u32) \<Rightarrow> servstate option" where
  "serve_remove s envid rq =
     do {
       (r, s1) \<leftarrow> on_fs (file_remove (fs s) (req_path rq)) s;
       Some (ipc_reply envid (result_word r) NoPage 0 s1)
     }"

definition serve_dirty :: "servstate \<Rightarrow> u32 \<Rightarrow> (nat \<Rightarrow> u32) \<Rightarrow> servstate option" where
  "serve_dirty s envid rq =
     (case open_lookup s (rq 0) of
        Inl e \<Rightarrow> Some (ipc_reply envid (err_word e) NoPage 0 s)
      | Inr i \<Rightarrow>
          (case o_file s i of
             None \<Rightarrow> Some (ipc_reply envid (err_word E_INVAL) NoPage 0 s)
           | Some p \<Rightarrow>
               do {
                 (r, s1) \<leftarrow> on_fs (file_dirty (fs s) p (rq 1)) s;
                 Some (ipc_reply envid (result_word r) NoPage 0 s1)
               }))"

definition serve_sync :: "servstate \<Rightarrow> u32 \<Rightarrow> servstate option" where
  "serve_sync s envid = do { f \<leftarrow> fs_sync (fs s); Some (ipc_reply envid 0 NoPage 0 (s\<lparr>fs := f\<rparr>)) }"

text \<open>One round of the loop of \<open>serve\<close>. A request without a page is dropped.\<close>

definition serve_one :: "servstate \<Rightarrow> u32 \<Rightarrow> u32 \<Rightarrow> u32 \<Rightarrow> (nat \<Rightarrow> u32) \<Rightarrow> servstate option" where
  "serve_one s req whom perm rq =
     (if perm AND PTE_P = 0 then Some s
      else if req = 1 then serve_open s whom rq
      else if req = 2 then serve_map s whom rq
      else if req = 3 then serve_set_size s whom rq
      else if req = 4 then serve_close s whom rq
      else if req = 5 then serve_dirty s whom rq
      else if req = 6 then serve_remove s whom rq
      else if req = 7 then serve_sync s whom
      else Some s)"

section \<open>File ids\<close>

text \<open>The id of an entry names the entry, in every state of the server.\<close>

definition ids_ok :: "servstate \<Rightarrow> bool" where
  "ids_ok s \<longleftrightarrow> (\<forall>i < MAXOPEN. unat (o_fileid s i) mod MAXOPEN = i)"

lemma unat_mod_1024: "unat (w + 1024 :: u32) mod 1024 = unat w mod 1024"
proof -
  have "unat (w + 1024 :: u32) = (unat w + 1024) mod 2 ^ 32" by (simp add: unat_word_ariths)
  moreover have "(1024 :: nat) dvd 2 ^ 32" by simp
  ultimately have "unat (w + 1024 :: u32) mod 1024 = (unat w + 1024) mod 1024"
    using mod_mod_cancel [of 1024 "2 ^ 32" "unat w + 1024"] by (simp only:)
  then show ?thesis by simp
qed

lemma ids_ok_take: "ids_ok s \<Longrightarrow> ids_ok (open_take s i)"
  by (simp add: ids_ok_def open_take_def MAXOPEN_def unat_mod_1024)

lemma ids_ok_frame: "o_fileid s' = o_fileid s \<Longrightarrow> ids_ok s' = ids_ok s"
  by (simp add: ids_ok_def)

lemma open_scan_ids: "ids_ok s \<Longrightarrow> open_scan s bl = (r, s') \<Longrightarrow> ids_ok s'"
proof (induction bl)
  case (Cons i bl)
  let ?f = "fs s" and ?f1 = "fs s\<lparr>grants := (\<lambda>n. grants (fs s) (Suc n))\<rparr>"
  have "ids_ok (s\<lparr>fs := f, refs := r\<rparr>)" "ids_ok (s\<lparr>fs := f\<rparr>)" for f r
    using Cons.prems(1) by (simp_all add: ids_ok_def)
  then show ?case using Cons
    by (auto simp: Let_def intro: ids_ok_take split: if_splits)
qed simp

text \<open>What an allocation returns: a free entry with a new id.\<close>

lemma open_scan_some:
  "open_scan s bl = (Inr i, s') \<Longrightarrow> i \<in> set bl \<and> refs s i \<le> 1 \<and> refs s' i = 1
     \<and> o_fileid s' = (o_fileid s)(i := o_fileid s i + 1024) \<and> (\<forall>j. j \<noteq> i \<longrightarrow> refs s' j = refs s j)"
  by (induction bl) (auto simp: open_take_def MAXOPEN_def Let_def split: if_splits)

lemma open_scan_full: "\<forall>i \<in> set bl. 1 < refs s i \<Longrightarrow> open_scan s bl = (Inl E_MAX_OPEN, s)"
  by (induction bl) auto

text \<open>The replies other than \<open>serve_open\<close>'s leave the table alone.\<close>

lemma serve_one_ids:
  assumes "ids_ok s" "serve_one s req whom perm rq = Some s'"
  shows "ids_ok s'"
proof -
  have fr: "o_fileid (ipc_reply w v p pm t) = o_fileid t" for w v p pm t by (simp add: ipc_reply_def)
  have on: "on_fs m t = Some (r, t') \<Longrightarrow> o_fileid t' = o_fileid t" for m t r t'
    by (auto simp: on_fs_def split: bind_splits)
  show ?thesis
  proof (cases "perm AND PTE_P \<noteq> 0 \<and> req = 1")
    case True
    obtain r s1 where a: "open_alloc s = (r, s1)" by (cases "open_alloc s")
    then have i1: "ids_ok s1" using open_scan_ids [OF assms(1)] by (simp add: open_alloc_def)
    have "o_fileid s' = o_fileid s1"
      using assms(2) True a
      by (auto simp: serve_one_def serve_open_def Let_def fr dest!: on split: sum.splits bind_splits if_splits)
    then show ?thesis using i1 ids_ok_frame by blast
  next
    case False
    then have "o_fileid s' = o_fileid s"
      using assms(2)
      by (auto simp: serve_one_def serve_map_def serve_set_size_def serve_close_def serve_remove_def
          serve_dirty_def serve_sync_def fr dest!: on split: sum.splits bind_splits if_splits option.splits)
    then show ?thesis using assms(1) ids_ok_frame by blast
  qed
qed

end
