(* ===== verification/Fs_Demo.thy ===== *)
theory Fs_Demo
  imports Serv
begin

text \<open>
  A small disk on which the properties of the file server are applied: 16 blocks, with the
  superblock in block 1, the bitmap in block 2, a root directory of one block 3, and a file
  \<open>a\<close> of one block 4, which is dirty. Blocks 5 to 15 are free.
\<close>

unbundle bit_operations_syntax

definition demo_fs :: fsstate where
  "demo_fs = \<lparr>mem = (\<lambda>_ _. 0)(
       1 := (\<lambda>_. 0)(0 := FS_MAGIC, 1 := 16, 34 := 4096, 35 := 1, 36 := 3),
       2 := (\<lambda>_. 0)(0 := 0xFFE0),
       3 := (\<lambda>_. 0)(0 := 0x61, 32 := 4096, 34 := 4),
       4 := (\<lambda>_. 0)(0 := 7)),
     mapped = (\<lambda>b. b \<in> {1, 2, 3, 4}), dirty = (\<lambda>b. b = 4), disk = (\<lambda>_ _. 0),
     super = Some 1, bitmap = Some 2, nbitmap = 1, grants = (\<lambda>_. True)\<rparr>"

lemma demo_fs_fields [simp]:
  "super demo_fs = Some 1" "bitmap demo_fs = Some 2" "grants demo_fs k" "disk demo_fs b k = 0"
  "mapped demo_fs b \<longleftrightarrow> b = 1 \<or> b = 2 \<or> b = 3 \<or> b = 4" "dirty demo_fs b \<longleftrightarrow> b = 4"
  "mem demo_fs (Suc 0) = (\<lambda>_. 0)(0 := FS_MAGIC, 1 := 16, 34 := 4096, 35 := 1, 36 := 3)"
  "mem demo_fs 2 = (\<lambda>_. 0)(0 := 0xFFE0)"
  "mem demo_fs 3 = (\<lambda>_. 0)(0 := 0x61, 32 := 4096, 34 := 4)"
  "mem demo_fs 4 = (\<lambda>_. 0)(0 := 7)"
  by (simp_all add: demo_fs_def)

lemma demo_bm_word: "b < 16 \<Longrightarrow> bm_word 2 b = (2, 0)"
  by (simp add: bm_word_def)

lemma demo_super_ok: "super_ok demo_fs 16"
  by (simp add: super_ok_def block_limit_def)

lemma demo_bm_ok: "bm_ok demo_fs 16 2"
  by (simp add: bm_ok_def demo_super_ok demo_bm_word)

lemma demo_bits: "b < 16 \<Longrightarrow> bit (0xFFE0 :: u32) b \<longleftrightarrow> 5 \<le> b"
proof -
  have "list_all (\<lambda>b. bit (0xFFE0 :: u32) b \<longleftrightarrow> 5 \<le> b) [0..<16]" by (simp add: upt_rec)
  then show "b < 16 \<Longrightarrow> bit (0xFFE0 :: u32) b \<longleftrightarrow> 5 \<le> b" 
    by (simp only: list_all_iff set_upt atLeastLessThan_iff le0 simp_thms Ball_def)
qed

lemma demo_free: "free_set demo_fs = {5..<16}"
proof -
  have "bm_bit demo_fs 2 b \<longleftrightarrow> 5 \<le> b" if "b < 16" for b
    using that demo_bits [OF that] by (simp add: bm_bit_def demo_bm_word)
  then show ?thesis by (auto simp: bm_ok_free_set [OF demo_bm_ok])
qed

lemma demo_fs_ok: "fs_ok demo_fs 16 2"
  by (simp add: fs_ok_def demo_bm_ok demo_free)

lemma demo_area: "bm_area 2 16 = {2}"
proof -
  have "(\<lambda>b. fst (bm_word 2 b)) ` {..<16} = (\<lambda>_. 2) ` {..<16 :: nat}"
    by (rule image_cong) (simp_all add: demo_bm_word)
  also have "\<dots> = {2}" by (rule image_constant [of 0]) simp
  finally show ?thesis by (simp only: bm_area_def)
qed

text \<open>The root directory and the file.\<close>

lemma demo_file_ok: "file_ok demo_fs 16 2 (s_root 1)" "file_ok demo_fs 16 2 (dir_slot 3 0)"
  by (simp_all add: file_ok_def demo_area s_root_def dir_slot_def file_layout view_def)

lemma demo_lookups:
  "file_lookup demo_fs (s_root 1) 0 = 3" "file_lookup demo_fs (dir_slot 3 0) 0 = 4"
  "file_lookup demo_fs (dir_slot 3 0) 1 = 0" "file_lookup demo_fs (dir_slot 3 0) 12 = 0"
  by (simp_all add: file_lookup_def s_root_def dir_slot_def file_layout view_def NDIRECT_def)

lemma demo_cached: "cached demo_fs 16 2 (s_root 1) 0" "cached demo_fs 16 2 (dir_slot 3 0) 0"
proof -
  have "fst (s_root 1) = 1" "fst (dir_slot 3 0) = 3" by (simp_all add: s_root_def dir_slot_def)
  then show "cached demo_fs 16 2 (s_root 1) 0" "cached demo_fs 16 2 (dir_slot 3 0) 0"
    unfolding cached_def demo_lookups by (simp_all add: demo_fs_ok NDIRECT_def)
qed

lemma demo_nblocks: "unat (nblocks_of 4096) = 1" "dir_nblocks 4096 = 1"
  by (simp_all add: nblocks_of_def dir_nblocks_def BY2BLK_def layout)

lemma demo_small: "small_file demo_fs 16 2 (dir_slot 3 0) 1"
  using demo_cached(2) demo_nblocks(1)
  by (simp add: small_file_def NDIRECT_def) (simp add: dir_slot_def frd_def rd_def file_layout)

end
