(* ===== verification/Fs_Props.thy ===== *)
theory Fs_Props
  imports Fs_Demo
begin

text \<open>
  The properties of the file server, each applied to the disk of theory \<open>Fs_Demo\<close> where it
  has hypotheses.
\<close>

unbundle bit_operations_syntax

section \<open>The disk\<close>

text \<open>
  C14. A dirty block that is written, dropped from memory and read again comes back with the
  same 1024 words.
\<close>

theorem block_roundtrip:
  assumes ok: "fs_ok s n bm" and b: "b < n" "b \<notin> bm_area bm n" "super s \<noteq> Some b" "mapped s b" "dirty s b"
    and g: "grants s 0"
  shows "\<exists>s1 s2. write_block s b = Some s1
    \<and> read_block (fs_mem_unmap s1 b) b = Some (Inr True, s2) \<and> (\<forall>k < 1024. mem s2 b k = mem s b k)"
proof -
  have bm: "bm_ok s n bm" using ok by (simp add: fs_ok_def)
  obtain s1 where w: "write_block s b = Some s1" and fl: "flushed s b s1"
    using write_block_ok [OF fs_ok_super [OF ok] b(1,4)] by blast
  obtain dk where s1: "s1 = s\<lparr>disk := dk, dirty := (dirty s)(b := False)\<rparr>" using fl by (auto simp: flushed_def)
  let ?t = "fs_mem_unmap s1 b"
  have area: "fst (bm_word bm x) \<noteq> b" if "x < n" for x using b(2) that by (auto simp: bm_area_def)
  have t: "bm_ok ?t n bm" "super_ok ?t n"
    using bm b(3) area by (auto simp: s1 fs_mem_unmap_def bm_ok_def super_ok_def)
  have "b \<notin> free_set s" by (rule fs_ok_free [OF ok b(4)])
  moreover have "bm_bit ?t bm b = bm_bit s bm b" by (simp add: s1 fs_mem_unmap_def bm_bit_def)
  ultimately have nf: "block_is_free ?t b = Some False"
    using b(1) by (simp add: bm_ok_is_free [OF t(1)] bm_ok_free_set [OF bm])
  have "\<not> mapped ?t b" "grants ?t 0" using g by (simp_all add: s1 fs_mem_unmap_def)
  then obtain s2 where "read_block ?t b = Some (Inr True, s2)" "\<forall>k < 1024. mem s2 b k = disk_word ?t b k"
    using read_block_loads [OF t(2) b(1) disjI2 [OF nf]] by auto
  moreover have "disk_word ?t b k = disk_word s1 b k" for k by (simp add: fs_mem_unmap_def disk_word_def)
  moreover have "disk_word s1 b k = mem s b k" if "k < 1024" for k using fl b(5) that by (simp add: flushed_def)
  ultimately show ?thesis using w by (intro exI [of _ s1] exI [of _ s2]) auto
qed

theorem block_roundtrip_witness:
  "\<exists>s1 s2. write_block demo_fs 4 = Some s1 \<and> read_block (fs_mem_unmap s1 4) 4 = Some (Inr True, s2)
     \<and> mem s2 4 0 = 7"
  using block_roundtrip [OF demo_fs_ok, of 4] by (fastforce simp: demo_area)

text \<open>
  \<open>fs_sync\<close> succeeds and leaves no dirty block: every block that was in memory and dirty
  is on the disk as it is in memory, every other block of the disk is as it was, and memory
  does not change.
\<close>

lemma fs_sync_writes_all:
  assumes "super_ok s n"
  shows "\<exists>t. fs_sync s = Some t \<and> mem t = mem s \<and> mapped t = mapped s
    \<and> (\<forall>b < n. mapped t b \<longrightarrow> \<not> dirty t b)
    \<and> (\<forall>b k. k < 1024 \<longrightarrow> disk_word t b k = (if b < n \<and> mapped s b \<and> dirty s b then mem s b k else disk_word s b k))"
proof -
  obtain t where t: "fs_sync s = Some t" "synced s n t" using fs_sync_ok [OF assms] by blast
  note f = synced_fields [OF t(2)]
  have "\<forall>b < n. mapped t b \<longrightarrow> \<not> dirty t b" by (simp add: f)
  moreover have "\<forall>b k. k < 1024 \<longrightarrow>
      disk_word t b k = (if b < n \<and> mapped s b \<and> dirty s b then mem s b k else disk_word s b k)"
    using t(2) unfolding synced_def by (rule conjunct2)
  ultimately show ?thesis using t(1) f(2,3) by blast
qed

section \<open>Blocks\<close>

text \<open>
  C15. Allocation never hands out a block twice: \<open>k\<close> calls of \<open>alloc_block_num\<close> give distinct
  free blocks, as many as there are free blocks from 2 on, and take exactly these off the
  bitmap.
\<close>

theorem alloc_block_num_distinct:
  assumes "bm_ok s n bm"
  shows "\<exists>xs s'. pool.takes alloc_block_num k s = Some (xs, s') \<and> distinct xs
    \<and> set xs \<subseteq> fs_avail s \<and> length xs = min k (card (fs_avail s)) \<and> fs_avail s' = fs_avail s - set xs"
proof -
  have "fs_inv s" using assms by (auto simp: fs_inv_def)
  from blocks.takes_distinct [OF this, of k] show ?thesis by blast
qed

theorem alloc_block_num_distinct_witness:
  "\<exists>xs s'. pool.takes alloc_block_num 12 demo_fs = Some (xs, s') \<and> distinct xs \<and> length xs = 11
     \<and> fs_avail s' = {}"
proof -
  have a: "fs_avail demo_fs = {5..<16}" by (auto simp: fs_avail_def demo_free)
  obtain xs s' where x: "pool.takes alloc_block_num 12 demo_fs = Some (xs, s')" "distinct xs"
      "set xs \<subseteq> {5..<16}" "length xs = 11" "fs_avail s' = {5..<16} - set xs"
    using alloc_block_num_distinct [OF demo_bm_ok, of 12] unfolding a by auto
  have "card (set xs) = 11" using distinct_card [OF x(2)] x(4) by simp
  then have "set xs = {5..<16}" using card_subset_eq [OF _ x(3)] by simp
  then show ?thesis using x by auto
qed



section \<open>Names\<close>

text \<open>
  C17. \<open>walk_path\<close> resolves the names between the slashes one after the other from the root:
  repeated slashes, and slashes at either end, make no difference.
\<close>

theorem walk_path_components:
  "walk_path s path = do { sb \<leftarrow> super s; resolve s (components path) None (s_root sb) }"
  by (rule walk_path_resolve)

text \<open>
  C18. \<open>dir_lookup\<close> in a directory whose blocks are in memory finds the first entry with the
  name, and fails with \<open>E_NOT_FOUND\<close> and no change when no entry has it.
\<close>

theorem dir_lookup_first:
  assumes "frd s dir off_size = Some sz" "dir_nblocks sz \<le> 1024"
    "\<forall>i < dir_nblocks sz. cached s n bm dir i" "0 \<notin> set name"
  shows "dir_lookup s dir name =
    (case find (has_name s name) (dir_entries s dir [0..<dir_nblocks sz]) of
       None \<Rightarrow> Some (Inl E_NOT_FOUND, s)
     | Some f \<Rightarrow> do { s1 \<leftarrow> set_dir dir f s; Some (Inr f, s1) })"
  by (rule dir_lookup_find [OF assms])

theorem dir_lookup_first_witness:
  "\<exists>s1. dir_lookup demo_fs (s_root 1) [0x61] = Some (Inr (dir_slot 3 0), s1)"
proof -
  have sz: "frd demo_fs (s_root 1) off_size = Some 4096"
    by (simp add: frd_def rd_def s_root_def file_layout)
  have h: "has_name demo_fs [0x61] (dir_slot 3 0)"
    by (simp add: has_name_def f_name_def dir_slot_def get_bytes_def get_byte_def drop_bit_eq_div)
  have e: "dir_entries demo_fs (s_root 1) [0..<1] = dir_slot 3 0 # map (dir_slot 3) [1..<FILE2BLK]"
    by (simp add: dir_entries_def demo_lookups(1) [unfolded One_nat_def] FILE2BLK_def upt_conv_Cons)
  have "\<exists>s1. set_dir (s_root 1) (dir_slot 3 0) demo_fs = Some s1"
    by (simp add: set_dir_def fwr_def wr_def dir_slot_def)
  then show ?thesis
    using dir_lookup_first [OF sz, of 16 2 "[0x61]"] demo_cached(1) h e by (auto simp: demo_nblocks)
qed

section \<open>Files\<close>

text \<open>
  A file that grew beyond ten blocks without being written has no indirect block;
  cutting it back to ten blocks or fewer then frees block 0, which stops the server.
\<close>

lemma truncate_sparse_stops:
  assumes "trunc_inv s n bm f 0" "frd s f off_size = Some sz" "NDIRECT < unat (nblocks_of sz)"
    "unat (nblocks_of newsize) \<le> NDIRECT"
  shows "file_truncate s f newsize = None"
proof (rule ccontr)
  assume "file_truncate s f newsize \<noteq> None"
  then obtain s' where "file_truncate s f newsize = Some s'" by auto
  from truncate_indirect [OF assms this] show False by simp
qed

text \<open>
  C19. When \<open>file_truncate\<close> cuts a file back to ten blocks or fewer it frees the indirect
  block but leaves the pointer to it in the file: the next access to a block from the eleventh
  on reads a free block and stops the server.
\<close>

theorem truncate_leaves_indirect:
  assumes "trunc_inv s n bm f ind" "frd s f off_size = Some sz" "NDIRECT < unat (nblocks_of sz)"
    "unat (nblocks_of newsize) \<le> NDIRECT" "file_truncate s f newsize = Some s'" "NDIRECT \<le> i" "i < 1024"
  shows "mem s' (fst f) (snd f + off_indirect) = ind \<and> unat ind \<in> free_set s'
    \<and> file_get_block s' f (of_nat i) = None"
proof -
  from truncate_indirect [OF assms(1-5)] have t: "ind \<noteq> 0" "mem s' (fst f) (snd f + off_indirect) = ind"
      "mapped s' (fst f)" "block_is_free s' (unat ind) = Some True" "bm_ok s' n bm" by auto
  from stale_indirect_stops [OF t(5,3,2,1,4) assms(6,7)] t(2,4) show ?thesis
    by (simp add: file_get_block_def file_map_block_def free_set_def)
qed

text \<open>The file \<open>a\<close> with twelve blocks, of which only the indirect block 15 exists.\<close>

definition demo_long :: "u32 \<Rightarrow> fsstate" where
  "demo_long z = bm_store (bm_store (bm_store (bm_store (demo_fs\<lparr>mapped := (mapped demo_fs)(15 := True)\<rparr>)
     2 0 0x7FE0) 3 44 15) 3 34 0) 3 32 z"

lemma demo_long_fields:
  "mapped (demo_long z) 3" "mapped (demo_long z) 15" "mem (demo_long z) 15 = (\<lambda>_. 0)"
  "mem (demo_long z) 3 44 = 15" "mem (demo_long z) 3 32 = z" "i < 10 \<Longrightarrow> mem (demo_long z) 3 (34 + i) = 0"
  by (simp_all add: demo_long_def) (simp add: demo_fs_def)

lemma demo_long_ok: "trunc_inv (demo_long z) 16 2 (dir_slot 3 0) 15"
proof -
  let ?d = "demo_fs\<lparr>mapped := (mapped demo_fs)(15 := True)\<rparr>"
  have "bm_ok ?d 16 2" using demo_bm_ok by (auto simp: bm_ok_def super_ok_def)
  then have "bm_ok (demo_long z) 16 2"
    unfolding demo_long_def by (intro bm_ok_store) simp_all
  then show ?thesis
    by (simp add: trunc_inv_def demo_area dir_slot_def file_layout NDIRECT_def demo_long_fields)
qed

lemma demo_long_holes: "i < 12 \<Longrightarrow> clear_one (dir_slot 3 0) i (demo_long z) = Some (demo_long z)"
proof -
  assume i: "i < 12"
  then have ui: "unat (of_nat i :: u32) = i" by (simp add: unat_of_nat_u32)
  have bm: "bm_ok (demo_long z) 16 2" using demo_long_ok by (simp add: trunc_inv_def)
  have so: "super_ok (demo_long z) 16" using bm by (simp add: bm_ok_def)
  have "\<not> bm_bit (demo_long z) 2 15"
    by (simp add: bm_bit_def demo_bm_word) (simp add: demo_long_def)
  then have nf: "block_is_free (demo_long z) 15 = Some False" by (simp add: bm_ok_is_free [OF bm])
  have rb: "read_block (demo_long z) 15 = Some (Inr False, demo_long z)"
    by (rule read_block_mapped [OF so]) (simp_all add: nf demo_long_fields)
  show ?thesis
  proof (cases "i < 10")
    case True
    then show ?thesis using ui demo_long_fields
      by (simp add: clear_one_def file_clear_block_def file_block_walk_def rd_def dir_slot_def file_layout NDIRECT_def)
  next
    case False
    then show ?thesis using ui i rb demo_long_fields
      by (simp add: clear_one_def file_clear_block_def file_block_walk_def frd_def rd_def dir_slot_def
          file_layout NDIRECT_def NINDIRECT_def)
  qed
qed

lemma mfold_same: "\<forall>i \<in> set xs. g i s = Some s \<Longrightarrow> mfold g xs s = Some s"
  by (induction xs) auto

theorem truncate_leaves_indirect_witness:
  "\<exists>s s'. file_truncate s (dir_slot 3 0) 0 = Some s' \<and> file_get_block s' (dir_slot 3 0) 10 = None"
proof -
  have sz: "frd (demo_long 0xC000) (dir_slot 3 0) off_size = Some 0xC000"
    by (simp add: frd_def rd_def dir_slot_def file_layout demo_long_fields)
  have st: "bm_store (demo_long 0xC000) 3 32 0 = demo_long 0" by (simp add: demo_long_def bm_store_def)
  have nb: "unat (nblocks_of 0xC000) = 12" "unat (nblocks_of 0) = 0"
    by (simp_all add: nblocks_of_def BY2BLK_def layout)
  have "bm_ok (demo_long 0) 16 2" using demo_long_ok [of 0] by (simp add: trunc_inv_def)
  from free_block_ok [OF this, of 15] obtain s' where "free_block (demo_long 0) 15 = Some s'" by auto
  moreover have "mfold (clear_one (dir_slot 3 0)) [0..<12] (demo_long 0) = Some (demo_long 0)"
    by (rule mfold_same) (simp add: demo_long_holes)
  ultimately have tr: "file_truncate (demo_long 0xC000) (dir_slot 3 0) 0 = Some s'"
    unfolding file_truncate_def sz
    by (simp add: nb fwr_def wr_store demo_long_fields st frd_def rd_def dir_slot_def file_layout NDIRECT_def)
  have "file_get_block s' (dir_slot 3 0) (of_nat 10) = None"
    using truncate_leaves_indirect [OF demo_long_ok sz _ _ tr, of 10] by (simp add: nb NDIRECT_def)
  with tr show ?thesis by auto
qed

end
