(* ===== verification/Serv_Props.thy ===== *)
theory Serv_Props
  imports Fs_Props
begin

text \<open>Properties of the file server and of the string routines it and its clients use.\<close>

section \<open>File ids\<close>

text \<open>
  C21. When an entry of the table of open files is handed out again, its old id is refused from
  then on, and its new id leads to it as soon as a second environment maps the page.
\<close>

theorem stale_file_id_refused:
  assumes "ids_ok s" "open_alloc s = (Inr i, s')"
  shows "open_lookup s' (o_fileid s i) = Inl E_INVAL
    \<and> (1 < r \<longrightarrow> open_lookup (s'\<lparr>refs := (refs s')(i := r)\<rparr>) (o_fileid s' i) = Inr i
        \<and> open_lookup (s'\<lparr>refs := (refs s')(i := r)\<rparr>) (o_fileid s i) = Inl E_INVAL)"
proof -
  from open_scan_some [of s "[0..<MAXOPEN]" i s'] assms(2)
  have i: "i < MAXOPEN" "refs s' i = 1" "o_fileid s' = (o_fileid s)(i := o_fileid s i + 1024)"
    by (auto simp: open_alloc_def)
  have m: "unat (o_fileid s i) mod MAXOPEN = i" using assms(1) i(1) by (simp add: ids_ok_def)
  then have "unat (o_fileid s i + 1024) mod MAXOPEN = i" by (simp add: MAXOPEN_def unat_mod_1024)
  then show ?thesis using i(2,3) m by (simp add: open_lookup_def Let_def)
qed

text \<open>The table after \<open>serve_init\<close>.\<close>

lemma serve_init_loop_ids:
  "distinct bl \<Longrightarrow> o_fileid (serve_init_loop bl va s) i = (if i \<in> set bl then of_nat i else o_fileid s i)
    \<and> refs (serve_init_loop bl va s) = refs s \<and> fs (serve_init_loop bl va s) = fs s"
  by (induction bl arbitrary: va s) auto

lemma serve_init_ids: "ids_ok (serve_init s)"
  by (simp add: ids_ok_def serve_init_def serve_init_loop_ids MAXOPEN_def unat_of_nat_u32)

definition demo_serv :: servstate where
  "demo_serv = serve_init \<lparr>fs = demo_fs, o_file = (\<lambda>_. None), o_fileid = (\<lambda>_. 0), o_mode = (\<lambda>_. 0),
     o_va = (\<lambda>_. 0), refs = (\<lambda>_. 0), ff_page = (\<lambda>_ _. 0), sent = []\<rparr>"

lemma demo_serv_fields: "refs demo_serv i = 0" "fs demo_serv = demo_fs"
  "i < 1024 \<Longrightarrow> o_fileid demo_serv i = of_nat i"
  by (simp_all add: demo_serv_def serve_init_def serve_init_loop_ids MAXOPEN_def)

lemma upt_MAXOPEN: "[0..<MAXOPEN] = 0 # [1..<MAXOPEN]"
  unfolding MAXOPEN_def by (subst upt_conv_Cons) simp_all

lemma demo_serv_alloc: "\<exists>s'. open_alloc demo_serv = (Inr 0, s')"
  by (simp add: open_alloc_def upt_MAXOPEN demo_serv_fields Let_def)

theorem stale_file_id_refused_witness:
  "\<exists>s'. open_alloc demo_serv = (Inr 0, s') \<and> open_lookup s' 0 = Inl E_INVAL"
proof -
  obtain s' where a: "open_alloc demo_serv = (Inr 0, s')" using demo_serv_alloc by blast
  have i: "ids_ok demo_serv" unfolding demo_serv_def by (rule serve_init_ids)
  from stale_file_id_refused [OF i a] have "open_lookup s' (o_fileid demo_serv 0) = Inl E_INVAL" by simp
  then show ?thesis using a demo_serv_fields(3) [of 0] by auto
qed

text \<open>
  The server's life: the initial table, a request, or a change of a reference count by the
  clients (which the server only reads).
\<close>

inductive serv_reachable :: "servstate \<Rightarrow> bool" where
  start: "serv_reachable (serve_init s)"
| request: "serv_reachable s \<Longrightarrow> serve_one s req whom perm rq = Some s' \<Longrightarrow> serv_reachable s'"
| client: "serv_reachable s \<Longrightarrow> serv_reachable (s\<lparr>refs := r\<rparr>)"

lemma serv_reachable_ids: "serv_reachable s \<Longrightarrow> ids_ok s"
proof (induction rule: serv_reachable.induct)
  case (start s)
  show ?case by (rule serve_init_ids)
next
  case (request s req whom perm rq s')
  then show ?case using serve_one_ids by blast
next
  case (client s r)
  then show ?case by (simp add: ids_ok_def)
qed

text \<open>
  C22. In every reachable state of the server two open files never have the same id, and an id
  that is looked up with success is the id of the entry that is returned.
\<close>

theorem file_ids_unique:
  assumes "serv_reachable s"
  shows "inj_on (o_fileid s) {..<MAXOPEN}
    \<and> (open_lookup s fid = Inr i \<longrightarrow> i < MAXOPEN \<and> o_fileid s i = fid \<and> refs s i \<noteq> 1)"
proof -
  have ok: "ids_ok s" by (rule serv_reachable_ids [OF assms])
  have "inj_on (o_fileid s) {..<MAXOPEN}"
  proof (rule inj_onI)
    fix x y assume "x \<in> {..<MAXOPEN}" "y \<in> {..<MAXOPEN}" "o_fileid s x = o_fileid s y"
    then show "x = y" using ok unfolding ids_ok_def by (metis lessThan_iff)
  qed
  then show ?thesis
    by (auto simp: open_lookup_def Let_def MAXOPEN_def split: if_splits)
qed

theorem file_ids_unique_witness: "inj_on (o_fileid demo_serv) {..<MAXOPEN}"
  using file_ids_unique [of demo_serv 0 0] serv_reachable.start by (simp add: demo_serv_def)

text \<open>
  Every open of the same entry adds 1024 to its id. An id of \<open>2 ^ 31\<close> or more is taken for
  an error: the server answers with the id itself, sends no page and opens nothing, while the
  entry has been given its next id.
\<close>

lemma large_file_id_is_an_error:
  assumes "refs s 0 = 1" "o_fileid s 0 = 0x7FFFFC00"
  shows "\<exists>s'. serve_open s envid rq = Some s' \<and> fs s' = fs s \<and> o_file s' = o_file s
    \<and> o_fileid s' 0 = 0x80000000
    \<and> sent s' = sent s @ [\<lparr>r_to = envid, r_value = 0x80000000, r_page = NoPage, r_perm = 0\<rparr>]"
proof -
  have "open_alloc s = (Inr 0, open_take s 0)"
    using assms(1) by (simp add: open_alloc_def upt_MAXOPEN)
  moreover have "o_fileid (open_take s 0) 0 = 0x80000000"
    using assms(2) by (simp add: open_take_def MAXOPEN_def)
  ultimately show ?thesis
    by (simp add: serve_open_def ipc_reply_def) (simp add: open_take_def)
qed

section \<open>Strings\<close>

text \<open>
  \<open>strcpy\<close> of a terminated string to a place that it does not read afterwards copies the
  string with its terminator, and writes nothing else.
\<close>

lemma strcpy_copies:
  assumes "cstr (\<lambda>i. m (s + of_nat i)) xs" "Suc (length xs) \<le> 2 ^ 32"
    "\<And>i j. i \<le> length xs \<Longrightarrow> j \<le> length xs \<Longrightarrow> (d :: u32) + of_nat i \<noteq> s + of_nat j"
  shows "\<exists>m'. strcpy m d s = Some m' \<and> cstr (\<lambda>i. m' (d + of_nat i)) xs
    \<and> (\<forall>a. (\<forall>i \<le> length xs. a \<noteq> d + of_nat i) \<longrightarrow> m' a = m a)"
proof -
  let ?m = "bcopy_loop (Suc (length xs)) m s d"
  have c: "(\<forall>i < Suc (length xs). ?m (d + of_nat i) = m (s + of_nat i))
      \<and> (\<forall>a. (\<forall>i < Suc (length xs). a \<noteq> d + of_nat i) \<longrightarrow> ?m a = m a)"
    by (rule bcopy_loop_eq [OF assms(2)]) (use assms(3) in auto)
  have "strcpy m d s = Some ?m" by (rule strcpy_eq [OF assms(1,3)])
  moreover have "cstr (\<lambda>i. ?m (d + of_nat i)) xs"
  proof -
    have "?m (d + of_nat i) = m (s + of_nat i)" if "i \<le> length xs" for i using c that by (simp only: less_Suc_eq_le)
    then show ?thesis using assms(1) unfolding cstr_nth by (metis less_imp_le_nat order_refl)
  qed
  ultimately show ?thesis using c by (simp only: less_Suc_eq_le) blast
qed

end
