(* ===== verification/Printf.thy ===== *)
theory Printf
  imports Ustring
begin

text \<open>
  The formatter of the kernel, \<open>kern/printf.c\<close>. Memory is a function from addresses to bytes:
  the format, the strings that it names and the arguments (a \<open>va_list\<close> is the address of the
  next one) are read from it. What the formatter hands to \<open>cons_putc\<close> is the field
  \<open>kchars\<close>; \<open>kcolor\<close> is the variable \<open>color\<close>.

  A format without a terminator, or a format that contains itself by \<open>%r\<close>, is a run that does
  not end: the value is \<open>None\<close>, as it is for a read outside of a table.
\<close>

unbundle bit_operations_syntax

type_synonym u64 = "64 word"

definition asc :: "char \<Rightarrow> u8" where "asc c = of_char c"

text \<open>Two colors of \<open>inc/types.h\<close>.\<close>

definition F_RED :: u32 where "F_RED = 0x0400"
definition F_DEFAULT :: u32 where "F_DEFAULT = 0"

record kout =
  kchars :: "u32 list"
  kcolor :: u32

section \<open>Numbers\<close>

text \<open>The string \<open>"0123456789abcdef"\<close>, with its terminator.\<close>

definition digit_chars :: "u8 list" where
  "digit_chars = map asc ''0123456789abcdef'' @ [0]"

text \<open>
  \<open>ksprintn\<close> fills its static buffer from index 1; index 0 stays the terminator. The list is
  the filled part, its head at \<open>*p\<close>. The first argument is the room that is left in the buffer: 64
  digits are enough for a base of 2 or more. The code does not look at it: None is a store beyond the
  buffer (base 1), a division by zero (base 0) or a digit beyond the terminator of the literal.
\<close>

fun ksprintn_loop :: "nat \<Rightarrow> u64 \<Rightarrow> u64 \<Rightarrow> u8 list \<Rightarrow> u8 list option" where
  "ksprintn_loop 0 uq base buf = None"
| "ksprintn_loop (Suc room) uq base buf =
     (if base = 0 \<or> 16 < uq mod base then None
      else
        let buf1 = digit_chars ! unat (uq mod base) # buf; uq1 = uq div base
        in if uq1 \<noteq> 0 then ksprintn_loop room uq1 base buf1 else Some buf1)"

definition ksprintn :: "u64 \<Rightarrow> u64 \<Rightarrow> u8 list option" where
  "ksprintn uq base = ksprintn_loop 64 uq base []"

section \<open>Arguments\<close>

definition rd32 :: "(u32 \<Rightarrow> u8) \<Rightarrow> u32 \<Rightarrow> u32" where
  "rd32 m a = word_of_bytes [m a, m (a + 1), m (a + 2), m (a + 3)]"

definition rd64 :: "(u32 \<Rightarrow> u8) \<Rightarrow> u32 \<Rightarrow> u64" where
  "rd64 m a = ucast (rd32 m a) OR push_bit 32 (ucast (rd32 m (a + 4)))"

definition kgetint :: "(u32 \<Rightarrow> u8) \<Rightarrow> u32 \<Rightarrow> bool \<Rightarrow> bool \<Rightarrow> u64 \<times> u32" where
  "kgetint m ap lflag qflag =
     (if lflag then (ucast (rd32 m ap), ap + 4)
      else if qflag then (rd64 m ap, ap + 8)
      else (ucast (rd32 m ap), ap + 4))"

section \<open>The part of a conversion before its letter\<close>

record fspec =
  padc :: u8
  width :: u32
  lflag :: bool
  qflag :: bool

definition spec0 :: fspec where
  "spec0 = \<lparr>padc = asc CHR '' '', width = 0, lflag = False, qflag = False\<rparr>"

text \<open>The digits of a width; the first has been read already.\<close>

partial_function (option) spec_width :: "(u32 \<Rightarrow> u8) \<Rightarrow> u32 \<Rightarrow> u32 \<Rightarrow> u8 \<Rightarrow> (u32 \<times> u32) option" where
  "spec_width m fmt w c =
     (let w1 = w * 10 + ucast c - ucast (asc CHR ''0''); c1 = m fmt
      in if c1 < asc CHR ''0'' \<or> asc CHR ''9'' < c1 then Some (w1, fmt)
         else spec_width m (fmt + 1) w1 c1)"

text \<open>The jumps to \<open>reswitch\<close>.\<close>

partial_function (option) spec :: "(u32 \<Rightarrow> u8) \<Rightarrow> u32 \<Rightarrow> fspec \<Rightarrow> (u8 \<times> u32 \<times> fspec) option" where
  "spec m fmt sp =
     (let c = m fmt in
      if c = asc CHR ''0'' then spec m (fmt + 1) (sp\<lparr>padc := asc CHR ''0''\<rparr>)
      else if asc CHR ''1'' \<le> c \<and> c \<le> asc CHR ''9'' then
        Option.bind (spec_width m (fmt + 1) 0 c) (\<lambda>(w, fmt1). spec m fmt1 (sp\<lparr>width := w\<rparr>))
      else if c = asc CHR ''l'' then spec m (fmt + 1) (sp\<lparr>lflag := True, qflag := False\<rparr>)
      else if c = asc CHR ''q'' then spec m (fmt + 1) (sp\<lparr>qflag := True, lflag := False\<rparr>)
      else Some (c, fmt + 1, sp))"

section \<open>Output\<close>

definition cons_out :: "u32 \<Rightarrow> kout \<Rightarrow> kout" where
  "cons_out c s = s\<lparr>kchars := kchars s @ [c]\<rparr>"

definition cons_outs :: "u32 list \<Rightarrow> kout \<Rightarrow> kout" where
  "cons_outs cs s = s\<lparr>kchars := kchars s @ cs\<rparr>"

text \<open>A \<open>char\<close> as the \<open>int\<close> that it is promoted to.\<close>

definition promote :: "u8 \<Rightarrow> u32" where "promote c = scast c"

text \<open>The filled buffer from the last digit down to the terminator.\<close>

definition out_digits :: "u8 list \<Rightarrow> u32 list" where
  "out_digits buf = map promote (takeWhile (\<lambda>c. c \<noteq> 0) buf)"

definition pad_count :: "u32 \<Rightarrow> nat \<Rightarrow> nat" where
  "pad_count w n = (if w \<noteq> 0 \<and> 0 < sint (w - of_nat n) then unat (w - of_nat n) else 0)"

text \<open>The code at the label \<open>number\<close>.\<close>

definition knumber :: "u64 \<Rightarrow> u64 \<Rightarrow> fspec \<Rightarrow> kout \<Rightarrow> kout option" where
  "knumber uq base sp s =
     do {
       p \<leftarrow> ksprintn uq base;
       Some (cons_outs (replicate (pad_count (width sp) (length p)) (promote (padc sp)) @ out_digits p) s)
     }"

text \<open>Strings: with the color, and of names up to a control character or space.\<close>

partial_function (option) kputs :: "(u32 \<Rightarrow> u8) \<Rightarrow> kout \<Rightarrow> u32 \<Rightarrow> kout option" where
  "kputs m s p = (if m p \<noteq> 0 then kputs m (cons_out (promote (m p) OR kcolor s) s) (p + 1) else Some s)"

partial_function (option) bit_name :: "(u32 \<Rightarrow> u8) \<Rightarrow> u32 \<Rightarrow> u32 list \<Rightarrow> (u32 \<times> u32 list) option" where
  "bit_name m p cs =
     (if sint (m p) > 32 then bit_name m (p + 1) (cs @ [promote (m p)]) else Some (p, cs))"

text \<open>The loop of \<open>%b\<close> over the bit numbers; a shift count is taken modulo 32 by the processor.\<close>

definition bit_test :: "u64 \<Rightarrow> u8 \<Rightarrow> bool" where
  "bit_test uq n \<longleftrightarrow> uq AND scast (push_bit (unat ((promote n - 1) AND 31)) 1 :: u32) \<noteq> 0"

partial_function (option) kbits :: "(u32 \<Rightarrow> u8) \<Rightarrow> u64 \<Rightarrow> u32 \<Rightarrow> bool \<Rightarrow> kout \<Rightarrow> kout option" where
  "kbits m uq p tmp s =
     (if m p = 0 then Some (if tmp then cons_out (ucast (asc CHR ''>'')) s else s)
      else
        Option.bind (bit_name m (p + 1) []) (\<lambda>(p1, cs).
          if bit_test uq (m p)
          then kbits m uq p1 True (cons_outs (ucast (if tmp then asc CHR '','' else asc CHR ''<'') # cs) s)
          else kbits m uq p1 tmp s))"

section \<open>Errors\<close>

definition MAXERROR :: nat where "MAXERROR = 12"

fun kerror_string :: "nat \<Rightarrow> string option" where
  "kerror_string n =
     (if n = 1 then Some ''unspecified error''
      else if n = 2 then Some ''bad environment''
      else if n = 3 then Some ''invalid parameter''
      else if n = 4 then Some ''out of memory''
      else if n = 5 then Some ''out of environments''
      else if n = 6 then Some ''env is blocking ipc''
      else None)"

text \<open>
  \<open>%e\<close>: the text of an inner \<open>printf\<close>, which has the color on the literal characters and on a
  string. A number whose negation overflows is an index outside of the table.
\<close>

definition kerror :: "u32 \<Rightarrow> kout \<Rightarrow> kout option" where
  "kerror w s =
     (let n = if sint w < 0 then - w else w
      in if sint n < 0 then None
         else
           let text = \<lambda>cs. map (\<lambda>c. promote (asc c) OR kcolor s) cs
           in case (if unat n > MAXERROR then None else kerror_string (unat n)) of
                Some cs \<Rightarrow> Some (cons_outs (text cs) s)
              | None \<Rightarrow> knumber (ucast n) 10 spec0 (cons_outs (text ''error '') s))"

section \<open>Conversions\<close>

text \<open>The letters of the \<open>switch\<close>, \<open>%r\<close> apart: the output and the next argument.\<close>

definition kconv :: "(u32 \<Rightarrow> u8) \<Rightarrow> kout \<Rightarrow> u32 \<Rightarrow> u8 \<Rightarrow> fspec \<Rightarrow> (kout \<times> u32) option" where
  "kconv m s ap c sp =
     (if c = asc CHR ''b'' then
        do {
          let uq = scast (rd32 m ap); let p = rd32 m (ap + 4);
          q \<leftarrow> ksprintn uq (scast (m p));
          let s1 = cons_outs (out_digits q) s;
          s2 \<leftarrow> (if uq = 0 then Some s1 else kbits m uq (p + 1) False s1);
          Some (s2, ap + 8)
        }
      else if c = asc CHR ''c'' then Some (cons_out (rd32 m ap) s, ap + 4)
      else if c = asc CHR ''e'' then do { s1 \<leftarrow> kerror (rd32 m ap) s; Some (s1, ap + 4) }
      else if c = asc CHR ''s'' then
        (let p = rd32 m ap
         in if p = 0 then Some (cons_outs (map (\<lambda>d. promote (asc d) OR kcolor s) ''(null)'') s, ap + 4)
            else do { s1 \<leftarrow> kputs m s p; Some (s1, ap + 4) })
      else if c = asc CHR ''C'' then
        (let (uq, ap1) = kgetint m ap (lflag sp) (qflag sp) in Some (s\<lparr>kcolor := ucast uq\<rparr>, ap1))
      else if c = asc CHR ''d'' then
        (let (uq, ap1) = kgetint m ap (lflag sp) (qflag sp)
         in do {
              s1 \<leftarrow> (if sint uq < 0 then knumber (- uq) 10 sp (cons_out (ucast (asc CHR ''-'')) s)
                     else knumber uq 10 sp s);
              Some (s1, ap1)
            })
      else if c = asc CHR ''u'' then
        (let (uq, ap1) = kgetint m ap (lflag sp) (qflag sp) in do { s1 \<leftarrow> knumber uq 10 sp s; Some (s1, ap1) })
      else if c = asc CHR ''o'' then
        (let (uq, ap1) = kgetint m ap (lflag sp) (qflag sp)
         in do { s1 \<leftarrow> knumber uq 8 sp (cons_out (ucast (asc CHR ''0'')) s); Some (s1, ap1) })
      else if c = asc CHR ''p'' then
        do {
          s1 \<leftarrow> knumber (ucast (rd32 m ap)) 16 sp (cons_outs [ucast (asc CHR ''0''), ucast (asc CHR ''x'')] s);
          Some (s1, ap + 4)
        }
      else if c = asc CHR ''x'' then
        (let (uq, ap1) = kgetint m ap (lflag sp) (qflag sp) in do { s1 \<leftarrow> knumber uq 16 sp s; Some (s1, ap1) })
      else if c = asc CHR ''%'' then Some (cons_out (ucast c) s, ap)
      else Some (cons_outs ([ucast (asc CHR ''%'')] @ (if lflag sp then [ucast (asc CHR ''l'')] else []) @ [ucast c]) s, ap))"

text \<open>
  The outer loop: plain characters have the color, the others have not. After a conversion
  letter that is the terminator the loop reads on behind the format.
\<close>

partial_function (option) kprintf :: "(u32 \<Rightarrow> u8) \<Rightarrow> kout \<Rightarrow> u32 \<Rightarrow> u32 \<Rightarrow> kout option" where
  "kprintf m s fmt ap =
     (if m fmt = 0 then Some s
      else if m fmt \<noteq> asc CHR ''%'' then kprintf m (cons_out (ucast (m fmt) OR kcolor s) s) (fmt + 1) ap
      else
        Option.bind (spec m (fmt + 1) spec0) (\<lambda>(c, fmt1, sp).
          if c = asc CHR ''r'' then
            Option.bind (kprintf m s (rd32 m ap) (rd32 m (ap + 4))) (\<lambda>s1. kprintf m s1 fmt1 (ap + 8))
          else Option.bind (kconv m s ap c sp) (\<lambda>(s1, ap1). kprintf m s1 fmt1 ap1)))"

text \<open>The callers: \<open>printf\<close> and \<open>warn\<close>, whose arguments follow the format on the stack.\<close>

definition kernel_printf :: "(u32 \<Rightarrow> u8) \<Rightarrow> kout \<Rightarrow> u32 \<Rightarrow> u32 \<Rightarrow> kout option" where
  "kernel_printf m s fmt ap = kprintf m s fmt ap"

definition kernel_warn :: "(u32 \<Rightarrow> u8) \<Rightarrow> kout \<Rightarrow> u32 \<Rightarrow> u32 \<Rightarrow> kout option" where
  "kernel_warn m s fmt ap =
     do { s1 \<leftarrow> kprintf m s fmt ap; Some (cons_out (ucast (asc CHR ''\<newline>'') OR kcolor s1) s1) }"

text \<open>
  \<open>_panic\<close>: the state in which the machine then loops. A panic during a panic prints nothing;
  the flag is \<open>panicstr\<close>, the address of the first format. \<open>pfile\<close> is the file name.
\<close>

definition kernel_panic :: "(u32 \<Rightarrow> u8) \<Rightarrow> kout \<Rightarrow> u32 \<Rightarrow> u32 \<Rightarrow> u32 \<Rightarrow> u32 \<Rightarrow> u32 \<Rightarrow> (kout \<times> u32) option" where
  "kernel_panic m s panicstr pfile line fmt ap =
     (if panicstr \<noteq> 0 then Some (s, panicstr)
      else
        do {
          let text = (\<lambda>cs t. cons_outs (map (\<lambda>c. promote (asc c) OR kcolor t) cs) t);
          let s1 = s\<lparr>kcolor := F_RED\<rparr>;
          s2 \<leftarrow> (if pfile = 0 then Some (text ''panic at (null)'' s1) else kputs m (text ''panic at '' s1) pfile);
          s3 \<leftarrow> knumber (ucast line) 10 spec0 (text '':'' s2);
          s4 \<leftarrow> kprintf m ((text '': '' s3)\<lparr>kcolor := F_DEFAULT\<rparr>) fmt ap;
          Some (text ''\<newline>'' s4, fmt)
        })"

end
