(* ===== verification/Uprintf.thy ===== *)
theory Uprintf
  imports Printf
begin

text \<open>
  The formatter of the user library, \<open>user/printf.c\<close>: it writes into a buffer in memory that
  \<open>printf\<close> then sends to the kernel. The jumps to \<open>reswitch\<close> are those of the kernel's
  formatter, the definition \<open>spec\<close>; numbers have 32 bits here.

  The state is memory, the variable \<open>color\<close> and the position \<open>buf\<close> in the buffer.
\<close>

unbundle bit_operations_syntax

record ust =
  um :: "u32 \<Rightarrow> u8"
  ucolor :: u32
  upos :: u32

section \<open>Numbers\<close>

text \<open>
  \<open>room\<close> is the number of bytes of \<open>numbuf\<close> that are left: its first byte is the 0 that \<open>*buf = 0\<close> stores,
  and \<open>sizeof(u_quad_t) * 8\<close> are left for digits. \<open>printnum\<close> does not look at it: with base 1 it stores
  digits beyond the array for ever, with base 0 it divides by zero. None is such a store, the
  division, or a digit beyond the terminator of the literal.
\<close>

fun printnum_loop :: "nat \<Rightarrow> u32 \<Rightarrow> u32 \<Rightarrow> u8 list \<Rightarrow> u8 list option" where
  "printnum_loop 0 uq base buf = None"
| "printnum_loop (Suc room) uq base buf =
     (if base = 0 \<or> 16 < uq mod base then None
      else
        let buf1 = digit_chars ! unat (uq mod base) # buf; uq1 = uq div base
        in if uq1 \<noteq> 0 then printnum_loop room uq1 base buf1 else Some buf1)"

definition printnum :: "u32 \<Rightarrow> u32 \<Rightarrow> u8 list option" where
  "printnum uq base = printnum_loop 64 uq base []"

definition ugetint :: "(u32 \<Rightarrow> u8) \<Rightarrow> u32 \<Rightarrow> u32 \<times> u32" where
  "ugetint m ap = (rd32 m ap, ap + 4)"

section \<open>The buffer\<close>

text \<open>A character beyond the end is dropped: the last byte becomes the terminator instead.\<close>

definition buf_putc :: "u32 \<Rightarrow> u32 \<Rightarrow> ust \<Rightarrow> ust" where
  "buf_putc ebuf c s =
     (if ebuf \<le> upos s then s\<lparr>upos := ebuf - 1, um := (um s)(ebuf - 1 := 0)\<rparr>
      else s\<lparr>um := (um s)(upos s := ucast c), upos := upos s + 1\<rparr>)"

definition buf_puts :: "u32 \<Rightarrow> u32 list \<Rightarrow> ust \<Rightarrow> ust" where
  "buf_puts ebuf cs s = fold (buf_putc ebuf) cs s"

definition unumber :: "u32 \<Rightarrow> u32 \<Rightarrow> u32 \<Rightarrow> fspec \<Rightarrow> ust \<Rightarrow> ust option" where
  "unumber ebuf uq base sp s =
     do {
       p \<leftarrow> printnum uq base;
       Some (buf_puts ebuf (replicate (pad_count (width sp) (length p)) (promote (padc sp)) @ out_digits p) s)
     }"

text \<open>\<open>%d\<close>.\<close>

definition udecimal :: "u32 \<Rightarrow> u32 \<Rightarrow> fspec \<Rightarrow> ust \<Rightarrow> ust option" where
  "udecimal ebuf uq sp s =
     (if sint uq < 0 then unumber ebuf (- uq) 10 sp (buf_putc ebuf (ucast (asc CHR ''-'')) s)
      else unumber ebuf uq 10 sp s)"

partial_function (option) uputs :: "u32 \<Rightarrow> ust \<Rightarrow> u32 \<Rightarrow> ust option" where
  "uputs ebuf s p = (if um s p \<noteq> 0 then uputs ebuf (buf_putc ebuf (promote (um s p)) s) (p + 1) else Some s)"

partial_function (option) ubit_name :: "u32 \<Rightarrow> bool \<Rightarrow> ust \<Rightarrow> u32 \<Rightarrow> (ust \<times> u32) option" where
  "ubit_name ebuf show_it s p =
     (if sint (um s p) > 32
      then ubit_name ebuf show_it (if show_it then buf_putc ebuf (promote (um s p)) s else s) (p + 1)
      else Some (s, p))"

definition ubit_test :: "u32 \<Rightarrow> u8 \<Rightarrow> bool" where
  "ubit_test uq n \<longleftrightarrow> uq AND push_bit (unat ((promote n - 1) AND 31)) 1 \<noteq> 0"

partial_function (option) ubits :: "u32 \<Rightarrow> u32 \<Rightarrow> bool \<Rightarrow> ust \<Rightarrow> u32 \<Rightarrow> ust option" where
  "ubits ebuf uq tmp s p =
     (if um s p = 0 then Some (if tmp then buf_putc ebuf (ucast (asc CHR ''>'')) s else s)
      else if ubit_test uq (um s p) then
        Option.bind
          (ubit_name ebuf True (buf_putc ebuf (ucast (if tmp then asc CHR '','' else asc CHR ''<'')) s) (p + 1))
          (\<lambda>(s1, p1). ubits ebuf uq True s1 p1)
      else Option.bind (ubit_name ebuf False s (p + 1)) (\<lambda>(s1, p1). ubits ebuf uq tmp s1 p1))"

text \<open>An inner \<open>snprintf\<close> into the rest of the buffer, and the step of \<open>buf\<close> over it.\<close>

definition snprintf_with :: "(ust \<Rightarrow> ust option) \<Rightarrow> u32 \<Rightarrow> ust \<Rightarrow> (ust \<times> u32) option" where
  "snprintf_with act ebuf s =
     do { s1 \<leftarrow> act s; let s2 = buf_putc ebuf 0 s1; Some (s2, upos s2 - 1 - upos s) }"

definition append_with :: "(ust \<Rightarrow> ust option) \<Rightarrow> u32 \<Rightarrow> ust \<Rightarrow> ust option" where
  "append_with act ebuf s = do { (s1, n) \<leftarrow> snprintf_with act ebuf s; Some (s1\<lparr>upos := upos s + n\<rparr>) }"

section \<open>Errors\<close>

fun uerror_string :: "nat \<Rightarrow> string option" where
  "uerror_string n =
     (if n = 7 then Some ''no free space on disk''
      else if n = 8 then Some ''too many files are open''
      else if n = 9 then Some ''file or block not found''
      else if n = 10 then Some ''invalid path''
      else if n = 11 then Some ''file already exists''
      else if n = 12 then Some ''file is not a valid executable''
      else if n = 6 then Some ''env is not recving''
      else if n = 1 then Some ''unspecified error''
      else if n = 2 then Some ''bad environment''
      else if n = 3 then Some ''invalid parameter''
      else if n = 4 then Some ''out of memory''
      else if n = 5 then Some ''out of environments''
      else None)"

definition text_out :: "string \<Rightarrow> u32 list" where
  "text_out cs = map (\<lambda>c. promote (asc c)) cs"

definition uerror :: "u32 \<Rightarrow> u32 \<Rightarrow> ust \<Rightarrow> ust option" where
  "uerror ebuf w s =
     (let n = if sint w < 0 then - w else w
      in if sint n < 0 then None
         else
           append_with
             (case (if unat n > MAXERROR then None else uerror_string (unat n)) of
                Some cs \<Rightarrow> (\<lambda>t. Some (buf_puts ebuf (text_out cs) t))
              | None \<Rightarrow> (\<lambda>t. unumber ebuf n 10 spec0 (buf_puts ebuf (text_out ''error '') t)))
             ebuf s)"

section \<open>Conversions\<close>

definition uconv :: "u32 \<Rightarrow> ust \<Rightarrow> u32 \<Rightarrow> u8 \<Rightarrow> fspec \<Rightarrow> (ust \<times> u32) option" where
  "uconv ebuf s ap c sp =
     (if c = asc CHR ''b'' then
        do {
          let uq = rd32 (um s) ap; let p = rd32 (um s) (ap + 4);
          q \<leftarrow> printnum uq (scast (um s p));
          let s1 = buf_puts ebuf (out_digits q) s;
          s2 \<leftarrow> (if uq = 0 then Some s1 else ubits ebuf uq False s1 (p + 1));
          Some (s2, ap + 8)
        }
      else if c = asc CHR ''c'' then Some (buf_putc ebuf (rd32 (um s) ap) s, ap + 4)
      else if c = asc CHR ''e'' then do { s1 \<leftarrow> uerror ebuf (rd32 (um s) ap) s; Some (s1, ap + 4) }
      else if c = asc CHR ''s'' then
        (let p = rd32 (um s) ap
         in if p = 0 then Some (buf_puts ebuf (text_out ''(null)'') s, ap + 4)
            else do { s1 \<leftarrow> uputs ebuf s p; Some (s1, ap + 4) })
      else if c = asc CHR ''C'' then
        (let (uq, ap1) = ugetint (um s) ap in Some (s\<lparr>ucolor := uq\<rparr>, ap1))
      else if c = asc CHR ''d'' then
        (let (uq, ap1) = ugetint (um s) ap
         in do { s1 \<leftarrow> udecimal ebuf uq sp s; Some (s1, ap1) })
      else if c = asc CHR ''u'' then
        (let (uq, ap1) = ugetint (um s) ap in do { s1 \<leftarrow> unumber ebuf uq 10 sp s; Some (s1, ap1) })
      else if c = asc CHR ''o'' then
        (let (uq, ap1) = ugetint (um s) ap in do { s1 \<leftarrow> unumber ebuf uq 8 sp s; Some (s1, ap1) })
      else if c = asc CHR ''p'' then
        do {
          s1 \<leftarrow> unumber ebuf (rd32 (um s) ap) 16 sp (buf_puts ebuf (text_out ''0x'') s);
          Some (s1, ap + 4)
        }
      else if c = asc CHR ''x'' then
        (let (uq, ap1) = ugetint (um s) ap in do { s1 \<leftarrow> unumber ebuf uq 16 sp s; Some (s1, ap1) })
      else if c = asc CHR ''%'' then Some (buf_putc ebuf (ucast c) s, ap)
      else
        Some (buf_puts ebuf ([ucast (asc CHR ''%'')] @ (if lflag sp then [ucast (asc CHR ''l'')] else []) @ [ucast c]) s, ap))"

text \<open>The loop of \<open>vsnprintf\<close>; the terminator is put into the buffer as a character is.\<close>

partial_function (option) vsn_loop :: "u32 \<Rightarrow> u32 \<Rightarrow> ust \<Rightarrow> u32 \<Rightarrow> u32 \<Rightarrow> (ust \<times> u32) option" where
  "vsn_loop obuf ebuf s fmt ap =
     (if um s fmt \<noteq> asc CHR ''%'' then
        let c = um s fmt; s1 = buf_putc ebuf (ucast c) s
        in if c = 0 then Some (s1, upos s1 - 1 - obuf) else vsn_loop obuf ebuf s1 (fmt + 1) ap
      else
        Option.bind (spec (um s) (fmt + 1) spec0) (\<lambda>(c, fmt1, sp).
          if c = asc CHR ''r'' then
            Option.bind (vsn_loop (upos s) ebuf s (rd32 (um s) ap) (rd32 (um s) (ap + 4)))
              (\<lambda>(s1, n). vsn_loop obuf ebuf (s1\<lparr>upos := upos s + n\<rparr>) fmt1 (ap + 8))
          else Option.bind (uconv ebuf s ap c sp) (\<lambda>(s1, ap1). vsn_loop obuf ebuf s1 fmt1 ap1)))"

text \<open>\<open>vsnprintf\<close>, and \<open>snprintf\<close> with its arguments at \<open>ap\<close>: memory, color and result.\<close>

definition vsnprintf :: "(u32 \<Rightarrow> u8) \<Rightarrow> u32 \<Rightarrow> u32 \<Rightarrow> u32 \<Rightarrow> u32 \<Rightarrow> u32 \<Rightarrow> (ust \<times> u32) option" where
  "vsnprintf m col buf n fmt ap = vsn_loop buf (buf + n) \<lparr>um = m, ucolor = col, upos = buf\<rparr> fmt ap"

section \<open>Callers\<close>

text \<open>
  What the callers ask of the kernel. The buffer of 256 bytes is on the stack at \<open>buf\<close>;
  \<open>Exit\<close> is the call of \<open>exit\<close> that ends \<open>_panic\<close>. A string argument is sent as the address
  of the buffer.
\<close>

datatype ucall = SetColor u32 | Cputs u32 | Exit

definition user_printf :: "(u32 \<Rightarrow> u8) \<Rightarrow> u32 \<Rightarrow> u32 \<Rightarrow> u32 \<Rightarrow> u32 \<Rightarrow> (ust \<times> ucall list) option" where
  "user_printf m col buf fmt ap =
     do { (s, _) \<leftarrow> vsnprintf m col buf 256 fmt ap; Some (s, [SetColor (ucolor s), Cputs buf]) }"

text \<open>The pieces that \<open>warn\<close> and \<open>_panic\<close> put one behind the other into their buffer.\<close>

definition name_prefix :: "u32 \<Rightarrow> u32 \<Rightarrow> ust \<Rightarrow> ust option" where
  "name_prefix argv0 ebuf s =
     (if argv0 = 0 then Some s
      else append_with (\<lambda>t. map_option (buf_puts ebuf (text_out '': '')) (uputs ebuf t argv0)) ebuf s)"

definition append_format :: "u32 \<Rightarrow> u32 \<Rightarrow> u32 \<Rightarrow> ust \<Rightarrow> ust option" where
  "append_format ebuf fmt ap s =
     do { (s1, n) \<leftarrow> vsn_loop (upos s) ebuf s fmt ap; Some (s1\<lparr>upos := upos s + n\<rparr>) }"

definition user_warn :: "(u32 \<Rightarrow> u8) \<Rightarrow> u32 \<Rightarrow> u32 \<Rightarrow> u32 \<Rightarrow> u32 \<Rightarrow> u32 \<Rightarrow> (ust \<times> ucall list) option" where
  "user_warn m col argv0 buf fmt ap =
     do {
       let ebuf = buf + 256;
       s1 \<leftarrow> name_prefix argv0 ebuf \<lparr>um = m, ucolor = col, upos = buf\<rparr>;
       s2 \<leftarrow> append_with (\<lambda>t. Some (buf_puts ebuf (text_out ''warning: '') t)) ebuf s1;
       s3 \<leftarrow> append_format ebuf fmt ap s2;
       s4 \<leftarrow> append_with (\<lambda>t. Some (buf_puts ebuf (text_out ''\<newline>'') t)) ebuf s3;
       Some (s4, [Cputs buf])
     }"

text \<open>\<open>pfile\<close> is the address of the file name.\<close>

definition user_panic :: "(u32 \<Rightarrow> u8) \<Rightarrow> u32 \<Rightarrow> u32 \<Rightarrow> u32 \<Rightarrow> u32 \<Rightarrow> u32 \<Rightarrow> u32 \<Rightarrow> u32
    \<Rightarrow> (ust \<times> ucall list) option" where
  "user_panic m col argv0 buf pfile line fmt ap =
     do {
       let ebuf = buf + 256;
       s1 \<leftarrow> name_prefix argv0 ebuf \<lparr>um = m, ucolor = col, upos = buf\<rparr>;
       s2 \<leftarrow> append_with
         (\<lambda>t. do {
            t1 \<leftarrow> (if pfile = 0 then Some (buf_puts ebuf (text_out ''user panic at (null)'') t)
                  else uputs ebuf (buf_puts ebuf (text_out ''user panic at '') t) pfile);
            t2 \<leftarrow> udecimal ebuf line spec0 (buf_puts ebuf (text_out '':'') t1);
            Some (buf_puts ebuf (text_out '': '') t2)
          }) ebuf s1;
       s3 \<leftarrow> append_format ebuf fmt ap s2;
       s4 \<leftarrow> append_with (\<lambda>t. Some (buf_puts ebuf (text_out ''\<newline>'') t)) ebuf s3;
       Some (s4, [SetColor F_RED, Cputs buf, SetColor F_DEFAULT, Exit])
     }"

end
