(* ===== verification/Printf_Num.thy ===== *)
theory Printf_Num
  imports Uprintf
begin

text \<open>
  The number printers of the two formatters against one reference on natural numbers, the
  value of the digits that they print, and the invariant of the buffer of \<open>vsnprintf\<close>.
\<close>

unbundle bit_operations_syntax

section \<open>A reference for the two loops\<close>

fun num_loop :: "nat \<Rightarrow> nat \<Rightarrow> nat \<Rightarrow> u8 list \<Rightarrow> u8 list option" where
  "num_loop 0 n base buf = None"
| "num_loop (Suc room) n base buf =
     (if base = 0 \<or> 16 < n mod base then None
      else let buf1 = digit_chars ! (n mod base) # buf; n1 = n div base
           in if n1 \<noteq> 0 then num_loop room n1 base buf1 else Some buf1)"

lemma ksprintn_num: "ksprintn_loop room uq base buf = num_loop room (unat uq) (unat base) buf"
proof (induction room arbitrary: uq buf)
  case (Suc room)
  have "(16 < uq mod base) = (16 < unat uq mod unat base)"
    by (simp add: word_less_nat_alt unat_mod)
  moreover have "(base = 0) = (unat base = 0)" "(uq div base = 0) = (unat uq div unat base = 0)"
    by (simp_all add: unat_eq_zero [symmetric] unat_div)
  ultimately show ?case using Suc by (simp add: Let_def unat_div unat_mod)
qed simp

lemma printnum_num: "printnum_loop room uq base buf = num_loop room (unat uq) (unat base) buf"
proof (induction room arbitrary: uq buf)
  case (Suc room)
  have "(16 < uq mod base) = (16 < unat uq mod unat base)"
    by (simp add: word_less_nat_alt unat_mod)
  moreover have "(base = 0) = (unat base = 0)" "(uq div base = 0) = (unat uq div unat base = 0)"
    by (simp_all add: unat_eq_zero [symmetric] unat_div)
  ultimately show ?case using Suc by (simp add: Let_def unat_div unat_mod)
qed simp

section \<open>The digits and their value\<close>

definition digit_value :: "u8 \<Rightarrow> nat" where
  "digit_value c = (if c < asc CHR ''a'' then unat c - 48 else unat c - 87)"

definition read_digits :: "nat \<Rightarrow> u8 list \<Rightarrow> nat" where
  "read_digits base cs = foldl (\<lambda>n c. n * base + digit_value c) 0 cs"

lemma digit_chars_ok:
  "d < 16 \<Longrightarrow> digit_value (digit_chars ! d) = d \<and> digit_chars ! d \<noteq> 0 \<and> (digit_chars ! d = asc CHR ''0'' \<longleftrightarrow> d = 0)"
proof -
  have "list_all (\<lambda>d. digit_value (digit_chars ! d) = d \<and> digit_chars ! d \<noteq> 0
      \<and> (digit_chars ! d = asc CHR ''0'' \<longleftrightarrow> d = 0)) [0..<16]"
    by (simp add: upt_rec digit_value_def digit_chars_def asc_def)
  then show "d < 16 \<Longrightarrow> ?thesis" by (simp only: list_all_iff set_upt) simp
qed

text \<open>What the loop leaves in the buffer in front of what was there.\<close>

definition is_number :: "nat \<Rightarrow> nat \<Rightarrow> u8 list \<Rightarrow> bool" where
  "is_number base n ds \<longleftrightarrow> ds \<noteq> [] \<and> read_digits base ds = n \<and> 0 \<notin> set ds
     \<and> (hd ds = asc CHR ''0'' \<longrightarrow> ds = [asc CHR ''0''])"

lemma read_digits_snoc: "read_digits base (ds @ [c]) = read_digits base ds * base + digit_value c"
  by (simp add: read_digits_def)

lemma num_loop_ok:
  assumes "2 \<le> base" "base \<le> 16"
  shows "n < base ^ room \<Longrightarrow> 0 < room \<Longrightarrow>
    \<exists>ds. num_loop room n base buf = Some (ds @ buf) \<and> is_number base n ds \<and> length ds \<le> room"
proof (induction room arbitrary: n buf)
  case (Suc room)
  let ?d = "n mod base" and ?q = "n div base"
  have b: "?d < base" using assms by simp
  then have d: "?d < base" "?d < 16" using assms(2) by linarith+
  have u: "num_loop (Suc room) n base buf = (if ?q \<noteq> 0 then num_loop room ?q base (digit_chars ! ?d # buf)
      else Some (digit_chars ! ?d # buf))"
    using assms d by (simp add: Let_def)
  show ?case
  proof (cases "?q = 0")
    case True
    then have "n < base" using assms by (simp add: div_eq_0_iff)
    then have "is_number base n [digit_chars ! n]"
      using digit_chars_ok [of n] assms by (auto simp: is_number_def read_digits_def digit_chars_def)
    then show ?thesis using u True \<open>n < base\<close> by auto
  next
    case False
    have "?q < base ^ room" using Suc.prems(1) assms
      by (metis less_mult_imp_div_less mult.commute power_Suc)
    moreover have "0 < room" using False calculation by (cases room) auto
    ultimately obtain ds where ds: "num_loop room ?q base (digit_chars ! ?d # buf) = Some (ds @ digit_chars ! ?d # buf)"
      "is_number base ?q ds" "length ds \<le> room" using Suc.IH by blast
    from ds(2) False have "hd ds \<noteq> asc CHR ''0''"
      using digit_chars_ok [of 0] by (auto simp: is_number_def read_digits_def digit_chars_def)
    moreover have "read_digits base (ds @ [digit_chars ! ?d]) = n"
      using ds(2) digit_chars_ok [OF d(2)] by (simp add: read_digits_snoc is_number_def)
    ultimately have "is_number base n (ds @ [digit_chars ! ?d])"
      using ds(2) digit_chars_ok [OF d(2)] by (simp add: is_number_def)
    then show ?thesis using u ds False by (intro exI [of _ "ds @ [digit_chars ! ?d]"]) simp
  qed
qed simp

lemma num_loop_64:
  assumes "2 \<le> base" "base \<le> 16" "n < 2 ^ 64"
  shows "\<exists>ds. num_loop 64 n base [] = Some ds \<and> is_number base n ds"
proof -
  have "(2 :: nat) ^ 64 \<le> base ^ 64" using assms(1) by (rule power_mono) simp
  then have "n < base ^ 64" using assms(3) by linarith
  from num_loop_ok [OF assms(1,2) this, of "[]"] show ?thesis by auto
qed

lemma ksprintn_ok:
  "2 \<le> unat base \<Longrightarrow> unat base \<le> 16 \<Longrightarrow> \<exists>ds. ksprintn uq base = Some ds \<and> is_number (unat base) (unat uq) ds"
  using num_loop_64 [of "unat base" "unat uq"] unsigned_less [of uq, where ?'a = nat]
  by (simp add: ksprintn_def ksprintn_num)

lemma unat_ucast_u64: "unat (ucast (x :: u32) :: u64) = unat x"
  by (simp add: unsigned_ucast_eq take_bit_nat_eq_self order.strict_trans [OF unsigned_less [of x, where ?'a = nat]])

lemma printnum_eq: "printnum uq base = ksprintn (ucast uq) (ucast base)"
  by (simp add: printnum_def ksprintn_def ksprintn_num printnum_num unat_ucast_u64)

text \<open>With base 1 the digits never end, with base 0 the first division stops.\<close>

lemma num_loop_one: "n \<noteq> 0 \<Longrightarrow> num_loop room n 1 buf = None"
  by (induction room arbitrary: buf) (simp_all add: Let_def)

lemma num_loop_zero: "num_loop room n 0 buf = None"
  by (cases room) simp_all

lemma numbuf_overrun:
  assumes "uq \<noteq> 0" "unat base < 2"
  shows "printnum uq base = None"
proof -
  have "unat base = 0 \<or> unat base = 1" using assms(2) by linarith
  moreover have "unat uq \<noteq> 0" using assms(1) by (simp add: unat_eq_zero)
  ultimately have "num_loop 64 (unat uq) (unat base) [] = None"
    using num_loop_zero num_loop_one by metis
  then show ?thesis by (simp only: printnum_def printnum_num)
qed

section \<open>The buffer of \<open>vsnprintf\<close>\<close>

text \<open>
  An invariant of the state that \<open>buf_putc\<close> keeps and that does not depend on the color is
  kept by every conversion.
\<close>

locale putc_inv =
  fixes ebuf :: u32 and I :: "ust \<Rightarrow> bool"
  assumes putc: "I s \<Longrightarrow> I (buf_putc ebuf c s)"
    and color: "I s \<Longrightarrow> I (s\<lparr>ucolor := col\<rparr>)"
    and inner: "I s \<Longrightarrow> I ((buf_putc ebuf 0 s)\<lparr>upos := upos (buf_putc ebuf 0 s) - 1\<rparr>)"
begin

lemma puts: "I s \<Longrightarrow> I (buf_puts ebuf cs s)"
  unfolding buf_puts_def by (induction cs arbitrary: s) (auto intro: putc)

lemma number: "I s \<Longrightarrow> unumber ebuf uq base sp s = Some s' \<Longrightarrow> I s'"
  by (auto simp: unumber_def intro: puts split: bind_splits)

lemma decimal: "I s \<Longrightarrow> udecimal ebuf uq sp s = Some s' \<Longrightarrow> I s'"
  by (auto simp: udecimal_def intro: number putc split: if_splits)

lemma put_string:
  assumes "uputs ebuf s p = Some s'" "I s"
  shows "I s'"
proof -
  have "ebuf = ebuf \<longrightarrow> I s \<longrightarrow> I s'"
  proof (rule uputs.raw_induct [where P = "\<lambda>eb s p r. eb = ebuf \<longrightarrow> I s \<longrightarrow> I r", OF _ assms(1)])
    fix f eb s p r
    assume "\<And>eb s p r. f eb s p = Some r \<Longrightarrow> eb = ebuf \<longrightarrow> I s \<longrightarrow> I r"
      "(if um s p \<noteq> 0 then f eb (buf_putc eb (promote (um s p)) s) (p + 1) else Some s) = Some r"
    then show "eb = ebuf \<longrightarrow> I s \<longrightarrow> I r" by (fastforce intro: putc split: if_splits)
  qed
  then show ?thesis using assms(2) by simp
qed

lemma bit_name:
  assumes "ubit_name ebuf sh s p = Some (s', p')" "I s"
  shows "I s'"
proof -
  have "ebuf = ebuf \<longrightarrow> I s \<longrightarrow> I (fst (s', p'))"
  proof (rule ubit_name.raw_induct [where P = "\<lambda>eb sh s p r. eb = ebuf \<longrightarrow> I s \<longrightarrow> I (fst r)", OF _ assms(1)])
    fix f eb sh s p r
    assume IH: "\<And>eb sh s p r. f eb sh s p = Some r \<Longrightarrow> eb = ebuf \<longrightarrow> I s \<longrightarrow> I (fst r)"
      and eq: "(if 32 < sint (um s p) then f eb sh (if sh then buf_putc eb (promote (um s p)) s else s) (p + 1)
        else Some (s, p)) = Some r"
    have "I s \<Longrightarrow> I (if sh then buf_putc ebuf (promote (um s p)) s else s)" by (simp add: putc)
    then show "eb = ebuf \<longrightarrow> I s \<longrightarrow> I (fst r)"
      using eq IH [of ebuf sh "if sh then buf_putc ebuf (promote (um s p)) s else s" "p + 1" r]
      by (auto split: if_splits)
  qed
  then show ?thesis using assms(2) by simp
qed

lemma bit_names:
  assumes "ubits ebuf uq tmp s p = Some s'" "I s"
  shows "I s'"
proof -
  have "ebuf = ebuf \<longrightarrow> I s \<longrightarrow> I s'"
  proof (rule ubits.raw_induct [where P = "\<lambda>eb uq tmp s p r. eb = ebuf \<longrightarrow> I s \<longrightarrow> I r", OF _ assms(1)])
    fix f eb uq tmp s p r
    assume IH: "\<And>eb uq tmp s p r. f eb uq tmp s p = Some r \<Longrightarrow> eb = ebuf \<longrightarrow> I s \<longrightarrow> I r"
      and eq: "(if um s p = 0 then Some (if tmp then buf_putc eb (ucast (asc CHR ''>'')) s else s)
       else if ubit_test uq (um s p) then
         Option.bind
           (ubit_name eb True (buf_putc eb (ucast (if tmp then asc CHR '','' else asc CHR ''<'')) s) (p + 1))
           (\<lambda>(s1, p1). f eb uq True s1 p1)
       else Option.bind (ubit_name eb False s (p + 1)) (\<lambda>(s1, p1). f eb uq tmp s1 p1)) = Some r"
    show "eb = ebuf \<longrightarrow> I s \<longrightarrow> I r"
    proof (intro impI)
      assume e: "eb = ebuf" and i: "I s"
      consider "um s p = 0" | "um s p \<noteq> 0" "ubit_test uq (um s p)" | "um s p \<noteq> 0" "\<not> ubit_test uq (um s p)"
        by blast
      then show "I r"
      proof cases
        case 1
        then show ?thesis using eq e i by (auto intro: putc split: if_splits)
      next
        case 2
        then show ?thesis using eq e IH bit_name putc [OF i] by (fastforce split: bind_splits)
      next
        case 3
        then show ?thesis using eq e IH bit_name i by (fastforce split: bind_splits)
      qed
    qed
  qed
  then show ?thesis using assms(2) by simp
qed

lemma append:
  assumes "append_with act ebuf s = Some s'" "I s" "\<And>t. act s = Some t \<Longrightarrow> I t"
  shows "I s'"
proof -
  obtain t where t: "act s = Some t"
    "s' = (buf_putc ebuf 0 t)\<lparr>upos := upos s + (upos (buf_putc ebuf 0 t) - 1 - upos s)\<rparr>"
    using assms(1) by (auto simp: append_with_def snprintf_with_def Let_def split: bind_splits)
  have "upos s + (upos (buf_putc ebuf 0 t) - 1 - upos s) = upos (buf_putc ebuf 0 t) - 1" by simp
  then show ?thesis using t(2) inner [OF assms(3) [OF t(1)]] by simp
qed

lemma error: "I s \<Longrightarrow> uerror ebuf w s = Some s' \<Longrightarrow> I s'"
  unfolding uerror_def Let_def
  by (auto elim!: append split: if_splits option.splits intro: puts number [OF puts])

lemma conv: "I s \<Longrightarrow> uconv ebuf s ap c sp = Some (s', ap') \<Longrightarrow> I s'"
  unfolding uconv_def Let_def ugetint_def
  by (auto split: if_splits bind_splits
      intro: putc puts color number [OF puts] number decimal error put_string bit_names)

text \<open>The inner \<open>vsnprintf\<close> of \<open>%r\<close> returns the distance from where it started.\<close>

lemma loop:
  assumes "vsn_loop obuf ebuf s fmt ap = Some (s', n)" "I s"
  shows "n = upos s' - 1 - obuf" "\<exists>t. I t \<and> s' = buf_putc ebuf 0 t"
proof -
  define Q where "Q obuf eb s r \<longleftrightarrow> (eb = ebuf \<longrightarrow> I s \<longrightarrow>
    snd r = upos (fst r) - 1 - obuf \<and> (\<exists>t. I t \<and> fst r = buf_putc ebuf 0 t))" for obuf eb s and r :: "ust \<times> u32"
  have "Q obuf ebuf s (s', n)"
  proof (rule vsn_loop.raw_induct [where P = "\<lambda>obuf eb s fmt ap r. Q obuf eb s r", OF _ assms(1)])
    fix f obuf eb s fmt ap r
    assume IH: "\<And>obuf eb s fmt ap r. f obuf eb s fmt ap = Some r \<Longrightarrow> Q obuf eb s r"
      and eq: "(if um s fmt \<noteq> asc CHR ''%'' then
        let c = um s fmt; s1 = buf_putc eb (ucast c) s
        in if c = 0 then Some (s1, upos s1 - 1 - obuf) else f obuf eb s1 (fmt + 1) ap
      else
        Option.bind (spec (um s) (fmt + 1) spec0) (\<lambda>(c, fmt1, sp).
          if c = asc CHR ''r'' then
            Option.bind (f (upos s) eb s (rd32 (um s) ap) (rd32 (um s) (ap + 4)))
              (\<lambda>(s1, n). f obuf eb (s1\<lparr>upos := upos s + n\<rparr>) fmt1 (ap + 8))
          else Option.bind (uconv eb s ap c sp) (\<lambda>(s1, ap1). f obuf eb s1 fmt1 ap1))) = Some r"
    show "Q obuf eb s r" unfolding Q_def
    proof (intro impI)
      assume e: "eb = ebuf" and i: "I s"
      have step: "f obuf ebuf s1 fmt1 ap1 = Some r \<Longrightarrow> I s1
          \<Longrightarrow> snd r = upos (fst r) - 1 - obuf \<and> (\<exists>t. I t \<and> fst r = buf_putc ebuf 0 t)" for s1 fmt1 ap1
        using IH [of obuf ebuf s1 fmt1 ap1 r] by (simp add: Q_def)
      consider "um s fmt = 0" | "um s fmt \<noteq> 0" "um s fmt \<noteq> asc CHR ''%''" | "um s fmt = asc CHR ''%''" by blast
      then show "snd r = upos (fst r) - 1 - obuf \<and> (\<exists>t. I t \<and> fst r = buf_putc ebuf 0 t)"
      proof cases
        case 1
        then show ?thesis using eq e i by (auto simp: Let_def asc_def)
      next
        case 2
        then have "f obuf ebuf (buf_putc ebuf (ucast (um s fmt)) s) (fmt + 1) ap = Some r"
          using eq e by (simp add: Let_def)
        from step [OF this putc [OF i]] show ?thesis .
      next
        case 3
        then obtain l fmt1 sp where sp: "spec (um s) (fmt + 1) spec0 = Some (l, fmt1, sp)"
          using eq by (auto split: bind_splits)
        show ?thesis
        proof (cases "l = asc CHR ''r''")
          case True
          then obtain s1 n where s1: "f (upos s) ebuf s (rd32 (um s) ap) (rd32 (um s) (ap + 4)) = Some (s1, n)"
            "f obuf ebuf (s1\<lparr>upos := upos s + n\<rparr>) fmt1 (ap + 8) = Some r"
            using eq 3 sp e by (auto split: bind_splits)
          from IH [OF s1(1)] i obtain t where "I t" "s1 = buf_putc ebuf 0 t" "n = upos s1 - 1 - upos s"
            by (auto simp: Q_def)
          then have "I (s1\<lparr>upos := upos s + n\<rparr>)" using inner [of t] by simp
          from step [OF s1(2) this] show ?thesis .
        next
          case False
          then obtain s1 ap1 where "uconv ebuf s ap l sp = Some (s1, ap1)" "f obuf ebuf s1 fmt1 ap1 = Some r"
            using eq 3 sp e by (auto split: bind_splits)
          then show ?thesis using step conv [OF i] by blast
        qed
      qed
    qed
  qed
  then show "n = upos s' - 1 - obuf" "\<exists>t. I t \<and> s' = buf_putc ebuf 0 t" using assms(2) by (auto simp: Q_def)
qed

end

text \<open>
  The invariant: the position is in the buffer or at its end, and memory outside of the buffer
  is as it was. It needs two bytes: in a buffer of one, the inner \<open>snprintf\<close> of \<open>%e\<close> and \<open>%r\<close>
  steps back in front of it.
\<close>

definition in_buf :: "u32 \<Rightarrow> u32 \<Rightarrow> (u32 \<Rightarrow> u8) \<Rightarrow> ust \<Rightarrow> bool" where
  "in_buf lo n m0 s \<longleftrightarrow> 2 \<le> unat n \<and> unat lo + unat n < 2 ^ 32 \<and> lo \<le> upos s \<and> upos s \<le> lo + n
     \<and> (\<forall>a. a < lo \<or> lo + n \<le> a \<longrightarrow> um s a = m0 a)"

lemma unat_end:
  assumes "unat (lo :: u32) + unat n < 2 ^ 32" "1 \<le> unat n"
  shows "unat (lo + n) = unat lo + unat n" "unat (lo + n - 1) = unat lo + unat n - 1"
proof -
  show e: "unat (lo + n) = unat lo + unat n" using assms(1) by (simp add: unat_word_ariths)
  then have "lo + n \<noteq> 0" using assms(2) by auto
  then show "unat (lo + n - 1) = unat lo + unat n - 1" using e by (simp add: unat_minus_one)
qed

lemma in_buf_nat:
  "in_buf lo n m0 s \<longleftrightarrow> 2 \<le> unat n \<and> unat lo + unat n < 2 ^ 32 \<and> unat lo \<le> unat (upos s)
     \<and> unat (upos s) \<le> unat lo + unat n
     \<and> (\<forall>a. unat a < unat lo \<or> unat lo + unat n \<le> unat a \<longrightarrow> um s a = m0 a)"
  unfolding in_buf_def word_le_nat_alt word_less_nat_alt
  by (metis unat_end(1) Suc_1 Suc_leD One_nat_def)

lemma in_buf_putc:
  assumes "in_buf lo n m0 s"
  shows "in_buf lo n m0 (buf_putc (lo + n) c s)
    \<and> unat lo + 1 \<le> unat (upos (buf_putc (lo + n) c s))"
proof -
  from assms have i: "2 \<le> unat n" "unat lo + unat n < 2 ^ 32" "unat lo \<le> unat (upos s)"
    "unat (upos s) \<le> unat lo + unat n"
    "\<And>a. unat a < unat lo \<or> unat lo + unat n \<le> unat a \<Longrightarrow> um s a = m0 a"
    by (auto simp: in_buf_nat)
  have e: "unat (lo + n) = unat lo + unat n" "unat (lo + n - 1) = unat lo + unat n - 1"
    using unat_end [OF i(2)] i(1) by auto
  show ?thesis
  proof (cases "lo + n \<le> upos s")
    case True
    have "a \<noteq> lo + n - 1" if "unat a < unat lo \<or> unat lo + unat n \<le> unat a" for a
      using that e(2) i(1) by auto
    then show ?thesis using True i e unfolding in_buf_nat buf_putc_def by simp linarith
  next
    case False
    then have l: "unat (upos s) < unat lo + unat n" using e by (simp add: word_le_nat_alt)
    then have "unat (upos s + 1) = unat (upos s) + 1" using i(2) by (simp add: unat_word_ariths)
    moreover have "a \<noteq> upos s" if "unat a < unat lo \<or> unat lo + unat n \<le> unat a" for a
      using that l i(3) by auto
    ultimately show ?thesis using False i l by (simp add: in_buf_nat buf_putc_def)
  qed
qed

lemma in_buf_fields [simp]:
  "in_buf lo n m0 (s\<lparr>ucolor := col\<rparr>) = in_buf lo n m0 s"
  by (simp add: in_buf_def)

interpretation in_buf: putc_inv "lo + n" "in_buf lo n m0" for lo n m0
proof
  fix s c col assume i: "in_buf lo n m0 s"
  show "in_buf lo n m0 (buf_putc (lo + n) c s)" using in_buf_putc [OF i] by blast
  show "in_buf lo n m0 (s\<lparr>ucolor := col\<rparr>)" using i by simp
  let ?t = "buf_putc (lo + n) 0 s"
  have t: "in_buf lo n m0 ?t" "unat lo + 1 \<le> unat (upos ?t)" using in_buf_putc [OF i] by blast+
  then have "unat (upos ?t - 1) = unat (upos ?t) - 1" by (intro unat_minus_one) auto
  then show "in_buf lo n m0 (?t\<lparr>upos := upos ?t - 1\<rparr>)" using t unfolding in_buf_nat by simp linarith
qed

end
