(* ===== verification/Printf_Run.thy ===== *)
theory Printf_Run
  imports Printf_Num
begin

text \<open>
  The run of \<open>vsnprintf\<close> over a terminated format that lies outside of the buffer: it ends.
\<close>

unbundle bit_operations_syntax

section \<open>Strings in memory\<close>

text \<open>A terminated string at an address, all of whose bytes satisfy a predicate.\<close>

fun str_at :: "(u32 \<Rightarrow> bool) \<Rightarrow> (u32 \<Rightarrow> u8) \<Rightarrow> u32 \<Rightarrow> u8 list \<Rightarrow> bool" where
  "str_at P m f [] \<longleftrightarrow> P f \<and> m f = 0"
| "str_at P m f (c # cs) \<longleftrightarrow> P f \<and> c \<noteq> 0 \<and> m f = c \<and> str_at P m (f + 1) cs"

lemma str_at_cong: "\<forall>a. P a \<longrightarrow> m a = m' a \<Longrightarrow> str_at P m f cs = str_at P m' f cs"
  by (induction cs arbitrary: f) auto

section \<open>The part before the letter\<close>

definition is_digit_char :: "u8 \<Rightarrow> bool" where
  "is_digit_char c \<longleftrightarrow> \<not> (c < asc CHR ''0'' \<or> asc CHR ''9'' < c)"

definition is_spec_char :: "u8 \<Rightarrow> bool" where
  "is_spec_char c \<longleftrightarrow> is_digit_char c \<or> c = asc CHR ''l'' \<or> c = asc CHR ''q''"

lemma spec_width_at:
  "str_at P m f cs \<Longrightarrow>
    \<exists>w' f'. spec_width m f w c = Some (w', f') \<and> str_at P m f' (dropWhile is_digit_char cs)"
proof (induction cs arbitrary: f w c)
  case Nil
  then have "m f < asc CHR ''0''" by (simp add: asc_def)
  then show ?case using Nil by (subst spec_width.simps) (simp add: Let_def)
next
  case (Cons d cs)
  then have d: "m f = d" "P f" "d \<noteq> 0" "str_at P m (f + 1) cs" by auto
  show ?case
  proof (cases "is_digit_char d")
    case True
    then show ?thesis
      using Cons.IH [OF d(4), of "w * 10 + ucast c - ucast (asc CHR ''0'')" d] d(1)
      by (subst spec_width.simps) (simp add: Let_def is_digit_char_def [of d])
  next
    case False
    then have "d < asc CHR ''0'' \<or> asc CHR ''9'' < d" by (simp add: is_digit_char_def)
    then show ?thesis using d False by (subst spec_width.simps) (simp add: Let_def)
  qed
qed

lemma dropWhile_digits: "dropWhile is_spec_char (dropWhile is_digit_char cs) = dropWhile is_spec_char cs"
  by (induction cs) (auto simp: is_spec_char_def)

lemma spec_at:
  "str_at P m f cs \<Longrightarrow> dropWhile is_spec_char cs = d # ds \<Longrightarrow>
    \<exists>f' sp'. spec m f sp = Some (d, f', sp') \<and> str_at P m f' ds"
proof (induction cs arbitrary: f sp rule: length_induct)
  case (1 cs)
  then obtain c cs' where cs: "cs = c # cs'" by (cases cs) auto
  then have c: "m f = c" "str_at P m (f + 1) cs'" using 1(2) by auto
  have IH: "\<exists>f' sp'. spec m (f + 1) sp1 = Some (d, f', sp') \<and> str_at P m f' ds"
    if "dropWhile is_spec_char cs' = d # ds" for sp1
    using 1(1) [rule_format, of cs' "f + 1" sp1] cs c(2) that by simp
  consider (zero) "c = asc CHR ''0''" | (digit) "asc CHR ''1'' \<le> c" "c \<le> asc CHR ''9''"
    | (l) "c = asc CHR ''l''" | (q) "c = asc CHR ''q''"
    | (letter) "c \<noteq> asc CHR ''0''" "\<not> (asc CHR ''1'' \<le> c \<and> c \<le> asc CHR ''9'')"
        "c \<noteq> asc CHR ''l''" "c \<noteq> asc CHR ''q''" by blast
  then show ?case
  proof cases
    case zero
    then have "is_spec_char c" by (simp add: is_spec_char_def is_digit_char_def asc_def)
    then show ?thesis using IH 1(3) cs c zero by (subst spec.simps) (simp add: Let_def)
  next
    case digit
    then have sc: "is_spec_char c" "c \<noteq> asc CHR ''0''"
      by (auto simp: is_spec_char_def is_digit_char_def asc_def word_le_nat_alt word_less_nat_alt)
    obtain w' f' where w: "spec_width m (f + 1) 0 c = Some (w', f')"
      "str_at P m f' (dropWhile is_digit_char cs')" using spec_width_at [OF c(2)] by blast
    have "length (dropWhile is_digit_char cs') < length cs"
      using cs length_dropWhile_le [of is_digit_char cs'] by simp
    moreover have "dropWhile is_spec_char (dropWhile is_digit_char cs') = d # ds"
      using 1(3) cs sc by (simp add: dropWhile_digits)
    ultimately have "\<exists>f'' sp'. spec m f' (sp\<lparr>width := w'\<rparr>) = Some (d, f'', sp') \<and> str_at P m f'' ds"
      using 1(1) w(2) by blast
    then show ?thesis using c(1) digit sc w(1) by (subst spec.simps) (simp add: Let_def)
  next
    case l
    then have "is_spec_char c" by (simp add: is_spec_char_def)
    then show ?thesis using IH 1(3) cs c l by (subst spec.simps) (simp add: Let_def asc_def)
  next
    case q
    then have "is_spec_char c" by (simp add: is_spec_char_def)
    then show ?thesis using IH 1(3) cs c q by (subst spec.simps) (simp add: Let_def asc_def)
  next
    case letter
    then have "\<not> is_spec_char c"
      by (auto simp: is_spec_char_def is_digit_char_def asc_def word_le_nat_alt word_less_nat_alt)
        (auto simp: word_unat_eq_iff)
    then have "d = c" "ds = cs'" using 1(3) cs by auto
    moreover have "spec m f sp = Some (c, f + 1, sp)"
      using letter c(1) by (subst spec.simps) (simp only: Let_def if_False simp_thms)
    ultimately show ?thesis using c(2) by simp
  qed
qed

section \<open>Formats\<close>

text \<open>
  Every \<open>%\<close> is followed by a letter, and not by one of those that follow a pointer or end in
  an inner format.
\<close>

function fmt_ok :: "u8 list \<Rightarrow> bool" where
  "fmt_ok [] = True"
| "fmt_ok (c # cs) =
     (if c \<noteq> asc CHR ''%'' then fmt_ok cs
      else case dropWhile is_spec_char cs of
             [] \<Rightarrow> False
           | d # ds \<Rightarrow> d \<notin> {asc CHR ''b'', asc CHR ''e'', asc CHR ''r'', asc CHR ''s''} \<and> fmt_ok ds)"
  by pat_completeness auto
termination
proof (relation "measure length")
  fix c d :: u8 and cs ds
  assume "dropWhile is_spec_char cs = d # ds"
  then have "length (d # ds) \<le> length cs" by (metis length_dropWhile_le)
  then show "(ds, c # cs) \<in> measure length" by simp
qed simp_all

lemma printnum_total: "2 \<le> unat base \<Longrightarrow> unat base \<le> 16 \<Longrightarrow> \<exists>ds. printnum uq base = Some ds"
  using ksprintn_ok [of "ucast base" "ucast uq"] by (simp add: printnum_eq unat_ucast_u64) blast

lemma unumber_total: "base = 8 \<or> base = 10 \<or> base = 16 \<Longrightarrow> \<exists>s'. unumber ebuf uq base sp s = Some s'"
  using printnum_total [of base uq] by (auto simp: unumber_def)

lemma uconv_total:
  assumes "c \<notin> {asc CHR ''b'', asc CHR ''e'', asc CHR ''r'', asc CHR ''s''}"
  shows "\<exists>s' ap'. uconv ebuf s ap c sp = Some (s', ap')"
proof -
  have n: "\<exists>s'. unumber ebuf uq 8 sp t = Some s'" "\<exists>s'. unumber ebuf uq 10 sp t = Some s'"
    "\<exists>s'. unumber ebuf uq 16 sp t = Some s'" for uq t
    using unumber_total by auto
  have d: "\<exists>s'. udecimal ebuf uq sp t = Some s'" for uq t
    using n(2) by (auto simp: udecimal_def)
  show ?thesis
    using assms n(1) [of "rd32 (um s) ap" s] n(2) [of "rd32 (um s) ap" s] n(3) [of "rd32 (um s) ap" s]
      n(3) [of "rd32 (um s) ap" "buf_puts ebuf (text_out ''0x'') s"] d [of "rd32 (um s) ap" s]
    unfolding uconv_def ugetint_def by (auto split del: if_split split: if_split)
qed

definition outside :: "u32 \<Rightarrow> u32 \<Rightarrow> u32 \<Rightarrow> bool" where
  "outside lo n a \<longleftrightarrow> a < lo \<or> lo + n \<le> a"

lemma vsn_loop_total:
  "str_at (outside lo n) m0 f cs \<Longrightarrow> in_buf lo n m0 s \<Longrightarrow> fmt_ok cs \<Longrightarrow>
    \<exists>r. vsn_loop obuf (lo + n) s f ap = Some r"
proof (induction cs arbitrary: f s ap rule: length_induct)
  case (1 cs)
  have same: "str_at (outside lo n) (um t) g es = str_at (outside lo n) m0 g es" if "in_buf lo n m0 t" for t g es
    by (rule str_at_cong) (use that in \<open>auto simp: outside_def in_buf_def\<close>)
  have at: "str_at (outside lo n) (um s) f cs" using 1(2) same [OF 1(3)] by simp
  show ?case
  proof (cases cs)
    case Nil
    then show ?thesis using at by (subst vsn_loop.simps) (simp add: Let_def asc_def)
  next
    case (Cons c cs')
    then have c: "um s f = c" "c \<noteq> 0" "str_at (outside lo n) m0 (f + 1) cs'"
      using at 1(2) by auto
    show ?thesis
    proof (cases "c = asc CHR ''%''")
      case False
      have "\<exists>r. vsn_loop obuf (lo + n) (buf_putc (lo + n) (ucast c) s) (f + 1) ap = Some r"
        using 1(1) [rule_format, of cs'] Cons c(3) in_buf_putc [OF 1(3)] 1(4) False by simp
      then show ?thesis using False c by (subst vsn_loop.simps) (simp add: Let_def)
    next
      case True
      then obtain d ds where d: "dropWhile is_spec_char cs' = d # ds" "fmt_ok ds"
        "d \<notin> {asc CHR ''b'', asc CHR ''e'', asc CHR ''r'', asc CHR ''s''}"
        using 1(4) Cons by (auto split: list.splits)
      have "str_at (outside lo n) (um s) (f + 1) cs'" using c(3) same [OF 1(3)] by simp
      from spec_at [OF this d(1)] obtain f' sp' where sp: "spec (um s) (f + 1) spec0 = Some (d, f', sp')"
        "str_at (outside lo n) (um s) f' ds" by blast
      obtain s1 ap1 where u: "uconv (lo + n) s ap d sp' = Some (s1, ap1)" using uconv_total [OF d(3)] by blast
      have i: "in_buf lo n m0 s1" by (rule in_buf.conv [OF 1(3) u])
      have "length ds < length cs" using length_dropWhile_le [of is_spec_char cs'] d(1) Cons by simp
      moreover have "str_at (outside lo n) m0 f' ds" using sp(2) same [OF 1(3)] by simp
      ultimately have "\<exists>r. vsn_loop obuf (lo + n) s1 f' ap1 = Some r" using 1(1) i d(2) by blast
      then show ?thesis using True c sp u d(3) by (subst vsn_loop.simps) simp
    qed
  qed
qed

end
