(* ===== verification/Printf_Props.thy ===== *)
theory Printf_Props
  imports Printf_Run
begin

text \<open>Properties of the two formatters.\<close>

unbundle bit_operations_syntax

text \<open>
  C23. The digits that the kernel prints for a number in a base from 2 to 16 read back as the
  number, without leading zeros, and the user library prints the same digits for every number
  of 32 bits.
\<close>

theorem printed_number_reads_back:
  assumes "2 \<le> unat base" "unat base \<le> 16"
  shows "\<exists>ds. ksprintn uq (ucast base) = Some ds \<and> is_number (unat base) (unat uq) ds
    \<and> (uq = ucast w \<longrightarrow> printnum w base = Some ds)"
proof -
  have "\<exists>ds. ksprintn uq (ucast base) = Some ds \<and> is_number (unat base) (unat uq) ds"
    using ksprintn_ok [of "ucast base" uq] assms by (simp add: unat_ucast_u64)
  then show ?thesis by (auto simp: printnum_eq)
qed

theorem printed_number_reads_back_witness: "\<exists>ds. printnum 4096 10 = Some ds \<and> is_number 10 4096 ds"
  using printed_number_reads_back [of 10 "ucast (4096 :: u32)" 4096] by (auto simp: unat_ucast_u64)

lemma unat_uminus: "(w :: u32) \<noteq> 0 \<Longrightarrow> unat (- w) = 2 ^ 32 - unat w"
proof -
  assume w: "w \<noteq> 0"
  have "- w = of_nat (2 ^ 32 - unat w)"
    using unsigned_less [of w, where ?'a = nat] by (simp add: of_nat_diff)
  moreover have "2 ^ 32 - unat w < 2 ^ 32" using w by (simp add: unat_gt_0)
  ultimately show ?thesis using unat_of_nat_u32 by metis
qed

lemma sint_ucast_u64: "\<not> sint (ucast (w :: u32) :: u64) < 0"
proof
  assume "sint (ucast w :: u64) < 0"
  then have "bit (ucast w :: u64) 63" using bit_last_iff [of "ucast w :: u64"] by simp
  then show False by (auto simp: bit_simps dest: bit_imp_le_length)
qed

lemma out_digits_number: "is_number base n ds \<Longrightarrow> out_digits ds = map promote ds"
proof -
  assume "is_number base n ds"
  then have "\<forall>c \<in> set ds. c \<noteq> 0" by (auto simp: is_number_def)
  then have "takeWhile (\<lambda>c. c \<noteq> 0) ds = ds" by (simp only: takeWhile_eq_all_conv)
  then show ?thesis by (simp only: out_digits_def)
qed

lemma knumber_spec0:
  assumes "2 \<le> unat base" "unat base \<le> 16"
  shows "\<exists>ds. knumber uq base spec0 s = Some (cons_outs (map promote ds) s) \<and> is_number (unat base) (unat uq) ds"
  using ksprintn_ok [OF assms, of uq] by (auto simp: knumber_def pad_count_def spec0_def out_digits_number)

lemma unumber_spec0:
  assumes "2 \<le> unat base" "unat base \<le> 16"
  shows "\<exists>ds. unumber e uq base spec0 s = Some (buf_puts e (map promote ds) s) \<and> is_number (unat base) (unat uq) ds"
  using ksprintn_ok [of "ucast base" "ucast uq"] assms
  by (auto simp: unumber_def printnum_eq unat_ucast_u64 pad_count_def spec0_def out_digits_number)

text \<open>
  \<open>%d\<close> of a negative \<open>int\<close>: the user library prints a minus sign and the magnitude; the
  kernel, which widens the argument without its sign, prints the number plus \<open>2 ^ 32\<close>.
\<close>

lemma negative_decimal:
  assumes "rd32 m ap = w" "sint w < 0" "um t = m"
  shows "(\<exists>ds. kconv m s ap (asc CHR ''d'') spec0 = Some (cons_outs (map promote ds) s, ap + 4)
      \<and> is_number 10 (unat w) ds)
    \<and> (\<exists>ds. uconv e t ap (asc CHR ''d'') spec0
        = Some (buf_puts e (ucast (asc CHR ''-'') # map promote ds) t, ap + 4)
      \<and> is_number 10 (2 ^ 32 - unat w) ds)"
proof
  show "\<exists>ds. kconv m s ap (asc CHR ''d'') spec0 = Some (cons_outs (map promote ds) s, ap + 4)
      \<and> is_number 10 (unat w) ds"
    using knumber_spec0 [of 10 "ucast w" s] sint_ucast_u64 [of w] assms(1)
    by (auto simp: kconv_def asc_def kgetint_def spec0_def unat_ucast_u64)
  have "w \<noteq> 0" using assms(2) by auto
  then have u: "unat (- w) = 2 ^ 32 - unat w" by (rule unat_uminus)
  obtain ds where ds: "unumber e (- w) 10 spec0 (buf_putc e (ucast (asc CHR ''-'')) t)
      = Some (buf_puts e (map promote ds) (buf_putc e (ucast (asc CHR ''-'')) t))"
    "is_number 10 (2 ^ 32 - unat w) ds"
    using unumber_spec0 [of 10 e "- w" "buf_putc e (ucast (asc CHR ''-'')) t"] unfolding u by auto
  have "uconv e t ap (asc CHR ''d'') spec0
      = Some (buf_puts e (ucast (asc CHR ''-'') # map promote ds) t, ap + 4)"
    using ds(1) assms by (simp add: uconv_def ugetint_def udecimal_def buf_puts_def) (simp add: asc_def)
  then show "\<exists>ds. uconv e t ap (asc CHR ''d'') spec0
        = Some (buf_puts e (ucast (asc CHR ''-'') # map promote ds) t, ap + 4)
      \<and> is_number 10 (2 ^ 32 - unat w) ds" using ds(2) by blast
qed

text \<open>The outside of the buffer, and a terminated format there.\<close>

text \<open>
  C24. Whenever \<open>vsnprintf\<close> with a buffer of at least two bytes returns, whatever the format and its
  arguments, it has written only into the buffer, has left a terminator in it, and returns less than
  its size. On a terminated format outside of the buffer that has no \<open>%s\<close>, \<open>%b\<close>, \<open>%e\<close> or \<open>%r\<close> it returns.
  It does not return on every format: \<open>%b\<close> takes the base from its argument, and a number other than 0
  has no end in base 1, where the digits overrun \<open>numbuf\<close>, and no beginning in base 0.
\<close>

theorem vsnprintf_safe:
  assumes "2 \<le> unat n" "unat buf + unat n < 2 ^ 32"
  shows "(vsnprintf m col buf n fmt ap = Some (s, r) \<longrightarrow>
      (\<forall>a. a < buf \<or> buf + n \<le> a \<longrightarrow> um s a = m a) \<and> r < n \<and> (um s (buf + r) = 0 \<or> um s (buf + n - 1) = 0))
    \<and> (str_at (outside buf n) m fmt cs \<and> fmt_ok cs \<longrightarrow> (\<exists>s r. vsnprintf m col buf n fmt ap = Some (s, r)))
    \<and> (uq \<noteq> 0 \<and> unat base < 2 \<longrightarrow> printnum uq base = None)"
proof (intro conjI impI)
  let ?s = "\<lparr>um = m, ucolor = col, upos = buf\<rparr>"
  have i: "in_buf buf n m ?s" using assms by (simp add: in_buf_nat)
  {
    assume "vsnprintf m col buf n fmt ap = Some (s, r)"
    then have v: "vsn_loop buf (buf + n) ?s fmt ap = Some (s, r)" by (simp add: vsnprintf_def)
    note l = in_buf.loop [OF v i]
    obtain t where t: "in_buf buf n m t" "s = buf_putc (buf + n) 0 t" using l(2) by blast
    have s: "in_buf buf n m s" "unat buf + 1 \<le> unat (upos s)" using in_buf_putc [OF t(1)] t(2) by auto
    then show "\<forall>a. a < buf \<or> buf + n \<le> a \<longrightarrow> um s a = m a" by (simp add: in_buf_def)
    have "unat (upos s - 1) = unat (upos s) - 1" using s(2) by (intro unat_minus_one) auto
    moreover have "unat (upos s) \<le> unat buf + unat n" using s(1) by (simp add: in_buf_nat)
    ultimately have "unat (upos s - 1 - buf) = unat (upos s) - 1 - unat buf"
      using s(2) by (simp add: unat_sub_if')
    then show "r < n" using l(1) s(2) \<open>unat (upos s) \<le> unat buf + unat n\<close> by (simp add: word_less_nat_alt)
    have "buf + r = upos s - 1" using l(1) by simp
    then show "um s (buf + r) = 0 \<or> um s (buf + n - 1) = 0"
      using t(2) by (simp add: buf_putc_def)
  }
  assume "str_at (outside buf n) m fmt cs \<and> fmt_ok cs"
  then show "\<exists>s r. vsnprintf m col buf n fmt ap = Some (s, r)"
    using vsn_loop_total [OF _ i] unfolding vsnprintf_def by (metis surj_pair)
next
  show "uq \<noteq> 0 \<and> unat base < 2 \<Longrightarrow> printnum uq base = None" using numbuf_overrun by blast
qed

text \<open>The format \<open>a%d\<close> at 100, printed into four bytes at 200.\<close>

theorem vsnprintf_safe_witness:
  "\<exists>s r. vsnprintf ((\<lambda>_. 0)(100 := 97, 101 := 37, 102 := 100)) 0 200 4 100 300 = Some (s, r) \<and> r < 4"
proof -
  let ?m = "(\<lambda>_. 0)(100 := 97, 101 := 37, 102 := 100) :: u32 \<Rightarrow> u8"
  have "str_at (outside 200 4) ?m 100 [97, 37, 100]" by (simp add: outside_def)
  moreover have "fmt_ok [97, 37, 100]" by (simp add: asc_def is_spec_char_def is_digit_char_def)
  ultimately obtain s r where "vsnprintf ?m 0 200 4 100 300 = Some (s, r)"
    using vsnprintf_safe [of 4 200 ?m 0 100 300 undefined undefined "[97, 37, 100]" 0 0] by auto
  moreover from this have "r < 4" using vsnprintf_safe [of 4 200 ?m 0 100 300 s r "[]" 0 0] by simp
  ultimately show ?thesis by blast
qed

end
