(* ===== verification/Umach.thy ===== *)
theory Umach
  imports Bytes Kstate
begin

text \<open>
  The machine as a user program sees it: its own page table (the arrays \<open>vpd\<close> and \<open>vpt\<close>),
  the page tables of the other environments, the pages of memory with their reference counts,
  and the three system calls on mappings. A directory entry is zero or present, so a directory
  is the set of the tables that are there. The bit \<open>PTE_D\<close> of the own entries, which the
  processor sets, is kept apart, in \<open>dirt\<close>.

  The choices of the kernel are a parameter \<open>k\<close>: the page that an allocation takes, if there
  is one, and whether there is memory for a page table.
\<close>

unbundle bit_operations_syntax

section \<open>State\<close>

record space =
  tab :: "nat \<Rightarrow> bool"
  pte :: "nat \<Rightarrow> u32"

record umach =
  own :: space
  envsp :: "u32 \<Rightarrow> space option"
  page :: "nat \<Rightarrow> nat \<Rightarrow> u8"
  prefs :: "nat \<Rightarrow> nat"
  dirt :: "nat \<Rightarrow> bool"
  upcall :: "u32 \<Rightarrow> (u32 \<times> u32) option"
  started :: "u32 \<Rightarrow> bool"
  regs :: "u32 \<Rightarrow> (u32 \<times> u32) option"
  pgf_set :: bool

record kern =
  pick :: "umach \<Rightarrow> nat option"
  room :: "umach \<Rightarrow> bool"
  newenv :: "umach \<Rightarrow> error + u32"

definition vpn :: "u32 \<Rightarrow> nat" where "vpn va = unat va div 4096"
definition pgoff :: "u32 \<Rightarrow> nat" where "pgoff va = unat va mod 4096"
definition pte_of :: "nat \<Rightarrow> u32 \<Rightarrow> u32" where
  "pte_of p perm = page2pa p OR perm OR PTE_P"

definition has :: "u32 \<Rightarrow> u32 \<Rightarrow> bool" where "has e flag \<longleftrightarrow> e AND flag \<noteq> 0"

text \<open>The page that a space maps at a page number, if it maps one.\<close>

definition mapped_page :: "space \<Rightarrow> nat \<Rightarrow> nat option" where
  "mapped_page sp n = (if tab sp (n div 1024) \<and> present (pte sp n) then Some (frame_of (pte sp n)) else None)"

section \<open>Access\<close>

text \<open>Environment id 0 is the caller.\<close>

definition space_of :: "umach \<Rightarrow> u32 \<Rightarrow> space option" where
  "space_of u e = (if e = 0 then Some (own u) else envsp u e)"

text \<open>A new entry of the caller is not dirty.\<close>

definition clean :: "umach \<Rightarrow> u32 \<Rightarrow> nat \<Rightarrow> umach" where
  "clean u e n = (if e = 0 then u\<lparr>dirt := (dirt u)(n := False)\<rparr> else u)"

definition set_space :: "umach \<Rightarrow> u32 \<Rightarrow> space \<Rightarrow> umach" where
  "set_space u e sp = (if e = 0 then u\<lparr>own := sp\<rparr> else u\<lparr>envsp := (envsp u)(e := Some sp)\<rparr>)"

definition ld8 :: "umach \<Rightarrow> u32 \<Rightarrow> u8 option" where
  "ld8 u va =
     (case mapped_page (own u) (vpn va) of
        None \<Rightarrow> None
      | Some p \<Rightarrow> if has (pte (own u) (vpn va)) PTE_U then Some (page u p (pgoff va)) else None)"

text \<open>A store needs \<open>PTE_W\<close> too, and sets \<open>PTE_D\<close>.\<close>

definition st8 :: "umach \<Rightarrow> u32 \<Rightarrow> u8 \<Rightarrow> umach option" where
  "st8 u va b =
     (case mapped_page (own u) (vpn va) of
        None \<Rightarrow> None
      | Some p \<Rightarrow>
          if has (pte (own u) (vpn va)) PTE_U \<and> has (pte (own u) (vpn va)) PTE_W
          then Some (u\<lparr>page := (page u)(p := (page u p)(pgoff va := b)), dirt := (dirt u)(vpn va := True)\<rparr>)
          else None)"

text \<open>Entries of the two tables: \<open>vpt\<close> itself faults where there is no table.\<close>

definition vpd :: "umach \<Rightarrow> nat \<Rightarrow> bool" where "vpd u i = tab (own u) i"

definition vpt :: "umach \<Rightarrow> nat \<Rightarrow> u32 option" where
  "vpt u n = (if tab (own u) (n div 1024) then Some (pte (own u) n) else None)"

section \<open>Mappings\<close>

definition drop_ref :: "umach \<Rightarrow> space \<Rightarrow> nat \<Rightarrow> umach" where
  "drop_ref u sp n =
     (case mapped_page sp n of None \<Rightarrow> u | Some p \<Rightarrow> u\<lparr>prefs := (prefs u)(p := prefs u p - 1)\<rparr>)"

text \<open>A new page table is zeroed.\<close>

definition with_table :: "space \<Rightarrow> nat \<Rightarrow> space" where
  "with_table sp d =
     (if tab sp d then sp
      else sp\<lparr>tab := (tab sp)(d := True), pte := (\<lambda>i. if i div 1024 = d then 0 else pte sp i)\<rparr>)"

definition put_pte :: "space \<Rightarrow> nat \<Rightarrow> u32 \<Rightarrow> space" where
  "put_pte sp n e = sp\<lparr>pte := (pte sp)(n := e)\<rparr>"

text \<open>The new mapping takes its reference before the old one gives its up.\<close>

definition insert_page :: "umach \<Rightarrow> u32 \<Rightarrow> space \<Rightarrow> nat \<Rightarrow> nat \<Rightarrow> u32 \<Rightarrow> umach" where
  "insert_page u e sp n p perm =
     set_space (clean (drop_ref (u\<lparr>prefs := (prefs u)(p := prefs u p + 1)\<rparr>) sp n) e n) e
       (put_pte (with_table sp (n div 1024)) n (pte_of p perm))"

definition u_mem_alloc :: "kern \<Rightarrow> umach \<Rightarrow> u32 \<Rightarrow> u32 \<Rightarrow> u32 \<Rightarrow> (error + unit) \<times> umach" where
  "u_mem_alloc k u e va perm =
     (if va \<ge> UTOP then (Inl E_INVAL, u)
      else
        case pick k u of
          None \<Rightarrow> (Inl E_NO_MEM, u)
        | Some p \<Rightarrow>
            (case space_of u e of
               None \<Rightarrow> (Inl E_BAD_ENV, u)
             | Some sp \<Rightarrow>
                 let u1 = u\<lparr>page := (page u)(p := (\<lambda>_. 0))\<rparr>
                 in if \<not> tab sp (vpn va div 1024) \<and> \<not> room k u1 then (Inl E_NO_MEM, u1)
                    else (Inr (), insert_page u1 e sp (vpn va) p perm)))"

text \<open>
  The source needs a page table, not a present entry: from an entry that is zero the kernel
  maps page 0.
\<close>

definition u_mem_map :: "kern \<Rightarrow> umach \<Rightarrow> u32 \<Rightarrow> u32 \<Rightarrow> u32 \<Rightarrow> u32 \<Rightarrow> u32 \<Rightarrow> (error + unit) \<times> umach" where
  "u_mem_map k u se sva de dva perm =
     (if sva \<ge> UTOP \<or> dva \<ge> UTOP then (Inl E_INVAL, u)
      else
        case (space_of u se, space_of u de) of
          (Some ss, Some ds) \<Rightarrow>
            if \<not> tab ss (vpn sva div 1024) then (Inl E_INVAL, u)
            else if \<not> tab ds (vpn dva div 1024) \<and> \<not> room k u then (Inl E_NO_MEM, u)
            else (Inr (), insert_page u de ds (vpn dva) (frame_of (pte ss (vpn sva))) perm)
        | _ \<Rightarrow> (Inl E_BAD_ENV, u))"

definition u_mem_unmap :: "umach \<Rightarrow> u32 \<Rightarrow> u32 \<Rightarrow> (error + unit) \<times> umach" where
  "u_mem_unmap u e va =
     (if va \<ge> UTOP then (Inl E_INVAL, u)
      else
        case space_of u e of
          None \<Rightarrow> (Inl E_BAD_ENV, u)
        | Some sp \<Rightarrow>
            (Inr (),
             if mapped_page sp (vpn va) = None then u
             else set_space (clean (drop_ref u sp (vpn va)) e (vpn va)) e (put_pte sp (vpn va) 0)))"

section \<open>Facts about mappings\<close>

lemma insert_page_fields [simp]:
  "page (insert_page u e sp n p perm) = page u"
  by (simp add: insert_page_def set_space_def drop_ref_def clean_def split: option.splits)

lemma drop_ref_fields [simp]:
  "own (drop_ref u sp n) = own u" "envsp (drop_ref u sp n) = envsp u" "page (drop_ref u sp n) = page u"
  by (simp_all add: drop_ref_def split: option.splits)

lemma clean_fields [simp]:
  "own (clean u e n) = own u" "envsp (clean u e n) = envsp u" "page (clean u e n) = page u"
  "space_of (clean u e n) e' = space_of u e'"
  by (simp_all add: clean_def space_of_def)

lemma space_of_set [simp]: "space_of (set_space u e sp) e' = (if e' = e then Some sp else space_of u e')"
  by (simp add: space_of_def set_space_def)

lemma space_of_drop [simp]: "space_of (drop_ref u sp n) e = space_of u e"
  "space_of (u\<lparr>prefs := r\<rparr>) e = space_of u e" "space_of (u\<lparr>page := g\<rparr>) e = space_of u e"
  "space_of (u\<lparr>dirt := d\<rparr>) e = space_of u e"
  by (simp_all add: space_of_def)

lemma space_of_insert:
  "space_of (insert_page u e sp n p perm) e' =
     (if e' = e then Some (put_pte (with_table sp (n div 1024)) n (pte_of p perm))
      else space_of u e')"
  by (simp add: insert_page_def)

lemma own_space: "space_of u 0 = Some (own u)"
  by (simp add: space_of_def)

text \<open>What an entry holds.\<close>

lemma pte_of_fields:
  assumes "p < 2 ^ 20" "low_bits perm"
  shows "frame_of (pte_of p perm) = p" "present (pte_of p perm)"
  using frame_of_entry [OF assms] by (simp_all add: pte_of_def)

lemma low_bits_or: "low_bits a \<Longrightarrow> low_bits b \<Longrightarrow> low_bits (a OR b)"
  by (simp add: low_bits_def bit.conj_disj_distrib2)

lemma has_pte_of:
  assumes "low_bits flag" "flag AND PTE_P = 0"
  shows "has (pte_of p perm) flag \<longleftrightarrow> has perm flag"
proof -
  have "pte_of p perm AND flag = perm AND flag"
  proof (rule bit_word_eqI)
    fix i :: nat assume "i < LENGTH(32)"
    have "bit flag i \<Longrightarrow> i < 12" using low_bits_bit [OF assms(1)] not_less by blast
    moreover have "\<not> (bit flag i \<and> bit (PTE_P :: u32) i)"
      using assms(2) by (metis bit_0_eq bit_and_iff bot_apply bot_bool_def)
    ultimately show "bit (pte_of p perm AND flag) i = bit (perm AND flag) i"
      by (auto simp: pte_of_def page2pa_def PGSHIFT_def bit_simps)
  qed
  then show ?thesis by (simp add: has_def)
qed

text \<open>An entry that is put changes what is mapped at its page number only.\<close>

lemma tab_put [simp]:
  "tab (put_pte sp n e) = tab sp" "tab (with_table sp d) i \<longleftrightarrow> i = d \<or> tab sp i"
  by (auto simp: put_pte_def with_table_def)

lemma pte_put [simp]:
  "pte (put_pte sp n e) i = (if i = n then e else pte sp i)"
  "pte (with_table sp d) i = (if \<not> tab sp d \<and> i div 1024 = d then 0 else pte sp i)"
  by (auto simp: put_pte_def with_table_def)

lemma mapped_insert:
  assumes "p < 2 ^ 20" "low_bits perm"
  shows "mapped_page (put_pte (with_table sp (n div 1024)) n (pte_of p perm)) i
    = (if i = n then Some p else mapped_page sp i)"
  by (auto simp: mapped_page_def pte_of_fields [OF assms])

lemma mapped_clear: "mapped_page (put_pte sp n 0) i = (if i = n then None else mapped_page sp i)"
  by (simp add: mapped_page_def)

section \<open>Entries\<close>

text \<open>What an environment maps at a page number: the page and the permission bits.\<close>

definition sp_ent :: "space \<Rightarrow> nat \<Rightarrow> (nat \<times> u32) option" where
  "sp_ent sp n = (if tab sp (n div 1024) \<and> present (pte sp n) then Some (frame_of (pte sp n), pte sp n AND 0xFFF) else None)"

definition ent :: "umach \<Rightarrow> u32 \<Rightarrow> nat \<Rightarrow> (nat \<times> u32) option" where
  "ent u e n = Option.bind (space_of u e) (\<lambda>sp. sp_ent sp n)"

lemma mapped_ent: "mapped_page sp n = map_option fst (sp_ent sp n)"
  by (simp add: mapped_page_def sp_ent_def)

lemma ent_own: "ent u 0 n = sp_ent (own u) n"
  by (simp add: ent_def own_space)

lemma low_bits_less: "low_bits p \<Longrightarrow> bit p n \<Longrightarrow> n < 12"
  using low_bits_bit not_less by blast

lemma has_low: "low_bits flag \<Longrightarrow> has (e AND 0xFFF) flag = has e flag"
proof -
  assume "low_bits flag"
  then have "(e AND 0xFFF) AND flag = e AND flag"
    by (intro bit_word_eqI) (auto simp: mask12 bit_simps dest: low_bits_less)
  then show ?thesis by (simp add: has_def)
qed

lemma low_flags [simp]:
  "low_bits PTE_P" "low_bits PTE_W" "low_bits PTE_U" "low_bits PTE_LIBRARY" "low_bits PTE_USER"
  by (simp_all add: low_bits_def PTE_P_def PTE_W_def PTE_U_def PTE_LIBRARY_def PTE_USER_def)

lemma pte_of_low: "low_bits perm \<Longrightarrow> pte_of p perm AND 0xFFF = perm OR PTE_P"
  by (intro bit_word_eqI)
    (auto simp: pte_of_def page2pa_def PGSHIFT_def mask12 PTE_P_def bit_simps dest: low_bits_less)

lemma sp_ent_insert:
  assumes "p < 2 ^ 20" "low_bits perm"
  shows "sp_ent (put_pte (with_table sp (n div 1024)) n (pte_of p perm)) i
    = (if i = n then Some (p, perm OR PTE_P) else sp_ent sp i)"
  by (auto simp: sp_ent_def pte_of_fields [OF assms] pte_of_low [OF assms(2)])

lemma sp_ent_clear: "sp_ent (put_pte sp n 0) i = (if i = n then None else sp_ent sp i)"
  by (simp add: sp_ent_def)

text \<open>A page that some environment maps, and a kernel that allocates only other pages.\<close>

definition used :: "umach \<Rightarrow> nat \<Rightarrow> bool" where
  "used u p \<longleftrightarrow> (\<exists>e n f. ent u e n = Some (p, f))"

definition kern_ok :: "kern \<Rightarrow> bool" where
  "kern_ok k \<longleftrightarrow> (\<forall>u p. pick k u = Some p \<longrightarrow> p < 2 ^ 20 \<and> \<not> used u p)"

lemma ent_insert:
  assumes "space_of u e = Some sp" "p < 2 ^ 20" "low_bits perm"
  shows "ent (insert_page u e sp n p perm) e' i
    = (if e' = e \<and> i = n then Some (p, perm OR PTE_P) else ent u e' i)"
  using assms by (simp add: ent_def space_of_insert sp_ent_insert)

lemma ent_page [simp]: "ent (u\<lparr>page := g\<rparr>) e n = ent u e n"
  "ent (u\<lparr>page := g, dirt := d\<rparr>) e n = ent u e n" "ent (u\<lparr>dirt := d\<rparr>) e n = ent u e n"
  by (simp_all add: ent_def space_of_def)

text \<open>What the calls do when they succeed.\<close>

lemma mem_alloc_ok:
  assumes "u_mem_alloc k u e va perm = (Inr (), u')" "kern_ok k" "low_bits perm"
  shows "\<exists>p. p < 2 ^ 20 \<and> \<not> used u p \<and> page u' = (page u)(p := (\<lambda>_. 0))
    \<and> (\<forall>e' i. ent u' e' i = (if e' = e \<and> i = vpn va then Some (p, perm OR PTE_P) else ent u e' i))"
proof -
  from assms(1) obtain p sp where p: "pick k u = Some p" "space_of u e = Some sp"
    "u' = insert_page (u\<lparr>page := (page u)(p := (\<lambda>_. 0))\<rparr>) e sp (vpn va) p perm"
    by (auto simp: u_mem_alloc_def Let_def split: if_splits option.splits)
  have "p < 2 ^ 20" "\<not> used u p" using assms(2) p(1) by (auto simp: kern_ok_def)
  then show ?thesis using p assms(3) by (intro exI [of _ p]) (simp add: ent_insert)
qed

lemma mem_map_ok:
  assumes "u_mem_map k u se sva de dva perm = (Inr (), u')" "low_bits perm" "ent u se (vpn sva) = Some (p, f)"
  shows "page u' = page u
    \<and> (\<forall>e' i. ent u' e' i = (if e' = de \<and> i = vpn dva then Some (p, perm OR PTE_P) else ent u e' i))"
proof -
  from assms(1) obtain ss ds where s: "space_of u se = Some ss" "space_of u de = Some ds"
    "u' = insert_page u de ds (vpn dva) (frame_of (pte ss (vpn sva))) perm"
    by (auto simp: u_mem_map_def split: if_splits option.splits)
  have "frame_of (pte ss (vpn sva)) = p"
    using assms(3) s(1) by (auto simp: ent_def sp_ent_def split: if_splits)
  then show ?thesis using s assms(2) frame_of_less by (auto simp: ent_insert)
qed

lemma mem_map_succeeds:
  assumes "ent u se (vpn sva) = Some (p, f)" "space_of u de = Some ds" "sva < UTOP" "dva < UTOP" "\<forall>u. room k u"
  shows "\<exists>u'. u_mem_map k u se sva de dva perm = (Inr (), u')"
proof -
  obtain ss where "space_of u se = Some ss" "tab ss (vpn sva div 1024)"
    using assms(1) by (auto simp: ent_def sp_ent_def bind_eq_Some_conv split: if_splits)
  then show ?thesis using assms(2-5) by (simp add: u_mem_map_def not_le)
qed

lemma mem_unmap_ok:
  assumes "u_mem_unmap u e va = (Inr (), u')"
  shows "page u' = page u \<and> (\<forall>e' i. ent u' e' i = (if e' = e \<and> i = vpn va then None else ent u e' i))"
proof -
  obtain sp where sp: "space_of u e = Some sp"
    using assms by (auto simp: u_mem_unmap_def split: if_splits option.splits)
  show ?thesis
  proof (cases "mapped_page sp (vpn va) = None")
    case True
    then have "u' = u" using assms sp by (auto simp: u_mem_unmap_def split: if_splits)
    then show ?thesis using True sp by (simp add: mapped_ent ent_def)
  next
    case False
    then have "u' = set_space (clean (drop_ref u sp (vpn va)) e (vpn va)) e (put_pte sp (vpn va) 0)"
      using assms sp by (auto simp: u_mem_unmap_def split: if_splits)
    then show ?thesis using sp
      by (simp add: ent_def sp_ent_clear) (simp add: set_space_def)
  qed
qed

end
