(* ===== verification/Fork.thy ===== *)
theory Fork
  imports Umach
begin

text \<open>
  Copy on write in the user library: \<open>user/fork.c\<close> and \<open>user/pgfault.c\<close>.
\<close>

unbundle bit_operations_syntax

definition PTE_COW :: u32 where "PTE_COW = 0x800"

section \<open>Environments\<close>

text \<open>
  A new environment has no user mappings; from \<open>UTOP\<close> on its directory is that of every
  environment. Its registers are those of the caller.
\<close>

definition new_space :: "space \<Rightarrow> space" where
  "new_space sp =
     \<lparr>tab = (\<lambda>d. user_slots \<le> d \<and> tab sp d), pte = (\<lambda>n. if n div 1024 < user_slots then 0 else pte sp n)\<rparr>"

definition u_env_alloc :: "kern \<Rightarrow> umach \<Rightarrow> (error + u32) \<times> umach" where
  "u_env_alloc k u =
     (case newenv k u of
        Inl e \<Rightarrow> (Inl e, u)
      | Inr c \<Rightarrow> (Inr c, u\<lparr>envsp := (envsp u)(c := Some (new_space (own u))),
                          upcall := (upcall u)(c := None), started := (started u)(c := False)\<rparr>))"

definition u_set_pgfault_handler :: "umach \<Rightarrow> u32 \<Rightarrow> u32 \<Rightarrow> u32 \<Rightarrow> (error + unit) \<times> umach" where
  "u_set_pgfault_handler u e f stk =
     (case space_of u e of
        None \<Rightarrow> (Inl E_BAD_ENV, u)
      | Some _ \<Rightarrow> (Inr (), u\<lparr>upcall := (upcall u)(e := Some (f, stk))\<rparr>))"

definition u_set_env_runnable :: "umach \<Rightarrow> u32 \<Rightarrow> (error + unit) \<times> umach" where
  "u_set_env_runnable u e =
     (case space_of u e of
        None \<Rightarrow> (Inl E_BAD_ENV, u)
      | Some _ \<Rightarrow> (Inr (), u\<lparr>started := (started u)(e := True)\<rparr>))"

text \<open>\<open>asm\<close> is the address of the assembly wrapper of \<open>entry.S\<close>.\<close>

definition set_pgfault_handler :: "kern \<Rightarrow> u32 \<Rightarrow> umach \<Rightarrow> umach option" where
  "set_pgfault_handler k asm u =
     (if pgf_set u then Some u
      else
        case u_mem_alloc k u 0 (UXSTACKTOP - BY2PG) (PTE_W OR PTE_U) of
          (Inl _, _) \<Rightarrow> None
        | (Inr _, u1) \<Rightarrow>
            (case u_set_pgfault_handler u1 0 asm UXSTACKTOP of
               (Inl _, _) \<Rightarrow> None
             | (Inr _, u2) \<Rightarrow> Some (u2\<lparr>pgf_set := True\<rparr>)))"

section \<open>The page fault handler\<close>

fun u_bcopy :: "nat \<Rightarrow> umach \<Rightarrow> u32 \<Rightarrow> u32 \<Rightarrow> umach option" where
  "u_bcopy 0 u s d = Some u"
| "u_bcopy (Suc n) u s d = do { b \<leftarrow> ld8 u s; u1 \<leftarrow> st8 u d b; u_bcopy n u1 (s + 1) (d + 1) }"

definition tmp_page :: u32 where "tmp_page = UTEXT - BY2PG"

definition pgfault :: "kern \<Rightarrow> umach \<Rightarrow> u32 \<Rightarrow> u32 \<Rightarrow> umach option" where
  "pgfault k u va err =
     do {
       e \<leftarrow> vpt u (unat (va div BY2PG));
       if has err FEC_WR \<and> has e PTE_COW then
         (case u_mem_alloc k u 0 tmp_page (PTE_P OR PTE_U OR PTE_W) of
            (Inl _, _) \<Rightarrow> None
          | (Inr _, u1) \<Rightarrow>
              do {
                u2 \<leftarrow> u_bcopy (unat BY2PG) u1 (ROUNDDOWN va BY2PG) tmp_page;
                case u_mem_map k u2 0 tmp_page 0 (ROUNDDOWN va BY2PG) (PTE_P OR PTE_U OR PTE_W) of
                  (Inl _, _) \<Rightarrow> None
                | (Inr _, u3) \<Rightarrow>
                    (case u_mem_unmap u3 0 tmp_page of (Inl _, _) \<Rightarrow> None | (Inr _, u4) \<Rightarrow> Some u4)
              })
       else None
     }"

section \<open>Fork\<close>

text \<open>The results of \<open>sys_mem_map\<close> for a library page and for a read-only page are not looked at.\<close>

definition duppage :: "kern \<Rightarrow> umach \<Rightarrow> u32 \<Rightarrow> nat \<Rightarrow> umach option" where
  "duppage k u envid pn =
     (let addr = of_nat pn * BY2PG in
      do {
        e \<leftarrow> vpt u pn;
        if has e PTE_P \<and> has e PTE_U then
          if has e PTE_LIBRARY then Some (snd (u_mem_map k u 0 addr envid addr PTE_USER))
          else if has e PTE_W \<or> has e PTE_COW then
            (case u_mem_map k u 0 addr envid addr (PTE_COW OR PTE_U OR PTE_P) of
               (Inl _, _) \<Rightarrow> None
             | (Inr _, u1) \<Rightarrow>
                 (case u_mem_map k u1 envid addr 0 addr (PTE_COW OR PTE_U OR PTE_P) of
                    (Inl _, _) \<Rightarrow> None
                  | (Inr _, u2) \<Rightarrow> Some u2))
          else Some (snd (u_mem_map k u 0 addr envid addr (PTE_U OR PTE_P)))
        else Some u
      })"

definition last_page :: nat where "last_page = unat (USTACKTOP div BY2PG)"

text \<open>The walk over the page numbers: a table that is not there is skipped.\<close>

function fork_loop :: "kern \<Rightarrow> umach \<Rightarrow> u32 \<Rightarrow> nat \<Rightarrow> umach option" where
  "fork_loop k u envid i =
     (if last_page \<le> i then Some u
      else if vpd u (i div 1024) then
        do {
          e \<leftarrow> vpt u i;
          u1 \<leftarrow> (if has e PTE_P then duppage k u envid i else Some u);
          fork_loop k u1 envid (i + 1)
        }
      else fork_loop k u envid (i + PDE2PD))"
  by pat_completeness auto
termination
  by (relation "measure (\<lambda>(k, u, envid, i). last_page - i)") (auto simp: PDE2PD_def)

declare fork_loop.simps [simp del]

text \<open>
  The parent's side. The child starts in the same code with the result 0 of \<open>sys_env_alloc\<close>
  and only sets its variable \<open>env\<close>.
\<close>

definition fork :: "kern \<Rightarrow> u32 \<Rightarrow> umach \<Rightarrow> ((error + u32) \<times> umach) option" where
  "fork k asm u =
     do {
       u1 \<leftarrow> set_pgfault_handler k asm u;
       case u_env_alloc k u1 of
         (Inl e, u2) \<Rightarrow> Some (Inl e, u2)
       | (Inr envid, u2) \<Rightarrow>
           if sint envid < 0 then Some (Inr envid, u2)
           else do {
             u3 \<leftarrow> fork_loop k u2 envid 0;
             case u_mem_alloc k u3 envid (UXSTACKTOP - BY2PG) (PTE_P OR PTE_U OR PTE_W) of
               (Inl e, u4) \<Rightarrow> Some (Inl e, u4)
             | (Inr _, u4) \<Rightarrow>
                 (case u_set_pgfault_handler u4 envid asm UXSTACKTOP of
                    (Inl e, u5) \<Rightarrow> Some (Inl e, u5)
                  | (Inr _, u5) \<Rightarrow>
                      (case u_set_env_runnable u5 envid of
                         (Inl e, u6) \<Rightarrow> Some (Inl e, u6)
                       | (Inr _, u6) \<Rightarrow> Some (Inr envid, u6)))
           }
     }"

text \<open>A store of the program: it faults on a page without \<open>PTE_W\<close>, and is tried again.\<close>

definition user_store :: "kern \<Rightarrow> umach \<Rightarrow> u32 \<Rightarrow> u8 \<Rightarrow> umach option" where
  "user_store k u va b =
     (case st8 u va b of
        Some u1 \<Rightarrow> Some u1
      | None \<Rightarrow>
          if mapped_page (own u) (vpn va) = None then None
          else do { u1 \<leftarrow> pgfault k u va FEC_WR; st8 u1 va b })"

end
