(* ===== verification/Fork_Lemmas.thy ===== *)
theory Fork_Lemmas
  imports Fork
begin

text \<open>What the page fault handler, a store and the loop of \<open>fork\<close> do to the mappings.\<close>

unbundle bit_operations_syntax

section \<open>Addresses and flags\<close>

lemma low_cow [simp]: "low_bits PTE_COW"
  by (simp add: low_bits_def PTE_COW_def)

lemmas flag_defs = has_def PTE_P_def PTE_W_def PTE_U_def PTE_COW_def PTE_LIBRARY_def PTE_USER_def

lemma perm_uw: "low_bits (PTE_P OR PTE_U OR PTE_W)" "PTE_P OR PTE_U OR PTE_W = 7"
  "low_bits (PTE_COW OR PTE_U OR PTE_P)" "PTE_COW OR PTE_U OR PTE_P = 0x805"
  "low_bits (PTE_U OR PTE_P)" "PTE_U OR PTE_P = 5" "low_bits (PTE_W OR PTE_U)"
  by (simp_all add: low_bits_def flag_defs)

lemma vpn_add:
  assumes "pgoff d + i < 4096"
  shows "vpn (d + of_nat i) = vpn d" "pgoff (d + of_nat i) = pgoff d + i"
proof -
  have "unat d = 4096 * vpn d + pgoff d" by (simp add: vpn_def pgoff_def)
  moreover have "vpn d < 2 ^ 20" using unsigned_less [of d, where ?'a = nat] by (simp add: vpn_def)
  ultimately have s: "unat d + i < 2 ^ 32" "unat d + i = 4096 * vpn d + (pgoff d + i)" using assms by auto
  have "unat (of_nat i :: u32) = i" using s(1) by (intro unat_of_nat_u32) simp
  then have u: "unat (d + of_nat i) = 4096 * vpn d + (pgoff d + i)"
    using s by (simp add: unat_word_ariths)
  have "(4096 * vpn d + (pgoff d + i)) div 4096 = vpn d" using assms by simp
  then show "vpn (d + of_nat i) = vpn d" by (simp only: vpn_def [of "d + of_nat i"] u)
  have "(4096 * vpn d + (pgoff d + i)) mod 4096 = pgoff d + i" using assms by simp
  then show "pgoff (d + of_nat i) = pgoff d + i" by (simp only: pgoff_def [of "d + of_nat i"] u)
qed

lemma ROUNDDOWN_page: "vpn (ROUNDDOWN va BY2PG) = vpn va" "pgoff (ROUNDDOWN va BY2PG) = 0"
  using unat_page_start [of va] by (simp_all add: ROUNDDOWN_def BY2PG_def vpn_def pgoff_def)

lemma page_addr:
  assumes "n < last_page"
  shows "vpn (of_nat n * BY2PG) = n" "of_nat n * BY2PG < UTOP"
proof -
  have l: "last_page < 2 ^ 20" "last_page * 4096 < unat UTOP"
    by (simp_all add: last_page_def layout BY2PG_def)
  have "unat (of_nat n :: u32) = n" using assms l by (intro unat_of_nat_u32) simp
  then have "unat (of_nat n * BY2PG) = n * 4096"
    using assms l by (simp add: BY2PG_def unat_word_ariths)
  then show "vpn (of_nat n * BY2PG) = n" "of_nat n * BY2PG < UTOP"
    using assms l by (simp_all add: vpn_def word_less_nat_alt)
qed

section \<open>Stores\<close>

lemma st8_ent:
  assumes "st8 u va b = Some u'"
  shows "\<exists>p f. ent u 0 (vpn va) = Some (p, f) \<and> has f PTE_U \<and> has f PTE_W
    \<and> u' = u\<lparr>page := (page u)(p := (page u p)(pgoff va := b)), dirt := (dirt u)(vpn va := True)\<rparr>"
proof -
  from assms obtain p where p: "mapped_page (own u) (vpn va) = Some p"
    "has (pte (own u) (vpn va)) PTE_U" "has (pte (own u) (vpn va)) PTE_W"
    "u' = u\<lparr>page := (page u)(p := (page u p)(pgoff va := b)), dirt := (dirt u)(vpn va := True)\<rparr>"
    by (auto simp: st8_def split: option.splits if_splits)
  then show ?thesis
    by (auto simp: ent_own mapped_ent sp_ent_def has_low split: if_splits)
qed

lemma ld8_ent:
  assumes "ld8 u va = Some b"
  shows "\<exists>p f. ent u 0 (vpn va) = Some (p, f) \<and> b = page u p (pgoff va)"
  using assms by (auto simp: ld8_def ent_own mapped_ent split: option.splits if_splits)

lemma bcopy_page:
  assumes "u_bcopy n u s d = Some u'" "pgoff s + n \<le> 4096" "pgoff d = pgoff s"
    "ent u 0 (vpn s) = Some (p, f)" "ent u 0 (vpn d) = Some (q, g)" "p \<noteq> q"
  shows "(\<forall>e i. ent u' e i = ent u e i) \<and> (\<forall>r. r \<noteq> q \<longrightarrow> page u' r = page u r)
    \<and> (\<forall>i. page u' q i = (if pgoff s \<le> i \<and> i < pgoff s + n then page u p i else page u q i))"
  using assms
proof (induction n arbitrary: u s d)
  case (Suc n)
  obtain b u1 where b: "ld8 u s = Some b" "st8 u d b = Some u1" "u_bcopy n u1 (s + 1) (d + 1) = Some u'"
    using Suc.prems(1) by (auto split: bind_splits)
  have u1: "u1 = u\<lparr>page := (page u)(q := (page u q)(pgoff s := page u p (pgoff s))), dirt := (dirt u)(vpn d := True)\<rparr>"
    using ld8_ent [OF b(1)] st8_ent [OF b(2)] Suc.prems(3-5) by auto
  show ?case
  proof (cases n)
    case 0
    then have "u' = u1" using b(3) by simp
    then show ?thesis using u1 0 by auto
  next
    case (Suc m)
    then have "pgoff s + 1 < 4096" using Suc.prems(2) by simp
    then have a: "vpn (s + 1) = vpn s" "pgoff (s + 1) = pgoff s + 1" "vpn (d + 1) = vpn d" "pgoff (d + 1) = pgoff s + 1"
      using vpn_add [of s 1] vpn_add [of d 1] Suc.prems(3) by simp_all
    have "(\<forall>e i. ent u' e i = ent u1 e i) \<and> (\<forall>r. r \<noteq> q \<longrightarrow> page u' r = page u1 r)
      \<and> (\<forall>i. page u' q i = (if pgoff (s + 1) \<le> i \<and> i < pgoff (s + 1) + n then page u1 p i else page u1 q i))"
      by (rule Suc.IH [OF b(3)]) (use a Suc.prems u1 in auto)
    then show ?thesis using u1 a Suc.prems(6) by auto
  qed
qed auto

lemma vpt_own: "vpt u (vpn va) = Some e \<Longrightarrow> ent u 0 (vpn va) = Some (p, f) \<Longrightarrow> p = frame_of e \<and> f = e AND 0xFFF"
  by (auto simp: vpt_def ent_own sp_ent_def split: if_splits)

text \<open>
  A store that succeeds either writes the page that is mapped, or finds a copy-on-write page
  and gives the caller a page of its own with the same contents, that nobody mapped before.
\<close>

definition written :: "umach \<Rightarrow> u32 \<Rightarrow> u8 \<Rightarrow> umach \<Rightarrow> bool" where
  "written u va b u' \<longleftrightarrow>
     (\<exists>p f. ent u 0 (vpn va) = Some (p, f) \<and> has f PTE_U \<and> has f PTE_W \<and> (\<forall>e n. ent u' e n = ent u e n)
        \<and> page u' = (page u)(p := (page u p)(pgoff va := b)))"

definition copied :: "umach \<Rightarrow> u32 \<Rightarrow> u8 \<Rightarrow> umach \<Rightarrow> bool" where
  "copied u va b u' \<longleftrightarrow>
     (\<exists>p f q. ent u 0 (vpn va) = Some (p, f) \<and> has f PTE_COW \<and> vpn va \<noteq> vpn tmp_page \<and> \<not> used u q
        \<and> (\<forall>e n. ent u' e n = (if e = 0 \<and> n = vpn va then Some (q, 7)
                               else if e = 0 \<and> n = vpn tmp_page then None else ent u e n))
        \<and> (\<forall>r. r \<noteq> q \<longrightarrow> page u' r = page u r)
        \<and> (\<forall>i < 4096. page u' q i = (if i = pgoff va then b else page u p i)))"

lemma user_store_ok:
  assumes "kern_ok k" "user_store k u va b = Some u'"
  shows "written u va b u' \<or> copied u va b u'"
proof (cases "st8 u va b")
  case (Some u1)
  then have "u' = u1" using assms(2) by (simp add: user_store_def)
  then show ?thesis using st8_ent [OF Some] by (auto simp: written_def)
next
  case None
  then obtain u4 where u4: "pgfault k u va FEC_WR = Some u4" "st8 u4 va b = Some u'"
    using assms(2) by (auto simp: user_store_def split: if_splits bind_splits)
  obtain p f where pf: "ent u 0 (vpn va) = Some (p, f)"
    using assms(2) None by (auto simp: user_store_def mapped_ent ent_own split: if_splits)
  have vp: "unat (va div BY2PG) = vpn va" by (simp add: vpn_def BY2PG_def unat_div)
  from u4(1) obtain e u1 u2 u3 where e: "vpt u (vpn va) = Some e" "has e PTE_COW"
    and u1: "u_mem_alloc k u 0 tmp_page (PTE_P OR PTE_U OR PTE_W) = (Inr (), u1)"
    and u2: "u_bcopy (unat BY2PG) u1 (ROUNDDOWN va BY2PG) tmp_page = Some u2"
    and u3: "u_mem_map k u2 0 tmp_page 0 (ROUNDDOWN va BY2PG) (PTE_P OR PTE_U OR PTE_W) = (Inr (), u3)"
    and u4': "u_mem_unmap u3 0 tmp_page = (Inr (), u4)"
    by (auto simp: pgfault_def vp split: bind_splits if_splits prod.splits sum.splits)
  from mem_alloc_ok [OF u1 assms(1) perm_uw(1)] obtain q where q: "\<not> used u q"
    "page u1 = (page u)(q := (\<lambda>_. 0))"
    "\<And>e' i. ent u1 e' i = (if e' = 0 \<and> i = vpn tmp_page then Some (q, 7) else ent u e' i)"
    by (auto simp: flag_defs)
  have tmp: "pgoff tmp_page = 0" by (simp add: tmp_page_def pgoff_def layout BY2PG_def)
  have by2: "unat BY2PG = 4096" by (simp add: BY2PG_def)
  have ne: "p \<noteq> q" using q(1) pf by (auto simp: used_def)
  show ?thesis
  proof (cases "vpn va = vpn tmp_page")
    case True
    have "ent u4 0 (vpn va) = None" using mem_unmap_ok [OF u4'] True by simp
    then show ?thesis using st8_ent [OF u4(2)] by simp
  next
    case False
    have c: "(\<forall>e i. ent u2 e i = ent u1 e i) \<and> (\<forall>r. r \<noteq> q \<longrightarrow> page u2 r = page u1 r)
      \<and> (\<forall>i. page u2 q i = (if pgoff (ROUNDDOWN va BY2PG) \<le> i \<and> i < pgoff (ROUNDDOWN va BY2PG) + unat BY2PG
           then page u1 p i else page u1 q i))"
      by (rule bcopy_page [OF u2, where p = p and q = q and f = f and g = 7])
        (use False ne pf tmp q(3) by2 in \<open>simp_all add: ROUNDDOWN_page\<close>)
    then have "ent u2 0 (vpn tmp_page) = Some (q, 7)" using q(3) by simp
    from mem_map_ok [OF u3 perm_uw(1) this]
    have m: "page u3 = page u2"
      "\<And>e' i. ent u3 e' i = (if e' = 0 \<and> i = vpn va then Some (q, 7) else ent u2 e' i)"
      by (auto simp: ROUNDDOWN_page flag_defs)
    have n: "page u4 = page u3" "\<And>e' i. ent u4 e' i = (if e' = 0 \<and> i = vpn tmp_page then None else ent u3 e' i)"
      using mem_unmap_ok [OF u4'] by auto
    have "ent u4 0 (vpn va) = Some (q, 7)" using n(2) m(2) False by simp
    then have s: "u' = u4\<lparr>page := (page u4)(q := (page u4 q)(pgoff va := b)), dirt := (dirt u4)(vpn va := True)\<rparr>"
      using st8_ent [OF u4(2)] by auto
    have "has f PTE_COW" using vpt_own [OF e(1) pf] e(2) by (simp add: has_low)
    moreover have "\<forall>e n. ent u' e n = (if e = 0 \<and> n = vpn va then Some (q, 7)
        else if e = 0 \<and> n = vpn tmp_page then None else ent u e n)"
      using s n(2) m(2) c q(3) False by auto
    moreover have "\<forall>r. r \<noteq> q \<longrightarrow> page u' r = page u r" using s n(1) m(1) c q(2) by auto
    moreover have "\<forall>i < 4096. page u' q i = (if i = pgoff va then b else page u p i)"
      using s n(1) m(1) c q(2) ne by2 by (auto simp: ROUNDDOWN_page)
    ultimately show ?thesis using pf False q(1) unfolding copied_def by blast
  qed
qed

section \<open>The loop of \<open>fork\<close>\<close>

text \<open>What the two sides map at a page number after \<open>duppage\<close>, from what the parent mapped.\<close>

definition shared :: "u32 \<Rightarrow> bool" where
  "shared f \<longleftrightarrow> has f PTE_U \<and> \<not> has f PTE_LIBRARY \<and> (has f PTE_W \<or> has f PTE_COW)"

definition parent_ent :: "(nat \<times> u32) option \<Rightarrow> (nat \<times> u32) option" where
  "parent_ent x = (case x of None \<Rightarrow> None | Some (p, f) \<Rightarrow> Some (p, if shared f then 0x805 else f))"

definition child_ent :: "(nat \<times> u32) option \<Rightarrow> (nat \<times> u32) option" where
  "child_ent x =
     (case x of
        None \<Rightarrow> None
      | Some (p, f) \<Rightarrow>
          if \<not> has f PTE_U then None
          else Some (p, if has f PTE_LIBRARY then PTE_USER else if shared f then 0x805 else 5))"

lemma user_or_present: "PTE_USER OR PTE_P = PTE_USER" "(0x805 :: u32) OR PTE_P = 0x805" "(5 :: u32) OR PTE_P = 5"
  by (simp_all add: flag_defs)

lemma vpt_present:
  assumes "vpt u n = Some e"
  shows "ent u 0 n = (if has e PTE_P then Some (frame_of e, e AND 0xFFF) else None)"
  using assms by (auto simp: vpt_def ent_own sp_ent_def present_def has_def split: if_splits)

lemma mem_map_tables:
  assumes "u_mem_map k u se sva de dva perm = (r, u')" "space_of u se = Some ss" "tab ss (vpn sva div 1024)"
  shows "\<exists>sp'. space_of u' se = Some sp' \<and> (tab ss d \<longrightarrow> tab sp' d)"
  using assms by (auto simp: u_mem_map_def space_of_insert split: if_splits option.splits)

lemma child_exists: "u_mem_map k u se sva de dva perm = (r, u') \<Longrightarrow> space_of u c \<noteq> None \<Longrightarrow> space_of u' c \<noteq> None"
  by (auto simp: u_mem_map_def space_of_insert split: if_splits option.splits)

text \<open>The own tables do not change: the parent only maps again what it had.\<close>

lemma own_tables:
  assumes "u_mem_map k u se sva de dva perm = (r, u')" "de \<noteq> 0 \<or> tab (own u) (vpn dva div 1024)"
  shows "tab (own u') = tab (own u)"
  using assms
  by (auto simp: u_mem_map_def insert_page_def set_space_def space_of_def fun_eq_iff
      split: if_splits option.splits)

lemma duppage_ok:
  assumes "n < last_page" "vpt u n = Some e" "has e PTE_P" "c \<noteq> 0" "space_of u c \<noteq> None" "\<forall>u. room k u"
    "ent u c n = None"
  shows "\<exists>u'. duppage k u c n = Some u' \<and> page u' = page u \<and> tab (own u') = tab (own u) \<and> space_of u' c \<noteq> None
    \<and> (\<forall>e' i. ent u' e' i =
        (if i = n \<and> e' = 0 then parent_ent (ent u 0 n) else if i = n \<and> e' = c then child_ent (ent u 0 n)
         else ent u e' i))"
proof -
  let ?a = "of_nat n * BY2PG" and ?p = "frame_of e" and ?f = "e AND 0xFFF"
  have a: "vpn ?a = n" "?a < UTOP" using page_addr [OF assms(1)] by auto
  have en: "ent u 0 n = Some (?p, ?f)" using vpt_present [OF assms(2)] assms(3) by simp
  have hf: "has ?f fl = has e fl" if "low_bits fl" for fl using that by (rule has_low)
  have tb: "tab (own u) (n div 1024)" using assms(2) by (auto simp: vpt_def split: if_splits)
  obtain cs where cs: "space_of u c = Some cs" using assms(5) by auto
  have map: "\<exists>u'. u_mem_map k u 0 ?a c ?a perm = (Inr (), u') \<and> page u' = page u \<and> tab (own u') = tab (own u)
      \<and> space_of u' c \<noteq> None
      \<and> (\<forall>e' i. ent u' e' i = (if e' = c \<and> i = n then Some (?p, perm OR PTE_P) else ent u e' i))"
    if lp: "low_bits perm" for perm
  proof -
    obtain u' where u': "u_mem_map k u 0 ?a c ?a perm = (Inr (), u')"
      using mem_map_succeeds [of u 0 ?a ?p ?f c cs ?a k perm] a en cs assms(6) by auto
    have "ent u 0 (vpn ?a) = Some (?p, ?f)" using en a by simp
    note mem_map_ok [OF u' lp this]
    moreover have "tab (own u') = tab (own u)" by (rule own_tables [OF u']) (use assms(4) in simp)
    moreover have "space_of u' c \<noteq> None" by (rule child_exists [OF u' assms(5)])
    ultimately show ?thesis using u' a(1) by auto
  qed
  consider (none) "\<not> has e PTE_U" | (lib) "has e PTE_U" "has e PTE_LIBRARY"
    | (cow) "has e PTE_U" "\<not> has e PTE_LIBRARY" "has e PTE_W \<or> has e PTE_COW"
    | (ro) "has e PTE_U" "\<not> has e PTE_LIBRARY" "\<not> (has e PTE_W \<or> has e PTE_COW)" by blast
  then show ?thesis
  proof cases
    case none
    then have "duppage k u c n = Some u" using assms(2,3) by (simp add: duppage_def)
    moreover have "parent_ent (ent u 0 n) = ent u 0 n" "child_ent (ent u 0 n) = ent u c n"
      using none en assms(7) by (simp_all add: parent_ent_def child_ent_def shared_def hf)
    ultimately show ?thesis using assms(5) by auto
  next
    case lib
    from map [of PTE_USER] obtain u' where u': "u_mem_map k u 0 ?a c ?a PTE_USER = (Inr (), u')"
      "page u' = page u" "tab (own u') = tab (own u)" "space_of u' c \<noteq> None"
      "\<forall>e' i. ent u' e' i = (if e' = c \<and> i = n then Some (?p, PTE_USER) else ent u e' i)"
      by (auto simp: user_or_present)
    have "duppage k u c n = Some u'" using lib assms(2,3) u'(1) by (simp add: duppage_def)
    moreover have "parent_ent (ent u 0 n) = ent u 0 n" "child_ent (ent u 0 n) = Some (?p, PTE_USER)"
      using lib en by (simp_all add: parent_ent_def child_ent_def shared_def hf)
    ultimately show ?thesis using u' assms(4) by auto
  next
    case ro
    from map [of 5] obtain u' where u': "u_mem_map k u 0 ?a c ?a 5 = (Inr (), u')"
      "page u' = page u" "tab (own u') = tab (own u)" "space_of u' c \<noteq> None"
      "\<forall>e' i. ent u' e' i = (if e' = c \<and> i = n then Some (?p, 5) else ent u e' i)"
      using perm_uw(5,6) by (auto simp: user_or_present)
    have "duppage k u c n = Some u'" using ro assms(2,3) u'(1) perm_uw(6) by (simp add: duppage_def)
    moreover have "parent_ent (ent u 0 n) = ent u 0 n" "child_ent (ent u 0 n) = Some (?p, 5)"
      using ro en by (simp_all add: parent_ent_def child_ent_def shared_def hf)
    ultimately show ?thesis using u' assms(4) by auto
  next
    case cow
    from map [of "0x805"] obtain u1 where u1: "u_mem_map k u 0 ?a c ?a 0x805 = (Inr (), u1)"
      "page u1 = page u" "tab (own u1) = tab (own u)" "space_of u1 c \<noteq> None"
      "\<forall>e' i. ent u1 e' i = (if e' = c \<and> i = n then Some (?p, 0x805) else ent u e' i)"
      using perm_uw(3,4) by (auto simp: user_or_present)
    have c1: "ent u1 c (vpn ?a) = Some (?p, 0x805)" using u1(5) a by simp
    obtain u2 where u2: "u_mem_map k u1 c ?a 0 ?a 0x805 = (Inr (), u2)"
      using mem_map_succeeds [OF c1 own_space a(2) a(2) assms(6)] by blast
    have "low_bits (0x805 :: u32)" using perm_uw(3,4) by simp
    from mem_map_ok [OF u2 this c1] have m: "page u2 = page u1"
      "\<forall>e' i. ent u2 e' i = (if e' = 0 \<and> i = n then Some (?p, 0x805) else ent u1 e' i)"
      using a(1) by (auto simp: user_or_present)
    have "tab (own u2) = tab (own u)"
      using own_tables [OF u2] tb a(1) u1(3) by simp
    moreover have "space_of u2 c \<noteq> None" by (rule child_exists [OF u2 u1(4)])
    moreover have "duppage k u c n = Some u2" using cow assms(2,3) u1(1) u2 perm_uw(4) by (simp add: duppage_def)
    moreover have "parent_ent (ent u 0 n) = Some (?p, 0x805)" "child_ent (ent u 0 n) = Some (?p, 0x805)"
      using cow en by (simp_all add: parent_ent_def child_ent_def shared_def hf)
    ultimately show ?thesis using u1 m assms(4) by auto
  qed
qed

text \<open>The state in front of page \<open>i\<close>, from the state \<open>u0\<close> in front of the loop.\<close>

definition forked :: "umach \<Rightarrow> u32 \<Rightarrow> nat \<Rightarrow> umach \<Rightarrow> bool" where
  "forked u0 c i u \<longleftrightarrow> page u = page u0 \<and> tab (own u) = tab (own u0) \<and> space_of u c \<noteq> None
     \<and> (\<forall>e n. ent u e n =
          (if n < i \<and> n < last_page \<and> e = 0 then parent_ent (ent u0 0 n)
           else if n < i \<and> n < last_page \<and> e = c then child_ent (ent u0 0 n) else ent u0 e n))"

lemma fork_loop_ok:
  assumes "c \<noteq> 0" "\<forall>u. room k u" "\<forall>n < last_page. ent u0 c n = None"
  shows "forked u0 c i u \<Longrightarrow> i mod 1024 = 0 \<or> tab (own u) (i div 1024) \<Longrightarrow>
    \<exists>u'. fork_loop k u c i = Some u' \<and> forked u0 c last_page u'"
proof (induction "last_page - i" arbitrary: i u rule: less_induct)
  case less
  show ?case
  proof (cases "last_page \<le> i")
    case True
    then show ?thesis using less.prems(1) by (subst fork_loop.simps) (auto simp: forked_def)
  next
    case False
    then have i: "i < last_page" by simp
    show ?thesis
    proof (cases "tab (own u) (i div 1024)")
      case tb: False
      then have z: "i mod 1024 = 0" using less.prems(2) by blast
      have "ent u0 0 n = None" if "i \<le> n" "n < i + 1024" for n
      proof -
        have "n div 1024 = i div 1024" using that z by (auto simp: le_less_trans)
        then show ?thesis using tb less.prems(1) by (simp add: forked_def ent_own sp_ent_def)
      qed
      then have "forked u0 c (i + 1024) u"
        using less.prems(1) assms(3) i unfolding forked_def
        by (auto simp: parent_ent_def child_ent_def not_less)
      moreover have "(i + 1024) mod 1024 = 0" using z by simp
      ultimately show ?thesis
        using less.hyps [of "i + 1024" u] i tb by (subst fork_loop.simps) (simp add: vpd_def PDE2PD_def)
    next
      case tb: True
      obtain e where e: "vpt u i = Some e" using tb by (simp add: vpt_def)
      have e0: "ent u 0 i = ent u0 0 i" "ent u c i = None" "space_of u c \<noteq> None"
        using less.prems(1) i assms(3) by (simp_all add: forked_def)
      have "\<exists>u1. (if has e PTE_P then duppage k u c i else Some u) = Some u1
          \<and> forked u0 c (i + 1) u1 \<and> tab (own u1) = tab (own u)"
      proof (cases "has e PTE_P")
        case True
        from duppage_ok [OF i e True assms(1) e0(3) assms(2) e0(2)] obtain u' where u':
          "duppage k u c i = Some u'" "page u' = page u" "tab (own u') = tab (own u)" "space_of u' c \<noteq> None"
          "\<forall>e' n. ent u' e' n = (if n = i \<and> e' = 0 then parent_ent (ent u 0 i)
             else if n = i \<and> e' = c then child_ent (ent u 0 i) else ent u e' n)" by blast
        then have "forked u0 c (i + 1) u'"
          using less.prems(1) i e0 assms(1) unfolding forked_def by (auto simp: less_Suc_eq)
        then show ?thesis using True u' by simp
      next
        case False
        then have "ent u0 0 i = None" using vpt_present [OF e] e0 by simp
        then have "forked u0 c (i + 1) u"
          using less.prems(1) i e0 assms(3) unfolding forked_def
          by (auto simp: less_Suc_eq parent_ent_def child_ent_def)
        then show ?thesis using False by simp
      qed
      then obtain u1 where u1: "(if has e PTE_P then duppage k u c i else Some u) = Some u1"
        "forked u0 c (i + 1) u1" "tab (own u1) = tab (own u)" by blast
      have "(i + 1) mod 1024 = 0 \<or> tab (own u1) ((i + 1) div 1024)"
      proof (cases "(i + 1) mod 1024 = 0")
        case False
        then have "(i + 1) div 1024 = i div 1024" by (simp add: div_Suc)
        then show ?thesis using tb u1(3) by simp
      qed simp
      then have "\<exists>u'. fork_loop k u1 c (i + 1) = Some u' \<and> forked u0 c last_page u'"
        using less.hyps [of "i + 1" u1] i u1(2) by simp
      moreover have "fork_loop k u c i = fork_loop k u1 c (i + 1)"
        using i tb e u1(1) by (subst fork_loop.simps) (simp add: vpd_def)
      ultimately show ?thesis by simp
    qed
  qed
qed

end
