(* ===== verification/Fork_Props.thy ===== *)
theory Fork_Props
  imports Fork_Lemmas
begin

text \<open>Properties of \<open>fork\<close>.\<close>

unbundle bit_operations_syntax

text \<open>What an environment reads at an address.\<close>

definition byte_at :: "umach \<Rightarrow> u32 \<Rightarrow> u32 \<Rightarrow> u8 option" where
  "byte_at u e a = map_option (\<lambda>(p, f). page u p (pgoff a)) (ent u e (vpn a))"




section \<open>The parts of \<open>fork\<close>\<close>








section \<open>The two sides are separate\<close>

text \<open>Environment \<open>e\<close> can write no page that \<open>e'\<close> maps, library pages apart.\<close>

definition separate :: "umach \<Rightarrow> u32 \<Rightarrow> u32 \<Rightarrow> bool" where
  "separate u e e' \<longleftrightarrow> (\<forall>n p f. n < last_page \<and> ent u e n = Some (p, f) \<and> has f PTE_U \<and> has f PTE_W
     \<and> \<not> has f PTE_LIBRARY \<longrightarrow> (\<forall>n' f'. ent u e' n' \<noteq> Some (p, f')))"

definition private_at :: "umach \<Rightarrow> u32 \<Rightarrow> u32 \<Rightarrow> bool" where
  "private_at u e a \<longleftrightarrow> vpn a < last_page \<and> (\<forall>p f. ent u e (vpn a) = Some (p, f) \<longrightarrow> \<not> has f PTE_LIBRARY)"








lemma dirt_same [simp]:
  "separate (u\<lparr>dirt := d\<rparr>) e e' = separate u e e'" "private_at (u\<lparr>dirt := d\<rparr>) e a = private_at u e a"
  "byte_at (u\<lparr>dirt := d\<rparr>) e x = byte_at u e x"
proof -
  have "ent (u\<lparr>dirt := d\<rparr>) e n = ent u e n" for e n by (simp add: ent_def)
  then show "separate (u\<lparr>dirt := d\<rparr>) e e' = separate u e e'" "private_at (u\<lparr>dirt := d\<rparr>) e a = private_at u e a"
    "byte_at (u\<lparr>dirt := d\<rparr>) e x = byte_at u e x"
    by (simp_all add: separate_def private_at_def byte_at_def)
qed


















end
