(* ===== verification/Pipe.thy ===== *)
theory Pipe
  imports Prelude
begin

text \<open>
  Pipes, \<open>user/pipe.c\<close>: a ring of 32 bytes in a page that readers and writers share, with the
  two positions beside it. The environments are preemptible, so each access of the shared
  page, of a reference count and of \<open>env_runs\<close> is a step of its own, and any number of
  environments take their steps in any order. One test of a loop is one step: it reads one
  position that other environments may move, the other one is the caller's own.
\<close>

section \<open>The ring\<close>

definition BY2PIPE :: u32 where "BY2PIPE = 32"

record pipe =
  p_rpos :: u32
  p_wpos :: u32
  p_buf :: "nat \<Rightarrow> u8"

definition slot :: "u32 \<Rightarrow> nat" where "slot pos = unat (pos mod BY2PIPE)"

text \<open>The tests of the two \<open>while\<close> loops, and the size that \<open>pipestat\<close> reports.\<close>

definition pipe_empty :: "pipe \<Rightarrow> bool" where "pipe_empty p \<longleftrightarrow> p_rpos p \<ge> p_wpos p"

definition pipe_full :: "pipe \<Rightarrow> bool" where "pipe_full p \<longleftrightarrow> p_rpos p + BY2PIPE \<le> p_wpos p"

definition pipe_size :: "pipe \<Rightarrow> u32" where "pipe_size p = p_wpos p - p_rpos p"

section \<open>The system\<close>

datatype fdside = Rd | Wr

text \<open>
  Closing, duplicating and forking change mappings one by one. \<open>pipeclose\<close> unmaps the \<open>Fd\<close> page
  and then the page of the pipe; \<open>dup\<close> maps the page of the pipe and then the \<open>Fd\<close> page; \<open>fork\<close>
  goes through the pages by address and maps the \<open>Fd\<close> pages first.
\<close>

datatype mop = UnmapFd fdside | UnmapData | MapFd fdside | MapData

definition pipeclose_ops :: "fdside \<Rightarrow> mop list" where "pipeclose_ops d = [UnmapFd d, UnmapData]"

definition dup_ops :: "fdside \<Rightarrow> mop list" where "dup_ops d = [MapData, MapFd d]"

definition fork_ops :: "fdside list \<Rightarrow> mop list" where "fork_ops ds = map MapFd ds @ map (\<lambda>_. MapData) ds"

text \<open>
  Where an environment is. In \<open>_pipeisclosed\<close>: about to read \<open>env_runs\<close>, then the count of its
  \<open>Fd\<close> page, then that of the page of the pipe, then \<open>env_runs\<close> again. In a read of \<open>n\<close> bytes
  that has \<open>bs\<close>: at the test, in \<open>_pipeisclosed\<close>, about to fetch the byte at the position, about
  to store the next position. A write is described by its bytes and the number of those that are
  in the pipe. C does not say whether the new position is stored before the byte moves or after;
  the last two constructors of either call are for a compiler that does it before.
\<close>

datatype cpc = Cruns | Cfd u32 | Cpage u32 nat | Cagain u32 bool

datatype upc =
    Idle
  | RTest nat "u8 list" | RClosed nat "u8 list" cpc
  | RByte nat "u8 list" u32 | RPos nat "u8 list" u32 u8 | RPosEarly nat "u8 list" u32 | RByteLate nat "u8 list" u32
  | WTest "u8 list" nat | WClosed "u8 list" nat cpc
  | WByte "u8 list" nat u32 | WPos "u8 list" nat u32 | WPosEarly "u8 list" nat u32 | WByteLate "u8 list" nat u32
  | Ops "mop list"

text \<open>
  \<open>fdref\<close> are the reference counts of the \<open>Fd\<close> pages of the two ends, \<open>pref\<close> that of the page of
  the pipe; \<open>who\<close> is the environment on the processor. The last fields record the bytes that went
  through and the calls that returned: the length asked and the bytes read; the bytes of a write,
  how many of them it put, and its result.
\<close>

record psys =
  nproc :: nat
  pc :: "nat \<Rightarrow> upc"
  runs :: "nat \<Rightarrow> u32"
  who :: "nat option"
  ring :: pipe
  fdref :: "fdside \<Rightarrow> nat"
  pref :: nat
  put :: "u8 list"
  got :: "u8 list"
  rdone :: "(nat \<times> u8 list) list"
  wdone :: "(u8 list \<times> nat \<times> nat) list"

definition goto :: "nat \<Rightarrow> upc \<Rightarrow> psys \<Rightarrow> psys" where "goto k q s = s\<lparr>pc := (pc s)(k := q)\<rparr>"

text \<open>\<open>env_run\<close> counts in \<open>env_runs\<close> how often an environment is given the processor.\<close>

definition dispatch :: "nat \<Rightarrow> psys \<Rightarrow> psys" where
  "dispatch k s = (if who s = Some k then s else s\<lparr>runs := (runs s)(k := runs s k + 1), who := Some k\<rparr>)"

definition return_read :: "nat \<Rightarrow> nat \<Rightarrow> u8 list \<Rightarrow> psys \<Rightarrow> psys" where
  "return_read k n bs s = (goto k Idle s)\<lparr>rdone := rdone s @ [(n, bs)]\<rparr>"

definition return_write :: "nat \<Rightarrow> u8 list \<Rightarrow> nat \<Rightarrow> nat \<Rightarrow> psys \<Rightarrow> psys" where
  "return_write k bs i r s = (goto k Idle s)\<lparr>wdone := wdone s @ [(bs, i, r)]\<rparr>"

section \<open>Is the other end closed?\<close>

text \<open>
  One step of \<open>_pipeisclosed\<close>: \<open>Inr\<close> is its result. A result counts only if the environment was
  not preempted between the two readings of \<open>env_runs\<close>; otherwise it starts again.
\<close>

fun pipeisclosed_step :: "nat \<Rightarrow> fdside \<Rightarrow> psys \<Rightarrow> cpc \<Rightarrow> cpc + bool" where
  "pipeisclosed_step k d s Cruns = Inl (Cfd (runs s k))"
| "pipeisclosed_step k d s (Cfd t) = Inl (Cpage t (fdref s d))"
| "pipeisclosed_step k d s (Cpage t rf) = Inl (Cagain t (rf = pref s))"
| "pipeisclosed_step k d s (Cagain t r) = (if t = runs s k then Inr r else Inl Cruns)"

section \<open>Reading and writing\<close>

text \<open>
  \<open>piperead\<close> and \<open>pipewrite\<close>, one step of environment \<open>k\<close>. \<open>sys_yield\<close> gives up the processor. A
  write whose readers have gone returns 0, whatever it has written.
\<close>

fun piperead_step :: "bool \<Rightarrow> nat \<Rightarrow> psys \<Rightarrow> upc \<Rightarrow> psys option" where
  "piperead_step early k s (RTest n bs) =
     Some (if n \<le> length bs then return_read k n bs s
           else if pipe_empty (ring s) then goto k (RClosed n bs Cruns) s
           else goto k ((if early then RPosEarly else RByte) n bs (p_rpos (ring s))) s)"
| "piperead_step early k s (RClosed n bs c) =
     Some (case pipeisclosed_step k Rd s c of
             Inl c' \<Rightarrow> goto k (RClosed n bs c') s
           | Inr closed \<Rightarrow>
               if closed then return_read k n bs s
               else if bs = [] then (goto k (RTest n bs) s)\<lparr>who := None\<rparr>
               else return_read k n bs s)"
| "piperead_step early k s (RByte n bs r) = Some (goto k (RPos n bs r (p_buf (ring s) (slot r))) s)"
| "piperead_step early k s (RPos n bs r b) =
     Some ((goto k (RTest n (bs @ [b])) s)\<lparr>ring := (ring s)\<lparr>p_rpos := r + 1\<rparr>, got := got s @ [b]\<rparr>)"
| "piperead_step early k s (RPosEarly n bs r) =
     Some ((goto k (RByteLate n bs r) s)\<lparr>ring := (ring s)\<lparr>p_rpos := r + 1\<rparr>\<rparr>)"
| "piperead_step early k s (RByteLate n bs r) =
     (let b = p_buf (ring s) (slot r) in Some ((goto k (RTest n (bs @ [b])) s)\<lparr>got := got s @ [b]\<rparr>))"
| "piperead_step early k s q = None"

definition store_byte :: "u32 \<Rightarrow> u8 \<Rightarrow> pipe \<Rightarrow> pipe" where
  "store_byte w b p = p\<lparr>p_buf := (p_buf p)(slot w := b)\<rparr>"

fun pipewrite_step :: "bool \<Rightarrow> nat \<Rightarrow> psys \<Rightarrow> upc \<Rightarrow> psys option" where
  "pipewrite_step early k s (WTest bs i) =
     Some (if length bs \<le> i then return_write k bs i i s
           else if pipe_full (ring s) then goto k (WClosed bs i Cruns) s
           else goto k ((if early then WPosEarly else WByte) bs i (p_wpos (ring s))) s)"
| "pipewrite_step early k s (WClosed bs i c) =
     Some (case pipeisclosed_step k Wr s c of
             Inl c' \<Rightarrow> goto k (WClosed bs i c') s
           | Inr closed \<Rightarrow>
               if closed then return_write k bs i 0 s else (goto k (WTest bs i) s)\<lparr>who := None\<rparr>)"
| "pipewrite_step early k s (WByte bs i w) =
     Some ((goto k (WPos bs i w) s)\<lparr>ring := store_byte w (bs ! i) (ring s)\<rparr>)"
| "pipewrite_step early k s (WPos bs i w) =
     Some ((goto k (WTest bs (i + 1)) s)\<lparr>ring := (ring s)\<lparr>p_wpos := w + 1\<rparr>, put := put s @ [bs ! i]\<rparr>)"
| "pipewrite_step early k s (WPosEarly bs i w) =
     Some ((goto k (WByteLate bs i w) s)\<lparr>ring := (ring s)\<lparr>p_wpos := w + 1\<rparr>\<rparr>)"
| "pipewrite_step early k s (WByteLate bs i w) =
     Some ((goto k (WTest bs (i + 1)) s)\<lparr>ring := store_byte w (bs ! i) (ring s), put := put s @ [bs ! i]\<rparr>)"
| "pipewrite_step early k s q = None"

text \<open>One change of a mapping. Only a page that is mapped is unmapped or mapped once more.\<close>

fun mop_step :: "mop \<Rightarrow> psys \<Rightarrow> psys option" where
  "mop_step (UnmapFd d) s = (if 0 < fdref s d then Some (s\<lparr>fdref := (fdref s)(d := fdref s d - 1)\<rparr>) else None)"
| "mop_step UnmapData s = (if 0 < pref s then Some (s\<lparr>pref := pref s - 1\<rparr>) else None)"
| "mop_step (MapFd d) s = (if 0 < fdref s d then Some (s\<lparr>fdref := (fdref s)(d := fdref s d + 1)\<rparr>) else None)"
| "mop_step MapData s = (if 0 < pref s then Some (s\<lparr>pref := pref s + 1\<rparr>) else None)"

section \<open>Interleaved runs\<close>

text \<open>
  An environment that is in no call starts one; an environment in a call takes its next step; or
  the clock takes the processor away.
\<close>

datatype pcall = PRead nat | PWrite "u8 list" | PClose fdside | PDup fdside | PFork "fdside list"

datatype pact = Call nat pcall | Step nat | Tick

fun call_start :: "pcall \<Rightarrow> upc" where
  "call_start (PRead n) = RTest n []"
| "call_start (PWrite bs) = WTest bs 0"
| "call_start (PClose d) = Ops (pipeclose_ops d)"
| "call_start (PDup d) = Ops (dup_ops d)"
| "call_start (PFork ds) = Ops (fork_ops ds)"

fun ops_step :: "nat \<Rightarrow> psys \<Rightarrow> mop list \<Rightarrow> psys option" where
  "ops_step k s [] = Some (goto k Idle s)"
| "ops_step k s (m # ms) = map_option (goto k (Ops ms)) (mop_step m s)"

definition call_step :: "bool \<Rightarrow> nat \<Rightarrow> psys \<Rightarrow> psys option" where
  "call_step early k s =
     (case pc s k of
        Idle \<Rightarrow> None
      | Ops ms \<Rightarrow> ops_step k s ms
      | q \<Rightarrow> (case piperead_step early k s q of Some s' \<Rightarrow> Some s' | None \<Rightarrow> pipewrite_step early k s q))"

fun pstep :: "bool \<Rightarrow> pact \<Rightarrow> psys \<Rightarrow> psys option" where
  "pstep early (Call k c) s = (if k < nproc s \<and> pc s k = Idle then Some (goto k (call_start c) (dispatch k s)) else None)"
| "pstep early (Step k) s = (if k < nproc s then call_step early k (dispatch k s) else None)"
| "pstep early Tick s = Some (s\<lparr>who := None\<rparr>)"

definition prun :: "bool \<Rightarrow> pact list \<Rightarrow> psys \<Rightarrow> psys option" where
  "prun early acts s = mfold (pstep early) acts s"

text \<open>The state after \<open>pipe\<close>: one mapping of each end. The environments have run before.\<close>

definition new_pipe :: "nat \<Rightarrow> (nat \<Rightarrow> u32) \<Rightarrow> psys" where
  "new_pipe n rs = \<lparr>nproc = n, pc = (\<lambda>_. Idle), runs = rs, who = None,
     ring = \<lparr>p_rpos = 0, p_wpos = 0, p_buf = (\<lambda>_. 0)\<rparr>, fdref = (\<lambda>_. 1), pref = 2,
     put = [], got = [], rdone = [], wdone = []\<rparr>"

section \<open>What is in the ring\<close>

definition ring_bytes :: "pipe \<Rightarrow> u8 list" where
  "ring_bytes p = map (\<lambda>k. p_buf p ((unat (p_rpos p) + k) mod 32)) [0..<unat (p_wpos p) - unat (p_rpos p)]"

definition ring_ok :: "pipe \<Rightarrow> bool" where
  "ring_ok p \<longleftrightarrow> p_rpos p \<le> p_wpos p \<and> unat (p_wpos p) \<le> unat (p_rpos p) + 32 \<and> unat (p_wpos p) < 2 ^ 32 - 32"

lemma slot_mod: "slot pos = unat pos mod 32"
  by (simp add: slot_def BY2PIPE_def unat_mod)

lemma mod32_neq: "a < w \<Longrightarrow> w < a + 32 \<Longrightarrow> a mod 32 \<noteq> w mod (32 :: nat)"
proof
  assume h: "a < w" "w < a + 32" "a mod 32 = w mod 32"
  then have "32 dvd w - a" by (metis mod_eq_dvd_iff_nat less_imp_le_nat)
  then show False using h(1,2) by (auto dest: dvd_imp_le)
qed

definition has_room :: "pipe \<Rightarrow> bool" where
  "has_room p \<longleftrightarrow> unat (p_wpos p) < unat (p_rpos p) + 32"

lemma not_full_room:
  assumes "ring_ok p" "\<not> pipe_full p"
  shows "has_room p"
proof -
  have "unat (p_rpos p) < 2 ^ 32 - 32" using assms(1) by (auto simp: ring_ok_def word_le_nat_alt)
  then have "unat (p_rpos p + BY2PIPE) = unat (p_rpos p) + 32" by (simp add: BY2PIPE_def unat_word_ariths)
  then show ?thesis using assms(2) by (simp add: pipe_full_def has_room_def word_le_nat_alt)
qed

lemma slots_differ: "has_room p \<Longrightarrow> p_rpos p < p_wpos p \<Longrightarrow> slot (p_rpos p) \<noteq> slot (p_wpos p)"
  using mod32_neq by (simp add: has_room_def slot_mod word_less_nat_alt)

text \<open>A byte that is stored in a free slot is in the pipe once the position is stored.\<close>

lemma store_byte_free:
  assumes "ring_ok p" "has_room p"
  shows "ring_ok (store_byte (p_wpos p) b p)" "ring_bytes (store_byte (p_wpos p) b p) = ring_bytes p"
proof -
  show "ring_ok (store_byte (p_wpos p) b p)" using assms(1) by (simp add: ring_ok_def store_byte_def)
  have "(unat (p_rpos p) + k) mod 32 \<noteq> unat (p_wpos p) mod 32" if "k < unat (p_wpos p) - unat (p_rpos p)" for k
    by (rule mod32_neq) (use that assms(2) in \<open>auto simp: has_room_def\<close>)
  then show "ring_bytes (store_byte (p_wpos p) b p) = ring_bytes p"
    by (auto simp: ring_bytes_def store_byte_def slot_mod)
qed

lemma push_byte:
  assumes "ring_ok p" "has_room p" "p_buf p (slot (p_wpos p)) = b" "unat (p_wpos p) + 1 < 2 ^ 32 - 32"
  shows "ring_ok (p\<lparr>p_wpos := p_wpos p + 1\<rparr>)" "ring_bytes (p\<lparr>p_wpos := p_wpos p + 1\<rparr>) = ring_bytes p @ [b]"
    "unat (p_wpos p + 1) = unat (p_wpos p) + 1"
proof -
  let ?r = "unat (p_rpos p)" and ?w = "unat (p_wpos p)"
  have o: "?r \<le> ?w" "?w < ?r + 32" using assms(1,2) by (auto simp: ring_ok_def has_room_def word_le_nat_alt)
  show w1: "unat (p_wpos p + 1) = ?w + 1" using assms(4) by (simp add: unat_word_ariths)
  have e: "[0..<?w + 1 - ?r] = [0..<?w - ?r] @ [?w - ?r]" using o(1) by (simp add: Suc_diff_le)
  have "p_buf p ((?r + (?w - ?r)) mod 32) = b" using o(1) assms(3) by (simp add: slot_mod)
  then show "ring_bytes (p\<lparr>p_wpos := p_wpos p + 1\<rparr>) = ring_bytes p @ [b]"
    using w1 e by (simp add: ring_bytes_def)
  show "ring_ok (p\<lparr>p_wpos := p_wpos p + 1\<rparr>)" using o w1 assms(4) by (simp add: ring_ok_def word_le_nat_alt)
qed

lemma pop_byte:
  assumes "ring_ok p" "p_rpos p < p_wpos p"
  shows "ring_ok (p\<lparr>p_rpos := p_rpos p + 1\<rparr>)"
    "ring_bytes p = p_buf p (slot (p_rpos p)) # ring_bytes (p\<lparr>p_rpos := p_rpos p + 1\<rparr>)"
    "unat (p_rpos p + 1) = unat (p_rpos p) + 1"
proof -
  let ?r = "unat (p_rpos p)" and ?w = "unat (p_wpos p)"
  have lt: "?r < ?w" using assms(2) by (simp add: word_less_nat_alt)
  have o: "?w \<le> ?r + 32" "?w < 2 ^ 32 - 32" using assms(1) by (auto simp: ring_ok_def)
  show r1: "unat (p_rpos p + 1) = ?r + 1" using lt o by (simp add: unat_word_ariths)
  have "[0..<?w - ?r] = 0 # map Suc [0..<?w - (?r + 1)]"
  proof -
    have "[0..<?w - ?r] = 0 # [Suc 0..<?w - ?r]" using lt by (simp add: upt_conv_Cons)
    moreover have "?w - ?r = Suc (?w - (?r + 1))" using lt by simp
    ultimately show ?thesis by (simp only: map_Suc_upt)
  qed
  then show "ring_bytes p = p_buf p (slot (p_rpos p)) # ring_bytes (p\<lparr>p_rpos := p_rpos p + 1\<rparr>)"
    using r1 by (simp add: ring_bytes_def slot_mod)
  show "ring_ok (p\<lparr>p_rpos := p_rpos p + 1\<rparr>)" using lt o r1 by (simp add: ring_ok_def word_le_nat_alt)
qed

end
