(* ===== verification/Pipe_Props.thy ===== *)
theory Pipe_Props
  imports Pipe
begin

text \<open>
  A pipe is a queue of bytes, and its end is seen only when the other end has gone. As in a
  proof of a bounded buffer, there is an assertion for each point of a call.
\<close>

section \<open>One reader and one writer\<close>

text \<open>Whether an environment is in a read or in a write, and the bytes that the call has moved.\<close>

fun in_read :: "upc \<Rightarrow> (nat \<times> u8 list) option" where
  "in_read (RTest n bs) = Some (n, bs)"
| "in_read (RClosed n bs c) = Some (n, bs)"
| "in_read (RByte n bs r) = Some (n, bs)"
| "in_read (RPos n bs r b) = Some (n, bs)"
| "in_read (RPosEarly n bs r) = Some (n, bs)"
| "in_read (RByteLate n bs r) = Some (n, bs)"
| "in_read q = None"

fun in_write :: "upc \<Rightarrow> (u8 list \<times> nat) option" where
  "in_write (WTest bs i) = Some (bs, i)"
| "in_write (WClosed bs i c) = Some (bs, i)"
| "in_write (WByte bs i w) = Some (bs, i)"
| "in_write (WPos bs i w) = Some (bs, i)"
| "in_write (WPosEarly bs i w) = Some (bs, i)"
| "in_write (WByteLate bs i w) = Some (bs, i)"
| "in_write q = None"

definition solo :: "psys \<Rightarrow> bool" where
  "solo s \<longleftrightarrow> (\<forall>j \<in> set [0..<nproc s]. \<forall>k \<in> set [0..<nproc s]. j \<noteq> k \<longrightarrow>
     (in_read (pc s j) = None \<or> in_read (pc s k) = None) \<and> (in_write (pc s j) = None \<or> in_write (pc s k) = None))"

text \<open>No two reads are under way at the same time in a run, nor two writes.\<close>

fun solo_run :: "bool \<Rightarrow> pact list \<Rightarrow> psys \<Rightarrow> bool" where
  "solo_run early [] s = solo s"
| "solo_run early (a # as) s = (solo s \<and> (case pstep early a s of None \<Rightarrow> True | Some s' \<Rightarrow> solo_run early as s'))"

definition bytes_read :: "upc \<Rightarrow> u8 list" where
  "bytes_read q = (case in_read q of None \<Rightarrow> [] | Some (n, bs) \<Rightarrow> bs)"

definition bytes_written :: "upc \<Rightarrow> u8 list" where
  "bytes_written q = (case in_write q of None \<Rightarrow> [] | Some (bs, i) \<Rightarrow> take i bs)"

text \<open>What the reads have delivered, and what the writes have taken from their callers.\<close>

definition delivered :: "psys \<Rightarrow> u8 list" where
  "delivered s = concat (map snd (rdone s)) @ concat (map (\<lambda>k. bytes_read (pc s k)) [0..<nproc s])"

definition accepted :: "psys \<Rightarrow> u8 list" where
  "accepted s = concat (map (\<lambda>(bs, i, r). take i bs) (wdone s)) @ concat (map (\<lambda>k. bytes_written (pc s k)) [0..<nproc s])"

lemma concat_one:
  assumes "k < n" "\<And>j. j < n \<Longrightarrow> j \<noteq> k \<Longrightarrow> f j = []"
  shows "concat (map f [0..<n]) = f k"
  using assms
proof (induction n)
  case (Suc n)
  show ?case
  proof (cases "k = n")
    case True
    then have "\<forall>j < n. f j = []" using Suc.prems by simp
    then show ?thesis using True by simp
  next
    case False
    then have "f n = []" "k < n" using Suc.prems(1) Suc.prems(2) [of n] by auto
    then show ?thesis using Suc by simp
  qed
qed simp

lemma solo_read_others:
  "solo s \<Longrightarrow> k < nproc s \<Longrightarrow> in_read (pc s k) \<noteq> None \<Longrightarrow> j < nproc s \<Longrightarrow> j \<noteq> k \<Longrightarrow> in_read (pc s j) = None"
  by (fastforce simp: solo_def)

lemma solo_write_others:
  "solo s \<Longrightarrow> k < nproc s \<Longrightarrow> in_write (pc s k) \<noteq> None \<Longrightarrow> j < nproc s \<Longrightarrow> j \<noteq> k \<Longrightarrow> in_write (pc s j) = None"
  by (fastforce simp: solo_def)

lemma read_now:
  "solo s \<Longrightarrow> k < nproc s \<Longrightarrow> in_read (pc s k) \<noteq> None
     \<Longrightarrow> concat (map (\<lambda>j. bytes_read (pc s j)) [0..<nproc s]) = bytes_read (pc s k)"
  by (rule concat_one) (auto simp: bytes_read_def dest: solo_read_others)

lemma written_now:
  "solo s \<Longrightarrow> k < nproc s \<Longrightarrow> in_write (pc s k) \<noteq> None
     \<Longrightarrow> concat (map (\<lambda>j. bytes_written (pc s j)) [0..<nproc s]) = bytes_written (pc s k)"
  by (rule concat_one) (auto simp: bytes_written_def dest: solo_write_others)

section \<open>The queue\<close>

text \<open>What holds at each point of a call while its environment is there.\<close>

fun at_point :: "pipe \<Rightarrow> upc \<Rightarrow> bool" where
  "at_point p (RByte n bs r) \<longleftrightarrow> r = p_rpos p \<and> p_rpos p < p_wpos p"
| "at_point p (RPos n bs r b) \<longleftrightarrow> r = p_rpos p \<and> p_rpos p < p_wpos p \<and> b = p_buf p (slot (p_rpos p))"
| "at_point p (RPosEarly n bs r) \<longleftrightarrow> False"
| "at_point p (RByteLate n bs r) \<longleftrightarrow> False"
| "at_point p (WTest bs i) \<longleftrightarrow> i \<le> length bs"
| "at_point p (WClosed bs i c) \<longleftrightarrow> i < length bs"
| "at_point p (WByte bs i w) \<longleftrightarrow> w = p_wpos p \<and> has_room p \<and> i < length bs"
| "at_point p (WPos bs i w) \<longleftrightarrow> w = p_wpos p \<and> has_room p \<and> i < length bs \<and> p_buf p (slot (p_wpos p)) = bs ! i"
| "at_point p (WPosEarly bs i w) \<longleftrightarrow> False"
| "at_point p (WByteLate bs i w) \<longleftrightarrow> False"
| "at_point p q \<longleftrightarrow> True"

definition pinv :: "psys \<Rightarrow> bool" where
  "pinv s \<longleftrightarrow> ring_ok (ring s) \<and> got s @ ring_bytes (ring s) = put s \<and> unat (p_wpos (ring s)) = length (put s)
     \<and> (\<forall>k < nproc s. at_point (ring s) (pc s k))"

text \<open>The steps of the others keep what holds at a point.\<close>

lemma at_point_pop:
  assumes "at_point p q" "in_read q = None" "ring_ok p" "p_rpos p < p_wpos p"
  shows "at_point (p\<lparr>p_rpos := p_rpos p + 1\<rparr>) q"
  using assms(1,2) pop_byte(3) [OF assms(3,4)] by (cases q) (auto simp: has_room_def)

lemma at_point_push:
  assumes "at_point p q" "in_write q = None" "ring_ok p" "has_room p" "unat (p_wpos p) + 1 < 2 ^ 32 - 32"
  shows "at_point (p\<lparr>p_wpos := p_wpos p + 1\<rparr>) q"
proof -
  have "unat (p_wpos p + 1) = unat (p_wpos p) + 1" using assms(5) by (simp add: unat_word_ariths)
  then have "p_rpos p < p_wpos p \<Longrightarrow> p_rpos p < p_wpos p + 1" by (simp add: word_less_nat_alt)
  then show ?thesis using assms(1,2) by (cases q) auto
qed

lemma at_point_store:
  assumes "at_point p q" "in_write q = None" "has_room p"
  shows "at_point (store_byte (p_wpos p) b p) q"
  using assms slots_differ [OF assms(3)] by (cases q) (auto simp: store_byte_def)

lemma at_point_free: "in_read q = None \<Longrightarrow> in_write q = None \<Longrightarrow> at_point p q"
  by (cases q) auto

lemma pinv_goto:
  assumes "pinv s" "ring s' = ring s" "put s' = put s" "got s' = got s" "nproc s' = nproc s"
    "pc s' = (pc s)(k := q)" "at_point (ring s) q"
  shows "pinv s'"
  using assms by (simp add: pinv_def)

lemma dispatch_fields [simp]:
  "pc (dispatch k s) = pc s" "ring (dispatch k s) = ring s" "put (dispatch k s) = put s" "got (dispatch k s) = got s"
  "rdone (dispatch k s) = rdone s" "wdone (dispatch k s) = wdone s" "nproc (dispatch k s) = nproc s"
  "fdref (dispatch k s) = fdref s" "pref (dispatch k s) = pref s" "who (dispatch k s) = Some k"
  by (auto simp: dispatch_def)

lemma goto_fields [simp]:
  "pc (goto k q s) = (pc s)(k := q)" "ring (goto k q s) = ring s" "put (goto k q s) = put s" "got (goto k q s) = got s"
  "rdone (goto k q s) = rdone s" "wdone (goto k q s) = wdone s" "nproc (goto k q s) = nproc s"
  "fdref (goto k q s) = fdref s" "pref (goto k q s) = pref s" "runs (goto k q s) = runs s" "who (goto k q s) = who s"
  by (auto simp: goto_def)

section \<open>What was delivered and what was accepted\<close>

lemma delivered_goto:
  assumes "pc s' = (pc s)(k := q)" "bytes_read q = bytes_read (pc s k)" "rdone s' = rdone s" "nproc s' = nproc s"
  shows "delivered s' = delivered s"
proof -
  have "(\<lambda>j. bytes_read (pc s' j)) = (\<lambda>j. bytes_read (pc s j))" using assms(1,2) by auto
  then show ?thesis using assms(3,4) by (simp add: delivered_def)
qed

lemma delivered_now:
  assumes "solo s" "k < nproc s" "in_read (pc s k) \<noteq> None" "pc s' = (pc s)(k := q)" "nproc s' = nproc s"
  shows "concat (map (\<lambda>j. bytes_read (pc s' j)) [0..<nproc s']) = bytes_read q"
proof -
  have "concat (map (\<lambda>j. bytes_read (pc s' j)) [0..<nproc s']) = bytes_read (pc s' k)"
    using solo_read_others [OF assms(1-3)] assms(2,4,5) by (intro concat_one) (auto simp: bytes_read_def)
  then show ?thesis using assms(4) by simp
qed

lemma delivered_push:
  assumes "solo s" "k < nproc s" "in_read (pc s k) \<noteq> None" "pc s' = (pc s)(k := q)"
    "bytes_read q = bytes_read (pc s k) @ [b]" "rdone s' = rdone s" "nproc s' = nproc s"
  shows "delivered s' = delivered s @ [b]"
  using delivered_now [OF assms(1-4,7)] delivered_now [OF assms(1-3), of s "pc s k"] assms(5,6)
  by (simp add: delivered_def)

lemma delivered_return:
  assumes "solo s" "k < nproc s" "in_read (pc s k) \<noteq> None" "pc s' = (pc s)(k := Idle)"
    "rdone s' = rdone s @ [(n, bs)]" "bs = bytes_read (pc s k)" "nproc s' = nproc s"
  shows "delivered s' = delivered s"
  using delivered_now [OF assms(1-4,7)] delivered_now [OF assms(1-3), of s "pc s k"] assms(5,6)
  by (simp add: delivered_def bytes_read_def)

lemma accepted_goto:
  assumes "pc s' = (pc s)(k := q)" "bytes_written q = bytes_written (pc s k)" "wdone s' = wdone s" "nproc s' = nproc s"
  shows "accepted s' = accepted s"
proof -
  have "(\<lambda>j. bytes_written (pc s' j)) = (\<lambda>j. bytes_written (pc s j))" using assms(1,2) by auto
  then show ?thesis using assms(3,4) by (simp add: accepted_def)
qed

lemma accepted_now:
  assumes "solo s" "k < nproc s" "in_write (pc s k) \<noteq> None" "pc s' = (pc s)(k := q)" "nproc s' = nproc s"
  shows "concat (map (\<lambda>j. bytes_written (pc s' j)) [0..<nproc s']) = bytes_written q"
proof -
  have "concat (map (\<lambda>j. bytes_written (pc s' j)) [0..<nproc s']) = bytes_written (pc s' k)"
    using solo_write_others [OF assms(1-3)] assms(2,4,5) by (intro concat_one) (auto simp: bytes_written_def)
  then show ?thesis using assms(4) by simp
qed

lemma accepted_push:
  assumes "solo s" "k < nproc s" "in_write (pc s k) \<noteq> None" "pc s' = (pc s)(k := q)"
    "bytes_written q = bytes_written (pc s k) @ [b]" "wdone s' = wdone s" "nproc s' = nproc s"
  shows "accepted s' = accepted s @ [b]"
  using accepted_now [OF assms(1-4,7)] accepted_now [OF assms(1-3), of s "pc s k"] assms(5,6)
  by (simp add: accepted_def)

lemma accepted_return:
  assumes "solo s" "k < nproc s" "in_write (pc s k) \<noteq> None" "pc s' = (pc s)(k := Idle)"
    "wdone s' = wdone s @ [(bs, i, r)]" "take i bs = bytes_written (pc s k)" "nproc s' = nproc s"
  shows "accepted s' = accepted s"
  using accepted_now [OF assms(1-4,7)] accepted_now [OF assms(1-3), of s "pc s k"] assms(5,6)
  by (simp add: accepted_def bytes_written_def)

definition logged :: "psys \<Rightarrow> bool" where
  "logged s \<longleftrightarrow> delivered s = got s \<and> accepted s = put s"

lemma logged_goto:
  assumes "logged s" "pc s' = (pc s)(k := q)" "bytes_read q = bytes_read (pc s k)" "bytes_written q = bytes_written (pc s k)"
    "rdone s' = rdone s" "wdone s' = wdone s" "nproc s' = nproc s" "got s' = got s" "put s' = put s"
  shows "logged s'"
  using assms(1) delivered_goto [OF assms(2,3,5,7)] accepted_goto [OF assms(2,4,6,7)] assms(8,9) by (simp add: logged_def)

lemmas byte_simps = bytes_read_def bytes_written_def

section \<open>Each step keeps the queue\<close>

lemma pstep_call:
  assumes "pstep early (Call k c) s = Some s'" "pinv s" "logged s"
  shows "pinv s' \<and> logged s'"
proof -
  have g: "pc s k = Idle" and s': "s' = goto k (call_start c) (dispatch k s)"
    using assms(1) by (auto split: if_splits)
  have "pinv s'"
    by (rule pinv_goto [OF assms(2), of _ k "call_start c"]) (cases c; simp add: s')+
  moreover have "logged s'"
    by (rule logged_goto [OF assms(3), of _ k "call_start c"]) (cases c; simp add: s' g byte_simps)+
  ultimately show ?thesis by blast
qed

lemma pop_step:
  assumes "pinv s" "logged s" "solo s" "k < nproc s" "pc s k = RPos n bs r b"
    "s' = (goto k (RTest n (bs @ [b])) s)\<lparr>ring := (ring s)\<lparr>p_rpos := r + 1\<rparr>, got := got s @ [b]\<rparr>"
  shows "pinv s' \<and> logged s'"
proof -
  let ?p = "ring s" and ?p' = "(ring s)\<lparr>p_rpos := p_rpos (ring s) + 1\<rparr>"
  have p: "r = p_rpos ?p" "p_rpos ?p < p_wpos ?p" "b = p_buf ?p (slot (p_rpos ?p))" and ok: "ring_ok ?p"
    using assms(1,4,5) by (auto simp: pinv_def)
  have "at_point ?p' (pc s' j)" if "j < nproc s" for j
    using that assms(1,4-6) at_point_pop [OF _ _ ok p(2)] solo_read_others [OF assms(3,4)]
    by (cases "j = k") (auto simp: pinv_def)
  moreover have "ring_ok ?p'" "ring_bytes ?p = b # ring_bytes ?p'" using pop_byte [OF ok p(2)] p(3) by auto
  ultimately have "pinv s'" using assms(1) by (simp add: assms(6) pinv_def p(1))
  moreover have "delivered s' = delivered s @ [b]"
    by (rule delivered_push [OF assms(3,4), of _ "RTest n (bs @ [b])"]) (simp_all add: assms(5,6) byte_simps)
  moreover have "accepted s' = accepted s"
    by (rule accepted_goto [of _ _ k "RTest n (bs @ [b])"]) (simp_all add: assms(5,6) byte_simps)
  ultimately show ?thesis using assms(2,6) by (simp add: logged_def)
qed

lemma push_step:
  assumes "pinv s" "logged s" "solo s" "k < nproc s" "pc s k = WPos bs i w" "length (put s') < 2 ^ 32 - 32"
    "s' = (goto k (WTest bs (i + 1)) s)\<lparr>ring := (ring s)\<lparr>p_wpos := w + 1\<rparr>, put := put s @ [bs ! i]\<rparr>"
  shows "pinv s' \<and> logged s'"
proof -
  let ?p = "ring s" and ?p' = "(ring s)\<lparr>p_wpos := p_wpos (ring s) + 1\<rparr>"
  have p: "w = p_wpos ?p" "has_room ?p" "i < length bs" "p_buf ?p (slot (p_wpos ?p)) = bs ! i" and ok: "ring_ok ?p"
    using assms(1,4,5) by (auto simp: pinv_def)
  have l: "unat (p_wpos ?p) + 1 < 2 ^ 32 - 32" using assms(1,6,7) by (simp add: pinv_def)
  have "at_point ?p' (pc s' j)" if "j < nproc s" for j
    using that assms(1,4,5,7) p(3) at_point_push [OF _ _ ok p(2) l] solo_write_others [OF assms(3,4)]
    by (cases "j = k") (auto simp: pinv_def)
  moreover note push_byte [OF ok p(2,4) l]
  ultimately have "pinv s'" using assms(1) by (simp add: assms(7) pinv_def p(1))
  moreover have "accepted s' = accepted s @ [bs ! i]"
    by (rule accepted_push [OF assms(3,4), of _ "WTest bs (i + 1)"])
      (simp_all add: assms(5,7) byte_simps take_Suc_conv_app_nth p(3))
  moreover have "delivered s' = delivered s"
    by (rule delivered_goto [of _ _ k "WTest bs (i + 1)"]) (simp_all add: assms(5,7) byte_simps)
  ultimately show ?thesis using assms(2,7) by (simp add: logged_def)
qed

lemma store_step:
  assumes "pinv s" "logged s" "solo s" "k < nproc s" "pc s k = WByte bs i w"
    "s' = (goto k (WPos bs i w) s)\<lparr>ring := store_byte w (bs ! i) (ring s)\<rparr>"
  shows "pinv s' \<and> logged s'"
proof -
  let ?p = "ring s" and ?p' = "store_byte (p_wpos (ring s)) (bs ! i) (ring s)"
  have p: "w = p_wpos ?p" "has_room ?p" "i < length bs" and ok: "ring_ok ?p"
    using assms(1,4,5) by (auto simp: pinv_def)
  have "at_point ?p' (pc s' j)" if "j < nproc s" for j
    using that assms(1,4-6) p at_point_store [OF _ _ p(2)] solo_write_others [OF assms(3,4)]
    by (cases "j = k") (auto simp: pinv_def store_byte_def has_room_def)
  moreover have "p_wpos ?p' = p_wpos ?p" by (simp add: store_byte_def)
  moreover note store_byte_free [OF ok p(2)]
  ultimately have "pinv s'" using assms(1) by (simp add: assms(6) pinv_def p(1))
  moreover have "logged s'"
    by (rule logged_goto [OF assms(2), of _ k "WPos bs i w"]) (simp_all add: assms(5,6) byte_simps)
  ultimately show ?thesis by blast
qed

lemma dispatch_inv: "pinv (dispatch k s) = pinv s" "logged (dispatch k s) = logged s" "solo (dispatch k s) = solo s"
  by (simp_all add: pinv_def logged_def delivered_def accepted_def solo_def)

lemma goto_step:
  assumes "pinv s" "logged s" "at_point (ring s) q"
    "bytes_read q = bytes_read (pc s k)" "bytes_written q = bytes_written (pc s k)"
  shows "pinv (goto k q s) \<and> logged (goto k q s)"
  using pinv_goto [OF assms(1), of "goto k q s" k q] logged_goto [OF assms(2), of "goto k q s" k q] assms(3-5) by simp

lemma yield_inv: "pinv s \<and> logged s \<Longrightarrow> pinv (s\<lparr>who := None\<rparr>) \<and> logged (s\<lparr>who := None\<rparr>)"
  by (simp add: pinv_def logged_def delivered_def accepted_def)

lemma return_read_step:
  assumes "pinv s" "logged s" "solo s" "k < nproc s" "in_read (pc s k) = Some (n, bs)"
  shows "pinv (return_read k n bs s) \<and> logged (return_read k n bs s)"
proof -
  have "bytes_written (pc s k) = []" using assms(5) by (cases "pc s k") (auto simp: byte_simps)
  then have "accepted (return_read k n bs s) = accepted s"
    by (intro accepted_goto [of _ _ k Idle]) (simp_all add: return_read_def byte_simps)
  moreover have "delivered (return_read k n bs s) = delivered s"
    by (rule delivered_return [OF assms(3,4), of _ n bs]) (use assms(5) in \<open>auto simp: return_read_def byte_simps\<close>)
  moreover have "pinv (return_read k n bs s)"
    by (rule pinv_goto [OF assms(1), of _ k Idle]) (simp_all add: return_read_def)
  ultimately show ?thesis using assms(2) by (simp add: logged_def return_read_def)
qed

lemma return_write_step:
  assumes "pinv s" "logged s" "solo s" "k < nproc s" "in_write (pc s k) = Some (bs, i)"
  shows "pinv (return_write k bs i r s) \<and> logged (return_write k bs i r s)"
proof -
  have "bytes_read (pc s k) = []" using assms(5) by (cases "pc s k") (auto simp: byte_simps)
  then have "delivered (return_write k bs i r s) = delivered s"
    by (intro delivered_goto [of _ _ k Idle]) (simp_all add: return_write_def byte_simps)
  moreover have "accepted (return_write k bs i r s) = accepted s"
    by (rule accepted_return [OF assms(3,4), of _ bs i r]) (use assms(5) in \<open>auto simp: return_write_def byte_simps\<close>)
  moreover have "pinv (return_write k bs i r s)"
    by (rule pinv_goto [OF assms(1), of _ k Idle]) (simp_all add: return_write_def)
  ultimately show ?thesis using assms(2) by (simp add: logged_def return_write_def)
qed

lemma pstep_read:
  assumes "pinv s" "logged s" "solo s" "k < nproc s" "piperead_step False k s (pc s k) = Some s'"
  shows "pinv s' \<and> logged s'"
proof (cases "pc s k")
  case q: (RTest n bs)
  show ?thesis
  proof (cases "n \<le> length bs")
    case True
    then show ?thesis using return_read_step [OF assms(1-4), of n bs] assms(5) q by simp
  next
    case False
    then have "s' = goto k (if pipe_empty (ring s) then RClosed n bs Cruns else RByte n bs (p_rpos (ring s))) s"
      using assms(5) q by auto
    then show ?thesis using goto_step [OF assms(1,2)] q by (auto simp: byte_simps pipe_empty_def not_le)
  qed
next
  case q: (RClosed n bs c)
  then show ?thesis
    using return_read_step [OF assms(1-4), of n bs] goto_step [OF assms(1,2), of _ k] assms(5)
      yield_inv [OF goto_step [OF assms(1,2)], of "RTest n bs" k]
    by (auto simp: byte_simps split: sum.splits if_splits)
next
  case q: (RByte n bs r)
  have "at_point (ring s) (RPos n bs r (p_buf (ring s) (slot r)))" using assms(1,4) q by (auto simp: pinv_def)
  then show ?thesis using goto_step [OF assms(1,2), of "RPos n bs r (p_buf (ring s) (slot r))" k] assms(5) q
    by (auto simp: byte_simps)
next
  case q: (RPos n bs r b)
  then show ?thesis using pop_step [OF assms(1-4) q] assms(5) by simp
qed (use assms in \<open>auto simp: pinv_def\<close>)

lemma pstep_write:
  assumes "pinv s" "logged s" "solo s" "k < nproc s" "pipewrite_step False k s (pc s k) = Some s'"
    "length (put s') < 2 ^ 32 - 32"
  shows "pinv s' \<and> logged s'"
proof (cases "pc s k")
  case q: (WTest bs i)
  have ok: "ring_ok (ring s)" using assms(1) by (simp add: pinv_def)
  show ?thesis
  proof (cases "length bs \<le> i")
    case True
    then show ?thesis using return_write_step [OF assms(1-4), of bs i i] assms(5) q by (auto simp del: One_nat_def)
  next
    case False
    then have "s' = goto k (if pipe_full (ring s) then WClosed bs i Cruns else WByte bs i (p_wpos (ring s))) s"
      using assms(5) q by auto
    then show ?thesis using goto_step [OF assms(1,2)] not_full_room [OF ok] False q by (auto simp: byte_simps)
  qed
next
  case q: (WClosed bs i c)
  have "i < length bs" using assms(1,4) q by (auto simp: pinv_def)
  then show ?thesis
    using return_write_step [OF assms(1-4), of bs i 0] goto_step [OF assms(1,2), of _ k] assms(5) q
      yield_inv [OF goto_step [OF assms(1,2)], of "WTest bs i" k]
    by (auto simp: byte_simps split: sum.splits if_splits)
next
  case q: (WByte bs i w)
  then show ?thesis using store_step [OF assms(1-4) q] assms(5) by simp
next
  case q: (WPos bs i w)
  then show ?thesis using push_step [OF assms(1-4) q assms(6)] assms(5) by simp
qed (use assms in \<open>auto simp: pinv_def\<close>)

lemma mop_fields:
  "mop_step m s = Some s' \<Longrightarrow> pc s' = pc s \<and> ring s' = ring s \<and> put s' = put s \<and> got s' = got s \<and> rdone s' = rdone s
     \<and> wdone s' = wdone s \<and> nproc s' = nproc s \<and> runs s' = runs s \<and> who s' = who s"
  by (cases m) (auto split: if_splits)

lemma pstep_ops:
  assumes "pinv s" "logged s" "pc s k = Ops ms" "ops_step k s ms = Some s'"
  shows "pinv s' \<and> logged s'"
proof -
  obtain q s1 where s': "s' = goto k q s1" "q = Idle \<or> q = Ops (tl ms)" "s1 = s \<or> mop_step (hd ms) s = Some s1"
    using assms(4) by (cases ms) (auto split: option.splits)
  then have f: "pc s1 = pc s \<and> ring s1 = ring s \<and> put s1 = put s \<and> got s1 = got s \<and> rdone s1 = rdone s
     \<and> wdone s1 = wdone s \<and> nproc s1 = nproc s" using mop_fields by blast
  have "pinv s'" by (rule pinv_goto [OF assms(1), of _ k q]) (use s'(1,2) f in auto)
  moreover have "logged s'"
    by (rule logged_goto [OF assms(2), of _ k q]) (use s'(1,2) f assms(3) in \<open>auto simp: byte_simps\<close>)
  ultimately show ?thesis by blast
qed

lemma call_step_cases:
  assumes "call_step early k s = Some s'"
  obtains "piperead_step early k s (pc s k) = Some s'"
    | "piperead_step early k s (pc s k) = None" "pipewrite_step early k s (pc s k) = Some s'"
    | ms where "pc s k = Ops ms" "ops_step k s ms = Some s'"
  using assms by (auto simp: call_step_def split: upc.splits option.splits)

lemma pstep_inv:
  assumes "pstep False a s = Some s'" "pinv s" "logged s" "solo s" "length (put s') < 2 ^ 32 - 32"
  shows "pinv s' \<and> logged s'"
proof (cases a)
  case (Call k c)
  then show ?thesis using pstep_call assms(1-3) by blast
next
  case (Step k)
  let ?s = "dispatch k s"
  have i: "pinv ?s" "logged ?s" "solo ?s" using assms(2-4) by (simp_all add: dispatch_inv)
  have k: "k < nproc ?s" and c: "call_step False k ?s = Some s'" using assms(1) Step by (auto split: if_splits)
  show ?thesis
    by (rule call_step_cases [OF c])
      (use pstep_read [OF i k] pstep_write [OF i k _ assms(5)] pstep_ops [OF i(1,2)] in blast)+
next
  case Tick
  then show ?thesis using assms(1-3) by (auto simp: pinv_def logged_def delivered_def accepted_def)
qed

lemma put_grows: "pstep early a s = Some s' \<Longrightarrow> length (put s) \<le> length (put s')"
proof (cases a)
  case (Step k)
  assume "pstep early a s = Some s'"
  then have c: "call_step early k (dispatch k s) = Some s'" using Step by (auto split: if_splits)
  show ?thesis
  proof (rule call_step_cases [OF c])
    assume "piperead_step early k (dispatch k s) (pc (dispatch k s) k) = Some s'"
    then show ?thesis by (cases "pc s k") (auto simp: return_read_def Let_def split: if_splits sum.splits)
  next
    assume "pipewrite_step early k (dispatch k s) (pc (dispatch k s) k) = Some s'"
    then show ?thesis by (cases "pc s k") (auto simp: return_write_def split: if_splits sum.splits)
  next
    fix ms assume "ops_step k (dispatch k s) ms = Some s'"
    then show ?thesis by (cases ms) (auto dest: mop_fields split: option.splits)
  qed
qed (auto split: if_splits)

lemma prun_Cons: "prun early (a # as) s = Option.bind (pstep early a s) (prun early as)"
  by (cases "pstep early a s") (simp_all add: prun_def)

lemma prun_Nil [simp]: "prun early [] s = Some s"
  by (simp add: prun_def)

lemma prun_grows: "prun early acts s = Some s' \<Longrightarrow> length (put s) \<le> length (put s')"
proof (induction acts arbitrary: s)
  case (Cons a acts)
  then obtain s1 where "pstep early a s = Some s1" "prun early acts s1 = Some s'" by (auto simp: prun_Cons bind_eq_Some_conv)
  then show ?case using Cons.IH put_grows le_trans by blast
qed simp

lemma prun_inv:
  "prun False acts s = Some s' \<Longrightarrow> solo_run False acts s \<Longrightarrow> pinv s \<Longrightarrow> logged s \<Longrightarrow> length (put s') < 2 ^ 32 - 32
     \<Longrightarrow> pinv s' \<and> logged s'"
proof (induction acts arbitrary: s)
  case (Cons a acts)
  then obtain s1 where s1: "pstep False a s = Some s1" "prun False acts s1 = Some s'"
    by (auto simp: prun_Cons bind_eq_Some_conv)
  then have l: "length (put s1) < 2 ^ 32 - 32" using prun_grows [OF s1(2)] Cons.prems(5) by simp
  have "solo s" "solo_run False acts s1" using Cons.prems(2) s1(1) by auto
  then show ?case using Cons.IH [OF s1(2)] pstep_inv [OF s1(1) Cons.prems(3,4) _ l] Cons.prems(5) by blast
qed simp

lemma new_pipe_inv: "pinv (new_pipe n rs)" "logged (new_pipe n rs)"
proof -
  have "concat (map f [0..<n]) = []" if "\<And>j. f j = []" for f :: "nat \<Rightarrow> u8 list" using that by simp
  then show "logged (new_pipe n rs)" by (simp add: logged_def delivered_def accepted_def new_pipe_def byte_simps)
  show "pinv (new_pipe n rs)" by (simp add: pinv_def new_pipe_def ring_ok_def ring_bytes_def)
qed

text \<open>
  C26. Any number of environments read and write, close, \<open>dup\<close> and fork a pipe, preempted at any
  access of the shared data, such that at each time at most one read and at most one write is
  under way, the position is stored after its byte has moved, and fewer than \<open>2 ^ 32 - 32\<close> bytes
  are written. Then the pipe is a queue of 32 bytes: what the reads have delivered, in order,
  followed by what is in the ring is what the writes have accepted, in order.
\<close>

theorem pipe_is_fifo:
  assumes "prun False acts (new_pipe n rs) = Some s" "solo_run False acts (new_pipe n rs)"
    "length (put s) < 2 ^ 32 - 32"
  shows "delivered s @ ring_bytes (ring s) = accepted s \<and> length (ring_bytes (ring s)) \<le> 32
    \<and> unat (pipe_size (ring s)) = length (accepted s) - length (delivered s)"
proof -
  have "pinv s \<and> logged s" by (rule prun_inv [OF assms(1,2) new_pipe_inv assms(3)])
  then have i: "got s @ ring_bytes (ring s) = put s" "delivered s = got s" "accepted s = put s"
    and o: "p_rpos (ring s) \<le> p_wpos (ring s)" "unat (p_wpos (ring s)) \<le> unat (p_rpos (ring s)) + 32"
    by (auto simp: pinv_def ring_ok_def logged_def)
  have b: "length (ring_bytes (ring s)) = unat (p_wpos (ring s)) - unat (p_rpos (ring s))"
    by (simp add: ring_bytes_def)
  moreover have "unat (pipe_size (ring s)) = unat (p_wpos (ring s)) - unat (p_rpos (ring s))"
    using o(1) by (simp add: pipe_size_def unat_sub)
  moreover have "length (put s) = length (got s) + length (ring_bytes (ring s))"
    using i(1) by (metis length_append)
  ultimately show ?thesis using i o(2) by simp
qed

definition demo_acts :: "pact list" where
  "demo_acts = [Call 0 (PWrite [7, 8]), Step 0, Step 0, Call 2 (PFork [Rd, Wr]), Step 2, Call 1 (PRead 5), Step 0, Step 1, Step 1,
     Step 0, Step 2, Step 0, Step 1, Step 0, Step 2, Step 1, Step 2, Step 1, Step 1]"

text \<open>A third environment forks while the first writes two bytes and the second reads them.\<close>

theorem pipe_is_fifo_witness:
  "\<exists>s. prun False demo_acts (new_pipe 3 (\<lambda>_. 0)) = Some s \<and> delivered s @ ring_bytes (ring s) = [7, 8] \<and> pref s = 4"
proof -
  have "case prun False demo_acts (new_pipe 3 (\<lambda>_. 0)) of
      Some s \<Rightarrow> length (put s) = 2 \<and> accepted s = [7, 8] \<and> pref s = 4 | None \<Rightarrow> False" by code_simp
  then obtain s where s: "prun False demo_acts (new_pipe 3 (\<lambda>_. 0)) = Some s" "length (put s) = 2"
    "accepted s = [7, 8]" "pref s = 4"
    by (auto split: option.splits)
  have "solo_run False demo_acts (new_pipe 3 (\<lambda>_. 0))" by code_simp
  then show ?thesis using pipe_is_fifo [OF s(1)] s by auto
qed

text \<open>
  Each of the conditions is needed. When the compiler stores the position first, a reader between
  the two stores of the writer fetches a byte that is not there yet. Two reads at the same time
  get the same byte twice.
\<close>

lemma early_position_breaks_fifo:
  "\<exists>s. prun True ([Call 0 (PWrite [7]), Step 0, Step 0, Call 1 (PRead 1)] @ replicate 4 (Step 1) @ [Step 0])
         (new_pipe 2 (\<lambda>_. 0)) = Some s
     \<and> rdone s = [(1, [0])] \<and> put s = [7]"
proof -
  have "case prun True ([Call 0 (PWrite [7]), Step 0, Step 0, Call 1 (PRead 1)] @ replicate 4 (Step 1) @ [Step 0])
         (new_pipe 2 (\<lambda>_. 0)) of Some s \<Rightarrow> rdone s = [(1, [0])] \<and> put s = [7] | None \<Rightarrow> False" by code_simp
  then show ?thesis by (auto split: option.splits)
qed

lemma two_reads_get_one_byte:
  "\<exists>s. prun False ([Call 0 (PWrite [7])] @ replicate 3 (Step 0) @ [Call 1 (PRead 1), Call 2 (PRead 1), Step 1, Step 2,
         Step 1, Step 2, Step 1, Step 2, Step 1, Step 2]) (new_pipe 3 (\<lambda>_. 0)) = Some s
     \<and> rdone s = [(1, [7]), (1, [7])] \<and> put s = [7]"
proof -
  have "case prun False ([Call 0 (PWrite [7])] @ replicate 3 (Step 0) @ [Call 1 (PRead 1), Call 2 (PRead 1), Step 1, Step 2,
         Step 1, Step 2, Step 1, Step 2, Step 1, Step 2]) (new_pipe 3 (\<lambda>_. 0)) of
      Some s \<Rightarrow> rdone s = [(1, [7]), (1, [7])] \<and> put s = [7] | None \<Rightarrow> False" by code_simp
  then show ?thesis by (auto split: option.splits)
qed

section \<open>The end of a pipe\<close>

fun mop_weight :: "mop \<Rightarrow> int" where
  "mop_weight (UnmapFd d) = -1"
| "mop_weight UnmapData = 1"
| "mop_weight (MapFd d) = 1"
| "mop_weight MapData = -1"

text \<open>
  By how much the count of the page of the pipe exceeds the counts of the \<open>Fd\<close> pages, for the
  mappings that an environment has still to change.
\<close>

fun pc_weight :: "upc \<Rightarrow> int" where
  "pc_weight (Ops ms) = sum_list (map mop_weight ms)"
| "pc_weight q = 0"

definition is_fork :: "pact \<Rightarrow> bool" where
  "is_fork a \<longleftrightarrow> (case a of Call k (PFork ds) \<Rightarrow> True | _ \<Rightarrow> False)"

text \<open>What is left of a \<open>close\<close> or a \<open>dup\<close>: never does the page of the pipe have too few references.\<close>

definition no_fork_ops :: "upc \<Rightarrow> bool" where
  "no_fork_ops q \<longleftrightarrow> (\<forall>ms. q = Ops ms \<longrightarrow>
     ms = [] \<or> ms = [UnmapData] \<or> (\<exists>d. ms = [MapFd d] \<or> ms = pipeclose_ops d \<or> ms = dup_ops d))"

lemma no_fork_weight: "no_fork_ops q \<Longrightarrow> 0 \<le> pc_weight q"
  by (cases q) (auto simp: no_fork_ops_def pipeclose_ops_def dup_ops_def)

text \<open>
  What an environment that is in \<open>_pipeisclosed\<close> has read, at most \<open>m\<close> steps after it began: as
  long as it has not lost the processor since, the count that it read is still the count.
\<close>

fun cpc_ok :: "nat \<Rightarrow> nat \<Rightarrow> fdside \<Rightarrow> fdside \<Rightarrow> psys \<Rightarrow> cpc \<Rightarrow> bool" where
  "cpc_ok m k d e s Cruns \<longleftrightarrow> True"
| "cpc_ok m k d e s (Cfd t) \<longleftrightarrow> (\<exists>n \<le> m. runs s k = t + of_nat n)"
| "cpc_ok m k d e s (Cpage t rf) \<longleftrightarrow> (\<exists>n \<le> m. runs s k = t + of_nat n \<and> (n = 0 \<and> who s = Some k \<longrightarrow> rf = fdref s d))"
| "cpc_ok m k d e s (Cagain t r) \<longleftrightarrow> (\<exists>n \<le> m. runs s k = t + of_nat n \<and> (n = 0 \<and> r \<longrightarrow> fdref s e = 0))"

fun asks_ok :: "nat \<Rightarrow> nat \<Rightarrow> psys \<Rightarrow> upc \<Rightarrow> bool" where
  "asks_ok m k s (RClosed n bs c) = cpc_ok m k Rd Wr s c"
| "asks_ok m k s (WClosed bs i c) = cpc_ok m k Wr Rd s c"
| "asks_ok m k s q = True"

definition einv :: "nat \<Rightarrow> psys \<Rightarrow> bool" where
  "einv m s \<longleftrightarrow> int (pref s) = int (fdref s Rd) + int (fdref s Wr) + (\<Sum>j < nproc s. pc_weight (pc s j))
     \<and> (\<forall>k < nproc s. no_fork_ops (pc s k) \<and> asks_ok m k s (pc s k))
     \<and> ((\<exists>n. (Suc n, []) \<in> set (rdone s)) \<longrightarrow> fdref s Wr = 0)
     \<and> ((\<exists>b bs i. (b # bs, i, 0) \<in> set (wdone s)) \<longrightarrow> fdref s Rd = 0)"

lemma sum_upd:
  fixes f :: "upc \<Rightarrow> int" and p :: "nat \<Rightarrow> upc" and n :: nat
  shows "k < n \<Longrightarrow> (\<Sum>j < n. f ((p(k := q)) j)) = (\<Sum>j < n. f (p j)) - f (p k) + f q"
proof (induction n)
  case (Suc n)
  show ?case
  proof (cases "k = n")
    case True
    then have "(\<Sum>j < n. f ((p(k := q)) j)) = (\<Sum>j < n. f (p j))" by (intro sum.cong) auto
    then show ?thesis using True by simp
  next
    case False
    then show ?thesis using Suc by simp
  qed
qed simp

lemma cpc_dispatch: "cpc_ok m j d e s c \<Longrightarrow> cpc_ok (Suc m) j d e (dispatch k s) c"
proof -
  assume h: "cpc_ok m j d e s c"
  have r: "\<exists>n \<le> Suc m. runs (dispatch k s) j = t + of_nat n \<and> (n = 0 \<longrightarrow> P)"
    if n: "n \<le> m" "runs s j = t + of_nat n" "n = 0 \<longrightarrow> P" for n t P
  proof (cases "who s \<noteq> Some k \<and> j = k")
    case True
    then have "runs (dispatch k s) j = t + of_nat (Suc n)" using n(2) by (simp add: dispatch_def)
    then show ?thesis using n(1) by blast
  next
    case False
    then have "runs (dispatch k s) j = runs s j" by (auto simp: dispatch_def)
    then show ?thesis using n by (intro exI [of _ n]) auto
  qed
  show ?thesis
  proof (cases c)
    case (Cpage t rf)
    then obtain n where n: "n \<le> m" "runs s j = t + of_nat n" "n = 0 \<and> who s = Some j \<longrightarrow> rf = fdref s d" using h by auto
    show ?thesis
    proof (cases "who s = Some j \<or> j \<noteq> k")
      case True
      then have "runs (dispatch k s) j = runs s j" by (auto simp: dispatch_def)
      then show ?thesis using n True Cpage by (auto intro: exI [of _ n])
    next
      case False
      then have "who s \<noteq> Some k" "j = k" by auto
      then have "runs (dispatch k s) j = t + of_nat (Suc n)" using n(2) by (simp add: dispatch_def)
      then show ?thesis using n(1) Cpage by (auto intro: exI [of _ "Suc n"] simp del: of_nat_Suc)
    qed
  next
    case (Cfd t)
    then obtain n where "n \<le> m" "runs s j = t + of_nat n" using h by auto
    then show ?thesis using r [of n t True] Cfd by auto
  next
    case (Cagain t cl)
    then obtain n where "n \<le> m" "runs s j = t + of_nat n" "n = 0 \<longrightarrow> (cl \<longrightarrow> fdref s e = 0)" using h by auto
    from r [OF this] show ?thesis using Cagain by auto
  qed simp
qed

lemma dispatch_einv: "einv m s \<Longrightarrow> einv (Suc m) (dispatch k s)"
proof -
  assume h: "einv m s"
  have "asks_ok (Suc m) j (dispatch k s) (pc s j)" if "asks_ok m j s (pc s j)" for j
    using that cpc_dispatch by (cases "pc s j") auto
  then show ?thesis using h by (auto simp: einv_def)
qed

lemma cpc_frame:
  assumes "cpc_ok m j d e s c" "runs s' = runs s" "who s' \<noteq> Some j" "fdref s e = 0 \<longrightarrow> fdref s' e = 0"
  shows "cpc_ok m j d e s' c"
  using assms by (cases c) auto

lemma asks_frame:
  assumes "asks_ok m j s q" "runs s' = runs s" "who s' \<noteq> Some j" "\<And>e. fdref s e = 0 \<Longrightarrow> fdref s' e = 0"
  shows "asks_ok m j s' q"
  using assms cpc_frame by (cases q) auto

lemma einv_frame:
  assumes "einv m s" "k < nproc s" "pc s' = (pc s)(k := q)" "nproc s' = nproc s" "runs s' = runs s"
    "\<And>e. fdref s e = 0 \<Longrightarrow> fdref s' e = 0" "who s' = None \<or> who s' = Some k"
    "int (pref s') - int (fdref s' Rd) - int (fdref s' Wr) - pc_weight q
       = int (pref s) - int (fdref s Rd) - int (fdref s Wr) - pc_weight (pc s k)"
    "no_fork_ops q" "asks_ok m k s' q"
    "\<And>n. (Suc n, []) \<in> set (rdone s') \<Longrightarrow> (Suc n, []) \<in> set (rdone s) \<or> fdref s' Wr = 0"
    "\<And>b bs i. (b # bs, i, 0) \<in> set (wdone s') \<Longrightarrow> (b # bs, i, 0) \<in> set (wdone s) \<or> fdref s' Rd = 0"
  shows "einv m s'"
proof -
  have "asks_ok m j s' (pc s' j) \<and> no_fork_ops (pc s' j)" if j: "j < nproc s" for j
  proof (cases "j = k")
    case False
    then have "asks_ok m j s' (pc s j)"
      using assms(1,7) j by (intro asks_frame [OF _ assms(5) _ assms(6)]) (auto simp: einv_def)
    then show ?thesis using False assms(1,3) j by (simp add: einv_def)
  qed (use assms(3,9,10) in simp)
  moreover have "int (pref s') = int (fdref s' Rd) + int (fdref s' Wr) + (\<Sum>j < nproc s. pc_weight (pc s' j))"
    using assms(1,8) unfolding assms(3) sum_upd [OF assms(2)] by (simp add: einv_def)
  moreover have "(\<exists>n. (Suc n, []) \<in> set (rdone s')) \<longrightarrow> fdref s' Wr = 0"
    using assms(1) assms(6) [of Wr] assms(11) by (auto simp: einv_def)
  moreover have "(\<exists>b bs i. (b # bs, i, 0) \<in> set (wdone s')) \<longrightarrow> fdref s' Rd = 0"
    using assms(1) assms(6) [of Rd] assms(12) unfolding einv_def by blast
  ultimately show ?thesis using assms(4) unfolding einv_def by simp
qed

lemma cpc_goto [simp]: "cpc_ok m k d e (goto j q s) c = cpc_ok m k d e s c"
  by (cases c) auto

text \<open>An answer of \<open>_pipeisclosed\<close> is right.\<close>

lemma isclosed_sound:
  assumes "cpc_ok m k d e s c" "who s = Some k" "m < 2 ^ 32" "fdref s d + fdref s e \<le> pref s"
  shows "pipeisclosed_step k d s c = Inl c' \<Longrightarrow> cpc_ok m k d e s c'"
    "pipeisclosed_step k d s c = Inr True \<Longrightarrow> fdref s e = 0"
proof -
  assume h: "pipeisclosed_step k d s c = Inl c'"
  show "cpc_ok m k d e s c'"
  proof (cases c)
    case Cruns
    then have c': "c' = Cfd (runs s k)" using h by simp
    show ?thesis unfolding c' cpc_ok.simps by (rule exI [of _ 0]) simp
  next
    case (Cfd t)
    then show ?thesis using h assms(1) by auto
  next
    case (Cpage t rf)
    then obtain n where n: "n \<le> m" "runs s k = t + of_nat n" "n = 0 \<longrightarrow> rf = fdref s d" using assms(1,2) by auto
    have "n = 0 \<and> rf = pref s \<longrightarrow> fdref s e = 0" using n(3) assms(4) by arith
    then show ?thesis using h n(1,2) Cpage by auto
  next
    case (Cagain t r)
    then have "c' = Cruns" using h by (simp split: if_splits)
    then show ?thesis by simp
  qed
next
  assume h: "pipeisclosed_step k d s c = Inr True"
  then obtain t where c: "c = Cagain t True" "t = runs s k" by (cases c) (auto split: if_splits)
  then obtain n where n: "n \<le> m" "(of_nat n :: u32) = 0" "n = 0 \<longrightarrow> fdref s e = 0" using assms(1) by auto
  have "n = unat (of_nat n :: u32)" using n(1) assms(3) by (simp add: unat_of_nat_u32)
  then show "fdref s e = 0" using n(2,3) by simp
qed

lemma einv_counts: "einv m s \<Longrightarrow> fdref s Rd + fdref s Wr \<le> pref s"
proof -
  assume h: "einv m s"
  then have "0 \<le> (\<Sum>j < nproc s. pc_weight (pc s j))" by (intro sum_nonneg) (auto simp: einv_def intro: no_fork_weight)
  then have "int (fdref s Rd + fdref s Wr) \<le> int (pref s)" using h by (simp add: einv_def)
  then show ?thesis by linarith
qed

lemma einv_goto:
  assumes "einv m s" "k < nproc s" "who s = Some k" "pc s' = (pc s)(k := q)" "pc_weight q = pc_weight (pc s k)"
    "no_fork_ops q" "asks_ok m k s' q" "nproc s' = nproc s" "runs s' = runs s" "who s' = who s \<or> who s' = None"
    "fdref s' = fdref s" "pref s' = pref s" "rdone s' = rdone s" "wdone s' = wdone s"
  shows "einv m s'"
  by (rule einv_frame [OF assms(1,2,4)]) (use assms(3,5-14) in auto)

lemma no_fork_simps [simp]: "no_fork_ops Idle" "no_fork_ops (RTest n bs)" "no_fork_ops (RClosed n bs c)"
  "no_fork_ops (RByte n bs r)" "no_fork_ops (RPos n bs r b)" "no_fork_ops (RPosEarly n bs r)" "no_fork_ops (RByteLate n bs r)"
  "no_fork_ops (WTest ws i)" "no_fork_ops (WClosed ws i c)" "no_fork_ops (WByte ws i w)" "no_fork_ops (WPos ws i w)"
  "no_fork_ops (WPosEarly ws i w)" "no_fork_ops (WByteLate ws i w)" "no_fork_ops (Ops [])" "no_fork_ops (Ops [UnmapData])"
  "no_fork_ops (Ops [MapFd d])" "no_fork_ops (Ops (pipeclose_ops d))" "no_fork_ops (Ops (dup_ops d))"
  by (auto simp: no_fork_ops_def)

lemma einv_return_read:
  assumes "einv m s" "k < nproc s" "who s = Some k" "pc_weight (pc s k) = 0" "bs = [] \<and> 0 < n \<Longrightarrow> fdref s Wr = 0"
  shows "einv m (return_read k n bs s)"
  by (rule einv_frame [OF assms(1,2), of _ Idle]) (use assms in \<open>auto simp: return_read_def\<close>)

lemma einv_return_write:
  assumes "einv m s" "k < nproc s" "who s = Some k" "pc_weight (pc s k) = 0" "bs \<noteq> [] \<and> r = 0 \<Longrightarrow> fdref s Rd = 0"
  shows "einv m (return_write k bs i r s)"
  by (rule einv_frame [OF assms(1,2), of _ Idle]) (use assms in \<open>auto simp: return_write_def\<close>)

lemma einv_read:
  assumes "einv m s" "k < nproc s" "who s = Some k" "m < 2 ^ 32" "piperead_step early k s (pc s k) = Some s'"
  shows "einv m s'"
proof (cases "pc s k")
  case q: (RClosed n bs c)
  have c: "cpc_ok m k Rd Wr s c" using assms(1,2) q by (auto simp: einv_def)
  note a = isclosed_sound [OF c assms(3,4) einv_counts [OF assms(1)]]
  show ?thesis
  proof (cases "pipeisclosed_step k Rd s c")
    case (Inl c')
    then show ?thesis using assms(3,5) q a(1) by (auto intro!: einv_goto [OF assms(1-3), of _ "RClosed n bs c'"])
  next
    case (Inr cl)
    show ?thesis
    proof (cases "\<not> cl \<and> bs = []")
      case True
      then show ?thesis using assms(3,5) q Inr by (auto intro!: einv_goto [OF assms(1-3), of _ "RTest n []"])
    next
      case False
      then have "s' = return_read k n bs s" using assms(5) q Inr by (auto split: if_splits)
      then show ?thesis using einv_return_read [OF assms(1-3)] q a(2) Inr False by auto
    qed
  qed
next
  case q: (RTest n bs)
  show ?thesis
  proof (cases "n \<le> length bs")
    case True
    then have "s' = return_read k n bs s" using assms(5) q by simp
    then show ?thesis using q True by (auto intro!: einv_return_read [OF assms(1-3)])
  next
    case False
    then have "s' = goto k (if pipe_empty (ring s) then RClosed n bs Cruns
        else if early then RPosEarly n bs (p_rpos (ring s)) else RByte n bs (p_rpos (ring s))) s"
      using assms(5) q by auto
    then show ?thesis using q by (auto intro!: einv_goto [OF assms(1-3)])
  qed
next
  case q: (RByte n bs r)
  then show ?thesis using assms(5) by (auto intro!: einv_goto [OF assms(1-3)])
next
  case q: (RPos n bs r b)
  then show ?thesis using assms(5) by (auto intro!: einv_goto [OF assms(1-3), of _ "RTest n (bs @ [b])"])
next
  case q: (RPosEarly n bs r)
  then show ?thesis using assms(5) by (auto intro!: einv_goto [OF assms(1-3), of _ "RByteLate n bs r"])
next
  case q: (RByteLate n bs r)
  then show ?thesis
    using assms(5) by (auto simp: Let_def intro!: einv_goto [OF assms(1-3), of _ "RTest n (bs @ [p_buf (ring s) (slot r)])"])
qed (use assms(5) in auto)

lemma einv_write:
  assumes "einv m s" "k < nproc s" "who s = Some k" "m < 2 ^ 32" "pipewrite_step early k s (pc s k) = Some s'"
  shows "einv m s'"
proof (cases "pc s k")
  case q: (WClosed bs i c)
  have c: "cpc_ok m k Wr Rd s c" using assms(1,2) q by (auto simp: einv_def)
  have "fdref s Wr + fdref s Rd \<le> pref s" using einv_counts [OF assms(1)] by simp
  note a = isclosed_sound [OF c assms(3,4) this]
  show ?thesis
  proof (cases "pipeisclosed_step k Wr s c")
    case (Inl c')
    then show ?thesis using assms(3,5) q a(1) by (auto intro!: einv_goto [OF assms(1-3), of _ "WClosed bs i c'"])
  next
    case (Inr cl)
    show ?thesis
    proof (cases cl)
      case False
      then show ?thesis using assms(3,5) q Inr by (auto intro!: einv_goto [OF assms(1-3), of _ "WTest bs i"])
    next
      case True
      then have "s' = return_write k bs i 0 s" using assms(5) q Inr by auto
      then show ?thesis using q a(2) Inr True by (auto intro!: einv_return_write [OF assms(1-3)])
    qed
  qed
next
  case q: (WTest bs i)
  show ?thesis
  proof (cases "length bs \<le> i")
    case True
    then have "s' = return_write k bs i i s" using assms(5) q by simp
    then show ?thesis using q True by (auto intro!: einv_return_write [OF assms(1-3)])
  next
    case False
    then have "s' = goto k (if pipe_full (ring s) then WClosed bs i Cruns
        else if early then WPosEarly bs i (p_wpos (ring s)) else WByte bs i (p_wpos (ring s))) s"
      using assms(5) q by auto
    then show ?thesis using q by (auto intro!: einv_goto [OF assms(1-3)])
  qed
next
  case q: (WByte bs i w)
  then show ?thesis using assms(5) by (auto intro!: einv_goto [OF assms(1-3), of _ "WPos bs i w"])
next
  case q: (WPos bs i w)
  then show ?thesis using assms(5) by (auto intro!: einv_goto [OF assms(1-3), of _ "WTest bs (i + 1)"])
next
  case q: (WPosEarly bs i w)
  then show ?thesis using assms(5) by (auto intro!: einv_goto [OF assms(1-3), of _ "WByteLate bs i w"])
next
  case q: (WByteLate bs i w)
  then show ?thesis using assms(5) by (auto intro!: einv_goto [OF assms(1-3), of _ "WTest bs (i + 1)"])
qed (use assms(5) in auto)

text \<open>One mapping of a \<open>close\<close> or a \<open>dup\<close>: the counts move as the weights say, and 0 stays 0.\<close>

lemma mop_counts:
  "mop_step m s = Some s' \<Longrightarrow> int (pref s') - int (fdref s' Rd) - int (fdref s' Wr)
       = int (pref s) - int (fdref s Rd) - int (fdref s Wr) - mop_weight m
     \<and> (\<forall>e. fdref s e = 0 \<longrightarrow> fdref s' e = 0)"
proof (cases m)
  case (UnmapFd d)
  assume "mop_step m s = Some s'"
  then show ?thesis using UnmapFd by (cases d) (auto split: if_splits)
next
  case (MapFd d)
  assume "mop_step m s = Some s'"
  then show ?thesis using MapFd by (cases d) (auto split: if_splits)
qed (auto split: if_splits)

lemma no_fork_tl: "no_fork_ops (Ops (m # ms)) \<Longrightarrow> no_fork_ops (Ops ms)"
  by (auto simp: no_fork_ops_def pipeclose_ops_def dup_ops_def)

lemma einv_ops:
  assumes "einv m s" "k < nproc s" "who s = Some k" "pc s k = Ops ms" "ops_step k s ms = Some s'"
  shows "einv m s'"
proof (cases ms)
  case Nil
  then show ?thesis using assms(4,5) by (auto intro!: einv_goto [OF assms(1-3)])
next
  case (Cons x xs)
  then obtain s1 where s1: "mop_step x s = Some s1" "s' = goto k (Ops xs) s1" using assms(5) by auto
  have nf: "no_fork_ops (Ops xs)" using assms(1,2,4) Cons no_fork_tl by (auto simp: einv_def)
  show ?thesis
    by (rule einv_frame [OF assms(1,2), of _ "Ops xs"])
      (use mop_fields [OF s1(1)] mop_counts [OF s1(1)] nf assms(3,4) Cons s1(2) in auto)
qed

lemma einv_step:
  assumes "pstep early a s = Some s'" "einv m s" "Suc m < 2 ^ 32" "\<not> is_fork a"
  shows "einv (Suc m) s'"
proof (cases a)
  case (Call k c)
  have k: "k < nproc (dispatch k s)" "pc s k = Idle" and s': "s' = goto k (call_start c) (dispatch k s)"
    using assms(1) Call by (auto split: if_splits)
  have c: "no_fork_ops (call_start c) \<and> pc_weight (call_start c) = 0" 
    using assms(4) Call by (cases c) (auto simp: is_fork_def pipeclose_ops_def dup_ops_def no_fork_ops_def)
  have a: "asks_ok (Suc m) k s'' (call_start c)" for s'' by (cases c) auto
  show ?thesis
    by (rule einv_goto [OF dispatch_einv [OF assms(2)] k(1), of _ "call_start c"]) (use c k(2) s' a in auto)
next
  case (Step k)
  have k: "k < nproc (dispatch k s)" "who (dispatch k s) = Some k" and c: "call_step early k (dispatch k s) = Some s'"
    using assms(1) Step by (auto split: if_splits)
  note i = dispatch_einv [OF assms(2), of k]
  show ?thesis
    by (rule call_step_cases [OF c])
      (use einv_read [OF i k assms(3)] einv_write [OF i k assms(3)] einv_ops [OF i k] in blast)+
next
  case Tick
  have "asks_ok (Suc m) j (s\<lparr>who := None\<rparr>) (pc s j)" if "asks_ok m j s (pc s j)" for j
  proof -
    have "cpc_ok (Suc m) j d e (s\<lparr>who := None\<rparr>) c" if "cpc_ok m j d e s c" for d e c
      using that by (cases c) (auto intro: le_SucI)
    then show ?thesis using that by (cases "pc s j") auto
  qed
  then show ?thesis using assms(1,2) Tick by (auto simp: einv_def)
qed

lemma prun_einv:
  "prun early acts s = Some s' \<Longrightarrow> einv m s \<Longrightarrow> m + length acts < 2 ^ 32 \<Longrightarrow> \<forall>a \<in> set acts. \<not> is_fork a
     \<Longrightarrow> einv (m + length acts) s'"
proof (induction acts arbitrary: s m)
  case (Cons a acts)
  then obtain s1 where s1: "pstep early a s = Some s1" "prun early acts s1 = Some s'"
    by (auto simp: prun_Cons bind_eq_Some_conv)
  have "einv (Suc m) s1" using einv_step [OF s1(1) Cons.prems(2)] Cons.prems(3,4) by simp
  then show ?case using Cons.IH [OF s1(2), of "Suc m"] Cons.prems(3,4) by simp
qed simp

lemma new_pipe_einv: "einv 0 (new_pipe n rs)"
  by (simp add: einv_def new_pipe_def)

text \<open>
  C27. Any number of environments read and write, close and \<open>dup\<close> a pipe, preempted at any access
  of the shared data and of the reference counts, with no fork in between and in fewer than \<open>2 ^ 32\<close>
  steps. A read of at least one byte returns nothing only when no descriptor for writing is left,
  and a write of at least one byte gives up only when no descriptor for reading is left.
\<close>

theorem pipe_end_is_seen_rightly:
  assumes "prun early acts (new_pipe n rs) = Some s" "\<forall>a \<in> set acts. \<not> is_fork a" "length acts < 2 ^ 32"
  shows "((Suc m, []) \<in> set (rdone s) \<longrightarrow> fdref s Wr = 0) \<and> ((b # bs, i, 0) \<in> set (wdone s) \<longrightarrow> fdref s Rd = 0)"
  using prun_einv [OF assms(1) new_pipe_einv _ assms(2)] assms(3) unfolding einv_def by auto

text \<open>The writer closes while the reader is asking; the reader then asks again and sees the end.\<close>

definition demo_close :: "pact list" where
  "demo_close = [Call 1 (PRead 1), Step 1, Step 1, Step 1, Call 0 (PClose Wr), Step 0, Step 1, Step 1, Step 0, Step 0]
     @ replicate 4 (Step 1)"

theorem pipe_end_is_seen_rightly_witness:
  "\<exists>s. prun False demo_close (new_pipe 2 (\<lambda>_. 0)) = Some s \<and> rdone s = [(1, [])] \<and> fdref s Wr = 0"
proof -
  have "case prun False demo_close (new_pipe 2 (\<lambda>_. 0)) of Some s \<Rightarrow> rdone s = [(1, [])] | None \<Rightarrow> False"
    by code_simp
  then obtain s where s: "prun False demo_close (new_pipe 2 (\<lambda>_. 0)) = Some s" "rdone s = [(1, [])]"
    by (auto split: option.splits)
  have "\<forall>a \<in> set demo_close. \<not> is_fork a" "length demo_close < 2 ^ 32" by (auto simp: demo_close_def is_fork_def)
  then show ?thesis using pipe_end_is_seen_rightly [OF s(1), of 0] s by auto
qed

text \<open>
  A writer that puts its last byte and closes between the reader's two tests: the read returns
  nothing and the byte is still in the ring.
\<close>

lemma late_write_lost:
  "\<exists>s. prun False ([Call 1 (PRead 1), Step 1, Call 0 (PWrite [7])] @ replicate 4 (Step 0) @ [Call 0 (PClose Wr)]
         @ replicate 3 (Step 0) @ replicate 4 (Step 1)) (new_pipe 2 (\<lambda>_. 0)) = Some s
     \<and> rdone s = [(1, [])] \<and> ring_bytes (ring s) = [7]"
proof -
  have "case prun False ([Call 1 (PRead 1), Step 1, Call 0 (PWrite [7])] @ replicate 4 (Step 0) @ [Call 0 (PClose Wr)]
         @ replicate 3 (Step 0) @ replicate 4 (Step 1)) (new_pipe 2 (\<lambda>_. 0)) of
      Some s \<Rightarrow> rdone s = [(1, [])] \<and> ring_bytes (ring s) = [7] | None \<Rightarrow> False" by code_simp
  then show ?thesis by (auto split: option.splits)
qed

text \<open>
  During a \<open>fork\<close>, which maps the \<open>Fd\<close> pages before the page of the pipe, a reader can see the end
  of a pipe whose writer is still there: an environment with both ends forks a reader, which
  closes its copy of the write end, and while the reader waits the first environment forks again.
\<close>

definition demo_fork :: "pact list" where
  "demo_fork = [Call 0 (PFork [Rd, Wr])] @ replicate 5 (Step 0) @ [Call 1 (PClose Wr)] @ replicate 3 (Step 1)
     @ [Call 1 (PRead 1), Step 1, Call 0 (PFork [Rd, Wr]), Step 0] @ replicate 4 (Step 1)"

lemma fork_false_eof:
  "\<exists>s. prun False demo_fork (new_pipe 2 (\<lambda>_. 0)) = Some s \<and> rdone s = [(1, [])] \<and> fdref s Wr = 1"
proof -
  have "case prun False demo_fork (new_pipe 2 (\<lambda>_. 0)) of
      Some s \<Rightarrow> rdone s = [(1, [])] \<and> fdref s Wr = 1 | None \<Rightarrow> False" by code_simp
  then show ?thesis by (auto split: option.splits)
qed

end
