(* ===== verification/Ufd.thy ===== *)
theory Ufd
  imports Umach Ustring
begin

text \<open>
  File descriptors of the user library: \<open>user/fd.c\<close>, \<open>user/pageref.c\<close>, the creation of a pipe
  (\<open>pipe\<close> of \<open>user/pipe.c\<close>) and the console device, \<open>user/console.c\<close>.

  A descriptor is a page of the table at \<open>FDTABLE\<close>; a region of 4 MB belongs to each. The
  devices are records of functions, as in the code.
\<close>

unbundle bit_operations_syntax

section \<open>The world of a program\<close>

text \<open>
  Besides the machine: the characters that \<open>sys_cgetc\<close> will return (0 is none yet), the strings
  sent with \<open>sys_cputs\<close>, and for file requests those made and the answers to come: a value and
  the page that is sent with it.
\<close>

datatype freq =
    ROpen "u8 list" u32 | RMap u32 u32 | RSetSize u32 u32 | RClose u32 | RDirty u32 u32
  | RRemove "u8 list" | RSync

record uworld =
  mach :: umach
  cin :: "u32 list"
  cout :: "u8 list list"
  asked :: "freq list"
  answers :: "(u32 \<times> (nat \<times> u32) option) list"

type_synonym 'a ures = "((error + 'a) \<times> uworld) option"

definition on_mach :: "(umach \<Rightarrow> ('a \<times> umach)) \<Rightarrow> uworld \<Rightarrow> 'a \<times> uworld" where
  "on_mach f w = (let (r, u) = f (mach w) in (r, w\<lparr>mach := u\<rparr>))"

section \<open>Words in memory\<close>

definition ld32 :: "umach \<Rightarrow> u32 \<Rightarrow> u32 option" where
  "ld32 u a =
     do { b0 \<leftarrow> ld8 u a; b1 \<leftarrow> ld8 u (a + 1); b2 \<leftarrow> ld8 u (a + 2); b3 \<leftarrow> ld8 u (a + 3);
          Some (word_of_bytes [b0, b1, b2, b3]) }"

definition st32 :: "umach \<Rightarrow> u32 \<Rightarrow> u32 \<Rightarrow> umach option" where
  "st32 u a v =
     do { u1 \<leftarrow> st8 u a (get_byte v 0); u2 \<leftarrow> st8 u1 (a + 1) (get_byte v 1);
          u3 \<leftarrow> st8 u2 (a + 2) (get_byte v 2); st8 u3 (a + 3) (get_byte v 3) }"

section \<open>Descriptors\<close>

definition MAXFD :: nat where "MAXFD = 32"
definition FILEBASE :: u32 where "FILEBASE = 0xd0000000"
definition FDTABLE :: u32 where "FDTABLE = FILEBASE - PDMAP"

definition INDEX2FD :: "u32 \<Rightarrow> u32" where "INDEX2FD i = FDTABLE + i * BY2PG"
definition INDEX2DATA :: "u32 \<Rightarrow> u32" where "INDEX2DATA i = FILEBASE + i * PDMAP"

definition fd2num :: "u32 \<Rightarrow> u32" where "fd2num fd = (fd - FDTABLE) div BY2PG"
definition fd2data :: "u32 \<Rightarrow> u32" where "fd2data fd = INDEX2DATA (fd2num fd)"

definition pdxn :: "u32 \<Rightarrow> nat" where "pdxn va = unat (PDX va)"
definition vpnn :: "u32 \<Rightarrow> nat" where "vpnn va = unat (VPN va)"

text \<open>The fields of \<open>struct Fd\<close>.\<close>

definition off_dev_id :: u32 where "off_dev_id = 0"
definition off_offset :: u32 where "off_offset = 4"
definition off_omode :: u32 where "off_omode = 8"

text \<open>
  The test in \<open>fd_alloc\<close> negates before it masks: it asks whether the entry is zero.
\<close>

fun fd_scan :: "umach \<Rightarrow> nat list \<Rightarrow> (error + u32) option" where
  "fd_scan u [] = Some (Inl E_MAX_OPEN)"
| "fd_scan u (i # js) =
     (let fd = INDEX2FD (of_nat i) in
      if \<not> vpd u (pdxn fd) then Some (Inr fd)
      else do { e \<leftarrow> vpt u (vpnn fd); if e = 0 then Some (Inr fd) else fd_scan u js })"

definition fd_alloc :: "umach \<Rightarrow> (error + u32) option" where
  "fd_alloc u = fd_scan u [0..<MAXFD]"

definition fd_close :: "uworld \<Rightarrow> u32 \<Rightarrow> uworld" where
  "fd_close w fd = w\<lparr>mach := snd (u_mem_unmap (mach w) 0 fd)\<rparr>"

definition fd_lookup :: "umach \<Rightarrow> u32 \<Rightarrow> error + u32" where
  "fd_lookup u fdnum =
     (if 0 \<le> sint fdnum \<and> sint fdnum < int MAXFD then
        let fd = INDEX2FD fdnum
        in if vpd u (pdxn fd) \<and> present (pte (own u) (vpnn fd)) then Inr fd else Inl E_INVAL
      else Inl E_INVAL)"

section \<open>Devices\<close>

record ustat =
  st_name :: "u8 list"
  st_size :: u32
  st_isdir :: u32
  st_dev :: u32

record udev =
  dev_id :: u32
  dev_read :: "uworld \<Rightarrow> u32 \<Rightarrow> u32 \<Rightarrow> u32 \<Rightarrow> u32 \<Rightarrow> u32 ures"
  dev_write :: "uworld \<Rightarrow> u32 \<Rightarrow> u32 \<Rightarrow> u32 \<Rightarrow> u32 \<Rightarrow> u32 ures"
  dev_close :: "uworld \<Rightarrow> u32 \<Rightarrow> u32 ures"
  dev_stat :: "uworld \<Rightarrow> u32 \<Rightarrow> ustat \<Rightarrow> ustat ures"

type_synonym udevtab = "udev list"

fun dev_lookup :: "udevtab \<Rightarrow> u32 \<Rightarrow> error + udev" where
  "dev_lookup [] i = Inl E_INVAL"
| "dev_lookup (d # ds) i = (if dev_id d = i then Inr d else dev_lookup ds i)"

text \<open>The start of every operation: the descriptor and its device.\<close>

definition fd_dev :: "udevtab \<Rightarrow> umach \<Rightarrow> u32 \<Rightarrow> (error + (u32 \<times> udev)) option" where
  "fd_dev ds u fdnum =
     (case fd_lookup u fdnum of
        Inl e \<Rightarrow> Some (Inl e)
      | Inr fd \<Rightarrow>
          do {
            i \<leftarrow> ld32 u (fd + off_dev_id);
            Some (case dev_lookup ds i of Inl e \<Rightarrow> Inl e | Inr d \<Rightarrow> Inr (fd, d))
          })"

definition u_close :: "udevtab \<Rightarrow> uworld \<Rightarrow> u32 \<Rightarrow> u32 ures" where
  "u_close ds w fdnum =
     do {
       q \<leftarrow> fd_dev ds (mach w) fdnum;
       case q of
         Inl e \<Rightarrow> Some (Inl e, w)
       | Inr (fd, d) \<Rightarrow> do { (r, w1) \<leftarrow> dev_close d w fd; Some (r, fd_close w1 fd) }
     }"

definition close_one :: "udevtab \<Rightarrow> nat \<Rightarrow> uworld \<Rightarrow> uworld option" where
  "close_one ds i w = do { (_, w1) \<leftarrow> u_close ds w (of_nat i); Some w1 }"

definition u_close_all :: "udevtab \<Rightarrow> uworld \<Rightarrow> uworld option" where
  "u_close_all ds w = mfold (close_one ds) [0..<MAXFD] w"

section \<open>Duplication\<close>

text \<open>The pages of the region, one after the other.\<close>

fun dup_pages :: "kern \<Rightarrow> umach \<Rightarrow> u32 \<Rightarrow> u32 \<Rightarrow> nat list \<Rightarrow> ((error + unit) \<times> umach) option" where
  "dup_pages k u ova nva [] = Some (Inr (), u)"
| "dup_pages k u ova nva (i # js) =
     (let off = of_nat i * BY2PG in
      do {
        e \<leftarrow> vpt u (vpnn (ova + off));
        if has e PTE_P then
          (case u_mem_map k u 0 (ova + off) 0 (nva + off) (e AND PTE_USER) of
             (Inl r, u1) \<Rightarrow> Some (Inl r, u1)
           | (Inr _, u1) \<Rightarrow> dup_pages k u1 ova nva js)
        else dup_pages k u ova nva js
      })"

definition region_pages :: "nat list" where "region_pages = [0..<unat (PDMAP div BY2PG)]"

definition unmap_region :: "umach \<Rightarrow> u32 \<Rightarrow> umach" where
  "unmap_region u va = fold (\<lambda>i u. snd (u_mem_unmap u 0 (va + of_nat i * BY2PG))) region_pages u"

definition dup_undo :: "umach \<Rightarrow> u32 \<Rightarrow> u32 \<Rightarrow> umach" where
  "dup_undo u newfd nva = unmap_region (snd (u_mem_unmap u 0 newfd)) nva"

definition u_dup :: "kern \<Rightarrow> udevtab \<Rightarrow> uworld \<Rightarrow> u32 \<Rightarrow> u32 \<Rightarrow> u32 ures" where
  "u_dup k ds w oldfdnum newfdnum =
     (case fd_lookup (mach w) oldfdnum of
        Inl e \<Rightarrow> Some (Inl e, w)
      | Inr oldfd \<Rightarrow>
          do {
            (_, w1) \<leftarrow> u_close ds w newfdnum;
            let newfd = INDEX2FD newfdnum; let ova = fd2data oldfd; let nva = fd2data newfd;
            (r, u2) \<leftarrow> (if vpd (mach w1) (pdxn ova) then dup_pages k (mach w1) ova nva region_pages
                       else Some (Inr (), mach w1));
            case r of
              Inl e \<Rightarrow> Some (Inl e, w1\<lparr>mach := dup_undo u2 newfd nva\<rparr>)
            | Inr _ \<Rightarrow>
                do {
                  e \<leftarrow> vpt u2 (vpnn oldfd);
                  case u_mem_map k u2 0 oldfd 0 newfd (e AND PTE_USER) of
                    (Inl e, u3) \<Rightarrow> Some (Inl e, w1\<lparr>mach := dup_undo u3 newfd nva\<rparr>)
                  | (Inr _, u3) \<Rightarrow> Some (Inr newfdnum, w1\<lparr>mach := u3\<rparr>)
                }
          })"

section \<open>Reading and writing\<close>

definition O_RDONLY :: u32 where "O_RDONLY = 0"
definition O_WRONLY' :: u32 where "O_WRONLY' = 1"
definition O_RDWR :: u32 where "O_RDWR = 2"
definition O_ACCMODE :: u32 where "O_ACCMODE = 3"

text \<open>A count of \<open>2 ^ 31\<close> or more is negative as a result.\<close>

definition advance :: "uworld \<Rightarrow> u32 \<Rightarrow> u32 \<Rightarrow> uworld option" where
  "advance w fd r =
     do {
       off \<leftarrow> ld32 (mach w) (fd + off_offset);
       u \<leftarrow> st32 (mach w) (fd + off_offset) (off + r);
       Some (w\<lparr>mach := u\<rparr>)
     }"

definition u_read :: "udevtab \<Rightarrow> uworld \<Rightarrow> u32 \<Rightarrow> u32 \<Rightarrow> u32 \<Rightarrow> u32 ures" where
  "u_read ds w fdnum buf n =
     do {
       q \<leftarrow> fd_dev ds (mach w) fdnum;
       case q of
         Inl e \<Rightarrow> Some (Inl e, w)
       | Inr (fd, d) \<Rightarrow>
           do {
             mode \<leftarrow> ld32 (mach w) (fd + off_omode);
             if mode AND O_ACCMODE = O_WRONLY' then Some (Inl E_INVAL, w)
             else
               do {
                 off \<leftarrow> ld32 (mach w) (fd + off_offset);
                 (r, w1) \<leftarrow> dev_read d w fd buf n off;
                 case r of
                   Inl e \<Rightarrow> Some (Inl e, w1)
                 | Inr m \<Rightarrow>
                     if sint m < 0 then Some (Inr m, w1) else do { w2 \<leftarrow> advance w1 fd m; Some (Inr m, w2) }
               }
           }
     }"

definition u_write :: "udevtab \<Rightarrow> uworld \<Rightarrow> u32 \<Rightarrow> u32 \<Rightarrow> u32 \<Rightarrow> u32 ures" where
  "u_write ds w fdnum buf n =
     do {
       q \<leftarrow> fd_dev ds (mach w) fdnum;
       case q of
         Inl e \<Rightarrow> Some (Inl e, w)
       | Inr (fd, d) \<Rightarrow>
           do {
             mode \<leftarrow> ld32 (mach w) (fd + off_omode);
             if mode AND O_ACCMODE = O_RDONLY then Some (Inl E_INVAL, w)
             else
               do {
                 off \<leftarrow> ld32 (mach w) (fd + off_offset);
                 (r, w1) \<leftarrow> dev_write d w fd buf n off;
                 case r of
                   Inl e \<Rightarrow> Some (Inl e, w1)
                 | Inr m \<Rightarrow>
                     if sint m \<le> 0 then Some (Inr m, w1) else do { w2 \<leftarrow> advance w1 fd m; Some (Inr m, w2) }
               }
           }
     }"

text \<open>\<open>readn\<close> reads until it has \<open>n\<close> bytes; a device that gives more than it was asked for may keep it
  busy for ever.\<close>

partial_function (option) readn_loop :: "udevtab \<Rightarrow> uworld \<Rightarrow> u32 \<Rightarrow> u32 \<Rightarrow> u32 \<Rightarrow> u32 \<Rightarrow> u32 ures" where
  "readn_loop ds w fdnum buf n tot =
     (if n \<le> tot then Some (Inr tot, w)
      else
        Option.bind (u_read ds w fdnum (buf + tot) (n - tot)) (\<lambda>(r, w1).
          case r of
            Inl e \<Rightarrow> Some (Inl e, w1)
          | Inr m \<Rightarrow>
              if sint m < 0 then Some (Inr m, w1)
              else if m = 0 then Some (Inr tot, w1)
              else readn_loop ds w1 fdnum buf n (tot + m)))"

definition u_readn :: "udevtab \<Rightarrow> uworld \<Rightarrow> u32 \<Rightarrow> u32 \<Rightarrow> u32 \<Rightarrow> u32 ures" where
  "u_readn ds w fdnum buf n = readn_loop ds w fdnum buf n 0"

definition u_seek :: "uworld \<Rightarrow> u32 \<Rightarrow> u32 \<Rightarrow> unit ures" where
  "u_seek w fdnum offset =
     (case fd_lookup (mach w) fdnum of
        Inl e \<Rightarrow> Some (Inl e, w)
      | Inr fd \<Rightarrow> do { u \<leftarrow> st32 (mach w) (fd + off_offset) offset; Some (Inr (), w\<lparr>mach := u\<rparr>) })"

definition u_fstat :: "udevtab \<Rightarrow> uworld \<Rightarrow> u32 \<Rightarrow> ustat ures" where
  "u_fstat ds w fdnum =
     do {
       q \<leftarrow> fd_dev ds (mach w) fdnum;
       case q of
         Inl e \<Rightarrow> Some (Inl e, w)
       | Inr (fd, d) \<Rightarrow> dev_stat d w fd \<lparr>st_name = [], st_size = 0, st_isdir = 0, st_dev = dev_id d\<rparr>
     }"

section \<open>Reference counts and pipes\<close>

definition pageref :: "umach \<Rightarrow> u32 \<Rightarrow> nat" where
  "pageref u v =
     (if \<not> vpd u (pdxn v) then 0
      else if \<not> present (pte (own u) (vpnn v)) then 0
      else prefs u (frame_of (pte (own u) (vpnn v))))"

definition SHARED :: u32 where "SHARED = PTE_P OR PTE_W OR PTE_U OR PTE_LIBRARY"
definition DEV_PIPE :: u32 where "DEV_PIPE = 112"

definition unmap :: "umach \<Rightarrow> u32 \<Rightarrow> umach" where "unmap u va = snd (u_mem_unmap u 0 va)"

text \<open>A failure undoes the steps before it; the very first failing step has nothing to undo.\<close>

definition u_pipe :: "kern \<Rightarrow> umach \<Rightarrow> ((error + (u32 \<times> u32)) \<times> umach) option" where
  "u_pipe k u =
     do {
       q0 \<leftarrow> fd_alloc u;
       case q0 of
         Inl e \<Rightarrow> Some (Inl e, u)
       | Inr fd0 \<Rightarrow>
           (case u_mem_alloc k u 0 fd0 SHARED of
              (Inl e, u1) \<Rightarrow> Some (Inl e, u1)
            | (Inr _, u1) \<Rightarrow>
                do {
                  q1 \<leftarrow> fd_alloc u1;
                  case q1 of
                    Inl e \<Rightarrow> Some (Inl e, unmap u1 fd0)
                  | Inr fd1 \<Rightarrow>
                      (case u_mem_alloc k u1 0 fd1 SHARED of
                         (Inl e, u2) \<Rightarrow> Some (Inl e, unmap u2 fd0)
                       | (Inr _, u2) \<Rightarrow>
                           (let va = fd2data fd0 in
                            case u_mem_alloc k u2 0 va SHARED of
                              (Inl e, u3) \<Rightarrow> Some (Inl e, unmap (unmap u3 fd1) fd0)
                            | (Inr _, u3) \<Rightarrow>
                                (case u_mem_map k u3 0 va 0 (fd2data fd1) SHARED of
                                   (Inl e, u4) \<Rightarrow> Some (Inl e, unmap (unmap (unmap u4 va) fd1) fd0)
                                 | (Inr _, u4) \<Rightarrow>
                                     do {
                                       u5 \<leftarrow> st32 u4 (fd0 + off_dev_id) DEV_PIPE;
                                       u6 \<leftarrow> st32 u5 (fd0 + off_omode) O_RDONLY;
                                       u7 \<leftarrow> st32 u6 (fd1 + off_dev_id) DEV_PIPE;
                                       u8 \<leftarrow> st32 u7 (fd1 + off_omode) O_WRONLY';
                                       Some (Inr (fd2num fd0, fd2num fd1), u8)
                                     })))
                })
     }"

definition pipeclose :: "uworld \<Rightarrow> u32 \<Rightarrow> u32 ures" where
  "pipeclose w fd = Some (Inr 0, w\<lparr>mach := unmap (unmap (mach w) fd) (fd2data fd)\<rparr>)"

section \<open>The console\<close>

definition DEV_CONS :: u32 where "DEV_CONS = 99"

definition iscons :: "umach \<Rightarrow> u32 \<Rightarrow> (error + bool) option" where
  "iscons u fdnum =
     (case fd_lookup u fdnum of
        Inl e \<Rightarrow> Some (Inl e)
      | Inr fd \<Rightarrow> do { i \<leftarrow> ld32 u (fd + off_dev_id); Some (Inr (i = DEV_CONS)) })"

definition opencons :: "kern \<Rightarrow> umach \<Rightarrow> ((error + u32) \<times> umach) option" where
  "opencons k u =
     do {
       q \<leftarrow> fd_alloc u;
       case q of
         Inl e \<Rightarrow> Some (Inl e, u)
       | Inr fd \<Rightarrow>
           (case u_mem_alloc k u 0 fd SHARED of
              (Inl e, u1) \<Rightarrow> Some (Inl e, u1)
            | (Inr _, u1) \<Rightarrow>
                do {
                  u2 \<leftarrow> st32 u1 (fd + off_dev_id) DEV_CONS;
                  u3 \<leftarrow> st32 u2 (fd + off_omode) O_RDWR;
                  Some (Inr (fd2num fd), u3)
                })
     }"

text \<open>The wait for a character: \<open>sys_cgetc\<close> returns 0 while there is none.\<close>

fun cgetc_wait :: "u32 list \<Rightarrow> (u32 \<times> u32 list) option" where
  "cgetc_wait [] = None"
| "cgetc_wait (c # cs) = (if c = 0 then cgetc_wait cs else Some (c, cs))"

definition cons_read :: "uworld \<Rightarrow> u32 \<Rightarrow> u32 \<Rightarrow> u32 \<Rightarrow> u32 \<Rightarrow> u32 ures" where
  "cons_read w fd buf n offset =
     (if n = 0 then Some (Inr 0, w)
      else
        do {
          (c, cs) \<leftarrow> cgetc_wait (cin w);
          let w1 = w\<lparr>cin := cs\<rparr>;
          if sint c < 0 then Some (Inr c, w1)
          else if c = 4 then Some (Inr 0, w1)
          else do { u \<leftarrow> st8 (mach w) buf (ucast c); Some (Inr 1, w1\<lparr>mach := u\<rparr>) }
        })"

text \<open>
  \<open>cons_write\<close> sends chunks of at most 127 bytes, copied into a buffer that it terminates; the
  kernel prints a chunk up to its first zero byte.
\<close>

fun ld_bytes :: "umach \<Rightarrow> u32 \<Rightarrow> nat \<Rightarrow> u8 list option" where
  "ld_bytes u a 0 = Some []"
| "ld_bytes u a (Suc n) = do { b \<leftarrow> ld8 u a; bs \<leftarrow> ld_bytes u (a + 1) n; Some (b # bs) }"

function cons_write_loop :: "uworld \<Rightarrow> u32 \<Rightarrow> nat \<Rightarrow> nat \<Rightarrow> uworld option" where
  "cons_write_loop w buf n tot =
     (if n \<le> tot then Some w
      else
        let m = min (n - tot) 127 in
        do {
          bs \<leftarrow> ld_bytes (mach w) (buf + of_nat tot) m;
          cons_write_loop (w\<lparr>cout := cout w @ [takeWhile (\<lambda>c. c \<noteq> 0) bs]\<rparr>) buf n (tot + m)
        })"
  by pat_completeness auto
termination
  by (relation "measure (\<lambda>(w, buf, n, tot). n - tot)") auto

declare cons_write_loop.simps [simp del]

text \<open>The loop variable is an \<open>int\<close> that is compared as unsigned.\<close>

definition cons_write :: "uworld \<Rightarrow> u32 \<Rightarrow> u32 \<Rightarrow> u32 \<Rightarrow> u32 \<Rightarrow> u32 ures" where
  "cons_write w fd buf n offset = do { w1 \<leftarrow> cons_write_loop w buf (unat n) 0; Some (Inr n, w1) }"

definition cons_stat :: "uworld \<Rightarrow> u32 \<Rightarrow> ustat \<Rightarrow> ustat ures" where
  "cons_stat w fd st = Some (Inr (st\<lparr>st_name := [60, 99, 111, 110, 115, 62]\<rparr>), w)"

definition devcons :: udev where
  "devcons = \<lparr>dev_id = DEV_CONS, dev_read = cons_read, dev_write = cons_write,
     dev_close = (\<lambda>w fd. Some (Inr 0, w)), dev_stat = cons_stat\<rparr>"

end
