(* ===== verification/Ufile.thy ===== *)
theory Ufile
  imports Ufd Fork
begin

text \<open>
  Files seen from a program: the requests to the file server, \<open>user/fsipc.c\<close>, and the file
  device, \<open>user/file.c\<close>. A request is recorded in \<open>asked\<close>; the answer is the next of
  \<open>answers\<close>: the value, and the page with its permissions if one is sent. A program whose
  request is not answered waits for ever, which is the value \<open>None\<close>.

  A result is the word that the function returns, negative for an error, as both the codes of
  the library and those of the server are passed on.
\<close>

unbundle bit_operations_syntax

definition code :: "error \<Rightarrow> u32" where "code e = - of_nat (errno e)"
definition bad :: "u32 \<Rightarrow> bool" where "bad r \<longleftrightarrow> sint r < 0"

definition res_word :: "error + u32 \<Rightarrow> u32" where
  "res_word r = (case r of Inl e \<Rightarrow> code e | Inr v \<Rightarrow> v)"

definition unit_word :: "error + unit \<Rightarrow> u32" where
  "unit_word r = (case r of Inl e \<Rightarrow> code e | Inr _ \<Rightarrow> 0)"

section \<open>Requests\<close>

definition fsipc :: "uworld \<Rightarrow> freq \<Rightarrow> u32 \<Rightarrow> (u32 \<times> u32 \<times> uworld) option" where
  "fsipc w q dstva =
     (case answers w of
        [] \<Rightarrow> None
      | (v, pg) # rest \<Rightarrow>
          let w1 = w\<lparr>asked := asked w @ [q], answers := rest\<rparr>
          in case (if dstva = 0 then None else pg) of
               None \<Rightarrow> Some (v, 0, w1)
             | Some (p, perm) \<Rightarrow>
                 Some (v, perm, w1\<lparr>mach := insert_page (mach w1) 0 (own (mach w1)) (vpn dstva) p perm\<rparr>))"

definition MAXPATH :: nat where "MAXPATH = 1024"

definition fsipc_open :: "uworld \<Rightarrow> u8 list \<Rightarrow> u32 \<Rightarrow> u32 \<Rightarrow> (u32 \<times> uworld) option" where
  "fsipc_open w path omode fd =
     (if MAXPATH \<le> length path then Some (code E_BAD_PATH, w)
      else do { (r, _, w1) \<leftarrow> fsipc w (ROpen path omode) fd; Some (r, w1) })"

definition fsipc_map :: "uworld \<Rightarrow> u32 \<Rightarrow> u32 \<Rightarrow> u32 \<Rightarrow> (u32 \<times> uworld) option" where
  "fsipc_map w fileid offset dstva =
     do {
       (r, perm, w1) \<leftarrow> fsipc w (RMap fileid offset) dstva;
       if bad r then Some (r, w1)
       else if (perm AND NOT (PTE_W OR PTE_LIBRARY)) \<noteq> (PTE_U OR PTE_P) then None
       else Some (0, w1)
     }"

definition fsipc_set_size :: "uworld \<Rightarrow> u32 \<Rightarrow> u32 \<Rightarrow> (u32 \<times> uworld) option" where
  "fsipc_set_size w fileid sz = do { (r, _, w1) \<leftarrow> fsipc w (RSetSize fileid sz) 0; Some (r, w1) }"

definition fsipc_close :: "uworld \<Rightarrow> u32 \<Rightarrow> (u32 \<times> uworld) option" where
  "fsipc_close w fileid = do { (r, _, w1) \<leftarrow> fsipc w (RClose fileid) 0; Some (r, w1) }"

definition fsipc_dirty :: "uworld \<Rightarrow> u32 \<Rightarrow> u32 \<Rightarrow> (u32 \<times> uworld) option" where
  "fsipc_dirty w fileid offset = do { (r, _, w1) \<leftarrow> fsipc w (RDirty fileid offset) 0; Some (r, w1) }"

definition fsipc_remove :: "uworld \<Rightarrow> u8 list \<Rightarrow> (u32 \<times> uworld) option" where
  "fsipc_remove w path =
     (if MAXPATH \<le> length path then Some (code E_BAD_PATH, w)
      else do { (r, _, w1) \<leftarrow> fsipc w (RRemove path) 0; Some (r, w1) })"

definition fsipc_sync :: "uworld \<Rightarrow> (u32 \<times> uworld) option" where
  "fsipc_sync w = do { (r, _, w1) \<leftarrow> fsipc w RSync 0; Some (r, w1) }"

section \<open>The page of a descriptor\<close>

text \<open>\<open>struct Filefd\<close>: the descriptor, the file id and a copy of the file structure.\<close>

definition off_fileid :: u32 where "off_fileid = 12"
definition off_fname :: u32 where "off_fname = 16"
definition off_fsize :: u32 where "off_fsize = 144"
definition off_ftype :: u32 where "off_ftype = 148"

definition DEV_FILE :: u32 where "DEV_FILE = 102"
definition MAXFILESIZE :: u32 where "MAXFILESIZE = 1024 * 4096"

definition file_blocks :: "u32 \<Rightarrow> u32" where
  "file_blocks sz = (sz + 4096 - 1) div 4096"

section \<open>Open and close\<close>

fun map_blocks :: "uworld \<Rightarrow> u32 \<Rightarrow> u32 \<Rightarrow> nat list \<Rightarrow> (u32 \<times> uworld) option" where
  "map_blocks w fileid va [] = Some (0, w)"
| "map_blocks w fileid va (i # js) =
     do {
       (r, w1) \<leftarrow> fsipc_map w fileid (of_nat i) (va + of_nat i * 4096);
       if bad r then Some (r, w1) else map_blocks w1 fileid va js
     }"

definition file_open' :: "uworld \<Rightarrow> u8 list \<Rightarrow> u32 \<Rightarrow> (u32 \<times> uworld) option" where
  "file_open' w path mode =
     do {
       q \<leftarrow> fd_alloc (mach w);
       case q of
         Inl e \<Rightarrow> Some (code e, w)
       | Inr fd \<Rightarrow>
           do {
             (r, w1) \<leftarrow> fsipc_open w path mode fd;
             if bad r then Some (r, w1)
             else
               do {
                 sz \<leftarrow> ld32 (mach w1) (fd + off_fsize);
                 fileid \<leftarrow> ld32 (mach w1) (fd + off_fileid);
                 (r2, w2) \<leftarrow> map_blocks w1 fileid (fd2data fd) [0..<unat (file_blocks sz)];
                 if bad r2 then Some (r2, w2) else Some (fd2num fd, w2)
               }
           }
     }"

text \<open>Pages that the program has written are reported, each by its index in the file.\<close>

fun report_dirty :: "uworld \<Rightarrow> u32 \<Rightarrow> nat \<Rightarrow> nat list \<Rightarrow> uworld option" where
  "report_dirty w fileid base [] = Some w"
| "report_dirty w fileid base (i # js) =
     do {
       _ \<leftarrow> vpt (mach w) (base + i);
       w1 \<leftarrow> (if dirt (mach w) (base + i)
             then map_option snd (fsipc_dirty w fileid (of_nat i)) else Some w);
       report_dirty w1 fileid base js
     }"

fun unmap_pages :: "umach \<Rightarrow> u32 \<Rightarrow> nat list \<Rightarrow> umach option" where
  "unmap_pages u va [] = Some u"
| "unmap_pages u va (i # js) =
     (case u_mem_unmap u 0 (va + of_nat i * BY2PG) of (Inl _, _) \<Rightarrow> None | (Inr _, u1) \<Rightarrow> unmap_pages u1 va js)"

definition file_close' :: "uworld \<Rightarrow> u32 \<Rightarrow> (u32 \<times> uworld) option" where
  "file_close' w fd =
     do {
       let base = unat (fd2data fd div BY2PG);
       sz \<leftarrow> ld32 (mach w) (fd + off_fsize);
       fileid \<leftarrow> ld32 (mach w) (fd + off_fileid);
       w1 \<leftarrow> report_dirty w fileid base [0..<unat (file_blocks sz)];
       (r, w2) \<leftarrow> fsipc_close w1 fileid;
       if bad r then Some (r, w2)
       else do { u \<leftarrow> unmap_pages (mach w2) (of_nat base * BY2PG) region_pages; Some (0, w2\<lparr>mach := u\<rparr>) }
     }"

section \<open>Reading and writing\<close>

text \<open>The sum of offset and count wraps, as in the code.\<close>

definition file_read :: "uworld \<Rightarrow> u32 \<Rightarrow> u32 \<Rightarrow> u32 \<Rightarrow> u32 \<Rightarrow> (u32 \<times> uworld) option" where
  "file_read w fd buf n offset =
     do {
       sz \<leftarrow> ld32 (mach w) (fd + off_fsize);
       if offset > sz then Some (0, w)
       else
         do {
           let n1 = (if offset + n > sz then sz - offset else n);
           u \<leftarrow> u_bcopy (loop_count n1) (mach w) (fd2data fd + offset) buf;
           Some (n1, w\<lparr>mach := u\<rparr>)
         }
     }"

definition read_map :: "umach \<Rightarrow> u32 \<Rightarrow> u32 \<Rightarrow> (error + u32) option" where
  "read_map u fdnum offset =
     (case fd_lookup u fdnum of
        Inl e \<Rightarrow> Some (Inl e)
      | Inr fd \<Rightarrow>
          do {
            i \<leftarrow> ld32 u (fd + off_dev_id);
            let va = fd2data fd + offset;
            Some (if i \<noteq> DEV_FILE then Inl E_INVAL
                  else if offset \<ge> MAXFILESIZE then Inl E_NO_DISK
                  else if \<not> vpd u (pdxn va) \<or> \<not> present (pte (own u) (vpnn va)) then Inl E_NO_DISK
                  else Inr va)
          })"

text \<open>
  The loop that maps the new pages asks for each by its offset in bytes. The size is at most
  4 MB, so that the offset does not wrap.
\<close>

function grow_pages :: "uworld \<Rightarrow> u32 \<Rightarrow> u32 \<Rightarrow> u32 \<Rightarrow> u32 \<Rightarrow> u32 \<Rightarrow> (u32 \<times> uworld) option" where
  "grow_pages w fileid va oldsize i hi =
     (if hi \<le> i \<or> i + BY2PG \<le> i then Some (0, w)
      else
        do {
          (r, w1) \<leftarrow> fsipc_map w fileid i (va + i);
          if bad r then do { (_, w2) \<leftarrow> fsipc_set_size w1 fileid oldsize; Some (r, w2) }
          else grow_pages w1 fileid va oldsize (i + BY2PG) hi
        })"
  by pat_completeness auto
termination
proof (relation "measure (\<lambda>(w, fileid, va, oldsize, i, hi). 2 ^ 32 - unat i)")
  fix i hi :: u32
  assume "\<not> (hi \<le> i \<or> i + BY2PG \<le> i)"
  then have "unat i < unat (i + BY2PG)" by (simp add: word_le_nat_alt)
  moreover have "unat (i + BY2PG) < 2 ^ 32" using unsigned_less [of "i + BY2PG", where ?'a = nat] by simp
  ultimately show "((w1, fileid, va, oldsize, i + BY2PG, hi), w, fileid, va, oldsize, i, hi)
      \<in> measure (\<lambda>(w, fileid, va, oldsize, i, hi). 2 ^ 32 - unat i)" for w w1 fileid va oldsize
    by simp
qed simp

declare grow_pages.simps [simp del]

text \<open>The number of pages from one rounded size to the other; none when the file grows.\<close>

definition shrink_pages :: "u32 \<Rightarrow> u32 \<Rightarrow> nat list" where
  "shrink_pages sz oldsize =
     [unat (ROUND sz BY2PG) div 4096..<unat (ROUND oldsize BY2PG) div 4096]"

definition u_ftruncate :: "uworld \<Rightarrow> u32 \<Rightarrow> u32 \<Rightarrow> (u32 \<times> uworld) option" where
  "u_ftruncate w fdnum sz =
     (if sz > MAXFILESIZE then Some (code E_NO_DISK, w)
      else
        case fd_lookup (mach w) fdnum of
          Inl e \<Rightarrow> Some (code e, w)
        | Inr fd \<Rightarrow>
            do {
              i \<leftarrow> ld32 (mach w) (fd + off_dev_id);
              if i \<noteq> DEV_FILE then Some (code E_INVAL, w)
              else
                do {
                  fileid \<leftarrow> ld32 (mach w) (fd + off_fileid);
                  oldsize \<leftarrow> ld32 (mach w) (fd + off_fsize);
                  (r, w1) \<leftarrow> fsipc_set_size w fileid sz;
                  if bad r then Some (r, w1)
                  else
                    do {
                      let va = fd2data fd;
                      (r2, w2) \<leftarrow> grow_pages w1 fileid va oldsize (ROUND oldsize BY2PG) (ROUND sz BY2PG);
                      if bad r2 then Some (r2, w2)
                      else do { u \<leftarrow> unmap_pages (mach w2) va (shrink_pages sz oldsize); Some (0, w2\<lparr>mach := u\<rparr>) }
                    }
                }
            })"

definition file_write :: "uworld \<Rightarrow> u32 \<Rightarrow> u32 \<Rightarrow> u32 \<Rightarrow> u32 \<Rightarrow> (u32 \<times> uworld) option" where
  "file_write w fd buf n offset =
     (let tot = offset + n in
      if tot > MAXFILESIZE then Some (code E_NO_DISK, w)
      else
        do {
          sz \<leftarrow> ld32 (mach w) (fd + off_fsize);
          (r, w1) \<leftarrow> (if tot > sz then u_ftruncate w (fd2num fd) tot else Some (0, w));
          if bad r then Some (r, w1)
          else do { u \<leftarrow> u_bcopy (loop_count n) (mach w1) buf (fd2data fd + offset); Some (n, w1\<lparr>mach := u\<rparr>) }
        })"

definition u_remove :: "uworld \<Rightarrow> u8 list \<Rightarrow> (u32 \<times> uworld) option" where
  "u_remove w path = fsipc_remove w path"

definition u_sync :: "uworld \<Rightarrow> (u32 \<times> uworld) option" where
  "u_sync w = fsipc_sync w"

section \<open>The device\<close>

text \<open>The name in the descriptor, up to its terminator: at most 128 bytes are looked at.\<close>

definition file_name :: "umach \<Rightarrow> u32 \<Rightarrow> u8 list option" where
  "file_name u fd = map_option (takeWhile (\<lambda>c. c \<noteq> 0)) (ld_bytes u (fd + off_fname) 128)"

definition file_stat :: "uworld \<Rightarrow> u32 \<Rightarrow> ustat \<Rightarrow> ustat ures" where
  "file_stat w fd st =
     do {
       nm \<leftarrow> file_name (mach w) fd;
       sz \<leftarrow> ld32 (mach w) (fd + off_fsize);
       ty \<leftarrow> ld32 (mach w) (fd + off_ftype);
       Some (Inr (st\<lparr>st_name := nm, st_size := sz, st_isdir := (if ty = 1 then 1 else 0)\<rparr>), w)
     }"

definition raw :: "(u32 \<times> uworld) option \<Rightarrow> u32 ures" where
  "raw m = do { (r, w) \<leftarrow> m; Some (Inr r, w) }"

definition devfile :: udev where
  "devfile = \<lparr>dev_id = DEV_FILE,
     dev_read = (\<lambda>w fd buf n off. raw (file_read w fd buf n off)),
     dev_write = (\<lambda>w fd buf n off. raw (file_write w fd buf n off)),
     dev_close = (\<lambda>w fd. raw (file_close' w fd)),
     dev_stat = file_stat\<rparr>"

text \<open>\<open>stat\<close> of \<open>user/fd.c\<close>.\<close>

definition u_stat :: "udevtab \<Rightarrow> uworld \<Rightarrow> u8 list \<Rightarrow> ((u32 + (error + ustat)) \<times> uworld) option" where
  "u_stat ds w path =
     do {
       (fd, w1) \<leftarrow> file_open' w path O_RDONLY;
       if bad fd then Some (Inl fd, w1)
       else do { (r, w2) \<leftarrow> u_fstat ds w1 fd; (_, w3) \<leftarrow> u_close ds w2 fd; Some (Inr r, w3) }
     }"

end
