(* ===== verification/File_Props.thy ===== *)
theory File_Props
  imports Ufile Fs_Demo Fork_Lemmas
begin

text \<open>The file device of the library and the file server put together.\<close>

unbundle bit_operations_syntax

section \<open>Growing a file\<close>

lemma ROUND_page:
  assumes "a \<le> MAXFILESIZE" "a \<noteq> 0"
  shows "4096 \<le> unat (ROUND a BY2PG)"
proof -
  have r: "ROUND a BY2PG = ROUNDDOWN (a + 4095) BY2PG" by (simp add: ROUND_def ROUNDDOWN_def BY2PG_def add.commute)
  have "unat a \<le> 4194304" using assms(1) by (simp add: MAXFILESIZE_def word_le_nat_alt)
  then have u: "unat (a + 4095) = unat a + 4095" by (simp add: unat_word_ariths)
  have "1 \<le> unat a" using assms(2) by (simp add: unat_gt_0 Suc_le_eq)
  then have "1 \<le> vpn (a + 4095)" by (simp add: vpn_def u)
  then have "1 \<le> vpn (ROUND a BY2PG)" by (simp add: r ROUNDDOWN_page)
  then show ?thesis by (simp add: vpn_def)
qed

lemma file_map_far: "1024 \<le> unat off \<Longrightarrow> file_map_block s p off True = Some (Inl E_INVAL, s)"
  by (simp add: file_map_block_def file_block_walk_def NDIRECT_def NINDIRECT_def)

text \<open>
  C28. A file of an old size other than 0 cannot be made longer by a page, even when the server has
  accepted the new size (answered 0 to the first request). The library asks for the first new block
  by its offset in bytes; the server takes that for the index of a block, beyond the end of every
  file, and answers \<open>-E_INVAL\<close>; the library then sets the old size again and fails. For an empty file
  the offset is 0, which is also the index of its first block: that case is left out.
\<close>

theorem growing_a_file_fails:
  assumes "fd_lookup (mach w) fdnum = Inr fd" "ld32 (mach w) (fd + off_dev_id) = Some DEV_FILE"
    "ld32 (mach w) (fd + off_fileid) = Some fileid" "ld32 (mach w) (fd + off_fsize) = Some oldsize"
    "oldsize \<noteq> 0" "oldsize \<le> MAXFILESIZE" "sz \<le> MAXFILESIZE" "ROUND oldsize BY2PG < ROUND sz BY2PG"
    "answers w = (0, None) # (result_word (fst (the (file_get_block f p (ROUND oldsize BY2PG)))), None) # (x, None) # rest"
  shows "file_get_block f p (ROUND oldsize BY2PG) = Some (Inl E_INVAL, f)
    \<and> u_ftruncate w fdnum sz = Some (code E_INVAL,
        w\<lparr>asked := asked w @ [RSetSize fileid sz, RMap fileid (ROUND oldsize BY2PG), RSetSize fileid oldsize],
          answers := rest\<rparr>)"
proof -
  have far: "1024 \<le> unat (ROUND oldsize BY2PG)" using ROUND_page [OF assms(6,5)] by simp
  then have g: "file_get_block f p (ROUND oldsize BY2PG) = Some (Inl E_INVAL, f)"
    by (simp add: file_get_block_def file_map_far)
  have r: "result_word (Inl E_INVAL :: error + nat) = - 3" "code E_INVAL = - 3"
    by (simp_all add: result_word_def err_word_def code_def)
  have "unat (ROUND oldsize BY2PG) < unat (ROUND sz BY2PG)" using assms(8) by (simp add: word_less_nat_alt)
  moreover have "unat (ROUND sz BY2PG) \<le> 4194304 + 4095"
  proof -
    have "ROUND sz BY2PG \<le> sz + 4095" by (simp add: ROUND_def BY2PG_def add.commute word_and_le2)
    moreover have "unat (sz + 4095) = unat sz + 4095" "unat sz \<le> 4194304"
      using assms(7) by (simp_all add: MAXFILESIZE_def word_le_nat_alt unat_word_ariths)
    ultimately show ?thesis by (simp add: word_le_nat_alt)
  qed
  ultimately have "unat (ROUND oldsize BY2PG + BY2PG) = unat (ROUND oldsize BY2PG) + 4096"
    by (simp add: BY2PG_def unat_word_ariths)
  then have nw: "\<not> (ROUND sz BY2PG \<le> ROUND oldsize BY2PG \<or> ROUND oldsize BY2PG + BY2PG \<le> ROUND oldsize BY2PG)"
    using assms(8) by (simp add: word_le_nat_alt word_less_nat_alt)
  have b: "bad (- 3)" "\<not> bad 0" by (simp_all add: bad_def)
  define w1 where "w1 = w\<lparr>asked := asked w @ [RSetSize fileid sz],
      answers := (- 3, None) # (x, None) # rest\<rparr>"
  have s: "fsipc_set_size w fileid sz = Some (0, w1)"
    using assms(9) g r by (simp add: fsipc_set_size_def fsipc_def w1_def)
  have "grow_pages w1 fileid (fd2data fd) oldsize (ROUND oldsize BY2PG) (ROUND sz BY2PG)
      = Some (- 3, w\<lparr>asked := asked w @ [RSetSize fileid sz, RMap fileid (ROUND oldsize BY2PG), RSetSize fileid oldsize],
          answers := rest\<rparr>)"
    using nw b by (subst grow_pages.simps)
      (simp add: fsipc_map_def fsipc_set_size_def fsipc_def w1_def)
  then show ?thesis using g r b s assms(1-4) linorder_not_less [of MAXFILESIZE sz] assms(7)
    by (simp add: u_ftruncate_def)
qed

text \<open>A program with one open file, descriptor 0, of one page and the id 5.\<close>

definition demo_fd_page :: "nat \<Rightarrow> u8" where
  "demo_fd_page = (\<lambda>_. 0)(0 := 102, 12 := 5, 145 := 0x10)"

definition demo_reader :: uworld where
  "demo_reader = \<lparr>mach = \<lparr>own = \<lparr>tab = (\<lambda>d. d = 831), pte = (\<lambda>_. 0)(850944 := pte_of 8 7)\<rparr>,
       envsp = (\<lambda>_. None), page = (\<lambda>_ _. 0)(8 := demo_fd_page), prefs = (\<lambda>_. 1), dirt = (\<lambda>_. False),
       upcall = (\<lambda>_. None), started = (\<lambda>_. False), regs = (\<lambda>_. None), pgf_set = False\<rparr>,
     cin = [], cout = [], asked = [], answers = [(0, None), (- 3, None), (0, None)]\<rparr>"

lemma demo_refused: "fst (the (file_get_block demo_fs (3, 0) (ROUND 4096 BY2PG))) = Inl E_INVAL"
  by code_simp

lemma growing_a_file_fails_witness:
  "map_option fst (u_ftruncate demo_reader 0 8192) = Some (code E_INVAL)"
proof -
  have e: "present (pte_of 8 7)" "has (pte_of 8 7) PTE_U" "frame_of (pte_of 8 7) = 8" by code_simp+
  have "PDX 0xcfc00000 = 831" "VPN 0xcfc00000 = 850944" by code_simp+
  then have i: "pdxn 0xcfc00000 = 831" "vpnn 0xcfc00000 = 850944" by (simp_all add: pdxn_def vpnn_def)
  have "ld8 (mach demo_reader) (0xcfc00000 + k) = Some (demo_fd_page (unat k))" if "k < 4096" for k :: u32
  proof -
    have u: "unat (0xcfc00000 + k) = 850944 * 4096 + unat k" using that by (simp add: unat_word_ariths word_less_nat_alt)
    have "unat k < 4096" using that by (simp add: word_less_nat_alt)
    then have "vpn (0xcfc00000 + k) = 850944" "pgoff (0xcfc00000 + k) = unat k"
      unfolding vpn_def pgoff_def u by (simp_all only: mod_mult_self3 mod_less)
    then show ?thesis by (simp add: ld8_def mapped_page_def demo_reader_def e)
  qed
  note l = this [of 0] this [of 1] this [of 2] this [of 3] this [of 12] this [of 13] this [of 14] this [of 15]
    this [of 144] this [of 145] this [of 146] this [of 147]
  have "fd_lookup (mach demo_reader) 0 = Inr 0xcfc00000"
    by (simp add: fd_lookup_def INDEX2FD_def FDTABLE_def FILEBASE_def PDMAP_def MAXFD_def Let_def i)
      (simp add: demo_reader_def vpd_def e)
  moreover have "ld32 (mach demo_reader) (0xcfc00000 + off_dev_id) = Some DEV_FILE"
    using l by (simp add: ld32_def off_dev_id_def DEV_FILE_def demo_fd_page_def word_of_bytes_def)
  moreover have "ld32 (mach demo_reader) (0xcfc00000 + off_fileid) = Some 5"
    using l by (simp add: ld32_def off_fileid_def demo_fd_page_def word_of_bytes_def)
  moreover have "ld32 (mach demo_reader) (0xcfc00000 + off_fsize) = Some 4096"
    using l by (simp add: ld32_def off_fsize_def demo_fd_page_def word_of_bytes_def)
  moreover have "(4096 :: u32) \<le> MAXFILESIZE" "(8192 :: u32) \<le> MAXFILESIZE"
    "ROUND 4096 BY2PG < ROUND 8192 BY2PG" by code_simp+
  moreover have "answers demo_reader = (0, None) # (result_word (fst (the (file_get_block demo_fs (3, 0)
      (ROUND 4096 BY2PG)))), None) # (0, None) # []"
    unfolding demo_refused by (simp add: demo_reader_def result_word_def err_word_def)
  ultimately show ?thesis
    using growing_a_file_fails [where w = demo_reader and fdnum = 0 and fd = "0xcfc00000" and oldsize = 4096
      and sz = 8192 and f = demo_fs and p = "(3, 0)" and x = 0 and rest = "[]"] by simp
qed

end
