(* ===== verification/Boot.thy ===== *)
theory Boot
  imports Trap Bytes
begin

text \<open>
  The start of the kernel: the boot part of \<open>kern/pmap.c\<close>, and from \<open>kern/init.c\<close> the order in
  which memory and the first environments are set up.

  The state is that of the kernel with the variables that only this part uses. The page
  directory is again the number of its frame, and the arrays \<open>pages\<close> and \<open>envs\<close> are the fields
  of the kernel state; their addresses are kept as \<open>pages_va\<close> and \<open>envs_va\<close>. Addresses fixed
  by the linker, the content of the battery backed memory and the programs built into the
  kernel are parameters.
\<close>

unbundle bit_operations_syntax

section \<open>State\<close>

record boot =
  kst :: kstate
  basemem :: u32
  extmem :: u32
  maxpa :: u32
  freemem :: u32
  boot_cr3 :: u32
  pages_va :: u32
  envs_va :: u32
  cr0 :: u32

record linker =
  kend :: u32
  bootstack :: u32

definition on_kst :: "(kstate \<Rightarrow> kstate) \<Rightarrow> boot \<Rightarrow> boot" where
  "on_kst f b = b\<lparr>kst := f (kst b)\<rparr>"

definition set_word :: "nat \<Rightarrow> nat \<Rightarrow> u32 \<Rightarrow> boot \<Rightarrow> boot" where
  "set_word t j w = on_kst (\<lambda>s. set_phys s t j w)"

text \<open>The sizes of \<open>struct Page\<close> and \<open>struct Env\<close>.\<close>

definition SIZEOF_PAGE :: u32 where "SIZEOF_PAGE = 12"
definition SIZEOF_ENV :: u32 where "SIZEOF_ENV = 128"

definition PADDR :: "u32 \<Rightarrow> u32 option" where
  "PADDR kva = (if kva < KERNBASE then None else Some (kva - KERNBASE))"

section \<open>How much memory there is\<close>

definition NVRAM_BASELO :: nat where "NVRAM_BASELO = 0xe + 7"

definition nvram_read :: "(nat \<Rightarrow> u8) \<Rightarrow> nat \<Rightarrow> u32" where
  "nvram_read cmos r = ucast (cmos r) OR push_bit 8 (ucast (cmos (r + 1)))"

text \<open>The comparison with 0 is on an unsigned number: a sum below 1 MB wraps.\<close>

definition i386_detect_memory :: "(nat \<Rightarrow> u8) \<Rightarrow> u32 \<Rightarrow> u32 \<Rightarrow> boot \<Rightarrow> boot" where
  "i386_detect_memory cmos l h b =
     (let base = ROUNDDOWN (nvram_read cmos NVRAM_BASELO * 1024) BY2PG;
          ext0 = l + h - 1024 * 1024;
          ext1 = (if ext0 < 0 then 0 else ext0);
          s1 = kprintf_msg ''base = %dK, extended = %dK\<newline>\<newline>'' [base div 1024, ext1 div 1024]
                 (kprintf_msg ''Physical memory: %dK available, '' [maxpa b div 1024]
                   (kprintf_msg ''Detecting memory...\<newline>'' [] (kst b)));
          (ext2, s2) = (if ext1 \<ge> 255 * 1024 * 1024
                 then (255 * 1024 * 1024 - 1,
                       kprintf_msg ''This operating system can only manage at most 256M memry!\<newline>\<newline>'' [] s1)
                 else (ext1, s1));
          top = (if ext2 \<noteq> 0 then EXTPHYSMEM + ext2 else base);
          s3 = s2\<lparr>npage := unat (top div BY2PG)\<rparr>
      in b\<lparr>basemem := base, extmem := ext2, maxpa := top,
           kst := kprintf_msg ''base = %dK, extended = %dK\<newline>'' [base div 1024, ext2 div 1024]
                    (kprintf_msg ''Physical memory: %dK available, '' [top div 1024] s3)\<rparr>)"

section \<open>The first allocator\<close>

text \<open>The bytes of memory from a physical address on are cleared.\<close>

definition zero_bytes :: "nat \<Rightarrow> nat \<Rightarrow> nat \<Rightarrow> u32 \<Rightarrow> u32" where
  "zero_bytes lo hi a w = fold (\<lambda>c w. if lo \<le> a + c \<and> a + c < hi then put_byte w c 0 else w) [0, 1, 2, 3] w"

definition clear_phys :: "nat \<Rightarrow> nat \<Rightarrow> physmem \<Rightarrow> physmem" where
  "clear_phys lo n m = (\<lambda>t j. if j < 1024 then zero_bytes lo (lo + n) (4096 * t + 4 * j) (m t j) else m t j)"

definition alloc :: "linker \<Rightarrow> u32 \<Rightarrow> u32 \<Rightarrow> bool \<Rightarrow> boot \<Rightarrow> (u32 \<times> boot) option" where
  "alloc lk n align clear b =
     (let start = (if freemem b = 0 then kend lk else freemem b);
          v = ROUND start align
      in if v + n > KERNBASE + maxpa b \<or> v + n < v then None
         else
           let b1 = b\<lparr>freemem := v + n\<rparr>
           in Some (v, if clear
                then on_kst (\<lambda>s. s\<lparr>phys := clear_phys (unat (v - KERNBASE)) (unat n) (phys s)\<rparr>) b1
                else b1))"

section \<open>The first address space\<close>

definition boot_pgdir_walk ::
    "linker \<Rightarrow> nat \<Rightarrow> u32 \<Rightarrow> bool \<Rightarrow> boot \<Rightarrow> ((nat \<times> nat) option \<times> boot) option" where
  "boot_pgdir_walk lk d va create b =
     (if \<not> present (phys (kst b) d (pdx va)) \<and> \<not> create then Some (None, b)
      else
        do {
          b2 \<leftarrow> (if \<not> present (phys (kst b) d (pdx va))
                then do {
                  (pt, b1) \<leftarrow> alloc lk BY2PG BY2PG True b;
                  pa \<leftarrow> PADDR pt;
                  Some (set_word d (pdx va) (pa OR PTE_W OR PTE_U OR PTE_P) b1)
                }
                else Some b);
          t \<leftarrow> KADDR (kst b2) (PTE_ADDR (phys (kst b2) d (pdx va)));
          Some (Some (t, ptx va), b2)
        })"

definition map_page :: "linker \<Rightarrow> nat \<Rightarrow> u32 \<Rightarrow> u32 \<Rightarrow> u32 \<Rightarrow> nat \<Rightarrow> boot \<Rightarrow> boot option" where
  "map_page lk d va pa perm i b =
     do {
       (r, b1) \<leftarrow> boot_pgdir_walk lk d (va + of_nat i * BY2PG) True b;
       (t, j) \<leftarrow> r;
       Some (set_word t j (PTE_ADDR (pa + of_nat i * BY2PG) OR perm OR PTE_P) b1)
     }"

definition pages_of :: "u32 \<Rightarrow> nat list" where
  "pages_of n = [0..<(unat n + 4095) div 4096]"

definition boot_map_segment :: "linker \<Rightarrow> nat \<Rightarrow> u32 \<Rightarrow> u32 \<Rightarrow> u32 \<Rightarrow> u32 \<Rightarrow> boot \<Rightarrow> boot option" where
  "boot_map_segment lk d va sz pa perm b = mfold (map_page lk d va pa perm) (pages_of sz) b"

section \<open>The check of the first address space\<close>

definition check_range :: "kstate \<Rightarrow> nat \<Rightarrow> u32 \<Rightarrow> u32 \<Rightarrow> u32 \<Rightarrow> bool" where
  "check_range s d va pa sz =
     list_all (\<lambda>i. va2pa s d (va + of_nat i * BY2PG) = Some (pa + of_nat i * BY2PG)) (pages_of sz)"

definition check_pde :: "kstate \<Rightarrow> nat \<Rightarrow> nat \<Rightarrow> bool" where
  "check_pde s d i =
     (if i \<in> {pdx VPT, pdx UVPT, pdx (KSTACKTOP - 1), pdx UPAGES, pdx UENVS} \<or> i \<ge> pdx KERNBASE
      then phys s d i \<noteq> 0 else phys s d i = 0)"

definition env_count :: u32 where "env_count = of_nat NENV"

definition check_boot_pgdir :: "linker \<Rightarrow> boot \<Rightarrow> unit option" where
  "check_boot_pgdir lk b =
     (let s = kst b; d = boot_pgdir s in
      do {
        ppa \<leftarrow> PADDR (pages_va b);
        epa \<leftarrow> PADDR (envs_va b);
        spa \<leftarrow> PADDR (bootstack lk);
        if check_range s d UPAGES ppa (ROUND (of_nat (npage s) * SIZEOF_PAGE) BY2PG)
          \<and> check_range s d UENVS epa (ROUND (env_count * SIZEOF_ENV) BY2PG)
          \<and> check_range s d KERNBASE 0 (- KERNBASE)
          \<and> check_range s d (KSTACKTOP - KSTKSIZE) spa KSTKSIZE
          \<and> list_all (check_pde s d) [0..<PDE2PD]
        then Some () else None
      })"

section \<open>Setting up the address space\<close>

definition CR0_PE :: u32 where "CR0_PE = 0x1"
definition CR0_MP :: u32 where "CR0_MP = 0x2"
definition CR0_EM :: u32 where "CR0_EM = 0x4"
definition CR0_TS :: u32 where "CR0_TS = 0x8"
definition CR0_NE :: u32 where "CR0_NE = 0x20"
definition CR0_WP :: u32 where "CR0_WP = 0x10000"
definition CR0_AM :: u32 where "CR0_AM = 0x40000"
definition CR0_PG :: u32 where "CR0_PG = 0x80000000"

definition zero_page_entry :: "kstate \<Rightarrow> kstate" where
  "zero_page_entry s = s\<lparr>pp_ref := (\<lambda>_. 0),
     page_free_list := (page_free_list s)\<lparr>le_next := (\<lambda>_. None), le_prev := (\<lambda>_. None)\<rparr>\<rparr>"

definition zero_env_entries :: "kstate \<Rightarrow> kstate" where
  "zero_env_entries s = s\<lparr>envs := (\<lambda>_. zero_env),
     env_free_list := (env_free_list s)\<lparr>le_next := (\<lambda>_. None), le_prev := (\<lambda>_. None)\<rparr>\<rparr>"

text \<open>The two arrays; \<open>alloc\<close> has cleared them.\<close>

definition map_pages_array :: "linker \<Rightarrow> nat \<Rightarrow> boot \<Rightarrow> boot option" where
  "map_pages_array lk d b =
     do {
       let n = of_nat (npage (kst b)) * SIZEOF_PAGE;
       (v, b1) \<leftarrow> alloc lk n BY2PG True b;
       let b2 = on_kst zero_page_entry (b1\<lparr>pages_va := v\<rparr>);
       pa \<leftarrow> PADDR v;
       boot_map_segment lk d UPAGES n pa (PTE_W OR PTE_U OR PTE_P) b2
     }"

definition map_envs_array :: "linker \<Rightarrow> nat \<Rightarrow> boot \<Rightarrow> boot option" where
  "map_envs_array lk d b =
     do {
       let n = env_count * SIZEOF_ENV;
       (v, b1) \<leftarrow> alloc lk n BY2PG True b;
       let b2 = on_kst zero_env_entries (b1\<lparr>envs_va := v\<rparr>);
       pa \<leftarrow> PADDR v;
       boot_map_segment lk d UENVS n pa (PTE_W OR PTE_U OR PTE_P) b2
     }"

definition turn_on_paging :: "nat \<Rightarrow> boot \<Rightarrow> boot" where
  "turn_on_paging d b =
     (let b1 = set_word d 0 (phys (kst b) d (pdx KERNBASE)) b;
          b2 = on_kst (\<lambda>s. s\<lparr>cr3 := boot_cr3 b1\<rparr>) b1;
          c = cr0 b2 OR CR0_PE OR CR0_PG OR CR0_AM OR CR0_WP OR CR0_NE OR CR0_TS OR CR0_EM OR CR0_MP;
          b3 = b2\<lparr>cr0 := c AND NOT (CR0_TS OR CR0_EM)\<rparr>;
          b4 = set_word d 0 0 b3
      in on_kst (\<lambda>s. s\<lparr>cr3 := boot_cr3 b4\<rparr>) b4)"

definition i386_vm_init :: "linker \<Rightarrow> boot \<Rightarrow> boot option" where
  "i386_vm_init lk b =
     do {
       (v, b1) \<leftarrow> alloc lk BY2PG BY2PG True b;
       pa \<leftarrow> PADDR v;
       let d = frame_of pa;
       let b2 = on_kst (\<lambda>s. s\<lparr>boot_pgdir := d\<rparr>) (b1\<lparr>boot_cr3 := pa\<rparr>);
       let b3 = set_word d (pdx VPT) (pa OR PTE_W OR PTE_P) b2;
       let b4 = set_word d (pdx UVPT) (pa OR PTE_U OR PTE_P) b3;
       spa \<leftarrow> PADDR (bootstack lk);
       b5 \<leftarrow> boot_map_segment lk d (KSTACKTOP - KSTKSIZE) KSTKSIZE spa PTE_W b4;
       let b6 = fold (\<lambda>i. set_word d i 0) [pdx (KSTACKTOP - PDMAP)..<pdx (KSTACKTOP - KSTKSIZE)] b5;
       b7 \<leftarrow> boot_map_segment lk d KERNBASE (- KERNBASE) 0 PTE_W b6;
       b8 \<leftarrow> map_pages_array lk d b7;
       b9 \<leftarrow> map_envs_array lk d b8;
       _ \<leftarrow> check_boot_pgdir lk b9;
       Some (turn_on_paging d b9)
     }"

section \<open>The free list\<close>

text \<open>A store beyond the end of \<open>pages\<close> is \<open>None\<close>.\<close>

definition mark_used :: "nat \<Rightarrow> kstate \<Rightarrow> kstate option" where
  "mark_used i s = (if i < npage s then Some (s\<lparr>pp_ref := (pp_ref s)(i := 1)\<rparr>) else None)"

definition mark_free :: "nat \<Rightarrow> kstate \<Rightarrow> kstate option" where
  "mark_free i s =
     (if i < npage s
      then Some (s\<lparr>pp_ref := (pp_ref s)(i := 0), page_free_list := LIST_INSERT_HEAD (page_free_list s) i\<rparr>)
      else None)"

definition page_init :: "boot \<Rightarrow> boot option" where
  "page_init b =
     do {
       let s0 = kst b;
       let s1 = s0\<lparr>page_free_list := LIST_INIT (page_free_list s0)\<rparr>;
       s2 \<leftarrow> mark_used 0 s1;
       let n1 = unat (basemem b div BY2PG);
       s3 \<leftarrow> mfold mark_free [1..<n1] s2;
       let i1 = max 1 n1;
       let n2 = unat (EXTPHYSMEM div BY2PG);
       s4 \<leftarrow> mfold mark_used [i1..<n2] s3;
       let i2 = max i1 n2;
       pa \<leftarrow> PADDR (freemem b);
       let n3 = unat (ROUND pa BY2PG div BY2PG);
       s5 \<leftarrow> mfold mark_used [i2..<n3] s4;
       s6 \<leftarrow> mfold mark_free [max i2 n3..<npage s5] s5;
       Some (b\<lparr>kst := s6\<rparr>)
     }"

section \<open>The test of the page functions\<close>

definition expect :: "bool \<Rightarrow> unit option" where
  "expect c = (if c then Some () else None)"

fun got :: "error + 'a \<Rightarrow> 'a option" where
  "got (Inr x) = Some x"
| "got (Inl e) = None"

definition refused :: "error + 'a \<Rightarrow> bool" where
  "refused r \<longleftrightarrow> (case r of Inl _ \<Rightarrow> True | Inr _ \<Rightarrow> False)"

text \<open>Three pages are taken, and the head of the free list is set aside.\<close>

definition check_take :: "kstate \<Rightarrow> ((nat \<times> nat \<times> nat \<times> nat option) \<times> kstate) option" where
  "check_take s =
     do {
       (r0, s1) \<leftarrow> page_alloc s; pp0 \<leftarrow> got r0;
       (r1, s2) \<leftarrow> page_alloc s1; pp1 \<leftarrow> got r1;
       (r2, s3) \<leftarrow> page_alloc s2; pp2 \<leftarrow> got r2;
       _ \<leftarrow> expect (pp1 \<noteq> pp0);
       _ \<leftarrow> expect (pp2 \<noteq> pp1 \<and> pp2 \<noteq> pp0);
       let fl = lh_first (page_free_list s3);
       let s4 = s3\<lparr>page_free_list := LIST_INIT (page_free_list s3)\<rparr>;
       (r, s5) \<leftarrow> page_alloc s4;
       _ \<leftarrow> expect (r = Inl E_NO_MEM);
       Some ((pp0, pp1, pp2, fl), kprintf_msg ''page_alloc() seems worked!\<newline>'' [] s5)
     }"

definition check_map :: "nat \<Rightarrow> nat \<Rightarrow> nat \<Rightarrow> kstate \<Rightarrow> kstate option" where
  "check_map pp0 pp1 pp2 s =
     do {
       let d = boot_pgdir s;
       (r, s1) \<leftarrow> page_insert s d pp1 0 0;
       _ \<leftarrow> expect (refused r);
       let s2 = page_free s1 pp0;
       (r, s3) \<leftarrow> page_insert s2 d pp1 0 0;
       _ \<leftarrow> expect (r = Inr ());
       _ \<leftarrow> expect (PTE_ADDR (phys s3 d 0) = page2pa pp0);
       _ \<leftarrow> expect (va2pa s3 d 0 = Some (page2pa pp1));
       _ \<leftarrow> expect (pp_ref s3 pp1 = 1);
       (r, s4) \<leftarrow> page_alloc s3;
       _ \<leftarrow> expect (refused r);
       (r, s5) \<leftarrow> page_insert s4 d pp2 BY2PG 0;
       _ \<leftarrow> expect (r = Inr ());
       _ \<leftarrow> expect (va2pa s5 d BY2PG = Some (page2pa pp2));
       _ \<leftarrow> expect (pp_ref s5 pp2 = 1);
       (r, s6) \<leftarrow> page_alloc s5;
       _ \<leftarrow> expect (refused r);
       (r, s7) \<leftarrow> page_alloc s6;
       _ \<leftarrow> expect (r = Inl E_NO_MEM);
       (r, s8) \<leftarrow> page_insert s7 d pp2 BY2PG 0;
       _ \<leftarrow> expect (r = Inr ());
       _ \<leftarrow> expect (va2pa s8 d BY2PG = Some (page2pa pp2));
       _ \<leftarrow> expect (pp_ref s8 pp2 = 1);
       (r, s9) \<leftarrow> page_alloc s8;
       _ \<leftarrow> expect (r = Inl E_NO_MEM);
       (r, s10) \<leftarrow> page_insert s9 d pp0 PDMAP 0;
       _ \<leftarrow> expect (refused r);
       Some s10
     }"

definition check_remap :: "nat \<Rightarrow> nat \<Rightarrow> nat \<Rightarrow> kstate \<Rightarrow> kstate option" where
  "check_remap pp0 pp1 pp2 s =
     do {
       let d = boot_pgdir s;
       (r, s1) \<leftarrow> page_insert s d pp1 BY2PG 0;
       _ \<leftarrow> expect (r = Inr ());
       _ \<leftarrow> expect (va2pa s1 d 0 = Some (page2pa pp1));
       _ \<leftarrow> expect (va2pa s1 d BY2PG = Some (page2pa pp1));
       _ \<leftarrow> expect (pp_ref s1 pp1 = 2);
       _ \<leftarrow> expect (pp_ref s1 pp2 = 0);
       (r, s2) \<leftarrow> page_alloc s1;
       _ \<leftarrow> expect (r = Inr pp2);
       s3 \<leftarrow> page_remove s2 d 0;
       _ \<leftarrow> expect (va2pa s3 d 0 = Some (NOT 0));
       _ \<leftarrow> expect (va2pa s3 d BY2PG = Some (page2pa pp1));
       _ \<leftarrow> expect (pp_ref s3 pp1 = 1);
       _ \<leftarrow> expect (pp_ref s3 pp2 = 0);
       s4 \<leftarrow> page_remove s3 d BY2PG;
       _ \<leftarrow> expect (va2pa s4 d 0 = Some (NOT 0));
       _ \<leftarrow> expect (va2pa s4 d BY2PG = Some (NOT 0));
       _ \<leftarrow> expect (pp_ref s4 pp1 = 0);
       _ \<leftarrow> expect (pp_ref s4 pp2 = 0);
       (r, s5) \<leftarrow> page_alloc s4;
       _ \<leftarrow> expect (r = Inr pp1);
       (r, s6) \<leftarrow> page_alloc s5;
       _ \<leftarrow> expect (r = Inl E_NO_MEM);
       Some s6
     }"

text \<open>The page table is taken back by hand, and the free list is given back.\<close>

definition check_give :: "nat \<Rightarrow> nat \<Rightarrow> nat \<Rightarrow> nat option \<Rightarrow> kstate \<Rightarrow> kstate option" where
  "check_give pp0 pp1 pp2 fl s =
     do {
       let d = boot_pgdir s;
       _ \<leftarrow> expect (PTE_ADDR (phys s d 0) = page2pa pp0);
       let s1 = set_phys s d 0 0;
       _ \<leftarrow> expect (pp_ref s1 pp0 = 1);
       let s2 = s1\<lparr>pp_ref := (pp_ref s1)(pp0 := 0)\<rparr>;
       let s3 = s2\<lparr>page_free_list := (page_free_list s2)\<lparr>lh_first := fl\<rparr>\<rparr>;
       let s4 = page_free s3 pp0;
       let s5 = page_free s4 pp1;
       let s6 = page_free s5 pp2;
       Some s6
     }"

definition page_check :: "kstate \<Rightarrow> kstate option" where
  "page_check s =
     do {
       ((pp0, pp1, pp2, fl), s1) \<leftarrow> check_take s;
       s2 \<leftarrow> check_map pp0 pp1 pp2 s1;
       s3 \<leftarrow> check_remap pp0 pp1 pp2 s2;
       check_give pp0 pp1 pp2 fl s3
     }"

section \<open>The order of the start\<close>

text \<open>From \<open>i386_init\<close>: memory, the table of environments, the first programs, the scheduler.\<close>

definition init_memory :: "(nat \<Rightarrow> u8) \<Rightarrow> linker \<Rightarrow> u32 \<Rightarrow> u32 \<Rightarrow> boot \<Rightarrow> boot option" where
  "init_memory cmos lk l h b =
     do {
       b1 \<leftarrow> i386_vm_init lk (i386_detect_memory cmos l h b);
       b2 \<leftarrow> page_init b1;
       s \<leftarrow> page_check (kst b2);
       Some (b2\<lparr>kst := s\<rparr>)
     }"

definition load_programs :: "((nat \<Rightarrow> u32) \<times> u32) list \<Rightarrow> kstate \<Rightarrow> kstate option" where
  "load_programs programs s = mfold (\<lambda>(binary, sz) s. env_create s binary sz) programs s"

text \<open>The keyboard is drained last; a Ctrl-C that waits there is applied to no environment.\<close>

definition init_envs :: "((nat \<Rightarrow> u32) \<times> u32) list \<Rightarrow> u8 list \<Rightarrow> kstate \<Rightarrow> kstate option" where
  "init_envs programs input s =
     do {
       s1 \<leftarrow> load_programs programs (env_init s);
       r \<leftarrow> kbd_intr s1 input;
       case r of Ret s2 \<Rightarrow> Some (sched_yield s2) | Sched s2 \<Rightarrow> Some s2
     }"

end
