(* ===== verification/Boot_Vm.thy ===== *)
theory Boot_Vm
  imports Boot Vm_Ops
begin

text \<open>
  The address space that \<open>i386_vm_init\<close> builds. The invariant of the first allocator counts
  the frames that are taken (\<open>lo\<close>); page tables are taken one by one as segments are mapped,
  and each segment is an update of the map of the address space.
\<close>

unbundle bit_operations_syntax

section \<open>Rounding and clearing\<close>

lemma ROUND_frames:
  assumes "unat a + 4095 < 2 ^ 32"
  shows "unat (ROUND a BY2PG) = (unat a + 4095) div 4096 * 4096"
proof -
  have "ROUND a BY2PG = (a + 4095) AND NOT 0xFFF" by (simp add: ROUND_def BY2PG_def add.commute)
  moreover have "unat (a + 4095) = unat a + 4095" using assms by (simp add: unat_word_ariths)
  ultimately show ?thesis using unat_page_start [of "a + 4095"] by simp
qed

lemma zero_bytes_out: "(\<And>c. c < 4 \<Longrightarrow> a + c < lo \<or> hi \<le> a + c) \<Longrightarrow> zero_bytes lo hi a w = w"
proof -
  assume h: "\<And>c. c < 4 \<Longrightarrow> a + c < lo \<or> hi \<le> a + c"
  have "\<not> (lo \<le> a + c \<and> a + c < hi)" if "c < 4" for c using h [OF that] by auto
  from this [of 0] this [of 1] this [of 2] this [of 3] show ?thesis by (auto simp: zero_bytes_def)
qed

lemma zero_bytes_in: "lo \<le> a \<Longrightarrow> a + 4 \<le> hi \<Longrightarrow> zero_bytes lo hi a w = 0"
proof -
  assume "lo \<le> a" "a + 4 \<le> hi"
  then have "zero_bytes lo hi a w = put_byte (put_byte (put_byte (put_byte w 0 0) 1 0) 2 0) 3 0"
    by (simp add: zero_bytes_def)
  moreover have "put_byte (put_byte (put_byte (put_byte w 0 0) 1 0) 2 0) 3 0 = 0"
  proof (rule bit_word_eqI)
    fix n :: nat assume "n < LENGTH(32)"
    then have "n < 8 \<or> 8 \<le> n \<and> n < 16 \<or> 16 \<le> n \<and> n < 24 \<or> 24 \<le> n \<and> n < 32" by auto
    moreover have m: "(0xFF :: u32) = mask 8" by (simp add: mask_eq_exp_minus_1)
    ultimately show "bit (put_byte (put_byte (put_byte (put_byte w 0 0) 1 0) 2 0) 3 0) n = bit 0 n"
      by (auto simp: put_byte_def m bit_simps)
  qed
  ultimately show ?thesis by simp
qed

lemma clear_phys_below: "4096 * t + 4096 \<le> lo \<Longrightarrow> clear_phys lo n m t = m t"
  by (rule ext) (auto simp: clear_phys_def intro: zero_bytes_out)

lemma clear_phys_page: "j < 1024 \<Longrightarrow> clear_phys (4096 * t) 4096 m t j = 0"
  by (auto simp: clear_phys_def intro: zero_bytes_in)

section \<open>The invariant of the first allocator\<close>

definition lo :: "boot \<Rightarrow> nat" where
  "lo b = (unat (freemem b) - unat KERNBASE + 4095) div 4096"

text \<open>The two entries of the directory that name the directory itself.\<close>

definition self_slots :: "nat set" where "self_slots = {959, 957}"

definition slots :: "nat \<Rightarrow> boot \<Rightarrow> nat set" where
  "slots d b = {i. i < 1024 \<and> i \<notin> self_slots \<and> present (phys (kst b) d i)}"

definition table :: "nat \<Rightarrow> boot \<Rightarrow> nat \<Rightarrow> nat" where
  "table d b i = frame_of (phys (kst b) d i)"

definition mem_ok :: "boot \<Rightarrow> bool" where
  "mem_ok b \<longleftrightarrow> unat (maxpa b) < 2 ^ 28 \<and> npage (kst b) = unat (maxpa b) div 4096
     \<and> KERNBASE \<le> freemem b \<and> unat (freemem b) \<le> unat KERNBASE + 4096 * npage (kst b)"

definition boot_ok :: "nat \<Rightarrow> boot \<Rightarrow> bool" where
  "boot_ok d b \<longleftrightarrow> mem_ok b \<and> d < lo b
     \<and> (\<forall>i \<in> slots d b. table d b i < lo b \<and> table d b i \<noteq> d)
     \<and> inj_on (table d b) (slots d b)
     \<and> (\<forall>i < 1024. \<not> present (phys (kst b) d i) \<longrightarrow> phys (kst b) d i = 0)"

text \<open>What the first allocator and the mapping of segments leave alone.\<close>

definition boot_rest :: "boot \<Rightarrow> boot \<Rightarrow> bool" where
  "boot_rest b b' \<longleftrightarrow> (\<exists>m f. b' = b\<lparr>kst := (kst b)\<lparr>phys := m\<rparr>, freemem := f\<rparr>)"

lemma boot_restI: "b' = b\<lparr>kst := (kst b)\<lparr>phys := m\<rparr>, freemem := f\<rparr> \<Longrightarrow> boot_rest b b'"
  by (auto simp: boot_rest_def)

lemma boot_rest_trans: "boot_rest a b \<Longrightarrow> boot_rest b c \<Longrightarrow> boot_rest a c"
  unfolding boot_rest_def by (elim exE) (rule exI, rule exI, simp)

lemma boot_rest_refl [simp]: "boot_rest b b"
proof -
  have "b = b\<lparr>kst := (kst b)\<lparr>phys := phys (kst b)\<rparr>, freemem := freemem b\<rparr>" by simp
  then show ?thesis unfolding boot_rest_def by blast
qed

lemma boot_rest_fields:
  assumes "boot_rest b b'"
  shows "maxpa b' = maxpa b" "npage (kst b') = npage (kst b)" "basemem b' = basemem b"
    "boot_pgdir (kst b') = boot_pgdir (kst b)" "pages_va b' = pages_va b" "envs_va b' = envs_va b"
    "boot_cr3 b' = boot_cr3 b" "kst b' = (kst b)\<lparr>phys := phys (kst b')\<rparr>"
  using assms by (auto simp: boot_rest_def)

lemma lo_limit:
  assumes "mem_ok b"
  shows "lo b \<le> npage (kst b)" "npage (kst b) < 2 ^ 16"
proof -
  have f: "unat (freemem b) \<le> unat KERNBASE + 4096 * npage (kst b)" "unat (maxpa b) < 2 ^ 28"
    "npage (kst b) = unat (maxpa b) div 4096"
    using assms by (simp_all add: mem_ok_def)
  then show "npage (kst b) < 2 ^ 16" by simp
  have "unat (freemem b) - unat KERNBASE \<le> 4096 * npage (kst b)" using f(1) by simp
  then show "lo b \<le> npage (kst b)" unfolding lo_def by simp
qed

lemma unat_page2pa: "p < 2 ^ 20 \<Longrightarrow> unat (page2pa p) = 4096 * p"
  by (simp add: page2pa_def PGSHIFT_def push_bit_eq_mult unat_word_ariths word_nat)

section \<open>alloc\<close>

lemma alloc_ok:
  assumes m: "mem_ok b" and n: "lo b + (unat n + 4095) div 4096 \<le> npage (kst b)"
  shows "\<exists>b'. alloc lk n BY2PG True b = Some (KERNBASE + page2pa (lo b), b') \<and> mem_ok b' \<and> boot_rest b b'
    \<and> lo b' = lo b + (unat n + 4095) div 4096
    \<and> phys (kst b') = clear_phys (4096 * lo b) (unat n) (phys (kst b))"
proof -
  define v where "v = ROUND (freemem b) BY2PG"
  have f: "KERNBASE \<le> freemem b" "unat (freemem b) \<le> unat KERNBASE + 4096 * npage (kst b)"
    "unat (maxpa b) < 2 ^ 28" "npage (kst b) = unat (maxpa b) div 4096"
    using m by (simp_all add: mem_ok_def)
  have np: "npage (kst b) < 65536" using f(3,4) by simp
  have K: "unat KERNBASE = 983040 * 4096" by (simp add: layout)
  have g: "983040 * 4096 \<le> unat (freemem b)" using f(1) K by (simp add: word_le_nat_alt)
  define x where "x = unat (freemem b) - 983040 * 4096"
  have x: "unat (freemem b) = 983040 * 4096 + x" using g by (simp add: x_def)
  have xl: "x \<le> 4096 * npage (kst b)" using f(2) K x by simp
  then have "unat (freemem b) + 4095 < 2 ^ 32" using x np by simp
  then have "unat v = (983040 * 4096 + x + 4095) div 4096 * 4096" unfolding v_def by (simp only: ROUND_frames x)
  moreover have "(983040 * 4096 + x + 4095) div 4096 = 983040 + lo b"
    unfolding lo_def K x by (simp add: add.assoc)
  ultimately have v: "unat v = unat KERNBASE + 4096 * lo b" using K by simp
  have l: "lo b < 65536" using lo_limit [OF m] np by simp
  have pl: "unat (page2pa (lo b)) = 4096 * lo b" using l by (simp add: unat_page2pa)
  have veq: "v = KERNBASE + page2pa (lo b)"
  proof (rule unsigned_word_eqI [where ?'a = nat])
    show "unat v = unat (KERNBASE + page2pa (lo b))"
      using v pl l K by (simp add: unat_word_ariths)
  qed
  define c where "c = (unat n + 4095) div 4096"
  have nc: "unat n \<le> 4096 * c" unfolding c_def by simp
  have "4096 * lo b + 4096 * c \<le> 4096 * npage (kst b)" using n by (simp add: c_def)
  then have lim: "4096 * lo b + unat n \<le> 4096 * npage (kst b)" "4096 * npage (kst b) \<le> unat (maxpa b)"
    using nc f(4) by simp_all
  have vn: "unat (v + n) = unat KERNBASE + 4096 * lo b + unat n"
    using v lim np K by (simp add: unat_word_ariths)
  have km: "unat (KERNBASE + maxpa b) = unat KERNBASE + unat (maxpa b)"
    using f(3) K by (simp add: unat_word_ariths)
  have ok: "\<not> (v + n > KERNBASE + maxpa b \<or> v + n < v)"
    using vn v km lim by (simp add: word_less_nat_alt)
  define b' where "b' = on_kst (\<lambda>s. s\<lparr>phys := clear_phys (unat (v - KERNBASE)) (unat n) (phys s)\<rparr>) (b\<lparr>freemem := v + n\<rparr>)"
  have nz: "freemem b \<noteq> 0" using f(1) by (auto simp: layout)
  have run: "alloc lk n BY2PG True b = Some (v, b')"
    using ok nz by (simp add: alloc_def b'_def v_def Let_def)
  have vk: "unat (v - KERNBASE) = 4096 * lo b" using veq pl by simp
  have fm: "freemem b' = v + n" by (simp add: b'_def on_kst_def)
  have "mem_ok b'" using f vn lim K by (simp add: mem_ok_def b'_def on_kst_def word_le_nat_alt)
  moreover have "boot_rest b b'"
    by (rule boot_restI [where m = "clear_phys (unat (v - KERNBASE)) (unat n) (phys (kst b))" and f = "v + n"])
      (simp add: b'_def on_kst_def)
  moreover have "lo b' = lo b + c" unfolding lo_def [of b'] fm vn c_def by simp
  ultimately show ?thesis using run veq vk by (simp add: b'_def on_kst_def c_def)
qed

section \<open>boot_pgdir_walk\<close>

text \<open>The map of the address space, without the directory's own two slots.\<close>

definition mapped_at :: "nat \<Rightarrow> boot \<Rightarrow> u32 \<Rightarrow> u32 option" where
  "mapped_at d b va = vm_lookup (phys (kst b)) d va"

definition ordinary :: "u32 \<Rightarrow> bool" where "ordinary va \<longleftrightarrow> pdx va \<notin> self_slots"

lemma mapped_at_eq:
  "ordinary va \<Longrightarrow> mapped_at d b va = (if pdx va \<in> slots d b
     then let w = phys (kst b) (table d b (pdx va)) (ptx va) in if present w then Some w else None else None)"
  by (simp add: mapped_at_def vm_lookup_def slots_def table_def ordinary_def pdx_less Let_def)

lemma set_word_simps [simp]:
  "freemem (set_word t j w b) = freemem b" "maxpa (set_word t j w b) = maxpa b"
  "npage (kst (set_word t j w b)) = npage (kst b)" "lo (set_word t j w b) = lo b"
  "mem_ok (set_word t j w b) = mem_ok b" "KADDR (kst (set_word t j w b)) pa = KADDR (kst b) pa"
  "phys (kst (set_word t j w b)) = put_word (phys (kst b)) t j w"
  by (simp_all add: set_word_def on_kst_def lo_def mem_ok_def set_phys_def KADDR_def put_word_def)

lemma boot_rest_set_word: "boot_rest b (set_word t j w b)"
  by (rule boot_restI [where f = "freemem b"]) (simp add: set_word_def on_kst_def set_phys_def)

lemma page2pa_KERNBASE: "p < 2 ^ 16 \<Longrightarrow> PADDR (KERNBASE + page2pa p) = Some (page2pa p)"
proof -
  assume p: "p < 2 ^ 16"
  then have "unat (KERNBASE + page2pa p) = unat KERNBASE + 4096 * p"
    by (simp add: unat_word_ariths unat_page2pa layout)
  then have "\<not> KERNBASE + page2pa p < KERNBASE" by (simp add: word_less_nat_alt)
  then show ?thesis by (simp add: PADDR_def)
qed

definition table_entry :: "nat \<Rightarrow> u32" where "table_entry p = page2pa p OR PTE_W OR PTE_U OR PTE_P"

lemma table_entry: "p < 2 ^ 20 \<Longrightarrow> frame_of (table_entry p) = p" "p < 2 ^ 20 \<Longrightarrow> present (table_entry p)"
  using PDE_entry [of p] by (simp_all add: PDE_def table_entry_def)

lemma walk_create:
  assumes ok: "boot_ok d b" and o: "ordinary va" and np: "pdx va \<notin> slots d b" and m: "lo b < npage (kst b)"
  shows "\<exists>b'. boot_pgdir_walk lk d va True b = Some (Some (lo b, ptx va), b') \<and> boot_ok d b' \<and> boot_rest b b'
    \<and> lo b' = lo b + 1 \<and> slots d b' = insert (pdx va) (slots d b) \<and> table d b' (pdx va) = lo b
    \<and> (\<forall>x. ordinary x \<longrightarrow> mapped_at d b' x = mapped_at d b x)
    \<and> (\<forall>i \<in> self_slots. phys (kst b') d i = phys (kst b) d i)"
proof -
  let ?m = "phys (kst b)"
  have mo: "mem_ok b" using ok by (simp add: boot_ok_def)
  have l: "lo b < 2 ^ 16" using lo_limit [OF mo] m by simp
  then have l20: "lo b < 2 ^ 20" by simp
  have i: "pdx va < 1024" "pdx va \<notin> self_slots" "\<not> present (?m d (pdx va))"
    using np o pdx_less by (auto simp: slots_def ordinary_def)
  have "lo b + (unat BY2PG + 4095) div 4096 \<le> npage (kst b)" using m by (simp add: BY2PG_def)
  from alloc_ok [OF mo this] obtain b1 where a: "alloc lk BY2PG BY2PG True b = Some (KERNBASE + page2pa (lo b), b1)"
      "mem_ok b1" "boot_rest b b1" "lo b1 = lo b + (unat BY2PG + 4095) div 4096"
      "phys (kst b1) = clear_phys (4096 * lo b) (unat BY2PG) ?m" by blast
  have lo1: "lo b1 = lo b + 1" using a(4) by (simp add: BY2PG_def)
  have ph: "phys (kst b1) = clear_phys (4096 * lo b) 4096 ?m" using a(5) by (simp add: BY2PG_def)
  have below: "phys (kst b1) t = ?m t" if "t < lo b" for t
    using that unfolding ph by (intro clear_phys_below) simp
  have new: "phys (kst b1) (lo b) j = 0" if "j < 1024" for j unfolding ph using that by (rule clear_phys_page)
  define b2 where "b2 = set_word d (pdx va) (table_entry (lo b)) b1"
  have dl: "d < lo b" using ok by (simp add: boot_ok_def)
  have row: "phys (kst b2) d i = (if i = pdx va then table_entry (lo b) else ?m d i)" for i
    using below [OF dl] by (simp add: b2_def put_word_def)
  have other: "phys (kst b2) t = phys (kst b1) t" if "t \<noteq> d" for t using that by (simp add: b2_def put_word_def)
  have sl: "slots d b2 = insert (pdx va) (slots d b)"
    using i table_entry [OF l20] by (auto simp: slots_def row split: if_splits)
  have tb: "table d b2 (pdx va) = lo b" "\<And>i. i \<noteq> pdx va \<Longrightarrow> table d b2 i = table d b i"
    using table_entry [OF l20] by (simp_all add: table_def row)
  have told: "table d b i < lo b" "table d b i \<noteq> d" if "i \<in> slots d b" for i
    using ok that by (auto simp: boot_ok_def)
  have "boot_ok d b2"
    unfolding boot_ok_def
  proof (intro conjI)
    show "mem_ok b2" using a(2) by (simp add: b2_def)
    show "d < lo b2" using dl lo1 by (simp add: b2_def)
    show "\<forall>i \<in> slots d b2. table d b2 i < lo b2 \<and> table d b2 i \<noteq> d"
    proof
      fix j assume "j \<in> slots d b2"
      then show "table d b2 j < lo b2 \<and> table d b2 j \<noteq> d"
        using tb told [of j] dl lo1 unfolding sl by (cases "j = pdx va") (auto simp: b2_def)
    qed
    have eq: "table d b2 j = table d b j" if "j \<in> slots d b" for j using tb(2) that np by metis
    have "inj_on (table d b) (slots d b)" using ok by (simp add: boot_ok_def)
    then have "inj_on (table d b2) (slots d b)" using inj_on_cong [of "slots d b"] eq by blast
    moreover have "lo b \<notin> table d b2 ` slots d b" using told(1) eq by fastforce
    ultimately show "inj_on (table d b2) (slots d b2)" unfolding sl using np tb(1) by simp
    show "\<forall>i < 1024. \<not> present (phys (kst b2) d i) \<longrightarrow> phys (kst b2) d i = 0"
      using ok table_entry [OF l20] by (auto simp: boot_ok_def row)
  qed
  moreover have "mapped_at d b2 x = mapped_at d b x" if o': "ordinary x" for x
  proof (cases "pdx x = pdx va")
    case True
    then show ?thesis
      using o' np tb(1) new [OF ptx_less] other [of "lo b"] dl
      by (simp add: mapped_at_eq sl Let_def)
  next
    case False
    then show ?thesis
      using o' tb(2) told [of "pdx x"] other [of "table d b (pdx x)"] below [of "table d b (pdx x)"]
      by (auto simp: mapped_at_eq sl Let_def)
  qed
  moreover have "boot_pgdir_walk lk d va True b = Some (Some (lo b, ptx va), b2)"
  proof -
    have "KADDR (kst b2) (PTE_ADDR (table_entry (lo b))) = Some (lo b)"
      using KADDR_frame [of "table_entry (lo b)" "kst b2"] table_entry [OF l20] m boot_rest_fields(2) [OF a(3)]
      by (simp add: b2_def)
    moreover have "set_word d (pdx va) (page2pa (lo b) OR PTE_W OR PTE_U OR PTE_P) b1 = b2"
      by (simp add: b2_def table_entry_def)
    ultimately show ?thesis
      using i(3) a(1) page2pa_KERNBASE [OF l] row by (simp add: boot_pgdir_walk_def)
  qed
  moreover have "boot_rest b b2" unfolding b2_def by (rule boot_rest_trans [OF a(3) boot_rest_set_word])
  moreover have "phys (kst b2) d i = ?m d i" if "i \<in> self_slots" for i using that i(2) by (auto simp: row)
  ultimately show ?thesis using sl tb(1) lo1 by (auto simp: b2_def)
qed

text \<open>The frames that a walk takes: one, if the directory has no table for the address.\<close>

definition takes :: "nat \<Rightarrow> boot \<Rightarrow> nat \<Rightarrow> nat" where
  "takes d b i = (if i \<in> slots d b then 0 else 1)"

lemma walk_ok:
  assumes ok: "boot_ok d b" and o: "ordinary va" and m: "lo b + takes d b (pdx va) \<le> npage (kst b)"
  shows "\<exists>b'. boot_pgdir_walk lk d va True b = Some (Some (table d b' (pdx va), ptx va), b') \<and> boot_ok d b'
    \<and> boot_rest b b' \<and> lo b' = lo b + takes d b (pdx va) \<and> slots d b' = insert (pdx va) (slots d b)
    \<and> (\<forall>x. ordinary x \<longrightarrow> mapped_at d b' x = mapped_at d b x)
    \<and> (\<forall>i \<in> self_slots. phys (kst b') d i = phys (kst b) d i)"
proof (cases "pdx va \<in> slots d b")
  case True
  then have p: "present (phys (kst b) d (pdx va))" "table d b (pdx va) < lo b"
    using ok by (auto simp: slots_def boot_ok_def)
  have "lo b \<le> npage (kst b)" using m by simp
  then have "KADDR (kst b) (PTE_ADDR (phys (kst b) d (pdx va))) = Some (table d b (pdx va))"
    using p(2) KADDR_frame [of "phys (kst b) d (pdx va)" "kst b"] by (simp add: table_def)
  then show ?thesis using True ok p(1) by (auto simp: boot_pgdir_walk_def takes_def)
next
  case False
  then have "lo b < npage (kst b)" using m by (simp add: takes_def)
  then obtain b' where b': "boot_pgdir_walk lk d va True b = Some (Some (lo b, ptx va), b')" "boot_ok d b'"
      "boot_rest b b'" "lo b' = lo b + 1" "slots d b' = insert (pdx va) (slots d b)" "table d b' (pdx va) = lo b"
      "\<forall>x. ordinary x \<longrightarrow> mapped_at d b' x = mapped_at d b x"
      "\<forall>i \<in> self_slots. phys (kst b') d i = phys (kst b) d i"
    using walk_create [OF ok o False] by blast
  show ?thesis by (rule exI [of _ b']) (use b' False in \<open>simp add: takes_def\<close>)
qed

section \<open>Mapping one page\<close>

definition seg_entry :: "u32 \<Rightarrow> u32 \<Rightarrow> nat \<Rightarrow> u32" where
  "seg_entry pa perm i = PTE_ADDR (pa + of_nat i * BY2PG) OR perm OR PTE_P"

lemma present_seg_entry: "present (seg_entry pa perm i)"
  by (simp add: seg_entry_def present_bit PTE_P_def bit_simps)

lemma set_leaf:
  assumes ok: "boot_ok d b" and o: "ordinary va" and i: "pdx va \<in> slots d b" and w: "present w"
  defines "b' \<equiv> set_word (table d b (pdx va)) (ptx va) w b"
  shows "boot_ok d b'" "slots d b' = slots d b" "phys (kst b') d = phys (kst b) d"
    "ordinary x \<Longrightarrow> mapped_at d b' x = (if VPN x = VPN va then Some w else mapped_at d b x)"
proof -
  let ?t = "table d b (pdx va)"
  have t: "?t \<noteq> d" using ok i by (auto simp: boot_ok_def)
  then show row: "phys (kst b') d = phys (kst b) d" by (simp add: b'_def put_word_def)
  then show sl: "slots d b' = slots d b" by (simp add: slots_def)
  have tb: "table d b' = table d b" using row by (simp add: table_def fun_eq_iff)
  show "boot_ok d b'" using ok by (simp add: boot_ok_def sl tb row) (simp add: b'_def)
  assume x: "ordinary x"
  have inj: "inj_on (table d b) (slots d b)" using ok by (simp add: boot_ok_def)
  have v: "VPN x = VPN va \<longleftrightarrow> pdx x = pdx va \<and> ptx x = ptx va" by (rule pdx_ptx_VPN [symmetric])
  show "mapped_at d b' x = (if VPN x = VPN va then Some w else mapped_at d b x)"
  proof (cases "pdx x \<in> slots d b \<and> table d b (pdx x) = ?t")
    case True
    then have "pdx x = pdx va" using inj i by (auto dest: inj_onD)
    then show ?thesis using x i w by (simp add: mapped_at_eq sl tb v) (simp add: b'_def put_word_def)
  next
    case False
    then have "pdx x \<noteq> pdx va" using i by auto
    then show ?thesis using x False by (simp add: mapped_at_eq sl tb v) (simp add: b'_def put_word_def)
  qed
qed

lemma map_page_ok:
  assumes ok: "boot_ok d b" and o: "ordinary (va + of_nat i * BY2PG)"
    and m: "lo b + takes d b (pdx (va + of_nat i * BY2PG)) \<le> npage (kst b)"
  shows "\<exists>b'. map_page lk d va pa perm i b = Some b' \<and> boot_ok d b' \<and> boot_rest b b'
    \<and> lo b' = lo b + takes d b (pdx (va + of_nat i * BY2PG))
    \<and> slots d b' = insert (pdx (va + of_nat i * BY2PG)) (slots d b)
    \<and> (\<forall>x. ordinary x \<longrightarrow> mapped_at d b' x = (if VPN x = VPN (va + of_nat i * BY2PG)
          then Some (seg_entry pa perm i) else mapped_at d b x))
    \<and> (\<forall>j \<in> self_slots. phys (kst b') d j = phys (kst b) d j)"
proof -
  let ?a = "va + of_nat i * BY2PG"
  obtain b1 where b1: "boot_pgdir_walk lk d ?a True b = Some (Some (table d b1 (pdx ?a), ptx ?a), b1)"
      "boot_ok d b1" "boot_rest b b1" "lo b1 = lo b + takes d b (pdx ?a)" "slots d b1 = insert (pdx ?a) (slots d b)"
      "\<forall>x. ordinary x \<longrightarrow> mapped_at d b1 x = mapped_at d b x"
      "\<forall>j \<in> self_slots. phys (kst b1) d j = phys (kst b) d j"
    using walk_ok [OF ok o m] by blast
  let ?b = "set_word (table d b1 (pdx ?a)) (ptx ?a) (seg_entry pa perm i) b1"
  have i: "pdx ?a \<in> slots d b1" using b1(5) by simp
  note l = set_leaf [OF b1(2) o i present_seg_entry [of pa perm i]]
  have "map_page lk d va pa perm i b = Some ?b" using b1(1) by (simp add: map_page_def seg_entry_def)
  moreover have "boot_rest b ?b" by (rule boot_rest_trans [OF b1(3) boot_rest_set_word])
  moreover have "\<forall>j \<in> self_slots. phys (kst ?b) d j = phys (kst b) d j" using b1(7) l(3) by metis
  ultimately show ?thesis using l(1,2,4) b1(4-6) by auto
qed

section \<open>Mapping a segment\<close>

definition page_index :: "u32 \<Rightarrow> u32 \<Rightarrow> nat" where "page_index va x = unat (x - va) div 4096"

lemma VPN_div: "VPN x = VPN y \<longleftrightarrow> unat x div 4096 = unat y div 4096"
  using frame_of_div [of x] frame_of_div [of y]
  by (simp add: VPN_def frame_of_def word_eq_iff_unsigned [where ?'a = nat])

lemma page_number:
  fixes va x :: u32
  assumes "unat va = 4096 * a"
  shows "unat (va + x) div 4096 = (a + unat x div 4096) mod 2 ^ 20"
proof -
  have "unat (va + x) = (4096 * a + unat x) mod (4096 * 2 ^ 20)" using assms by (simp add: unat_word_ariths)
  also have "\<dots> div 4096 = (4096 * a + unat x) div 4096 mod 2 ^ 20" by (simp only: mod_mult2_eq)
  finally show ?thesis by simp
qed

lemma page_index_eq:
  assumes "unat va mod 4096 = 0" "i < 2 ^ 20"
  shows "VPN x = VPN (va + of_nat i * BY2PG) \<longleftrightarrow> page_index va x = i"
proof -
  obtain a where a: "unat va = 4096 * a" using assms(1) by (metis dvd_def mod_eq_0_iff_dvd)
  have al: "a < 2 ^ 20" using a unsigned_less [of va, where ?'a = nat] by simp
  have "unat (of_nat i * BY2PG :: u32) = 4096 * i" using assms(2) by (simp add: BY2PG_def unat_word_ariths word_nat)
  then have y: "unat (va + of_nat i * BY2PG) div 4096 = (a + i) mod 2 ^ 20" using page_number [OF a] by simp
  define q where "q = page_index va x"
  have ql: "q < 2 ^ 20" using unsigned_less [of "x - va", where ?'a = nat] by (simp add: q_def page_index_def)
  have "unat x div 4096 = (a + q) mod 2 ^ 20" using page_number [OF a, of "x - va"] by (simp add: q_def page_index_def)
  moreover have "(a + q) mod 2 ^ 20 = (a + i) mod 2 ^ 20 \<longleftrightarrow> q = i"
    using al ql assms(2) by (auto simp: mod_if split: if_splits)
  ultimately show ?thesis unfolding VPN_div y q_def by simp
qed

definition seg_slots :: "u32 \<Rightarrow> nat \<Rightarrow> nat set" where
  "seg_slots va n = (\<lambda>i. pdx (va + of_nat i * BY2PG)) ` {..<n}"

lemma seg_slots_Suc: "seg_slots va (Suc n) = insert (pdx (va + of_nat n * BY2PG)) (seg_slots va n)"
  by (simp add: seg_slots_def lessThan_Suc)

definition seg_done :: "nat \<Rightarrow> u32 \<Rightarrow> nat \<Rightarrow> u32 \<Rightarrow> u32 \<Rightarrow> boot \<Rightarrow> boot \<Rightarrow> bool" where
  "seg_done d va n pa perm b b' \<longleftrightarrow> boot_ok d b' \<and> boot_rest b b'
     \<and> lo b' = lo b + card (seg_slots va n - slots d b) \<and> slots d b' = slots d b \<union> seg_slots va n
     \<and> (\<forall>x. ordinary x \<longrightarrow> mapped_at d b' x = (if page_index va x < n
          then Some (seg_entry pa perm (page_index va x)) else mapped_at d b x))
     \<and> (\<forall>j \<in> self_slots. phys (kst b') d j = phys (kst b) d j)"

lemma segment_ok:
  assumes "boot_ok d b" "n \<le> 2 ^ 20" "unat va mod 4096 = 0" "\<forall>i < n. ordinary (va + of_nat i * BY2PG)"
    "lo b + card (seg_slots va n - slots d b) \<le> npage (kst b)"
  shows "\<exists>b'. mfold (map_page lk d va pa perm) [0..<n] b = Some b' \<and> seg_done d va n pa perm b b'"
  using assms(2,4,5)
proof (induction n)
  case 0
  show ?case using assms(1) by (simp add: seg_done_def seg_slots_def)
next
  case (Suc n)
  let ?a = "va + of_nat n * BY2PG"
  let ?new = "seg_slots va n - slots d b"
  have f: "finite ?new" by (simp add: seg_slots_def)
  have card: "card (seg_slots va (Suc n) - slots d b)
      = card ?new + (if pdx ?a \<in> slots d b \<union> seg_slots va n then 0 else 1)"
    using f by (auto simp: seg_slots_Suc insert_Diff_if insert_absorb)
  obtain b1 where b1: "mfold (map_page lk d va pa perm) [0..<n] b = Some b1" "seg_done d va n pa perm b b1"
    using Suc.IH Suc.prems card by fastforce
  then have ok: "boot_ok d b1" and r1: "boot_rest b b1" and lo1: "lo b1 = lo b + card ?new"
    and sl1: "slots d b1 = slots d b \<union> seg_slots va n"
    and m1: "\<And>x. ordinary x \<Longrightarrow> mapped_at d b1 x = (if page_index va x < n
          then Some (seg_entry pa perm (page_index va x)) else mapped_at d b x)"
    and ss1: "\<forall>j \<in> self_slots. phys (kst b1) d j = phys (kst b) d j"
    by (simp_all add: seg_done_def)
  have o: "ordinary ?a" using Suc.prems(2) by simp
  have tk: "takes d b1 (pdx ?a) = (if pdx ?a \<in> slots d b \<union> seg_slots va n then 0 else 1)"
    by (simp add: takes_def sl1)
  have "lo b1 + takes d b1 (pdx ?a) \<le> npage (kst b1)"
    using Suc.prems(3) card lo1 tk boot_rest_fields(2) [OF r1] by simp
  from map_page_ok [OF ok o this, of lk pa perm] obtain b2 where b2: "map_page lk d va pa perm n b1 = Some b2"
      "boot_ok d b2" "boot_rest b1 b2" "lo b2 = lo b1 + takes d b1 (pdx ?a)"
      "slots d b2 = insert (pdx ?a) (slots d b1)"
      "\<forall>x. ordinary x \<longrightarrow> mapped_at d b2 x = (if VPN x = VPN ?a then Some (seg_entry pa perm n) else mapped_at d b1 x)"
      "\<forall>j \<in> self_slots. phys (kst b2) d j = phys (kst b1) d j" by blast
  have n20: "n < 2 ^ 20" using Suc.prems(1) by simp
  have "mapped_at d b2 x = (if page_index va x < Suc n
      then Some (seg_entry pa perm (page_index va x)) else mapped_at d b x)" if "ordinary x" for x
    using b2(6) m1 that by (simp add: page_index_eq [OF assms(3) n20] less_Suc_eq)
  moreover have "mfold (map_page lk d va pa perm) [0..<Suc n] b = Some b2"
    using b1(1) b2(1) by (simp add: mfold_append)
  ultimately show ?case
    using b2 ss1 lo1 tk card sl1 boot_rest_trans [OF r1 b2(3)] by (simp add: seg_done_def seg_slots_Suc)
qed

end
