(* ===== verification/Boot_Init.thy ===== *)
theory Boot_Init
  imports Boot_Vm
begin

text \<open>
  \<open>i386_vm_init\<close> as a whole: each segment in turn, the arrays of pages and environments, and the
  check at the end.
\<close>

unbundle bit_operations_syntax

section \<open>States that agree on memory\<close>

definition same_memory :: "boot \<Rightarrow> boot \<Rightarrow> bool" where
  "same_memory b b' \<longleftrightarrow> phys (kst b') = phys (kst b) \<and> npage (kst b') = npage (kst b)
     \<and> maxpa b' = maxpa b \<and> freemem b' = freemem b"

lemma same_memory_ok:
  assumes "same_memory b b'"
  shows "boot_ok d b' = boot_ok d b" "slots d b' = slots d b" "lo b' = lo b" "mapped_at d b' x = mapped_at d b x"
    "mem_ok b' = mem_ok b" "table d b' = table d b"
proof -
  have f: "phys (kst b') = phys (kst b)" "npage (kst b') = npage (kst b)" "maxpa b' = maxpa b" "freemem b' = freemem b"
    using assms by (simp_all add: same_memory_def)
  show s: "slots d b' = slots d b" "lo b' = lo b" "mapped_at d b' x = mapped_at d b x" "mem_ok b' = mem_ok b"
    by (simp_all add: slots_def lo_def mapped_at_def mem_ok_def f)
  show t: "table d b' = table d b" by (rule ext) (simp add: table_def f)
  show "boot_ok d b' = boot_ok d b" by (simp add: boot_ok_def s t f)
qed

lemma alloc_keeps:
  assumes ok: "boot_ok d b" and n: "lo b + (unat n + 4095) div 4096 \<le> npage (kst b)"
  shows "\<exists>b'. alloc lk n BY2PG True b = Some (KERNBASE + page2pa (lo b), b') \<and> boot_ok d b' \<and> boot_rest b b'
    \<and> lo b' = lo b + (unat n + 4095) div 4096 \<and> slots d b' = slots d b
    \<and> (\<forall>x. ordinary x \<longrightarrow> mapped_at d b' x = mapped_at d b x) \<and> phys (kst b') d = phys (kst b) d"
proof -
  have mo: "mem_ok b" using ok by (simp add: boot_ok_def)
  obtain b' where b': "alloc lk n BY2PG True b = Some (KERNBASE + page2pa (lo b), b')" "mem_ok b'" "boot_rest b b'"
      "lo b' = lo b + (unat n + 4095) div 4096" "phys (kst b') = clear_phys (4096 * lo b) (unat n) (phys (kst b))"
    using alloc_ok [OF mo n] by blast
  have below: "phys (kst b') t = phys (kst b) t" if "t < lo b" for t
    using that unfolding b'(5) by (intro clear_phys_below) simp
  have d: "d < lo b" and t: "\<forall>i \<in> slots d b. table d b i < lo b" using ok by (auto simp: boot_ok_def)
  note row = below [OF d]
  have sl: "slots d b' = slots d b" by (simp add: slots_def row)
  have tb: "table d b' = table d b" by (simp add: table_def fun_eq_iff row)
  have "boot_ok d b'" using ok b'(2,4) by (auto simp: boot_ok_def sl tb row)
  moreover have "mapped_at d b' x = mapped_at d b x" if "ordinary x" for x
    using that t below by (simp add: mapped_at_eq sl tb Let_def)
  ultimately show ?thesis using b' sl row by blast
qed

section \<open>Segments within one table\<close>

lemma pdx_page:
  assumes "unat va = 4096 * a" "a + i < 2 ^ 20"
  shows "pdx (va + of_nat i * BY2PG) = (a + i) div 1024"
proof -
  have "unat (of_nat i * BY2PG :: u32) = 4096 * i" using assms(2) by (simp add: BY2PG_def unat_word_ariths word_nat)
  then have "unat (va + of_nat i * BY2PG) = 4096 * (a + i)" using assms by (simp add: unat_word_ariths)
  then show ?thesis by (simp add: pdx_div)
qed

lemma seg_slots_one:
  assumes "unat va = 4096 * a" "a div 1024 = p" "a mod 1024 + n \<le> 1024" "p < 1024" "0 < n"
  shows "seg_slots va n = {p}" "\<forall>i < n. pdx (va + of_nat i * BY2PG) = p"
proof -
  have "(a + i) div 1024 = p" "a + i < 2 ^ 20" if "i < n" for i
  proof -
    define r where "r = a mod 1024 + i"
    have r: "r < 1024" using assms(3) that by (simp add: r_def)
    have "1024 * p + a mod 1024 = a" using assms(2) by (metis mult_div_mod_eq)
    then have e: "a + i = 1024 * p + r" by (simp add: r_def)
    show "(a + i) div 1024 = p" unfolding e using r by simp
    show "a + i < 2 ^ 20" unfolding e using r assms(4) by simp
  qed
  then show *: "\<forall>i < n. pdx (va + of_nat i * BY2PG) = p" using pdx_page [OF assms(1)] by simp
  then have "seg_slots va n = (\<lambda>i. p) ` {..<n}" unfolding seg_slots_def by (intro image_cong) simp_all
  then show "seg_slots va n = {p}" using assms(5) by (simp add: image_constant_conv lessThan_empty_iff)
qed

lemma array_ok:
  assumes ok: "boot_ok d b" and va: "unat va = 4096 * a" "a div 1024 = p" "a mod 1024 = 0"
    and p: "p < 1024" "p \<notin> self_slots" "p \<notin> slots d b"
    and c: "c = (unat n + 4095) div 4096" "0 < c" "c \<le> 1024" "lo b + c + 1 \<le> npage (kst b)"
    and f: "\<And>x. same_memory x (f x)"
  shows "\<exists>b1 b'. alloc lk n BY2PG True b = Some (KERNBASE + page2pa (lo b), b1) \<and> boot_rest b b1
    \<and> boot_map_segment lk d va n (page2pa (lo b)) perm (f b1) = Some b' \<and> boot_ok d b' \<and> boot_rest (f b1) b'
    \<and> lo b' = lo b + c + 1 \<and> slots d b' = insert p (slots d b)
    \<and> (\<forall>x. ordinary x \<longrightarrow> mapped_at d b' x = (if page_index va x < c
          then Some (seg_entry (page2pa (lo b)) perm (page_index va x)) else mapped_at d b x))
    \<and> (\<forall>j \<in> self_slots. phys (kst b') d j = phys (kst b) d j)"
proof -
  have "lo b + (unat n + 4095) div 4096 \<le> npage (kst b)" using c by simp
  from alloc_keeps [OF ok this, of lk] obtain b1 where b1:
      "alloc lk n BY2PG True b = Some (KERNBASE + page2pa (lo b), b1)" "boot_ok d b1" "boot_rest b b1"
      "lo b1 = lo b + (unat n + 4095) div 4096" "slots d b1 = slots d b"
      "\<forall>x. ordinary x \<longrightarrow> mapped_at d b1 x = mapped_at d b x" "phys (kst b1) d = phys (kst b) d"
    by blast
  note s = same_memory_ok [OF f [of b1]]
  have am: "a mod 1024 + c \<le> 1024" using va(3) c(3) by simp
  note sg = seg_slots_one [OF va(1,2) am p(1) c(2)]
  have o: "\<forall>i < c. ordinary (va + of_nat i * BY2PG)" using sg(2) p(2) by (simp add: ordinary_def)
  have "c \<le> 2 ^ 20" "unat va mod 4096 = 0" using c(3) va(1) by simp_all
  moreover have cd: "card ({p} - slots d b) = 1" using p(3) by (simp add: insert_Diff_if)
  then have "card (seg_slots va c - slots d (f b1)) = 1" unfolding sg(1) s(2) b1(5) .
  moreover have "npage (kst (f b1)) = npage (kst b)"
    using f [of b1] boot_rest_fields(2) [OF b1(3)] by (simp add: same_memory_def)
  ultimately obtain b' where b': "mfold (map_page lk d va (page2pa (lo b)) perm) [0..<c] (f b1) = Some b'"
      "seg_done d va c (page2pa (lo b)) perm (f b1) b'"
    using segment_ok [of d "f b1" c va lk "page2pa (lo b)" perm] o s b1 c by auto
  have "phys (kst (f b1)) d = phys (kst b) d" using f [of b1] b1(7) by (simp add: same_memory_def)
  then show ?thesis
    using b' b1 s(2,3,4) sg(1) c(1) p(3) cd
    by (intro exI [of _ b1] exI [of _ b']) (simp add: seg_done_def boot_map_segment_def pages_of_def)
qed

section \<open>The directory\<close>

definition fresh_boot :: "linker \<Rightarrow> boot \<Rightarrow> bool" where
  "fresh_boot lk b \<longleftrightarrow> freemem b = 0 \<and> mem_ok (b\<lparr>freemem := kend lk\<rparr>)"

text \<open>The first frame after the kernel, which becomes the page directory.\<close>

definition first_frame :: "linker \<Rightarrow> nat" where
  "first_frame lk = (unat (kend lk) - unat KERNBASE + 4095) div 4096"

text \<open>At \<open>VPT\<close> the kernel and at \<open>UVPT\<close> everyone, but only to read, finds the page tables.\<close>

definition self_map :: "nat \<Rightarrow> boot \<Rightarrow> bool" where
  "self_map d b \<longleftrightarrow> phys (kst b) d (pdx VPT) = (page2pa d OR PTE_W OR PTE_P)
     \<and> phys (kst b) d (pdx UVPT) = (page2pa d OR PTE_U OR PTE_P)"

definition with_self :: "boot \<Rightarrow> nat \<Rightarrow> boot" where
  "with_self b1 d = set_word d (pdx UVPT) (page2pa d OR PTE_U OR PTE_P)
     (set_word d (pdx VPT) (page2pa d OR PTE_W OR PTE_P)
        (on_kst (\<lambda>s. s\<lparr>boot_pgdir := d\<rparr>) (b1\<lparr>boot_cr3 := page2pa d\<rparr>)))"

lemma pdx_layout: "pdx VPT = 959" "pdx UVPT = 957" "pdx KERNBASE = 960" "pdx UPAGES = 956" "pdx UENVS = 955"
    "pdx (KSTACKTOP - KSTKSIZE) = 958" "pdx (KSTACKTOP - PDMAP) = 958" "pdx (KSTACKTOP - 1) = 958" "pdx UTOP = 955"
  by (simp_all add: pdx_div layout KSTKSIZE_def)

lemma self_entry: "p < 2 ^ 20 \<Longrightarrow> present (page2pa p OR PTE_W OR PTE_P)" "p < 2 ^ 20 \<Longrightarrow> present (page2pa p OR PTE_U OR PTE_P)"
  by (auto simp: present_bit PTE_P_def PTE_W_def PTE_U_def bit_simps)

lemma start_ok:
  assumes fr: "fresh_boot lk b" and m: "first_frame lk < npage (kst b)"
  defines "d \<equiv> first_frame lk"
  shows "\<exists>b1. alloc lk BY2PG BY2PG True b = Some (KERNBASE + page2pa d, b1) \<and> boot_ok d (with_self b1 d)
    \<and> boot_rest b b1 \<and> lo (with_self b1 d) = d + 1 \<and> slots d (with_self b1 d) = {}
    \<and> (\<forall>j \<in> self_slots. phys (kst (with_self b1 d)) d j \<noteq> 0) \<and> self_map d (with_self b1 d)"
proof -
  let ?b = "b\<lparr>freemem := kend lk\<rparr>"
  have mo: "mem_ok ?b" and z: "freemem b = 0" using fr by (simp_all add: fresh_boot_def)
  have "KERNBASE \<le> kend lk" using mo by (simp add: mem_ok_def)
  then have "kend lk \<noteq> 0" by (auto simp: layout)
  then have a: "alloc lk BY2PG BY2PG True b = alloc lk BY2PG BY2PG True ?b" using z by (simp add: alloc_def on_kst_def Let_def)
  have l: "lo ?b = d" by (simp add: lo_def d_def first_frame_def)
  have "lo ?b + (unat BY2PG + 4095) div 4096 \<le> npage (kst ?b)" using m l by (simp add: BY2PG_def d_def)
  from alloc_ok [OF mo this, of lk] obtain b1 where b1: "alloc lk BY2PG BY2PG True ?b = Some (KERNBASE + page2pa d, b1)"
      "mem_ok b1" "boot_rest ?b b1" "lo b1 = d + 1" "phys (kst b1) = clear_phys (4096 * d) 4096 (phys (kst b))"
    unfolding l by (auto simp: BY2PG_def)
  have rest: "boot_rest b b1"
    using b1(3) unfolding boot_rest_def by (elim exE) (rule exI, rule exI, simp)
  let ?w = "with_self b1 d"
  have p: "d < 2 ^ 20" using lo_limit(2) [OF mo] m by (simp add: d_def)
  have z0: "phys (kst b1) d i = 0" if "i < 1024" for i unfolding b1(5) by (rule clear_phys_page [OF that])
  have row: "phys (kst ?w) d i = (if i = 957 then page2pa d OR PTE_U OR PTE_P
      else if i = 959 then page2pa d OR PTE_W OR PTE_P else 0)" if "i < 1024" for i
    using z0 [OF that] by (simp add: with_self_def pdx_layout put_word_def on_kst_def)
  have lw: "lo ?w = d + 1" "mem_ok ?w"
    using b1(2,4) by (simp_all add: with_self_def) (simp_all add: lo_def mem_ok_def on_kst_def)
  have sl: "slots d ?w = {}" using row by (auto simp: slots_def self_slots_def)
  have "boot_ok d ?w" using lw sl row self_entry [OF p] by (auto simp: boot_ok_def split: if_splits)
  moreover have "phys (kst ?w) d j \<noteq> 0" if "j \<in> self_slots" for j
    using that row [of j] self_entry [OF p] by (auto simp: self_slots_def)
  moreover have "self_map d ?w" using row [of 957] row [of 959] by (simp add: self_map_def pdx_layout)
  ultimately show ?thesis using a b1(1) rest lw sl by auto
qed

section \<open>Reading the map\<close>

lemma page_index_num:
  assumes "unat va = 4096 * a"
  shows "page_index va x = (if a \<le> unat x div 4096 then unat x div 4096 - a else unat x div 4096 + 2 ^ 20 - a)"
proof -
  have "unat x div 4096 = (a + page_index va x) mod 2 ^ 20"
    using page_number [OF assms, of "x - va"] by (simp add: page_index_def)
  moreover have "a < 2 ^ 20" using assms unsigned_less [of va, where ?'a = nat] by simp
  moreover have "page_index va x < 2 ^ 20" using unsigned_less [of "x - va", where ?'a = nat] by (simp add: page_index_def)
  ultimately show ?thesis by (auto simp: mod_if split: if_splits)
qed

lemma va2pa_mapped:
  assumes "boot_ok d b" "ordinary x" "mapped_at d b x = Some w"
  shows "va2pa (kst b) d x = Some (PTE_ADDR w)"
proof -
  have s: "pdx x \<in> slots d b" and w: "present w" "phys (kst b) (table d b (pdx x)) (ptx x) = w"
    using assms(2,3) by (auto simp: mapped_at_eq Let_def split: if_splits)
  have "table d b (pdx x) < npage (kst b)" using assms(1) s lo_limit(1) [of b] by (auto simp: boot_ok_def)
  then have "KADDR (kst b) (PTE_ADDR (phys (kst b) d (pdx x))) = Some (table d b (pdx x))"
    by (simp add: table_def KADDR_frame)
  then show ?thesis using s w by (simp add: va2pa_def slots_def Let_def)
qed

definition page_start :: "u32 \<Rightarrow> bool" where "page_start a \<longleftrightarrow> unat a mod 4096 = 0"

lemma PTE_ADDR_page_start: "page_start a \<Longrightarrow> PTE_ADDR a = a"
proof (rule unsigned_word_eqI [where ?'a = nat])
  assume "page_start a"
  then show "unat (PTE_ADDR a) = unat a"
    using mult_div_mod_eq [of 4096 "unat a"] unfolding PTE_ADDR_def unat_page_start page_start_def by simp
qed

lemma page_start_add: "page_start a \<Longrightarrow> page_start (a + of_nat i * BY2PG)"
proof -
  assume "page_start a"
  then have "4096 dvd unat a" by (simp add: page_start_def dvd_eq_mod_eq_0)
  moreover have "(4096 :: nat) dvd 2 ^ 32" by simp
  moreover have "4096 dvd unat (of_nat i * BY2PG :: u32)"
    by (simp add: BY2PG_def unat_word_ariths dvd_mod)
  ultimately have "4096 dvd unat (a + of_nat i * BY2PG)" by (simp add: unat_word_ariths dvd_mod)
  then show ?thesis by (simp add: page_start_def dvd_eq_mod_eq_0)
qed

lemma page_start_kernel:
  assumes "KERNBASE \<le> a" "page_start a"
  shows "page_start (a - KERNBASE)"
proof -
  have "unat (a - KERNBASE) = unat a - 983040 * 4096" "983040 * 4096 \<le> unat a"
    using assms(1) by (simp_all add: unat_sub layout word_le_nat_alt)
  then have "unat a = 983040 * 4096 + unat (a - KERNBASE)" by simp
  then have "unat a mod 4096 = unat (a - KERNBASE) mod 4096" by (metis mod_mult_self3)
  then show ?thesis using assms(2) by (simp add: page_start_def)
qed

lemma page_start_page2pa: "p < 2 ^ 20 \<Longrightarrow> page_start (page2pa p)"
  by (simp add: page_start_def unat_page2pa)

lemma seg_entry_addr:
  assumes "page_start pa" "low_bits perm"
  shows "PTE_ADDR (seg_entry pa perm i) = pa + of_nat i * BY2PG"
proof -
  have "PTE_ADDR (seg_entry pa perm i) = PTE_ADDR (PTE_ADDR (pa + of_nat i * BY2PG))"
    by (rule bit_word_eqI)
      (use low_bits_bit [OF assms(2)] in \<open>auto simp: seg_entry_def bit_PTE_ADDR PTE_P_def bit_simps\<close>)
  then show ?thesis using PTE_ADDR_page_start [OF page_start_add [OF assms(1)]] by simp
qed

lemma check_rangeI:
  assumes "boot_ok d b" "page_start pa" "low_bits perm" "(unat sz + 4095) div 4096 = n"
    "\<And>i. i < n \<Longrightarrow> ordinary (va + of_nat i * BY2PG)
       \<and> mapped_at d b (va + of_nat i * BY2PG) = Some (seg_entry pa perm i)"
  shows "check_range (kst b) d va pa sz"
  using va2pa_mapped [OF assms(1)] assms(5) seg_entry_addr [OF assms(2,3)]
  by (auto simp: check_range_def list_all_iff pages_of_def assms(4))

section \<open>i386_vm_init\<close>

text \<open>
  What the machine must provide: memory for the page directory, its 67 page tables, and the
  arrays of pages and environments, behind the kernel; and a kernel stack on a page boundary.
\<close>

definition page_array_pages :: "boot \<Rightarrow> nat" where
  "page_array_pages b = (12 * npage (kst b) + 4095) div 4096"

definition kernel_fits :: "linker \<Rightarrow> boot \<Rightarrow> bool" where
  "kernel_fits lk b \<longleftrightarrow> fresh_boot lk b \<and> KERNBASE + EXTPHYSMEM \<le> kend lk
     \<and> first_frame lk + 100 + page_array_pages b \<le> npage (kst b)
     \<and> KERNBASE \<le> bootstack lk \<and> page_start (bootstack lk)"

definition top_slots :: "nat set" where "top_slots = {955, 956, 958} \<union> {960..<1024}"

text \<open>The map by page number: environments, pages, all of memory, the stack.\<close>

definition kernel_map :: "linker \<Rightarrow> nat \<Rightarrow> nat \<Rightarrow> u32 \<Rightarrow> u32 option" where
  "kernel_map lk c f x =
     (let k = unat x div 4096 in
      if 977920 \<le> k \<and> k < 977920 + 32 then Some (seg_entry (page2pa (f + 67 + c)) (PTE_W OR PTE_U OR PTE_P) (k - 977920))
      else if 978944 \<le> k \<and> k < 978944 + c then Some (seg_entry (page2pa (f + 66)) (PTE_W OR PTE_U OR PTE_P) (k - 978944))
      else if 983040 \<le> k then Some (seg_entry 0 PTE_W (k - 983040))
      else if 982008 \<le> k \<and> k < 982016 then Some (seg_entry (bootstack lk - KERNBASE) PTE_W (k - 982008))
      else None)"

lemma stack_ok:
  assumes ok: "boot_ok d b" and e: "slots d b = {}" and m: "lo b < npage (kst b)"
  shows "\<exists>b'. boot_map_segment lk d (KSTACKTOP - KSTKSIZE) KSTKSIZE pa PTE_W b = Some b'
    \<and> seg_done d (KSTACKTOP - KSTKSIZE) 8 pa PTE_W b b' \<and> slots d b' = {958} \<and> lo b' = lo b + 1"
proof -
  have va: "unat (KSTACKTOP - KSTKSIZE) = 4096 * 982008" by (simp add: layout KSTKSIZE_def)
  note sg = seg_slots_one [OF va, of 958 8, simplified]
  have sz: "(unat KSTKSIZE + 4095) div 4096 = 8" by (simp add: KSTKSIZE_def BY2PG_def)
  have "\<forall>i < 8. ordinary (KSTACKTOP - KSTKSIZE + of_nat i * BY2PG)" using sg(2) by (simp add: ordinary_def self_slots_def)
  then show ?thesis
    using segment_ok [OF ok, of 8 "KSTACKTOP - KSTKSIZE" lk pa PTE_W] va sg(1) e m
    by (auto simp: boot_map_segment_def pages_of_def sz seg_done_def)
qed

lemma seg_slots_kernbase: "seg_slots KERNBASE 65536 = {960..<1024}"
    "\<forall>i < 65536. pdx (KERNBASE + of_nat i * BY2PG) = 960 + i div 1024"
proof -
  have va: "unat KERNBASE = 4096 * 983040" by (simp add: layout)
  show *: "\<forall>i < 65536. pdx (KERNBASE + of_nat i * BY2PG) = 960 + i div 1024"
    using pdx_page [OF va] by (simp add: div_add1_eq)
  have "x \<in> (\<lambda>i. 960 + i div 1024) ` {..<65536}" if "x \<in> {960..<1024}" for x :: nat
    using that by (intro image_eqI [of _ _ "1024 * (x - 960)"]) auto
  then have "(\<lambda>i. 960 + i div 1024) ` {..<65536} = {960..<1024 :: nat}" by auto
  moreover have "seg_slots KERNBASE 65536 = (\<lambda>i. 960 + i div 1024) ` {..<65536}"
    unfolding seg_slots_def by (rule image_cong) (use * in auto)
  ultimately show "seg_slots KERNBASE 65536 = {960..<1024}" by simp
qed

lemma kernbase_ok:
  assumes ok: "boot_ok d b" and e: "slots d b = {958}" and m: "lo b + 64 \<le> npage (kst b)"
  shows "\<exists>b'. boot_map_segment lk d KERNBASE (- KERNBASE) 0 PTE_W b = Some b'
    \<and> seg_done d KERNBASE 65536 0 PTE_W b b' \<and> slots d b' = {958} \<union> {960..<1024} \<and> lo b' = lo b + 64"
proof -
  have va: "unat KERNBASE = 4096 * 983040" by (simp add: layout)
  have sz: "(unat (- KERNBASE) + 4095) div 4096 = 65536"
  proof -
    have "- KERNBASE = 0x10000000" by (simp add: layout)
    then show ?thesis by simp
  qed
  have "\<forall>i < 65536. ordinary (KERNBASE + of_nat i * BY2PG)"
    using seg_slots_kernbase(2) by (simp add: ordinary_def self_slots_def)
  moreover have "{960..<1024} - {958 :: nat} = {960..<1024}" by auto
  ultimately show ?thesis
    using segment_ok [OF ok, of 65536 KERNBASE lk 0 PTE_W] va seg_slots_kernbase(1) e m
    by (auto simp: boot_map_segment_def pages_of_def sz seg_done_def)
qed

definition build :: "linker \<Rightarrow> nat \<Rightarrow> boot \<Rightarrow> boot option" where
  "build lk d b4 =
     do {
       spa \<leftarrow> PADDR (bootstack lk);
       b5 \<leftarrow> boot_map_segment lk d (KSTACKTOP - KSTKSIZE) KSTKSIZE spa PTE_W b4;
       let b6 = fold (\<lambda>i. set_word d i 0) [pdx (KSTACKTOP - PDMAP)..<pdx (KSTACKTOP - KSTKSIZE)] b5;
       b7 \<leftarrow> boot_map_segment lk d KERNBASE (- KERNBASE) 0 PTE_W b6;
       b8 \<leftarrow> map_pages_array lk d b7;
       map_envs_array lk d b8
     }"

lemma on_kst_kst [simp]: "kst (on_kst f b) = f (kst b)"
  by (simp add: on_kst_def)

lemma same_memory_arrays:
  "same_memory b (on_kst zero_page_entry (b\<lparr>pages_va := v\<rparr>))" "same_memory b (on_kst zero_env_entries (b\<lparr>envs_va := v\<rparr>))"
  by (simp_all add: same_memory_def on_kst_def zero_page_entry_def zero_env_entries_def)

lemma memory_ok:
  assumes ok: "boot_ok d b" and e: "slots d b = {}" and m: "lo b + 65 \<le> npage (kst b)"
  shows "\<exists>b5 b7. boot_map_segment lk d (KSTACKTOP - KSTKSIZE) KSTKSIZE pa PTE_W b = Some b5
    \<and> boot_map_segment lk d KERNBASE (- KERNBASE) 0 PTE_W b5 = Some b7
    \<and> boot_ok d b7 \<and> boot_rest b b7 \<and> lo b7 = lo b + 65 \<and> slots d b7 = {958} \<union> {960..<1024}
    \<and> (\<forall>x. ordinary x \<longrightarrow> mapped_at d b7 x = (if page_index KERNBASE x < 65536
          then Some (seg_entry 0 PTE_W (page_index KERNBASE x))
          else if page_index (KSTACKTOP - KSTKSIZE) x < 8
          then Some (seg_entry pa PTE_W (page_index (KSTACKTOP - KSTKSIZE) x)) else None))
    \<and> (\<forall>j \<in> self_slots. phys (kst b7) d j = phys (kst b) d j)"
proof -
  have "lo b < npage (kst b)" using m by simp
  from stack_ok [OF ok e this] obtain b5 where
      b5: "boot_map_segment lk d (KSTACKTOP - KSTKSIZE) KSTKSIZE pa PTE_W b = Some b5"
      "seg_done d (KSTACKTOP - KSTKSIZE) 8 pa PTE_W b b5" "slots d b5 = {958}" "lo b5 = lo b + 1" by blast
  have n5: "npage (kst b5) = npage (kst b)" using b5(2) boot_rest_fields(2) by (auto simp: seg_done_def)
  have "boot_ok d b5" "lo b5 + 64 \<le> npage (kst b5)" using b5(2,4) m n5 by (simp_all add: seg_done_def)
  from kernbase_ok [OF this(1) b5(3) this(2)] obtain b7 where b7:
      "boot_map_segment lk d KERNBASE (- KERNBASE) 0 PTE_W b5 = Some b7" "seg_done d KERNBASE 65536 0 PTE_W b5 b7"
      "slots d b7 = {958} \<union> {960..<1024}" "lo b7 = lo b + 65" using b5(4) by fastforce
  have "boot_rest b b7" using b5(2) b7(2) boot_rest_trans by (auto simp: seg_done_def)
  moreover have "mapped_at d b x = None" if "ordinary x" for x using that e by (simp add: mapped_at_eq)
  ultimately show ?thesis using b5 b7 by (intro exI [of _ b5] exI [of _ b7]) (simp add: seg_done_def)
qed

lemma pages_array_ok:
  assumes ok: "boot_ok d b" and e: "956 \<notin> slots d b" and c: "c = page_array_pages b"
    and m: "lo b + c + 1 \<le> npage (kst b)"
  shows "\<exists>b1 b'. map_pages_array lk d b = Some b' \<and> boot_rest b b1
    \<and> boot_rest (on_kst zero_page_entry (b1\<lparr>pages_va := KERNBASE + page2pa (lo b)\<rparr>)) b'
    \<and> boot_ok d b' \<and> lo b' = lo b + c + 1 \<and> slots d b' = insert 956 (slots d b)
    \<and> (\<forall>x. ordinary x \<longrightarrow> mapped_at d b' x = (if page_index UPAGES x < c
          then Some (seg_entry (page2pa (lo b)) (PTE_W OR PTE_U OR PTE_P) (page_index UPAGES x)) else mapped_at d b x))
    \<and> (\<forall>j \<in> self_slots. phys (kst b') d j = phys (kst b) d j)"
proof -
  let ?n = "of_nat (npage (kst b)) * SIZEOF_PAGE"
  let ?f = "\<lambda>b1. on_kst zero_page_entry (b1\<lparr>pages_va := KERNBASE + page2pa (lo b)\<rparr>)"
  have np: "npage (kst b) < 65536" using lo_limit(2) [of b] ok by (simp add: boot_ok_def)
  have un: "unat ?n = 12 * npage (kst b)" using np by (simp add: SIZEOF_PAGE_def unat_word_ariths word_nat)
  then have cn: "c = (unat ?n + 4095) div 4096" by (simp add: c page_array_pages_def)
  have c1: "0 < c" "c \<le> 1024" using np m unfolding c page_array_pages_def by auto
  have va: "unat UPAGES = 4096 * 978944" "978944 div 1024 = (956 :: nat)" "978944 mod 1024 = (0 :: nat)"
    "(956 :: nat) < 1024" "956 \<notin> self_slots" by (simp_all add: layout self_slots_def)
  obtain b1 b' where b: "alloc lk ?n BY2PG True b = Some (KERNBASE + page2pa (lo b), b1)" "boot_rest b b1"
      "boot_map_segment lk d UPAGES ?n (page2pa (lo b)) (PTE_W OR PTE_U OR PTE_P) (?f b1) = Some b'" "boot_ok d b'"
      "boot_rest (?f b1) b'" "lo b' = lo b + c + 1" "slots d b' = insert 956 (slots d b)"
      "\<forall>x. ordinary x \<longrightarrow> mapped_at d b' x = (if page_index UPAGES x < c
          then Some (seg_entry (page2pa (lo b)) (PTE_W OR PTE_U OR PTE_P) (page_index UPAGES x)) else mapped_at d b x)"
      "\<forall>j \<in> self_slots. phys (kst b') d j = phys (kst b) d j"
    using array_ok [where f = ?f, OF ok va e cn c1 m same_memory_arrays(1)] by blast
  have "map_pages_array lk d b = Some b'"
    using b(1,3) np m page2pa_KERNBASE [of "lo b"] by (simp add: map_pages_array_def)
  with b show ?thesis by blast
qed

lemma envs_array_ok:
  assumes ok: "boot_ok d b" and e: "955 \<notin> slots d b" and m: "lo b + 33 \<le> npage (kst b)"
  shows "\<exists>b1 b'. map_envs_array lk d b = Some b' \<and> boot_rest b b1
    \<and> boot_rest (on_kst zero_env_entries (b1\<lparr>envs_va := KERNBASE + page2pa (lo b)\<rparr>)) b'
    \<and> boot_ok d b' \<and> lo b' = lo b + 33 \<and> slots d b' = insert 955 (slots d b)
    \<and> (\<forall>x. ordinary x \<longrightarrow> mapped_at d b' x = (if page_index UENVS x < 32
          then Some (seg_entry (page2pa (lo b)) (PTE_W OR PTE_U OR PTE_P) (page_index UENVS x)) else mapped_at d b x))
    \<and> (\<forall>j \<in> self_slots. phys (kst b') d j = phys (kst b) d j)"
proof -
  let ?n = "env_count * SIZEOF_ENV"
  let ?f = "\<lambda>b1. on_kst zero_env_entries (b1\<lparr>envs_va := KERNBASE + page2pa (lo b)\<rparr>)"
  have np: "npage (kst b) < 65536" using lo_limit(2) [of b] ok by (simp add: boot_ok_def)
  have cn: "(32 :: nat) = (unat ?n + 4095) div 4096" by (simp add: env_count_def NENV_def SIZEOF_ENV_def)
  have c1: "(0 :: nat) < 32" "(32 :: nat) \<le> 1024" by simp_all
  have va: "unat UENVS = 4096 * 977920" "977920 div 1024 = (955 :: nat)" "977920 mod 1024 = (0 :: nat)"
    "(955 :: nat) < 1024" "955 \<notin> self_slots" by (simp_all add: layout self_slots_def)
  have m': "lo b + 32 + 1 \<le> npage (kst b)" using m by simp
  obtain b1 b' where b: "alloc lk ?n BY2PG True b = Some (KERNBASE + page2pa (lo b), b1)" "boot_rest b b1"
      "boot_map_segment lk d UENVS ?n (page2pa (lo b)) (PTE_W OR PTE_U OR PTE_P) (?f b1) = Some b'" "boot_ok d b'"
      "boot_rest (?f b1) b'" "lo b' = lo b + 32 + 1" "slots d b' = insert 955 (slots d b)"
      "\<forall>x. ordinary x \<longrightarrow> mapped_at d b' x = (if page_index UENVS x < 32
          then Some (seg_entry (page2pa (lo b)) (PTE_W OR PTE_U OR PTE_P) (page_index UENVS x)) else mapped_at d b x)"
      "\<forall>j \<in> self_slots. phys (kst b') d j = phys (kst b) d j"
    using array_ok [where f = ?f, OF ok va e cn c1 m' same_memory_arrays(2)] by blast
  have "map_envs_array lk d b = Some b'"
    using b(1,3) np m page2pa_KERNBASE [of "lo b"] by (simp add: map_envs_array_def)
  with b show ?thesis by (intro exI [of _ b1] exI [of _ b']) simp
qed

lemma kernel_map_index:
  assumes "c \<le> 1024"
  shows "kernel_map lk c f x =
     (if page_index UENVS x < 32
      then Some (seg_entry (page2pa (f + 67 + c)) (PTE_W OR PTE_U OR PTE_P) (page_index UENVS x))
      else if page_index UPAGES x < c
      then Some (seg_entry (page2pa (f + 66)) (PTE_W OR PTE_U OR PTE_P) (page_index UPAGES x))
      else if page_index KERNBASE x < 65536 then Some (seg_entry 0 PTE_W (page_index KERNBASE x))
      else if page_index (KSTACKTOP - KSTKSIZE) x < 8
      then Some (seg_entry (bootstack lk - KERNBASE) PTE_W (page_index (KSTACKTOP - KSTKSIZE) x)) else None)"
proof -
  define k where "k = unat x div 4096"
  have k: "k < 1048576" using unsigned_less [of x, where ?'a = nat] by (simp add: k_def)
  have u: "unat UENVS = 4096 * 977920" "unat UPAGES = 4096 * 978944" "unat KERNBASE = 4096 * 983040"
    "unat (KSTACKTOP - KSTKSIZE) = 4096 * 982008" by (simp_all add: layout KSTKSIZE_def)
  note i = page_index_num [OF u(1), of x] page_index_num [OF u(2), of x] page_index_num [OF u(3), of x]
    page_index_num [OF u(4), of x]
  show ?thesis using assms k unfolding i kernel_map_def Let_def k_def [symmetric] by auto
qed

lemma build_rest:
  assumes "boot_rest b b7" "boot_rest b7 a8" "boot_rest (on_kst zero_page_entry (a8\<lparr>pages_va := v\<rparr>)) b8"
    "boot_rest b8 a9" "boot_rest (on_kst zero_env_entries (a9\<lparr>envs_va := w\<rparr>)) b9"
  shows "b9 = b\<lparr>freemem := freemem b9, pages_va := v, envs_va := w,
      kst := zero_env_entries (zero_page_entry ((kst b)\<lparr>phys := phys (kst b9)\<rparr>))\<rparr>"
  using assms unfolding boot_rest_def
  by (elim exE) (simp add: on_kst_def zero_page_entry_def zero_env_entries_def)

lemma build_ok:
  assumes ok: "boot_ok d b" and e: "slots d b = {}" and l: "lo b = d + 1"
    and m: "d + 100 + c \<le> npage (kst b)" and c: "c = page_array_pages b" and st: "KERNBASE \<le> bootstack lk"
  shows "\<exists>b'. build lk d b = Some b' \<and> boot_ok d b' \<and> slots d b' = top_slots \<and> lo b' = d + 100 + c
     \<and> (\<forall>x. ordinary x \<longrightarrow> mapped_at d b' x = kernel_map lk c d x)
     \<and> (\<forall>j \<in> self_slots. phys (kst b') d j = phys (kst b) d j)
     \<and> b' = b\<lparr>freemem := freemem b', pages_va := KERNBASE + page2pa (d + 66),
          envs_va := KERNBASE + page2pa (d + 67 + c),
          kst := zero_env_entries (zero_page_entry ((kst b)\<lparr>phys := phys (kst b')\<rparr>))\<rparr>"
proof -
  let ?spa = "bootstack lk - KERNBASE"
  have sp: "PADDR (bootstack lk) = Some ?spa" using st by (simp add: PADDR_def not_less)
  have np: "npage (kst b) < 65536" using lo_limit(2) [of b] ok by (simp add: boot_ok_def)
  then have c1: "c \<le> 1024" unfolding c page_array_pages_def by auto
  have "lo b + 65 \<le> npage (kst b)" using m l by simp
  from memory_ok [OF ok e this, of lk ?spa] obtain b5 b7 where b7:
      "boot_map_segment lk d (KSTACKTOP - KSTKSIZE) KSTKSIZE ?spa PTE_W b = Some b5"
      "boot_map_segment lk d KERNBASE (- KERNBASE) 0 PTE_W b5 = Some b7"
      "boot_ok d b7" "boot_rest b b7" "lo b7 = d + 66" "slots d b7 = {958} \<union> {960..<1024}"
      "\<forall>x. ordinary x \<longrightarrow> mapped_at d b7 x = (if page_index KERNBASE x < 65536
          then Some (seg_entry 0 PTE_W (page_index KERNBASE x))
          else if page_index (KSTACKTOP - KSTKSIZE) x < 8
          then Some (seg_entry ?spa PTE_W (page_index (KSTACKTOP - KSTKSIZE) x)) else None)"
      "\<forall>j \<in> self_slots. phys (kst b7) d j = phys (kst b) d j"
    using l by auto
  have n7: "npage (kst b7) = npage (kst b)" using boot_rest_fields(2) [OF b7(4)] .
  have c7: "c = page_array_pages b7" by (simp add: c page_array_pages_def n7)
  have p7: "956 \<notin> slots d b7" "lo b7 + c + 1 \<le> npage (kst b7)" using m b7(5) n7 by (simp_all add: b7(6))
  from pages_array_ok [OF b7(3) p7(1) c7 p7(2), of lk] obtain a8 b8 where b8: "map_pages_array lk d b7 = Some b8"
      "boot_rest b7 a8" "boot_rest (on_kst zero_page_entry (a8\<lparr>pages_va := KERNBASE + page2pa (d + 66)\<rparr>)) b8"
      "boot_ok d b8" "lo b8 = d + 67 + c" "slots d b8 = insert 956 (slots d b7)"
      "\<forall>x. ordinary x \<longrightarrow> mapped_at d b8 x = (if page_index UPAGES x < c
          then Some (seg_entry (page2pa (d + 66)) (PTE_W OR PTE_U OR PTE_P) (page_index UPAGES x)) else mapped_at d b7 x)"
      "\<forall>j \<in> self_slots. phys (kst b8) d j = phys (kst b7) d j"
    unfolding b7(5) by auto
  have n8: "npage (kst b8) = npage (kst b)"
    using boot_rest_fields(2) [OF b8(3)] boot_rest_fields(2) [OF b8(2)] n7 by (simp add: zero_page_entry_def)
  have p8: "955 \<notin> slots d b8" "lo b8 + 33 \<le> npage (kst b8)" using m b8(5) n8 by (simp_all add: b7(6) b8(6))
  from envs_array_ok [OF b8(4) p8, of lk] obtain a9 b9 where b9: "map_envs_array lk d b8 = Some b9"
      "boot_rest b8 a9" "boot_rest (on_kst zero_env_entries (a9\<lparr>envs_va := KERNBASE + page2pa (d + 67 + c)\<rparr>)) b9"
      "boot_ok d b9" "lo b9 = d + 100 + c" "slots d b9 = insert 955 (slots d b8)"
      "\<forall>x. ordinary x \<longrightarrow> mapped_at d b9 x = (if page_index UENVS x < 32
          then Some (seg_entry (page2pa (d + 67 + c)) (PTE_W OR PTE_U OR PTE_P) (page_index UENVS x)) else mapped_at d b8 x)"
      "\<forall>j \<in> self_slots. phys (kst b9) d j = phys (kst b8) d j"
    unfolding b8(5) by auto
  have run: "build lk d b = Some b9" using sp b7(1,2) b8(1) b9(1) by (simp add: build_def pdx_layout)
  have sl: "slots d b9 = top_slots" unfolding b9(6) b8(6) b7(6) top_slots_def by auto
  have mp: "\<forall>x. ordinary x \<longrightarrow> mapped_at d b9 x = kernel_map lk c d x"
    unfolding kernel_map_index [OF c1] using b7(7) b8(7) b9(7) by simp
  have ss: "\<forall>j \<in> self_slots. phys (kst b9) d j = phys (kst b) d j" using b7(8) b8(8) b9(8) by simp
  note r = build_rest [OF b7(4) b8(2,3) b9(2,3)]
  show ?thesis by (rule exI [of _ b9], intro conjI) (fact run b9(4) sl b9(5) mp ss r)+
qed

section \<open>The check\<close>

lemma seg_page:
  assumes "unat va = 4096 * a" "a + i < 2 ^ 20"
  shows "unat (va + of_nat i * BY2PG) div 4096 = a + i"
proof -
  have "unat (of_nat i * BY2PG :: u32) = 4096 * i" using assms(2) by (simp add: BY2PG_def unat_word_ariths word_nat)
  then show ?thesis using page_number [OF assms(1)] assms(2) by simp
qed

lemma seg_ordinary:
  assumes "unat va = 4096 * a" "a + i < 2 ^ 20" "(a + i) div 1024 \<notin> self_slots"
  shows "ordinary (va + of_nat i * BY2PG)"
  using pdx_page [OF assms(1,2)] assms(3) by (simp add: ordinary_def)

lemma kernel_map_parts:
  assumes "c \<le> 1024"
  shows "i < 32 \<Longrightarrow> kernel_map lk c f (UENVS + of_nat i * BY2PG)
      = Some (seg_entry (page2pa (f + 67 + c)) (PTE_W OR PTE_U OR PTE_P) i)"
    "i < c \<Longrightarrow> kernel_map lk c f (UPAGES + of_nat i * BY2PG)
      = Some (seg_entry (page2pa (f + 66)) (PTE_W OR PTE_U OR PTE_P) i)"
    "i < 65536 \<Longrightarrow> kernel_map lk c f (KERNBASE + of_nat i * BY2PG) = Some (seg_entry 0 PTE_W i)"
    "i < 8 \<Longrightarrow> kernel_map lk c f (KSTACKTOP - KSTKSIZE + of_nat i * BY2PG)
      = Some (seg_entry (bootstack lk - KERNBASE) PTE_W i)"
proof -
  have u: "unat UENVS = 4096 * 977920" "unat UPAGES = 4096 * 978944" "unat KERNBASE = 4096 * 983040"
    "unat (KSTACKTOP - KSTKSIZE) = 4096 * 982008" by (simp_all add: layout KSTKSIZE_def)
  show "i < 32 \<Longrightarrow> kernel_map lk c f (UENVS + of_nat i * BY2PG)
      = Some (seg_entry (page2pa (f + 67 + c)) (PTE_W OR PTE_U OR PTE_P) i)"
    using seg_page [OF u(1), of i] by (simp add: kernel_map_def)
  show "i < c \<Longrightarrow> kernel_map lk c f (UPAGES + of_nat i * BY2PG)
      = Some (seg_entry (page2pa (f + 66)) (PTE_W OR PTE_U OR PTE_P) i)"
    using seg_page [OF u(2), of i] assms by (simp add: kernel_map_def)
  show "i < 65536 \<Longrightarrow> kernel_map lk c f (KERNBASE + of_nat i * BY2PG) = Some (seg_entry 0 PTE_W i)"
    using seg_page [OF u(3), of i] assms by (simp add: kernel_map_def)
  show "i < 8 \<Longrightarrow> kernel_map lk c f (KSTACKTOP - KSTKSIZE + of_nat i * BY2PG)
      = Some (seg_entry (bootstack lk - KERNBASE) PTE_W i)"
    using seg_page [OF u(4), of i] assms by (simp add: kernel_map_def)
qed

lemma seg_ordinary_parts:
  "i < 1024 \<Longrightarrow> ordinary (UENVS + of_nat i * BY2PG)" "i < 1024 \<Longrightarrow> ordinary (UPAGES + of_nat i * BY2PG)"
  "i < 65536 \<Longrightarrow> ordinary (KERNBASE + of_nat i * BY2PG)" "i < 8 \<Longrightarrow> ordinary (KSTACKTOP - KSTKSIZE + of_nat i * BY2PG)"
proof -
  have u: "unat UENVS = 4096 * 977920" "unat UPAGES = 4096 * 978944" "unat KERNBASE = 4096 * 983040"
    "unat (KSTACKTOP - KSTKSIZE) = 4096 * 982008" by (simp_all add: layout KSTKSIZE_def)
  show "i < 1024 \<Longrightarrow> ordinary (UENVS + of_nat i * BY2PG)"
    by (rule seg_ordinary [OF u(1)]) (auto simp: self_slots_def)
  show "i < 1024 \<Longrightarrow> ordinary (UPAGES + of_nat i * BY2PG)"
    by (rule seg_ordinary [OF u(2)]) (auto simp: self_slots_def)
  show "i < 65536 \<Longrightarrow> ordinary (KERNBASE + of_nat i * BY2PG)"
  proof (rule seg_ordinary [OF u(3)])
    have "(983040 :: nat) div 1024 \<le> (983040 + i) div 1024" by (rule div_le_mono) (rule le_add1)
    moreover have "(983040 :: nat) div 1024 = 960" by simp
    ultimately have "960 \<le> (983040 + i) div 1024" by (simp only:)
    then show "(983040 + i) div 1024 \<notin> self_slots" by (auto simp: self_slots_def)
  qed simp
  show "i < 8 \<Longrightarrow> ordinary (KSTACKTOP - KSTKSIZE + of_nat i * BY2PG)"
    using seg_slots_one(2) [OF u(4), of 958 8] by (simp add: ordinary_def self_slots_def)
qed

lemma kernel_perms: "low_bits PTE_W" "low_bits (PTE_W OR PTE_U OR PTE_P)"
  by (simp_all add: low_bits_def PTE_W_def PTE_U_def PTE_P_def)

lemma check_ok:
  assumes ok: "boot_ok d b" and sl: "slots d b = top_slots" and c: "c = page_array_pages b" "d + 100 + c \<le> npage (kst b)"
    and mp: "\<forall>x. ordinary x \<longrightarrow> mapped_at d b x = kernel_map lk c d x" and ss: "\<forall>j \<in> self_slots. phys (kst b) d j \<noteq> 0"
    and v: "boot_pgdir (kst b) = d" "pages_va b = KERNBASE + page2pa (d + 66)" "envs_va b = KERNBASE + page2pa (d + 67 + c)"
    and st: "KERNBASE \<le> bootstack lk" "page_start (bootstack lk)"
  shows "check_boot_pgdir lk b = Some ()"
proof -
  have np: "npage (kst b) < 65536" using lo_limit(2) [of b] ok by (simp add: boot_ok_def)
  have c1: "c \<le> 1024" using np unfolding c(1) page_array_pages_def by auto
  note km = kernel_map_parts [OF c1, of _ lk d]
  have pa: "PADDR (pages_va b) = Some (page2pa (d + 66))" "PADDR (envs_va b) = Some (page2pa (d + 67 + c))"
    "PADDR (bootstack lk) = Some (bootstack lk - KERNBASE)"
    using page2pa_KERNBASE [of "d + 66"] page2pa_KERNBASE [of "d + 67 + c"] np c(2) st(1) v
    by (simp_all add: PADDR_def [of "bootstack lk"] not_less)
  have "d + 66 < 2 ^ 20" "d + 67 + c < 2 ^ 20" using c(2) np by simp_all
  then have ps: "page_start (page2pa (d + 66))" "page_start (page2pa (d + 67 + c))"
    by (simp_all add: page_start_page2pa)
  note pk = page_start_kernel [OF st]
  let ?n = "of_nat (npage (kst b)) * SIZEOF_PAGE"
  have "unat ?n = 12 * npage (kst b)" using np by (simp add: SIZEOF_PAGE_def unat_word_ariths word_nat)
  then have "unat (ROUND ?n BY2PG) = c * 4096" using ROUND_frames [of ?n] np by (simp add: c(1) page_array_pages_def)
  then have n1: "(unat (ROUND ?n BY2PG) + 4095) div 4096 = c" by simp
  have n2: "(unat (ROUND (env_count * SIZEOF_ENV) BY2PG) + 4095) div 4096 = 32"
    using ROUND_frames [of "env_count * SIZEOF_ENV"] by (simp add: env_count_def NENV_def SIZEOF_ENV_def)
  have n3: "(unat (- KERNBASE) + 4095) div 4096 = 65536"
  proof -
    have "- KERNBASE = 0x10000000" by (simp add: layout)
    then show ?thesis by simp
  qed
  have n4: "(unat KSTKSIZE + 4095) div 4096 = 8" by (simp add: KSTKSIZE_def BY2PG_def)
  have "check_range (kst b) d UPAGES (page2pa (d + 66)) (ROUND ?n BY2PG)"
    by (rule check_rangeI [OF ok ps(1) kernel_perms(2) n1]) (use c1 mp km(2) seg_ordinary_parts(2) in simp)
  moreover have "check_range (kst b) d UENVS (page2pa (d + 67 + c)) (ROUND (env_count * SIZEOF_ENV) BY2PG)"
    by (rule check_rangeI [OF ok ps(2) kernel_perms(2) n2]) (use mp km(1) seg_ordinary_parts(1) in simp)
  moreover have "check_range (kst b) d KERNBASE 0 (- KERNBASE)"
    by (rule check_rangeI [OF ok _ kernel_perms(1) n3]) (use mp km(3) seg_ordinary_parts(3) in \<open>simp_all add: page_start_def\<close>)
  moreover have "check_range (kst b) d (KSTACKTOP - KSTKSIZE) (bootstack lk - KERNBASE) KSTKSIZE"
    by (rule check_rangeI [OF ok pk kernel_perms(1) n4]) (use mp km(4) seg_ordinary_parts(4) in simp)
  moreover have "list_all (check_pde (kst b) d) [0..<PDE2PD]"
  proof -
    have "phys (kst b) d i \<noteq> 0" if "i \<in> top_slots" for i
    proof -
      have "i \<in> slots d b" using that sl by simp
      then have "present (phys (kst b) d i)" by (simp add: slots_def)
      then show ?thesis by auto
    qed
    moreover have "phys (kst b) d i = 0" if "i < 1024" "i \<notin> top_slots" "i \<notin> self_slots" for i
    proof -
      have "i \<notin> slots d b" using that sl by simp
      then have "\<not> present (phys (kst b) d i)" using that by (simp add: slots_def)
      then show ?thesis using ok that(1) by (simp add: boot_ok_def)
    qed
    ultimately show ?thesis using ss
      by (auto simp: list_all_iff check_pde_def PDE2PD_def pdx_layout top_slots_def self_slots_def)
  qed
  ultimately show ?thesis by (simp add: check_boot_pgdir_def v(1) pa)
qed

section \<open>The result\<close>

lemma paging_memory:
  assumes "phys (kst b) d 0 = 0"
  shows "same_memory b (turn_on_paging d b)"
proof -
  have "phys (kst b) d = (phys (kst b) d)(0 := 0)" using assms by (metis fun_upd_triv)
  then show ?thesis
    by (simp add: same_memory_def turn_on_paging_def set_word_def on_kst_def set_phys_def Let_def)
qed

lemma turn_on_paging_rest:
  "kst (turn_on_paging d b) = (kst b)\<lparr>cr3 := boot_cr3 b, phys := phys (kst (turn_on_paging d b))\<rparr>"
  "basemem (turn_on_paging d b) = basemem b" "maxpa (turn_on_paging d b) = maxpa b"
  "pages_va (turn_on_paging d b) = pages_va b" "envs_va (turn_on_paging d b) = envs_va b"
  by (simp_all add: turn_on_paging_def set_word_def on_kst_def set_phys_def Let_def)

definition after_vm_init :: "linker \<Rightarrow> boot \<Rightarrow> boot \<Rightarrow> bool" where
  "after_vm_init lk b b' \<longleftrightarrow> (let d = first_frame lk; c = page_array_pages b in
     boot_ok d b' \<and> slots d b' = top_slots \<and> lo b' = d + 100 + c \<and> self_map d b'
     \<and> (\<forall>x. ordinary x \<longrightarrow> mapped_at d b' x = kernel_map lk c d x)
     \<and> pages_va b' = KERNBASE + page2pa (d + 66) \<and> envs_va b' = KERNBASE + page2pa (d + 67 + c)
     \<and> basemem b' = basemem b \<and> maxpa b' = maxpa b
     \<and> kst b' = (zero_env_entries (zero_page_entry ((kst b)\<lparr>boot_pgdir := d, phys := phys (kst b')\<rparr>)))\<lparr>cr3 := page2pa d\<rparr>)"

lemma with_self_rest:
  assumes "boot_rest b b1"
  shows "npage (kst (with_self b1 d)) = npage (kst b)" "boot_cr3 (with_self b1 d) = page2pa d"
    "basemem (with_self b1 d) = basemem b" "maxpa (with_self b1 d) = maxpa b"
    "(kst (with_self b1 d))\<lparr>phys := m\<rparr> = (kst b)\<lparr>boot_pgdir := d, phys := m\<rparr>"
  using assms unfolding boot_rest_def
  by (auto simp: with_self_def set_word_def on_kst_def set_phys_def)

lemma vm_init_ok:
  assumes fits: "kernel_fits lk b"
  shows "\<exists>b'. i386_vm_init lk b = Some b' \<and> after_vm_init lk b b'"
proof -
  define d where "d = first_frame lk"
  define c where "c = page_array_pages b"
  have fr: "fresh_boot lk b" and m: "d + 100 + c \<le> npage (kst b)" and st: "KERNBASE \<le> bootstack lk" "page_start (bootstack lk)"
    using fits by (simp_all add: kernel_fits_def d_def c_def)
  have "first_frame lk < npage (kst b)" using m by (simp add: d_def)
  from start_ok [OF fr this] obtain b1 where b1: "alloc lk BY2PG BY2PG True b = Some (KERNBASE + page2pa d, b1)"
      "boot_ok d (with_self b1 d)" "boot_rest b b1" "lo (with_self b1 d) = d + 1" "slots d (with_self b1 d) = {}"
      "\<forall>j \<in> self_slots. phys (kst (with_self b1 d)) d j \<noteq> 0" "self_map d (with_self b1 d)" by (auto simp: d_def)
  note w = with_self_rest [OF b1(3), where d = d]
  have np: "npage (kst b) < 65536" using lo_limit(2) [of "with_self b1 d"] b1(2) w(1) by (simp add: boot_ok_def)
  have cw: "c = page_array_pages (with_self b1 d)" by (simp add: c_def page_array_pages_def w(1))
  obtain b9 where b9: "build lk d (with_self b1 d) = Some b9" "boot_ok d b9" "slots d b9 = top_slots" "lo b9 = d + 100 + c"
      "\<forall>x. ordinary x \<longrightarrow> mapped_at d b9 x = kernel_map lk c d x"
      "\<forall>j \<in> self_slots. phys (kst b9) d j = phys (kst (with_self b1 d)) d j"
      "b9 = (with_self b1 d)\<lparr>freemem := freemem b9, pages_va := KERNBASE + page2pa (d + 66),
          envs_va := KERNBASE + page2pa (d + 67 + c),
          kst := zero_env_entries (zero_page_entry ((kst (with_self b1 d))\<lparr>phys := phys (kst b9)\<rparr>))\<rparr>"
    using build_ok [OF b1(2,5,4) _ cw st(1)] m w(1) by auto
  have k9: "kst b9 = zero_env_entries (zero_page_entry ((kst b)\<lparr>boot_pgdir := d, phys := phys (kst b9)\<rparr>))"
    by (subst b9(7)) (simp add: w(5))
  have f9: "pages_va b9 = KERNBASE + page2pa (d + 66)" "envs_va b9 = KERNBASE + page2pa (d + 67 + c)"
    "basemem b9 = basemem b" "maxpa b9 = maxpa b" "boot_cr3 b9 = page2pa d"
    by (subst b9(7), simp add: w)+
  have n9: "npage (kst b9) = npage (kst b)" "boot_pgdir (kst b9) = d"
    by (subst k9, simp add: zero_env_entries_def zero_page_entry_def)+
  have "check_boot_pgdir lk b9 = Some ()"
    using b9(6) b1(6) m n9 f9 st by (intro check_ok [OF b9(2,3) _ _ b9(5)]) (simp_all add: c_def page_array_pages_def)
  moreover have "0 \<notin> slots d b9" by (simp add: b9(3) top_slots_def)
  then have "\<not> present (phys (kst b9) d 0)" by (simp add: slots_def self_slots_def)
  then have sm: "same_memory b9 (turn_on_paging d b9)" using b9(2) by (intro paging_memory) (simp add: boot_ok_def)
  have "d < 2 ^ 16" "d < 2 ^ 20" using m np by simp_all
  then have "PADDR (KERNBASE + page2pa d) = Some (page2pa d)" "frame_of (page2pa d) = d"
    by (simp_all add: page2pa_KERNBASE frame_of_page2pa)
  moreover obtain spa b5 b7 b8 where "PADDR (bootstack lk) = Some spa"
      "boot_map_segment lk d (KSTACKTOP - KSTKSIZE) KSTKSIZE spa PTE_W (with_self b1 d) = Some b5"
      "boot_map_segment lk d KERNBASE (- KERNBASE) 0 PTE_W
         (fold (\<lambda>i. set_word d i 0) [pdx (KSTACKTOP - PDMAP)..<pdx (KSTACKTOP - KSTKSIZE)] b5) = Some b7"
      "map_pages_array lk d b7 = Some b8" "map_envs_array lk d b8 = Some b9"
    using b9(1) by (auto simp: build_def bind_eq_Some_conv Let_def)
  ultimately have "i386_vm_init lk b = Some (turn_on_paging d b9)"
    using b1(1) by (simp add: i386_vm_init_def with_self_def [symmetric] Let_def)
  moreover have "self_map d b9" using b1(7) b9(6) by (simp add: self_map_def self_slots_def pdx_layout)
  then have "self_map d (turn_on_paging d b9)" using sm by (simp add: self_map_def same_memory_def)
  ultimately have run: "i386_vm_init lk b = Some (turn_on_paging d b9)" "self_map d (turn_on_paging d b9)" by simp_all
  have "after_vm_init lk b (turn_on_paging d b9)"
    unfolding after_vm_init_def Let_def d_def [symmetric] c_def [symmetric] same_memory_ok [OF sm]
    using b9(2-5) f9 k9 turn_on_paging_rest [of d b9] sm run(2) by (simp add: same_memory_def)
  then show ?thesis using run(1) by blast
qed

end
