(* ===== verification/Boot_Check.thy ===== *)
theory Boot_Check
  imports Boot Vm_Ops
begin

text \<open>
  \<open>page_check\<close>: on any kernel with three free pages and no page table for the first 8 MB, every
  assertion of the test holds, and the pages are free again afterwards.

  During the test the free list holds at most the three pages \<open>P\<close>, and the rest of the list hangs
  on its own links; memory differs from the start in one directory entry and one page table.
\<close>

unbundle bit_operations_syntax

section \<open>Links\<close>

definition links_same :: "nat set \<Rightarrow> qlist \<Rightarrow> qlist \<Rightarrow> bool" where
  "links_same P q q' \<longleftrightarrow> (\<forall>x. x \<notin> P \<longrightarrow> le_next q' x = le_next q x \<and> le_prev q' x = le_prev q x)"

lemma links_same_refl [simp]: "links_same P q q"
  by (simp add: links_same_def)

lemma links_same_trans: "links_same P q r \<Longrightarrow> links_same P r t \<Longrightarrow> links_same P q t"
  by (simp add: links_same_def)

lemma links_insert_head:
  assumes "list_repr q ls" "set ls \<subseteq> P" "e \<in> P"
  shows "links_same P q (LIST_INSERT_HEAD q e)"
  using assms
  by (cases ls) (auto simp: links_same_def LIST_INSERT_HEAD_def LIST_FIRST_def set_prev_def list_repr_def Let_def)

lemma links_clear: "e \<in> P \<Longrightarrow> links_same P q (clear_link q e)"
  by (auto simp: links_same_def clear_link_def)

lemma links_take:
  assumes "list_repr q (e # ls)" "set (e # ls) \<subseteq> P" "LIST_REMOVE q e = Some q'"
  shows "links_same P q q'"
  using assms
  by (cases ls) (auto simp: links_same_def LIST_REMOVE_def LIST_NEXT_def set_prev_def store_slot_def list_repr_def
      Let_def split: option.splits if_splits)

section \<open>The state during the test\<close>

definition chk :: "kstate \<Rightarrow> nat \<Rightarrow> nat \<Rightarrow> nat set \<Rightarrow> nat list \<Rightarrow> (nat \<Rightarrow> u16) \<Rightarrow> (nat \<Rightarrow> u32) \<Rightarrow> kstate \<Rightarrow> bool" where
  "chk s d t P ls r e s' \<longleftrightarrow> mem_only s s' \<and> list_repr (page_free_list s') ls \<and> set ls \<subseteq> P
     \<and> links_same P (page_free_list s) (page_free_list s') \<and> pp_ref s' = r
     \<and> phys s' = (phys s)(d := (phys s d)(0 := PDE t), t := e)"

lemma chk_alloc_empty: "chk s d t P [] r e s' \<Longrightarrow> page_alloc s' = Some (Inl E_NO_MEM, s')"
  by (simp add: chk_def page_alloc_empty)

lemma chk_alloc:
  assumes "chk s d t P (p # ls) r e s'"
  shows "\<exists>s''. page_alloc s' = Some (Inr p, s'') \<and> chk s d t P ls r e s''"
proof -
  have l: "list_repr (page_free_list s') (p # ls)" using assms by (simp add: chk_def)
  obtain q where q: "LIST_REMOVE (page_free_list s') p = Some q" "list_repr q ls" using qm.take_first [OF l] by blast
  have "page_alloc s' = Some (Inr p, s'\<lparr>page_free_list := q\<rparr>)" using q(1) by (simp add: page_alloc_def qm.first [OF l])
  moreover have "links_same P (page_free_list s) q"
    using links_take [OF l _ q(1), of P] assms links_same_trans by (auto simp: chk_def)
  then have "chk s d t P ls r e (s'\<lparr>page_free_list := q\<rparr>)"
    using assms q(2) mem_only_trans [OF _ mem_only_intros(4)] by (auto simp: chk_def)
  ultimately show ?thesis by blast
qed

lemma chk_free:
  assumes "chk s d t P ls r e s'" "p \<in> P" "p \<notin> set ls"
  shows "chk s d t P (p # ls) (r(p := 0)) e (page_free s' p)"
proof -
  let ?q = "clear_link (page_free_list s') p"
  have l: "list_repr ?q ls" using assms qm.clear by (auto simp: chk_def)
  have "links_same P (page_free_list s) (LIST_INSERT_HEAD ?q p)"
    using assms links_insert_head [OF l _ assms(2)] links_clear [OF assms(2)] links_same_trans by (metis chk_def)
  then show ?thesis
    using assms qm.insert_head [OF l assms(3)] mem_only_trans [OF _ mem_only_ops(2)]
    by (auto simp: chk_def page_free_def page_initpp_def Let_def)
qed

lemma chk_decref:
  assumes "chk s d t P ls r e s'" "p \<in> P" "p \<notin> set ls"
  shows "chk s d t P (if r p = 1 then p # ls else ls) (r(p := r p - 1)) e (page_decref s' p)"
proof -
  let ?s = "s'\<lparr>pp_ref := (pp_ref s')(p := pp_ref s' p - 1)\<rparr>"
  have c: "chk s d t P ls (r(p := r p - 1)) e ?s"
    using assms(1) mem_only_trans [OF _ mem_only_intros(3)] by (auto simp: chk_def)
  have r: "pp_ref s' = r" using assms(1) by (simp add: chk_def)
  show ?thesis
  proof (cases "r p = 1")
    case True
    then show ?thesis using chk_free [OF c assms(2,3)] r by (simp add: page_decref_def)
  next
    case False
    then have "r p - 1 \<noteq> 0" by (metis diff_eq_diff_eq diff_self right_minus_eq)
    then show ?thesis using c r False by (simp add: page_decref_def)
  qed
qed

section \<open>Entries of the table\<close>

definition ent :: "nat \<Rightarrow> u32" where "ent p = page2pa p OR 0 OR PTE_P"

lemma ent_entry: "p < 2 ^ 20 \<Longrightarrow> present (ent p)" "p < 2 ^ 20 \<Longrightarrow> frame_of (ent p) = p"
  using frame_of_entry [of p 0] by (simp_all add: ent_def low_bits_def)

lemma PTE_ADDR_low: "low_bits perm \<Longrightarrow> PTE_ADDR (page2pa p OR perm) = page2pa p"
  by (rule bit_word_eqI) (use low_bits_bit in \<open>auto simp: page2pa_def PGSHIFT_def bit_PTE_ADDR bit_simps\<close>)

lemma PTE_ADDR_ent: "PTE_ADDR (ent p) = page2pa p" "PTE_ADDR (PDE p) = page2pa p"
  using PTE_ADDR_low [of "0 OR PTE_P" p] PTE_ADDR_low [of "PTE_W OR PTE_U OR PTE_P" p]
  by (simp_all add: ent_def PDE_def low_bits_def PTE_P_def PTE_W_def PTE_U_def or.assoc)

text \<open>The pages of the test: distinct from the directory, and pages of the machine.\<close>

definition chk_pages :: "kstate \<Rightarrow> nat \<Rightarrow> nat \<Rightarrow> nat set \<Rightarrow> bool" where
  "chk_pages s d t P \<longleftrightarrow> npage s \<le> 2 ^ 20 \<and> d \<noteq> t \<and> t \<in> P \<and> (\<forall>p \<in> P. p < npage s)"

lemma chk_pagesD:
  assumes "chk_pages s d t P" "p \<in> P"
  shows "p < npage s" "p < 2 ^ 20" "present (ent p)" "frame_of (ent p) = p"
proof -
  show n: "p < npage s" "p < 2 ^ 20" using assms by (auto simp: chk_pages_def)
  show "present (ent p)" "frame_of (ent p) = p" using ent_entry [OF n(2)] by simp_all
qed

lemma chk_fields:
  assumes "chk s d t P ls r e s'"
  shows "npage s' = npage s" "pp_ref s' = r" "list_repr (page_free_list s') ls"
    "d \<noteq> t \<Longrightarrow> phys s' d 0 = PDE t" "phys s' t = e"
  using assms mem_only_fields(1) by (auto simp: chk_def)

section \<open>The operations\<close>

lemma chk_walk:
  assumes pg: "chk_pages s d t P" and c: "chk s d t P ls r e s'" and va: "pdx va = 0"
  shows "pgdir_walk s' d va b = Some (Inr (Some (t, ptx va)), s')"
proof -
  have dt: "d \<noteq> t" and t: "t \<in> P" using pg by (simp_all add: chk_pages_def)
  note p = chk_pagesD [OF pg t]
  have "phys s' d 0 = PDE t" "npage s' = npage s" using chk_fields [OF c] dt by simp_all
  then show ?thesis
    using va PDE_entry [OF p(2)] KADDR_frame [of "PDE t" s'] p(1) by (simp add: pgdir_walk_def walk_result_def)
qed

lemma chk_va2pa:
  assumes pg: "chk_pages s d t P" and c: "chk s d t P ls r e s'" and va: "pdx va = 0"
  shows "va2pa s' d va = Some (if present (e (ptx va)) then PTE_ADDR (e (ptx va)) else NOT 0)"
proof -
  have dt: "d \<noteq> t" and t: "t \<in> P" using pg by (simp_all add: chk_pages_def)
  note p = chk_pagesD [OF pg t]
  have "phys s' d 0 = PDE t" "phys s' t = e" "npage s' = npage s" using chk_fields [OF c] dt by simp_all
  then show ?thesis
    using va PDE_entry [OF p(2)] KADDR_frame [of "PDE t" s'] p(1) by (simp add: va2pa_def)
qed

lemma chk_store:
  assumes c: "chk s d t P ls r e s'" and dt: "d \<noteq> t"
  shows "chk s d t P ls r (e(j := w)) (set_phys s' t j w)"
  using c dt mem_only_trans [OF _ mem_only_intros(1)] by (auto simp: chk_def put_word_def)

lemma chk_remove_none:
  assumes pg: "chk_pages s d t P" and c: "chk s d t P ls r e s'" and va: "pdx va = 0" and n: "\<not> present (e (ptx va))"
  shows "page_remove s' d va = Some s'"
  using n chk_walk [OF pg c va] chk_fields(5) [OF c] by (simp add: page_remove_def)

lemma chk_remove:
  assumes pg: "chk_pages s d t P" and c: "chk s d t P ls r e s'" and va: "pdx va = 0" and j: "e (ptx va) = ent p"
    and p: "p \<in> P" "p \<notin> set ls"
  shows "\<exists>s''. page_remove s' d va = Some s''
    \<and> chk s d t P (if r p = 1 then p # ls else ls) (r(p := r p - 1)) (e(ptx va := 0)) s''"
proof -
  note q = chk_pagesD [OF pg p(1)]
  have dt: "d \<noteq> t" using pg by (simp add: chk_pages_def)
  have "pa2page s' (ent p) = Some p" using pa2page_frame [of "ent p" s'] q chk_fields(1) [OF c] by simp
  then have "page_remove s' d va = Some (tlb_invalidate (set_phys (page_decref s' p) t (ptx va) 0) d va)"
    using chk_walk [OF pg c va] chk_fields(5) [OF c] j q(3) by (simp add: page_remove_def)
  moreover have "chk s d t P (if r p = 1 then p # ls else ls) (r(p := r p - 1)) (e(ptx va := 0))
      (tlb_invalidate (set_phys (page_decref s' p) t (ptx va) 0) d va)"
    using chk_store [OF chk_decref [OF c p] dt, of "ptx va" 0] mem_only_trans [OF _ mem_only_ops(5)]
    by (auto simp: chk_def)
  ultimately show ?thesis by blast
qed

lemma chk_incref: "chk s d t P ls r e s' \<Longrightarrow> chk s d t P ls (r(p := r p + 1)) e (page_incref s' p)"
  using mem_only_trans [OF _ mem_only_ops(4)] by (auto simp: chk_def)

lemma chk_insert_new:
  assumes pg: "chk_pages s d t P" and c: "chk s d t P ls r e s'" and va: "pdx va = 0" and n: "\<not> present (e (ptx va))"
  shows "\<exists>s''. page_insert s' d p va 0 = Some (Inr (), s'')
    \<and> chk s d t P ls (r(p := r p + 1)) (e(ptx va := ent p)) s''"
proof -
  have dt: "d \<noteq> t" using pg by (simp add: chk_pages_def)
  note c1 = chk_incref [OF c, of p]
  have "page_insert s' d p va 0 = Some (Inr (), set_phys (page_incref s' p) t (ptx va) (ent p))"
    using chk_walk [OF pg c1 va] chk_remove_none [OF pg c1 va n] by (simp add: page_insert_def ent_def)
  then show ?thesis using chk_store [OF c1 dt] by blast
qed

lemma chk_insert_over:
  fixes p :: nat
  assumes pg: "chk_pages s d t P" and c: "chk s d t P ls r e s'" and va: "pdx va = 0" and j: "e (ptx va) = ent q"
    and q: "q \<in> P" "q \<notin> set ls"
  defines "r1 \<equiv> r(p := r p + 1)"
  shows "\<exists>s''. page_insert s' d p va 0 = Some (Inr (), s'')
    \<and> chk s d t P (if r1 q = 1 then q # ls else ls) (r1(q := r1 q - 1)) (e(ptx va := ent p)) s''"
proof -
  have dt: "d \<noteq> t" using pg by (simp add: chk_pages_def)
  have c1: "chk s d t P ls r1 e (page_incref s' p)" unfolding r1_def by (rule chk_incref [OF c])
  obtain s2 where s2: "page_remove (page_incref s' p) d va = Some s2"
      "chk s d t P (if r1 q = 1 then q # ls else ls) (r1(q := r1 q - 1)) (e(ptx va := 0)) s2"
    using chk_remove [OF pg c1 va j q] by blast
  have "page_insert s' d p va 0 = Some (Inr (), set_phys s2 t (ptx va) (ent p))"
    using chk_walk [OF pg c1 va] s2(1) by (simp add: page_insert_def ent_def)
  then show ?thesis using chk_store [OF s2(2) dt, of "ptx va" "ent p"] by auto
qed

text \<open>Without a page for a table, an insertion fails and leaves everything as it was.\<close>

lemma insert_refused:
  assumes "list_repr (page_free_list s) []" "\<not> present (phys s d (pdx va))"
  shows "page_insert s d p va perm = Some (Inl E_NO_MEM, s)"
proof -
  have "pgdir_walk (page_incref s p) d va True = Some (Inl E_NO_MEM, page_incref s p)"
    using assms page_alloc_empty [of "page_incref s p"] by (simp add: pgdir_walk_def)
  moreover have "(page_incref s p)\<lparr>pp_ref := (pp_ref (page_incref s p))(p := pp_ref (page_incref s p) p - 1)\<rparr> = s"
    by (simp add: page_incref_def)
  ultimately show ?thesis by (simp add: page_insert_def)
qed

lemma chk_table:
  assumes pg: "chk_pages s d t P" and l: "list_repr (page_free_list s') [t]" and mo: "mem_only s s'"
    and ls: "links_same P (page_free_list s) (page_free_list s')" and r: "pp_ref s' = r" and ph: "phys s' = phys s"
    and va: "pdx va = 0" and n: "\<not> present (phys s d 0)"
  shows "\<exists>s''. pgdir_walk s' d va True = Some (Inr (Some (t, ptx va)), s'')
    \<and> chk s d t P [] (r(t := r t + 1)) (\<lambda>_. 0) s''"
proof -
  have dt: "d \<noteq> t" and t: "t \<in> P" using pg by (simp_all add: chk_pages_def)
  note p = chk_pagesD [OF pg t]
  obtain q where q: "LIST_REMOVE (page_free_list s') t = Some q" "list_repr q []" using qm.take_first [OF l] by blast
  let ?s1 = "s'\<lparr>page_free_list := q\<rparr>"
  let ?s4 = "set_phys (page_incref (bzero_page ?s1 t) t) d 0 (PDE t)"
  have np: "npage s' = npage s" using mem_only_fields(1) [OF mo] .
  have "page_alloc s' = Some (Inr t, ?s1)" using q(1) by (simp add: page_alloc_def qm.first [OF l])
  moreover have "page2kva ?s1 t = Some t" using page2kva_page [of t ?s1] p np by simp
  moreover have "walk_result ?s4 d va = Some (Inr (Some (t, ptx va)), ?s4)"
    using KADDR_frame [of "PDE t" ?s4] PDE_entry [OF p(2)] va p(1) np by (simp add: walk_result_def put_word_def)
  ultimately have w: "pgdir_walk s' d va True = Some (Inr (Some (t, ptx va)), ?s4)"
    using n ph va by (simp add: pgdir_walk_def PDE_def)
  have "links_same P (page_free_list s) q"
    using links_take [OF l _ q(1), of P] t ls links_same_trans by auto
  moreover have "mem_only s' ?s4" by (simp add: mem_only_def set_phys_def page_incref_def bzero_page_def)
  ultimately have "chk s d t P [] (r(t := r t + 1)) (\<lambda>_. 0) ?s4"
    using q(2) r ph dt mem_only_trans [OF mo, of ?s4]
    by (simp add: chk_def) (simp add: bzero_page_def put_word_def fun_upd_twist)
  with w show ?thesis by blast
qed

section \<open>The test\<close>

lemma small_va: "pdx 0 = 0" "ptx 0 = 0" "pdx BY2PG = 0" "ptx BY2PG = 1" "pdx PDMAP = 1"
proof -
  show "pdx 0 = 0" "pdx BY2PG = 0" "pdx PDMAP = 1" by (simp_all add: pdx_div layout)
  have "PTX 0 = 0" "PTX BY2PG = 1" by code_simp+
  then show "ptx 0 = 0" "ptx BY2PG = 1" by (simp_all add: ptx_def)
qed

lemma check_take_ok:
  assumes l: "list_repr (page_free_list s) (p0 # p1 # p2 # rest)"
  shows "\<exists>q. check_take s = Some ((p0, p1, p2, lh_first q),
      kprintf_msg ''page_alloc() seems worked!\<newline>'' [] (s\<lparr>page_free_list := LIST_INIT q\<rparr>)) \<and> list_repr q rest"
proof -
  have ne: "p1 \<noteq> p0" "p2 \<noteq> p1" "p2 \<noteq> p0" using qm.distinct [OF l] by auto
  obtain q1 where q1: "page_alloc s = Some (Inr p0, s\<lparr>page_free_list := q1\<rparr>)" "list_repr q1 (p1 # p2 # rest)"
    using page_alloc_cons [OF l] by blast
  obtain q2 where q2: "page_alloc (s\<lparr>page_free_list := q1\<rparr>) = Some (Inr p1, s\<lparr>page_free_list := q2\<rparr>)" "list_repr q2 (p2 # rest)"
    using page_alloc_cons [of "s\<lparr>page_free_list := q1\<rparr>"] q1(2) by auto
  obtain q3 where q3: "page_alloc (s\<lparr>page_free_list := q2\<rparr>) = Some (Inr p2, s\<lparr>page_free_list := q3\<rparr>)" "list_repr q3 rest"
    using page_alloc_cons [of "s\<lparr>page_free_list := q2\<rparr>"] q2(2) by auto
  have "page_alloc (s\<lparr>page_free_list := LIST_INIT q3\<rparr>) = Some (Inl E_NO_MEM, s\<lparr>page_free_list := LIST_INIT q3\<rparr>)"
    using page_alloc_empty [of "s\<lparr>page_free_list := LIST_INIT q3\<rparr>"] qm.initial by simp
  then show ?thesis
    using q1(1) q2(1) q3 ne by (intro exI [of _ q3]) (simp add: check_take_def expect_def Let_def)
qed

lemma check_map_ok:
  assumes pg: "chk_pages s d p0 {p0, p1, p2}" and ne: "distinct [p0, p1, p2]" and d: "boot_pgdir s = d" "d \<notin> {p0, p1, p2}"
    and l: "list_repr (page_free_list s) []" and r: "\<forall>p \<in> {p0, p1, p2}. pp_ref s p = 0"
    and n: "\<not> present (phys s d 0)" "\<not> present (phys s d 1)"
  shows "\<exists>s'. check_map p0 p1 p2 s = Some s' \<and> chk s d p0 {p0, p1, p2} [] ((pp_ref s)(p0 := 1, p1 := 1, p2 := 1))
     ((\<lambda>_. 0)(0 := ent p1, 1 := ent p2)) s'"
proof -
  let ?P = "{p0, p1, p2}"
  note va = small_va
  note e1 = chk_pagesD [OF pg, of p1, simplified] and e2 = chk_pagesD [OF pg, of p2, simplified]
  let ?s2 = "page_free s p0"
  have l2: "list_repr (page_free_list ?s2) [p0]" using page_free_list_free [OF l] by simp
  have k2: "links_same ?P (page_free_list s) (page_free_list (page_incref ?s2 p1))"
    using links_clear [of p0 ?P] links_insert_head [of "clear_link (page_free_list s) p0" "[]" ?P p0] qm.clear [OF l]
      links_same_trans by (force simp: page_free_def page_initpp_def Let_def)
  have m2: "mem_only s (page_incref ?s2 p1)" by (rule mem_only_trans [OF mem_only_ops(2,4)])
  let ?r = "((pp_ref s)(p0 := 0))(p1 := 1)"
  have r2: "pp_ref (page_incref ?s2 p1) = ?r" using r ne by auto
  obtain s2' where w: "pgdir_walk (page_incref ?s2 p1) d 0 True = Some (Inr (Some (p0, 0)), s2')"
      "chk s d p0 ?P [] (?r(p0 := ?r p0 + 1)) (\<lambda>_. 0) s2'"
    using chk_table [OF pg _ m2 k2 r2, of 0] l2 n(1) va by auto
  have "?r(p0 := ?r p0 + 1) = (pp_ref s)(p0 := 1, p1 := 1)" using ne by (auto simp: fun_eq_iff)
  with w(2) have c2: "chk s d p0 ?P [] ((pp_ref s)(p0 := 1, p1 := 1)) (\<lambda>_. 0) s2'" by simp
  let ?s3 = "set_phys s2' p0 0 (ent p1)"
  have i3: "page_insert ?s2 d p1 0 0 = Some (Inr (), ?s3)"
    using w(1) chk_remove_none [OF pg c2 va(1)] by (simp add: page_insert_def ent_def)
  have dt: "d \<noteq> p0" using d(2) by simp
  note c3 = chk_store [OF c2 dt, of 0 "ent p1"]
  let ?e = "(\<lambda>_. 0)(0 := ent p1, 1 := ent p2) :: nat \<Rightarrow> u32"
  let ?R = "(pp_ref s)(p0 := 1, p1 := 1, p2 := 1)"
  have z2: "((pp_ref s)(p0 := 1, p1 := 1)) p2 = 0" using r ne by auto
  obtain s5 where s5: "page_insert ?s3 d p2 BY2PG 0 = Some (Inr (), s5)" "chk s d p0 ?P [] ?R ?e s5"
    using chk_insert_new [OF pg c3 va(3), of p2] va(4) z2 by auto
  have "?e (ptx BY2PG) = ent p2" "p2 \<in> ?P" "p2 \<notin> set []" by (simp_all add: va)
  moreover have ee: "?e(ptx BY2PG := ent p2) = ?e" by (simp add: va fun_eq_iff)
  ultimately obtain s8 where
    s8: "page_insert s5 d p2 BY2PG 0 = Some (Inr (), s8)" "chk s d p0 ?P [] ?R ?e s8"
    using chk_insert_over [OF pg s5(2) va(3), of p2 p2] unfolding ee by auto
  have "phys s8 d 1 = phys s d 1" using s8(2) dt by (simp add: chk_def)
  then have i10: "page_insert s8 d p0 PDMAP 0 = Some (Inl E_NO_MEM, s8)"
    using insert_refused [of s8 d PDMAP p0 0] s8(2) n(2) va(5) by (simp add: chk_def)
  have "va2pa ?s3 d 0 = Some (page2pa p1)" "va2pa s5 d BY2PG = Some (page2pa p2)" "va2pa s8 d BY2PG = Some (page2pa p2)"
    using chk_va2pa [OF pg c3 va(1)] chk_va2pa [OF pg s5(2) va(3)] chk_va2pa [OF pg s8(2) va(3)] va e1 e2
    by (simp_all add: PTE_ADDR_ent)
  moreover have "phys ?s3 d 0 = PDE p0" "pp_ref ?s3 p1 = 1" "pp_ref s5 p2 = 1" "pp_ref s8 p2 = 1"
    using chk_fields [OF c3] chk_fields [OF s5(2)] chk_fields [OF s8(2)] dt ne by simp_all
  moreover have "page_insert s d p1 0 0 = Some (Inl E_NO_MEM, s)" using insert_refused [OF l, of d 0] n(1) va(1) by simp
  moreover note a3 = chk_alloc_empty [OF c3] and a5 = chk_alloc_empty [OF s5(2)] and a8 = chk_alloc_empty [OF s8(2)]
  ultimately have "check_map p0 p1 p2 s = Some s8"
    unfolding check_map_def d(1) Let_def
    by (simp add: i3 s5(1) s8(1) i10 a3 a5 a8 expect_def refused_def PTE_ADDR_ent)
  then show ?thesis using s8(2) by blast
qed

lemma check_remap_ok:
  assumes pg: "chk_pages s d p0 {p0, p1, p2}" and ne: "distinct [p0, p1, p2]" and d: "d \<notin> {p0, p1, p2}"
    and c: "chk s d p0 {p0, p1, p2} [] (r(p0 := 1, p1 := 1, p2 := 1)) ((\<lambda>_. 0)(0 := ent p1, 1 := ent p2)) s0"
    and b: "boot_pgdir s0 = d"
  shows "\<exists>s' e. check_remap p0 p1 p2 s0 = Some s' \<and> chk s d p0 {p0, p1, p2} [] (r(p0 := 1, p1 := 0, p2 := 0)) e s'"
proof -
  let ?P = "{p0, p1, p2}"
  note va = small_va
  note e1 = chk_pagesD [OF pg, of p1, simplified]
  let ?e0 = "(\<lambda>_. 0)(0 := ent p1, 1 := ent p2) :: nat \<Rightarrow> u32"
  let ?e1 = "?e0(1 := ent p1)" and ?e3 = "(?e0(1 := ent p1))(0 := 0)"
  let ?r1 = "r(p0 := 1, p1 := 2, p2 := 0)" and ?r3 = "r(p0 := 1, p1 := 1, p2 := 0)" and ?r4 = "r(p0 := 1, p1 := 0, p2 := 0)"
  have ins: "p1 \<in> ?P" "p1 \<notin> set []" "p2 \<in> ?P" "p2 \<notin> set []" by simp_all
  have "?e0 (ptx BY2PG) = ent p2" by (simp add: va)
  moreover have "((r(p0 := 1, p1 := 1, p2 := 1))(p1 := (r(p0 := 1, p1 := 1, p2 := 1)) p1 + 1))(p2 := 0) = ?r1"
    using ne by (auto simp: fun_eq_iff)
  ultimately obtain s1 where s1: "page_insert s0 d p1 BY2PG 0 = Some (Inr (), s1)" "chk s d p0 ?P [p2] ?r1 ?e1 s1"
    using chk_insert_over [OF pg c va(3), of p2 p1] ins ne by (auto simp: va)
  obtain s2 where s2: "page_alloc s1 = Some (Inr p2, s2)" "chk s d p0 ?P [] ?r1 ?e1 s2"
    using chk_alloc [OF s1(2)] by blast
  have "?e1 (ptx 0) = ent p1" by (simp add: va)
  moreover have "?r1(p1 := ?r1 p1 - 1) = ?r3" "?r1 p1 \<noteq> 1" using ne by (auto simp: fun_eq_iff)
  ultimately obtain s3 where s3: "page_remove s2 d 0 = Some s3" "chk s d p0 ?P [] ?r3 ?e3 s3"
    using chk_remove [OF pg s2(2) va(1) _ ins(1,2)] by (auto simp: va)
  have "?e3 (ptx BY2PG) = ent p1" by (simp add: va)
  moreover have "?r3(p1 := ?r3 p1 - 1) = ?r4" "?r3 p1 = 1" using ne by (auto simp: fun_eq_iff)
  ultimately obtain s4 where s4: "page_remove s3 d BY2PG = Some s4" "chk s d p0 ?P [p1] ?r4 (?e3(1 := 0)) s4"
    using chk_remove [OF pg s3(2) va(3) _ ins(1,2)] by (auto simp: va)
  obtain s5 where s5: "page_alloc s4 = Some (Inr p1, s5)" "chk s d p0 ?P [] ?r4 (?e3(1 := 0)) s5"
    using chk_alloc [OF s4(2)] by blast
  note v = chk_va2pa [OF pg s1(2) va(1)] chk_va2pa [OF pg s1(2) va(3)] chk_va2pa [OF pg s3(2) va(1)]
    chk_va2pa [OF pg s3(2) va(3)] chk_va2pa [OF pg s4(2) va(1)] chk_va2pa [OF pg s4(2) va(3)]
  have "va2pa s1 d 0 = Some (page2pa p1)" "va2pa s1 d BY2PG = Some (page2pa p1)" "va2pa s3 d 0 = Some (NOT 0)"
    "va2pa s3 d BY2PG = Some (page2pa p1)" "va2pa s4 d 0 = Some (NOT 0)" "va2pa s4 d BY2PG = Some (NOT 0)"
    using v e1 by (simp_all add: va PTE_ADDR_ent)
  moreover have "pp_ref s1 p1 = 2" "pp_ref s1 p2 = 0" "pp_ref s3 p1 = 1" "pp_ref s3 p2 = 0" "pp_ref s4 p1 = 0" "pp_ref s4 p2 = 0"
    using s1(2) s3(2) s4(2) ne by (simp_all add: chk_def)
  ultimately have "check_remap p0 p1 p2 s0 = Some s5"
    unfolding check_remap_def b Let_def
    by (simp add: s1(1) s2(1) s3(1) s4(1) s5(1) chk_alloc_empty [OF s5(2)] expect_def)
  then show ?thesis using s5(2) by blast
qed

lemma list_repr_links:
  assumes "list_repr q xs" "set xs \<inter> P = {}" "links_same P q q'"
  shows "list_repr (q'\<lparr>lh_first := lh_first q\<rparr>) xs"
proof -
  have "chain (q'\<lparr>lh_first := lh_first q\<rparr>) HeadSlot (lh_first q) xs None"
    by (rule chain_cong [of q]) (use assms in \<open>auto simp: list_repr_def links_same_def\<close>)
  then show ?thesis using assms(1) by (simp add: list_repr_def)
qed

text \<open>
  The whole test: on a free list that starts with three pages it succeeds; these pages come back in
  the reverse order, and only the content of the first may have changed.
\<close>

lemma page_check_ok:
  assumes l: "list_repr (page_free_list s) (p0 # p1 # p2 # rest)" and b: "boot_pgdir s = d" "d \<notin> {p0, p1, p2}"
    and np: "npage s \<le> 2 ^ 20" "\<forall>p \<in> {p0, p1, p2}. p < npage s \<and> pp_ref s p = 0"
    and n: "phys s d 0 = 0" "\<not> present (phys s d 1)"
  shows "\<exists>s'. page_check s = Some s' \<and> list_repr (page_free_list s') (p2 # p1 # p0 # rest) \<and> pp_ref s' = pp_ref s
    \<and> (\<forall>t. t \<noteq> p0 \<longrightarrow> phys s' t = phys s t)
    \<and> s' = s\<lparr>phys := phys s', pp_ref := pp_ref s', page_free_list := page_free_list s', invlpgs := invlpgs s', klog := klog s'\<rparr>"
proof -
  let ?P = "{p0, p1, p2}"
  have ne: "distinct [p0, p1, p2]" "p0 \<notin> set rest" "p1 \<notin> set rest" "p2 \<notin> set rest" using qm.distinct [OF l] by auto
  obtain q where q: "check_take s = Some ((p0, p1, p2, lh_first q),
      kprintf_msg ''page_alloc() seems worked!\<newline>'' [] (s\<lparr>page_free_list := LIST_INIT q\<rparr>))" "list_repr q rest"
    using check_take_ok [OF l] by blast
  define s1 where "s1 = kprintf_msg ''page_alloc() seems worked!\<newline>'' [] (s\<lparr>page_free_list := LIST_INIT q\<rparr>)"
  have f1: "boot_pgdir s1 = d" "npage s1 = npage s" "phys s1 = phys s" "pp_ref s1 = pp_ref s" "page_free_list s1 = LIST_INIT q"
    using b by (simp_all add: s1_def kprintf_msg_def)
  have pg: "chk_pages s1 d p0 ?P" using np b by (auto simp: chk_pages_def f1)
  obtain s2 where s2: "check_map p0 p1 p2 s1 = Some s2"
      "chk s1 d p0 ?P [] ((pp_ref s1)(p0 := 1, p1 := 1, p2 := 1)) ((\<lambda>_. 0)(0 := ent p1, 1 := ent p2)) s2"
    using check_map_ok [OF pg ne(1) f1(1) b(2)] qm.initial np n by (auto simp: f1)
  have "boot_pgdir s2 = d" using s2(2) mem_only_fields(5) f1(1) by (auto simp: chk_def)
  from check_remap_ok [OF pg ne(1) b(2) s2(2) this] obtain s3 e where s3: "check_remap p0 p1 p2 s2 = Some s3"
      "chk s1 d p0 ?P [] ((pp_ref s1)(p0 := 1, p1 := 0, p2 := 0)) e s3" by blast
  have k3: "mem_only s1 s3" "links_same ?P (LIST_INIT q) (page_free_list s3)" "pp_ref s3 = (pp_ref s)(p0 := 1, p1 := 0, p2 := 0)"
      "phys s3 = (phys s)(d := (phys s d)(0 := PDE p0), p0 := e)"
    using s3(2) by (simp_all add: chk_def f1)
  have d3: "boot_pgdir s3 = d" "phys s3 d 0 = PDE p0" using k3(1,4) mem_only_fields(5) f1(1) b(2) by auto
  define g where "g = (set_phys s3 d 0 0)\<lparr>pp_ref := (pp_ref s3)(p0 := 0),
      page_free_list := (page_free_list s3)\<lparr>lh_first := lh_first q\<rparr>\<rparr>"
  define s6 where "s6 = page_free (page_free (page_free g p0) p1) p2"
  have run: "check_give p0 p1 p2 (lh_first q) s3 = Some s6"
    using d3 k3(3) ne by (simp add: check_give_def expect_def PTE_ADDR_ent s6_def g_def set_phys_def)
  have "links_same ?P q (page_free_list s3)" using k3(2) by (simp add: links_same_def LIST_INIT_def)
  then have lg: "list_repr (page_free_list g) rest"
    using list_repr_links [OF q(2), of ?P "page_free_list s3"] ne by (simp add: g_def)
  have "list_repr (page_free_list s6) (p2 # p1 # p0 # rest)"
    unfolding s6_def using ne by (intro page_free_list_free lg) auto
  moreover have "pp_ref s6 = pp_ref s" using np(2) k3(3) by (auto simp: s6_def g_def fun_eq_iff)
  moreover have "phys s6 t = phys s t" if "t \<noteq> p0" for t
    using that k3(4) n(1) by (auto simp: s6_def g_def put_word_def fun_eq_iff)
  moreover have "s6 = s\<lparr>phys := phys s6, pp_ref := pp_ref s6, page_free_list := page_free_list s6, invlpgs := invlpgs s6,
      klog := klog s6\<rparr>"
  proof -
    have "mem_only s3 g" by (simp add: mem_only_def g_def set_phys_def)
    then have m: "mem_only s1 s6"
      unfolding s6_def using mem_only_trans [OF k3(1)] mem_only_trans [OF _ mem_only_ops(2)] by blast
    then have "s6 = s1\<lparr>phys := phys s6, pp_ref := pp_ref s6, page_free_list := page_free_list s6, invlpgs := invlpgs s6\<rparr>"
      by (simp only: mem_only_def)
    also have "\<dots> = s\<lparr>phys := phys s6, pp_ref := pp_ref s6, page_free_list := page_free_list s6, invlpgs := invlpgs s6,
        klog := klog s6\<rparr>"
      unfolding mem_only_fields(12) [OF m] by (simp add: s1_def kprintf_msg_def)
    finally show ?thesis .
  qed
  moreover have "page_check s = Some s6" using q(1) s2(1) s3(1) run by (simp add: page_check_def s1_def)
  ultimately show ?thesis by blast
qed

end
