(* ===== verification/Boot_Inv.thy ===== *)
theory Boot_Inv
  imports Boot_Init Boot_Check Kernel_Inv
begin

text \<open>
  From the first address space to the kernel invariant: the free list that \<open>page_init\<close> makes, and
  the invariant of the address spaces when there is no environment yet.
\<close>

unbundle bit_operations_syntax

section \<open>page_init\<close>

lemma mark_used_all:
  "(\<And>i. i \<in> set xs \<Longrightarrow> i < npage s) \<Longrightarrow>
     mfold mark_used xs s = Some (s\<lparr>pp_ref := (\<lambda>p. if p \<in> set xs then 1 else pp_ref s p)\<rparr>)"
proof (induction xs arbitrary: s)
  case (Cons x xs)
  have "mark_used x s = Some (s\<lparr>pp_ref := (pp_ref s)(x := 1)\<rparr>)" using Cons.prems [of x] by (simp add: mark_used_def)
  then show ?case
    using Cons.IH [of "s\<lparr>pp_ref := (pp_ref s)(x := 1)\<rparr>"] Cons.prems by (auto simp: fun_eq_iff)
qed simp

lemma mark_free_all:
  assumes "\<And>i. i \<in> set xs \<Longrightarrow> i < npage s" "list_repr (page_free_list s) fl" "distinct xs" "set xs \<inter> set fl = {}"
  shows "\<exists>q. mfold mark_free xs s = Some (s\<lparr>page_free_list := q, pp_ref := (\<lambda>p. if p \<in> set xs then 0 else pp_ref s p)\<rparr>)
    \<and> list_repr q (rev xs @ fl)"
  using assms
proof (induction xs arbitrary: s fl)
  case Nil
  then show ?case by (intro exI [of _ "page_free_list s"]) simp
next
  case (Cons x xs)
  let ?s = "s\<lparr>pp_ref := (pp_ref s)(x := 0), page_free_list := LIST_INSERT_HEAD (page_free_list s) x\<rparr>"
  have "mark_free x s = Some ?s" using Cons.prems(1) [of x] by (simp add: mark_free_def)
  moreover have "list_repr (page_free_list ?s) (x # fl)" using Cons.prems(2,4) qm.insert_head by simp
  then obtain q where "mfold mark_free xs ?s = Some (?s\<lparr>page_free_list := q,
      pp_ref := (\<lambda>p. if p \<in> set xs then 0 else pp_ref ?s p)\<rparr>)" "list_repr q (rev xs @ x # fl)"
    using Cons.IH [of ?s "x # fl"] Cons.prems by auto
  ultimately show ?case by (intro exI [of _ q]) (auto simp: fun_eq_iff)
qed

text \<open>Base memory ends below the hole, and the kernel lies above it.\<close>

lemma page_init_ok:
  assumes ok: "boot_ok d b" and base: "unat (basemem b) div 4096 \<le> 256" and lo: "256 \<le> lo b" and r: "\<forall>p. pp_ref (kst b) p = 0"
  defines "n1 \<equiv> unat (basemem b) div 4096"
  shows "\<exists>q r. page_init b = Some (b\<lparr>kst := (kst b)\<lparr>page_free_list := q, pp_ref := r\<rparr>\<rparr>)
    \<and> list_repr q (rev [lo b..<npage (kst b)] @ rev [1..<n1])
    \<and> (\<forall>p \<in> {lo b..<npage (kst b)} \<union> {1..<n1}. r p = 0)"
proof -
  have mo: "mem_ok b" using ok by (simp add: boot_ok_def)
  note ll = lo_limit [OF mo]
  let ?s1 = "(kst b)\<lparr>page_free_list := LIST_INIT (page_free_list (kst b))\<rparr>"
  let ?s2 = "?s1\<lparr>pp_ref := (pp_ref ?s1)(0 := 1)\<rparr>"
  have "0 < npage (kst b)" using lo ll by linarith
  then have u2: "mark_used 0 ?s1 = Some ?s2" by (simp add: mark_used_def)
  have n1: "unat (basemem b div BY2PG) = n1" by (simp add: n1_def unat_div BY2PG_def)
  have "unat (EXTPHYSMEM div BY2PG) = 256" by (simp add: unat_div BY2PG_def EXTPHYSMEM_def)
  note n2 = this
  have le: "n1 \<le> 256" "256 \<le> npage (kst b)" using base lo ll by (simp_all add: n1_def)
  have "list_repr (page_free_list ?s2) []" using qm.initial by simp
  then obtain q3 where s3: "mfold mark_free [1..<n1] ?s2 = Some (?s2\<lparr>page_free_list := q3,
      pp_ref := (\<lambda>p. if p \<in> set [1..<n1] then 0 else pp_ref ?s2 p)\<rparr>)" "list_repr q3 (rev [1..<n1] @ [])"
    using mark_free_all [of "[1..<n1]" ?s2 "[]"] le by auto
  define s3 where "s3 = ?s2\<lparr>page_free_list := q3, pp_ref := (\<lambda>p. if p \<in> set [1..<n1] then 0 else pp_ref ?s2 p)\<rparr>"
  define s4 where "s4 = s3\<lparr>pp_ref := (\<lambda>p. if p \<in> set [max 1 n1..<256] then 1 else pp_ref s3 p)\<rparr>"
  have s4: "mfold mark_used [max 1 n1..<256] s3 = Some s4"
    unfolding s4_def by (rule mark_used_all) (use le in \<open>auto simp: s3_def\<close>)
  define x where "x = freemem b - KERNBASE"
  have f: "KERNBASE \<le> freemem b" "unat (freemem b) \<le> unat KERNBASE + 4096 * npage (kst b)" using mo by (simp_all add: mem_ok_def)
  then have xu: "unat x = unat (freemem b) - unat KERNBASE" by (simp add: x_def unat_sub word_le_nat_alt)
  have "unat x + 4095 < 2 ^ 32" using xu f(2) ll(2) by simp
  then have "unat (ROUND x BY2PG) = (unat x + 4095) div 4096 * 4096" by (rule ROUND_frames)
  then have n3: "unat (ROUND x BY2PG div BY2PG) = lo b" by (simp add: unat_div BY2PG_def lo_def xu)
  have pa: "PADDR (freemem b) = Some x" using f(1) by (simp add: PADDR_def x_def not_less)
  define s5 where "s5 = s4\<lparr>pp_ref := (\<lambda>p. if p \<in> set [256..<lo b] then 1 else pp_ref s4 p)\<rparr>"
  have s5: "mfold mark_used [256..<lo b] s4 = Some s5"
    unfolding s5_def by (rule mark_used_all) (use ll in \<open>auto simp: s4_def s3_def\<close>)
  have "list_repr (page_free_list s5) (rev [1..<n1])" using s3(2) by (simp add: s5_def s4_def s3_def)
  moreover have "set [lo b..<npage s5] \<inter> set (rev [1..<n1]) = {}" using lo le by auto
  ultimately obtain q6 where s6: "mfold mark_free [lo b..<npage s5] s5 = Some (s5\<lparr>page_free_list := q6,
      pp_ref := (\<lambda>p. if p \<in> set [lo b..<npage s5] then 0 else pp_ref s5 p)\<rparr>)" "list_repr q6 (rev [lo b..<npage s5] @ rev [1..<n1])"
    using mark_free_all [of "[lo b..<npage s5]" s5 "rev [1..<n1]"] by auto
  have np5: "npage s5 = npage (kst b)" by (simp add: s5_def s4_def s3_def)
  define r6 where "r6 = (\<lambda>p. if p \<in> set [lo b..<npage s5] then 0 else pp_ref s5 p)"
  have e: "s5\<lparr>page_free_list := q6, pp_ref := r6\<rparr> = (kst b)\<lparr>page_free_list := q6, pp_ref := r6\<rparr>"
    by (simp add: s5_def s4_def s3_def)
  have mx: "max (max 1 n1) 256 = (256 :: nat)" "max 256 (lo b) = lo b" using le lo by simp_all
  have "page_init b = Some (b\<lparr>kst := s5\<lparr>page_free_list := q6, pp_ref := r6\<rparr>\<rparr>)"
    by (simp only: page_init_def Let_def n1 n2 n3 mx u2 s3(1) [folded s3_def] s4 s5 s6(1) [folded r6_def] pa bind.bind_lunit)
  then have "page_init b = Some (b\<lparr>kst := (kst b)\<lparr>page_free_list := q6, pp_ref := r6\<rparr>\<rparr>)" unfolding e .
  moreover have "r6 p = 0" if "p \<in> {lo b..<npage (kst b)} \<union> {1..<n1}" for p
    using that lo le r by (auto simp: r6_def np5 s5_def s4_def s3_def)
  ultimately show ?thesis using s6(2) unfolding np5 by (intro exI [of _ q6] exI [of _ r6]) blast
qed

section \<open>The kernel invariant\<close>

text \<open>A kernel with no environment, whose own directory has no user slots.\<close>

lemma first_vm_inv:
  assumes nu: "no_user_slots (phys s) (boot_pgdir s)"
    and np: "npage s \<le> 2 ^ 20" "boot_pgdir s < npage s"
    and fl: "list_repr (page_free_list s) fl" "\<forall>p \<in> set fl. p < npage s \<and> pp_ref s p = 0 \<and> p \<noteq> boot_pgdir s"
  shows "vm_inv s {boot_pgdir s} fl no_pending"
proof -
  have pt: "ptslots (phys s) {boot_pgdir s} = {}" using nu by (auto simp: ptslots_def no_user_slots_def)
  then have lf: "leafslots (phys s) {boot_pgdir s} = {}" by (simp add: leafslots_def)
  show ?thesis using np fl pt lf by (simp add: vm_inv_def vm_struct_def vm_count_def refs_def no_pending_def free_ok_def)
qed

end
