(* ===== verification/Boot_Props.thy ===== *)
theory Boot_Props
  imports Boot_Inv Kinv_Mem
begin

text \<open>
  What the start of the kernel gives: the map of the first address space, and the kernel
  invariant before and after the first environments are loaded.
\<close>

unbundle bit_operations_syntax

section \<open>Memory\<close>

text \<open>
  The machine that starts: the boot loader has put the kernel at 1 MB, and the memory behind it
  holds the first structures and three pages for \<open>page_check\<close>. The BIOS reports base memory
  below the hole.
\<close>

definition machine_ok :: "(nat \<Rightarrow> u8) \<Rightarrow> linker \<Rightarrow> u32 \<Rightarrow> u32 \<Rightarrow> boot \<Rightarrow> bool" where
  "machine_ok cmos lk l h b \<longleftrightarrow> (let m = i386_detect_memory cmos l h b in
     kernel_fits lk m \<and> first_frame lk + 103 + page_array_pages m \<le> npage (kst m)
     \<and> unat (basemem m) div 4096 \<le> 256 \<and> curenv (kst b) = None)"

lemma detect_rest: "curenv (kst (i386_detect_memory cmos l h b)) = curenv (kst b)"
  by (simp add: i386_detect_memory_def kprintf_msg_def Let_def split: prod.split)

lemma rev_upt_three: "a + 3 \<le> n \<Longrightarrow> rev [a..<n] = (n - 1) # (n - 2) # (n - 3) # rev [a..<n - 3]"
proof -
  assume "a + 3 \<le> n"
  then obtain m where n: "n = Suc (Suc (Suc m))" "a \<le> m" by (intro that [of "n - 3"]) simp_all
  show ?thesis unfolding n(1) using n(2) by (simp add: numeral_3_eq_3 numeral_2_eq_2)
qed

lemma first_frame_high: "kernel_fits lk b \<Longrightarrow> 256 \<le> first_frame lk"
proof -
  assume "kernel_fits lk b"
  then have "KERNBASE + EXTPHYSMEM \<le> kend lk" by (simp add: kernel_fits_def)
  then have "unat KERNBASE + 256 * 4096 \<le> unat (kend lk)" by (simp add: word_le_nat_alt layout EXTPHYSMEM_def)
  then show ?thesis by (simp add: first_frame_def)
qed

definition memory_ready :: "linker \<Rightarrow> boot \<Rightarrow> kstate \<Rightarrow> bool" where
  "memory_ready lk m s \<longleftrightarrow> (let d = first_frame lk in
     boot_pgdir s = d \<and> cr3 s = page2pa d \<and> curenv s = None \<and> (\<forall>e. envs s e = zero_env)
     \<and> no_user_slots (phys s) d \<and> npage s = npage (kst m)
     \<and> (\<exists>fl. vm_inv s {d} fl no_pending \<and> fl \<noteq> []))"

lemma init_memory_ok:
  assumes mo: "machine_ok cmos lk l h b"
  shows "\<exists>b'. init_memory cmos lk l h b = Some b' \<and> memory_ready lk (i386_detect_memory cmos l h b) (kst b')"
proof -
  define m where "m = i386_detect_memory cmos l h b"
  define d where "d = first_frame lk"
  have kf: "kernel_fits lk m" and room: "d + 103 + page_array_pages m \<le> npage (kst m)"
    and base: "unat (basemem m) div 4096 \<le> 256" and cu: "curenv (kst m) = None"
    using mo detect_rest by (simp_all add: machine_ok_def Let_def m_def d_def)
  obtain b1 where b1: "i386_vm_init lk m = Some b1" "after_vm_init lk m b1" using vm_init_ok [OF kf] by blast
  have ok: "boot_ok d b1" and sl: "slots d b1 = top_slots" and lo: "lo b1 = d + 100 + page_array_pages m"
    and bm: "basemem b1 = basemem m"
    and k1: "kst b1 = (zero_env_entries (zero_page_entry ((kst m)\<lparr>boot_pgdir := d, phys := phys (kst b1)\<rparr>)))\<lparr>cr3 := page2pa d\<rparr>"
    using b1(2) by (simp_all add: after_vm_init_def Let_def d_def)
  have f1: "npage (kst b1) = npage (kst m)" "boot_pgdir (kst b1) = d" "cr3 (kst b1) = page2pa d" "curenv (kst b1) = None"
      "\<forall>e. envs (kst b1) e = zero_env" "\<forall>p. pp_ref (kst b1) p = 0"
    by (subst k1, simp add: zero_env_entries_def zero_page_entry_def cu)+
  have d256: "256 \<le> d" using first_frame_high [OF kf] by (simp add: d_def)
  define n where "n = npage (kst m)"
  define n1 where "n1 = unat (basemem m) div 4096"
  obtain q r where pi: "page_init b1 = Some (b1\<lparr>kst := (kst b1)\<lparr>page_free_list := q, pp_ref := r\<rparr>\<rparr>)"
      "list_repr q (rev [lo b1..<n] @ rev [1..<n1])" "\<forall>p \<in> {lo b1..<n} \<union> {1..<n1}. r p = 0"
    using page_init_ok [OF ok _ _ f1(6)] base lo d256 by (auto simp: bm f1(1) n_def n1_def)
  define s where "s = (kst b1)\<lparr>page_free_list := q, pp_ref := r\<rparr>"
  have l3: "lo b1 + 3 \<le> n" using lo room by (simp add: n_def)
  define rest where "rest = rev [lo b1..<n - 3] @ rev [1..<n1]"
  have l: "list_repr (page_free_list s) ((n - 1) # (n - 2) # (n - 3) # rest)"
    using pi(2) rev_upt_three [OF l3] by (simp add: s_def rest_def)
  have dn: "d \<notin> {n - 1, n - 2, n - 3}" using lo l3 by auto
  have n20: "n \<le> 2 ^ 20" using lo_limit(2) [of b1] ok by (simp add: boot_ok_def f1 n_def)
  have pages: "\<forall>p \<in> {n - 1, n - 2, n - 3}. p < npage s \<and> pp_ref s p = 0"
    using pi(3) l3 by (auto simp: s_def f1 n_def)
  have np: "\<not> present (phys s d i)" if "i < 955" for i
  proof -
    have "i \<notin> slots d b1" using that by (auto simp: sl top_slots_def)
    then show ?thesis using that by (auto simp: slots_def self_slots_def s_def)
  qed
  have "phys s d 0 = 0" using ok np [of 0] by (simp add: boot_ok_def s_def)
  from page_check_ok [OF l _ dn _ pages this np [of 1]] obtain s' where s': "page_check s = Some s'"
      "list_repr (page_free_list s') ((n - 3) # (n - 2) # (n - 1) # rest)" "pp_ref s' = pp_ref s"
      "\<forall>t. t \<noteq> n - 1 \<longrightarrow> phys s' t = phys s t"
      "s' = s\<lparr>phys := phys s', pp_ref := pp_ref s', page_free_list := page_free_list s', invlpgs := invlpgs s', klog := klog s'\<rparr>"
    using f1(1,2) n20 by (auto simp: s_def n_def)
  have g: "boot_pgdir s' = d" "cr3 s' = page2pa d" "curenv s' = None" "\<forall>e. envs s' e = zero_env" "npage s' = n"
    by (subst s'(5), simp add: s_def f1 n_def)+
  have us: "user_slots = 955" using pdx_layout(9) by (simp add: user_slots_def pdx_def)
  have "phys s' d = phys s d" using s'(4) dn by auto
  then have nu: "no_user_slots (phys s') d" using np by (simp add: no_user_slots_def us)
  let ?fl = "(n - 3) # (n - 2) # (n - 1) # rest"
  have "d < n" using lo l3 by linarith
  have "p < npage s' \<and> pp_ref s' p = 0 \<and> p \<noteq> boot_pgdir s'" if "p \<in> set ?fl" for p
    using that pi(3) l3 lo d256 base by (auto simp: rest_def g s'(3) s_def n1_def)
  then have "vm_inv s' {boot_pgdir s'} ?fl no_pending"
    using nu n20 s'(2) \<open>d < n\<close> by (intro first_vm_inv) (simp_all add: g)
  then have "memory_ready lk m s'" using g nu by (auto simp: memory_ready_def Let_def d_def n_def)
  moreover have "init_memory cmos lk l h b = Some (b1\<lparr>kst := s'\<rparr>)"
    using b1(1) pi(1) s'(1) by (simp add: init_memory_def m_def s_def)
  ultimately show ?thesis unfolding m_def by auto
qed

section \<open>Environments\<close>

text \<open>The table is empty and valid after \<open>env_init\<close>.\<close>

lemma ready_kinv:
  assumes "memory_ready lk m s"
  shows "\<exists>fl. kinv_at (env_init s) fl [0..<NENV] \<and> fl \<noteq> []" "curenv (env_init s) = None"
proof -
  obtain fl where f: "vm_inv s {boot_pgdir s} fl no_pending" "fl \<noteq> []" "no_user_slots (phys s) (boot_pgdir s)"
      "curenv s = None" "\<forall>e. envs s e = zero_env"
    using assms by (auto simp: memory_ready_def Let_def)
  have "env_pgdir (envs s e) = None \<and> env_ipc_dstva (envs s e) < UTOP" for e
    using f(5) by (simp add: zero_env_def layout)
  from env_init_ok [OF f(1,3) this f(4)] f(2) show "\<exists>fl. kinv_at (env_init s) fl [0..<NENV] \<and> fl \<noteq> []" by blast
  show "curenv (env_init s) = None"
    using f(4) env_init_boot(4) by simp
qed

text \<open>
  Loading programs: either all are loaded, or the kernel stops at one for which there is no page
  or no entry left.
\<close>

definition exhausted :: "kstate \<Rightarrow> bool" where
  "exhausted s \<longleftrightarrow> (\<exists>fl efl. kinv_at s fl efl \<and> (fl = [] \<or> efl = []))"

lemma env_create_keeps:
  assumes k: "kinv_at s fl efl" and sz: "sz < UTOP - UTEXT" and r: "env_create s binary sz = Some s'"
  shows "kinv s'" "live s e \<Longrightarrow> live s' e" "curenv s' = curenv s"
proof -
  obtain x s1 fl1 efl1 where a: "env_alloc s 0 = Some (x, s1)" "kinv_at s1 fl1 efl1"
      "case x of Inl _ \<Rightarrow> s1 = s | Inr e \<Rightarrow> env_created s e 0 s1" using env_alloc_inv [OF k] by blast
  obtain n where n: "x = Inr n" "load_icode s1 n binary sz = Some s'"
    using r a(1) by (auto simp: env_create_def split: sum.splits)
  have cr: "env_created s n 0 s1" using a(3) n(1) by simp
  then have ln: "live s1 n" by (simp add: env_created_def)
  obtain fl2 where b: "kinv_at s' fl2 efl1" "mem_only s1 s'"
    using load_icode_ok [OF a(2) ln sz, of binary] n(2) by auto
  show "kinv s'" using b(1) by (auto simp: kinv_def)
  show "live s' e" if "live s e"
  proof -
    have "envs s1 e = envs s e" using cr that by (auto simp: env_created_def)
    then have "live s1 e" using that by (simp add: live_def)
    then show ?thesis using live_mem_only [OF b(2), of e] by blast
  qed
  show "curenv s' = curenv s" using cr mem_only_fields(4) [OF b(2)] by (simp add: env_created_def)
qed

lemma load_all:
  assumes "kinv s" "\<forall>(binary, sz) \<in> set ps. sz < UTOP - UTEXT"
  shows "(\<exists>s'. load_programs ps s = Some s' \<and> kinv s' \<and> curenv s' = curenv s
        \<and> (\<forall>e. live s e \<longrightarrow> live s' e))
    \<or> (\<exists>qs p rs t. ps = qs @ p # rs \<and> load_programs qs s = Some t \<and> exhausted t)"
  using assms
proof (induction ps arbitrary: s)
  case (Cons p ps)
  obtain binary sz where p: "p = (binary, sz)" by (cases p)
  obtain fl efl where k: "kinv_at s fl efl" using Cons.prems(1) by (auto simp: kinv_def)
  have sz: "sz < UTOP - UTEXT" using Cons.prems(2) p by simp
  show ?case
  proof (cases "fl = [] \<or> efl = []")
    case True
    then have "exhausted s" using k by (auto simp: exhausted_def)
    then show ?thesis by (intro disjI2 exI [of _ "[]"] exI [of _ p] exI [of _ ps] exI [of _ s]) (simp add: load_programs_def)
  next
    case False
    then obtain q fl' e efl' where "kinv_at s (q # fl') (e # efl')" using k by (metis list.exhaust)
    from env_create_ok [OF this sz] obtain s1 where s1: "env_create s binary sz = Some s1" by blast
    note kp = env_create_keeps [OF k sz s1]
    have step: "load_programs (p # xs) s = load_programs xs s1" for xs using s1 by (simp add: load_programs_def p)
    have "\<forall>(binary, sz) \<in> set ps. sz < UTOP - UTEXT" using Cons.prems(2) by simp
    from Cons.IH [OF kp(1) this] show ?thesis
    proof
      assume "\<exists>s'. load_programs ps s1 = Some s' \<and> kinv s' \<and> curenv s' = curenv s1
          \<and> (\<forall>e. live s1 e \<longrightarrow> live s' e)"
      then show ?thesis using kp step by auto
    next
      assume "\<exists>qs p rs t. ps = qs @ p # rs \<and> load_programs qs s1 = Some t \<and> exhausted t"
      then obtain qs p' rs t where t: "ps = qs @ p' # rs" "load_programs qs s1 = Some t"
          "exhausted t" by blast
      then show ?thesis
        using step by (intro disjI2 exI [of _ "p # qs"] exI [of _ p'] exI [of _ rs] exI [of _ t]) simp
    qed
  qed
qed (simp add: load_programs_def)

lemma env_run_running:
  assumes "live s e" "curenv s = None"
  shows "running (env_run s e)" "curenv (env_run s e) = Some e"
  using assms by (auto simp: env_run_def Let_def running_def live_def upd_env_def)

lemma first_yield:
  assumes k: "kinv s" and l: "live s 0" and c: "curenv s = None"
  shows "kinv (sched_yield s)" "running (sched_yield s)"
proof -
  obtain fl efl where k: "kinv_at s fl efl" using k by (auto simp: kinv_def)
  show "kinv (sched_yield s)" using sched_yield_inv [OF k] by (auto simp: kinv_def)
  have "sched_next s < NENV" "sched_next s \<noteq> 0 \<longrightarrow> runnable s (sched_next s)"
    using sched_next_cases [of s] c by auto
  moreover have "live s e" if "e < NENV" "runnable s e" for e
    using k that by (auto simp: kinv_at_def envs_ok_def env_entry_ok_def live_def runnable_def env_states split: option.splits)
  ultimately have "live s (sched_next s)" using l by (cases "sched_next s = 0") auto
  then show "running (sched_yield s)" using env_run_running(1) [OF _ c] by (simp add: sched_yield_order)
qed

text \<open>Keys that wait at the start, none of them a Ctrl-C.\<close>

definition no_ctrl_c :: "u8 list \<Rightarrow> bool" where
  "no_ctrl_c input \<longleftrightarrow> (\<forall>sh. 3 \<notin> set (fst (kbd_chars sh input)))"

lemma cons_intr_keys:
  "3 \<notin> set cs \<Longrightarrow> kinv s \<Longrightarrow> \<exists>s'. cons_intr s cs = Some (Ret s') \<and> kinv s' \<and> curenv s' = curenv s \<and> envs s' = envs s"
proof (induction cs arbitrary: s)
  case (Cons c cs)
  define s2 where "s2 = (if c < 0x80 then kprintf_msg ''%c'' [word_of_int c] s else s)"
  have f: "kinv s2" "curenv s2 = curenv s" "envs s2 = envs s" using Cons.prems(2) by (simp_all add: s2_def)
  from Cons.IH [of "s2\<lparr>cons := cons_put (cons s2) (word_of_int c)\<rparr>"] Cons.IH [of s] Cons.prems f
  show ?case by (simp add: s2_def [symmetric] Let_def)
qed simp

lemma kbd_intr_keys:
  assumes "no_ctrl_c input" "kinv s"
  shows "\<exists>s'. kbd_intr s input = Some (Ret s') \<and> kinv s' \<and> curenv s' = curenv s \<and> envs s' = envs s"
proof -
  obtain cs sh where k: "kbd_chars (kbd_shift s) input = (cs, sh)" by fastforce
  then have "3 \<notin> set cs" using assms(1) by (metis fst_conv no_ctrl_c_def)
  from cons_intr_keys [OF this, of "s\<lparr>kbd_shift := sh\<rparr>"] assms(2) show ?thesis by (simp add: kbd_intr_def k)
qed

section \<open>The first map\<close>



section \<open>A concrete machine\<close>

text \<open>
  32 MB of memory, 640 KB of them base memory, and a kernel of 64 KB at 1 MB whose stack starts
  32 KB into it.
\<close>

definition demo_linker :: linker where
  "demo_linker = \<lparr>kend = KERNBASE + 0x110000, bootstack = KERNBASE + 0x108000\<rparr>"

definition demo_cmos :: "nat \<Rightarrow> u8" where
  "demo_cmos r = (if r = NVRAM_BASELO then 0x80 else if r = NVRAM_BASELO + 1 then 0x02 else 0)"

definition demo_kst :: kstate where
  "demo_kst = \<lparr>npage = 0, phys = (\<lambda>_ _. 0), pp_ref = (\<lambda>_. 0), page_free_list = nil_queue,
      boot_pgdir = 0, envs = (\<lambda>_. zero_env), env_free_list = nil_queue, curenv = None,
      next_env_id = 0, cr3 = 0, utf = zero_tf, page_fault_mode = PFM_NONE, invlpgs = [],
      cons = \<lparr>cbuf = (\<lambda>_. 0), rpos = 0, wpos = 0\<rparr>, kbd_shift = 0, color = 0x700, klog = []\<rparr>"

definition demo_machine :: boot where
  "demo_machine = \<lparr>kst = demo_kst, basemem = 0, extmem = 0, maxpa = 0, freemem = 0, boot_cr3 = 0,
      pages_va = 0, envs_va = 0, cr0 = 0\<rparr>"

lemma demo_detect:
  "npage (kst (i386_detect_memory demo_cmos 0x2000000 0 demo_machine)) = 8192"
  "maxpa (i386_detect_memory demo_cmos 0x2000000 0 demo_machine) = 0x2000000"
  "basemem (i386_detect_memory demo_cmos 0x2000000 0 demo_machine) = 0xa0000"
  "freemem (i386_detect_memory demo_cmos 0x2000000 0 demo_machine) = 0"
  by (simp_all add: i386_detect_memory_def demo_machine_def EXTPHYSMEM_def BY2PG_def nvram_read_def demo_cmos_def
      NVRAM_BASELO_def ROUNDDOWN_def Let_def kprintf_msg_def)

lemma demo_machine_ok: "machine_ok demo_cmos demo_linker 0x2000000 0 demo_machine"
proof -
  define m where "m = i386_detect_memory demo_cmos 0x2000000 0 demo_machine"
  note d = demo_detect [folded m_def]
  have f: "first_frame demo_linker = 272" by (simp add: first_frame_def demo_linker_def layout)
  have c: "page_array_pages m = 24" by (simp add: page_array_pages_def d)
  have "fresh_boot demo_linker m"
    by (simp add: fresh_boot_def mem_ok_def d demo_linker_def layout)
  then have "kernel_fits demo_linker m"
    by (simp add: kernel_fits_def f c d page_start_def) (simp add: demo_linker_def layout EXTPHYSMEM_def)
  then show ?thesis by (simp add: machine_ok_def m_def [symmetric] d f c) (simp add: demo_machine_def demo_kst_def)
qed

section \<open>Properties\<close>



text \<open>C30. The start of the kernel establishes its invariant: on a machine with enough memory the
  set up of memory, with the test of the page functions, finishes, and \<open>env_init\<close> gives the
  invariant. Loading programs keeps it, and either the kernel stops because the pages or the
  entries of the table are used up, or the scheduler starts one of the programs. The first
  program is always loaded. No Ctrl-C waits at the keyboard.\<close>

theorem boot_establishes_invariant:
  assumes m: "machine_ok cmos lk l h b" and ps: "\<forall>(binary, sz) \<in> set ps. sz < UTOP - UTEXT" "ps \<noteq> []"
    and keys: "no_ctrl_c input"
  shows "\<exists>b'. init_memory cmos lk l h b = Some b' \<and> kinv (env_init (kst b'))
    \<and> ((\<exists>s. init_envs ps input (kst b') = Some s \<and> kinv s \<and> running s)
       \<or> (\<exists>qs p rs t. ps = qs @ p # rs \<and> qs \<noteq> [] \<and> load_programs qs (env_init (kst b')) = Some t \<and> exhausted t))"
proof -
  obtain b' where b': "init_memory cmos lk l h b = Some b'" "memory_ready lk (i386_detect_memory cmos l h b) (kst b')"
    using init_memory_ok [OF m] by blast
  define s where "s = env_init (kst b')"
  obtain fl where k: "kinv_at s fl [0..<NENV]" "fl \<noteq> []" and c: "curenv s = None"
    using ready_kinv [OF b'(2)] by (auto simp: s_def)
  obtain q fl' where fl: "fl = q # fl'" using k(2) by (metis list.exhaust)
  have e: "[0..<NENV] = 0 # [1..<NENV]" using upt_conv_Cons [of 0 NENV] by (simp only: NENV_def One_nat_def)
  obtain binary sz rest where p: "ps = (binary, sz) # rest" using ps(2) by (metis list.exhaust surj_pair)
  have sz: "sz < UTOP - UTEXT" "\<forall>(binary, sz) \<in> set rest. sz < UTOP - UTEXT" using ps(1) p by simp_all
  have "kinv_at s (q # fl') (0 # [1..<NENV])" using k(1) fl e by simp
  from env_create_ok [OF this sz(1)] obtain s1 where s1: "env_create s binary sz = Some s1" "live s1 0" by blast
  note k1 = env_create_keeps [OF k(1) sz(1) s1(1)]
  have step: "load_programs (p # xs) s = load_programs xs s1" if "p = (binary, sz)" for p xs
    using s1 that by (simp add: load_programs_def)
  from load_all [OF k1(1) sz(2)] show ?thesis
  proof
    assume "\<exists>s'. load_programs rest s1 = Some s' \<and> kinv s' \<and> curenv s' = curenv s1 \<and> (\<forall>e. live s1 e \<longrightarrow> live s' e)"
    then obtain s' where s': "load_programs rest s1 = Some s'" "kinv s'" "curenv s' = None" "live s' 0"
      using s1(2) k1(3) c by auto
    obtain s2 where s2: "kbd_intr s' input = Some (Ret s2)" "kinv s2" "curenv s2 = None" "live s2 0"
      using kbd_intr_keys [OF keys s'(2)] s'(3,4) by (auto simp: live_def)
    have "init_envs ps input (kst b') = Some (sched_yield s2)"
      using step s'(1) s2(1) by (simp add: init_envs_def p s_def)
    then show ?thesis using b'(1) first_yield [OF s2(2,4,3)] k(1) by (auto simp: s_def kinv_def)
  next
    assume "\<exists>qs p rs t. rest = qs @ p # rs \<and> load_programs qs s1 = Some t \<and> exhausted t"
    then obtain qs p' rs t where "ps = ((binary, sz) # qs) @ p' # rs" "load_programs ((binary, sz) # qs) s = Some t" "exhausted t"
      using step p by auto
    then show ?thesis using b'(1) k(1) unfolding s_def kinv_def by blast
  qed
qed

theorem boot_establishes_invariant_witness:
  "\<exists>b'. init_memory demo_cmos demo_linker 0x2000000 0 demo_machine = Some b' \<and> kinv (env_init (kst b'))
    \<and> (\<exists>s. init_envs [((\<lambda>_. 0), 4096)] [] (kst b') = Some s \<and> kinv s \<and> running s)"
  using boot_establishes_invariant [OF demo_machine_ok, of "[((\<lambda>_. 0), 4096)]" "[]"]
  by (auto simp: layout Cons_eq_append_conv no_ctrl_c_def)

end
