(* ===== verification/Sh.thy ===== *)
theory Sh
  imports Ufd
begin

text \<open>
  The shell: \<open>user/sh.c\<close>. The command line is memory from offset to byte, in which the tokenizer
  stores terminators; a \<open>char *\<close> into it is an offset, and a null pointer is \<open>None\<close>. The static
  variables of \<open>gettoken\<close> are a record.

  \<open>runcmd\<close> and the main loop drive the library: their calls are the elements of a list, the
  history. The answers of the library are a parameter, a function of the history up to and with
  the call. A call of \<open>exit\<close> or \<open>panic\<close> ends the process. \<open>debug\<close> is 0, as it is without \<open>-d\<close>;
  it only adds messages.
\<close>

unbundle bit_operations_syntax

section \<open>The tokenizer\<close>

type_synonym line = "nat \<Rightarrow> u8"

text \<open>A string literal, with its terminator.\<close>

definition literal :: "u8 list \<Rightarrow> line" where
  "literal xs i = (if i < length xs then xs ! i else 0)"

definition WHITESPACE :: "u8 list" where "WHITESPACE = [0x20, 0x09, 0x0d, 0x0a]"
definition SYMBOLS :: "u8 list" where "SYMBOLS = [0x3c, 0x7c, 0x3e, 0x26, 0x3b, 0x28, 0x29]"

definition found_in :: "u8 list \<Rightarrow> u8 \<Rightarrow> bool" where
  "found_in xs c \<longleftrightarrow> (case strchr (literal xs) c of Some (Some _) \<Rightarrow> True | _ \<Rightarrow> False)"

definition TOK_WORD :: u8 where "TOK_WORD = 0x77"

text \<open>The two loops of \<open>_gettoken\<close>.\<close>

partial_function (option) skip_white :: "line \<Rightarrow> nat \<Rightarrow> (line \<times> nat) option" where
  "skip_white m s = (if found_in WHITESPACE (m s) then skip_white (m(s := 0)) (s + 1) else Some (m, s))"

partial_function (option) word_end :: "line \<Rightarrow> nat \<Rightarrow> nat option" where
  "word_end m s = (if m s \<noteq> 0 \<and> \<not> found_in (WHITESPACE @ SYMBOLS) (m s) then word_end m (s + 1) else Some s)"

record lexer =
  l_mem :: line
  l_nc :: u8
  l_np1 :: "nat option"
  l_np2 :: "nat option"

definition gettoken_at :: "nat option \<Rightarrow> lexer \<Rightarrow> (u8 \<times> lexer) option" where
  "gettoken_at p lx =
     (case p of
        None \<Rightarrow> Some (0, lx)
      | Some s0 \<Rightarrow>
          do {
            (m, s) \<leftarrow> skip_white (l_mem lx) s0;
            if m s = 0 then Some (0, lx\<lparr>l_mem := m, l_np1 := None, l_np2 := None\<rparr>)
            else if found_in SYMBOLS (m s)
            then Some (m s, lx\<lparr>l_mem := m(s := 0), l_np1 := Some s, l_np2 := Some (s + 1)\<rparr>)
            else do {
              e \<leftarrow> word_end m s;
              Some (TOK_WORD, lx\<lparr>l_mem := m, l_np1 := Some s, l_np2 := Some e\<rparr>)
            }
          })"

definition gettoken_first :: "line \<Rightarrow> nat \<Rightarrow> lexer option" where
  "gettoken_first m s =
     do {
       (nc, lx) \<leftarrow> gettoken_at (Some s) \<lparr>l_mem = m, l_nc = 0, l_np1 = None, l_np2 = None\<rparr>;
       Some (lx\<lparr>l_nc := nc\<rparr>)
     }"

definition gettoken_next :: "lexer \<Rightarrow> (u8 \<times> nat option \<times> lexer) option" where
  "gettoken_next lx =
     do {
       (nc, lx1) \<leftarrow> gettoken_at (l_np2 lx) lx;
       Some (l_nc lx, l_np1 lx, lx1\<lparr>l_nc := nc\<rparr>)
     }"

section \<open>Calls of the library\<close>

text \<open>A message is the format with its string and number arguments.\<close>

datatype shcall =
    Open "u8 list" u32 | Dup u32 u32 | Close u32 | Make_pipe | Fork_it | Spawn_it "u8 list list" | Close_all
  | Wait u32 | Say string "u8 list list" "u32 list"

type_synonym history = "shcall list"

text \<open>The result of the last call, with the two descriptors that \<open>pipe\<close> stores.\<close>

type_synonym answers = "history \<Rightarrow> u32 \<times> u32 \<times> u32"

datatype ending = Exits | Panics | Returns

datatype 'a progress = Stop ending history | Go 'a history

definition failed :: "u32 \<Rightarrow> bool" where "failed r \<longleftrightarrow> r <s 0"

text \<open>A call after which the shell panics if the result is negative.\<close>

definition must :: "answers \<Rightarrow> shcall \<Rightarrow> history \<Rightarrow> (u32 \<Rightarrow> history \<Rightarrow> 'a progress) \<Rightarrow> 'a progress" where
  "must ans c h k =
     (let h1 = h @ [c]; r = fst (ans h1) in if failed r then Stop Panics h1 else k r h1)"

definition redirect_in :: "answers \<Rightarrow> u8 list \<Rightarrow> history \<Rightarrow> unit progress" where
  "redirect_in ans t h =
     must ans (Open t O_RDONLY) h (\<lambda>fd h1.
       must ans (Dup fd 0) h1 (\<lambda>_ h2.
         must ans (Close fd) h2 (\<lambda>_ h3. Go () h3)))"

text \<open>The file is opened twice; only the second descriptor is used and closed.\<close>

definition redirect_out :: "answers \<Rightarrow> u8 list \<Rightarrow> history \<Rightarrow> unit progress" where
  "redirect_out ans t h =
     must ans (Open t O_WRONLY') h (\<lambda>_ h1.
       must ans (Open t O_WRONLY') h1 (\<lambda>fd h2.
         must ans (Dup fd 1) h2 (\<lambda>_ h3.
           must ans (Close fd) h3 (\<lambda>_ h4. Go () h4))))"

text \<open>The value is 0 in the child and the child's id in the parent.\<close>

definition make_pipe :: "answers \<Rightarrow> history \<Rightarrow> u32 progress" where
  "make_pipe ans h =
     must ans Make_pipe h (\<lambda>_ h1.
       let (p0, p1) = snd (ans h1) in
       must ans Fork_it h1 (\<lambda>r h2.
         if r = 0
         then must ans (Dup p0 0) h2 (\<lambda>_ h3. must ans (Close p0) h3 (\<lambda>_ h4. must ans (Close p1) h4 (\<lambda>_ h5. Go 0 h5)))
         else must ans (Dup p1 1) h2 (\<lambda>_ h3. must ans (Close p0) h3 (\<lambda>_ h4. must ans (Close p1) h4 (\<lambda>_ h5. Go r h5)))))"

section \<open>runcmd\<close>

definition MAXARGS :: nat where "MAXARGS = 16"

text \<open>The string at a pointer.\<close>

definition str_at :: "line \<Rightarrow> nat \<Rightarrow> u8 list option" where
  "str_at m p = map_option (\<lambda>n. map (\<lambda>i. m (p + i)) [0..<n]) (strlen (\<lambda>i. m (p + i)))"

definition str_of :: "line \<Rightarrow> nat option \<Rightarrow> u8 list option" where
  "str_of m t = Option.bind t (str_at m)"

text \<open>The end of \<open>runcmd\<close>: \<open>argv[argc] = 0\<close> is a store beyond \<open>argv\<close> when \<open>argc\<close> is \<open>MAXARGS\<close>.\<close>

definition run_names :: "answers \<Rightarrow> history \<Rightarrow> u8 list list \<Rightarrow> u32 \<Rightarrow> (ending \<times> history) option" where
  "run_names ans h names rightpipe =
     (if names = [] then Some (Returns, h)
      else if length names \<ge> MAXARGS then None
      else
        let h1 = h @ [Spawn_it names];
            r = fst (ans h1);
            h2 = (if failed r then h1 @ [Say ''spawn %s: %e\<newline>'' [hd names] [r]] else h1);
            h3 = h2 @ [Close_all];
            h4 = (if failed r then h3 else h3 @ [Wait r]);
            h5 = (if rightpipe \<noteq> 0 then h4 @ [Wait rightpipe] else h4)
        in Some (Exits, h5))"

definition run_argv ::
    "answers \<Rightarrow> line \<Rightarrow> history \<Rightarrow> nat option list \<Rightarrow> u32 \<Rightarrow> (ending \<times> history) option" where
  "run_argv ans m h argv rightpipe =
     do { names \<leftarrow> those (map (str_of m) argv); run_names ans h names rightpipe }"

partial_function (option) runcmd_loop ::
    "answers \<Rightarrow> lexer \<Rightarrow> history \<Rightarrow> nat option list \<Rightarrow> u32 \<Rightarrow> (ending \<times> history) option" where
  "runcmd_loop ans lx h argv rightpipe =
     do {
       (c, t, lx1) \<leftarrow> gettoken_next lx;
       if c = 0 then run_argv ans (l_mem lx1) h argv rightpipe
       else if c = TOK_WORD then
         if length argv = MAXARGS then Some (Exits, h @ [Say ''too many arguments\<newline>'' [] []])
         else runcmd_loop ans lx1 h (argv @ [t]) rightpipe
       else if c = 0x3c then
         do {
           (c2, t2, lx2) \<leftarrow> gettoken_next lx1;
           if c2 \<noteq> TOK_WORD then Some (Exits, h @ [Say ''syntax error: < not followed by word\<newline>'' [] []])
           else do {
             f \<leftarrow> str_of (l_mem lx2) t2;
             case redirect_in ans f h of
               Stop e h1 \<Rightarrow> Some (e, h1)
             | Go _ h1 \<Rightarrow> runcmd_loop ans lx2 h1 argv rightpipe
           }
         }
       else if c = 0x3e then
         do {
           (c2, t2, lx2) \<leftarrow> gettoken_next lx1;
           if c2 \<noteq> TOK_WORD then Some (Exits, h @ [Say ''syntax error: > not followed by word\<newline>'' [] []])
           else do {
             f \<leftarrow> str_of (l_mem lx2) t2;
             case redirect_out ans f h of
               Stop e h1 \<Rightarrow> Some (e, h1)
             | Go _ h1 \<Rightarrow> runcmd_loop ans lx2 h1 argv rightpipe
           }
         }
       else if c = 0x7c then
         (case make_pipe ans h of
            Stop e h1 \<Rightarrow> Some (e, h1)
          | Go r h1 \<Rightarrow>
              if r = 0 then runcmd_loop ans lx1 h1 [] rightpipe
              else run_argv ans (l_mem lx1) h1 argv r)
       else runcmd_loop ans lx1 h argv rightpipe
     }"

definition runcmd :: "answers \<Rightarrow> line \<Rightarrow> nat \<Rightarrow> history \<Rightarrow> (ending \<times> history) option" where
  "runcmd ans m s h = do { lx \<leftarrow> gettoken_first m s; runcmd_loop ans lx h [] 0 }"

section \<open>readline\<close>

text \<open>
  The buffer is memory around its first byte: after a backspace in the second column the code
  looks at the byte in front of the buffer. The results of successive one byte reads are a
  sequence, of which \<open>k\<close> is the next.
\<close>

type_synonym linebuf = "int \<Rightarrow> u8"
type_synonym reads = "nat \<Rightarrow> u32 \<times> u8"

text \<open>
  \<open>Ended\<close> is the call of \<open>exit\<close>, after a message if the read failed; a \<open>Got\<close> comes after a message
  if the line was too long. The numbers are the reads made.
\<close>

datatype line_result = Got linebuf nat bool | Ended nat bool

partial_function (option) drain :: "reads \<Rightarrow> nat \<Rightarrow> linebuf \<Rightarrow> (linebuf \<times> nat) option" where
  "drain inp k m =
     (let (r, c) = inp k; m1 = (if r = 1 then m(0 := c) else m)
      in if r = 1 \<and> m1 0 \<noteq> 0x0a then drain inp (k + 1) m1 else Some (m1, k + 1))"

partial_function (option) readline_loop :: "reads \<Rightarrow> nat \<Rightarrow> nat \<Rightarrow> linebuf \<Rightarrow> int \<Rightarrow> line_result option" where
  "readline_loop inp n k m i =
     (if i < int n then
        let (r, c) = inp k in
        if r \<noteq> 1 then Some (Ended (k + 1) (failed r))
        else
          let m1 = m(i := c);
              j = (if c = 0x08 then if i > 0 then i - 2 else 0 else i)
          in if m1 j = 0x0a then Some (Got (m1(j := 0)) (k + 1) False)
             else readline_loop inp n (k + 1) m1 (j + 1)
      else do { (m1, k1) \<leftarrow> drain inp k m; Some (Got (m1(0 := 0)) k1 True) })"

definition readline :: "reads \<Rightarrow> linebuf \<Rightarrow> nat \<Rightarrow> line_result option" where
  "readline inp m n = readline_loop inp n 0 m 0"

section \<open>The main loop\<close>

definition BUFLEN :: nat where "BUFLEN = 1024"

text \<open>
  The options, by the macros of \<open>inc/args.h\<close>: the arguments up to the first that is not an
  option, or after a double dash. \<open>None\<close> is the call of \<open>usage\<close>, which exits.
\<close>

record flags =
  f_debug :: nat
  f_interactive :: bool
  f_echo :: bool

fun option_chars :: "u8 list \<Rightarrow> flags \<Rightarrow> flags option" where
  "option_chars [] f = Some f"
| "option_chars (c # cs) f =
     (if c = 0x64 then option_chars cs (f\<lparr>f_debug := f_debug f + 1\<rparr>)
      else if c = 0x69 then option_chars cs (f\<lparr>f_interactive := True\<rparr>)
      else if c = 0x78 then option_chars cs (f\<lparr>f_echo := True\<rparr>)
      else None)"

fun options :: "u8 list list \<Rightarrow> flags \<Rightarrow> (flags \<times> u8 list list) option" where
  "options [] f = Some (f, [])"
| "options (a # as) f =
     (case a of
        c # d # ds \<Rightarrow>
          if c \<noteq> 0x2d then Some (f, a # as)
          else if d = 0x2d \<and> ds = [] then Some (f, as)
          else do { f1 \<leftarrow> option_chars (d # ds) f; options as f1 }
      | _ \<Rightarrow> Some (f, a # as))"

text \<open>
  The arguments after the name of the program. With one that is not an option the shell is to
  read commands from that file; \<open>argv[1]\<close> is then the null pointer behind the arguments, from
  which \<open>open\<close> reads the name: the program stops. \<open>iscons0\<close> is the answer of \<open>iscons(0)\<close>.
\<close>

definition nth_arg :: "u8 list list \<Rightarrow> nat \<Rightarrow> u8 list option" where
  "nth_arg argv i = (if i < length argv then Some (argv ! i) else None)"

definition sh_start :: "answers \<Rightarrow> u32 \<Rightarrow> u8 list list \<Rightarrow> history \<Rightarrow> ((ending + flags) \<times> history) option" where
  "sh_start ans iscons0 args h =
     (let console = (\<lambda>f. f\<lparr>f_interactive := f_interactive f \<or> iscons0 \<noteq> 0\<rparr>) in
      case options args \<lparr>f_debug = 0, f_interactive = False, f_echo = False\<rparr> of
        None \<Rightarrow> Some (Inl Exits, h @ [Say ''usage: sh [-dix] [command-file]\<newline>'' [] []])
      | Some (f, argv) \<Rightarrow>
          if length argv > 1 then Some (Inl Exits, h @ [Say ''usage: sh [-dix] [command-file]\<newline>'' [] []])
          else if length argv = 1 then
            do {
              path \<leftarrow> nth_arg argv 1;
              let h1 = h @ [Close 0, Open path O_RDONLY];
              let r = fst (ans h1);
              if failed r then Some (Inl Panics, h1) else if r = 0 then Some (Inr (console f), h1) else Some (Inl Panics, h1)
            }
          else Some (Inr (console f), h))"

text \<open>
  One round: prompt, read, echo, fork. The child runs the command and exits; the parent waits
  and goes on, which is \<open>Go\<close> with the number of reads made.
\<close>

definition sh_round ::
    "answers \<Rightarrow> reads \<Rightarrow> flags \<Rightarrow> linebuf \<Rightarrow> history \<Rightarrow> (linebuf \<times> nat) progress option" where
  "sh_round ans inp f m h =
     do {
       let h1 = (if f_interactive f then h @ [Say ''$ '' [] []] else h);
       l \<leftarrow> readline inp m BUFLEN;
       case l of
         Ended k e \<Rightarrow> Some (Stop Exits (if e then h1 @ [Say ''read error: %e'' [] []] else h1))
       | Got m1 k long \<Rightarrow>
           let h1 = (if long then h1 @ [Say ''line too long\<newline>'' [] []] else h1) in
           if m1 0 = 0x23 then Some (Go (m1, k) h1)
           else
             do {
               h2 \<leftarrow> (if f_echo f
                      then do { s \<leftarrow> str_at (\<lambda>i. m1 (int i)) 0; Some (h1 @ [Say ''# %s\<newline>'' [s] []]) }
                      else Some h1);
               let h3 = h2 @ [Fork_it];
               let r = fst (ans h3);
               if failed r then Some (Stop Panics h3)
               else if r = 0
               then do { (e, h4) \<leftarrow> runcmd ans (\<lambda>i. m1 (int i)) 0 h3; Some (Stop (if e = Returns then Exits else e) h4) }
               else Some (Go (m1, k) (h3 @ [Wait r]))
             }
     }"

end
