(* ===== verification/Sh_Lemmas.thy ===== *)
theory Sh_Lemmas
  imports Sh
begin

text \<open>
  The tokenizer against a function on lists of characters. A lexer that is one token ahead has
  tokens still to give; what it writes later are terminators behind the words it has given.
\<close>

unbundle bit_operations_syntax

section \<open>Characters\<close>

lemma cstr_literal: "0 \<notin> set xs \<Longrightarrow> cstr (literal xs) xs"
  by (auto simp: cstr_nth literal_def in_set_conv_nth)

lemma found_in: "0 \<notin> set xs \<Longrightarrow> found_in xs c \<longleftrightarrow> c \<in> set xs"
  by (simp add: found_in_def strchr_cstr [OF cstr_literal])

definition white :: "u8 \<Rightarrow> bool" where "white c \<longleftrightarrow> c \<in> set WHITESPACE"
definition symbol :: "u8 \<Rightarrow> bool" where "symbol c \<longleftrightarrow> c \<in> set SYMBOLS"
definition plain :: "u8 \<Rightarrow> bool" where "plain c \<longleftrightarrow> \<not> white c \<and> \<not> symbol c"

lemma found_white: "found_in WHITESPACE c = white c"
  by (simp add: found_in white_def WHITESPACE_def)

lemma found_symbol: "found_in SYMBOLS c = symbol c"
  by (simp add: found_in symbol_def SYMBOLS_def)

lemma found_either: "found_in (WHITESPACE @ SYMBOLS) c = (\<not> plain c)"
  by (subst found_in) (auto simp: plain_def white_def symbol_def WHITESPACE_def SYMBOLS_def)

lemma zero_plain: "plain 0" "\<not> white 0" "\<not> symbol 0"
  by (simp_all add: plain_def white_def symbol_def WHITESPACE_def SYMBOLS_def)

lemma white_symbol: "white c \<Longrightarrow> \<not> symbol c"
  by (auto simp: white_def symbol_def WHITESPACE_def SYMBOLS_def)

section \<open>The tokens of a list\<close>

datatype token = Word "u8 list" | Symbol u8

function tokens_of :: "u8 list \<Rightarrow> token list" where
  "tokens_of xs =
     (case dropWhile white xs of
        [] \<Rightarrow> []
      | c # cs \<Rightarrow>
          if symbol c then Symbol c # tokens_of cs
          else Word (takeWhile plain (c # cs)) # tokens_of (dropWhile plain (c # cs)))"
  by auto
termination
proof (relation "measure length")
  have le: "length (dropWhile P ys) \<le> length ys" for P and ys :: "u8 list" by (rule length_dropWhile_le)
  fix xs c and cs :: "u8 list"
  assume d: "dropWhile white xs = c # cs"
  then have l: "length (c # cs) \<le> length xs" using le [of white xs] by simp
  show "(cs, xs) \<in> measure length" using l by simp
  assume "\<not> symbol c"
  moreover have "\<not> white c" using d by (simp add: dropWhile_eq_Cons_conv)
  ultimately have "plain c" by (simp add: plain_def)
  then show "(dropWhile plain (c # cs), xs) \<in> measure length" using l le [of plain cs] by simp
qed simp

declare tokens_of.simps [simp del]

section \<open>Memory of the line\<close>

text \<open>A string in memory at a position.\<close>

definition holds :: "line \<Rightarrow> nat \<Rightarrow> u8 list \<Rightarrow> bool" where
  "holds m s xs \<longleftrightarrow> (\<forall>i < length xs. m (s + i) = xs ! i \<and> xs ! i \<noteq> 0) \<and> m (s + length xs) = 0"

lemma holds_cstr: "holds m s xs \<longleftrightarrow> cstr (\<lambda>i. m (s + i)) xs"
  by (simp add: holds_def cstr_nth)

lemma holds_Cons: "holds m s (x # xs) \<longleftrightarrow> x \<noteq> 0 \<and> m s = x \<and> holds m (s + 1) xs"
  by (auto simp: holds_cstr)

lemma holds_Nil: "holds m s [] \<longleftrightarrow> m s = 0"
  by (simp add: holds_def)

lemma holds_cong: "(\<And>p. s \<le> p \<Longrightarrow> m' p = m p) \<Longrightarrow> holds m' s xs = holds m s xs"
  by (simp add: holds_def)

lemma str_at_holds: "holds m s xs \<Longrightarrow> str_at m s = Some xs"
  by (auto simp: str_at_def holds_cstr strlen_cstr cstr_nth intro!: nth_equalityI)

text \<open>From \<open>b\<close> on some bytes were replaced by terminators.\<close>

definition cut_from :: "nat \<Rightarrow> line \<Rightarrow> line \<Rightarrow> bool" where
  "cut_from b m m' \<longleftrightarrow> (\<forall>p. m' p = m p \<or> b \<le> p \<and> m' p = 0)"

lemma cut_refl [simp]: "cut_from b m m" by (simp add: cut_from_def)

lemma cut_trans: "cut_from b m m1 \<Longrightarrow> cut_from b' m1 m2 \<Longrightarrow> b \<le> b' \<Longrightarrow> cut_from b m m2"
  unfolding cut_from_def by (metis le_trans)

lemma cut_word: "holds m q w \<Longrightarrow> q + length w \<le> b \<Longrightarrow> cut_from b m m' \<Longrightarrow> holds m' q w"
  unfolding holds_def cut_from_def by (metis add_less_cancel_left leD order_less_le_trans)

section \<open>The two loops\<close>

lemma skip_white_ok:
  assumes "holds m s xs"
  shows "\<exists>m'. skip_white m s = Some (m', s + length (takeWhile white xs)) \<and> cut_from s m m'
    \<and> (\<forall>p \<ge> s + length (takeWhile white xs). m' p = m p) \<and> holds m' (s + length (takeWhile white xs)) (dropWhile white xs)
    \<and> ((xs = [] \<or> white (hd xs)) \<longrightarrow> m' s = 0)"
  using assms
proof (induction xs arbitrary: m s)
  case Nil
  then show ?case by (subst skip_white.simps) (simp add: found_white holds_Nil zero_plain)
next
  case (Cons x xs)
  note x = Cons.prems [unfolded holds_Cons]
  show ?case
  proof (cases "white x")
    case True
    have "holds (m(s := 0)) (s + 1) xs" using x by (subst holds_cong [of _ _ m]) auto
    from Cons.IH [OF this] obtain m' where m': "skip_white (m(s := 0)) (s + 1) = Some (m', s + 1 + length (takeWhile white xs))"
        "cut_from (s + 1) (m(s := 0)) m'" "\<forall>p \<ge> s + 1 + length (takeWhile white xs). m' p = (m(s := 0)) p"
        "holds m' (s + 1 + length (takeWhile white xs)) (dropWhile white xs)" by blast
    have "m' p = m p \<or> s \<le> p \<and> m' p = 0" for p
      using m'(2) unfolding cut_from_def by (cases "p = s") (auto dest: spec [of _ p])
    moreover have "m' s = 0" using m'(2) unfolding cut_from_def by (auto dest: spec [of _ s])
    ultimately show ?thesis
      using m' x True by (subst skip_white.simps) (auto simp: found_white cut_from_def)
  next
    case False
    then show ?thesis using x Cons.prems by (subst skip_white.simps) (simp add: found_white)
  qed
qed

lemma word_end_ok:
  assumes "holds m s xs"
  shows "word_end m s = Some (s + length (takeWhile plain xs))"
  using assms
proof (induction xs arbitrary: s)
  case Nil
  then show ?case by (subst word_end.simps) (simp add: holds_Nil)
next
  case (Cons x xs)
  then show ?case by (subst word_end.simps) (auto simp: holds_Cons found_either)
qed

lemma holds_drop: "holds m s (xs @ ys) \<Longrightarrow> holds m (s + length xs) ys"
proof (induction xs arbitrary: s)
  case (Cons x xs)
  then show ?case using Cons.IH [of "s + 1"] by (simp add: holds_Cons)
qed simp

lemma holds_prefix: "holds m s (xs @ ys) \<Longrightarrow> i < length xs \<Longrightarrow> m (s + i) = xs ! i \<and> xs ! i \<noteq> 0"
proof (induction xs arbitrary: s i)
  case (Cons x xs)
  then show ?case using Cons.IH [of "s + 1" "i - 1"] by (cases i) (simp_all add: holds_Cons)
qed simp

section \<open>One token\<close>

text \<open>
  What the scan of \<open>_gettoken\<close> from a string gives: the kind and the start of the first token,
  and the rest of the string behind it.
\<close>

definition scanned :: "line \<Rightarrow> nat \<Rightarrow> u8 list \<Rightarrow> u8 \<Rightarrow> lexer \<Rightarrow> bool" where
  "scanned m s xs k lx \<longleftrightarrow>
     cut_from s m (l_mem lx) \<and> (xs = [] \<or> \<not> plain (hd xs) \<longrightarrow> l_mem lx s = 0)
     \<and> (case tokens_of xs of
          [] \<Rightarrow> k = 0 \<and> l_np2 lx = None
        | Symbol c # ts \<Rightarrow> k = c \<and> (\<exists>e ys. l_np2 lx = Some e \<and> s \<le> e \<and> holds (l_mem lx) e ys \<and> tokens_of ys = ts)
        | Word w # ts \<Rightarrow> k = TOK_WORD \<and> (\<exists>q e ys. l_np1 lx = Some q \<and> l_np2 lx = Some e \<and> s \<le> q \<and> e = q + length w
            \<and> (\<forall>i < length w. l_mem lx (q + i) = w ! i \<and> w ! i \<noteq> 0)
            \<and> holds (l_mem lx) e ys \<and> (ys = [] \<or> \<not> plain (hd ys)) \<and> tokens_of ys = ts))"

lemma hd_dropWhile_plain: "dropWhile P xs = [] \<or> \<not> P (hd (dropWhile P xs))"
  using hd_dropWhile by blast

lemma gettoken_at_ok:
  assumes h: "holds (l_mem lx) s xs"
  shows "\<exists>k lx'. gettoken_at (Some s) lx = Some (k, lx') \<and> scanned (l_mem lx) s xs k lx' \<and> l_nc lx' = l_nc lx"
proof -
  define m where "m = l_mem lx"
  define q where "q = s + length (takeWhile white xs)"
  obtain m' where m': "skip_white m s = Some (m', q)" "cut_from s m m'" "holds m' q (dropWhile white xs)"
      "xs = [] \<or> white (hd xs) \<longrightarrow> m' s = 0"
    using skip_white_ok [OF h] by (auto simp: m_def q_def)
  show ?thesis
  proof (cases "dropWhile white xs")
    case Nil
    have "m' q = 0" using m'(3) unfolding Nil holds_Nil .
    moreover have "plain (hd xs) \<Longrightarrow> xs = []" using Nil by (cases xs) (auto simp: plain_def)
    moreover have "tokens_of xs = []" by (subst tokens_of.simps) (simp only: Nil list.case)
    moreover have "\<not> plain (hd xs) \<Longrightarrow> xs = [] \<or> white (hd xs)" using Nil by (cases xs) (auto split: if_splits)
    ultimately show ?thesis using m' by (auto simp: gettoken_at_def m_def [symmetric] scanned_def)
  next
    case (Cons c cs)
    then have hq: "holds m' q (c # cs)" using m'(3) by (simp only:)
    have c: "\<not> white c" "c \<noteq> 0" "m' q = c" "holds m' (q + 1) cs"
      using hq Cons by (simp_all add: holds_Cons dropWhile_eq_Cons_conv)
    have sq: "s \<le> q" by (simp add: q_def)
    have start: "xs \<noteq> []" "\<not> white (hd xs) \<Longrightarrow> q = s \<and> hd xs = c"
      using Cons by (cases xs; simp add: q_def)+
    show ?thesis
    proof (cases "symbol c")
      case True
      have "holds (m'(q := 0)) (q + 1) cs" using c(4) by (subst holds_cong [of _ _ m']) auto
      moreover have "cut_from s m (m'(q := 0))" using m'(2) sq by (simp add: cut_from_def)
      moreover have "(m'(q := 0)) s = 0" if "\<not> plain (hd xs)"
        using m'(4) start by (cases "white (hd xs)") auto
      moreover have "tokens_of xs = Symbol c # tokens_of cs" by (subst tokens_of.simps) (simp only: Cons list.case True if_True)
      ultimately show ?thesis
        using m'(1) c True sq start(1) by (auto simp: gettoken_at_def m_def [symmetric] scanned_def found_symbol)
    next
      case False
      define w where "w = takeWhile plain (c # cs)"
      define ys where "ys = dropWhile plain (c # cs)"
      have wy: "w @ ys = c # cs" by (simp add: w_def ys_def)
      have h': "holds m' q (w @ ys)" using hq wy by (simp only:)
      have "word_end m' q = Some (q + length w)"
        using word_end_ok [OF hq] by (simp only: w_def)
      moreover have "holds m' (q + length w) ys" by (rule holds_drop [OF h'])
      moreover have "\<forall>i < length w. m' (q + i) = w ! i \<and> w ! i \<noteq> 0"
        by (intro allI impI holds_prefix [OF h'])
      moreover have "tokens_of xs = Word w # tokens_of ys" using False by (subst tokens_of.simps) (simp only: Cons list.case if_False w_def ys_def)
      moreover have "ys = [] \<or> \<not> plain (hd ys)" unfolding ys_def by (rule hd_dropWhile_plain)
      moreover have "m' s = 0" if "\<not> plain (hd xs)"
        using m'(4) start that c(1) False by (cases "white (hd xs)") (auto simp: plain_def)
      ultimately show ?thesis
        using m' c False sq start(1) by (auto simp: gettoken_at_def m_def [symmetric] scanned_def found_symbol)
    qed
  qed
qed

section \<open>A lexer with tokens to give\<close>

definition pending :: "lexer \<Rightarrow> token list \<Rightarrow> nat \<Rightarrow> bool" where
  "pending lx ts b \<longleftrightarrow>
     (case ts of
        [] \<Rightarrow> l_nc lx = 0 \<and> l_np2 lx = None
      | Symbol c # us \<Rightarrow> l_nc lx = c \<and> (\<exists>e ys. l_np2 lx = Some e \<and> b \<le> e \<and> holds (l_mem lx) e ys \<and> tokens_of ys = us)
      | Word w # us \<Rightarrow> l_nc lx = TOK_WORD \<and> (\<exists>q e ys. l_np1 lx = Some q \<and> l_np2 lx = Some e \<and> b \<le> q \<and> e = q + length w
          \<and> (\<forall>i < length w. l_mem lx (q + i) = w ! i \<and> w ! i \<noteq> 0)
          \<and> holds (l_mem lx) e ys \<and> (ys = [] \<or> \<not> plain (hd ys)) \<and> tokens_of ys = us))"

lemma scanned_pending: "scanned m s xs k lx \<Longrightarrow> pending (lx\<lparr>l_nc := k\<rparr>) (tokens_of xs) s"
  by (auto simp: scanned_def pending_def split: list.splits token.splits)

lemma pending_mono: "pending lx ts b \<Longrightarrow> b' \<le> b \<Longrightarrow> pending lx ts b'"
  unfolding pending_def by (fastforce split: list.splits token.splits)

lemma first_pending: "holds m s xs \<Longrightarrow> \<exists>lx. gettoken_first m s = Some lx \<and> pending lx (tokens_of xs) s"
  using gettoken_at_ok [of "\<lparr>l_mem = m, l_nc = 0, l_np1 = None, l_np2 = None\<rparr>" s xs] scanned_pending
  by (fastforce simp: gettoken_first_def)

text \<open>One step gives the next token; a word is terminated in memory when it is given.\<close>

lemma next_pending:
  assumes p: "pending lx ts b"
  shows "\<exists>c t lx' b'. gettoken_next lx = Some (c, t, lx') \<and> cut_from b (l_mem lx) (l_mem lx') \<and> b \<le> b'
    \<and> pending lx' (tl ts) b'
    \<and> (case ts of [] \<Rightarrow> c = 0 | Symbol x # _ \<Rightarrow> c = x
       | Word w # _ \<Rightarrow> c = TOK_WORD \<and> (\<exists>q. t = Some q \<and> q + length w \<le> b' \<and> holds (l_mem lx') q w))"
proof (cases ts)
  case Nil
  then have n: "l_nc lx = 0" "l_np2 lx = None" using p by (simp_all add: pending_def)
  then have "gettoken_next lx = Some (0, l_np1 lx, lx\<lparr>l_nc := 0\<rparr>)" by (simp add: gettoken_next_def gettoken_at_def)
  then show ?thesis using Nil n by (auto simp: pending_def)
next
  case (Cons t us)
  show ?thesis
  proof (cases t)
    case (Symbol x)
    then obtain e ys where e: "l_nc lx = x" "l_np2 lx = Some e" "b \<le> e" "holds (l_mem lx) e ys" "tokens_of ys = us"
      using p Cons by (auto simp: pending_def)
    obtain k lx' where g: "gettoken_at (Some e) lx = Some (k, lx')" "scanned (l_mem lx) e ys k lx'"
      using gettoken_at_ok [OF e(4)] by blast
    then have "gettoken_next lx = Some (x, l_np1 lx, lx'\<lparr>l_nc := k\<rparr>)" using e by (simp add: gettoken_next_def)
    moreover have "cut_from b (l_mem lx) (l_mem lx')" using g(2) cut_trans [OF cut_refl _ e(3)] by (simp add: scanned_def)
    ultimately show ?thesis using scanned_pending [OF g(2)] e Cons Symbol by auto
  next
    case (Word w)
    then obtain q e ys where e: "l_nc lx = TOK_WORD" "l_np1 lx = Some q" "l_np2 lx = Some e" "b \<le> q" "e = q + length w"
        "\<forall>i < length w. l_mem lx (q + i) = w ! i \<and> w ! i \<noteq> 0" "holds (l_mem lx) e ys" "ys = [] \<or> \<not> plain (hd ys)" "tokens_of ys = us"
      using p Cons by (auto simp: pending_def)
    obtain k lx' where g: "gettoken_at (Some e) lx = Some (k, lx')" "scanned (l_mem lx) e ys k lx'"
      using gettoken_at_ok [OF e(7)] by blast
    have c: "cut_from e (l_mem lx) (l_mem lx')" "l_mem lx' e = 0" using g(2) e(8) by (simp_all add: scanned_def)
    have "l_mem lx' (q + i) = l_mem lx (q + i)" if "i < length w" for i
      using c(1) that e(5) unfolding cut_from_def by (meson add_le_cancel_left leD)
    then have "holds (l_mem lx') q w" using e(5,6) c(2) by (simp add: holds_def)
    moreover have "gettoken_next lx = Some (TOK_WORD, Some q, lx'\<lparr>l_nc := k\<rparr>)" using e g by (simp add: gettoken_next_def)
    moreover have "cut_from b (l_mem lx) (l_mem lx')" using cut_trans [OF cut_refl c(1)] e(4,5) by simp
    ultimately show ?thesis using scanned_pending [OF g(2)] e Cons Word by (intro exI [of _ TOK_WORD] exI [of _ "Some q"] exI [of _ "lx'\<lparr>l_nc := k\<rparr>"] exI [of _ e]) auto
  qed
qed

end
