(* ===== verification/Sh_Props.thy ===== *)
theory Sh_Props
  imports Sh_Lemmas
begin

text \<open>
  What the shell does: its tokenizer and \<open>runcmd\<close> against an interpreter of token lists, and
  the editing of \<open>readline\<close>.
\<close>

unbundle bit_operations_syntax

section \<open>The interpreter of tokens\<close>

text \<open>The same calls of the library, without memory, pointers and look ahead.\<close>

definition WORD_IN :: u8 where "WORD_IN = 0x3c"
definition WORD_OUT :: u8 where "WORD_OUT = 0x3e"
definition WORD_PIPE :: u8 where "WORD_PIPE = 0x7c"

fun exec :: "answers \<Rightarrow> token list \<Rightarrow> history \<Rightarrow> u8 list list \<Rightarrow> u32 \<Rightarrow> (ending \<times> history) option" where
  "exec ans [] h args rp = run_names ans h args rp"
| "exec ans (Word w # ts) h args rp =
     (if length args = MAXARGS then Some (Exits, h @ [Say ''too many arguments\<newline>'' [] []])
      else exec ans ts h (args @ [w]) rp)"
| "exec ans (Symbol c # ts) h args rp =
     (if c = WORD_IN then
        (case ts of
           Word f # us \<Rightarrow>
             (case redirect_in ans f h of Stop e h1 \<Rightarrow> Some (e, h1) | Go _ h1 \<Rightarrow> exec ans us h1 args rp)
         | _ \<Rightarrow> Some (Exits, h @ [Say ''syntax error: < not followed by word\<newline>'' [] []]))
      else if c = WORD_OUT then
        (case ts of
           Word f # us \<Rightarrow>
             (case redirect_out ans f h of Stop e h1 \<Rightarrow> Some (e, h1) | Go _ h1 \<Rightarrow> exec ans us h1 args rp)
         | _ \<Rightarrow> Some (Exits, h @ [Say ''syntax error: > not followed by word\<newline>'' [] []]))
      else if c = WORD_PIPE then
        (case make_pipe ans h of
           Stop e h1 \<Rightarrow> Some (e, h1)
         | Go r h1 \<Rightarrow> if r = 0 then exec ans ts h1 [] rp else run_names ans h1 args r)
      else exec ans ts h args rp)"

text \<open>Every token is a word or one of the seven symbols.\<close>

definition proper :: "token list \<Rightarrow> bool" where
  "proper ts \<longleftrightarrow> (\<forall>c. Symbol c \<in> set ts \<longrightarrow> symbol c)"

lemma tokens_proper: "proper (tokens_of xs)"
proof (induction xs rule: tokens_of.induct)
  case (1 xs)
  show ?case
  proof (cases "dropWhile white xs")
    case Nil
    then show ?thesis by (subst tokens_of.simps) (simp only: Nil list.case, simp add: proper_def)
  next
    case (Cons c cs)
    note ih = 1 [OF Cons]
    show ?thesis
    proof (cases "symbol c")
      case True
      with ih(1) show ?thesis by (subst tokens_of.simps) (simp only: Cons list.case, simp add: proper_def)
    next
      case False
      with ih(2) show ?thesis by (subst tokens_of.simps) (simp only: Cons list.case, simp add: proper_def)
    qed
  qed
qed

lemma proper_tl: "proper (t # ts) \<Longrightarrow> proper ts" by (simp add: proper_def)

lemma symbol_kind: "symbol c \<Longrightarrow> c \<noteq> 0 \<and> c \<noteq> TOK_WORD"
  by (auto simp: symbol_def SYMBOLS_def TOK_WORD_def)

lemma kind_word: "TOK_WORD \<noteq> 0" "WORD_IN \<noteq> TOK_WORD" "WORD_OUT \<noteq> TOK_WORD" "WORD_PIPE \<noteq> TOK_WORD"
    "WORD_IN \<noteq> 0" "WORD_OUT \<noteq> 0" "WORD_PIPE \<noteq> 0" "WORD_IN \<noteq> WORD_OUT" "WORD_IN \<noteq> WORD_PIPE" "WORD_OUT \<noteq> WORD_PIPE"
  by (simp_all add: TOK_WORD_def WORD_IN_def WORD_OUT_def WORD_PIPE_def)

text \<open>The words that were given are still in memory.\<close>

definition words_at :: "line \<Rightarrow> nat \<Rightarrow> nat option list \<Rightarrow> u8 list list \<Rightarrow> bool" where
  "words_at m b argv ws \<longleftrightarrow> list_all2 (\<lambda>t w. \<exists>q. t = Some q \<and> q + length w \<le> b \<and> holds m q w) argv ws"

lemma words_at_cut:
  assumes "words_at m b argv ws" "cut_from b m m'" "b \<le> b'"
  shows "words_at m' b' argv ws"
  using assms(1) unfolding words_at_def
proof (rule list_all2_mono)
  fix t w assume "\<exists>q. t = Some q \<and> q + length w \<le> b \<and> holds m q w"
  then obtain q where "t = Some q" "q + length w \<le> b" "holds m q w" by blast
  then show "\<exists>q. t = Some q \<and> q + length w \<le> b' \<and> holds m' q w"
    using cut_word [OF _ _ assms(2)] assms(3) by auto
qed

lemma words_at_str: "words_at m b argv ws \<Longrightarrow> those (map (str_of m) argv) = Some ws"
  unfolding words_at_def
proof (induction argv ws rule: list_all2_induct)
  case (Cons t ts w ws)
  then show ?case by (auto simp: str_of_def str_at_holds)
qed simp

lemma words_at_snoc:
  "words_at m b argv ws \<Longrightarrow> q + length w \<le> b \<Longrightarrow> holds m q w \<Longrightarrow> words_at m b (argv @ [Some q]) (ws @ [w])"
  by (auto simp: words_at_def intro: list_all2_appendI)

lemma words_at_length: "words_at m b argv ws \<Longrightarrow> length argv = length ws"
  by (auto simp: words_at_def dest: list_all2_lengthD)

lemma words_at_Nil [simp]: "words_at m b [] []" by (simp add: words_at_def)

lemma run_argv_words: "words_at m b argv ws \<Longrightarrow> run_argv ans m h argv rp = run_names ans h ws rp"
  by (simp add: run_argv_def words_at_str)

section \<open>runcmd\<close>

text \<open>The next token, with the words that were given before it.\<close>

lemma next_token:
  assumes "pending lx ts b" "words_at (l_mem lx) b argv args" "proper ts"
  shows "\<exists>c t lx' b'. gettoken_next lx = Some (c, t, lx') \<and> pending lx' (tl ts) b' \<and> words_at (l_mem lx') b' argv args
    \<and> (case ts of [] \<Rightarrow> c = 0 | Symbol x # _ \<Rightarrow> c = x \<and> c \<noteq> 0 \<and> c \<noteq> TOK_WORD
       | Word w # _ \<Rightarrow> c = TOK_WORD \<and> str_of (l_mem lx') t = Some w \<and> words_at (l_mem lx') b' (argv @ [t]) (args @ [w]))"
proof -
  obtain c t lx' b' where n: "gettoken_next lx = Some (c, t, lx')" "cut_from b (l_mem lx) (l_mem lx')" "b \<le> b'"
      "pending lx' (tl ts) b'"
      "case ts of [] \<Rightarrow> c = 0 | Symbol x # _ \<Rightarrow> c = x
       | Word w # _ \<Rightarrow> c = TOK_WORD \<and> (\<exists>q. t = Some q \<and> q + length w \<le> b' \<and> holds (l_mem lx') q w)"
    using next_pending [OF assms(1)] by blast
  have w: "words_at (l_mem lx') b' argv args" by (rule words_at_cut [OF assms(2) n(2,3)])
  have "case ts of [] \<Rightarrow> c = 0 | Symbol x # _ \<Rightarrow> c = x \<and> c \<noteq> 0 \<and> c \<noteq> TOK_WORD
       | Word w # _ \<Rightarrow> c = TOK_WORD \<and> str_of (l_mem lx') t = Some w \<and> words_at (l_mem lx') b' (argv @ [t]) (args @ [w])"
    using n(5) assms(3) symbol_kind words_at_snoc [OF w]
    by (auto simp: proper_def str_of_def str_at_holds split: list.splits token.splits)
  then show ?thesis using n(1,4) w by blast
qed

lemmas kinds = kind_word WORD_IN_def WORD_OUT_def WORD_PIPE_def

lemma runcmd_loop_exec:
  assumes "pending lx ts b" "words_at (l_mem lx) b argv args" "proper ts"
  shows "runcmd_loop ans lx h argv rp = exec ans ts h args rp"
  using assms
proof (induction ts arbitrary: lx b h argv args rp rule: length_induct)
  case (1 ts)
  from next_token [OF 1(2-)] obtain c t lx1 b1 where n: "gettoken_next lx = Some (c, t, lx1)" "pending lx1 (tl ts) b1"
      and w1: "words_at (l_mem lx1) b1 argv args"
      and c: "case ts of [] \<Rightarrow> c = 0 | Symbol x # _ \<Rightarrow> c = x \<and> c \<noteq> 0 \<and> c \<noteq> TOK_WORD
       | Word w # _ \<Rightarrow> c = TOK_WORD \<and> str_of (l_mem lx1) t = Some w \<and> words_at (l_mem lx1) b1 (argv @ [t]) (args @ [w])"
    by blast
  have IH: "runcmd_loop ans l h' av r = exec ans us h' as r"
    if "pending l us b'" "words_at (l_mem l) b' av as" "\<exists>vs. ts = vs @ us \<and> vs \<noteq> []" for l h' av as r b' us
    using 1(1,4) that by (auto simp: proper_def)
  show ?case
  proof (cases ts)
    case Nil
    then show ?thesis using n c by (subst runcmd_loop.simps) (simp add: run_argv_words [OF w1])
  next
    case (Cons tk us)
    have p1: "pending lx1 us b1" and pr: "proper us" and tail: "\<exists>vs. ts = vs @ us \<and> vs \<noteq> []"
      using n(2) Cons 1(4) proper_tl by auto
    show ?thesis
    proof (cases tk)
      case (Word w)
      then show ?thesis
        using n(1) c Cons IH [OF p1 _ tail] words_at_length [OF w1]
        by (subst runcmd_loop.simps) (simp add: kind_word)
    next
      case (Symbol x)
      then have x: "c = x" "x \<noteq> 0" "x \<noteq> TOK_WORD" using c Cons by auto
      from next_token [OF p1 w1 pr] obtain c2 t2 lx2 b2 where n2: "gettoken_next lx1 = Some (c2, t2, lx2)" "pending lx2 (tl us) b2"
          "words_at (l_mem lx2) b2 argv args"
          "case us of [] \<Rightarrow> c2 = 0 | Symbol x # _ \<Rightarrow> c2 = x \<and> c2 \<noteq> 0 \<and> c2 \<noteq> TOK_WORD
           | Word w # _ \<Rightarrow> c2 = TOK_WORD \<and> str_of (l_mem lx2) t2 = Some w \<and> words_at (l_mem lx2) b2 (argv @ [t2]) (args @ [w])"
        by blast
      have IH2: "runcmd_loop ans lx2 h' argv rp = exec ans vs h' args rp" if "us = Word f # vs" for f vs h'
        using IH [of lx2 vs b2 argv args h' rp] n2(2,3) that Cons by auto
      have no_word: "c2 \<noteq> TOK_WORD" if "\<forall>f vs. us \<noteq> Word f # vs"
        using n2(4) kind_word(1) that by (auto split: list.splits token.splits)
      note step = n(1) n2(1,4) x IH [OF p1 w1 tail] IH [OF p1 words_at_Nil tail] run_argv_words [OF w1] IH2
      show ?thesis
      proof (cases "x = WORD_IN \<or> x = WORD_OUT")
        case False
        with step show ?thesis unfolding Cons Symbol
          by (subst runcmd_loop.simps) (auto simp: kinds split: progress.split)
      next
        case True
        show ?thesis
        proof (cases "\<exists>f vs. us = Word f # vs")
          case word: True
          then obtain f vs where us: "us = Word f # vs" by blast
          with True step show ?thesis unfolding Cons Symbol us
            by (subst runcmd_loop.simps) (auto simp: kinds split: progress.split)
        next
          case False
          with True step no_word show ?thesis unfolding Cons Symbol
            by (subst runcmd_loop.simps) (auto simp: kinds split: list.split token.split)
        qed
      qed
    qed
  qed
qed

section \<open>readline\<close>

text \<open>
  The edited line, last character first: a backspace takes the last character away, and on an
  empty line it stays in it.
\<close>

fun edit_step :: "u8 \<Rightarrow> u8 list \<Rightarrow> u8 list" where
  "edit_step c [] = [c]"
| "edit_step c (x # xs) = (if c = 0x08 then xs else c # x # xs)"

definition edited :: "u8 list \<Rightarrow> u8 list" where
  "edited cs = rev (fold edit_step cs [])"

lemma edited_snoc: "edited (cs @ [c]) = (if c = 0x08 \<and> edited cs \<noteq> [] then butlast (edited cs) else edited cs @ [c])"
  by (cases "fold edit_step cs []") (auto simp: edited_def)

lemma set_edited: "set (edited cs) \<subseteq> set cs"
proof (induction cs rule: rev_induct)
  case (snoc c cs)
  then show ?case by (auto simp: edited_snoc dest: in_set_butlastD)
qed (simp add: edited_def)

text \<open>The buffer holds a line up to the position of the next character.\<close>

definition buffered :: "linebuf \<Rightarrow> u8 list \<Rightarrow> bool" where
  "buffered m l \<longleftrightarrow> (\<forall>i < length l. m (int i) = l ! i) \<and> m (- 1) \<noteq> 0x0a"

lemma drain_ok:
  assumes "j \<le> k" "\<And>i. j \<le> i \<Longrightarrow> i < k \<Longrightarrow> fst (inp i) = 1 \<and> snd (inp i) \<noteq> 0x0a"
    "fst (inp k) \<noteq> 1 \<or> snd (inp k) = 0x0a"
  shows "\<exists>m'. drain inp j m = Some (m', k + 1)"
  using assms
proof (induction "k - j" arbitrary: j m)
  case 0
  then have "j = k" by simp
  then show ?case using 0(4) by (subst drain.simps) (auto simp: split_beta Let_def)
next
  case (Suc d)
  then have j: "j < k" by simp
  have "\<exists>m'. drain inp (j + 1) m1 = Some (m', k + 1)" for m1
    using Suc(2) j Suc.prems by (intro Suc(1)) auto
  moreover have "fst (inp j) = 1" "snd (inp j) \<noteq> 0x0a" using Suc.prems(2) j by auto
  ultimately show ?case by (subst drain.simps) (simp add: split_beta Let_def)
qed

text \<open>One character is read, which is not a newline.\<close>

lemma buffered_step:
  assumes b: "buffered m (edited cs)" and c: "c \<noteq> 0x0a" "0x0a \<notin> set cs" "i = int (length (edited cs))"
  defines "m1 \<equiv> m(i := c)" and "j \<equiv> (if c = 0x08 then if i > 0 then i - 2 else 0 else i)"
  shows "buffered m1 (edited (cs @ [c]))" "m1 j \<noteq> 0x0a" "j + 1 = int (length (edited (cs @ [c])))"
proof -
  let ?l = "edited cs"
  show "j + 1 = int (length (edited (cs @ [c])))" by (auto simp: j_def c(3) edited_snoc of_nat_diff Suc_le_eq)
  have n: "m1 (int p) = ?l ! p" if "p < length ?l" for p
    using that b by (simp add: m1_def c(3) buffered_def)
  have last: "m1 i = c" "m1 (- 1) \<noteq> 0x0a" using b by (simp_all add: m1_def c(3) buffered_def)
  show "buffered m1 (edited (cs @ [c]))"
    using n last by (auto simp: buffered_def edited_snoc nth_butlast nth_append c(3) less_Suc_eq)
  show "m1 j \<noteq> 0x0a"
  proof (cases "c = 0x08 \<and> i > 1")
    case True
    then have "j = int (length ?l - 2)" "length ?l - 2 < length ?l" by (auto simp: j_def c(3))
    then have "m1 j \<in> set cs" using n set_edited by (metis nth_mem subsetD)
    then show ?thesis using c(2) by auto
  next
    case False
    have "0 \<le> i" by (simp add: c(3))
    with False have "j = i \<or> j = - 1 \<or> i = 0 \<and> j = 0" by (auto simp: j_def)
    then show ?thesis using last c(1) by auto
  qed
qed

text \<open>The line after \<open>j\<close> reads, and what \<open>readline\<close> returns when it ends at read \<open>k\<close>.\<close>

definition typed :: "reads \<Rightarrow> nat \<Rightarrow> u8 list" where
  "typed inp j = edited (map (snd \<circ> inp) [0..<j])"

lemma typed_Suc: "typed inp (Suc j) = edited (map (snd \<circ> inp) [0..<j] @ [snd (inp j)])"
  by (simp add: typed_def)

definition line_done :: "reads \<Rightarrow> nat \<Rightarrow> bool \<Rightarrow> line_result \<Rightarrow> bool" where
  "line_done inp k fits r \<longleftrightarrow>
     (if fits \<and> fst (inp k) \<noteq> 1 then r = Ended (k + 1) (failed (fst (inp k)))
      else \<exists>m. r = Got m (k + 1) (\<not> fits)
        \<and> (let l = (if fits then typed inp k else []) in (\<forall>p < length l. m (int p) = l ! p) \<and> m (int (length l)) = 0))"

lemma too_long:
  assumes "\<exists>m'. drain inp j m = Some (m', k + 1)" "int n \<le> i"
  shows "\<exists>r. readline_loop inp n j m i = Some r \<and> line_done inp k False r"
  using assms by (subst readline_loop.simps) (auto simp: line_done_def)

lemma readline_loop_ok:
  assumes "j \<le> k" "\<And>i. i < k \<Longrightarrow> fst (inp i) = 1 \<and> snd (inp i) \<noteq> 0x0a" "fst (inp k) \<noteq> 1 \<or> snd (inp k) = 0x0a"
    "buffered m (typed inp j)" "i = int (length (typed inp j))"
  shows "\<exists>r. readline_loop inp n j m i = Some r \<and> line_done inp k (\<forall>t \<in> {j..k}. length (typed inp t) < n) r"
  using assms
proof (induction "k - j" arbitrary: j m i)
  case 0
  then have j: "j = k" by simp
  show ?case
  proof (cases "i < int n")
    case True
    then have fits: "\<forall>t \<in> {j..k}. length (typed inp t) < n" using 0 j by simp
    obtain r c where rc: "inp k = (r, c)" by fastforce
    show ?thesis
    proof (cases "r = 1")
      case True
      then have "c = 0x0a" using 0 rc by simp
      then show ?thesis using \<open>i < int n\<close> fits 0 rc j True
        by (subst readline_loop.simps) (auto simp: line_done_def buffered_def Let_def)
    next
      case False
      then show ?thesis using \<open>i < int n\<close> fits rc j
        by (subst readline_loop.simps) (auto simp: line_done_def)
    qed
  next
    case False
    then have nf: "(\<forall>t \<in> {j..k}. length (typed inp t) < n) = False" using 0 j by auto
    have "\<exists>m'. drain inp j m = Some (m', k + 1)" using 0 by (intro drain_ok) auto
    from too_long [OF this] False show ?thesis unfolding nf by simp
  qed
next
  case (Suc d)
  then have j: "j < k" by simp
  have cj: "fst (inp j) = 1" "snd (inp j) \<noteq> 0x0a" using Suc(4) [OF j] by simp_all
  show ?case
  proof (cases "i < int n")
    case True
    have "0x0a \<notin> set (map (snd \<circ> inp) [0..<j])" using Suc(4) j by auto
    from buffered_step [OF Suc(6) [unfolded typed_def] cj(2) this, of i] Suc(7)
    obtain m1 i1 where m1: "m1 = m(i := snd (inp j))" "i1 = (if snd (inp j) = 0x08 then if i > 0 then i - 2 else 0 else i)"
        "buffered m1 (typed inp (Suc j))" "m1 i1 \<noteq> 0x0a" "i1 + 1 = int (length (typed inp (Suc j)))"
      by (simp add: typed_Suc typed_def)
    have "\<exists>r. readline_loop inp n (Suc j) m1 (i1 + 1) = Some r
        \<and> line_done inp k (\<forall>t \<in> {Suc j..k}. length (typed inp t) < n) r"
      using Suc(2,5) j m1(3,5) by (intro Suc(1) Suc(4)) auto
    moreover have "{j..k} = insert j {Suc j..k}" using j by auto
    moreover have "readline_loop inp n j m i = readline_loop inp n (Suc j) m1 (i1 + 1)"
      using True cj m1(1,2,4) by (subst readline_loop.simps) (simp add: split_beta Let_def)
    ultimately show ?thesis using True Suc(7) by simp
  next
    case False
    then have nf: "(\<forall>t \<in> {j..k}. length (typed inp t) < n) = False" using Suc(7) j by fastforce
    have "\<exists>m'. drain inp j m = Some (m', k + 1)" using Suc(3-5) by (intro drain_ok) auto
    from too_long [OF this] False show ?thesis unfolding nf by simp
  qed
qed

section \<open>Consequences\<close>

lemma runcmd_exec: "holds m s xs \<Longrightarrow> runcmd ans m s h = exec ans (tokens_of xs) h [] 0"
  using first_pending [of m s xs] runcmd_loop_exec [OF _ words_at_Nil tokens_proper] by (auto simp: runcmd_def)

lemma exec_words:
  "length (args @ ws) < MAXARGS \<Longrightarrow> exec ans (map Word ws @ ts) h args rp = exec ans ts h (args @ ws) rp"
  by (induction ws arbitrary: args) auto

text \<open>A command of sixteen words passes the check of the count and overruns \<open>argv\<close>.\<close>

lemma sixteen_arguments:
  assumes "holds m s xs" "tokens_of xs = map Word ws" "length ws = MAXARGS"
  shows "runcmd ans m s h = None"
proof -
  note runcmd_exec [OF assms(1)]
  moreover obtain vs w where v: "ws = vs @ [w]" using assms(3) by (cases ws rule: rev_cases) (auto simp: MAXARGS_def)
  moreover have "exec ans (map Word vs @ [Word w]) h [] 0 = exec ans [Word w] h vs 0"
    using exec_words [of "[]" vs] assms(3) v by simp
  ultimately show ?thesis using assms(2,3) by (simp add: run_names_def)
qed

text \<open>With the name of a script the shell does not start: it opens the null pointer behind its arguments.\<close>

lemma script_is_not_opened:
  "script \<noteq> [] \<Longrightarrow> hd script \<noteq> 0x2d \<Longrightarrow> sh_start ans con [script] h = None"
  by (cases script; cases "tl script") (auto simp: sh_start_def nth_arg_def Let_def)

section \<open>Properties\<close>

text \<open>C31. The in place tokenizer and the loop of \<open>runcmd\<close>, which is one token ahead, terminates
  words by stores into the line and keeps pointers to them, make for every command line the same
  calls of the library, with the same strings, as an interpreter of the list of tokens. In
  particular \<open>runcmd\<close> always ends.\<close>

theorem runcmd_executes_tokens:
  assumes "holds m s xs"
  shows "runcmd ans m s h = exec ans (tokens_of xs) h [] 0"
  using assms by (rule runcmd_exec)

definition demo_line :: "u8 list" where "demo_line = [0x6c, 0x73, 0x20, 0x7c, 0x63]"

text \<open>Every call succeeds: a fork gives 5, other calls 3.\<close>

definition demo_answers :: answers where
  "demo_answers h = (if h \<noteq> [] \<and> last h = Fork_it then 5 else 3, 3, 4)"

lemma demo_line_holds: "holds (literal demo_line) 0 demo_line"
  by (simp only: holds_cstr add_0, rule cstr_literal) (simp add: demo_line_def)

theorem runcmd_executes_tokens_witness:
  "runcmd demo_answers (literal demo_line) 0 [] = exec demo_answers (tokens_of demo_line) [] [] 0"
  by (rule runcmd_executes_tokens [OF demo_line_holds])

text \<open>C32. A pipeline of two commands, when no call fails: the parent connects its output to the
  pipe, closes both ends, runs the left command and waits for it and for the child; the child
  connects its input, closes both ends and runs the right command. Neither leaves an end of the
  pipe open.\<close>

theorem pipeline_runs:
  assumes line: "holds m s xs" "tokens_of xs = map Word as @ Symbol WORD_PIPE # map Word bs"
    and args: "as \<noteq> []" "bs \<noteq> []" "length as < MAXARGS" "length bs < MAXARGS"
    and fine: "\<And>h. \<not> failed (fst (ans h))"
    and pipe: "snd (ans (h @ [Make_pipe])) = (p0, p1)"
  shows "runcmd ans m s h =
    (let r = fst (ans (h @ [Make_pipe, Fork_it]));
         left = h @ [Make_pipe, Fork_it, Dup p1 1, Close p0, Close p1, Spawn_it as];
         right = h @ [Make_pipe, Fork_it, Dup p0 0, Close p0, Close p1, Spawn_it bs]
     in Some (Exits, if r = 0 then right @ [Close_all, Wait (fst (ans right))]
                     else left @ [Close_all, Wait (fst (ans left)), Wait r]))"
proof -
  note e = runcmd_exec [OF line(1)]
  have a: "exec ans (map Word as @ Symbol WORD_PIPE # map Word bs) h [] 0 = exec ans (Symbol WORD_PIPE # map Word bs) h as 0"
    using exec_words [of "[]" as] args(3) by simp
  have b: "exec ans (map Word bs) h' [] 0 = run_names ans h' bs 0" for h'
    using exec_words [of "[]" bs ans "[]"] args(4) by simp
  show ?thesis
    unfolding e line(2) a using args fine pipe
    by (simp add: b kinds make_pipe_def must_def run_names_def Let_def)
qed

theorem pipeline_runs_witness:
  "runcmd demo_answers (literal demo_line) 0 [] =
    Some (Exits, [Make_pipe, Fork_it, Dup 4 1, Close 3, Close 4, Spawn_it [[0x6c, 0x73]], Close_all, Wait 3, Wait 5])"
proof -
  have t: "tokens_of demo_line = map Word [[0x6c, 0x73]] @ Symbol WORD_PIPE # map Word [[0x63]]"
    by (simp add: demo_line_def tokens_of.simps white_def WHITESPACE_def symbol_def SYMBOLS_def plain_def WORD_PIPE_def)
  show ?thesis
    by (subst pipeline_runs [OF demo_line_holds t, where ?p0.0 = 3 and ?p1.0 = 4])
      (simp_all add: MAXARGS_def failed_def Let_def word_sless_alt demo_answers_def)
qed

text \<open>C33. \<open>readline\<close> returns with the first newline or the first read that fails: it has then made
  exactly the reads up to it. A newline gives the line as it was edited with backspaces, or an
  empty line when it did not fit the buffer at some time; a failing read ends the shell, unless
  the line was too long already. The byte in front of the buffer must not be a newline.\<close>

theorem readline_returns:
  assumes "\<And>i. i < k \<Longrightarrow> fst (inp i) = 1 \<and> snd (inp i) \<noteq> 0x0a" "fst (inp k) \<noteq> 1 \<or> snd (inp k) = 0x0a"
    "m (- 1) \<noteq> 0x0a"
  shows "\<exists>r. readline inp m n = Some r \<and> line_done inp k (\<forall>t \<in> {0..k}. length (typed inp t) < n) r"
  unfolding readline_def
  by (rule readline_loop_ok) (use assms in \<open>auto simp: typed_def edited_def buffered_def\<close>)

theorem readline_returns_witness:
  "\<exists>r. readline (\<lambda>i. (1, [0x61, 0x62, 0x08, 0x0a] ! i)) (\<lambda>_. 0) 8 = Some r
    \<and> line_done (\<lambda>i. (1, [0x61, 0x62, 0x08, 0x0a] ! i)) 3
        (\<forall>t \<in> {0..3}. length (typed (\<lambda>i. (1, [0x61, 0x62, 0x08, 0x0a] ! i)) t) < 8) r"
proof (rule readline_returns)
  fix i :: nat
  assume "i < 3"
  then have "i = 0 \<or> i = 1 \<or> i = 2" by auto
  then show "fst (1, [0x61, 0x62, 0x08, 0x0a] ! i) = (1 :: u32) \<and> snd (1, [0x61, 0x62, 0x08, 0x0a] ! i) \<noteq> (0x0a :: u8)"
    by auto
qed simp_all

end
