(* ===== verification/Spawn.thy ===== *)
theory Spawn
  imports Ufile
begin

text \<open>
  Starting a program from a file: \<open>user/spawn.c\<close>, with the header of \<open>inc/aout.h\<close>. The
  arguments are an array of pointers in memory; a loop over a string or an array that has no
  terminator runs into a page that is not there, which is the value \<open>None\<close>.

  The registers that \<open>sys_set_trapframe\<close> gives an environment are kept as the stack pointer
  and the instruction pointer; the others are those of the template.
\<close>

unbundle bit_operations_syntax

definition TMPPAGE :: u32 where "TMPPAGE = BY2PG"
definition TMPPAGETOP :: u32 where "TMPPAGETOP = TMPPAGE + BY2PG"

text \<open>The fields of \<open>struct Aout\<close> that are used.\<close>

definition off_text :: u32 where "off_text = 4"
definition off_data :: u32 where "off_data = 8"
definition off_bss :: u32 where "off_bss = 12"
definition off_entry :: u32 where "off_entry = 20"
definition aout_size :: u32 where "aout_size = 32"

section \<open>Strings and arrays in the memory of the program\<close>

partial_function (option) u_strlen :: "umach \<Rightarrow> u32 \<Rightarrow> u32 \<Rightarrow> u32 option" where
  "u_strlen u a n = Option.bind (ld8 u a) (\<lambda>b. if b = 0 then Some n else u_strlen u (a + 1) (n + 1))"

partial_function (option) u_strcpy :: "umach \<Rightarrow> u32 \<Rightarrow> u32 \<Rightarrow> umach option" where
  "u_strcpy u d s =
     Option.bind (ld8 u s) (\<lambda>b. Option.bind (st8 u d b) (\<lambda>u1. if b = 0 then Some u1 else u_strcpy u1 (d + 1) (s + 1)))"

partial_function (option) count_args :: "umach \<Rightarrow> u32 \<Rightarrow> u32 \<Rightarrow> u32 \<Rightarrow> (u32 \<times> u32) option" where
  "count_args u argv argc tot =
     Option.bind (ld32 u (argv + 4 * argc)) (\<lambda>p.
       if p = 0 then Some (argc, tot)
       else Option.bind (u_strlen u p 0) (\<lambda>n. count_args u argv (argc + 1) (tot + n + 1)))"

section \<open>The initial stack\<close>

fun copy_args :: "umach \<Rightarrow> u32 \<Rightarrow> u32 \<Rightarrow> u32 \<Rightarrow> nat list \<Rightarrow> umach option" where
  "copy_args u argv args strings [] = Some u"
| "copy_args u argv args strings (i # js) =
     do {
       p \<leftarrow> ld32 u (argv + 4 * of_nat i);
       u1 \<leftarrow> u_strcpy u strings p;
       u2 \<leftarrow> st32 u1 (args + 4 * of_nat i) (strings + USTACKTOP - TMPPAGETOP);
       p2 \<leftarrow> ld32 u2 (argv + 4 * of_nat i);
       n \<leftarrow> u_strlen u2 p2 0;
       copy_args u2 argv args (strings + (n + 1)) js
     }"

definition init_stack :: "kern \<Rightarrow> umach \<Rightarrow> u32 \<Rightarrow> u32 \<Rightarrow> ((error + u32) \<times> umach) option" where
  "init_stack k u child argv =
     do {
       (argc, tot) \<leftarrow> count_args u argv 0 0;
       if ROUND tot 4 + 4 * (argc + 3) > BY2PG then Some (Inl E_NO_MEM, u)
       else
         (let strings = TMPPAGETOP - tot; args = TMPPAGETOP - ROUND tot 4 - 4 * (argc + 1) in
          case u_mem_alloc k u 0 TMPPAGE (PTE_P OR PTE_U OR PTE_W) of
            (Inl e, u1) \<Rightarrow> Some (Inl e, u1)
          | (Inr _, u1) \<Rightarrow>
              do {
                u2 \<leftarrow> copy_args u1 argv args strings [0..<unat argc];
                u3 \<leftarrow> st32 u2 (args + 4 * argc) 0;
                let sp = USTACKTOP - ROUND tot 4 - 4 * (argc + 1);
                u4 \<leftarrow> st32 u3 (args - 4) sp;
                u5 \<leftarrow> st32 u4 (args - 8) argc;
                case u_mem_map k u5 0 TMPPAGE child (USTACKTOP - BY2PG) (PTE_P OR PTE_U OR PTE_W) of
                  (Inl e, u6) \<Rightarrow> Some (Inl e, unmap u6 TMPPAGE)
                | (Inr _, u6) \<Rightarrow>
                    (case u_mem_unmap u6 0 TMPPAGE of
                       (Inl e, u7) \<Rightarrow> Some (Inl e, unmap u7 TMPPAGE)
                     | (Inr _, u7) \<Rightarrow> Some (Inr (sp - 8), u7))
              })
     }"

section \<open>Segments\<close>

text \<open>The page addresses from one address up to another; none if the end has wrapped.\<close>

definition page_range :: "u32 \<Rightarrow> u32 \<Rightarrow> u32 list" where
  "page_range beg end_addr = map (\<lambda>i. beg + of_nat i * BY2PG) [0..<(unat end_addr - unat beg + 4095) div 4096]"

fun map_text :: "kern \<Rightarrow> umach \<Rightarrow> u32 \<Rightarrow> u32 \<Rightarrow> u32 list \<Rightarrow> ((error + unit) \<times> umach) option" where
  "map_text k u fd cid [] = Some (Inr (), u)"
| "map_text k u fd cid (a # bs) =
     do {
       q \<leftarrow> read_map u fd (a - UTEXT);
       case q of
         Inl e \<Rightarrow> Some (Inl e, u)
       | Inr va \<Rightarrow>
           (case u_mem_map k u 0 va cid a (PTE_P OR PTE_U) of
              (Inl e, u1) \<Rightarrow> Some (Inl e, u1)
            | (Inr _, u1) \<Rightarrow> map_text k u1 fd cid bs)
     }"

text \<open>The data segment; the page at \<open>TMPPAGE\<close> stays mapped by the parent after the last round.\<close>

fun load_data :: "kern \<Rightarrow> udevtab \<Rightarrow> uworld \<Rightarrow> u32 \<Rightarrow> u32 \<Rightarrow> u32 list \<Rightarrow> (u32 \<times> uworld) option" where
  "load_data k ds w fd cid [] = Some (0, w)"
| "load_data k ds w fd cid (a # bs) =
     (case u_mem_alloc k (mach w) 0 TMPPAGE (PTE_P OR PTE_U OR PTE_W) of
        (Inl e, u1) \<Rightarrow> Some (code e, w\<lparr>mach := u1\<rparr>)
      | (Inr _, u1) \<Rightarrow>
          do {
            (r, w2) \<leftarrow> u_read ds (w\<lparr>mach := u1\<rparr>) fd TMPPAGE BY2PG;
            if bad (res_word r) then Some (res_word r, w2)
            else
              (case u_mem_map k (mach w2) 0 TMPPAGE cid a (PTE_P OR PTE_U OR PTE_W) of
                 (Inl e, u3) \<Rightarrow> Some (code e, w2\<lparr>mach := u3\<rparr>)
               | (Inr _, u3) \<Rightarrow> load_data k ds (w2\<lparr>mach := u3\<rparr>) fd cid bs)
          })"

fun zero_bss :: "kern \<Rightarrow> umach \<Rightarrow> u32 \<Rightarrow> u32 list \<Rightarrow> (error + unit) \<times> umach" where
  "zero_bss k u cid [] = (Inr (), u)"
| "zero_bss k u cid (a # bs) =
     (case u_mem_alloc k u cid a (PTE_P OR PTE_U OR PTE_W) of
        (Inl e, u1) \<Rightarrow> (Inl e, u1)
      | (Inr _, u1) \<Rightarrow> zero_bss k u1 cid bs)"

text \<open>Pages marked as shared go to the child, whatever the calls return.\<close>

function share_loop :: "kern \<Rightarrow> umach \<Rightarrow> u32 \<Rightarrow> nat \<Rightarrow> umach option" where
  "share_loop k u cid i =
     (if last_page \<le> i then Some u
      else if vpd u (i div 1024) then
        do {
          e \<leftarrow> vpt u i;
          let a = of_nat i * BY2PG;
          let u1 = (if has e PTE_P \<and> has e PTE_LIBRARY then snd (u_mem_map k u 0 a cid a PTE_USER) else u);
          share_loop k u1 cid (i + 1)
        }
      else share_loop k u cid (i + PDE2PD))"
  by pat_completeness auto
termination
  by (relation "measure (\<lambda>(k, u, cid, i). last_page - i)") (auto simp: PDE2PD_def)

declare share_loop.simps [simp del]

definition u_set_trapframe :: "umach \<Rightarrow> u32 \<Rightarrow> u32 \<Rightarrow> u32 \<Rightarrow> (error + unit) \<times> umach" where
  "u_set_trapframe u e esp eip =
     (case space_of u e of
        None \<Rightarrow> (Inl E_BAD_ENV, u)
      | Some _ \<Rightarrow> (Inr (), u\<lparr>regs := (regs u)(e := Some (esp, eip))\<rparr>))"

section \<open>Spawn\<close>

text \<open>The segments of the child, in the order of the code.\<close>

definition load_child :: "kern \<Rightarrow> udevtab \<Rightarrow> uworld \<Rightarrow> u32 \<Rightarrow> u32 \<Rightarrow> u32 \<Rightarrow> u32 \<Rightarrow> u32 \<Rightarrow> (u32 \<times> uworld) option" where
  "load_child k ds w fd cid a_text a_data a_bss =
     (let text_end = ROUND (UTEXT + a_text) BY2PG;
          data_end = ROUND (text_end + a_data) BY2PG;
          bss_end = ROUND (data_end + a_bss) BY2PG in
      do {
        (t, u1) \<leftarrow> map_text k (mach w) fd cid (page_range UTEXT text_end);
        case t of
          Inl e \<Rightarrow> Some (code e, w\<lparr>mach := u1\<rparr>)
        | Inr _ \<Rightarrow>
            do {
              (s, w2) \<leftarrow> u_seek (w\<lparr>mach := u1\<rparr>) fd a_text;
              case s of
                Inl e \<Rightarrow> Some (code e, w2)
              | Inr _ \<Rightarrow>
                  do {
                    (r, w3) \<leftarrow> load_data k ds w2 fd cid (page_range text_end data_end);
                    if bad r then Some (r, w3)
                    else
                      (case zero_bss k (mach w3) cid (page_range data_end bss_end) of
                         (Inl e, u4) \<Rightarrow> Some (code e, w3\<lparr>mach := u4\<rparr>)
                       | (Inr _, u4) \<Rightarrow> Some (0, w3\<lparr>mach := u4\<rparr>))
                  }
            }
      })"

definition start_child :: "kern \<Rightarrow> uworld \<Rightarrow> u32 \<Rightarrow> u32 \<Rightarrow> (u32 \<times> uworld) option" where
  "start_child k w cid init_esp =
     (case u_set_trapframe (mach w) cid init_esp (0x20 + UTEXT) of
        (Inl e, u1) \<Rightarrow> Some (code e, w\<lparr>mach := u1\<rparr>)
      | (Inr _, u1) \<Rightarrow>
          do {
            u2 \<leftarrow> share_loop k u1 cid 0;
            case u_set_env_runnable u2 cid of
              (Inl e, u3) \<Rightarrow> Some (code e, w\<lparr>mach := u3\<rparr>)
            | (Inr _, u3) \<Rightarrow> Some (cid, w\<lparr>mach := u3\<rparr>)
          })"

text \<open>\<open>hbuf\<close> is the address of the variable \<open>haout\<close>.\<close>

definition u_spawn :: "kern \<Rightarrow> udevtab \<Rightarrow> uworld \<Rightarrow> u32 \<Rightarrow> u8 list \<Rightarrow> u32 \<Rightarrow> (u32 \<times> uworld) option" where
  "u_spawn k ds w hbuf prog argv =
     do {
       (fd, w1) \<leftarrow> file_open' w prog O_RDONLY;
       if bad fd then Some (fd, w1)
       else
         do {
           (r, w2) \<leftarrow> u_read ds w1 fd hbuf aout_size;
           if bad (res_word r) then Some (res_word r, w2)
           else
             do {
               entry \<leftarrow> ld32 (mach w2) (hbuf + off_entry);
               if entry \<noteq> 0x20 + UTEXT then Some (code E_INVAL, w2)
               else
                 (case u_env_alloc k (mach w2) of
                    (Inl e, u3) \<Rightarrow> Some (code e, w2\<lparr>mach := u3\<rparr>)
                  | (Inr cid, u3) \<Rightarrow>
                      if bad cid then Some (cid, w2\<lparr>mach := u3\<rparr>)
                      else
                        do {
                          (s, u4) \<leftarrow> init_stack k u3 cid argv;
                          case s of
                            Inl e \<Rightarrow> Some (code e, w2\<lparr>mach := u4\<rparr>)
                          | Inr init_esp \<Rightarrow>
                              do {
                                a_text \<leftarrow> ld32 u4 (hbuf + off_text);
                                a_data \<leftarrow> ld32 u4 (hbuf + off_data);
                                a_bss \<leftarrow> ld32 u4 (hbuf + off_bss);
                                (r5, w5) \<leftarrow> load_child k ds (w2\<lparr>mach := u4\<rparr>) fd cid a_text a_data a_bss;
                                if bad r5 then Some (r5, w5)
                                else
                                  do {
                                    (r6, w6) \<leftarrow> u_close ds w5 fd;
                                    if bad (res_word r6) then Some (res_word r6, w6)
                                    else start_child k w6 cid init_esp
                                  }
                              }
                        })
             }
         }
     }"

end
