(* ===== verification/Mkfs.thy ===== *)
theory Mkfs
  imports Fs_File
begin

text \<open>
  The image builder: \<open>fs/fsformat.c\<close>, a program of the host that writes the files of a new file
  system. The image is a function from block and word to a word, and the block cache an array of
  sixteen buffers. The host is taken to be little endian with 4 byte pointers, which the layout of
  \<open>struct File\<close> in \<open>inc/fs.h\<close> needs; its reads and writes of the image file do not fail. \<open>exit(1)\<close>
  and a stop are \<open>None\<close>.
\<close>

unbundle bit_operations_syntax

section \<open>State\<close>

datatype btype = BLOCK_SUPER | BLOCK_DIR | BLOCK_FILE | BLOCK_BITS

record blk =
  busy :: bool
  bno :: nat
  used :: nat
  buf :: "nat \<Rightarrow> u32"
  btyp :: btype

record mkfs =
  cache :: "nat \<Rightarrow> blk"
  tick :: nat
  disk_img :: "nat \<Rightarrow> nat \<Rightarrow> u32"
  nblock :: nat
  nbitblock :: nat
  nextb :: nat
  sup :: "nat \<Rightarrow> u32"

definition NCACHE :: nat where "NCACHE = 16"
definition BIT2BLK :: nat where "BIT2BLK = 32768"
definition SIZEOF_SUPER :: nat where "SIZEOF_SUPER = 66"

text \<open>What the C program starts with.\<close>

definition zero_blk :: blk where
  "zero_blk = \<lparr>busy = False, bno = 0, used = 0, buf = (\<lambda>_. 0), btyp = BLOCK_SUPER\<rparr>"

definition zero_mkfs :: "(nat \<Rightarrow> nat \<Rightarrow> u32) \<Rightarrow> mkfs" where
  "zero_mkfs img = \<lparr>cache = (\<lambda>_. zero_blk), tick = 0, disk_img = img, nblock = 0, nbitblock = 0, nextb = 0, sup = (\<lambda>_. 0)\<rparr>"

definition upd_blk :: "nat \<Rightarrow> (blk \<Rightarrow> blk) \<Rightarrow> mkfs \<Rightarrow> mkfs" where
  "upd_blk i f st = st\<lparr>cache := (cache st)(i := f (cache st i))\<rparr>"

definition store :: "nat \<Rightarrow> nat \<Rightarrow> u32 \<Rightarrow> mkfs \<Rightarrow> mkfs" where
  "store i k w = upd_blk i (buf_update (\<lambda>m. m(k := w)))"

section \<open>Byte order\<close>

text \<open>The bytes of the word are stored least significant first; memory is little endian.\<close>

definition swizzle :: "u32 \<Rightarrow> u32" where
  "swizzle y = put_byte (put_byte (put_byte (put_byte y 0 (ucast (y AND 0xFF)))
     1 (ucast (drop_bit 8 y AND 0xFF))) 2 (ucast (drop_bit 16 y AND 0xFF))) 3 (ucast (drop_bit 24 y AND 0xFF))"

definition swizzle_at :: "nat \<Rightarrow> (nat \<Rightarrow> u32) \<Rightarrow> nat \<Rightarrow> u32" where
  "swizzle_at k m = m(k := swizzle (m k))"

definition swizzlefile :: "nat \<Rightarrow> (nat \<Rightarrow> u32) \<Rightarrow> nat \<Rightarrow> u32" where
  "swizzlefile f m =
     (if get_byte (m f) 0 = 0 then m
      else swizzle_at (f + off_indirect)
        (fold (\<lambda>i. swizzle_at (f + off_direct + i)) [0..<NDIRECT]
          (swizzle_at (f + off_type) (swizzle_at (f + off_size) m))))"

definition swizzle_block :: "btype \<Rightarrow> (nat \<Rightarrow> u32) \<Rightarrow> nat \<Rightarrow> u32" where
  "swizzle_block t m =
     (case t of
        BLOCK_SUPER \<Rightarrow> swizzlefile 2 (swizzle_at 1 (swizzle_at 0 m))
      | BLOCK_DIR \<Rightarrow> fold (\<lambda>i. swizzlefile (64 * i)) [0..<FILE2BLK] m
      | BLOCK_BITS \<Rightarrow> fold swizzle_at [0..<1024] m
      | BLOCK_FILE \<Rightarrow> m)"

section \<open>The cache\<close>

definition flushb :: "nat \<Rightarrow> mkfs \<Rightarrow> mkfs" where
  "flushb i st =
     (let st1 = upd_blk i (\<lambda>b. b\<lparr>buf := swizzle_block (btyp b) (buf b)\<rparr>) st;
          st2 = st1\<lparr>disk_img := (disk_img st1)(bno (cache st1 i) := buf (cache st1 i))\<rparr>
      in upd_blk i (\<lambda>b. b\<lparr>buf := swizzle_block (btyp b) (buf b)\<rparr>) st2)"

text \<open>The entry that was used least, of those that are not busy.\<close>

definition least_step :: "mkfs \<Rightarrow> nat \<Rightarrow> nat option \<Rightarrow> nat option" where
  "least_step st i l =
     (if \<not> busy (cache st i) \<and> (case l of None \<Rightarrow> True | Some k \<Rightarrow> used (cache st i) < used (cache st k))
      then Some i else l)"

definition getblk :: "nat \<Rightarrow> bool \<Rightarrow> btype \<Rightarrow> mkfs \<Rightarrow> (nat \<times> mkfs) option" where
  "getblk n clr typ st =
     (if n \<ge> nblock st then None
      else
        do {
          (i, st1) \<leftarrow>
            (case find (\<lambda>i. bno (cache st i) = n) [0..<NCACHE] of
               Some i \<Rightarrow> Some (i, st)
             | None \<Rightarrow>
                 do {
                   l \<leftarrow> fold (least_step st) [0..<NCACHE] None;
                   let st0 = flushb l st;
                   Some (l, upd_blk l (\<lambda>b. b\<lparr>buf := disk_img st0 n, bno := n, btyp := typ\<rparr>) st0)
                 });
          let st2 = (if clr then upd_blk i (\<lambda>b. b\<lparr>buf := (\<lambda>_. 0)\<rparr>) st1 else st1);
          let st3 = upd_blk i (\<lambda>b. b\<lparr>used := tick st2 + 1\<rparr>) (st2\<lparr>tick := tick st2 + 1\<rparr>);
          if busy (cache st3 i) then None
          else Some (i, upd_blk i (\<lambda>b. b\<lparr>busy := True\<rparr>) st3)
        })"

definition putblk :: "nat \<Rightarrow> mkfs \<Rightarrow> mkfs" where
  "putblk i = upd_blk i (\<lambda>b. b\<lparr>busy := False\<rparr>)"

section \<open>opendisk\<close>

definition fill_bits :: "nat \<Rightarrow> mkfs \<Rightarrow> mkfs option" where
  "fill_bits i st =
     do {
       (b, st1) \<leftarrow> getblk (2 + i) False BLOCK_BITS st;
       Some (putblk b (upd_blk b (\<lambda>x. x\<lparr>buf := (\<lambda>_. 0xFFFFFFFF)\<rparr>) st1))
     }"

definition opendisk :: "nat \<Rightarrow> mkfs \<Rightarrow> mkfs option" where
  "opendisk dsize st =
     (if dsize < 1024 \<or> dsize > 4 * 1024 * 1024 then None
      else
        do {
          let n = dsize div 4096;
          let nb = (n + BIT2BLK - 1) div BIT2BLK;
          st1 \<leftarrow> mfold fill_bits [0..<nb] (st\<lparr>nblock := n, nbitblock := nb\<rparr>);
          let s = (sup st1)(0 := FS_MAGIC, 1 := of_nat n, 2 + off_type := FTYPE_DIR);
          Some (st1\<lparr>nextb := 2 + nb, sup := put_bytes s 8 [0x2f, 0]\<rparr>)
        })"

section \<open>writefile\<close>

text \<open>
  \<open>read\<close> of the host: the handle after the call, and the result with the bytes it stored. A
  negative result is an error.
\<close>

type_synonym 'h reader = "'h \<Rightarrow> nat \<Rightarrow> (int \<times> u8 list) \<times> 'h"

function readn_loop :: "'h reader \<Rightarrow> 'h \<Rightarrow> nat \<Rightarrow> u8 list \<Rightarrow> (int \<times> u8 list) \<times> 'h" where
  "readn_loop hr h n a =
     (if length a < n then
        case hr h (n - length a) of
          ((m, bs), h1) \<Rightarrow>
            if m \<le> 0 \<or> bs = [] then if a = [] then ((m, a), h1) else ((int (length a), a), h1)
            else readn_loop hr h1 n (a @ bs)
      else ((int (length a), a), h))"
  by auto
termination
  by (relation "measure (\<lambda>(hr, h, n, a). n - length a)") (auto simp: length_greater_0_conv [symmetric] simp del: length_greater_0_conv)

definition readn :: "'h reader \<Rightarrow> 'h \<Rightarrow> nat \<Rightarrow> (int \<times> u8 list) \<times> 'h" where
  "readn hr h n = readn_loop hr h n []"

text \<open>The part of a name behind its last slash.\<close>

definition last_part :: "u8 list \<Rightarrow> u8 list" where
  "last_part name = rev (takeWhile (\<lambda>c. c \<noteq> 0x2f) (rev name))"

text \<open>
  The entry for a new file: the first of the last directory block whose name is empty, or the
  first of a new block.
\<close>

definition new_dir_block :: "mkfs \<Rightarrow> (nat \<times> nat \<times> mkfs) option" where
  "new_dir_block st =
     do {
       (d, st1) \<leftarrow> getblk (nextb st) True BLOCK_DIR st;
       let k = unat (sup st1 (2 + off_size) div BY2BLK);
       let s = (sup st1)(2 + off_direct + k := of_nat (nextb st1));
       Some (d, 0, st1\<lparr>nextb := nextb st1 + 1, sup := s(2 + off_size := s (2 + off_size) + BY2BLK)\<rparr>)
     }"

definition find_entry :: "mkfs \<Rightarrow> (nat \<times> nat \<times> mkfs) option" where
  "find_entry st =
     (if sup st (2 + off_size) > 0 then
        do {
          (d, st1) \<leftarrow> getblk (unat (sup st (2 + off_direct + unat (sup st (2 + off_size) div BY2BLK - 1)))) False BLOCK_DIR st;
          case find (\<lambda>i. get_byte (buf (cache st1 d) (64 * i)) 0 = 0) [0..<FILE2BLK] of
            Some i \<Rightarrow> Some (d, 64 * i, st1)
          | None \<Rightarrow> new_dir_block st1
        }
      else new_dir_block st)"

text \<open>The number of the block that was read is stored in the entry or in the indirect block.\<close>

definition store_block :: "nat \<Rightarrow> nat \<Rightarrow> nat \<Rightarrow> nat \<Rightarrow> mkfs \<Rightarrow> mkfs option" where
  "store_block d f nblk b st =
     (if nblk < NDIRECT then Some (store d (f + off_direct + nblk) (of_nat (bno (cache st b))) st)
      else if nblk < NINDIRECT then
        do {
          (ib, st2) \<leftarrow>
            (if buf (cache st d) (f + off_indirect) = 0 then
               do {
                 (ib, st1) \<leftarrow> getblk (nextb st) True BLOCK_BITS (st\<lparr>nextb := nextb st + 1\<rparr>);
                 Some (ib, store d (f + off_indirect) (of_nat (bno (cache st1 ib))) st1)
               }
             else getblk (unat (buf (cache st d) (f + off_indirect))) False BLOCK_BITS st);
          Some (putblk ib (store ib nblk (of_nat (bno (cache st2 b))) st2))
        }
      else None)"

text \<open>
  The loop over the blocks of the file. A read of nothing leaves its buffer busy. The result is
  \<open>nblk\<close> and \<open>n\<close> at the end.
\<close>

function write_blocks :: "'h reader \<Rightarrow> 'h \<Rightarrow> nat \<Rightarrow> nat \<Rightarrow> nat \<Rightarrow> mkfs \<Rightarrow> (nat \<times> nat \<times> mkfs) option" where
  "write_blocks hr h d f nblk st =
     (case getblk (nextb st) True BLOCK_FILE st of
        None \<Rightarrow> None
      | Some (b, st1) \<Rightarrow>
          (case readn hr h 4096 of
             ((n, bs), h1) \<Rightarrow>
               let st2 = upd_blk b (\<lambda>x. x\<lparr>buf := put_bytes (buf x) 0 bs\<rparr>) st1 in
               if n < 0 then None
               else if n = 0 then Some (nblk, 0, st2)
               else
                 (case store_block d f nblk b (st2\<lparr>nextb := nextb st2 + 1\<rparr>) of
                    None \<Rightarrow> None
                  | Some st3 \<Rightarrow>
                      let st4 = putblk b st3 in
                      if n < 4096 then Some (nblk, nat n, st4)
                      else write_blocks hr h1 d f (nblk + 1) st4)))"
  by auto
termination
  by (relation "measure (\<lambda>(hr, h, d, f, nblk, st). NINDIRECT + 1 - nblk)")
    (auto simp: store_block_def NDIRECT_def NINDIRECT_def split: if_splits)

text \<open>\<open>hopen\<close> opens a file of the host.\<close>

definition writefile :: "'h reader \<Rightarrow> (u8 list \<Rightarrow> 'h option) \<Rightarrow> u8 list \<Rightarrow> mkfs \<Rightarrow> mkfs option" where
  "writefile hr hopen name st =
     do {
       h \<leftarrow> hopen name;
       (d, f, st1) \<leftarrow> find_entry st;
       let name_bytes = last_part name @ [0];
       if 4 * f + length name_bytes > 4096 then None
       else do {
         let st2 = upd_blk d (\<lambda>x. x\<lparr>buf := put_bytes (buf x) (4 * f) name_bytes\<rparr>) st1;
         (nblk, n, st3) \<leftarrow> write_blocks hr h d f 0 st2;
         Some (putblk d (store d (f + off_size) (of_nat (nblk * 4096 + n)) st3))
       }
     }"

section \<open>The end\<close>

definition clear_bit :: "nat \<Rightarrow> nat \<Rightarrow> nat \<Rightarrow> mkfs \<Rightarrow> mkfs" where
  "clear_bit b k i st = store b k (buf (cache st b) k AND NOT (push_bit (i mod 32) 1)) st"

definition mark_block :: "nat \<Rightarrow> mkfs \<Rightarrow> mkfs option" where
  "mark_block i st =
     do {
       (b, st1) \<leftarrow> getblk (2 + i div BIT2BLK) False BLOCK_BITS st;
       Some (putblk b (clear_bit b (i mod BIT2BLK div 32) i st1))
     }"

definition mark_tail :: "mkfs \<Rightarrow> mkfs option" where
  "mark_tail st =
     (if nblock st \<noteq> nbitblock st * BIT2BLK then
        do {
          (b, st1) \<leftarrow> getblk (2 + nbitblock st - 1) False BLOCK_BITS st;
          Some (putblk b (fold (\<lambda>i. clear_bit b (i div 32) i) [nblock st mod BIT2BLK..<BIT2BLK] st1))
        }
      else Some st)"

definition finishfs :: "mkfs \<Rightarrow> mkfs option" where
  "finishfs st =
     do {
       st1 \<leftarrow> mfold mark_block [0..<nextb st] st;
       st2 \<leftarrow> mark_tail st1;
       (b, st3) \<leftarrow> getblk 1 True BLOCK_SUPER st2;
       Some (putblk b (upd_blk b (\<lambda>x. x\<lparr>buf := (\<lambda>k. if k < SIZEOF_SUPER then sup st3 k else buf x k)\<rparr>) st3))
     }"

definition flushdisk :: "mkfs \<Rightarrow> mkfs" where
  "flushdisk st = fold (\<lambda>i s. if used (cache s i) \<noteq> 0 then flushb i s else s) [0..<NCACHE] st"

definition fsformat :: "'h reader \<Rightarrow> (u8 list \<Rightarrow> 'h option) \<Rightarrow> nat \<Rightarrow> u8 list list \<Rightarrow> (nat \<Rightarrow> nat \<Rightarrow> u32)
    \<Rightarrow> (nat \<Rightarrow> nat \<Rightarrow> u32) option" where
  "fsformat hr hopen dsize names img =
     do {
       st1 \<leftarrow> opendisk dsize (zero_mkfs img);
       st2 \<leftarrow> mfold (writefile hr hopen) names st1;
       st3 \<leftarrow> finishfs st2;
       Some (disk_img (flushdisk st3))
     }"

end
