(* ===== verification/Mkfs_Cache.thy ===== *)
theory Mkfs_Cache
  imports Mkfs
begin

text \<open>
  The block cache of the image builder as a view: what a block holds, in the cache or on the
  image. Getting a block, changing it and giving it back are updates of the view.
\<close>

unbundle bit_operations_syntax

section \<open>Byte order\<close>

lemma put_byte_same: "put_byte y b (ucast (drop_bit (8 * b) y AND 0xFF)) = y"
proof (rule bit_word_eqI)
  fix n :: nat assume "n < LENGTH(32)"
  have m: "(0xFF :: u32) = mask 8" by (simp add: mask_eq_exp_minus_1)
  have "8 * b \<le> n \<and> n - 8 * b < 8 \<Longrightarrow> 8 * b + (n - 8 * b) = n" by simp
  then show "bit (put_byte y b (ucast (drop_bit (8 * b) y AND 0xFF))) n = bit y n"
    using \<open>n < LENGTH(32)\<close> by (cases "8 * b \<le> n \<and> n - 8 * b < 8") (auto simp: put_byte_def m bit_simps)
qed

lemma swizzle_id [simp]: "swizzle y = y"
  using put_byte_same [of y 0] put_byte_same [of y 1] put_byte_same [of y 2] put_byte_same [of y 3]
  by (simp add: swizzle_def)

lemma fold_id: "(\<And>x. x \<in> set xs \<Longrightarrow> f x s = s) \<Longrightarrow> fold f xs s = s"
  by (induction xs) auto

lemma swizzle_at_id [simp]: "swizzle_at k m = m"
  by (simp add: swizzle_at_def)

lemma swizzlefile_id [simp]: "swizzlefile f m = m"
  by (simp add: swizzlefile_def fold_id)

lemma swizzle_block_id [simp]: "swizzle_block t m = m"
  by (simp add: swizzle_block_def fold_id split: btype.split)

section \<open>Entries\<close>

lemma cache_upd [simp]: "cache (upd_blk i f st) j = (if j = i then f (cache st i) else cache st j)"
  by (simp add: upd_blk_def)

lemma upd_blk_rest [simp]:
  "tick (upd_blk i f st) = tick st" "disk_img (upd_blk i f st) = disk_img st" "nblock (upd_blk i f st) = nblock st"
  "nbitblock (upd_blk i f st) = nbitblock st" "nextb (upd_blk i f st) = nextb st" "sup (upd_blk i f st) = sup st"
  by (simp_all add: upd_blk_def)

lemma flushb_eq: "flushb i st = st\<lparr>disk_img := (disk_img st)(bno (cache st i) := buf (cache st i))\<rparr>"
  by (simp add: flushb_def upd_blk_def Let_def)

text \<open>Blocks other than 0 are in the cache at most once; block 0 stands for an entry not used yet.\<close>

definition cache_uniq :: "mkfs \<Rightarrow> bool" where
  "cache_uniq st \<longleftrightarrow>
     (\<forall>i < NCACHE. \<forall>j < NCACHE. bno (cache st i) = bno (cache st j) \<longrightarrow> bno (cache st i) = 0 \<or> i = j)"

definition cache_ok :: "mkfs \<Rightarrow> bool" where
  "cache_ok st \<longleftrightarrow> cache_uniq st \<and> (\<forall>i < NCACHE. bno (cache st i) \<noteq> 0 \<longrightarrow> used (cache st i) \<noteq> 0)"

definition busy_set :: "mkfs \<Rightarrow> nat set" where
  "busy_set st = {i. i < NCACHE \<and> busy (cache st i)}"

definition view :: "mkfs \<Rightarrow> nat \<Rightarrow> nat \<Rightarrow> u32" where
  "view st n =
     (case find (\<lambda>i. bno (cache st i) = n) [0..<NCACHE] of Some i \<Rightarrow> buf (cache st i) | None \<Rightarrow> disk_img st n)"

lemma view_cached:
  assumes "cache_uniq st" "i < NCACHE" "bno (cache st i) = n" "n \<noteq> 0"
  shows "view st n = buf (cache st i)" "find (\<lambda>i. bno (cache st i) = n) [0..<NCACHE] = Some i"
proof -
  obtain j where j: "find (\<lambda>i. bno (cache st i) = n) [0..<NCACHE] = Some j"
    using assms(2,3) find_lt_None [of "\<lambda>i. bno (cache st i) = n" NCACHE] by fastforce
  then have "j < NCACHE" "bno (cache st j) = n" using find_lt_Some by auto
  then have "j = i" using assms by (auto simp: cache_uniq_def)
  with j show "find (\<lambda>i. bno (cache st i) = n) [0..<NCACHE] = Some i" by simp
  with j show "view st n = buf (cache st i)" by (simp add: view_def)
qed

lemma view_disk: "(\<And>i. i < NCACHE \<Longrightarrow> bno (cache st i) \<noteq> n) \<Longrightarrow> view st n = disk_img st n"
proof -
  assume "\<And>i. i < NCACHE \<Longrightarrow> bno (cache st i) \<noteq> n"
  then have "find (\<lambda>i. bno (cache st i) = n) [0..<NCACHE] = None" by (simp add: find_lt_None)
  then show ?thesis by (simp add: view_def)
qed

text \<open>A change of one buffer is a change of one block of the view.\<close>

lemma view_upd_buf:
  assumes "cache_uniq st" "i < NCACHE" "bno (cache st i) \<noteq> 0" "n \<noteq> 0"
  shows "view (upd_blk i (buf_update g) st) n = (if n = bno (cache st i) then g (view st n) else view st n)"
proof (cases "\<exists>j < NCACHE. bno (cache st j) = n")
  case True
  then obtain j where j: "j < NCACHE" "bno (cache st j) = n" by blast
  have ok: "cache_uniq (upd_blk i (buf_update g) st)" using assms(1) by (auto simp: cache_uniq_def)
  have "view (upd_blk i (buf_update g) st) n = buf (cache (upd_blk i (buf_update g) st) j)"
    by (rule view_cached(1) [OF ok j(1) _ assms(4)]) (use j in auto)
  moreover have "j = i \<longleftrightarrow> n = bno (cache st i)" using assms j by (auto simp: cache_uniq_def)
  ultimately show ?thesis using view_cached(1) [OF assms(1) j assms(4)] by auto
next
  case False
  then have "view st n = disk_img st n" by (intro view_disk) auto
  moreover have "view (upd_blk i (buf_update g) st) n = disk_img st n"
    using False by (subst view_disk) auto
  ultimately show ?thesis using False assms(2) by auto
qed

lemma view_same:
  assumes "\<And>i. i < NCACHE \<Longrightarrow> bno (cache st' i) = bno (cache st i) \<and> buf (cache st' i) = buf (cache st i)"
    "disk_img st' = disk_img st"
  shows "view st' n = view st n"
proof -
  have "(bno (cache st' i) = n) = (bno (cache st i) = n)" if "i \<in> set [0..<NCACHE]" for i
    using assms(1) [of i] that by (simp only: set_upt atLeastLessThan_iff)
  then have "find (\<lambda>i. bno (cache st' i) = n) [0..<NCACHE] = find (\<lambda>i. bno (cache st i) = n) [0..<NCACHE]"
    by (rule find_cong [OF refl])
  then show ?thesis
    using assms find_lt_Some [of "\<lambda>i. bno (cache st i) = n" NCACHE]
    by (cases "find (\<lambda>i. bno (cache st i) = n) [0..<NCACHE]") (simp_all add: view_def)
qed

lemma cache_ok_same:
  assumes "\<And>i. bno (cache st' i) = bno (cache st i)" "\<And>i. used (cache st' i) = used (cache st i)"
  shows "cache_ok st' = cache_ok st"
  by (simp only: cache_ok_def cache_uniq_def assms)

lemma busy_set_same: "(\<And>i. busy (cache st' i) = busy (cache st i)) \<Longrightarrow> busy_set st' = busy_set st"
  by (simp add: busy_set_def)

section \<open>Getting a block\<close>

lemma fold_least:
  "(\<forall>k. l = Some k \<longrightarrow> \<not> busy (cache st k)) \<Longrightarrow>
   (\<forall>k. fold (least_step st) xs l = Some k \<longrightarrow> \<not> busy (cache st k) \<and> (k \<in> set xs \<or> l = Some k))
   \<and> (fold (least_step st) xs l = None \<longleftrightarrow> l = None \<and> (\<forall>x \<in> set xs. busy (cache st x)))"
proof (induction xs arbitrary: l)
  case (Cons x xs)
  have "\<forall>k. least_step st x l = Some k \<longrightarrow> \<not> busy (cache st k)" using Cons.prems by (auto simp: least_step_def)
  note ih = Cons.IH [OF this]
  have s: "least_step st x l = Some k \<Longrightarrow> k = x \<or> l = Some k" for k by (simp add: least_step_def split: if_splits)
  have n: "least_step st x l = None \<longleftrightarrow> l = None \<and> busy (cache st x)" by (cases l) (simp_all add: least_step_def)
  have f: "fold (least_step st) (x # xs) l = fold (least_step st) xs (least_step st x l)" by simp
  show ?case
  proof (intro conjI allI impI)
    fix k assume k: "fold (least_step st) (x # xs) l = Some k"
    then show "\<not> busy (cache st k)" using ih f by metis
    show "k \<in> set (x # xs) \<or> l = Some k" using ih s k f by (metis list.set_intros)
  next
    show "fold (least_step st) (x # xs) l = None \<longleftrightarrow> l = None \<and> (\<forall>x \<in> set (x # xs). busy (cache st x))"
      using ih n f by (metis set_ConsD list.set_intros)
  qed
qed simp

text \<open>What a successful \<open>getblk\<close> gives.\<close>

definition got :: "mkfs \<Rightarrow> nat \<Rightarrow> bool \<Rightarrow> nat \<Rightarrow> mkfs \<Rightarrow> bool" where
  "got st n clr i st' \<longleftrightarrow>
     i < NCACHE \<and> cache_ok st' \<and> bno (cache st' i) = n \<and> i \<notin> busy_set st \<and> busy_set st' = insert i (busy_set st)
     \<and> (\<forall>b. b \<noteq> 0 \<longrightarrow> view st' b = (if clr \<and> b = n then (\<lambda>_. 0) else view st b))
     \<and> (\<forall>j \<in> busy_set st. cache st' j = cache st j)
     \<and> nblock st' = nblock st \<and> nbitblock st' = nbitblock st \<and> nextb st' = nextb st \<and> sup st' = sup st"

text \<open>The part of \<open>getblk\<close> after the label \<open>out\<close>.\<close>

definition claim :: "bool \<Rightarrow> nat \<Rightarrow> mkfs \<Rightarrow> mkfs" where
  "claim clr i st =
     upd_blk i (\<lambda>b. b\<lparr>buf := (if clr then (\<lambda>_. 0) else buf b), used := tick st + 1, busy := True\<rparr>) (st\<lparr>tick := tick st + 1\<rparr>)"

lemma claim_got:
  assumes ok: "cache_uniq st" "\<forall>j < NCACHE. j \<noteq> i \<longrightarrow> bno (cache st j) \<noteq> 0 \<longrightarrow> used (cache st j) \<noteq> 0"
    and i: "i < NCACHE" "bno (cache st i) = n" "n \<noteq> 0" "\<not> busy (cache st i)"
  shows "got st n clr i (claim clr i st)"
proof -
  let ?t = "claim clr i st"
  have ok': "cache_ok ?t" using ok by (auto simp: cache_ok_def cache_uniq_def claim_def)
  have "view ?t b = (if clr \<and> b = n then (\<lambda>_. 0) else view st b)" if "b \<noteq> 0" for b
  proof -
    define u where "u = upd_blk i (buf_update (\<lambda>m. if clr then (\<lambda>_. 0) else m)) st"
    have "view ?t b = view u b" by (rule view_same) (auto simp: claim_def u_def upd_blk_def)
    then show ?thesis using view_upd_buf [OF ok(1) i(1) _ that, of "\<lambda>m. if clr then (\<lambda>_. 0) else m"] i by (auto simp: u_def)
  qed
  then show ?thesis using ok' i by (auto simp: got_def busy_set_def claim_def)
qed

definition evicted :: "nat \<Rightarrow> nat \<Rightarrow> btype \<Rightarrow> mkfs \<Rightarrow> mkfs" where
  "evicted l n typ st = upd_blk l (\<lambda>b. b\<lparr>buf := disk_img (flushb l st) n, bno := n, btyp := typ\<rparr>) (flushb l st)"

lemma evicted_view:
  assumes ok: "cache_uniq st" and l: "l < NCACHE" and n: "\<forall>i < NCACHE. bno (cache st i) \<noteq> n" "n \<noteq> 0"
  shows "cache_uniq (evicted l n ty st)" "b \<noteq> 0 \<Longrightarrow> view (evicted l n ty st) b = view st b"
proof -
  let ?t = "evicted l n ty st"
  have c: "bno (cache ?t j) = (if j = l then n else bno (cache st j))"
    "buf (cache ?t j) = (if j = l then disk_img (flushb l st) n else buf (cache st j))" for j
    by (simp_all add: evicted_def flushb_eq)
  have d: "disk_img ?t = (disk_img st)(bno (cache st l) := buf (cache st l))" by (simp add: evicted_def flushb_eq)
  have dn: "disk_img (flushb l st) n = disk_img st n" using n(1) l by (auto simp: flushb_eq)
  show u: "cache_uniq ?t" using ok n unfolding c cache_uniq_def by metis
  assume b: "b \<noteq> 0"
  show "view ?t b = view st b"
  proof (cases "b = n")
    case True
    then show ?thesis using view_cached(1) [OF u l _ b] c dn n(1) view_disk [of st n] by auto
  next
    case False
    show ?thesis
    proof (cases "\<exists>j < NCACHE. j \<noteq> l \<and> bno (cache st j) = b")
      case True
      then obtain j where j: "j < NCACHE" "j \<noteq> l" "bno (cache st j) = b" by blast
      then show ?thesis using view_cached(1) [OF u j(1) _ b] view_cached(1) [OF ok j(1,3) b] c by simp
    next
      case no: False
      then have "view ?t b = disk_img ?t b" using False c by (intro view_disk) auto
      also have "\<dots> = view st b"
      proof (cases "bno (cache st l) = b")
        case True
        then show ?thesis using d view_cached(1) [OF ok l True b] by simp
      next
        case nl: False
        then have "view st b = disk_img st b" using no by (intro view_disk) metis
        then show ?thesis using nl d by simp
      qed
      finally show ?thesis .
    qed
  qed
qed

lemma getblk_out:
  "getblk n clr ty st = (if n \<ge> nblock st then None
      else
        do {
          (i, st1) \<leftarrow>
            (case find (\<lambda>i. bno (cache st i) = n) [0..<NCACHE] of
               Some i \<Rightarrow> Some (i, st)
             | None \<Rightarrow> do { l \<leftarrow> fold (least_step st) [0..<NCACHE] None; Some (l, evicted l n ty st) });
          if busy (cache st1 i) then None else Some (i, claim clr i st1)
        })"
proof -
  have tail: "(let st2 = (if clr then upd_blk i (\<lambda>b. b\<lparr>buf := (\<lambda>_. 0)\<rparr>) st1 else st1);
          st3 = upd_blk i (\<lambda>b. b\<lparr>used := tick st2 + 1\<rparr>) (st2\<lparr>tick := tick st2 + 1\<rparr>)
      in if busy (cache st3 i) then None else Some (i, upd_blk i (\<lambda>b. b\<lparr>busy := True\<rparr>) st3))
    = (if busy (cache st1 i) then None else Some (i, claim clr i st1))" for i st1
    by (simp add: claim_def upd_blk_def fun_eq_iff Let_def)
  show ?thesis unfolding getblk_def evicted_def Let_def tail [unfolded Let_def] ..
qed

text \<open>A block that is not in use can be had as long as an entry is free.\<close>

lemma getblk_ok:
  assumes ok: "cache_ok st" and n: "n \<noteq> 0" "n < nblock st" "\<forall>i \<in> busy_set st. bno (cache st i) \<noteq> n"
    and free: "card (busy_set st) < NCACHE"
  shows "\<exists>i st'. getblk n clr ty st = Some (i, st') \<and> got st n clr i st'"
proof (cases "find (\<lambda>i. bno (cache st i) = n) [0..<NCACHE]")
  case (Some i)
  then have i: "i < NCACHE" "bno (cache st i) = n" using find_lt_Some by auto
  then have nb: "\<not> busy (cache st i)" using n(3) by (auto simp: busy_set_def)
  have "got st n clr i (claim clr i st)"
    using ok i n(1) nb by (intro claim_got) (auto simp: cache_ok_def)
  then show ?thesis using Some n(2) nb by (auto simp: getblk_out)
next
  case None
  then have no: "\<forall>i < NCACHE. bno (cache st i) \<noteq> n" by (simp add: find_lt_None)
  have "busy_set st \<noteq> {0..<NCACHE}" using free by (metis card_atLeastLessThan diff_zero less_irrefl)
  then have "\<exists>x \<in> set [0..<NCACHE]. \<not> busy (cache st x)" by (auto simp: busy_set_def)
  then obtain l where l: "fold (least_step st) [0..<NCACHE] None = Some l" "\<not> busy (cache st l)" "l < NCACHE"
    using fold_least [of None st "[0..<NCACHE]"] by (cases "fold (least_step st) [0..<NCACHE] None") auto
  note e = evicted_view [where st = st and ty = ty, OF _ l(3) no n(1)]
  have ok0: "cache_uniq st" "\<forall>j < NCACHE. bno (cache st j) \<noteq> 0 \<longrightarrow> used (cache st j) \<noteq> 0" using ok by (auto simp: cache_ok_def)
  have c: "j \<noteq> l \<Longrightarrow> cache (evicted l n ty st) j = cache st j" "bno (cache (evicted l n ty st) l) = n"
    "busy (cache (evicted l n ty st) l) = busy (cache st l)" for j
    by (simp_all add: evicted_def flushb_eq)
  have "got (evicted l n ty st) n clr l (claim clr l (evicted l n ty st))"
    using e(1) [OF ok0(1)] ok0(2) c l n(1) by (intro claim_got) auto
  then have "got st n clr l (claim clr l (evicted l n ty st))"
    unfolding got_def using e(2) [OF ok0(1)] c l by (auto simp: busy_set_def evicted_def flushb_eq)
  then show ?thesis using None n(2) l c by (auto simp: getblk_out)
qed

end
