(* ===== verification/Mkfs_File.thy ===== *)
theory Mkfs_File
  imports Mkfs_Cache
begin

text \<open>
  Writing one file into the image: the loop over its blocks as updates of the view, and what is
  then stored under its directory entry.
\<close>

unbundle bit_operations_syntax

section \<open>Reading the file\<close>

text \<open>
  \<open>left h\<close> is what a handle still has to give. A \<open>read\<close> of the host gives at least one byte of it
  and at most as many as were asked for.
\<close>

definition reads_ok :: "'h reader \<Rightarrow> ('h \<Rightarrow> u8 list) \<Rightarrow> bool" where
  "reads_ok hr left \<longleftrightarrow>
     (\<forall>h n. 0 < n \<longrightarrow> (case hr h n of ((m, bs), h') \<Rightarrow>
        m = int (length bs) \<and> length bs \<le> n \<and> bs = take (length bs) (left h) \<and> (left h \<noteq> [] \<longrightarrow> bs \<noteq> [])
        \<and> left h' = drop (length bs) (left h)))"

declare readn_loop.simps [simp del] write_blocks.simps [simp del]

lemma readn_loop_ok:
  assumes "reads_ok hr left" "length a \<le> n"
  shows "\<exists>h'. readn_loop hr h n a = ((int (length (a @ take (n - length a) (left h))), a @ take (n - length a) (left h)), h')
    \<and> left h' = drop (n - length a) (left h)"
  using assms
proof (induction hr h n a rule: readn_loop.induct)
  case (1 hr h n a)
  show ?case
  proof (cases "length a < n")
    case False
    then show ?thesis using 1 by (subst readn_loop.simps) simp
  next
    case True
    obtain m bs h1 where r: "hr h (n - length a) = ((m, bs), h1)" by (metis surj_pair)
    then have f: "m = int (length bs)" "length bs \<le> n - length a" "bs = take (length bs) (left h)"
        "left h \<noteq> [] \<longrightarrow> bs \<noteq> []" "left h1 = drop (length bs) (left h)"
      using 1(2) True by (auto simp: reads_ok_def dest!: spec [of _ h] spec [of _ "n - length a"])
    show ?thesis
    proof (cases "bs = []")
      case e: True
      then show ?thesis using True r f by (subst readn_loop.simps) auto
    next
      case False
      have "\<exists>h'. readn_loop hr h1 n (a @ bs) = ((int (length ((a @ bs) @ take (n - length (a @ bs)) (left h1))),
          (a @ bs) @ take (n - length (a @ bs)) (left h1)), h') \<and> left h' = drop (n - length (a @ bs)) (left h1)"
        using True r f False 1(2) by (intro 1(1) [OF True]) auto
      moreover have "take (n - length a) (left h) = bs @ take (n - length (a @ bs)) (left h1)"
      proof -
        have "n - length a = length bs + (n - length (a @ bs))" using f(2) True by simp
        then have "take (n - length a) (left h) = take (length bs) (left h) @ take (n - length (a @ bs)) (drop (length bs) (left h))"
          by (simp only: take_add)
        then show ?thesis by (simp only: f(5) f(3) [symmetric])
      qed
      moreover have "drop (n - length (a @ bs)) (left h1) = drop (n - length a) (left h)"
      proof -
        have "n - length (a @ bs) + length bs = n - length a" using f(2) True by simp
        then show ?thesis by (simp only: f(5) drop_drop)
      qed
      ultimately show ?thesis using True r f(1) False by (subst readn_loop.simps) auto
    qed
  qed
qed

lemma readn_ok:
  assumes "reads_ok hr left"
  shows "\<exists>h'. readn hr h n = ((int (length (take n (left h))), take n (left h)), h') \<and> left h' = drop n (left h)"
  using readn_loop_ok [OF assms, of "[]" n h] by (simp add: readn_def)

section \<open>Changing buffers\<close>

lemma edit_facts:
  assumes "cache_ok st" "i < NCACHE" "bno (cache st i) = n" "n \<noteq> 0"
  shows "cache_ok (upd_blk i (buf_update g) st)" "busy_set (upd_blk i (buf_update g) st) = busy_set st"
    "b \<noteq> 0 \<Longrightarrow> view (upd_blk i (buf_update g) st) b = (if b = n then g (view st n) else view st b)"
    "bno (cache (upd_blk i (buf_update g) st) j) = bno (cache st j)"
proof -
  have "cache_ok (upd_blk i (buf_update g) st) = cache_ok st" by (rule cache_ok_same) simp_all
  then show "cache_ok (upd_blk i (buf_update g) st)" using assms(1) by simp
  show "busy_set (upd_blk i (buf_update g) st) = busy_set st" by (rule busy_set_same) simp
  show "bno (cache (upd_blk i (buf_update g) st) j) = bno (cache st j)" by simp
  show "b \<noteq> 0 \<Longrightarrow> view (upd_blk i (buf_update g) st) b = (if b = n then g (view st n) else view st b)"
    using view_upd_buf [of st i b g] assms by (auto simp: cache_ok_def)
qed

lemma putblk_facts:
  "cache_ok (putblk i st) = cache_ok st" "busy_set (putblk i st) = busy_set st - {i}" "view (putblk i st) b = view st b"
  "cache (putblk i st) j = (if j = i then (cache st i)\<lparr>busy := False\<rparr> else cache st j)"
  "nextb (putblk i st) = nextb st" "nblock (putblk i st) = nblock st" "nbitblock (putblk i st) = nbitblock st" "sup (putblk i st) = sup st"
proof -
  show "view (putblk i st) b = view st b" by (rule view_same) (simp_all add: putblk_def)
  show "cache_ok (putblk i st) = cache_ok st" by (rule cache_ok_same) (simp_all add: putblk_def)
  show "busy_set (putblk i st) = busy_set st - {i}" by (auto simp: busy_set_def putblk_def split: if_splits)
qed (simp_all add: putblk_def)

lemma nextb_facts:
  "cache_ok (st\<lparr>nextb := k\<rparr>) = cache_ok st" "busy_set (st\<lparr>nextb := k\<rparr>) = busy_set st" "view (st\<lparr>nextb := k\<rparr>) b = view st b"
proof -
  show "cache_ok (st\<lparr>nextb := k\<rparr>) = cache_ok st" by (rule cache_ok_same) simp_all
  show "busy_set (st\<lparr>nextb := k\<rparr>) = busy_set st" by (rule busy_set_same) simp
  show "view (st\<lparr>nextb := k\<rparr>) b = view st b" by (rule view_same) simp_all
qed

section \<open>One block\<close>

text \<open>
  Writing a file in the directory block \<open>D\<close>, which is in buffer \<open>d\<close>; blocks from \<open>lo\<close> on are
  taken for the file, and the buffers in use hold older ones.
\<close>

definition writing :: "mkfs \<Rightarrow> nat \<Rightarrow> nat \<Rightarrow> nat \<Rightarrow> bool" where
  "writing st d D lo \<longleftrightarrow>
     cache_ok st \<and> d \<in> busy_set st \<and> bno (cache st d) = D \<and> D \<noteq> 0 \<and> D < lo \<and> lo \<le> nextb st
     \<and> (\<forall>i \<in> busy_set st. bno (cache st i) < lo) \<and> card (busy_set st) + 2 \<le> NCACHE \<and> nblock st < 2 ^ 32"

text \<open>What stays the same: the buffers in use, and the parameters.\<close>

definition kept :: "mkfs \<Rightarrow> mkfs \<Rightarrow> nat \<Rightarrow> bool" where
  "kept st st' d \<longleftrightarrow>
     cache_ok st' \<and> busy_set st' = busy_set st \<and> (\<forall>j \<in> busy_set st. j \<noteq> d \<longrightarrow> cache st' j = cache st j)
     \<and> bno (cache st' d) = bno (cache st d)
     \<and> nblock st' = nblock st \<and> nbitblock st' = nbitblock st \<and> sup st' = sup st"

lemma kept_both: "kept a b d \<Longrightarrow> kept b c d \<Longrightarrow> kept a c d"
  by (simp add: kept_def)

lemma writing_kept: "writing st d D lo \<Longrightarrow> kept st st' d \<Longrightarrow> nextb st \<le> nextb st' \<Longrightarrow> writing st' d D lo"
  unfolding writing_def kept_def by simp metis

text \<open>The view after a block was written: in the entry, in a new indirect block, or in the old one.\<close>

definition block_stored :: "(nat \<Rightarrow> nat \<Rightarrow> u32) \<Rightarrow> nat \<Rightarrow> nat \<Rightarrow> nat \<Rightarrow> nat \<Rightarrow> (nat \<Rightarrow> u32) \<Rightarrow> nat \<Rightarrow> nat \<Rightarrow> u32" where
  "block_stored v D f nblk n data =
     (let v1 = v(n := data) in
      if nblk < NDIRECT then v1(D := (v D)(f + off_direct + nblk := of_nat n))
      else if v D (f + off_indirect) = 0
      then v1(D := (v D)(f + off_indirect := of_nat (n + 1)), n + 1 := (\<lambda>_. 0)(nblk := of_nat n))
      else (let i = unat (v D (f + off_indirect)) in v1(i := (v i)(nblk := of_nat n))))"

text \<open>The body of the loop, up to the block that was read. Two buffers are in use.\<close>

definition two_busy :: "mkfs \<Rightarrow> nat \<Rightarrow> nat \<Rightarrow> nat \<Rightarrow> bool" where
  "two_busy st d b D \<longleftrightarrow>
     cache_ok st \<and> d \<in> busy_set st \<and> b \<in> busy_set st \<and> b \<noteq> d \<and> bno (cache st d) = D \<and> D \<noteq> 0 \<and> D < nextb st
     \<and> (\<forall>i \<in> busy_set st. bno (cache st i) < nextb st) \<and> card (busy_set st) < NCACHE"

lemma store_direct:
  assumes w: "two_busy st d b D" and n: "nblk < NDIRECT"
  shows "\<exists>st'. store_block d f nblk b st = Some st' \<and> kept st st' d \<and> nextb st' = nextb st
    \<and> (\<forall>x. x \<noteq> 0 \<longrightarrow> view st' x = (if x = D then (view st D)(f + off_direct + nblk := of_nat (bno (cache st b))) else view st x))"
proof -
  have d: "cache_ok st" "d < NCACHE" "bno (cache st d) = D" "D \<noteq> 0" using w by (auto simp: two_busy_def busy_set_def)
  note e = edit_facts [OF d, where g = "\<lambda>m. m(f + off_direct + nblk := of_nat (bno (cache st b)))"]
  show ?thesis using n e d by (simp add: store_block_def store_def kept_def fun_upd_def)
qed

lemma store_indirect_new:
  assumes w: "two_busy st d b D" and n: "\<not> nblk < NDIRECT" "nblk < NINDIRECT" "nextb st < nblock st"
    and z: "view st D (f + off_indirect) = 0"
  shows "\<exists>st'. store_block d f nblk b st = Some st' \<and> kept st st' d \<and> nextb st' = nextb st + 1
    \<and> (\<forall>x. x \<noteq> 0 \<longrightarrow> view st' x = (if x = D then (view st D)(f + off_indirect := of_nat (nextb st))
         else if x = nextb st then (\<lambda>_. 0)(nblk := of_nat (bno (cache st b))) else view st x))"
proof -
  define m where "m = nextb st"
  have d: "cache_ok st" "d < NCACHE" "bno (cache st d) = D" "D \<noteq> 0" "D < m" "d \<in> busy_set st"
    using w by (auto simp: two_busy_def busy_set_def m_def)
  have bd: "buf (cache st d) = view st D" using view_cached(1) [of st d D] d by (simp add: cache_ok_def)
  let ?s = "st\<lparr>nextb := m + 1\<rparr>"
  have m: "m \<noteq> 0" "m < nblock st" "\<forall>i \<in> busy_set st. bno (cache st i) \<noteq> m" using d n w by (auto simp: m_def two_busy_def)
  then obtain ib s1 where g: "getblk m True BLOCK_BITS ?s = Some (ib, s1)" "got ?s m True ib s1"
    using getblk_ok [where st = ?s and n = m and clr = True and ty = BLOCK_BITS] d w nextb_facts [where st = st and k = "m + 1"]
    by (auto simp: two_busy_def)
  have s1: "cache_ok s1" "ib < NCACHE" "bno (cache s1 ib) = m" "busy_set s1 = insert ib (busy_set st)" "ib \<notin> busy_set st"
      "\<forall>j \<in> busy_set st. cache s1 j = cache st j" "nextb s1 = m + 1" "nblock s1 = nblock st" "nbitblock s1 = nbitblock st"
      "sup s1 = sup st" "\<forall>x. x \<noteq> 0 \<longrightarrow> view s1 x = (if x = m then (\<lambda>_. 0) else view st x)"
    using g(2) nextb_facts [where st = st and k = "m + 1"] by (simp_all add: got_def)
  have d1: "d < NCACHE" "bno (cache s1 d) = D" "ib \<noteq> d" "cache s1 d = cache st d" using s1 d by auto
  define s2 where "s2 = upd_blk d (buf_update (\<lambda>k. k(f + off_indirect := of_nat m))) s1"
  note e2 = edit_facts [OF s1(1) d1(1,2) d(4), where g = "\<lambda>k. k(f + off_indirect := of_nat m)", folded s2_def]
  have cb: "bno (cache s2 b) = bno (cache st b)" using s1(6) w e2(4) by (simp add: two_busy_def)
  have ib2: "bno (cache s2 ib) = m" using e2(4) s1(3) by simp
  define s3 where "s3 = upd_blk ib (buf_update (\<lambda>k. k(nblk := of_nat (bno (cache st b))))) s2"
  note e3 = edit_facts [OF e2(1) s1(2) ib2 m(1), where g = "\<lambda>k. k(nblk := of_nat (bno (cache st b)))", folded s3_def]
  have run: "store_block d f nblk b st = Some (putblk ib s3)"
    using n z bd g(1) s1(3) cb by (simp add: store_block_def m_def [symmetric] store_def s2_def [symmetric] s3_def)
  have "cache s3 j = cache st j" if "j \<in> busy_set st" "j \<noteq> d" for j
    using that s1(5,6) by (auto simp: s3_def s2_def)
  moreover have "bno (cache s3 d) = D" using e3(4) e2(4) d1(2) by simp
  ultimately have "kept st (putblk ib s3) d"
    using e2 e3 s1 d by (auto simp: kept_def putblk_facts) (auto simp: s3_def s2_def)
  moreover have "nextb (putblk ib s3) = m + 1" using s1(7) by (simp add: putblk_facts s3_def s2_def)
  ultimately show ?thesis
    using run e2(3) e3(3) s1(11) d(5) by (intro exI [of _ "putblk ib s3"]) (simp add: putblk_facts m_def [symmetric])
qed

lemma store_indirect_old:
  assumes w: "two_busy st d b D" and n: "\<not> nblk < NDIRECT" "nblk < NINDIRECT"
    and i: "view st D (f + off_indirect) \<noteq> 0" "i = unat (view st D (f + off_indirect))" "i < nblock st"
      "\<forall>j \<in> busy_set st. bno (cache st j) \<noteq> i"
  shows "\<exists>st'. store_block d f nblk b st = Some st' \<and> kept st st' d \<and> nextb st' = nextb st
    \<and> (\<forall>x. x \<noteq> 0 \<longrightarrow> view st' x = (if x = i then (view st i)(nblk := of_nat (bno (cache st b))) else view st x))"
proof -
  have d: "cache_ok st" "d < NCACHE" "bno (cache st d) = D" "D \<noteq> 0" "d \<in> busy_set st"
    using w by (auto simp: two_busy_def busy_set_def)
  have bd: "buf (cache st d) = view st D" using view_cached(1) [of st d D] d by (simp add: cache_ok_def)
  have i0: "i \<noteq> 0" using i(1,2) by (simp add: unat_eq_0)
  then obtain ib s1 where g: "getblk i False BLOCK_BITS st = Some (ib, s1)" "got st i False ib s1"
    using getblk_ok [OF d(1) i0 i(3,4), where clr = False and ty = BLOCK_BITS] w by (auto simp: two_busy_def)
  have s1: "cache_ok s1" "ib < NCACHE" "bno (cache s1 ib) = i" "busy_set s1 = insert ib (busy_set st)" "ib \<notin> busy_set st"
      "\<forall>j \<in> busy_set st. cache s1 j = cache st j" "nextb s1 = nextb st" "nblock s1 = nblock st" "nbitblock s1 = nbitblock st"
      "sup s1 = sup st" "\<forall>x. x \<noteq> 0 \<longrightarrow> view s1 x = view st x"
    using g(2) by (simp_all add: got_def)
  have cb: "bno (cache s1 b) = bno (cache st b)" using s1(6) w by (simp add: two_busy_def)
  define s3 where "s3 = upd_blk ib (buf_update (\<lambda>k. k(nblk := of_nat (bno (cache st b))))) s1"
  note e3 = edit_facts [OF s1(1-3) i0, where g = "\<lambda>k. k(nblk := of_nat (bno (cache st b)))", folded s3_def]
  have run: "store_block d f nblk b st = Some (putblk ib s3)"
    using n i bd g(1) cb by (simp add: store_block_def store_def s3_def)
  have c3: "cache s3 j = cache st j" if "j \<in> busy_set st" for j using that s1(5,6) by (auto simp: s3_def)
  then have "kept st (putblk ib s3) d"
    using e3 s1 d by (auto simp: kept_def putblk_facts) (auto simp: s3_def)
  moreover have "nextb (putblk ib s3) = nextb st" using s1(7) by (simp add: putblk_facts s3_def)
  ultimately show ?thesis
    using run e3(3) s1(11) i0 by (intro exI [of _ "putblk ib s3"]) (simp add: putblk_facts)
qed

lemma body_ok:
  assumes w: "writing st d D lo" and room: "nextb st + 1 < nblock st" and n: "nblk < NINDIRECT"
    and ind: "\<not> nblk < NDIRECT \<Longrightarrow> view st D (f + off_indirect) = 0
      \<or> lo \<le> unat (view st D (f + off_indirect)) \<and> unat (view st D (f + off_indirect)) < nextb st"
  shows "\<exists>b st1 st3. getblk (nextb st) True BLOCK_FILE st = Some (b, st1)
    \<and> store_block d f nblk b ((upd_blk b (\<lambda>x. x\<lparr>buf := put_bytes (buf x) 0 bs\<rparr>) st1)\<lparr>nextb := nextb st1 + 1\<rparr>) = Some st3
    \<and> kept st (putblk b st3) d
    \<and> nextb (putblk b st3) = nextb st + (if \<not> nblk < NDIRECT \<and> view st D (f + off_indirect) = 0 then 2 else 1)
    \<and> (\<forall>x. x \<noteq> 0 \<longrightarrow> view (putblk b st3) x = block_stored (view st) D f nblk (nextb st) (put_bytes (\<lambda>_. 0) 0 bs) x)"
proof -
  define m where "m = nextb st"
  have d: "cache_ok st" "d \<in> busy_set st" "bno (cache st d) = D" "D \<noteq> 0" "D < lo" "lo \<le> m"
      "\<forall>i \<in> busy_set st. bno (cache st i) < lo" "card (busy_set st) + 2 \<le> NCACHE"
    using w by (auto simp: writing_def m_def)
  have m: "m \<noteq> 0" "m < nblock st" "\<forall>i \<in> busy_set st. bno (cache st i) \<noteq> m" using d room by (auto simp: m_def)
  then obtain b st1 where g: "getblk m True BLOCK_FILE st = Some (b, st1)" "got st m True b st1"
    using getblk_ok [OF d(1) m, where clr = True and ty = BLOCK_FILE] d(8) by auto
  have s1: "cache_ok st1" "b < NCACHE" "bno (cache st1 b) = m" "busy_set st1 = insert b (busy_set st)" "b \<notin> busy_set st"
      "\<forall>j \<in> busy_set st. cache st1 j = cache st j" "nextb st1 = m" "nblock st1 = nblock st" "nbitblock st1 = nbitblock st"
      "sup st1 = sup st" "\<forall>x. x \<noteq> 0 \<longrightarrow> view st1 x = (if x = m then (\<lambda>_. 0) else view st x)"
    using g(2) by (simp_all add: got_def m_def)
  define u where "u = upd_blk b (buf_update (\<lambda>k. put_bytes k 0 bs)) st1"
  note e = edit_facts [OF s1(1-3) m(1), where g = "\<lambda>k. put_bytes k 0 bs", folded u_def]
  define st2 where "st2 = u\<lparr>nextb := m + 1\<rparr>"
  note e2 = nextb_facts [where st = u and k = "m + 1", folded st2_def]
  have f2: "nblock st2 = nblock st" "nbitblock st2 = nbitblock st" "sup st2 = sup st" "nextb st2 = m + 1"
    "\<And>j. bno (cache st2 j) = bno (cache st1 j)" "\<And>j. j \<in> busy_set st \<Longrightarrow> cache st2 j = cache st j"
    using s1 by (auto simp: st2_def u_def)
  have v2: "view st2 x = ((view st)(m := put_bytes (\<lambda>_. 0) 0 bs)) x" if "x \<noteq> 0" for x
    using that e(3) e2(3) s1(11) m(1) by simp
  have busy2: "busy_set st2 = insert b (busy_set st)" using e(2) e2(2) s1(4) by simp
  have bd: "b \<noteq> d" using s1(5) d(2) by auto
  have fin: "finite (busy_set st)" by (simp add: busy_set_def)
  have lt: "bno (cache st2 i) < m + 1" if "i \<in> busy_set st2" for i
  proof (cases "i = b")
    case True
    then show ?thesis using f2(5) s1(3) by simp
  next
    case False
    then have "i \<in> busy_set st" using that busy2 by simp
    then show ?thesis using f2(6) d(6,7) by fastforce
  qed
  have "bno (cache st2 d) = D" "card (busy_set st2) < NCACHE" using f2(6) [OF d(2)] d(3,8) s1(5) fin by (simp_all add: busy2)
  then have two: "two_busy st2 d b D"
    using e(1) e2(1) busy2 lt d(2,4,5,6) bd f2(4) by (simp add: two_busy_def)
  have Dm: "D \<noteq> m" using d by simp
  have vD: "view st2 D = view st D" using v2 [OF d(4)] Dm by simp
  have k: "kept st (putblk b st3) d" if "kept st2 st3 d" for st3
    using that busy2 f2 s1(5,6) d(2) bd by (auto simp: kept_def putblk_facts)
  have cb: "bno (cache st2 b) = m" using f2(5) s1(3) by simp
  consider (dir) "nblk < NDIRECT" | (new) "\<not> nblk < NDIRECT" "view st D (f + off_indirect) = 0"
    | (old) "\<not> nblk < NDIRECT" "view st D (f + off_indirect) \<noteq> 0" by blast
  then have "\<exists>st3. store_block d f nblk b st2 = Some st3 \<and> kept st2 st3 d
    \<and> nextb st3 = m + (if \<not> nblk < NDIRECT \<and> view st D (f + off_indirect) = 0 then 2 else 1)
    \<and> (\<forall>x. x \<noteq> 0 \<longrightarrow> view st3 x = block_stored (view st) D f nblk m (put_bytes (\<lambda>_. 0) 0 bs) x)"
  proof cases
    case dir
    from store_direct [OF two dir, of f] show ?thesis using dir v2 vD Dm cb f2(4) d(4)
      by (auto simp: block_stored_def Let_def)
  next
    case new
    have "nextb st2 < nblock st2" using room f2 by (simp add: m_def)
    from store_indirect_new [OF two new(1) n this, of f] new(2) show ?thesis using new(1) v2 vD Dm cb f2(4) d(4,5,6)
      by (auto simp: block_stored_def Let_def)
  next
    case old
    define i where "i = unat (view st D (f + off_indirect))"
    have i: "lo \<le> i" "i < m" "i \<noteq> 0" using ind old by (auto simp: i_def m_def unat_eq_0)
    have nd: "bno (cache st2 j) < lo" if "j \<in> busy_set st" for j using f2(6) [OF that] d(7) that by simp
    have "\<forall>j \<in> busy_set st2. bno (cache st2 j) \<noteq> i" unfolding busy2 using nd i cb by fastforce
    moreover have "i < nblock st2" using i m(2) f2(1) by simp
    ultimately have ib: "i < nblock st2" "\<forall>j \<in> busy_set st2. bno (cache st2 j) \<noteq> i" by simp_all
    from store_indirect_old [OF two old(1) n, of f i] ib old(2) show ?thesis using old i v2 vD Dm cb f2(4) d(4,5,6)
      by (auto simp: block_stored_def Let_def i_def)
  qed
  then obtain st3 where r: "store_block d f nblk b st2 = Some st3" "kept st2 st3 d"
    "nextb st3 = m + (if \<not> nblk < NDIRECT \<and> view st D (f + off_indirect) = 0 then 2 else 1)"
    "\<forall>x. x \<noteq> 0 \<longrightarrow> view st3 x = block_stored (view st) D f nblk m (put_bytes (\<lambda>_. 0) 0 bs) x" by blast
  have u2: "(upd_blk b (\<lambda>x. x\<lparr>buf := put_bytes (buf x) 0 bs\<rparr>) st1)\<lparr>nextb := nextb st1 + 1\<rparr> = st2"
    using s1(7) by (cases "cache st1 b") (simp add: st2_def u_def upd_blk_def)
  have "nextb (putblk b st3) = m + (if \<not> nblk < NDIRECT \<and> view st D (f + off_indirect) = 0 then 2 else 1)"
    by (simp only: putblk_facts r(3))
  moreover have "\<forall>x. x \<noteq> 0 \<longrightarrow> view (putblk b st3) x = block_stored (view st) D f nblk m (put_bytes (\<lambda>_. 0) 0 bs) x"
    using r(4) by (simp only: putblk_facts)
  ultimately show ?thesis
    unfolding m_def [symmetric] using g(1) k [OF r(2)] r(1)
    by (intro exI [of _ b] exI [of _ st1] exI [of _ st3] conjI) (simp_all only: u2)
qed

end
