(* ===== verification/Mkfs_Write.thy ===== *)
theory Mkfs_Write
  imports Mkfs_File
begin

text \<open>
  The loop of \<open>writefile\<close> over the blocks of a file: it stores them all, and nothing else changes.
\<close>

unbundle bit_operations_syntax

section \<open>A file in the image\<close>

text \<open>The number of the block that an entry names for block \<open>i\<close> of its file.\<close>

definition block_ptr :: "(nat \<Rightarrow> nat \<Rightarrow> u32) \<Rightarrow> nat \<Rightarrow> nat \<Rightarrow> nat \<Rightarrow> nat" where
  "block_ptr v D f i =
     (if i < NDIRECT then unat (v D (f + off_direct + i)) else unat (v (unat (v D (f + off_indirect))) i))"

definition block_data :: "u8 list \<Rightarrow> nat \<Rightarrow> nat \<Rightarrow> u32" where
  "block_data bs i = put_bytes (\<lambda>_. 0) 0 (take 4096 (drop (4096 * i) bs))"

text \<open>The first \<open>n\<close> blocks of \<open>bs\<close> are stored, in blocks from \<open>lo\<close> on and below \<open>hi\<close>.\<close>

definition placed :: "(nat \<Rightarrow> nat \<Rightarrow> u32) \<Rightarrow> nat \<Rightarrow> nat \<Rightarrow> nat \<Rightarrow> nat \<Rightarrow> u8 list \<Rightarrow> nat \<Rightarrow> bool" where
  "placed v D f lo hi bs n \<longleftrightarrow>
     (\<forall>i < n. lo \<le> block_ptr v D f i \<and> block_ptr v D f i < hi \<and> v (block_ptr v D f i) = block_data bs i)
     \<and> (if v D (f + off_indirect) = 0 then n \<le> NDIRECT
        else lo \<le> unat (v D (f + off_indirect)) \<and> unat (v D (f + off_indirect)) < hi
          \<and> (\<forall>i < n. block_ptr v D f i \<noteq> unat (v D (f + off_indirect))))"

lemma placed_none: "v D (f + off_indirect) = 0 \<Longrightarrow> placed v D f lo hi bs 0"
  by (simp add: placed_def)

lemma placed_cong:
  assumes p: "placed v D f lo hi bs n"
    and k: "\<And>k. f + off_direct \<le> k \<Longrightarrow> k \<le> f + off_indirect \<Longrightarrow> v' D k = v D k"
    and e: "\<And>b. lo \<le> b \<Longrightarrow> b < hi \<Longrightarrow> v' b = v b" and h: "hi \<le> hi'"
  shows "placed v' D f lo hi' bs n"
proof -
  have ind: "v' D (f + off_indirect) = v D (f + off_indirect)" by (rule k) (simp_all add: off_direct_def off_indirect_def)
  have dir: "v' D (f + off_direct + i) = v D (f + off_direct + i)" if "i < NDIRECT" for i
    using that by (intro k) (simp_all add: off_direct_def off_indirect_def NDIRECT_def)
  have ptr: "block_ptr v' D f i = block_ptr v D f i" if "i < n" for i
  proof (cases "i < NDIRECT")
    case True
    then show ?thesis by (simp add: block_ptr_def dir)
  next
    case False
    then have "v D (f + off_indirect) \<noteq> 0" using p that by (auto simp: placed_def split: if_splits)
    then have "v' (unat (v D (f + off_indirect))) = v (unat (v D (f + off_indirect)))"
      using p by (intro e) (simp_all add: placed_def)
    then show ?thesis using False by (simp add: block_ptr_def ind)
  qed
  have "lo \<le> block_ptr v D f i \<and> block_ptr v D f i < hi' \<and> v' (block_ptr v D f i) = block_data bs i" if "i < n" for i
    using p e [of "block_ptr v D f i"] that h by (fastforce simp: placed_def)
  then show ?thesis using p ptr h unfolding placed_def ind by auto
qed

lemma block_stored_same:
  assumes "x \<noteq> D" "x < m" "v D (f + off_indirect) \<noteq> 0 \<longrightarrow> x \<noteq> unat (v D (f + off_indirect))"
  shows "block_stored v D f nblk m data x = v x"
  using assms by (auto simp: block_stored_def Let_def)

lemma block_stored_entry:
  assumes "D < m" "v D (f + off_indirect) = 0 \<or> unat (v D (f + off_indirect)) \<noteq> D"
    and "k < f + off_direct \<or> f + off_indirect < k"
  shows "block_stored v D f nblk m data D k = v D k"
  using assms by (auto simp: block_stored_def Let_def off_direct_def off_indirect_def NDIRECT_def)

lemma block_stored_indirect:
  assumes "D < m" "v D (f + off_indirect) = 0 \<or> unat (v D (f + off_indirect)) \<noteq> D" "m + 1 < 2 ^ 32"
  shows "block_stored v D f n m data D (f + off_indirect) = 0 \<longleftrightarrow> v D (f + off_indirect) = 0 \<and> n < NDIRECT"
proof -
  have "unat (of_nat (m + 1) :: u32) = m + 1" using assms(3) by (intro unat_of_nat_u32) simp
  then have "(of_nat (m + 1) :: u32) \<noteq> 0" by (metis add_eq_0_iff_both_eq_0 one_neq_zero unat_0)
  then show ?thesis
    using assms by (auto simp: block_stored_def Let_def off_direct_def off_indirect_def NDIRECT_def)
qed

lemma placed_step:
  assumes p: "placed v D f lo m bs n" and D: "D < lo" "lo \<le> m" "D \<noteq> 0" and n: "n < NINDIRECT" and m: "m + 1 < 2 ^ 32"
  shows "placed (block_stored v D f n m (block_data bs n)) D f lo
      (m + (if \<not> n < NDIRECT \<and> v D (f + off_indirect) = 0 then 2 else 1)) bs (n + 1)"
proof -
  define w where "w = block_stored v D f n m (block_data bs n)"
  have um: "unat (of_nat m :: u32) = m" "unat (of_nat (m + 1) :: u32) = m + 1"
    using m by (intro unat_of_nat_u32; simp)+
  have o: "f + off_direct + i \<noteq> f + off_indirect" if "i < NDIRECT" for i
    using that by (simp add: off_direct_def off_indirect_def NDIRECT_def)
  have old: "lo \<le> block_ptr v D f i" "block_ptr v D f i < m" "v (block_ptr v D f i) = block_data bs i" if "i < n" for i
    using p that by (simp_all add: placed_def)
  consider (dir) "n < NDIRECT" | (new) "\<not> n < NDIRECT" "v D (f + off_indirect) = 0"
    | (ind) "\<not> n < NDIRECT" "v D (f + off_indirect) \<noteq> 0" by blast
  then have "placed w D f lo (m + (if \<not> n < NDIRECT \<and> v D (f + off_indirect) = 0 then 2 else 1)) bs (n + 1)"
  proof cases
    case dir
    have w: "w D = (v D)(f + off_direct + n := of_nat m)" "w m = block_data bs n" "\<And>x. x \<noteq> D \<Longrightarrow> x \<noteq> m \<Longrightarrow> w x = v x"
      using dir D by (auto simp: w_def block_stored_def Let_def)
    have wi: "w D (f + off_indirect) = v D (f + off_indirect)" using w(1) o [OF dir] by simp
    have n': "block_ptr w D f n = m" using w(1) dir um by (simp add: block_ptr_def)
    have i': "block_ptr w D f i = block_ptr v D f i" if "i < n" for i using w(1) dir that by (simp add: block_ptr_def)
    have d: "w (block_ptr v D f i) = block_data bs i" if "i < n" for i using w(3) old [OF that] D by simp
    show ?thesis
      unfolding placed_def wi using p dir n' i' d w(2) old D by (auto simp: placed_def less_Suc_eq)
  next
    case new
    have nN: "n = NDIRECT" using p new by (simp add: placed_def)
    have w: "w D = (v D)(f + off_indirect := of_nat (m + 1))" "w m = block_data bs n" "w (m + 1) n = of_nat m"
        "\<And>x. x \<noteq> D \<Longrightarrow> x \<noteq> m \<Longrightarrow> x \<noteq> m + 1 \<Longrightarrow> w x = v x"
      using new D by (auto simp: w_def block_stored_def Let_def)
    have wi: "unat (w D (f + off_indirect)) = m + 1" "w D (f + off_indirect) \<noteq> 0"
      using w(1) um(2) by (auto simp: unat_eq_0 [symmetric] simp del: of_nat_Suc of_nat_add)
    have n': "block_ptr w D f n = m" using new(1) wi w(3) um by (simp add: block_ptr_def)
    have i': "block_ptr w D f i = block_ptr v D f i" if "i < n" for i
      using w(1) that nN o [of i] by (simp add: block_ptr_def)
    have d: "w (block_ptr v D f i) = block_data bs i" if "i < n" for i using w(4) old [OF that] D by simp
    have r: "block_ptr w D f i \<noteq> m + 1 \<and> lo \<le> block_ptr w D f i \<and> block_ptr w D f i < m + 2
      \<and> w (block_ptr w D f i) = block_data bs i" if "i < n + 1" for i
    proof (cases "i = n")
      case True
      then show ?thesis using n' w(2) D(2) by simp
    next
      case False
      then have i: "i < n" using that by simp
      show ?thesis unfolding i' [OF i] d [OF i] using old(1,2) [OF i] by simp
    qed
    show ?thesis unfolding placed_def using r wi new D(2) by simp
  next
    case ind
    define x where "x = unat (v D (f + off_indirect))"
    have x: "lo \<le> x" "x < m" "\<And>i. i < n \<Longrightarrow> block_ptr v D f i \<noteq> x" using p ind by (simp_all add: placed_def x_def)
    have w: "w D = v D" "w m = block_data bs n" "w x = (v x)(n := of_nat m)"
        "\<And>y. y \<noteq> x \<Longrightarrow> y \<noteq> m \<Longrightarrow> w y = v y"
      using ind D x by (auto simp: w_def block_stored_def Let_def x_def [symmetric])
    have n': "block_ptr w D f n = m" using ind(1) w(1,3) um by (simp add: block_ptr_def x_def [symmetric])
    have i': "block_ptr w D f i = block_ptr v D f i" if "i < n" for i
      using w(1,3) that by (simp add: block_ptr_def x_def [symmetric])
    have d: "w (block_ptr v D f i) = block_data bs i" if "i < n" for i using w(4) old [OF that] x(3) [OF that] by simp
    have r: "block_ptr w D f i \<noteq> x \<and> lo \<le> block_ptr w D f i \<and> block_ptr w D f i < m + 1
      \<and> w (block_ptr w D f i) = block_data bs i" if "i < n + 1" for i
    proof (cases "i = n")
      case True
      then show ?thesis using n' w(2) D(2) x(2) by simp
    next
      case False
      then have i: "i < n" using that by simp
      show ?thesis unfolding i' [OF i] d [OF i] using old(1,2) [OF i] x(3) [OF i] by simp
    qed
    show ?thesis unfolding placed_def using r w(1) ind x(1,2) by (simp add: x_def [symmetric])
  qed
  then show ?thesis by (simp only: w_def)
qed

section \<open>The loop\<close>

text \<open>
  What the loop leaves: the blocks of the file, and everything else as it was, but for the pointers
  of the entry.
\<close>

definition grown :: "(nat \<Rightarrow> nat \<Rightarrow> u32) \<Rightarrow> (nat \<Rightarrow> nat \<Rightarrow> u32) \<Rightarrow> nat \<Rightarrow> nat \<Rightarrow> nat \<Rightarrow> bool" where
  "grown v v' D f lo \<longleftrightarrow>
     (\<forall>x. x \<noteq> 0 \<longrightarrow> x \<noteq> D \<longrightarrow> x < lo \<longrightarrow> v' x = v x)
     \<and> (\<forall>k. k < f + off_direct \<or> f + off_indirect < k \<longrightarrow> v' D k = v D k)"

lemma grown_trans: "grown a b D f lo \<Longrightarrow> grown b c D f lo \<Longrightarrow> grown a c D f lo"
  by (simp add: grown_def)

lemma grown_step:
  assumes "placed v D f lo m bs n" "D < lo" "lo \<le> m"
    and v': "\<And>x. x \<noteq> 0 \<Longrightarrow> v' x = block_stored v D f n m data x" and D: "D \<noteq> 0"
  shows "grown v v' D f lo"
  unfolding grown_def
proof (intro conjI allI impI)
  fix x assume x: "x \<noteq> 0" "x \<noteq> D" "x < lo"
  then have "v D (f + off_indirect) \<noteq> 0 \<longrightarrow> x \<noteq> unat (v D (f + off_indirect))" using assms(1) by (auto simp: placed_def)
  then show "v' x = v x" using v' [OF x(1)] x assms(3) by (simp add: block_stored_same)
next
  fix k assume k: "k < f + off_direct \<or> f + off_indirect < k"
  have "v D (f + off_indirect) = 0 \<or> unat (v D (f + off_indirect)) \<noteq> D"
    using assms(1,2) by (auto simp: placed_def)
  then show "v' D k = v D k" unfolding v' [OF D] using block_stored_entry [OF _ _ k] assms(2,3) by simp
qed

text \<open>The blocks that \<open>r\<close> blocks of data may take.\<close>

definition takes :: "mkfs \<Rightarrow> nat \<Rightarrow> nat \<Rightarrow> nat \<Rightarrow> nat" where
  "takes st D f r = r + (if view st D (f + off_indirect) = 0 then 1 else 0)"

lemma write_blocks_ok:
  assumes rd: "reads_ok hr left"
    and "writing st d D lo" "placed (view st) D f lo (nextb st) bs nblk" "left h = drop (4096 * nblk) bs"
    and "4096 * nblk < length bs" "length bs mod 4096 \<noteq> 0" "length bs < 4096 * NINDIRECT"
    and "nextb st + takes st D f (length bs div 4096 + 1 - nblk) < nblock st"
  shows "\<exists>st'. write_blocks hr h d f nblk st = Some (length bs div 4096, length bs mod 4096, st') \<and> kept st st' d
    \<and> nextb st \<le> nextb st' \<and> nextb st' \<le> nextb st + takes st D f (length bs div 4096 + 1 - nblk)
    \<and> placed (view st') D f lo (nextb st') bs (length bs div 4096 + 1) \<and> grown (view st) (view st') D f lo"
  using assms(2-)
proof (induction "length bs div 4096 + 1 - nblk" arbitrary: h nblk st rule: less_induct)
  case (less nblk h st)
  let ?N = "length bs div 4096" and ?m = "nextb st"
  define c where "c = take 4096 (drop (4096 * nblk) bs)"
  let ?new = "\<not> nblk < NDIRECT \<and> view st D (f + off_indirect) = 0"
  have nN: "nblk \<le> ?N" using less(5) by (simp add: less_eq_div_iff_mult_less_eq)
  have nl: "nblk < NINDIRECT" using less(5,7) by simp
  have D: "D < lo" "lo \<le> ?m" "D \<noteq> 0" "nblock st < 2 ^ 32" using less(2) by (simp_all add: writing_def)
  have room: "?m + 1 < nblock st" using less(8) nN by (simp add: takes_def split: if_splits)
  have ind: "view st D (f + off_indirect) = 0
      \<or> lo \<le> unat (view st D (f + off_indirect)) \<and> unat (view st D (f + off_indirect)) < ?m"
    using less(3) by (simp add: placed_def split: if_splits)
  obtain h1 where r: "readn hr h 4096 = ((int (length c), c), h1)" "left h1 = drop 4096 (left h)"
    using readn_ok [OF rd, of h 4096] less(4) unfolding c_def by auto
  obtain b st1 st3 where b: "getblk ?m True BLOCK_FILE st = Some (b, st1)"
    "store_block d f nblk b ((upd_blk b (\<lambda>x. x\<lparr>buf := put_bytes (buf x) 0 c\<rparr>) st1)\<lparr>nextb := nextb st1 + 1\<rparr>) = Some st3"
    "kept st (putblk b st3) d" "nextb (putblk b st3) = ?m + (if ?new then 2 else 1)"
    "\<forall>x. x \<noteq> 0 \<longrightarrow> view (putblk b st3) x = block_stored (view st) D f nblk ?m (put_bytes (\<lambda>_. 0) 0 c) x"
    using body_ok [OF less(2) room nl, of f c] ind by blast
  define st4 where "st4 = putblk b st3"
  note b4 = b(3-5) [folded st4_def]
  have c0: "length c \<noteq> 0" using less(5) by (simp add: c_def)
  have bd: "block_data bs nblk = put_bytes (\<lambda>_. 0) 0 c" by (simp add: block_data_def c_def)
  have "placed (block_stored (view st) D f nblk ?m (block_data bs nblk)) D f lo (nextb st4) bs (nblk + 1)"
    unfolding b4(2) using D room by (intro placed_step [OF less(3)] nl) auto
  then have pl: "placed (view st4) D f lo (nextb st4) bs (nblk + 1)"
    using b4(3) D(1,3) bd by (elim placed_cong) auto
  have gr: "grown (view st) (view st4) D f lo" using b4(3) by (intro grown_step [OF less(3) D(1,2) _ D(3)]) auto
  have w4: "writing st4 d D lo" using b4(2) by (intro writing_kept [OF less(2) b4(1)]) simp
  have nb: "nblock st4 = nblock st" using b4(1) by (simp add: kept_def)
  have run: "write_blocks hr h d f nblk st =
      (if length c < 4096 then Some (nblk, length c, st4) else write_blocks hr h1 d f (nblk + 1) st4)"
    using c0 by (subst write_blocks.simps) (simp add: b(1) r(1) b(2) [simplified] Let_def st4_def [symmetric])
  show ?case
  proof (cases "length c < 4096")
    case True
    then have lc: "length bs < 4096 * nblk + 4096" "length c = length bs - 4096 * nblk" using less(5) by (simp_all add: c_def)
    have q1: "?N = nblk" using lc(1) less(5) by (intro div_nat_eqI) simp_all
    have "length bs mod 4096 = length bs - 4096 * ?N" by (simp only: minus_mult_div_eq_mod)
    with q1 lc(2) have q: "nblk = ?N" "length c = length bs mod 4096" by (simp_all only:)
    have "nextb st4 \<le> ?m + takes st D f (?N + 1 - nblk)" using b4(2) unfolding takes_def q1 by simp
    moreover have "?m \<le> nextb st4" using b4(2) by simp
    moreover have "write_blocks hr h d f nblk st = Some (?N, length bs mod 4096, st4)"
      using run True by (simp only: if_True q [symmetric])
    moreover have "placed (view st4) D f lo (nextb st4) bs (?N + 1)" using pl by (simp only: q(1) [symmetric])
    ultimately show ?thesis using gr b4(1) by blast
  next
    case False
    then have l: "4096 * (nblk + 1) \<le> length bs" by (simp add: c_def)
    then have l': "4096 * (nblk + 1) < length bs" using less(6) by (metis le_neq_implies_less mod_mult_self1_is_0)
    have h1: "left h1 = drop (4096 * (nblk + 1)) bs" using r(2) less(4) by (simp add: add.commute)
    have zero: "view st4 D (f + off_indirect) = 0 \<longleftrightarrow> view st D (f + off_indirect) = 0 \<and> nblk < NDIRECT"
      unfolding b4(3) [rule_format, OF D(3)] using D ind room by (intro block_stored_indirect) auto
    have n1: "nblk + 1 \<le> ?N" using l by (simp add: less_eq_div_iff_mult_less_eq)
    then have sm: "?N + 1 - (nblk + 1) < ?N + 1 - nblk" by simp
    from n1 have tk: "nextb st4 + takes st4 D f (?N + 1 - (nblk + 1)) = ?m + takes st D f (?N + 1 - nblk)"
      unfolding takes_def b4(2) zero by (simp split: if_splits)
    then have rm: "nextb st4 + takes st4 D f (?N + 1 - (nblk + 1)) < nblock st4" using less(8) nb by simp
    obtain st5 where s5: "write_blocks hr h1 d f (nblk + 1) st4 = Some (?N, length bs mod 4096, st5)" "kept st4 st5 d"
      "nextb st4 \<le> nextb st5" "nextb st5 \<le> nextb st4 + takes st4 D f (?N + 1 - (nblk + 1))" "placed (view st5) D f lo (nextb st5) bs (?N + 1)"
      "grown (view st4) (view st5) D f lo"
      using less(1) [OF sm w4 pl h1 l' less(6,7) rm] by blast
    have "?m \<le> nextb st5" using b4(2) s5(3) by simp
    moreover have "write_blocks hr h d f nblk st = Some (?N, length bs mod 4096, st5)"
      using run False s5(1) by (simp only: if_False)
    ultimately show ?thesis
      using kept_both [OF b4(1) s5(2)] grown_trans [OF gr s5(6)] s5(4,5) unfolding tk by blast
  qed
qed

end
