(* ===== verification/Mkfs_Dir.thy ===== *)
theory Mkfs_Dir
  imports Mkfs_Write
begin

text \<open>
  The directory of the image while files are added to it: what holds between two calls of
  \<open>writefile\<close>, and the entry that it chooses for the next file.
\<close>

unbundle bit_operations_syntax

section \<open>Strings in a block\<close>

lemma get_bytes_put_bytes:
  "get_bytes (put_bytes m i bs) j = (if i \<le> j \<and> j < i + length bs then bs ! (j - i) else get_bytes m j)"
proof (induction bs arbitrary: m i)
  case (Cons x bs)
  have "get_bytes (m(i div 4 := put_byte (m (i div 4)) (i mod 4) x)) j = (if j = i then x else get_bytes m j)"
  proof (cases "j div 4 = i div 4")
    case True
    then have "j = i \<longleftrightarrow> j mod 4 = i mod 4" by (metis div_mult_mod_eq)
    then show ?thesis using True by (simp add: get_bytes_def get_byte_put_byte)
  qed (auto simp: get_bytes_def)
  then show ?case using Cons.IH [of "m(i div 4 := put_byte (m (i div 4)) (i mod 4) x)" "Suc i"]
    by (cases "j = i") (auto simp: nth_Cons' simp del: fun_upd_apply)
qed auto

lemma put_bytes_other:
  "(\<And>j. j < length bs \<Longrightarrow> (i + j) div 4 \<noteq> k) \<Longrightarrow> put_bytes m i bs k = m k"
proof (induction bs arbitrary: m i)
  case (Cons x bs)
  have "put_bytes (m(i div 4 := put_byte (m (i div 4)) (i mod 4) x)) (i + 1) bs k =
      (m(i div 4 := put_byte (m (i div 4)) (i mod 4) x)) k"
    by (rule Cons.IH) (use Cons.prems [of "Suc _"] in simp)
  then show ?case using Cons.prems [of 0] by simp
qed simp

lemma cstr_put_bytes:
  assumes "0 \<notin> set name"
  shows "cstr (\<lambda>j. get_bytes (put_bytes m i (name @ [0])) (i + j)) name"
  unfolding cstr_nth by (auto simp: get_bytes_put_bytes nth_append) (metis assms nth_mem)

lemma block_data_byte:
  "j < 4096 \<Longrightarrow> 4096 * i + j < length bs \<Longrightarrow> get_bytes (block_data bs i) j = bs ! (4096 * i + j)"
  unfolding block_data_def get_bytes_put_bytes by simp linarith

section \<open>The directory\<close>

definition dir_blk :: "(nat \<Rightarrow> u32) \<Rightarrow> nat \<Rightarrow> nat" where
  "dir_blk s k = unat (s (2 + off_direct + k))"

definition ndirs :: "nat \<Rightarrow> nat" where
  "ndirs n = (n + 15) div 16"

text \<open>
  The entry \<open>f\<close> of block \<open>D\<close> names a file and the file is stored below \<open>hi\<close>, from \<open>lo\<close> on, apart
  from the directory blocks \<open>ds\<close>.
\<close>

definition file_stored :: "(nat \<Rightarrow> nat \<Rightarrow> u32) \<Rightarrow> nat \<Rightarrow> nat \<Rightarrow> u8 list \<times> u8 list \<Rightarrow> nat set \<Rightarrow> nat \<Rightarrow> nat \<Rightarrow> bool" where
  "file_stored v D f nb ds lo hi \<longleftrightarrow>
     cstr (\<lambda>j. get_bytes (v D) (4 * f + j)) (fst nb) \<and> fst nb \<noteq> [] \<and> length (fst nb) < 128
     \<and> v D (f + off_size) = of_nat (length (snd nb)) \<and> v D (f + off_type) = FTYPE_REG
     \<and> (\<exists>l h. lo \<le> l \<and> h \<le> hi \<and> (\<forall>d \<in> ds. d < l \<or> h \<le> d) \<and> placed v D f l h (snd nb) (length (snd nb) div 4096 + 1))"

text \<open>The image with the files \<open>fs\<close> and \<open>nd\<close> directory blocks.\<close>

definition dirs :: "mkfs \<Rightarrow> nat \<Rightarrow> nat set" where
  "dirs st nd = dir_blk (sup st) ` {..<nd}"

definition dirs_ok :: "mkfs \<Rightarrow> (u8 list \<times> u8 list) list \<Rightarrow> nat \<Rightarrow> bool" where
  "dirs_ok st fs nd \<longleftrightarrow>
     cache_ok st \<and> nblock st < 2 ^ 32 \<and> 2 + nbitblock st \<le> nextb st \<and> nextb st \<le> nblock st
     \<and> nd \<le> NDIRECT \<and> length fs \<le> 16 * nd \<and> sup st (2 + off_size) = of_nat (4096 * nd)
     \<and> (\<forall>k < nd. 2 + nbitblock st \<le> dir_blk (sup st) k \<and> dir_blk (sup st) k < nextb st)
     \<and> inj_on (dir_blk (sup st)) {..<nd}
     \<and> (\<forall>k < length fs. file_stored (view st) (dir_blk (sup st) (k div 16)) (64 * (k mod 16)) (fs ! k)
          (dirs st nd) (2 + nbitblock st) (nextb st))
     \<and> (\<forall>k. length fs \<le> k \<longrightarrow> k < 16 * nd \<longrightarrow> (\<forall>w < 64. view st (dir_blk (sup st) (k div 16)) (64 * (k mod 16) + w) = 0))"

text \<open>What the files do not touch: the superblock that is to be written and the bitmap.\<close>

definition rest_ok :: "mkfs \<Rightarrow> bool" where
  "rest_ok st \<longleftrightarrow>
     sup st 0 = FS_MAGIC \<and> sup st 1 = of_nat (nblock st) \<and> sup st (2 + off_type) = FTYPE_DIR
     \<and> cstr (\<lambda>j. get_bytes (sup st) (8 + j)) [0x2f]
     \<and> (\<forall>b. 2 \<le> b \<longrightarrow> b < 2 + nbitblock st \<longrightarrow> view st b = (\<lambda>_. 0xFFFFFFFF))"

text \<open>A directory block that filled up stays busy.\<close>

definition old_busy :: "mkfs \<Rightarrow> nat set \<Rightarrow> nat \<Rightarrow> bool" where
  "old_busy st B nd \<longleftrightarrow>
     B \<subseteq> busy_set st \<and> card B \<le> nd \<and> (\<forall>i \<in> B. \<exists>k < nd. bno (cache st i) = dir_blk (sup st) k)"

definition built :: "mkfs \<Rightarrow> (u8 list \<times> u8 list) list \<Rightarrow> bool" where
  "built st fs \<longleftrightarrow> dirs_ok st fs (ndirs (length fs)) \<and> rest_ok st \<and> old_busy st (busy_set st) (ndirs (length fs) - 1)"

text \<open>The buffer \<open>d\<close> holds the last directory block.\<close>

definition ready :: "mkfs \<Rightarrow> (u8 list \<times> u8 list) list \<Rightarrow> nat \<Rightarrow> bool" where
  "ready st fs d \<longleftrightarrow>
     (let nd = ndirs (length fs + 1) in dirs_ok st fs nd \<and> rest_ok st \<and> d \<in> busy_set st
       \<and> bno (cache st d) = dir_blk (sup st) (length fs div 16) \<and> old_busy st (busy_set st - {d}) (nd - 1))"

lemma file_stored_cong:
  assumes fs: "file_stored v D f nb ds lo hi"
    and e: "\<And>w. w < 64 \<Longrightarrow> v' D (f + w) = v D (f + w)" "\<And>b. lo \<le> b \<Longrightarrow> b < hi \<Longrightarrow> b \<notin> ds \<Longrightarrow> v' b = v b"
    and h: "hi \<le> hi'" "\<And>d. d \<in> ds' \<Longrightarrow> d \<in> ds \<or> hi \<le> d"
  shows "file_stored v' D f nb ds' lo hi'"
proof -
  obtain l h where p: "lo \<le> l" "h \<le> hi" "\<forall>d \<in> ds. d < l \<or> h \<le> d" "placed v D f l h (snd nb) (length (snd nb) div 4096 + 1)"
    using fs by (auto simp: file_stored_def)
  have ent: "v' D k = v D k" if "f \<le> k" "k < f + 64" for k using e(1) [of "k - f"] that by simp
  have "placed v' D f l h (snd nb) (length (snd nb) div 4096 + 1)"
  proof (rule placed_cong [OF p(4) _ _ le_refl])
    fix k assume "f + off_direct \<le> k" "k \<le> f + off_indirect"
    then show "v' D k = v D k" by (intro ent) (simp_all add: file_layout)
  next
    fix b assume b: "l \<le> b" "b < h"
    then have "b \<notin> ds" using p(3) by fastforce
    then show "v' b = v b" using b p(1,2) by (intro e(2)) simp_all
  qed
  moreover have "d < l \<or> h \<le> d" if "d \<in> ds'" for d using h(2) [OF that] p(2,3) by force
  moreover have "cstr (\<lambda>j. get_bytes (v' D) (4 * f + j)) (fst nb)"
  proof -
    have "get_bytes (v' D) (4 * f + j) = get_bytes (v D) (4 * f + j)" if "j \<le> length (fst nb)" for j
    proof -
      have "length (fst nb) < 128" using fs by (simp add: file_stored_def)
      then show ?thesis using that ent [of "f + j div 4"] by (simp add: get_bytes_def)
    qed
    then show ?thesis using fs by (simp add: file_stored_def cstr_nth)
  qed
  moreover have "v' D (f + off_size) = v D (f + off_size)" "v' D (f + off_type) = v D (f + off_type)"
    by (intro ent; simp add: file_layout)+
  moreover have "fst nb \<noteq> [] \<and> length (fst nb) < 128 \<and> v D (f + off_size) = of_nat (length (snd nb)) \<and> v D (f + off_type) = FTYPE_REG"
    using fs by (simp add: file_stored_def)
  moreover have "h \<le> hi'" using p(2) h(1) by simp
  ultimately show ?thesis unfolding file_stored_def using p(1) by (intro conjI exI [of _ l] exI [of _ h]) simp_all
qed

lemma dirs_ok_cong:
  assumes d: "dirs_ok st fs nd" and c: "cache_ok st'" and v: "\<And>b. b \<noteq> 0 \<Longrightarrow> view st' b = view st b"
    and e: "sup st' = sup st" "nblock st' = nblock st" "nbitblock st' = nbitblock st" "nextb st' = nextb st"
  shows "dirs_ok st' fs nd"
proof -
  have D: "dir_blk (sup st) k \<noteq> 0" if "k < nd" for k using d that by (fastforce simp: dirs_ok_def)
  have l: "k div 16 < nd" if "k < 16 * nd" for k using that by (simp add: less_mult_imp_div_less mult.commute)
  have "file_stored (view st') (dir_blk (sup st) (k div 16)) (64 * (k mod 16)) (fs ! k) (dirs st nd) (2 + nbitblock st) (nextb st)"
    if k: "k < length fs" for k
  proof (rule file_stored_cong)
    show "file_stored (view st) (dir_blk (sup st) (k div 16)) (64 * (k mod 16)) (fs ! k) (dirs st nd) (2 + nbitblock st) (nextb st)"
      using d k by (simp add: dirs_ok_def)
    have "k div 16 < nd" using d k by (intro l) (simp add: dirs_ok_def)
    then show "view st' (dir_blk (sup st) (k div 16)) (64 * (k mod 16) + w) = view st (dir_blk (sup st) (k div 16)) (64 * (k mod 16) + w)" for w
      using v [OF D] by simp
    show "view st' b = view st b" if "2 + nbitblock st \<le> b" for b using that by (intro v) simp
  qed simp_all
  moreover have "view st' (dir_blk (sup st) (k div 16)) = view st (dir_blk (sup st) (k div 16))" if "k < 16 * nd" for k
    by (rule v [OF D [OF l [OF that]]])
  ultimately show ?thesis using d c unfolding dirs_ok_def e dirs_def by simp
qed

lemma rest_ok_cong:
  assumes "rest_ok st" "\<And>b. 2 \<le> b \<Longrightarrow> b < 2 + nbitblock st \<Longrightarrow> view st' b = view st b"
    "nblock st' = nblock st" "nbitblock st' = nbitblock st"
    "sup st' 0 = sup st 0" "sup st' 1 = sup st 1" "sup st' (2 + off_type) = sup st (2 + off_type)" "sup st' 2 = sup st 2"
  shows "rest_ok st'"
  using assms by (simp add: rest_ok_def cstr_nth get_bytes_def)

lemma old_busy_same:
  assumes "old_busy st B nd" "B \<subseteq> busy_set st'" "\<And>i. i \<in> B \<Longrightarrow> cache st' i = cache st i" "nd \<le> nd'"
    "\<And>k. k < nd \<Longrightarrow> sup st' (2 + off_direct + k) = sup st (2 + off_direct + k)"
  shows "old_busy st' B nd'"
proof -
  have "\<exists>k < nd'. bno (cache st' i) = dir_blk (sup st') k" if i: "i \<in> B" for i
  proof -
    have "\<forall>i \<in> B. \<exists>k < nd. bno (cache st i) = dir_blk (sup st) k" using assms(1) by (simp add: old_busy_def)
    then obtain k where k: "k < nd" "bno (cache st i) = dir_blk (sup st) k" using i by blast
    then have "dir_blk (sup st') k = dir_blk (sup st) k" using assms(5) by (simp add: dir_blk_def)
    then show ?thesis using k assms(3) [OF i] assms(4) by (intro exI [of _ k]) simp
  qed
  then show ?thesis using assms(1,2,4) by (simp add: old_busy_def)
qed

section \<open>The entry for the next file\<close>

lemma dir_div: "k < 16 * nd \<Longrightarrow> k div 16 < (nd :: nat)"
  by (simp add: less_mult_imp_div_less mult.commute)

text \<open>What stays the same for the following files.\<close>

definition moved :: "mkfs \<Rightarrow> mkfs \<Rightarrow> nat \<Rightarrow> bool" where
  "moved st st' n \<longleftrightarrow> nblock st' = nblock st \<and> nbitblock st' = nbitblock st \<and> nextb st' \<le> nextb st + n"

lemma new_dir_ok:
  assumes d: "dirs_ok st fs nd" "rest_ok st" "old_busy st (busy_set st) nd" and n: "length fs = 16 * nd" "nd < NDIRECT"
    and room: "nextb st < nblock st"
  shows "\<exists>d st'. new_dir_block st = Some (d, 64 * (length fs mod 16), st') \<and> ready st' fs d \<and> moved st st' 1"
proof -
  define m where "m = nextb st"
  have c: "cache_ok st" "nblock st < 2 ^ 32" "2 + nbitblock st \<le> m" "sup st (2 + off_size) = of_nat (4096 * nd)"
    "\<And>k. k < nd \<Longrightarrow> 2 + nbitblock st \<le> dir_blk (sup st) k \<and> dir_blk (sup st) k < m" "inj_on (dir_blk (sup st)) {..<nd}"
    using d(1) by (simp_all add: dirs_ok_def m_def)
  have nb: "\<forall>i \<in> busy_set st. bno (cache st i) \<noteq> m" using d(3) c(5) by (fastforce simp: old_busy_def)
  have cb: "card (busy_set st) \<le> nd" using d(3) by (simp add: old_busy_def)
  obtain b st1 where g: "getblk m True BLOCK_DIR st = Some (b, st1)" "got st m True b st1"
    using getblk_ok [OF c(1) _ _ nb, where clr = True and ty = BLOCK_DIR] c(3) cb n(2) room
    by (auto simp: m_def NDIRECT_def NCACHE_def)
  have s1: "cache_ok st1" "b < NCACHE" "bno (cache st1 b) = m" "busy_set st1 = insert b (busy_set st)" "b \<notin> busy_set st"
      "\<And>j. j \<in> busy_set st \<Longrightarrow> cache st1 j = cache st j" "nextb st1 = m" "nblock st1 = nblock st" "nbitblock st1 = nbitblock st"
      "sup st1 = sup st" "\<And>x. x \<noteq> 0 \<Longrightarrow> view st1 x = (if x = m then (\<lambda>_. 0) else view st x)"
    using g(2) by (simp_all add: got_def m_def)
  define sp where "sp = (sup st)(2 + off_direct + nd := of_nat m, 2 + off_size := of_nat (4096 * (nd + 1)))"
  define st2 where "st2 = st1\<lparr>nextb := m + 1, sup := sp\<rparr>"
  have nd32: "4096 * nd < 2 ^ 32" "nd < 10" using n(2) by (simp_all add: NDIRECT_def)
  then have "unat (sup st (2 + off_size) div BY2BLK) = nd"
    unfolding c(4) by (simp add: unat_div word_nat BY2BLK_def BY2PG_def del: of_nat_mult)
  then have run: "new_dir_block st = Some (b, 64 * (length fs mod 16), st2)"
    using g(1) s1 c(4) n(1)
    by (simp add: new_dir_block_def m_def [symmetric] Let_def st2_def sp_def file_layout BY2BLK_def BY2PG_def add.commute algebra_simps)
  have v2: "view st2 x = (if x = m then (\<lambda>_. 0) else view st x)" if "x \<noteq> 0" for x
  proof -
    have "view st2 x = view st1 x" by (rule view_same) (simp_all add: st2_def)
    then show ?thesis using s1(11) [OF that] by simp
  qed
  have c2: "cache_ok st2" "busy_set st2 = insert b (busy_set st)" "sup st2 = sp" "nextb st2 = m + 1"
      "nblock st2 = nblock st" "nbitblock st2 = nbitblock st" "\<And>i. cache st2 i = cache st1 i"
    using s1 cache_ok_same [of st2 st1] busy_set_same [of st2 st1] by (simp_all add: st2_def)
  have um: "unat (of_nat m :: u32) = m" using room c(2) by (intro unat_of_nat_u32) (simp add: m_def)
  have db: "dir_blk sp k = (if k = nd then m else dir_blk (sup st) k)" for k
    using um by (simp add: dir_blk_def sp_def file_layout)
  have old: "k div 16 < nd" if "k < length fs" for k using dir_div [of k nd] that n(1) by simp
  have files: "file_stored (view st2) (dir_blk sp (k div 16)) (64 * (k mod 16)) (fs ! k) (dirs st2 (nd + 1)) (2 + nbitblock st) (m + 1)"
    if k: "k < length fs" for k
  proof (rule file_stored_cong)
    show "file_stored (view st) (dir_blk sp (k div 16)) (64 * (k mod 16)) (fs ! k) (dirs st nd) (2 + nbitblock st) m"
      using d(1) k old [OF k] by (simp add: dirs_ok_def db m_def)
    have "dir_blk sp (k div 16) \<noteq> 0" "dir_blk sp (k div 16) \<noteq> m"
      using c(5) [OF old [OF k]] old [OF k] by (simp_all add: db)
    then show "view st2 (dir_blk sp (k div 16)) (64 * (k mod 16) + w) = view st (dir_blk sp (k div 16)) (64 * (k mod 16) + w)" for w
      by (simp add: v2)
    show "view st2 x = view st x" if "2 + nbitblock st \<le> x" "x < m" for x using that by (simp add: v2)
    show "x \<in> dirs st nd \<or> m \<le> x" if "x \<in> dirs st2 (nd + 1)" for x
      using that by (auto simp: dirs_def c2(3) db less_Suc_eq split: if_splits)
  qed simp
  have zero: "view st2 (dir_blk sp (k div 16)) w = 0" if "length fs \<le> k" "k < 16 * (nd + 1)" for k w
  proof -
    have "k div 16 = nd" using that n(1) by (intro div_nat_eqI) simp_all
    then show ?thesis using c(3) by (simp add: db v2)
  qed
  have "inj_on (dir_blk sp) {..<nd + 1}"
    using c(6) c(5) by (fastforce simp: inj_on_def db less_Suc_eq)
  moreover have "2 + nbitblock st \<le> dir_blk sp k \<and> dir_blk sp k < m + 1" if "k < nd + 1" for k
    using that c(3) c(5) [of k] unfolding db by (cases "k = nd") auto
  moreover have "sp (2 + off_size) = of_nat (4096 * (nd + 1))" by (simp add: sp_def)
  ultimately have "dirs_ok st2 fs (nd + 1)"
    unfolding dirs_ok_def c2(3-6) using c(2,3) c2(1) files zero n room
    by (intro conjI) (simp_all add: m_def [symmetric])
  moreover have "rest_ok st2"
    using c(3) by (intro rest_ok_cong [OF d(2)]) (simp_all add: c2 v2 sp_def file_layout)
  moreover have "old_busy st2 (busy_set st2 - {b}) nd"
  proof -
    have "busy_set st2 - {b} = busy_set st" using c2(2) s1(5) by simp
    moreover have "sp (2 + off_direct + k) = sup st (2 + off_direct + k)" if "k < nd" for k
      using that by (simp add: sp_def file_layout)
    moreover have "cache st2 i = cache st i" if "i \<in> busy_set st" for i using s1(6) [OF that] c2(7) by simp
    ultimately show ?thesis using old_busy_same [OF d(3) _ _ le_refl, of st2] c2(2,3) by auto
  qed
  moreover have "ndirs (length fs + 1) = nd + 1" "length fs div 16 = nd" using n(1) by (simp_all add: ndirs_def)
  ultimately have "ready st2 fs b" using s1(3) by (simp add: ready_def c2 db)
  then show ?thesis using run by (intro exI [of _ b] exI [of _ st2]) (simp add: moved_def c2 m_def)
qed

lemma entry_used:
  assumes "dirs_ok st fs nd" "k < length fs"
  shows "get_byte (view st (dir_blk (sup st) (k div 16)) (64 * (k mod 16))) 0 \<noteq> 0"
proof -
  have f: "cstr (\<lambda>j. get_bytes (view st (dir_blk (sup st) (k div 16))) (4 * (64 * (k mod 16)) + j)) (fst (fs ! k))" "fst (fs ! k) \<noteq> []"
    using assms by (simp_all add: dirs_ok_def file_stored_def)
  then obtain c cs where "fst (fs ! k) = c # cs" by (cases "fst (fs ! k)") auto
  then show ?thesis using f(1) by (simp add: get_bytes_def)
qed

lemma ndirs_full: "n mod 16 = 0 \<Longrightarrow> ndirs n = n div 16"
  by (auto simp: ndirs_def)

lemma ndirs_next: "ndirs (n + 1) = n div 16 + 1"
  by (simp add: ndirs_def)

lemma ndirs_partial:
  assumes "n mod 16 \<noteq> 0"
  shows "ndirs n = n div 16 + 1"
proof -
  define q r where "q = n div 16" and "r = n mod 16"
  have r: "n = 16 * q + r" "r < 16" by (simp_all add: q_def r_def)
  have "0 < r" using assms by (simp add: r_def)
  then have "(n + 15) div 16 = q + 1" using r by (intro div_nat_eqI) simp_all
  then show ?thesis by (simp add: ndirs_def q_def)
qed

text \<open>The last directory block, and the first of its entries that is free.\<close>

lemma last_dir_ok:
  assumes d: "dirs_ok st fs nd" "old_busy st (busy_set st) (nd - 1)" and nd: "0 < nd"
  shows "\<exists>d st'. getblk (unat (sup st (2 + off_direct + unat (sup st (2 + off_size) div BY2BLK - 1)))) False BLOCK_DIR st = Some (d, st')
    \<and> got st (dir_blk (sup st) (nd - 1)) False d st' \<and> sup st (2 + off_size) > 0
    \<and> (\<forall>i. get_byte (buf (cache st' d) (64 * i)) 0 = 0 \<longleftrightarrow> get_byte (view st (dir_blk (sup st) (nd - 1)) (64 * i)) 0 = 0)"
proof -
  have c: "cache_ok st" "sup st (2 + off_size) = of_nat (4096 * nd)" "inj_on (dir_blk (sup st)) {..<nd}" "nd \<le> 10"
    "\<And>k. k < nd \<Longrightarrow> 2 + nbitblock st \<le> dir_blk (sup st) k \<and> dir_blk (sup st) k < nextb st" "nextb st \<le> nblock st"
    using d(1) by (simp_all add: dirs_ok_def NDIRECT_def)
  have n32: "4096 * nd < 2 ^ 32" using c(4) by simp
  then have q: "sup st (2 + off_size) div BY2BLK = of_nat nd"
    unfolding c(2) by (simp add: word_unat_eq_iff unat_div word_nat BY2BLK_def BY2PG_def del: of_nat_mult)
  have k: "unat (sup st (2 + off_size) div BY2BLK - 1) = nd - 1"
  proof -
    have "(of_nat nd :: u32) - 1 = of_nat (nd - 1)" using nd by (cases nd) simp_all
    moreover have "unat (of_nat (nd - 1) :: u32) = nd - 1" using c(4) by (intro unat_of_nat_u32) simp
    ultimately show ?thesis unfolding q by simp
  qed
  have z: "sup st (2 + off_size) > 0"
  proof -
    have "unat (sup st (2 + off_size)) = 4096 * nd" unfolding c(2) using n32 by (rule unat_of_nat_u32)
    then show ?thesis using nd by (simp add: word_less_nat_alt)
  qed
  have D: "dir_blk (sup st) (nd - 1) \<noteq> 0" "dir_blk (sup st) (nd - 1) < nblock st" using c(5) [of "nd - 1"] c(6) nd by auto
  have "\<forall>i \<in> busy_set st. \<exists>k < nd - 1. bno (cache st i) = dir_blk (sup st) k" using d(2) by (simp add: old_busy_def)
  then have nb: "\<forall>i \<in> busy_set st. bno (cache st i) \<noteq> dir_blk (sup st) (nd - 1)"
    using c(3) nd by (fastforce simp: inj_on_def)
  have "card (busy_set st) \<le> nd - 1" using d(2) by (simp add: old_busy_def)
  then have "card (busy_set st) < NCACHE" using c(4) by (simp add: NCACHE_def)
  then obtain b st' where g: "getblk (dir_blk (sup st) (nd - 1)) False BLOCK_DIR st = Some (b, st')"
      "got st (dir_blk (sup st) (nd - 1)) False b st'"
    using getblk_ok [OF c(1) D nb, where clr = False and ty = BLOCK_DIR] by blast
  then have "buf (cache st' b) = view st (dir_blk (sup st) (nd - 1))"
    using view_cached(1) [of st' b] D(1) by (simp add: got_def cache_ok_def)
  then show ?thesis using g z unfolding k dir_blk_def [symmetric] by auto
qed

lemma ready_claim:
  assumes b: "dirs_ok st fs nd" "rest_ok st" and g: "got st n False d st'" "n \<noteq> 0"
  shows "dirs_ok st' fs nd" "rest_ok st'" "moved st st' 0"
proof -
  have f: "cache_ok st'" "\<And>b. b \<noteq> 0 \<Longrightarrow> view st' b = view st b" "sup st' = sup st" "nblock st' = nblock st"
      "nbitblock st' = nbitblock st" "nextb st' = nextb st" using g by (simp_all add: got_def)
  show "dirs_ok st' fs nd" by (rule dirs_ok_cong [OF b(1) f])
  show "rest_ok st'" by (rule rest_ok_cong [OF b(2)]) (simp_all add: f)
  show "moved st st' 0" by (simp add: moved_def f)
qed

lemma find_entry_ok:
  assumes b: "built st fs" and n: "length fs < 160" and room: "nextb st < nblock st"
  shows "\<exists>d st'. find_entry st = Some (d, 64 * (length fs mod 16), st') \<and> ready st' fs d \<and> moved st st' 1"
proof (cases "fs = []")
  case True
  have "ndirs 0 = 0" by (simp add: ndirs_def)
  then have e: "dirs_ok st fs 0" "rest_ok st" "old_busy st (busy_set st) 0" using b True by (simp_all add: built_def)
  then have "find_entry st = new_dir_block st" by (simp add: find_entry_def dirs_ok_def)
  then show ?thesis using new_dir_ok [OF e] True room by (simp add: NDIRECT_def)
next
  case False
  define nd where "nd = ndirs (length fs)"
  have nd: "0 < nd" using False by (simp add: nd_def ndirs_def length_greater_0_conv [symmetric] del: length_greater_0_conv)
  have e: "dirs_ok st fs nd" "rest_ok st" "old_busy st (busy_set st) (nd - 1)" using b by (simp_all add: built_def nd_def)
  define D where "D = dir_blk (sup st) (nd - 1)"
  obtain d st1 where g: "getblk (unat (sup st (2 + off_direct + unat (sup st (2 + off_size) div BY2BLK - 1)))) False BLOCK_DIR st = Some (d, st1)"
    "got st D False d st1" "sup st (2 + off_size) > 0"
    "\<forall>i. get_byte (buf (cache st1 d) (64 * i)) 0 = 0 \<longleftrightarrow> get_byte (view st D (64 * i)) 0 = 0"
    using last_dir_ok [OF e(1,3) nd, folded D_def] by blast
  have "\<forall>k < nd. 2 + nbitblock st \<le> dir_blk (sup st) k" using e(1) by (simp add: dirs_ok_def)
  then have "2 + nbitblock st \<le> D" using nd by (simp add: D_def)
  then have D: "D \<noteq> 0" by simp
  note r = ready_claim [OF e(1,2) g(2) D]
  have used: "get_byte (view st D (64 * i)) 0 \<noteq> 0" if "16 * (nd - 1) + i < length fs" "i < 16" for i
    using entry_used [OF e(1) that(1)] that(2) by (simp add: D_def)
  have free: "get_byte (view st D (64 * i)) 0 = 0" if "length fs \<le> 16 * (nd - 1) + i" "i < 16" for i
  proof -
    have "16 * (nd - 1) + i < 16 * nd" using that(2) nd by simp
    then have "view st (dir_blk (sup st) ((16 * (nd - 1) + i) div 16)) (64 * ((16 * (nd - 1) + i) mod 16) + 0) = 0"
      using e(1) that(1) unfolding dirs_ok_def by (metis zero_less_numeral)
    then show ?thesis using that(2) by (simp add: D_def get_byte_def)
  qed
  have s1: "d \<notin> busy_set st" "busy_set st1 = insert d (busy_set st)" "bno (cache st1 d) = D" "sup st1 = sup st"
      "\<And>j. j \<in> busy_set st \<Longrightarrow> cache st1 j = cache st j" "nextb st1 = nextb st" "nblock st1 = nblock st"
    using g(2) by (simp_all add: got_def)
  show ?thesis
  proof (cases "length fs mod 16 = 0")
    case True
    then have l: "length fs = 16 * nd" by (auto simp: nd_def ndirs_full)
    have "find (\<lambda>i. get_byte (buf (cache st1 d) (64 * i)) 0 = 0) [0..<FILE2BLK] = None"
      unfolding g(4) [rule_format] find_lt_None using used nd l by (simp add: FILE2BLK_def)
    then have f: "find_entry st = new_dir_block st1" using g(1,3) by (simp add: find_entry_def)
    have "old_busy st1 (busy_set st1) nd"
    proof -
      have o: "old_busy st1 (busy_set st) (nd - 1)"
        using s1(2,4,5) by (intro old_busy_same [OF e(3) _ _ le_refl]) auto
      have "finite (busy_set st)" by (simp add: busy_set_def)
      moreover have "card (busy_set st) \<le> nd - 1" using o by (simp add: old_busy_def)
      ultimately have "card (busy_set st1) \<le> nd" using nd s1(1,2) by simp
      moreover have "\<exists>k < nd. bno (cache st1 i) = dir_blk (sup st1) k" if i: "i \<in> busy_set st1" for i
      proof (cases "i = d")
        case True
        then show ?thesis using s1(3,4) nd by (intro exI [of _ "nd - 1"]) (simp add: D_def)
      next
        case False
        then have "i \<in> busy_set st" using i s1(2) by simp
        then have "\<exists>k < nd - 1. bno (cache st1 i) = dir_blk (sup st1) k" using o by (simp add: old_busy_def)
        then show ?thesis using nd by (elim exE conjE) (metis diff_le_self less_le_trans)
      qed
      ultimately show ?thesis by (simp add: old_busy_def)
    qed
    then have "\<exists>d' st'. new_dir_block st1 = Some (d', 64 * (length fs mod 16), st') \<and> ready st' fs d' \<and> moved st1 st' 1"
      using n l room s1(6,7) by (intro new_dir_ok [OF r(1,2)]) (simp_all add: NDIRECT_def)
    then show ?thesis using f r(3) by (auto simp: moved_def)
  next
    case False
    then have l: "length fs = 16 * (nd - 1) + length fs mod 16" "ndirs (length fs + 1) = nd" "length fs div 16 = nd - 1"
      by (simp_all add: nd_def ndirs_partial ndirs_next [simplified])
    have "find (\<lambda>i. get_byte (buf (cache st1 d) (64 * i)) 0 = 0) [0..<FILE2BLK] = Some (length fs mod 16)"
      unfolding g(4) [rule_format] using used free l(1) by (intro find_lt_first) (auto simp: FILE2BLK_def)
    then have f: "find_entry st = Some (d, 64 * (length fs mod 16), st1)" using g(1,3) by (simp add: find_entry_def)
    have "old_busy st1 (busy_set st1 - {d}) (nd - 1)"
    proof -
      have "busy_set st1 - {d} = busy_set st" using s1(1,2) by simp
      then show ?thesis using old_busy_same [OF e(3) _ _ le_refl, of st1] s1(2,4,5) by auto
    qed
    then have "ready st1 fs d" using r(1,2) l(2,3) s1(2-4) by (simp add: ready_def D_def)
    then show ?thesis using f r(3) by (auto simp: moved_def)
  qed
qed

end
