(* ===== verification/Mkfs_Image.thy ===== *)
theory Mkfs_Image
  imports Mkfs_Dir
begin

text \<open>
  The image that the builder makes: adding a file keeps the files that are there, and the end of
  the program writes the bitmap, the superblock and what is still in the cache.
\<close>

unbundle bit_operations_syntax

section \<open>Adding a file\<close>

text \<open>A file of the host that the image can hold. \<open>name\<close> is its path and \<open>bs\<close> what it holds.\<close>

definition file_fits :: "u8 list \<Rightarrow> u8 list \<Rightarrow> bool" where
  "file_fits name bs \<longleftrightarrow>
     0 \<notin> set name \<and> last_part name \<noteq> [] \<and> length (last_part name) < 128
     \<and> length bs mod 4096 \<noteq> 0 \<and> length bs < 4096 * NINDIRECT"

text \<open>The blocks for data, one that is indirect, one for the directory.\<close>

definition blocks_for :: "u8 list \<Rightarrow> nat" where
  "blocks_for bs = length bs div 4096 + 3"

lemma buf_upd_eq: "(\<lambda>x. x\<lparr>buf := g (buf x)\<rparr>) = buf_update g"
proof
  fix x show "x\<lparr>buf := g (buf x)\<rparr> = buf_update g x" by (cases x) simp
qed

text \<open>One new entry: the state between them differs in it and in the blocks that were free.\<close>

lemma built_add:
  assumes r: "ready st fs d" and len: "length fs < 160"
    and c: "cache_ok st'" "busy_set st' = busy_set st - {d}" "\<And>j. j \<in> busy_set st - {d} \<Longrightarrow> cache st' j = cache st j"
    and e: "sup st' = sup st" "nblock st' = nblock st" "nbitblock st' = nbitblock st" "nextb st \<le> nextb st'" "nextb st' \<le> nblock st"
    and D: "D = dir_blk (sup st) (length fs div 16)" and f: "f = 64 * (length fs mod 16)"
    and old: "\<And>x. x \<noteq> 0 \<Longrightarrow> x \<noteq> D \<Longrightarrow> x < nextb st \<Longrightarrow> view st' x = view st x"
    and ent: "\<And>k. k < f \<or> f + 64 \<le> k \<Longrightarrow> view st' D k = view st D k"
    and new: "file_stored (view st') D f nb (dirs st (ndirs (length fs + 1))) (2 + nbitblock st) (nextb st')"
  shows "built st' (fs @ [nb])"
proof -
  define n nd where "n = length fs" and "nd = ndirs (n + 1)"
  have ok: "dirs_ok st fs nd" "rest_ok st" "old_busy st (busy_set st - {d}) (nd - 1)"
    using r by (simp_all add: ready_def Let_def nd_def n_def)
  have ds: "dirs st' nd = dirs st nd" by (simp add: dirs_def e(1))
  have nd: "n div 16 < nd" "n < 16 * nd" "nd \<le> NDIRECT"
    using ok(1) by (simp_all add: nd_def ndirs_next [simplified] dirs_ok_def n_def)
  have o: "2 + nbitblock st \<le> dir_blk (sup st) k" "dir_blk (sup st) k < nextb st" if "k < nd" for k
    using ok(1) that by (simp_all add: dirs_ok_def)
  have inj: "k = j" if "dir_blk (sup st) k = dir_blk (sup st) j" "k < nd" "j < nd" for k j
    using ok(1) that by (simp add: dirs_ok_def inj_on_def)
  have same: "view st' (dir_blk (sup st) (k div 16)) (64 * (k mod 16) + w) = view st (dir_blk (sup st) (k div 16)) (64 * (k mod 16) + w)"
    if k: "k < 16 * nd" "k \<noteq> n" "w < 64" for k w
  proof (cases "k div 16 = n div 16")
    case True
    then have "k mod 16 \<noteq> n mod 16" using k(2) by (metis div_mult_mod_eq)
    then have "64 * (k mod 16) + w < f \<or> f + 64 \<le> 64 * (k mod 16) + w" using k(3) by (simp add: f n_def [symmetric]) arith
    then show ?thesis using ent True by (simp add: D n_def)
  next
    case False
    have kd: "k div 16 < nd" by (rule dir_div [OF k(1)])
    have "dir_blk (sup st) (k div 16) \<noteq> D" using inj [OF _ kd nd(1)] False by (auto simp: D n_def)
    then show ?thesis using old o [OF kd] by simp
  qed
  have files: "file_stored (view st') (dir_blk (sup st) (k div 16)) (64 * (k mod 16)) ((fs @ [nb]) ! k)
      (dirs st nd) (2 + nbitblock st) (nextb st')" if k: "k < n + 1" for k
  proof (cases "k = n")
    case True
    then show ?thesis using new by (simp add: D f n_def nd_def)
  next
    case False
    then have k': "k < n" using k by simp
    have "file_stored (view st') (dir_blk (sup st) (k div 16)) (64 * (k mod 16)) (fs ! k) (dirs st nd) (2 + nbitblock st) (nextb st')"
    proof (rule file_stored_cong)
      show "file_stored (view st) (dir_blk (sup st) (k div 16)) (64 * (k mod 16)) (fs ! k) (dirs st nd) (2 + nbitblock st) (nextb st)"
        using ok(1) k' by (simp add: dirs_ok_def n_def)
      show "view st' b = view st b" if "2 + nbitblock st \<le> b" "b < nextb st" "b \<notin> dirs st nd" for b
        using that nd(1) by (intro old) (auto simp: D dirs_def n_def)
    qed (use same k' nd(2) e(4) in auto)
    then show ?thesis using k' by (simp add: nth_append n_def)
  qed
  have nd': "ndirs (Suc n) = nd" by (simp add: nd_def)
  have "dirs_ok st' (fs @ [nb]) nd"
    unfolding dirs_ok_def ds e(1-3)
  proof (intro conjI allI impI)
    show "file_stored (view st') (dir_blk (sup st) (k div 16)) (64 * (k mod 16)) ((fs @ [nb]) ! k)
      (dirs st nd) (2 + nbitblock st) (nextb st')" if "k < length (fs @ [nb])" for k
      using files that by (simp add: n_def)
    show "view st' (dir_blk (sup st) (k div 16)) (64 * (k mod 16) + w) = 0"
      if "length (fs @ [nb]) \<le> k" "k < 16 * nd" "w < 64" for k w
    proof -
      have "view st (dir_blk (sup st) (k div 16)) (64 * (k mod 16) + w) = 0"
        using ok(1) that unfolding dirs_ok_def by simp
      then show ?thesis using same [of k w] that by (simp add: n_def)
    qed
  qed (use ok(1) c(1) e(4,5) nd o in \<open>auto simp: dirs_ok_def n_def intro: less_le_trans\<close>)
  moreover have "rest_ok st'"
    using ok(1) o [OF nd(1)] by (intro rest_ok_cong [OF ok(2)] old) (auto simp: e D n_def dirs_ok_def)
  moreover have "old_busy st' (busy_set st') (nd - 1)"
    using c(2,3) e(1) by (intro old_busy_same [OF ok(3), folded c(2)]) auto
  ultimately show ?thesis by (simp add: built_def n_def [symmetric] nd')
qed

text \<open>The entry for the next file is in a busy buffer, and empty.\<close>

lemma ready_facts:
  assumes r: "ready st fs d" and len: "length fs < 160"
    and D: "D = dir_blk (sup st) (length fs div 16)" and f: "f = 64 * (length fs mod 16)"
  shows "writing st d D (nextb st)" "\<And>w. w < 64 \<Longrightarrow> view st D (f + w) = 0"
    "D \<in> dirs st (ndirs (length fs + 1))" "\<And>x. x \<in> dirs st (ndirs (length fs + 1)) \<Longrightarrow> x < nextb st"
    "2 + nbitblock st \<le> nextb st"
proof -
  define nd where "nd = ndirs (length fs + 1)"
  have ok: "dirs_ok st fs nd" "d \<in> busy_set st" "bno (cache st d) = D" "old_busy st (busy_set st - {d}) (nd - 1)"
    using r by (simp_all add: ready_def Let_def nd_def D)
  have nd: "length fs div 16 < nd" "length fs < 16 * nd" "nd \<le> 10"
    using ok(1) by (simp_all add: nd_def ndirs_next [simplified] dirs_ok_def NDIRECT_def)
  have o: "2 + nbitblock st \<le> dir_blk (sup st) k" "dir_blk (sup st) k < nextb st" if "k < nd" for k
    using ok(1) that by (simp_all add: dirs_ok_def)
  have "finite (busy_set st)" by (simp add: busy_set_def)
  then have "card (busy_set st) - 1 \<le> nd - 1" using ok(4,2) by (simp add: old_busy_def card_Diff_singleton)
  then have "card (busy_set st) \<le> 10" using nd by arith
  moreover have "bno (cache st i) < nextb st" if i: "i \<in> busy_set st" for i
  proof (cases "i = d")
    case True
    then show ?thesis using ok(3) o [OF nd(1)] D by simp
  next
    case False
    then have "\<exists>k < nd - 1. bno (cache st i) = dir_blk (sup st) k" using ok(4) i by (simp add: old_busy_def)
    then show ?thesis using o(2) by fastforce
  qed
  ultimately show "writing st d D (nextb st)"
    using ok o [OF nd(1)] by (simp add: writing_def D dirs_ok_def NCACHE_def)
  show "view st D (f + w) = 0" if "w < 64" for w
    using ok(1) nd(2) that unfolding dirs_ok_def D f by blast
  show "D \<in> dirs st nd" using nd(1) by (simp add: D dirs_def)
  show "x < nextb st" if "x \<in> dirs st nd" for x using that o(2) by (auto simp: dirs_def)
  show "2 + nbitblock st \<le> nextb st" using ok(1) by (simp add: dirs_ok_def)
qed

lemma writefile_ok:
  assumes rd: "reads_ok hr left" and b: "built st fs" and len: "length fs < 160"
    and h: "hopen name = Some h" and fits: "file_fits name (left h)"
    and room: "nextb st + blocks_for (left h) < nblock st"
  shows "\<exists>st'. writefile hr hopen name st = Some st' \<and> built st' (fs @ [(last_part name, left h)]) \<and> moved st st' (blocks_for (left h))"
proof -
  define bs nm n f where "bs = left h" and "nm = last_part name" and "n = length fs" and "f = 64 * (n mod 16)"
  let ?N = "length bs div 4096"
  have bs: "length bs mod 4096 \<noteq> 0" "length bs < 4096 * NINDIRECT" "0 < length bs"
    using fits by (auto simp: file_fits_def bs_def)
  have nm: "nm \<noteq> []" "length nm < 128" "0 \<notin> set nm"
    using fits by (auto simp: file_fits_def nm_def last_part_def dest!: set_takeWhileD)
  obtain d st1 where fe: "find_entry st = Some (d, f, st1)" "ready st1 fs d" "moved st st1 1"
    using find_entry_ok [OF b len] room by (auto simp: f_def n_def)
  define D where "D = dir_blk (sup st1) (n div 16)"
  note rf = ready_facts [OF fe(2) len, of D f, unfolded n_def [symmetric], OF D_def f_def]
  define st2 where "st2 = upd_blk d (buf_update (\<lambda>m. put_bytes m (4 * f) (nm @ [0]))) st1"
  have d: "cache_ok st1" "d < NCACHE" "bno (cache st1 d) = D" "D \<noteq> 0" "d \<in> busy_set st1" "D < nextb st1" "nblock st1 < 2 ^ 32"
    using rf(1) by (auto simp: writing_def busy_set_def)
  note e2 = edit_facts [OF d(1-4), where g = "\<lambda>m. put_bytes m (4 * f) (nm @ [0])", folded st2_def]
  have f960: "f \<le> 960" by (simp add: f_def)
  have same: "view st2 D k = view st1 D k" if "k < f \<or> f + 32 \<le> k" for k
  proof -
    have "(4 * f + j) div 4 \<noteq> k" if "j < length (nm @ [0])" for j
      using that nm(2) \<open>k < f \<or> f + 32 \<le> k\<close> by auto
    then have "put_bytes (view st1 D) (4 * f) (nm @ [0]) k = view st1 D k" by (rule put_bytes_other)
    then show ?thesis using e2(3) [OF d(4)] by simp
  qed
  have k2: "kept st1 st2 d" using e2(1,2) by (auto simp: kept_def st2_def)
  have n2: "nextb st2 = nextb st1" by (simp add: st2_def)
  have w2: "writing st2 d D (nextb st1)" by (rule writing_kept [OF rf(1) k2]) (simp add: n2)
  have z2: "view st2 D (f + off_indirect) = 0" using same rf(2) [of off_indirect] by (simp add: file_layout)
  have "nextb st2 + takes st2 D f (?N + 1 - 0) < nblock st2"
    using room fe(3) z2 k2 by (simp add: n2 takes_def moved_def kept_def blocks_for_def bs_def)
  then obtain st3 where wb: "write_blocks hr h d f 0 st2 = Some (?N, length bs mod 4096, st3)" "kept st2 st3 d"
      "nextb st2 \<le> nextb st3" "nextb st3 \<le> nextb st2 + takes st2 D f (?N + 1 - 0)"
      "placed (view st3) D f (nextb st1) (nextb st3) bs (?N + 1)" "grown (view st2) (view st3) D f (nextb st1)"
    using write_blocks_ok [OF rd w2 placed_none [of "view st2", OF z2], where bs = bs and h = h] bs by (auto simp: bs_def)
  define st4 where "st4 = putblk d (upd_blk d (buf_update (\<lambda>m. m(f + off_size := of_nat (length bs)))) st3)"
  have k3: "cache_ok st3" "bno (cache st3 d) = D" using wb(2) k2 d(3) by (auto simp: kept_def)
  note e4 = edit_facts [OF k3(1) d(2) k3(2) d(4), where g = "\<lambda>m. m(f + off_size := of_nat (length bs))"]
  have v4: "view st4 x = (if x = D then (view st3 D)(f + off_size := of_nat (length bs)) else view st3 x)" if "x \<noteq> 0" for x
    using e4(3) [OF that] by (simp add: st4_def putblk_facts)
  have ent: "view st4 D k = (if k = f + off_size then of_nat (length bs) else view st2 D k)" if "k < f + off_direct \<or> f + off_indirect < k" for k
  proof -
    have "view st3 D k = view st2 D k" using wb(6) that by (auto simp: grown_def)
    then show ?thesis using v4 [OF d(4)] by simp
  qed
  have run: "writefile hr hopen name st = Some st4"
  proof -
    have "upd_blk d (\<lambda>x. x\<lparr>buf := put_bytes (buf x) (4 * f) (nm @ [0])\<rparr>) st1 = st2"
      by (simp only: st2_def buf_upd_eq [of "\<lambda>m. put_bytes m (4 * f) (nm @ [0])"])
    then show ?thesis
      using h fe(1) wb(1) nm(2) f960
      by (simp add: writefile_def nm_def [symmetric] Let_def st4_def store_def div_mult_mod_eq del: of_nat_add of_nat_mult)
  qed
  have nb: "nextb st4 = nextb st3" "nblock st4 = nblock st1" "nbitblock st4 = nbitblock st1" "sup st4 = sup st1"
    using wb(2) k2 by (simp_all add: st4_def putblk_facts kept_def)
  have ds: "x \<noteq> D \<Longrightarrow> x \<in> dirs st1 (ndirs (n + 1)) \<Longrightarrow> x < nextb st1" for x by (rule rf(4))
  have "cstr (\<lambda>j. get_bytes (view st4 D) (4 * f + j)) nm"
  proof -
    have "get_bytes (view st4 D) (4 * f + j) = get_bytes (put_bytes (view st1 D) (4 * f) (nm @ [0])) (4 * f + j)"
      if "j \<le> length nm" for j
    proof -
      have "j div 4 < 32" using that nm(2) by auto
      then show ?thesis using ent [of "f + j div 4"] e2(3) [OF d(4)] by (simp add: get_bytes_def file_layout)
    qed
    then show ?thesis using cstr_put_bytes [OF nm(3), of "view st1 D" "4 * f"] by (simp add: cstr_nth)
  qed
  moreover have "placed (view st4) D f (nextb st1) (nextb st4) bs (?N + 1)"
    using d(6) by (intro placed_cong [OF wb(5)]) (auto simp: v4 nb file_layout d(4))
  moreover have "view st4 D (f + off_type) = FTYPE_REG"
    using ent [of "f + off_type"] same [of "f + off_type"] rf(2) [of off_type] by (simp add: file_layout FTYPE_REG_def)
  moreover have "view st4 D (f + off_size) = of_nat (length bs)" using v4 [OF d(4)] by simp
  ultimately have new: "file_stored (view st4) D f (nm, bs) (dirs st1 (ndirs (n + 1))) (2 + nbitblock st1) (nextb st4)"
    unfolding file_stored_def using nm rf(4,5)
    by (intro conjI exI [of _ "nextb st1"] exI [of _ "nextb st4"]) auto
  have tk: "takes st2 D f (Suc ?N) = ?N + 2" using z2 by (simp add: takes_def)
  have "nextb st4 \<le> nblock st1" using wb(4) room fe(3) by (simp add: nb n2 tk [unfolded bs_def] moved_def blocks_for_def bs_def)
  have "built st4 (fs @ [(nm, bs)])"
  proof (rule built_add [OF fe(2) len, of st4 D f])
    show "cache_ok st4" using e4(1) by (simp add: st4_def putblk_facts)
    show "busy_set st4 = busy_set st1 - {d}" using e4(2) wb(2) k2 by (simp add: st4_def putblk_facts kept_def)
    show "cache st4 j = cache st1 j" if "j \<in> busy_set st1 - {d}" for j
      using that wb(2) k2 by (simp add: st4_def putblk_facts kept_def)
    show "view st4 x = view st1 x" if "x \<noteq> 0" "x \<noteq> D" "x < nextb st1" for x
      using that wb(6) e2(3) by (simp add: v4 grown_def)
    show "view st4 D k = view st1 D k" if "k < f \<or> f + 64 \<le> k" for k
      using that ent [of k] same [of k] by (auto simp: file_layout)
    show "nextb st1 \<le> nextb st4" using wb(3) by (simp add: nb n2)
  qed (use new nb \<open>nextb st4 \<le> nblock st1\<close> in \<open>simp_all add: D_def f_def n_def\<close>)
  moreover have "moved st st4 (blocks_for bs)"
    using fe(3) wb(4) by (simp add: moved_def nb n2 tk blocks_for_def)
  ultimately show ?thesis using run unfolding bs_def nm_def by blast
qed

end
