(* ===== verification/Mkfs_Props.thy ===== *)
theory Mkfs_Props
  imports Mkfs_Image
begin

text \<open>
  The whole run of the image builder: opening the image, adding the files, the bitmap, the
  superblock and the write back of the cache.
\<close>

unbundle bit_operations_syntax

section \<open>One block\<close>

text \<open>Block \<open>n\<close> now holds \<open>v\<close>; nothing else changed.\<close>

definition edited :: "mkfs \<Rightarrow> nat \<Rightarrow> (nat \<Rightarrow> u32) \<Rightarrow> mkfs \<Rightarrow> bool" where
  "edited st n v st' \<longleftrightarrow>
     cache_ok st' \<and> busy_set st' = busy_set st \<and> (\<forall>j \<in> busy_set st. cache st' j = cache st j)
     \<and> (\<forall>x. x \<noteq> 0 \<longrightarrow> view st' x = (if x = n then v else view st x))
     \<and> nblock st' = nblock st \<and> nbitblock st' = nbitblock st \<and> nextb st' = nextb st \<and> sup st' = sup st"

lemma edited_trans: "edited a n v b \<Longrightarrow> edited b n w c \<Longrightarrow> edited a n w c"
  by (simp add: edited_def)

definition can_get :: "mkfs \<Rightarrow> nat \<Rightarrow> bool" where
  "can_get st n \<longleftrightarrow>
     cache_ok st \<and> n \<noteq> 0 \<and> n < nblock st \<and> (\<forall>i \<in> busy_set st. bno (cache st i) \<noteq> n) \<and> card (busy_set st) < NCACHE"

lemma can_get_edited: "edited st n v st' \<Longrightarrow> can_get st m \<Longrightarrow> can_get st' m"
  by (simp add: edited_def can_get_def)

lemma edit_block:
  assumes "can_get st n"
  shows "\<exists>b st1. getblk n clr ty st = Some (b, st1) \<and> sup st1 = sup st
    \<and> (\<forall>g. edited st n (g (if clr then (\<lambda>_. 0) else view st n)) (putblk b (upd_blk b (buf_update g) st1)))"
proof -
  obtain b st1 where g: "getblk n clr ty st = Some (b, st1)" "got st n clr b st1"
    using getblk_ok [of st n clr ty] assms by (auto simp: can_get_def)
  have b: "cache_ok st1" "b < NCACHE" "bno (cache st1 b) = n" "n \<noteq> 0" using g(2) assms by (simp_all add: got_def can_get_def)
  have "edited st n (h (if clr then (\<lambda>_. 0) else view st n)) (putblk b (upd_blk b (buf_update h) st1))" for h
    using g(2) edit_facts [OF b, where g = h] b(4) by (auto simp: edited_def got_def putblk_facts)
  then show ?thesis using g by (intro exI [of _ b] exI [of _ st1]) (simp add: got_def)
qed

section \<open>Opening the image\<close>

lemma opendisk_ok:
  assumes "3 < n" "n \<le> 1024" "dsize div 4096 = n" "dsize \<le> 4 * 1024 * 1024"
  shows "\<exists>st. opendisk dsize (zero_mkfs img) = Some st \<and> built st [] \<and> nblock st = n \<and> nbitblock st = 1 \<and> nextb st = 3"
proof -
  define st0 where "st0 = (zero_mkfs img)\<lparr>nblock := n, nbitblock := 1\<rparr>"
  have nb: "(n + BIT2BLK - 1) div BIT2BLK = 1" using assms(1,2) by (intro div_nat_eqI) (simp_all add: BIT2BLK_def)
  have "busy_set st0 = {}" by (simp add: busy_set_def st0_def zero_mkfs_def zero_blk_def)
  moreover have "cache_ok st0" by (simp add: cache_ok_def cache_uniq_def st0_def zero_mkfs_def zero_blk_def)
  ultimately have cg: "can_get st0 2" using assms(1) by (simp add: can_get_def NCACHE_def st0_def)
  obtain b st1 where g: "getblk 2 False BLOCK_BITS st0 = Some (b, st1)" "sup st1 = sup st0"
      "\<forall>g. edited st0 2 (g (view st0 2)) (putblk b (upd_blk b (buf_update g) st1))"
    using edit_block [OF cg, of False BLOCK_BITS] by (simp only: if_False) blast
  define st2 where "st2 = putblk b (upd_blk b (buf_update (\<lambda>_ _. 0xFFFFFFFF)) st1)"
  note e = g(3) [rule_format, of "\<lambda>_ _. 0xFFFFFFFF", folded st2_def]
  have fb: "fill_bits 0 st0 = Some st2"
    using g(1) by (simp add: fill_bits_def st2_def)
  define s where "s = put_bytes ((sup st2)(0 := FS_MAGIC, 1 := of_nat n, 2 + off_type := FTYPE_DIR)) 8 [0x2f, 0]"
  define st where "st = st2\<lparr>nextb := 3, sup := s\<rparr>"
  have run: "opendisk dsize (zero_mkfs img) = Some st"
  proof -
    have "4096 * 3 < dsize" using assms(1,3) by (metis div_le_mono linorder_not_le nonzero_mult_div_cancel_left zero_neq_numeral)
    then have d: "\<not> (dsize < 1024 \<or> dsize > 4 * 1024 * 1024)" using assms(4) by simp
    have "mfold fill_bits [0..<1] st0 = Some st2" using fb by simp
    then show ?thesis
      unfolding opendisk_def if_not_P [OF d] Let_def assms(3) nb st0_def [symmetric] by (simp add: st_def s_def)
  qed
  have v: "view st x = view st2 x" for x by (rule view_same) (simp_all add: st_def)
  have c: "cache_ok st" "busy_set st = {}"
    using e cache_ok_same [of st st2] busy_set_same [of st st2] \<open>busy_set st0 = {}\<close> by (simp_all add: st_def edited_def)
  have sup0: "sup st2 k = 0" for k using e by (simp add: edited_def st0_def zero_mkfs_def)
  have s: "s k = ((sup st2)(0 := FS_MAGIC, 1 := of_nat n, 2 + off_type := FTYPE_DIR)) k" if "k \<noteq> 2" for k
    unfolding s_def by (rule put_bytes_other) (use that in \<open>auto simp: less_Suc_eq\<close>)
  have nn: "nblock st = n" "nbitblock st = 1" "nextb st = 3" "sup st = s"
    using e by (simp_all add: st_def edited_def st0_def)
  have "dirs_ok st [] 0"
    using c assms(1,2) s [of "2 + off_size"] sup0 by (simp add: dirs_ok_def nn file_layout)
  moreover have "rest_ok st"
    unfolding rest_ok_def nn v
  proof (intro conjI allI impI)
    show "cstr (\<lambda>j. get_bytes s (8 + j)) [0x2f]"
      unfolding s_def by (rule cstr_put_bytes [of "[0x2f]", unfolded append.simps]) simp
    show "view st2 b = (\<lambda>_. 0xFFFFFFFF)" if "2 \<le> b" "b < 2 + 1" for b
      using e that by (simp add: edited_def)
  qed (use s in \<open>simp_all add: file_layout\<close>)
  ultimately have "built st []" using c(2) by (simp add: built_def ndirs_def old_busy_def)
  then show ?thesis using run nn by blast
qed

section \<open>All files\<close>

lemma writefiles_ok:
  assumes rd: "reads_ok hr left"
  shows "built st fs \<Longrightarrow> length fs + length names \<le> 160
    \<Longrightarrow> (\<And>name. name \<in> set names \<Longrightarrow> \<exists>h. hopen name = Some h \<and> file_fits name (left h))
    \<Longrightarrow> nextb st + sum_list (map (\<lambda>name. blocks_for (left (the (hopen name)))) names) < nblock st
    \<Longrightarrow> \<exists>st'. mfold (writefile hr hopen) names st = Some st'
      \<and> built st' (fs @ map (\<lambda>name. (last_part name, left (the (hopen name)))) names)
      \<and> nblock st' = nblock st \<and> nbitblock st' = nbitblock st"
proof (induction names arbitrary: st fs)
  case (Cons name names)
  obtain h where h: "hopen name = Some h" "file_fits name (left h)" using Cons.prems(3) by auto
  obtain st1 where s1: "writefile hr hopen name st = Some st1" "built st1 (fs @ [(last_part name, left h)])"
      "moved st st1 (blocks_for (left h))"
    using writefile_ok [where name = name and h = h and left = left and hr = hr and hopen = hopen, OF rd Cons.prems(1) _ h] Cons.prems(2,4) h(1) by auto
  have "\<exists>st'. mfold (writefile hr hopen) names st1 = Some st'
      \<and> built st' ((fs @ [(last_part name, left h)]) @ map (\<lambda>name. (last_part name, left (the (hopen name)))) names)
      \<and> nblock st' = nblock st1 \<and> nbitblock st' = nbitblock st1"
    using Cons.prems s1(3) h(1) by (intro Cons.IH [OF s1(2)]) (simp_all add: moved_def)
  then show ?case using s1 h(1) by (auto simp: moved_def)
qed simp

section \<open>The bitmap and the superblock\<close>

definition bit_at :: "(nat \<Rightarrow> u32) \<Rightarrow> nat \<Rightarrow> bool" where
  "bit_at m i = bit (m (i div 32)) (i mod 32)"

definition bit_off :: "nat \<Rightarrow> (nat \<Rightarrow> u32) \<Rightarrow> nat \<Rightarrow> u32" where
  "bit_off i m = m(i div 32 := m (i div 32) AND NOT (push_bit (i mod 32) 1))"

lemma bit_at_off: "bit_at (bit_off i m) k \<longleftrightarrow> bit_at m k \<and> k \<noteq> i"
proof (cases "k div 32 = i div 32")
  case True
  then have "k = i \<longleftrightarrow> k mod 32 = i mod 32" by (metis div_mult_mod_eq)
  then show ?thesis using True by (auto simp: bit_at_def bit_off_def bit_simps)
qed (auto simp: bit_at_def bit_off_def)

lemma bit_at_fold: "bit_at (fold bit_off xs m) k \<longleftrightarrow> bit_at m k \<and> k \<notin> set xs"
  by (induction xs arbitrary: m) (auto simp: bit_at_off)

lemma buf_update_id: "buf_update (\<lambda>m. m) x = x"
  by (cases x) simp

lemma clear_bit_off: "clear_bit b (i div 32) i st = upd_blk b (buf_update (bit_off i)) st"
  by (cases "cache st b") (simp add: clear_bit_def store_def upd_blk_def bit_off_def)

lemma fold_upd_buf: "fold (\<lambda>i. upd_blk b (buf_update (g i))) xs st = upd_blk b (buf_update (fold g xs)) st"
proof (induction xs arbitrary: st)
  case Nil
  show ?case by (simp add: upd_blk_def buf_update_id)
next
  case (Cons i xs)
  have "upd_blk b (buf_update h) (upd_blk b (buf_update k) st) = upd_blk b (buf_update (\<lambda>m. h (k m))) st" for h k
    by (cases "cache st b") (simp add: upd_blk_def)
  then show ?case by (simp add: Cons.IH comp_def)
qed

lemma fold_clear_bit: "fold (\<lambda>i. clear_bit b (i div 32) i) xs st = upd_blk b (buf_update (fold bit_off xs)) st"
proof -
  have "(\<lambda>i. clear_bit b (i div 32) i) = (\<lambda>i. upd_blk b (buf_update (bit_off i)))"
    by (simp add: fun_eq_iff clear_bit_off)
  then show ?thesis by (simp only: fold_upd_buf)
qed

lemma mark_blocks_ok:
  assumes "can_get st 2" "m \<le> BIT2BLK"
  shows "\<exists>st'. mfold mark_block [0..<m] st = Some st' \<and> edited st 2 (fold bit_off [0..<m] (view st 2)) st'"
  using assms(2)
proof (induction m)
  case 0
  then show ?case using assms(1) by (simp add: edited_def can_get_def)
next
  case (Suc m)
  then obtain st1 where s1: "mfold mark_block [0..<m] st = Some st1" "edited st 2 (fold bit_off [0..<m] (view st 2)) st1" by auto
  obtain b st2 where g: "getblk 2 False BLOCK_BITS st1 = Some (b, st2)"
      "\<forall>g. edited st1 2 (g (view st1 2)) (putblk b (upd_blk b (buf_update g) st2))"
    using edit_block [OF can_get_edited [OF s1(2) assms(1)], of False BLOCK_BITS] by (simp only: if_False) blast
  have i: "m div BIT2BLK = 0" "m mod BIT2BLK = m" using Suc.prems by simp_all
  have "mark_block m st1 = Some (putblk b (upd_blk b (buf_update (bit_off m)) st2))"
    using g(1) by (simp add: mark_block_def i clear_bit_off)
  moreover have "edited st 2 (bit_off m (view st1 2)) (putblk b (upd_blk b (buf_update (bit_off m)) st2))"
    using edited_trans [OF s1(2)] g(2) by blast
  moreover have "view st1 2 = fold bit_off [0..<m] (view st 2)" using s1(2) by (simp add: edited_def)
  ultimately show ?case using s1(1) by (simp add: mfold_append)
qed

text \<open>What \<open>finishfs\<close> adds: the bitmap in block 2 and the superblock in block 1.\<close>

lemma finishfs_ok:
  assumes b: "built st fs" and n: "nbitblock st = 1" "nblock st \<le> 1024"
  shows "\<exists>st' v2 v1. finishfs st = Some st' \<and> cache_ok st'
    \<and> (\<forall>x. x \<noteq> 0 \<longrightarrow> view st' x = (if x = 1 then v1 else if x = 2 then v2 else view st x))
    \<and> (\<forall>i < BIT2BLK. bit_at v2 i \<longleftrightarrow> nextb st \<le> i \<and> i < nblock st) \<and> (\<forall>k < SIZEOF_SUPER. v1 k = sup st k)"
proof -
  have ok: "dirs_ok st fs (ndirs (length fs))" "rest_ok st" "old_busy st (busy_set st) (ndirs (length fs) - 1)"
    using b by (simp_all add: built_def)
  define nd where "nd = ndirs (length fs)"
  have d: "cache_ok st" "3 \<le> nextb st" "nextb st \<le> nblock st" "nd \<le> 10" "\<And>k. k < nd \<Longrightarrow> 3 \<le> dir_blk (sup st) k"
    using ok(1) n(1) by (simp_all add: dirs_ok_def nd_def NDIRECT_def)
  have "\<forall>i \<in> busy_set st. \<exists>k < nd - 1. bno (cache st i) = dir_blk (sup st) k" using ok(3) by (simp add: old_busy_def nd_def)
  then have nb: "\<forall>i \<in> busy_set st. 3 \<le> bno (cache st i)" using d(5) by fastforce
  have "card (busy_set st) \<le> nd - 1" using ok(3) by (simp add: old_busy_def nd_def)
  then have "card (busy_set st) < NCACHE" using d(4) by (simp add: NCACHE_def)
  then have cg: "can_get st 1" "can_get st 2" using d nb by (auto simp: can_get_def)
  have full: "view st 2 = (\<lambda>_. 0xFFFFFFFF)" using ok(2) n(1) by (simp add: rest_ok_def)
  obtain st1 where s1: "mfold mark_block [0..<nextb st] st = Some st1"
      "edited st 2 (fold bit_off [0..<nextb st] (view st 2)) st1"
    using mark_blocks_ok [OF cg(2), of "nextb st"] d(3) n(2) by (auto simp: BIT2BLK_def)
  have e1: "nblock st1 = nblock st" "nbitblock st1 = 1" "view st1 2 = fold bit_off [0..<nextb st] (view st 2)"
    using s1(2) n(1) by (simp_all add: edited_def)
  obtain b st2 where g2: "getblk 2 False BLOCK_BITS st1 = Some (b, st2)"
      "\<forall>g. edited st1 2 (g (view st1 2)) (putblk b (upd_blk b (buf_update g) st2))"
    using edit_block [OF can_get_edited [OF s1(2) cg(2)], of False BLOCK_BITS] by (simp only: if_False) blast
  define g where "g = fold bit_off [nblock st..<BIT2BLK]"
  define st3 where "st3 = putblk b (upd_blk b (buf_update g) st2)"
  have e3: "edited st1 2 (g (view st1 2)) st3" using g2(2) by (simp add: st3_def)
  have nn: "nblock st \<noteq> BIT2BLK" "nblock st mod BIT2BLK = nblock st" using n(2) by (simp_all add: BIT2BLK_def)
  have mt: "mark_tail st1 = Some st3"
    using nn g2(1) by (simp add: mark_tail_def e1(1,2) fold_clear_bit st3_def g_def)
  note s3 = edited_trans [OF s1(2) e3]
  obtain c st4 where g4: "getblk 1 True BLOCK_SUPER st3 = Some (c, st4)" "sup st4 = sup st3"
      "\<forall>g. edited st3 1 (g (\<lambda>_. 0)) (putblk c (upd_blk c (buf_update g) st4))"
    using edit_block [OF can_get_edited [OF s3 cg(1)], of True BLOCK_SUPER] by (simp only: if_True) blast
  define w where "w m k = (if k < SIZEOF_SUPER then sup st4 k else m k)" for m :: "nat \<Rightarrow> u32" and k
  define st5 where "st5 = putblk c (upd_blk c (buf_update w) st4)"
  have e5: "edited st3 1 (w (\<lambda>_. 0)) st5" using g4(3) by (simp add: st5_def)
  have "(\<lambda>x :: blk. x\<lparr>buf := (\<lambda>k. if k < SIZEOF_SUPER then sup st4 k else buf x k)\<rparr>) = buf_update w"
  proof
    fix x :: blk show "x\<lparr>buf := (\<lambda>k. if k < SIZEOF_SUPER then sup st4 k else buf x k)\<rparr> = buf_update w x"
      by (cases x) (simp add: w_def fun_eq_iff)
  qed
  then have "putblk c (upd_blk c (\<lambda>x. x\<lparr>buf := (\<lambda>k. if k < SIZEOF_SUPER then sup st4 k else buf x k)\<rparr>) st4) = st5"
    by (simp only: st5_def)
  then have run: "finishfs st = Some st5"
    using s1(1) mt g4(1) by (simp add: finishfs_def)
  have "bit_at (g (view st1 2)) i \<longleftrightarrow> nextb st \<le> i \<and> i < nblock st" if "i < BIT2BLK" for i
  proof -
    have "(0xFFFFFFFF :: u32) = - 1" by simp
    then have "bit (0xFFFFFFFF :: u32) (i mod 32)" by (simp only: bit_minus_1_iff) simp
    then have "bit_at (view st 2) i" by (simp only: bit_at_def full)
    then show ?thesis using that by (auto simp: g_def e1(3) bit_at_fold)
  qed
  moreover have "\<forall>k < SIZEOF_SUPER. w (\<lambda>_. 0) k = sup st k" using g4(2) s3 by (simp add: w_def edited_def)
  moreover have "\<forall>x. x \<noteq> 0 \<longrightarrow> view st5 x = (if x = 1 then w (\<lambda>_. 0) else if x = 2 then g (view st1 2) else view st x)"
    using e5 s3 by (simp add: edited_def)
  moreover have "cache_ok st5" using e5 by (simp add: edited_def)
  ultimately show ?thesis using run by blast
qed

section \<open>Writing back the cache\<close>

definition flush_used :: "nat \<Rightarrow> mkfs \<Rightarrow> mkfs" where
  "flush_used i s = (if used (cache s i) \<noteq> 0 then flushb i s else s)"

lemma flush_used_facts:
  "cache (flush_used i s) = cache s"
  "disk_img (flush_used i s) n = (if used (cache s i) \<noteq> 0 \<and> bno (cache s i) = n then buf (cache s i) else disk_img s n)"
  by (simp_all add: flush_used_def flushb_eq)

lemma flush_all:
  assumes "disk_img s n = v \<or> (\<exists>i \<in> set xs. used (cache s i) \<noteq> 0 \<and> bno (cache s i) = n)"
    and "\<And>i. i \<in> set xs \<Longrightarrow> used (cache s i) \<noteq> 0 \<Longrightarrow> bno (cache s i) = n \<Longrightarrow> buf (cache s i) = v"
  shows "disk_img (fold flush_used xs s) n = v"
  using assms
proof (induction xs arbitrary: s)
  case (Cons i xs)
  have "disk_img (fold flush_used xs (flush_used i s)) n = v"
    by (rule Cons.IH; insert Cons.prems) (auto simp: flush_used_facts)
  then show ?case by simp
qed simp

lemma flushdisk_ok:
  assumes "cache_ok st" "n \<noteq> 0"
  shows "disk_img (flushdisk st) n = view st n"
proof -
  have "flushdisk st = fold flush_used [0..<NCACHE] st" by (simp add: flushdisk_def flush_used_def [abs_def])
  moreover have "disk_img (fold flush_used [0..<NCACHE] st) n = view st n"
  proof (rule flush_all)
    have u: "\<And>i. i < NCACHE \<Longrightarrow> bno (cache st i) \<noteq> 0 \<Longrightarrow> used (cache st i) \<noteq> 0" "cache_uniq st"
      using assms(1) by (auto simp: cache_ok_def)
    show "disk_img st n = view st n \<or> (\<exists>i \<in> set [0..<NCACHE]. used (cache st i) \<noteq> 0 \<and> bno (cache st i) = n)"
    proof (cases "\<exists>i < NCACHE. bno (cache st i) = n")
      case True
      then obtain i where "i < NCACHE" "bno (cache st i) = n" by blast
      then show ?thesis using u(1) [of i] assms(2) by auto
    next
      case False
      then show ?thesis using view_disk [of st n] by auto
    qed
    show "buf (cache st i) = view st n" if "i \<in> set [0..<NCACHE]" "bno (cache st i) = n" for i
      using that view_cached(1) [OF u(2) _ that(2) assms(2)] by auto
  qed
  ultimately show ?thesis by simp
qed

section \<open>The image\<close>

text \<open>
  The entry at word \<open>f\<close> of block \<open>D\<close> has the name and the size of the file, and its pointers lead to
  the bytes of it, in blocks below \<open>hi\<close>.
\<close>

definition entry_holds :: "(nat \<Rightarrow> nat \<Rightarrow> u32) \<Rightarrow> nat \<Rightarrow> nat \<Rightarrow> u8 list \<times> u8 list \<Rightarrow> nat \<Rightarrow> bool" where
  "entry_holds img D f nb hi \<longleftrightarrow>
     cstr (\<lambda>j. get_bytes (img D) (4 * f + j)) (fst nb)
     \<and> img D (f + off_size) = of_nat (length (snd nb)) \<and> img D (f + off_type) = FTYPE_REG
     \<and> (\<forall>i < length (snd nb). 3 \<le> block_ptr img D f (i div 4096) \<and> block_ptr img D f (i div 4096) < hi
          \<and> get_bytes (img (block_ptr img D f (i div 4096))) (i mod 4096) = snd nb ! i)"

text \<open>
  A file system of \<open>n\<close> blocks with the files \<open>fs\<close>: the superblock, the bitmap, in which a set bit
  is a free block, and entry \<open>k\<close> of the root directory for file \<open>k\<close>.
\<close>

definition image_holds :: "(nat \<Rightarrow> nat \<Rightarrow> u32) \<Rightarrow> nat \<Rightarrow> (u8 list \<times> u8 list) list \<Rightarrow> bool" where
  "image_holds img n fs \<longleftrightarrow>
     img 1 0 = FS_MAGIC \<and> img 1 1 = of_nat n \<and> img 1 (2 + off_type) = FTYPE_DIR
     \<and> cstr (\<lambda>j. get_bytes (img 1) (8 + j)) [0x2f] \<and> img 1 (2 + off_size) = of_nat (4096 * ndirs (length fs))
     \<and> (\<exists>hi \<le> n. (\<forall>i < BIT2BLK. bit_at (img 2) i \<longleftrightarrow> hi \<le> i \<and> i < n)
          \<and> (\<forall>k < length fs. 3 \<le> dir_blk (img 1) (k div 16) \<and> dir_blk (img 1) (k div 16) < hi
               \<and> entry_holds img (dir_blk (img 1) (k div 16)) (64 * (k mod 16)) (fs ! k) hi))"

lemma entry_holds_stored:
  assumes "file_stored v D f nb ds 3 hi"
  shows "entry_holds v D f nb hi"
proof -
  obtain l h where p: "3 \<le> l" "h \<le> hi" "placed v D f l h (snd nb) (length (snd nb) div 4096 + 1)"
    using assms by (auto simp: file_stored_def)
  have "3 \<le> block_ptr v D f (i div 4096) \<and> block_ptr v D f (i div 4096) < hi
      \<and> get_bytes (v (block_ptr v D f (i div 4096))) (i mod 4096) = snd nb ! i" if "i < length (snd nb)" for i
  proof -
    have "i div 4096 < length (snd nb) div 4096 + 1" using that div_le_mono [of i "length (snd nb)" 4096] by simp
    then have b: "l \<le> block_ptr v D f (i div 4096)" "block_ptr v D f (i div 4096) < h"
        "v (block_ptr v D f (i div 4096)) = block_data (snd nb) (i div 4096)"
      using p(3) by (auto simp: placed_def)
    have "get_bytes (block_data (snd nb) (i div 4096)) (i mod 4096) = snd nb ! (4096 * (i div 4096) + i mod 4096)"
      using that by (intro block_data_byte) simp_all
    then show ?thesis using b p(1,2) by simp
  qed
  then show ?thesis using assms by (simp add: entry_holds_def file_stored_def)
qed

lemma file_stored_image:
  assumes "file_stored v D f nb ds 3 hi" "3 \<le> D" "\<And>x. 3 \<le> x \<Longrightarrow> w x = v x"
  shows "file_stored w D f nb ds 3 hi"
  by (rule file_stored_cong [OF assms(1)]) (use assms(2,3) in auto)

lemma image_of_built:
  assumes b: "built st fs" and nb: "nblock st = n" "nbitblock st = 1"
    and g: "\<And>x. x \<noteq> 0 \<Longrightarrow> g x = (if x = 1 then v1 else if x = 2 then v2 else view st x)"
    and v2: "\<forall>i < BIT2BLK. bit_at v2 i \<longleftrightarrow> nextb st \<le> i \<and> i < n" and v1: "\<forall>k < SIZEOF_SUPER. v1 k = sup st k"
  shows "image_holds g n fs"
proof -
  define nd where "nd = ndirs (length fs)"
  have ok: "dirs_ok st fs nd" "rest_ok st" using b by (simp_all add: built_def nd_def)
  have o: "3 \<le> dir_blk (sup st) k" "dir_blk (sup st) k < nextb st" if "k < nd" for k
    using ok(1) nb(2) that by (simp_all add: dirs_ok_def)
  have nd: "nd \<le> 10" "length fs \<le> 16 * nd" "nextb st \<le> n" using ok(1) nb(1) by (simp_all add: dirs_ok_def NDIRECT_def)
  have v1: "v1 k = sup st k" if "k < 66" for k using v1 that by (simp add: SIZEOF_SUPER_def)
  have db: "dir_blk v1 k = dir_blk (sup st) k" if "k < nd" for k
    using that nd(1) by (simp add: dir_blk_def v1 file_layout)
  have ent: "entry_holds g (dir_blk (sup st) (k div 16)) (64 * (k mod 16)) (fs ! k) (nextb st)" if k: "k < length fs" for k
  proof -
    have kd: "k div 16 < nd" using k nd(2) by (intro dir_div) simp
    have "file_stored (view st) (dir_blk (sup st) (k div 16)) (64 * (k mod 16)) (fs ! k) (dirs st nd) 3 (nextb st)"
      using ok(1) k nb(2) by (simp add: dirs_ok_def)
    then have "file_stored g (dir_blk (sup st) (k div 16)) (64 * (k mod 16)) (fs ! k) (dirs st nd) 3 (nextb st)"
      by (rule file_stored_image) (use o(1) [OF kd] g in auto)
    then show ?thesis by (rule entry_holds_stored)
  qed
  show ?thesis
    unfolding image_holds_def
  proof (intro conjI exI [of _ "nextb st"] allI impI)
    show "cstr (\<lambda>j. get_bytes (g 1) (8 + j)) [0x2f]" using ok(2) by (simp add: rest_ok_def g v1 get_bytes_def)
    show "bit_at (g 2) i \<longleftrightarrow> nextb st \<le> i \<and> i < n" if "i < BIT2BLK" for i using v2 that by (simp add: g)
    fix k assume k: "k < length fs"
    have kd: "k div 16 < nd" using k nd(2) by (intro dir_div) simp
    show "3 \<le> dir_blk (g 1) (k div 16)" "dir_blk (g 1) (k div 16) < nextb st"
      "entry_holds g (dir_blk (g 1) (k div 16)) (64 * (k mod 16)) (fs ! k) (nextb st)"
      using o [OF kd] ent [OF k] by (simp_all add: g db [OF kd])
  qed (use ok nd(3) nb in \<open>simp_all add: g v1 rest_ok_def dirs_ok_def nd_def file_layout\<close>)
qed

text \<open>C20. The builder makes a file system that holds the files: on an image of at most 4 MB, with at
  most 160 files that fit it, none of them empty or of a multiple of the block size, whatever the
  image held before, the program ends, and the image then has the superblock, a bitmap that has the
  unused blocks free and every block of a file or of the directory taken, and for each file, in
  order, the entry with its name and size whose pointers lead to its bytes.\<close>

theorem fsformat_holds_files:
  assumes rd: "reads_ok hr left"
    and disk: "dsize \<le> 4 * 1024 * 1024" "length names \<le> 160"
      "3 + sum_list (map (\<lambda>name. blocks_for (left (the (hopen name)))) names) < dsize div 4096"
    and files: "\<And>name. name \<in> set names \<Longrightarrow> \<exists>h. hopen name = Some h \<and> file_fits name (left h)"
  shows "\<exists>img'. fsformat hr hopen dsize names img = Some img'
    \<and> image_holds img' (dsize div 4096) (map (\<lambda>name. (last_part name, left (the (hopen name)))) names)"
proof -
  define n fs where "n = dsize div 4096" and "fs = map (\<lambda>name. (last_part name, left (the (hopen name)))) names"
  have n: "3 < n" "n \<le> 1024" using disk by (simp_all add: n_def)
  obtain st1 where s1: "opendisk dsize (zero_mkfs img) = Some st1" "built st1 []" "nblock st1 = n" "nbitblock st1 = 1" "nextb st1 = 3"
    using opendisk_ok [OF n n_def [symmetric] disk(1)] by blast
  obtain st2 where s2: "mfold (writefile hr hopen) names st1 = Some st2" "built st2 fs" "nblock st2 = n" "nbitblock st2 = 1"
    using writefiles_ok [OF rd s1(2) _ files] disk s1(3-5) by (auto simp: fs_def n_def)
  obtain st3 v2 v1 where s3: "finishfs st2 = Some st3" "cache_ok st3"
      "\<forall>x. x \<noteq> 0 \<longrightarrow> view st3 x = (if x = 1 then v1 else if x = 2 then v2 else view st2 x)"
      "\<forall>i < BIT2BLK. bit_at v2 i \<longleftrightarrow> nextb st2 \<le> i \<and> i < nblock st2" "\<forall>k < SIZEOF_SUPER. v1 k = sup st2 k"
    using finishfs_ok [OF s2(2,4)] n(2) s2(3) by blast
  define g where "g = disk_img (flushdisk st3)"
  have gv: "g x = (if x = 1 then v1 else if x = 2 then v2 else view st2 x)" if "x \<noteq> 0" for x
    using s3(3) flushdisk_ok [OF s3(2) that] that by (simp add: g_def)
  have run: "fsformat hr hopen dsize names img = Some g" using s1(1) s2(1) s3(1) by (simp add: fsformat_def g_def)
  have "image_holds g n fs"
    by (rule image_of_built [OF s2(2-4)]) (use gv s3(4,5) s2(3) in auto)
  then show ?thesis using run unfolding n_def fs_def by blast
qed

text \<open>A host with one file of three bytes; a handle is what is left of it.\<close>

definition demo_read :: "u8 list reader" where
  "demo_read h n = ((int (length (take n h)), take n h), drop n h)"

definition demo_open :: "u8 list \<Rightarrow> u8 list option" where
  "demo_open name = (if name = [0x62, 0x2f, 0x61] then Some [1, 2, 3] else None)"

lemma demo_read_ok: "reads_ok demo_read (\<lambda>h. h)"
  by (auto simp: reads_ok_def demo_read_def min_def)

theorem fsformat_holds_files_witness:
  "\<exists>img'. fsformat demo_read demo_open 32768 [[0x62, 0x2f, 0x61]] (\<lambda>_ _. 0) = Some img'
    \<and> image_holds img' (32768 div 4096)
        (map (\<lambda>name. (last_part name, the (demo_open name))) [[0x62, 0x2f, 0x61]])"
  by (rule fsformat_holds_files [OF demo_read_ok])
    (simp_all add: demo_open_def blocks_for_def file_fits_def last_part_def NINDIRECT_def)

end
