(* ===== verification/Kcopy.thy ===== *)
theory Kcopy
  imports Printf
begin

text \<open>
  The byte copies of \<open>kern/init.c\<close>, over memory as bytes. In both loops that work on words the
  cast is applied to the pointer after \<open>++\<close>, which moves a \<open>void *\<close> by one byte: a word is copied
  at every byte.
\<close>

unbundle bit_operations_syntax

section \<open>The code\<close>

type_synonym kmem = "u32 \<Rightarrow> u8"

definition wr32 :: "kmem \<Rightarrow> u32 \<Rightarrow> u32 \<Rightarrow> kmem" where
  "wr32 m a w = m(a := get_byte w 0, a + 1 := get_byte w 1, a + 2 := get_byte w 2, a + 3 := get_byte w 3)"

function bcopy_ints :: "kmem \<Rightarrow> u32 \<Rightarrow> u32 \<Rightarrow> u32 \<Rightarrow> kmem \<times> u32 \<times> u32" where
  "bcopy_ints m src dst endp =
     (if dst + 3 < endp then bcopy_ints (wr32 m dst (rd32 m src)) (src + 1) (dst + 1) endp else (m, src, dst))"
  by auto

function bcopy_bytes :: "kmem \<Rightarrow> u32 \<Rightarrow> u32 \<Rightarrow> u32 \<Rightarrow> kmem" where
  "bcopy_bytes m src dst endp = (if dst < endp then bcopy_bytes (m(dst := m src)) (src + 1) (dst + 1) endp else m)"
  by auto

function bzero_ints :: "kmem \<Rightarrow> u32 \<Rightarrow> u32 \<Rightarrow> kmem \<times> u32" where
  "bzero_ints m b endp = (if b + 3 < endp then bzero_ints (wr32 m b 0) (b + 1) endp else (m, b))"
  by auto

function bzero_bytes :: "kmem \<Rightarrow> u32 \<Rightarrow> u32 \<Rightarrow> kmem" where
  "bzero_bytes m b endp = (if b < endp then bzero_bytes (m(b := 0)) (b + 1) endp else m)"
  by auto

text \<open>A pointer that is below \<open>endp\<close> and moves by one reaches it.\<close>

lemma closer: "a < endp \<Longrightarrow> unat (endp - (a + 1)) < unat (endp - a)" for a endp :: u32
proof -
  assume "a < endp"
  then have "endp - a \<noteq> 0" by auto
  moreover have "endp - (a + 1) = endp - a - 1" by simp
  ultimately show ?thesis by (metis unat_1 unat_minus_one lessI less_Suc_eq_le unat_gt_0 diff_less zero_less_one)
qed

termination bcopy_ints
  by (relation "measure (\<lambda>(m, src, dst, endp). unat (endp - (dst + 3)))") (use closer [of "_ + 3"] in \<open>auto simp: add.commute add.left_commute\<close>)

termination bcopy_bytes
  by (relation "measure (\<lambda>(m, src, dst, endp). unat (endp - dst))") (auto simp: closer)

termination bzero_ints
  by (relation "measure (\<lambda>(m, b, endp). unat (endp - (b + 3)))") (use closer [of "_ + 3"] in \<open>auto simp: add.commute add.left_commute\<close>)

termination bzero_bytes
  by (relation "measure (\<lambda>(m, b, endp). unat (endp - b))") (auto simp: closer)

declare bcopy_ints.simps [simp del] bcopy_bytes.simps [simp del] bzero_ints.simps [simp del] bzero_bytes.simps [simp del]

definition bcopy :: "kmem \<Rightarrow> u32 \<Rightarrow> u32 \<Rightarrow> u32 \<Rightarrow> kmem" where
  "bcopy m src dst len =
     (let endp = dst + len; (m1, src1, dst1) = bcopy_ints m src dst endp in bcopy_bytes m1 src1 dst1 endp)"

definition bzero :: "kmem \<Rightarrow> u32 \<Rightarrow> u32 \<Rightarrow> kmem" where
  "bzero m b len = (let endp = b + len; (m1, b1) = bzero_ints m b endp in bzero_bytes m1 b1 endp)"

section \<open>A word is four bytes\<close>

lemma get_byte_rd32:
  assumes "i < 4"
  shows "get_byte (rd32 m a) i = m (a + of_nat i)"
proof -
  have "i = 0 \<or> i = 1 \<or> i = 2 \<or> i = 3" using assms by auto
  then show ?thesis
    by (elim disjE) (rule bit_word_eqI;
      auto simp: get_byte_def rd32_def word_of_bytes_def bit_simps dest: bit_imp_le_length)+
qed

lemma wr32_at: "wr32 m a w x = (if unat (x - a) < 4 then get_byte w (unat (x - a)) else m x)"
proof (cases "unat (x - a) < 4")
  case True
  then have "x - a = 0 \<or> x - a = 1 \<or> x - a = 2 \<or> x - a = 3"
    by (simp add: word_unat_eq_iff) linarith
  then have "x = a \<or> x = a + 1 \<or> x = a + 2 \<or> x = a + 3" by (auto simp: algebra_simps)
  then show ?thesis by (auto simp: wr32_def)
next
  case False
  then have "x \<noteq> a" "x \<noteq> a + 1" "x \<noteq> a + 2" "x \<noteq> a + 3" by auto
  then show ?thesis using False by (simp add: wr32_def)
qed

section \<open>The copy\<close>

text \<open>The first \<open>j\<close> bytes are there.\<close>

definition part_copied :: "kmem \<Rightarrow> u32 \<Rightarrow> u32 \<Rightarrow> nat \<Rightarrow> kmem" where
  "part_copied m src dst j x = (if unat (x - dst) < j then m (src + (x - dst)) else m x)"

text \<open>What is read has not been written yet.\<close>

definition copies_apart :: "u32 \<Rightarrow> u32 \<Rightarrow> nat \<Rightarrow> bool" where
  "copies_apart src dst n \<longleftrightarrow> (\<forall>i < n. min n (i + 4) \<le> unat (src + of_nat i - dst))"

lemma copy_int_step:
  assumes a: "copies_apart src dst n" and k: "k + 4 \<le> n" "n < 2 ^ 32" and j: "j = (if k = 0 then 0 else k + 3)"
  shows "wr32 (part_copied m src dst j) (dst + of_nat k) (rd32 (part_copied m src dst j) (src + of_nat k))
    = part_copied m src dst (k + 4)"
proof
  fix x
  let ?p = "part_copied m src dst j"
  define e where "e = x - (dst + of_nat k)"
  have x: "x - dst = of_nat k + e" by (simp add: e_def)
  have uk: "unat (of_nat k :: u32) = k" using k by (intro unat_of_nat_u32) simp
  show "wr32 ?p (dst + of_nat k) (rd32 ?p (src + of_nat k)) x = part_copied m src dst (k + 4) x"
  proof (cases "unat e < 4")
    case True
    define i where "i = k + unat e"
    have ui: "unat (x - dst) = i" unfolding x i_def using True k uk by (subst unat_add_lem [THEN iffD1]) simp_all
    have i: "i < n" "j \<le> min n (i + 4)" using True k j by (auto simp: i_def)
    have y: "src + of_nat k + e = src + of_nat i" by (simp add: i_def)
    have "j \<le> unat (src + of_nat i - dst)" using a i unfolding copies_apart_def by (metis le_trans)
    then have "?p (src + of_nat i) = m (src + of_nat i)" by (simp add: part_copied_def)
    moreover have "wr32 ?p (dst + of_nat k) (rd32 ?p (src + of_nat k)) x = ?p (src + of_nat k + e)"
      using True by (simp add: wr32_at e_def [symmetric] get_byte_rd32)
    moreover have "part_copied m src dst (k + 4) x = m (src + of_nat i)"
    proof -
      have "src + (x - dst) = src + of_nat i" by (simp add: x i_def)
      moreover have "unat (x - dst) < k + 4" unfolding ui using True by (simp add: i_def)
      ultimately show ?thesis by (simp only: part_copied_def if_True)
    qed
    ultimately show ?thesis by (simp only: y)
  next
    case False
    have "unat (x - dst) < j \<longleftrightarrow> unat (x - dst) < k + 4"
    proof (cases "k \<le> unat (x - dst)")
      case True
      have "e = (x - dst) - of_nat k" by (simp add: x)
      then have "unat e = unat (x - dst) - k" using True uk by (simp add: unat_sub word_le_nat_alt)
      then show ?thesis using False j True by auto
    next
      case nk: False
      then show ?thesis using j by auto
    qed
    then show ?thesis using False by (simp add: wr32_at e_def [symmetric] part_copied_def)
  qed
qed

text \<open>A region that does not reach the end of the address space.\<close>

lemma ptr_less:
  fixes dst :: u32
  assumes "unat dst + n + 3 < 2 ^ 32" "k \<le> n + 3"
  shows "dst + of_nat k < dst + of_nat n \<longleftrightarrow> k < n"
proof -
  have "unat (of_nat i :: u32) = i" if "i \<le> n + 3" for i using assms(1) that by (intro unat_of_nat_u32) simp
  then have "unat (dst + of_nat i) = unat dst + i" if "i \<le> n + 3" for i
    using assms(1) that by (subst unat_add_lem [THEN iffD1]) simp_all
  then show ?thesis using assms(2) by (simp add: word_less_nat_alt)
qed

lemma bcopy_ints_ok:
  assumes a: "copies_apart src dst n" and n: "unat dst + n + 3 < 2 ^ 32" and k: "k \<le> n - 3"
  shows "bcopy_ints (part_copied m src dst (if k = 0 then 0 else k + 3)) (src + of_nat k) (dst + of_nat k) (dst + of_nat n)
    = (part_copied m src dst (if n < 4 then 0 else n), src + of_nat (n - 3), dst + of_nat (n - 3))"
  using k
proof (induction "n - k" arbitrary: k rule: less_induct)
  case less
  have c: "dst + of_nat k + 3 < dst + of_nat n \<longleftrightarrow> k + 3 < n"
    using ptr_less [OF n, of "k + 3"] less(2) by (simp add: algebra_simps)
  show ?case
  proof (cases "k + 3 < n")
    case True
    have "wr32 (part_copied m src dst (if k = 0 then 0 else k + 3)) (dst + of_nat k)
        (rd32 (part_copied m src dst (if k = 0 then 0 else k + 3)) (src + of_nat k)) = part_copied m src dst (k + 4)"
      by (rule copy_int_step [OF a _ _ refl]) (use True n in simp_all)
    moreover have "bcopy_ints (part_copied m src dst (k + 4)) (src + of_nat k + 1) (dst + of_nat k + 1) (dst + of_nat n)
        = (part_copied m src dst (if n < 4 then 0 else n), src + of_nat (n - 3), dst + of_nat (n - 3))"
      using less(1) [of "k + 1"] True by (simp add: add.commute add.left_commute eval_nat_numeral)
    ultimately show ?thesis using c True by (subst bcopy_ints.simps) simp
  next
    case False
    then have "k = n - 3" using less(2) by simp
    then show ?thesis using c False by (subst bcopy_ints.simps) auto
  qed
qed

lemma copy_byte_step:
  assumes a: "copies_apart src dst n" and k: "k < n" "n < 2 ^ 32" and j: "j = k \<or> k + 3 \<ge> n \<and> j = n"
  shows "(part_copied m src dst j)(dst + of_nat k := part_copied m src dst j (src + of_nat k)) = part_copied m src dst (max j (k + 1))"
proof
  fix x
  have uk: "unat (of_nat k :: u32) = k" using k by (intro unat_of_nat_u32) simp
  have "min n (k + 4) \<le> unat (src + of_nat k - dst)" using a k(1) by (simp add: copies_apart_def)
  then have "\<not> unat (src + of_nat k - dst) < j" using j k(1) by auto
  then have r: "part_copied m src dst j (src + of_nat k) = m (src + of_nat k)" by (simp add: part_copied_def)
  show "((part_copied m src dst j)(dst + of_nat k := part_copied m src dst j (src + of_nat k))) x = part_copied m src dst (max j (k + 1)) x"
  proof (cases "x = dst + of_nat k")
    case True
    moreover have "k < max j (k + 1)" by simp
    ultimately show ?thesis unfolding r by (simp add: part_copied_def uk del: less_max_iff_disj)
  next
    case False
    have "unat (x - dst) \<noteq> k"
    proof
      assume "unat (x - dst) = k"
      then have "x - dst = of_nat k" using uk by (simp only: word_unat_eq_iff)
      then show False using False by (metis add.commute diff_add_cancel)
    qed
    then have "unat (x - dst) < max j (k + 1) \<longleftrightarrow> unat (x - dst) < j" using j k(1) by auto
    then show ?thesis using False by (simp add: part_copied_def)
  qed
qed

lemma bcopy_bytes_ok:
  assumes a: "copies_apart src dst n" and n: "unat dst + n + 3 < 2 ^ 32"
    and k: "k \<le> n" and j: "j = k \<or> n \<le> k + 3 \<and> j = n"
  shows "bcopy_bytes (part_copied m src dst j) (src + of_nat k) (dst + of_nat k) (dst + of_nat n) = part_copied m src dst n"
  using k j
proof (induction "n - k" arbitrary: k j rule: less_induct)
  case less
  have c: "dst + of_nat k < dst + of_nat n \<longleftrightarrow> k < n" using ptr_less [OF n, of k] less(2) by simp
  show ?case
  proof (cases "k < n")
    case True
    note s = copy_byte_step [OF a True _ less(3), of m]
    have "bcopy_bytes (part_copied m src dst (max j (k + 1))) (src + of_nat (k + 1)) (dst + of_nat (k + 1)) (dst + of_nat n) = part_copied m src dst n"
      using True less(3) by (intro less(1)) auto
    then show ?thesis using c True s n by (subst bcopy_bytes.simps) (simp add: add.commute add.left_commute)
  next
    case False
    then show ?thesis using c less(2,3) by (subst bcopy_bytes.simps) auto
  qed
qed

lemma part_copied_none: "part_copied m src dst 0 = m"
  by (simp add: part_copied_def fun_eq_iff)

text \<open>\<open>bcopy\<close> copies, when the source is far enough behind the target or apart from it.\<close>

lemma bcopy_ok:
  assumes "copies_apart src dst (unat len)" "unat dst + unat len + 3 < 2 ^ 32"
  shows "bcopy m src dst len = part_copied m src dst (unat len)"
proof -
  have e: "dst + of_nat (unat len) = dst + len" by simp
  show ?thesis
    using bcopy_ints_ok [OF assms, of 0 m] bcopy_bytes_ok [OF assms, of "unat len - 3" "if unat len < 4 then 0 else unat len" m]
    by (auto simp: bcopy_def Let_def part_copied_none split: if_splits)
qed

lemma copies_apart_behind:
  assumes "unat dst + 4 \<le> unat src" "unat src + n \<le> 2 ^ 32"
  shows "copies_apart src dst n"
  unfolding copies_apart_def
proof (intro allI impI)
  fix i assume i: "i < n"
  then have ui: "unat (of_nat i :: u32) = i" using assms(2) by (intro unat_of_nat_u32) simp
  have "unat (src + of_nat i) = unat src + i" using assms(2) i ui by (subst unat_add_lem [THEN iffD1]) simp_all
  then have "unat (src + of_nat i - dst) = unat src + i - unat dst" using assms(1) by (subst unat_sub) (simp_all add: word_le_nat_alt)
  then show "min n (i + 4) \<le> unat (src + of_nat i - dst)" using assms(1) by simp
qed

section \<open>Clearing\<close>

definition part_zeroed :: "kmem \<Rightarrow> u32 \<Rightarrow> nat \<Rightarrow> kmem" where
  "part_zeroed m b j x = (if unat (x - b) < j then 0 else m x)"

lemma ofs_eq: "k < 2 ^ 32 \<Longrightarrow> unat (x - b) = k \<longleftrightarrow> x = b + of_nat k" for x :: u32
proof -
  assume "k < 2 ^ 32"
  then have "unat (x - b) = k \<longleftrightarrow> x - b = of_nat k" by (simp add: word_unat_eq_iff unat_of_nat_u32)
  then show ?thesis by (auto simp: algebra_simps)
qed

lemma zero_int_step:
  assumes "k + 4 < 2 ^ 32" "j = (if k = 0 then 0 else k + 3)"
  shows "wr32 (part_zeroed m b j) (b + of_nat k) 0 = part_zeroed m b (k + 4)"
proof
  fix x
  have g: "get_byte 0 i = 0" for i by (simp add: get_byte_def)
  have o: "unat (x - b) = k + i \<longleftrightarrow> x = b + of_nat k + of_nat i" if "i < 4" for i
    using ofs_eq [of "k + i" x b] assms(1) that by (simp add: add.assoc)
  show "wr32 (part_zeroed m b j) (b + of_nat k) 0 x = part_zeroed m b (k + 4) x"
  proof (cases "x = b + of_nat k \<or> x = b + of_nat k + 1 \<or> x = b + of_nat k + 2 \<or> x = b + of_nat k + 3")
    case True
    then have "unat (x - b) < k + 4" using o [of 0] o [of 1] o [of 2] o [of 3] by auto
    then show ?thesis using True by (auto simp: wr32_def g part_zeroed_def)
  next
    case False
    then have "unat (x - b) \<noteq> k" "unat (x - b) \<noteq> k + 1" "unat (x - b) \<noteq> k + 2" "unat (x - b) \<noteq> k + 3"
      using o [of 0] o [of 1] o [of 2] o [of 3] by auto
    then have "unat (x - b) < j \<longleftrightarrow> unat (x - b) < k + 4" using assms(2) by auto
    then show ?thesis using False by (simp add: wr32_def part_zeroed_def)
  qed
qed

lemma bzero_ints_ok:
  assumes n: "unat b + n + 3 < 2 ^ 32" and k: "k \<le> n - 3"
  shows "bzero_ints (part_zeroed m b (if k = 0 then 0 else k + 3)) (b + of_nat k) (b + of_nat n)
    = (part_zeroed m b (if n < 4 then 0 else n), b + of_nat (n - 3))"
  using k
proof (induction "n - k" arbitrary: k rule: less_induct)
  case less
  have c: "b + of_nat k + 3 < b + of_nat n \<longleftrightarrow> k + 3 < n"
    using ptr_less [OF n, of "k + 3"] less(2) by (simp add: algebra_simps)
  show ?case
  proof (cases "k + 3 < n")
    case True
    have "bzero_ints (part_zeroed m b (k + 4)) (b + of_nat k + 1) (b + of_nat n)
        = (part_zeroed m b (if n < 4 then 0 else n), b + of_nat (n - 3))"
      using less(1) [of "k + 1"] True by (simp add: add.commute add.left_commute eval_nat_numeral)
    then show ?thesis using c True zero_int_step [OF _ refl, of k m b] n by (subst bzero_ints.simps) simp
  next
    case False
    then have "k = n - 3" using less(2) by simp
    then show ?thesis using c False by (subst bzero_ints.simps) auto
  qed
qed

lemma bzero_bytes_ok:
  assumes n: "unat b + n + 3 < 2 ^ 32" and k: "k \<le> n" and j: "j = k \<or> n \<le> k + 3 \<and> j = n"
  shows "bzero_bytes (part_zeroed m b j) (b + of_nat k) (b + of_nat n) = part_zeroed m b n"
  using k j
proof (induction "n - k" arbitrary: k j rule: less_induct)
  case less
  have c: "b + of_nat k < b + of_nat n \<longleftrightarrow> k < n" using ptr_less [OF n, of k] less(2) by simp
  show ?case
  proof (cases "k < n")
    case True
    have "(part_zeroed m b j)(b + of_nat k := 0) = part_zeroed m b (max j (k + 1))"
      using ofs_eq [of k _ b] n True less(3) by (fastforce simp: part_zeroed_def fun_eq_iff)
    moreover have "bzero_bytes (part_zeroed m b (max j (k + 1))) (b + of_nat (k + 1)) (b + of_nat n) = part_zeroed m b n"
      using True less(3) by (intro less(1)) auto
    ultimately show ?thesis using c True by (subst bzero_bytes.simps) (simp add: add.commute add.left_commute)
  next
    case False
    then show ?thesis using c less(2,3) by (subst bzero_bytes.simps) auto
  qed
qed

lemma bzero_ok:
  assumes "unat b + unat len + 3 < 2 ^ 32"
  shows "bzero m b len = part_zeroed m b (unat len)"
proof -
  have z: "part_zeroed m b 0 = m" by (simp add: part_zeroed_def fun_eq_iff)
  have e: "b + of_nat (unat len) = b + len" by simp
  show ?thesis
    using bzero_ints_ok [OF assms, of 0 m] bzero_bytes_ok [OF assms, of "unat len - 3" "if unat len < 4 then 0 else unat len" m]
    by (auto simp: bzero_def Let_def z split: if_splits)
qed

end
