(* ===== verification/Ports.thy ===== *)
theory Ports
  imports Kcopy Mmu
begin

text \<open>
  The ports of the processor, \<open>inb\<close> and \<open>outb\<close> of \<open>inc/x86.h\<close>. What a device answers to a read may
  depend on every access before it: a device is a function from the accesses so far and a port to
  the byte that is read.
\<close>

unbundle bit_operations_syntax

datatype access = In_port u32 | Out_port u32 u8

type_synonym accesses = "access list"
type_synonym device = "accesses \<Rightarrow> u32 \<Rightarrow> u8"

definition inb :: "device \<Rightarrow> u32 \<Rightarrow> accesses \<Rightarrow> u8 \<times> accesses" where
  "inb dev p h = (dev h p, h @ [In_port p])"

definition outb :: "u32 \<Rightarrow> u8 \<Rightarrow> accesses \<Rightarrow> accesses" where
  "outb p v h = h @ [Out_port p v]"

text \<open>\<open>insl\<close>: words are read from the port one after the other and stored from an address on.\<close>

type_synonym device32 = "accesses \<Rightarrow> u32 \<Rightarrow> u32"

fun insl :: "device32 \<Rightarrow> u32 \<Rightarrow> u32 \<Rightarrow> nat \<Rightarrow> kmem \<times> accesses \<Rightarrow> kmem \<times> accesses" where
  "insl dev p a 0 (m, h) = (m, h)"
| "insl dev p a (Suc n) (m, h) = insl dev p (a + 4) n (wr32 m a (dev h p), h @ [In_port p])"

text \<open>The bytes that were written to a port.\<close>

definition written_to :: "u32 \<Rightarrow> accesses \<Rightarrow> u8 list" where
  "written_to p h = concat (map (\<lambda>a. case a of Out_port q v \<Rightarrow> if q = p then [v] else [] | In_port q \<Rightarrow> []) h)"

lemma written_to_simps [simp]:
  "written_to p (h @ k) = written_to p h @ written_to p k"
  "written_to p (outb q v h) = written_to p h @ (if q = p then [v] else [])"
  "written_to p (snd (inb dev q h)) = written_to p h"
  by (simp_all add: written_to_def outb_def inb_def)

end
