(* ===== verification/Cga.thy ===== *)
theory Cga
  imports Ports "HOL-Library.Signed_Division"
begin

text \<open>
  Console output: the screen and the parallel port of \<open>kern/console.c\<close>. The screen is memory at
  \<open>crt_buf\<close>, two bytes for each of 25 lines of 80 characters; \<open>crt_pos\<close> is a \<open>short\<close>.
\<close>

unbundle bit_operations_syntax

section \<open>Words of 16 bits in memory\<close>

definition rd16 :: "kmem \<Rightarrow> u32 \<Rightarrow> u16" where
  "rd16 m a = ucast (m a) OR push_bit 8 (ucast (m (a + 1)))"

definition wr16 :: "kmem \<Rightarrow> u32 \<Rightarrow> u16 \<Rightarrow> kmem" where
  "wr16 m a v = m(a := ucast v, a + 1 := ucast (drop_bit 8 v))"

section \<open>The code\<close>

definition MONO_BASE :: u32 where "MONO_BASE = 0x3b4"
definition MONO_BUF :: u32 where "MONO_BUF = 0xb0000"
definition CGA_BASE :: u32 where "CGA_BASE = 0x3d4"
definition CGA_BUF :: u32 where "CGA_BUF = 0xb8000"

definition CRT_ROWS :: nat where "CRT_ROWS = 25"
definition CRT_COLS :: nat where "CRT_COLS = 80"
definition CRT_SIZE :: nat where "CRT_SIZE = CRT_ROWS * CRT_COLS"

record crt =
  kmem :: kmem
  crt_buf :: u32
  crt_pos :: u16
  addr_6845 :: u32
  ports :: accesses

definition delay :: "device \<Rightarrow> accesses \<Rightarrow> accesses" where
  "delay dev h = snd (inb dev 0x84 (snd (inb dev 0x84 (snd (inb dev 0x84 (snd (inb dev 0x84 h)))))))"

text \<open>The wait for the printer; the first argument is what is left of the 12800 rounds.\<close>

fun lpt_wait :: "device \<Rightarrow> nat \<Rightarrow> accesses \<Rightarrow> accesses" where
  "lpt_wait dev 0 h = snd (inb dev (0x378 + 1) h)"
| "lpt_wait dev (Suc n) h =
     (let (v, h1) = inb dev (0x378 + 1) h in if v AND 0x80 \<noteq> 0 then h1 else lpt_wait dev n (delay dev h1))"

definition lpt_putc :: "device \<Rightarrow> u32 \<Rightarrow> accesses \<Rightarrow> accesses" where
  "lpt_putc dev c h =
     outb (0x378 + 2) 0x08 (outb (0x378 + 2) (0x08 OR 0x01) (outb (0x378 + 0) (ucast c) (lpt_wait dev 12800 h)))"

text \<open>
  \<open>cga_init\<close>: \<open>keeps\<close> tells whether the memory of the color adapter is there, so that the test word
  is read back.
\<close>

definition cga_init :: "device \<Rightarrow> bool \<Rightarrow> kmem \<Rightarrow> accesses \<Rightarrow> crt" where
  "cga_init dev keeps m h =
     (let cp = KERNBASE + CGA_BUF; was = rd16 m cp;
          (cp1, addr, m1) = (if \<not> keeps then (KERNBASE + MONO_BUF, MONO_BASE, m)
                             else (cp, CGA_BASE, wr16 (wr16 m cp 0xA55A) cp was));
          (hi, h1) = inb dev (addr + 1) (outb addr 14 h);
          (lo, h2) = inb dev (addr + 1) (outb addr 15 h1);
          pos = push_bit 8 (ucast hi) OR ucast lo :: u32
      in \<lparr>kmem = m1, crt_buf = cp1, crt_pos = ucast pos, addr_6845 = addr, ports = h2\<rparr>)"

definition crt_store :: "u16 \<Rightarrow> u32 \<Rightarrow> crt \<Rightarrow> crt" where
  "crt_store i c s = s\<lparr>kmem := wr16 (kmem s) (crt_buf s + 2 * scast i) (ucast c)\<rparr>"

definition crt_column :: "u16 \<Rightarrow> u16" where
  "crt_column p = word_of_int (sint p smod int CRT_COLS)"

text \<open>The \<open>switch\<close>, but for the tabulator.\<close>

definition cga_char :: "u32 \<Rightarrow> crt \<Rightarrow> crt" where
  "cga_char c s =
     (if c AND 0xff = 0x08 then
        (if sint (crt_pos s) > 0
         then crt_store (crt_pos s - 1) (c AND NOT 0xff OR 0x20) (s\<lparr>crt_pos := crt_pos s - 1\<rparr>) else s)
      else if c AND 0xff = 0x0a then
        (let p = crt_pos s + of_nat CRT_COLS in s\<lparr>crt_pos := p - crt_column p\<rparr>)
      else if c AND 0xff = 0x0d then s\<lparr>crt_pos := crt_pos s - crt_column (crt_pos s)\<rparr>
      else (crt_store (crt_pos s) c s)\<lparr>crt_pos := crt_pos s + 1\<rparr>)"

definition crt_scroll :: "crt \<Rightarrow> crt" where
  "crt_scroll s =
     (if sint (crt_pos s) \<ge> int CRT_SIZE then
        (let m = bcopy (kmem s) (crt_buf s + 2 * of_nat CRT_COLS) (crt_buf s) (of_nat (2 * CRT_SIZE))
         in s\<lparr>kmem := fold (\<lambda>i m. wr16 m (crt_buf s + 2 * of_nat i) (0x0700 OR 0x20)) [CRT_SIZE - CRT_COLS..<CRT_SIZE] m,
              crt_pos := crt_pos s - of_nat CRT_COLS\<rparr>)
      else s)"

definition crt_cursor :: "crt \<Rightarrow> crt" where
  "crt_cursor s =
     s\<lparr>ports := outb (addr_6845 s + 1) (ucast (crt_pos s)) (outb (addr_6845 s) 15
        (outb (addr_6845 s + 1) (ucast (drop_bit 8 (crt_pos s))) (outb (addr_6845 s) 14 (ports s))))\<rparr>"

definition cga_attr :: "u32 \<Rightarrow> u32" where
  "cga_attr c = (if c AND NOT 0xff = 0 then c OR 0x0700 else c)"

text \<open>A tabulator is five calls of \<open>cons_putc\<close> with a blank, which do not come here again.\<close>

definition cons_blank :: "device \<Rightarrow> crt \<Rightarrow> crt" where
  "cons_blank dev s = crt_cursor (crt_scroll (cga_char (cga_attr 0x20) (s\<lparr>ports := lpt_putc dev 0x20 (ports s)\<rparr>)))"

definition cga_putc :: "device \<Rightarrow> u32 \<Rightarrow> crt \<Rightarrow> crt" where
  "cga_putc dev c s =
     (let c1 = cga_attr c
      in crt_cursor (crt_scroll
           (if c1 AND 0xff = 0x09 then cons_blank dev (cons_blank dev (cons_blank dev (cons_blank dev (cons_blank dev s))))
            else cga_char c1 s)))"

definition cons_putc :: "device \<Rightarrow> u32 \<Rightarrow> crt \<Rightarrow> crt" where
  "cons_putc dev c s = cga_putc dev c (s\<lparr>ports := lpt_putc dev c (ports s)\<rparr>)"

end
