(* ===== verification/Cga_Props.thy ===== *)
theory Cga_Props
  imports Cga
begin

text \<open>
  The screen as a terminal: 2000 cells and a cursor. Every character that is put on the console
  changes the cells and the cursor as on a terminal that scrolls, and nothing outside of the screen.
\<close>

unbundle bit_operations_syntax

section \<open>Cells\<close>

lemma rd16_wr16: "rd16 (wr16 m a v) a = v"
proof (rule bit_word_eqI)
  fix n :: nat assume "n < LENGTH(16)"
  then show "bit (rd16 (wr16 m a v) a) n = bit v n"
    by (cases "n < 8") (auto simp: rd16_def wr16_def bit_simps dest: bit_imp_le_length)
qed

lemma rd16_cong: "m a = m' a \<Longrightarrow> m (a + 1) = m' (a + 1) \<Longrightarrow> rd16 m a = rd16 m' a"
  by (simp add: rd16_def)

text \<open>The buffer, with the line behind it that the scroll reads, does not wrap.\<close>

definition screen_fits :: "u32 \<Rightarrow> bool" where
  "screen_fits b \<longleftrightarrow> unat b + 4200 < 2 ^ 32"

definition cell :: "crt \<Rightarrow> nat \<Rightarrow> u16" where
  "cell s i = rd16 (kmem s) (crt_buf s + 2 * of_nat i)"

lemma cell_addr:
  assumes "screen_fits b" "i < 4200"
  shows "unat (b + of_nat i) = unat b + i"
proof -
  have "unat (of_nat i :: u32) = i" using assms(2) by (intro unat_of_nat_u32) simp
  then show ?thesis using assms by (subst unat_add_lem [THEN iffD1]) (simp_all add: screen_fits_def)
qed

lemma cell_addr_eq:
  assumes "screen_fits b" "i < 4200" "j < 4200"
  shows "b + of_nat i = b + of_nat j \<longleftrightarrow> i = j"
  using cell_addr [OF assms(1,2)] cell_addr [OF assms(1,3)] by (metis add_left_cancel)

lemma wr16_cell:
  assumes b: "screen_fits b" and i: "i < 2090" "j < 2090"
  shows "rd16 (wr16 m (b + 2 * of_nat i) v) (b + 2 * of_nat j) = (if j = i then v else rd16 m (b + 2 * of_nat j))"
proof (cases "j = i")
  case False
  have e: "b + of_nat (2 * k) = b + 2 * of_nat k" "b + of_nat (2 * k + 1) = b + 2 * of_nat k + 1" for k :: nat
    by (simp_all add: algebra_simps)
  have f: "b + of_nat p \<noteq> b + of_nat q" if "p \<noteq> q" "p < 4200" "q < 4200" for p q
    using that cell_addr_eq [OF b] by simp
  have o: "2 * j \<noteq> 2 * i + 1" "2 * j + 1 \<noteq> 2 * i" by presburger+
  have "b + 2 * of_nat j \<noteq> b + 2 * of_nat i" using f [of "2 * j" "2 * i"] i False by (simp only: e) simp
  moreover have "b + 2 * of_nat j \<noteq> b + 2 * of_nat i + 1" using f [OF o(1)] i unfolding e by simp
  moreover have "b + 2 * of_nat j + 1 \<noteq> b + 2 * of_nat i" using f [OF o(2)] i unfolding e by simp
  moreover have "b + 2 * of_nat j + 1 \<noteq> b + 2 * of_nat i + 1" using f [of "2 * j + 1" "2 * i + 1"] i False by (simp only: e) simp
  ultimately show ?thesis using False by (simp add: rd16_def wr16_def)
qed (simp add: rd16_wr16)

section \<open>The terminal\<close>

record terminal =
  cells :: "u16 list"
  cursor :: nat

definition blank :: u16 where "blank = 0x0720"

text \<open>A character with its attributes: back space, new line, carriage return, or one to show.\<close>

definition term_char :: "u32 \<Rightarrow> terminal \<Rightarrow> terminal" where
  "term_char c t =
     (if c AND 0xff = 8 then
        (if cursor t = 0 then t
         else \<lparr>cells = (cells t)[cursor t - 1 := ucast (c AND NOT 0xff OR 0x20)], cursor = cursor t - 1\<rparr>)
      else if c AND 0xff = 10 then t\<lparr>cursor := (cursor t div 80 + 1) * 80\<rparr>
      else if c AND 0xff = 13 then t\<lparr>cursor := cursor t div 80 * 80\<rparr>
      else \<lparr>cells = (cells t)[cursor t := ucast c], cursor = cursor t + 1\<rparr>)"

text \<open>Behind the last cell all lines move up, and the last one becomes empty.\<close>

definition term_scroll :: "terminal \<Rightarrow> terminal" where
  "term_scroll t =
     (if cursor t < CRT_SIZE then t
      else \<lparr>cells = drop 80 (cells t) @ replicate 80 blank, cursor = cursor t - 80\<rparr>)"

definition term_put :: "u32 \<Rightarrow> terminal \<Rightarrow> terminal" where
  "term_put c t =
     (if cga_attr c AND 0xff = 9 then (let f = (\<lambda>t. term_scroll (term_char (cga_attr 0x20) t)) in f (f (f (f (f t)))))
      else term_scroll (term_char (cga_attr c) t))"

definition term_of :: "crt \<Rightarrow> terminal" where
  "term_of s = \<lparr>cells = map (cell s) [0..<CRT_SIZE], cursor = unat (crt_pos s)\<rparr>"

definition screen_ok :: "crt \<Rightarrow> bool" where
  "screen_ok s \<longleftrightarrow> screen_fits (crt_buf s) \<and> unat (crt_pos s) < CRT_SIZE"

text \<open>Before the scroll the cursor may be one line below.\<close>

definition screen_edge :: "crt \<Rightarrow> bool" where
  "screen_edge s \<longleftrightarrow> screen_fits (crt_buf s) \<and> unat (crt_pos s) < CRT_SIZE + CRT_COLS"

text \<open>Memory outside of the screen, and the buffer and the chip, stay.\<close>

definition screen_only :: "crt \<Rightarrow> crt \<Rightarrow> bool" where
  "screen_only s s' \<longleftrightarrow>
     crt_buf s' = crt_buf s \<and> addr_6845 s' = addr_6845 s
     \<and> (\<forall>a. unat (a - crt_buf s) \<ge> 2 * CRT_SIZE \<longrightarrow> kmem s' a = kmem s a)"

lemma screen_only_trans: "screen_only a b \<Longrightarrow> screen_only b c \<Longrightarrow> screen_only a c"
  by (simp add: screen_only_def)

lemma screen_only_same: "kmem s' = kmem s \<Longrightarrow> crt_buf s' = crt_buf s \<Longrightarrow> addr_6845 s' = addr_6845 s \<Longrightarrow> screen_only s s'"
  by (simp add: screen_only_def)

lemmas crt_sizes = CRT_SIZE_def CRT_ROWS_def CRT_COLS_def

lemma pos_sint:
  fixes p :: u16
  assumes "unat p < CRT_SIZE + CRT_COLS"
  shows "sint p = int (unat p)" "scast p = (of_nat (unat p) :: u32)"
proof -
  have u: "unat p < 2080" using assms by (simp add: crt_sizes)
  have n: "uint p = int (unat p)" by (rule uint_nat)
  have b: "uint p < 2080" unfolding n using u by linarith
  have b0: "0 \<le> uint p" by simp
  have "sint p = signed_take_bit 15 (uint p)" by (simp add: sint_uint)
  also have "\<dots> = uint p" using b b0 by (intro signed_take_bit_int_eq_self order_trans [OF _ b0] less_trans [OF b]) simp_all
  finally show s: "sint p = int (unat p)" by (simp only: n)
  have "(scast p :: u32) = word_of_int (sint p)" by (simp only: scast_eq)
  then show "scast p = (of_nat (unat p) :: u32)" by (simp add: s)
qed

lemma crt_store_ok:
  assumes "screen_fits (crt_buf s)" "unat i < CRT_SIZE"
  shows "j < CRT_SIZE \<Longrightarrow> cell (crt_store i c s) j = (if j = unat i then ucast c else cell s j)"
    and "screen_only s (crt_store i c s)" "crt_pos (crt_store i c s) = crt_pos s" "ports (crt_store i c s) = ports s"
proof -
  have i: "scast i = (of_nat (unat i) :: u32)" using assms(2) by (intro pos_sint) (simp add: crt_sizes)
  show "cell (crt_store i c s) j = (if j = unat i then ucast c else cell s j)" if "j < CRT_SIZE"
    using wr16_cell [OF assms(1), of "unat i" j] assms(2) that by (simp add: cell_def crt_store_def i crt_sizes)
  have "unat (a - crt_buf s) \<ge> 2 * CRT_SIZE \<Longrightarrow> kmem (crt_store i c s) a = kmem s a" for a
  proof -
    assume a: "unat (a - crt_buf s) \<ge> 2 * CRT_SIZE"
    have "a \<noteq> crt_buf s + of_nat k" if "k < 2 * CRT_SIZE" for k
    proof
      assume e: "a = crt_buf s + of_nat k"
      have "unat (of_nat k :: u32) = k" using that by (intro unat_of_nat_u32) (simp add: crt_sizes)
      then show False using a that e by simp
    qed
    from this [of "2 * unat i"] this [of "2 * unat i + 1"] assms(2) show ?thesis
      by (simp add: crt_store_def wr16_def i algebra_simps)
  qed
  then show "screen_only s (crt_store i c s)" by (simp add: screen_only_def crt_store_def)
qed (simp_all add: crt_store_def)

section \<open>One character\<close>

lemma line_start:
  fixes p :: u16
  assumes "unat p < CRT_SIZE + CRT_COLS"
  shows "unat (p - crt_column p) = unat p div 80 * 80"
proof -
  have "int n smod int CRT_COLS = int (n mod 80)" for n
    by (cases "n = 0") (simp_all add: smod_int_alt_def CRT_COLS_def zmod_int)
  then have c: "crt_column p = of_nat (unat p mod 80)"
    unfolding crt_column_def pos_sint(1) [OF assms] by (simp only: of_int_of_nat_eq)
  have "unat (of_nat (unat p mod 80) :: u16) = unat p mod 80"
  proof -
    have "unat p mod 80 < 80" by simp
    then have "unat p mod 80 < 2 ^ 16" by (rule less_trans) simp
    then show ?thesis by (simp add: unat_of_nat take_bit_nat_eq_self)
  qed
  then have "unat (p - crt_column p) = unat p - unat p mod 80"
    unfolding c by (subst unat_sub) (simp_all add: word_le_nat_alt)
  then show ?thesis by (simp add: minus_mod_eq_div_mult)
qed

lemma map_update: "k < n \<Longrightarrow> (map f [0..<n])[k := v] = map (\<lambda>i. if i = k then v else f i) [0..<n]"
  by (auto simp: list_eq_iff_nth_eq nth_list_update)

lemma pos_add:
  fixes p :: u16
  assumes "unat p < CRT_SIZE" "k \<le> 80"
  shows "unat (p + of_nat k) = unat p + k"
proof -
  have "unat (of_nat k :: u16) = k" using assms(2) by (simp add: unat_of_nat take_bit_nat_eq_self)
  then show ?thesis using assms by (subst unat_add_lem [THEN iffD1]) (simp_all add: crt_sizes)
qed

text \<open>What one step of \<open>cga_putc\<close> does, from a state of the screen to another.\<close>

definition step_ok :: "crt \<Rightarrow> terminal \<Rightarrow> crt \<Rightarrow> bool" where
  "step_ok s t s' \<longleftrightarrow> screen_only s s' \<and> term_of s' = t"

lemma cga_char_ok:
  assumes ok: "screen_ok s"
  shows "step_ok s (term_char c (term_of s)) (cga_char c s)" "screen_edge (cga_char c s)" "ports (cga_char c s) = ports s"
proof -
  have b: "screen_fits (crt_buf s)" and p: "unat (crt_pos s) < CRT_SIZE" using ok by (simp_all add: screen_ok_def)
  have p': "unat (crt_pos s) < CRT_SIZE + CRT_COLS" using p by simp
  note cur = pos_sint(1) [OF p']
  consider (bs0) "c AND 0xff = 8" "unat (crt_pos s) = 0" | (bs) "c AND 0xff = 8" "0 < unat (crt_pos s)"
    | (nl) "c AND 0xff = 10" | (cr) "c AND 0xff = 13" | (ch) "c AND 0xff \<noteq> 8" "c AND 0xff \<noteq> 10" "c AND 0xff \<noteq> 13" by blast
  then have "step_ok s (term_char c (term_of s)) (cga_char c s) \<and> screen_edge (cga_char c s) \<and> ports (cga_char c s) = ports s"
  proof cases
    case bs0
    then show ?thesis using b p cur by (simp add: cga_char_def term_char_def step_ok_def screen_only_same screen_edge_def term_of_def)
  next
    case bs
    define s1 v where "s1 = s\<lparr>crt_pos := crt_pos s - 1\<rparr>" and "v = c AND NOT 0xff OR 0x20"
    have u: "unat (crt_pos s - 1) = unat (crt_pos s) - 1" using bs(2) by (intro unat_minus_one) auto
    have q: "unat (crt_pos s - 1) < CRT_SIZE" using u p by simp
    note st = crt_store_ok [where s = s1 and i = "crt_pos s - 1" and c = v, OF _ q]
    have "0 < sint (crt_pos s)" unfolding cur using bs(2) by linarith
    then have r: "cga_char c s = crt_store (crt_pos s - 1) v s1" using bs(1) by (simp add: cga_char_def s1_def v_def)
    have "cell s1 j = cell s j" for j by (simp add: cell_def s1_def)
    then have "term_of (cga_char c s) = term_char c (term_of s)"
      using st(1,3) b bs q by (simp add: r term_of_def term_char_def map_update u) (simp add: s1_def u v_def)
    moreover have "screen_only s s1" by (rule screen_only_same) (simp_all add: s1_def)
    ultimately show ?thesis
      using st(2-4) b q screen_only_trans [of s s1]
      by (simp add: step_ok_def r screen_edge_def) (simp add: s1_def crt_store_def)
  next
    case nl
    define q where "q = crt_pos s + of_nat CRT_COLS"
    have uq: "unat q = unat (crt_pos s) + 80" using pos_add [OF p, of 80] by (simp add: q_def CRT_COLS_def)
    then have "unat q < CRT_SIZE + CRT_COLS" using p by (simp add: crt_sizes)
    note l = line_start [OF this]
    have r: "cga_char c s = s\<lparr>crt_pos := q - crt_column q\<rparr>" using nl by (simp add: cga_char_def q_def Let_def)
    have "(unat (crt_pos s) + 80) div 80 = unat (crt_pos s) div 80 + 1" by simp
    moreover have "unat (crt_pos s) div 80 \<le> 24" using p by (simp add: crt_sizes)
    ultimately show ?thesis
      using nl b l by (simp add: r step_ok_def screen_only_same screen_edge_def term_of_def term_char_def uq cell_def crt_sizes)
  next
    case cr
    note l = line_start [OF p']
    have r: "cga_char c s = s\<lparr>crt_pos := crt_pos s - crt_column (crt_pos s)\<rparr>" using cr by (simp add: cga_char_def)
    have "unat (crt_pos s) div 80 * 80 \<le> unat (crt_pos s)" by simp
    then have "unat (crt_pos s) div 80 * 80 < CRT_SIZE + CRT_COLS" using p' by (rule le_less_trans)
    then show ?thesis
      using cr b l by (simp add: r step_ok_def screen_only_same screen_edge_def term_of_def term_char_def cell_def)
  next
    case ch
    define s1 where "s1 = crt_store (crt_pos s) c s"
    note st = crt_store_ok [OF b p, where c = c, folded s1_def]
    have r: "cga_char c s = s1\<lparr>crt_pos := crt_pos s + 1\<rparr>" using ch by (simp add: cga_char_def s1_def)
    have u: "unat (crt_pos s + 1) = unat (crt_pos s) + 1" using pos_add [OF p, of 1] by simp
    have "cell (s1\<lparr>crt_pos := crt_pos s + 1\<rparr>) j = cell s1 j" for j by (simp add: cell_def)
    then have "term_of (cga_char c s) = term_char c (term_of s)"
      using st(1) ch p by (simp add: r term_of_def term_char_def map_update u)
    moreover have "screen_only s1 (s1\<lparr>crt_pos := crt_pos s + 1\<rparr>)" by (rule screen_only_same) simp_all
    ultimately show ?thesis
      using st(2-4) b p screen_only_trans [of s s1] u
      by (simp add: step_ok_def r screen_edge_def) (simp add: s1_def crt_store_def crt_sizes)
  qed
  then show "step_ok s (term_char c (term_of s)) (cga_char c s)" "screen_edge (cga_char c s)" "ports (cga_char c s) = ports s"
    by blast+
qed

section \<open>Scrolling\<close>

lemma wr16_outside:
  assumes "screen_fits b" "i < CRT_SIZE" "2 * CRT_SIZE \<le> unat (a - b)"
  shows "wr16 m (b + 2 * of_nat i) v a = m a"
proof -
  have "a \<noteq> b + of_nat k" if k: "k < 2 * CRT_SIZE" for k
  proof
    assume e: "a = b + of_nat k"
    have "unat (of_nat k :: u32) = k" using k by (intro unat_of_nat_u32) (simp add: crt_sizes)
    then show False using assms(3) k e by simp
  qed
  from this [of "2 * i"] this [of "2 * i + 1"] assms(2) show ?thesis by (simp add: wr16_def algebra_simps)
qed

lemma fill_cells:
  assumes b: "screen_fits b"
  shows "(\<forall>i \<in> set xs. i < CRT_SIZE) \<Longrightarrow>
    (\<forall>j < CRT_SIZE. rd16 (fold (\<lambda>i m. wr16 m (b + 2 * of_nat i) v) xs m) (b + 2 * of_nat j)
      = (if j \<in> set xs then v else rd16 m (b + 2 * of_nat j)))
    \<and> (\<forall>a. 2 * CRT_SIZE \<le> unat (a - b) \<longrightarrow> fold (\<lambda>i m. wr16 m (b + 2 * of_nat i) v) xs m a = m a)"
proof (induction xs arbitrary: m)
  case (Cons x xs)
  have x: "x < CRT_SIZE" using Cons.prems by simp
  then have w: "rd16 (wr16 m (b + 2 * of_nat x) v) (b + 2 * of_nat j) = (if j = x then v else rd16 m (b + 2 * of_nat j))"
    if "j < CRT_SIZE" for j using wr16_cell [OF b, of x j] that by (simp add: crt_sizes)
  show ?case using Cons.IH [of "wr16 m (b + 2 * of_nat x) v"] Cons.prems w wr16_outside [OF b x] by simp
qed simp

lemma copied_cells:
  fixes m :: kmem and a b :: u32
  assumes b: "screen_fits b"
  defines "m1 \<equiv> bcopy m (b + 2 * of_nat CRT_COLS) b (of_nat (2 * CRT_SIZE))"
  shows "j < CRT_SIZE \<Longrightarrow> rd16 m1 (b + 2 * of_nat j) = rd16 m (b + 2 * of_nat (j + CRT_COLS))"
    "2 * CRT_SIZE \<le> unat (a - b) \<Longrightarrow> m1 a = m a"
proof -
  define src where "src = b + 2 * of_nat CRT_COLS"
  have us: "unat src = unat b + 160" using cell_addr [OF b, of 160] by (simp add: src_def CRT_COLS_def)
  have ul: "unat (of_nat (2 * CRT_SIZE) :: u32) = 2 * CRT_SIZE" by (intro unat_of_nat_u32) (simp add: crt_sizes)
  have "copies_apart src b (2 * CRT_SIZE)"
    using b us by (intro copies_apart_behind) (simp_all add: crt_sizes screen_fits_def)
  then have m1: "m1 = part_copied m src b (2 * CRT_SIZE)"
    unfolding m1_def src_def [symmetric] using b by (subst bcopy_ok) (simp_all only: ul, simp add: crt_sizes screen_fits_def)
  have at: "m1 (b + of_nat k) = m (src + of_nat k)" if "k < 2 * CRT_SIZE" for k
  proof -
    have "unat (of_nat k :: u32) = k" using that by (intro unat_of_nat_u32) (simp add: crt_sizes)
    then show ?thesis using that by (simp add: m1 part_copied_def)
  qed
  show "2 * CRT_SIZE \<le> unat (a - b) \<Longrightarrow> m1 a = m a" by (simp add: m1 part_copied_def)
  show "rd16 m1 (b + 2 * of_nat j) = rd16 m (b + 2 * of_nat (j + CRT_COLS))" if "j < CRT_SIZE"
    using at [of "2 * j"] at [of "2 * j + 1"] that by (simp add: rd16_def src_def algebra_simps)
qed

lemma crt_scroll_ok:
  assumes ok: "screen_edge s"
  shows "step_ok s (term_scroll (term_of s)) (crt_scroll s)" "screen_ok (crt_scroll s)" "ports (crt_scroll s) = ports s"
proof -
  have b: "screen_fits (crt_buf s)" and p: "unat (crt_pos s) < CRT_SIZE + CRT_COLS" using ok by (simp_all add: screen_edge_def)
  have c: "int CRT_SIZE \<le> sint (crt_pos s) \<longleftrightarrow> CRT_SIZE \<le> unat (crt_pos s)" unfolding pos_sint(1) [OF p] by (rule of_nat_le_iff)
  have "step_ok s (term_scroll (term_of s)) (crt_scroll s) \<and> screen_ok (crt_scroll s) \<and> ports (crt_scroll s) = ports s"
  proof (cases "CRT_SIZE \<le> unat (crt_pos s)")
    case False
    then show ?thesis using c b
      by (simp add: crt_scroll_def term_scroll_def step_ok_def screen_only_same screen_ok_def) (simp add: term_of_def)
  next
    case True
    define m1 where "m1 = bcopy (kmem s) (crt_buf s + 2 * of_nat CRT_COLS) (crt_buf s) (of_nat (2 * CRT_SIZE))"
    define m2 where "m2 = fold (\<lambda>i m. wr16 m (crt_buf s + 2 * of_nat i) (0x0700 OR 0x20)) [CRT_SIZE - CRT_COLS..<CRT_SIZE] m1"
    have r: "crt_scroll s = s\<lparr>kmem := m2, crt_pos := crt_pos s - of_nat CRT_COLS\<rparr>"
      using True c by (simp add: crt_scroll_def Let_def m1_def m2_def)
    note f = fill_cells [OF b, of "[CRT_SIZE - CRT_COLS..<CRT_SIZE]" "0x0700 OR 0x20" m1, folded m2_def]
    note k = copied_cells [OF b, of _ "kmem s", folded m1_def]
    have u: "unat (crt_pos s - of_nat CRT_COLS) = unat (crt_pos s) - 80"
      using True by (subst unat_sub) (simp_all add: word_le_nat_alt crt_sizes)
    have cell: "cell (crt_scroll s) j = (if CRT_SIZE - CRT_COLS \<le> j then blank else cell s (j + CRT_COLS))" if "j < CRT_SIZE" for j
      using f k(1) [OF that] that by (simp add: cell_def r blank_def)
    have le: "CRT_COLS \<le> CRT_SIZE" by (simp add: crt_sizes)
    have "map (cell (crt_scroll s)) [0..<CRT_SIZE] = drop CRT_COLS (map (cell s) [0..<CRT_SIZE]) @ replicate CRT_COLS blank"
      using cell le by (auto simp: list_eq_iff_nth_eq nth_append add.commute)
    then have "map (cell (crt_scroll s)) [0..<CRT_SIZE] = drop 80 (map (cell s) [0..<CRT_SIZE]) @ replicate 80 blank"
      by (simp only: CRT_COLS_def)
    then have "term_of (crt_scroll s) = term_scroll (term_of s)"
      using True u by (simp add: term_of_def term_scroll_def) (simp add: r)
    moreover have "screen_only s (crt_scroll s)" using f k(2) by (simp add: screen_only_def r)
    ultimately show ?thesis using b u p True by (simp add: step_ok_def screen_ok_def) (simp add: r crt_sizes)
  qed
  then show "step_ok s (term_scroll (term_of s)) (crt_scroll s)" "screen_ok (crt_scroll s)" "ports (crt_scroll s) = ports s"
    by blast+
qed

section \<open>Console output\<close>

text \<open>The last four accesses tell the chip where the cursor is.\<close>

definition cursor_told :: "crt \<Rightarrow> bool" where
  "cursor_told s \<longleftrightarrow>
     (\<exists>h hi lo. ports s = h @ [Out_port (addr_6845 s) 14, Out_port (addr_6845 s + 1) hi,
          Out_port (addr_6845 s) 15, Out_port (addr_6845 s + 1) lo]
        \<and> unat (crt_pos s) = 256 * unat hi + unat lo)"

lemma crt_cursor_ok:
  "term_of (crt_cursor s) = term_of s" "screen_ok (crt_cursor s) = screen_ok s" "screen_only s (crt_cursor s)" "cursor_told (crt_cursor s)"
proof -
  have "unat (crt_pos s) = 256 * unat (ucast (drop_bit 8 (crt_pos s)) :: u8) + unat (ucast (crt_pos s) :: u8)"
  proof -
    have "unat (ucast (drop_bit 8 (crt_pos s)) :: u8) = unat (crt_pos s) div 256"
    proof -
      have "unat (crt_pos s) < 2 ^ LENGTH(16)" by (rule unsigned_less)
      then have "unat (crt_pos s) div 256 < 2 ^ 8" by (simp add: less_mult_imp_div_less)
      then show ?thesis by (simp add: unsigned_ucast_eq drop_bit_eq_div unat_div take_bit_nat_eq_self)
    qed
    moreover have "unat (ucast (crt_pos s) :: u8) = unat (crt_pos s) mod 256"
      by (simp add: unsigned_ucast_eq take_bit_eq_mod)
    ultimately show ?thesis by simp
  qed
  then show "cursor_told (crt_cursor s)" by (auto simp: cursor_told_def crt_cursor_def outb_def)
  show "screen_only s (crt_cursor s)" by (rule screen_only_same) (simp_all add: crt_cursor_def)
  have "cell (crt_cursor s) i = cell s i" for i by (simp add: cell_def crt_cursor_def)
  then show "term_of (crt_cursor s) = term_of s" by (simp add: term_of_def) (simp add: crt_cursor_def)
  show "screen_ok (crt_cursor s) = screen_ok s" by (simp add: screen_ok_def crt_cursor_def)
qed

lemma ports_only:
  "term_of (s\<lparr>ports := h\<rparr>) = term_of s" "screen_ok (s\<lparr>ports := h\<rparr>) = screen_ok s" "screen_only s (s\<lparr>ports := h\<rparr>)"
  by (simp_all add: term_of_def screen_ok_def screen_only_same cell_def [abs_def])

lemma char_and_scroll:
  assumes "screen_ok s"
  shows "term_of (crt_scroll (cga_char c s)) = term_scroll (term_char c (term_of s))" "screen_ok (crt_scroll (cga_char c s))"
    "screen_only s (crt_scroll (cga_char c s))"
  using cga_char_ok [OF assms, of c] crt_scroll_ok [of "cga_char c s"] screen_only_trans by (auto simp: step_ok_def)

lemma cons_blank_ok:
  assumes "screen_ok s"
  shows "term_of (cons_blank dev s) = term_scroll (term_char (cga_attr 0x20) (term_of s))" "screen_ok (cons_blank dev s)"
    "screen_only s (cons_blank dev s)"
proof -
  let ?p = "s\<lparr>ports := lpt_putc dev 0x20 (ports s)\<rparr>"
  have ok: "screen_ok ?p" using assms by (simp add: ports_only)
  note c = char_and_scroll [OF ok, of "cga_attr 0x20"]
  show "term_of (cons_blank dev s) = term_scroll (term_char (cga_attr 0x20) (term_of s))"
    unfolding cons_blank_def crt_cursor_ok c(1) ports_only ..
  show "screen_ok (cons_blank dev s)" unfolding cons_blank_def crt_cursor_ok by (rule c(2))
  show "screen_only s (cons_blank dev s)"
    unfolding cons_blank_def using screen_only_trans ports_only(3) c(3) crt_cursor_ok(3) by blast
qed

lemma scroll_none:
  assumes "screen_ok s"
  shows "crt_scroll s = s"
proof -
  have p: "unat (crt_pos s) < CRT_SIZE" using assms by (simp add: screen_ok_def)
  have "\<not> int CRT_SIZE \<le> sint (crt_pos s)"
    unfolding pos_sint(1) [OF trans_less_add1 [OF p]] of_nat_le_iff using p by (rule less_le_not_le [THEN iffD1, THEN conjunct2])
  then show ?thesis by (simp add: crt_scroll_def)
qed

lemma cons_putc_ok:
  assumes ok: "screen_ok s"
  shows "term_of (cons_putc dev c s) = term_put c (term_of s) \<and> screen_ok (cons_putc dev c s)
    \<and> screen_only s (cons_putc dev c s) \<and> cursor_told (cons_putc dev c s)"
proof -
  define s1 where "s1 = s\<lparr>ports := lpt_putc dev c (ports s)\<rparr>"
  have s1: "term_of s1 = term_of s" "screen_ok s1" "screen_only s s1" using ok ports_only by (simp_all add: s1_def)
  define s2 where "s2 = crt_scroll (if cga_attr c AND 0xff = 0x09
    then cons_blank dev (cons_blank dev (cons_blank dev (cons_blank dev (cons_blank dev s1)))) else cga_char (cga_attr c) s1)"
  have r: "cons_putc dev c s = crt_cursor s2" by (simp add: cons_putc_def cga_putc_def s2_def s1_def)
  have "term_of s2 = term_put c (term_of s) \<and> screen_ok s2 \<and> screen_only s1 s2"
  proof (cases "cga_attr c AND 0xff = 0x09")
    case True
    note b = cons_blank_ok [where dev = dev]
    define t where "t = cons_blank dev (cons_blank dev (cons_blank dev (cons_blank dev (cons_blank dev s1))))"
    have t: "screen_ok t" "screen_only s1 t" unfolding t_def by (intro b(2) s1(2)) (intro screen_only_trans [OF _ b(3)] b(2,3) s1(2))
    have "term_of t = term_put c (term_of s)" using True by (simp add: t_def b s1 term_put_def Let_def)
    then show ?thesis using True t by (simp add: s2_def t_def [symmetric] scroll_none)
  next
    case False
    then show ?thesis using char_and_scroll [OF s1(2), of "cga_attr c"] by (simp add: s2_def term_put_def s1(1))
  qed
  then show ?thesis unfolding r using crt_cursor_ok s1(3) screen_only_trans by metis
qed

section \<open>Properties\<close>

text \<open>C34. The console is a terminal: whatever characters are put on it, from a cursor on the screen,
  the screen shows what a terminal of 25 lines of 80 cells shows that interprets them, scrolling by
  lines; the cursor stays on the screen and the chip is told where it is; no memory outside of the
  screen is written.\<close>

theorem console_is_a_terminal:
  assumes "screen_ok s"
  shows "screen_ok (fold (cons_putc dev) cs s) \<and> term_of (fold (cons_putc dev) cs s) = fold term_put cs (term_of s)
    \<and> screen_only s (fold (cons_putc dev) cs s) \<and> (cs \<noteq> [] \<longrightarrow> cursor_told (fold (cons_putc dev) cs s))"
  using assms
proof (induction cs rule: rev_induct)
  case Nil
  then show ?case by (simp add: screen_only_same)
next
  case (snoc c cs)
  then show ?case using cons_putc_ok [of "fold (cons_putc dev) cs s" dev c] screen_only_trans by (auto simp del: screen_only_def)
qed

text \<open>An adapter whose cursor is in the last cell of the screen.\<close>

definition demo_device :: device where
  "demo_device h p = (if p = CGA_BASE + 1 then (if last h = Out_port CGA_BASE 14 then 7 else 0xcf) else 0x80)"

definition demo_screen :: crt where
  "demo_screen = cga_init demo_device True (\<lambda>_. 0x20) []"

lemma demo_screen_ok: "screen_ok demo_screen" "cursor (term_of demo_screen) = 1999"
  by (simp_all add: demo_screen_def cga_init_def Let_def inb_def outb_def demo_device_def CGA_BASE_def screen_ok_def
      screen_fits_def term_of_def crt_sizes KERNBASE_def CGA_BUF_def)

theorem console_is_a_terminal_witness:
  "cursor (term_of (fold (cons_putc demo_device) [0x41, 0x42, 0x0a] demo_screen)) = 1920"
proof -
  have "term_of (fold (cons_putc demo_device) [0x41, 0x42, 0x0a] demo_screen) = fold term_put [0x41, 0x42, 0x0a] (term_of demo_screen)"
    using console_is_a_terminal [OF demo_screen_ok(1)] by blast
  then show ?thesis
    using demo_screen_ok(2) by (simp add: term_put_def cga_attr_def term_char_def term_scroll_def crt_sizes)
qed

end
