(* ===== verification/Devices.thy ===== *)
theory Devices
  imports Ports Boot
begin

text \<open>
  The interrupt controllers and the clock: \<open>kern/picirq.c\<close> and \<open>kern/kclock.c\<close>. What they do is to
  write to ports; the controllers as \<open>pic_init\<close> describes them are the record \<open>chip\<close>.
\<close>

unbundle bit_operations_syntax

section \<open>The interrupt controllers\<close>

definition IO_PIC1 :: u32 where "IO_PIC1 = 0x20"
definition IO_PIC2 :: u32 where "IO_PIC2 = 0xa0"
definition IRQ_SLAVE :: u8 where "IRQ_SLAVE = 0x2"
definition PIC_OFFSET :: u8 where "PIC_OFFSET = 0x20"

record pics =
  irq_mask :: u16
  didinit :: u32
  pic_ports :: accesses
  pic_said :: "kmsg list"

definition outs :: "(u32 \<times> u8) list \<Rightarrow> pics \<Rightarrow> pics" where
  "outs ws s = s\<lparr>pic_ports := fold (\<lambda>(p, v). outb p v) ws (pic_ports s)\<rparr>"

definition irq_setmask :: "u16 \<Rightarrow> pics \<Rightarrow> pics" where
  "irq_setmask m s =
     (let s1 = s\<lparr>irq_mask := m\<rparr>
      in if didinit s1 = 0 then s1
         else
           (outs [(IO_PIC1 + 1, ucast m), (IO_PIC2 + 1, ucast (drop_bit 8 m))] s1)\<lparr>pic_said := pic_said s1
             @ [Msg ''enabled interrupts:'' []]
             @ map (\<lambda>i. Msg '' %d'' [of_nat i]) (filter (\<lambda>i. NOT m AND push_bit i 1 \<noteq> 0) [0..<16]) @ [Msg ''\<newline>'' []]\<rparr>)"

definition pic_init :: "pics \<Rightarrow> pics" where
  "pic_init s =
     (let s1 = outs [(IO_PIC1, 0x11), (IO_PIC1 + 1, PIC_OFFSET), (IO_PIC1 + 1, push_bit (unat IRQ_SLAVE) 1), (IO_PIC1 + 1, 0x3),
                     (IO_PIC1 + 1, 0xff), (IO_PIC1, 0x68), (IO_PIC1, 0x0a),
                     (IO_PIC2, 0x11), (IO_PIC2 + 1, PIC_OFFSET + 8), (IO_PIC2 + 1, IRQ_SLAVE), (IO_PIC2 + 1, 0x3),
                     (IO_PIC2 + 1, 0xff), (IO_PIC2, 0x68), (IO_PIC2, 0x0a)] (s\<lparr>didinit := 1\<rparr>)
      in if irq_mask s1 \<noteq> 0xFFFF then irq_setmask (irq_mask s1) s1 else s1)"

section \<open>The clock\<close>

definition IO_RTC :: u32 where "IO_RTC = 0x070"
definition IO_TIMER1 :: u32 where "IO_TIMER1 = 0x040"
definition TIMER_FREQ :: nat where "TIMER_FREQ = 1193182"
definition TIMER_DIV :: "nat \<Rightarrow> nat" where "TIMER_DIV x = (TIMER_FREQ + x div 2) div x"
definition TIMER_MODE :: u32 where "TIMER_MODE = IO_TIMER1 + 3"
definition TIMER_SEL0 :: u8 where "TIMER_SEL0 = 0x00"
definition TIMER_RATEGEN :: u8 where "TIMER_RATEGEN = 0x04"
definition TIMER_16BIT :: u8 where "TIMER_16BIT = 0x30"

definition mc146818_read :: "device \<Rightarrow> u32 \<Rightarrow> accesses \<Rightarrow> u32 \<times> accesses" where
  "mc146818_read dev reg h = (let (v, h1) = inb dev (IO_RTC + 1) (outb IO_RTC (ucast reg) h) in (ucast v, h1))"

definition mc146818_write :: "u32 \<Rightarrow> u32 \<Rightarrow> accesses \<Rightarrow> accesses" where
  "mc146818_write reg datum h = outb (IO_RTC + 1) (ucast datum) (outb IO_RTC (ucast reg) h)"

text \<open>\<open>nvram_read\<close> of \<open>kern/pmap.c\<close>; the left operand is read first. \<open>Boot\<close> has it over the bytes of the clock.\<close>

definition nvram_ports :: "device \<Rightarrow> u32 \<Rightarrow> accesses \<Rightarrow> u32 \<times> accesses" where
  "nvram_ports dev r h =
     (let (lo, h1) = mc146818_read dev r h; (hi, h2) = mc146818_read dev (r + 1) h1 in (lo OR push_bit 8 hi, h2))"

lemma nvram_ports_reads:
  assumes cmos: "\<And>reg h. fst (inb dev (IO_RTC + 1) (outb IO_RTC reg h)) = cmos (unat reg)" and r: "r + 1 < 256"
  shows "fst (nvram_ports dev (of_nat r) h) = nvram_read cmos r"
proof -
  have u: "unat (ucast (of_nat k :: u32) :: u8) = k" if "k < 256" for k
    using that by (simp add: unsigned_ucast_eq unsigned_of_nat take_bit_nat_eq_self_iff take_bit_nat_eq_self)
  have s: "of_nat r + 1 = (of_nat (r + 1) :: u32)" by simp
  have m: "fst (mc146818_read dev (of_nat k) g) = ucast (cmos k)" if "k < 256" for k g
    using cmos [of "ucast (of_nat k :: u32)" g] u [OF that] by (simp add: mc146818_read_def case_prod_beta)
  show ?thesis
    unfolding nvram_ports_def nvram_read_def s using r by (simp add: m case_prod_beta Let_def del: of_nat_add of_nat_Suc)
qed

definition kclock_init :: "pics \<Rightarrow> pics" where
  "kclock_init s =
     (let s1 = outs [(TIMER_MODE, TIMER_SEL0 OR TIMER_RATEGEN OR TIMER_16BIT), (IO_TIMER1, of_nat (TIMER_DIV 100 mod 256)),
                     (IO_TIMER1, of_nat (TIMER_DIV 100 div 256))] s;
          s2 = s1\<lparr>pic_said := pic_said s1 @ [Msg (CHR 0x09 # ''Setup timer interrupts via 8259A\<newline>'') []]\<rparr>;
          s3 = irq_setmask (irq_mask s2 AND NOT (push_bit 0 1)) s2
      in s3\<lparr>pic_said := pic_said s3 @ [Msg (CHR 0x09 # ''unmasked timer interrupt\<newline>\<newline>'') []]\<rparr>)"

text \<open>The end of \<open>kbd_init\<close> in \<open>kern/console.c\<close>.\<close>

definition kbd_unmask :: "pics \<Rightarrow> pics" where
  "kbd_unmask s = irq_setmask (irq_mask s AND NOT (push_bit 1 1)) s"

text \<open>\<open>serial_init\<close> does nothing else.\<close>

definition serial_init :: "pics \<Rightarrow> pics" where
  "serial_init s = irq_setmask (irq_mask s AND NOT (push_bit 4 1)) s"

text \<open>What \<open>i386_init\<close> does to the controllers, from the state that the kernel is loaded with.\<close>

definition pics_at_boot :: "accesses \<Rightarrow> pics" where
  "pics_at_boot h = kclock_init (pic_init (serial_init (kbd_unmask \<lparr>irq_mask = 0xFFFF, didinit = 0, pic_ports = h, pic_said = []\<rparr>)))"

section \<open>What the controllers are told\<close>

text \<open>
  One controller as the comments of \<open>pic_init\<close> describe it: the first control word announces three
  more at the data port, of which the first is the offset of the vectors; outside of this sequence
  a byte at the data port is the mask.
\<close>

record chip =
  awaits :: nat
  vector :: u8
  masked :: u8

definition chip_told :: "u32 \<Rightarrow> access \<Rightarrow> chip \<Rightarrow> chip" where
  "chip_told base a c =
     (case a of
        In_port _ \<Rightarrow> c
      | Out_port p v \<Rightarrow>
          if p = base then (if v AND 0x10 \<noteq> 0 then c\<lparr>awaits := 3\<rparr> else c)
          else if p = base + 1 then
            (if awaits c = 0 then c\<lparr>masked := v\<rparr>
             else if awaits c = 3 then c\<lparr>vector := v, awaits := 2\<rparr>
             else c\<lparr>awaits := awaits c - 1\<rparr>)
          else c)"

definition chip_after :: "u32 \<Rightarrow> accesses \<Rightarrow> chip \<Rightarrow> chip" where
  "chip_after base h = fold (chip_told base) h"

lemma chip_after_app: "chip_after base (h @ k) c = chip_after base k (chip_after base h c)"
  by (simp add: chip_after_def)

lemma chip_after_outb: "chip_after base (outb p v h) c = chip_told base (Out_port p v) (chip_after base h c)"
  by (simp add: chip_after_def outb_def)

lemma outs_facts:
  "irq_mask (outs ws s) = irq_mask s" "didinit (outs ws s) = didinit s" "pic_said (outs ws s) = pic_said s"
  "pic_ports (outs ws s) = fold (\<lambda>(p, v). outb p v) ws (pic_ports s)"
  by (simp_all add: outs_def)

definition pic_start :: "pics \<Rightarrow> pics" where
  "pic_start s = kclock_init (pic_init s)"

lemma setmask_facts:
  "irq_mask (irq_setmask m s) = m" "didinit (irq_setmask m s) = didinit s"
  "didinit s \<noteq> 0 \<Longrightarrow> pic_ports (irq_setmask m s) = outb (IO_PIC2 + 1) (ucast (drop_bit 8 m)) (outb (IO_PIC1 + 1) (ucast m) (pic_ports s))"
  by (simp_all add: irq_setmask_def Let_def outs_facts)

definition pic_words :: "accesses \<Rightarrow> accesses" where
  "pic_words h = fold (\<lambda>(p, v). outb p v)
     [(IO_PIC1, 0x11), (IO_PIC1 + 1, PIC_OFFSET), (IO_PIC1 + 1, push_bit (unat IRQ_SLAVE) 1), (IO_PIC1 + 1, 0x3),
      (IO_PIC1 + 1, 0xff), (IO_PIC1, 0x68), (IO_PIC1, 0x0a),
      (IO_PIC2, 0x11), (IO_PIC2 + 1, PIC_OFFSET + 8), (IO_PIC2 + 1, IRQ_SLAVE), (IO_PIC2 + 1, 0x3),
      (IO_PIC2 + 1, 0xff), (IO_PIC2, 0x68), (IO_PIC2, 0x0a)] h"

lemmas pic_consts = IO_PIC1_def IO_PIC2_def IRQ_SLAVE_def PIC_OFFSET_def IO_TIMER1_def TIMER_MODE_def

lemma pic_words_facts:
  "chip_after IO_PIC1 (pic_words h) c = \<lparr>awaits = 0, vector = 32, masked = 0xff\<rparr>"
  "chip_after IO_PIC2 (pic_words h) c = \<lparr>awaits = 0, vector = 40, masked = 0xff\<rparr>"
  "written_to IO_TIMER1 (pic_words h) = written_to IO_TIMER1 h"
  by (simp_all add: pic_words_def chip_after_outb chip_told_def pic_consts)

lemma pic_init_facts:
  "irq_mask (pic_init s) = irq_mask s" "didinit (pic_init s) = 1"
  "pic_ports (pic_init s) = (if irq_mask s = 0xFFFF then pic_words (pic_ports s)
     else outb (IO_PIC2 + 1) (ucast (drop_bit 8 (irq_mask s))) (outb (IO_PIC1 + 1) (ucast (irq_mask s)) (pic_words (pic_ports s))))"
  by (simp_all add: pic_init_def Let_def setmask_facts outs_facts pic_words_def del: fold_simps)

lemma kclock_facts:
  assumes "didinit s \<noteq> 0"
  shows "irq_mask (kclock_init s) = irq_mask s AND NOT 1"
    "pic_ports (kclock_init s) = outb (IO_PIC2 + 1) (ucast (drop_bit 8 (irq_mask s AND NOT 1))) (outb (IO_PIC1 + 1) (ucast (irq_mask s AND NOT 1))
       (outb IO_TIMER1 (of_nat (TIMER_DIV 100 div 256)) (outb IO_TIMER1 (of_nat (TIMER_DIV 100 mod 256)) (outb TIMER_MODE 0x34 (pic_ports s)))))"
  using assms by (simp_all add: kclock_init_def Let_def setmask_facts outs_facts TIMER_SEL0_def TIMER_RATEGEN_def TIMER_16BIT_def)

text \<open>C35. After \<open>pic_init\<close> and \<open>kclock_init\<close>, whatever the mask was and whatever state the controllers
  were in, they deliver interrupts from vector 32 on, the first one masks the low half and the second
  one the high half of the mask without the clock, no control word is outstanding, and the timer has
  been given the divisor of 100 interrupts a second, low byte first. At boot that leaves the clock,
  the keyboard and the serial line.\<close>

theorem pics_are_programmed:
  "let s' = pic_start s; m = irq_mask s AND NOT 1
   in chip_after IO_PIC1 (pic_ports s') c1 = \<lparr>awaits = 0, vector = 32, masked = ucast m\<rparr>
      \<and> chip_after IO_PIC2 (pic_ports s') c2 = \<lparr>awaits = 0, vector = 40, masked = ucast (drop_bit 8 m)\<rparr>
      \<and> irq_mask s' = m \<and> irq_mask (pics_at_boot h) = NOT (1 OR 2 OR 16)
      \<and> (\<exists>lo hi. written_to IO_TIMER1 (pic_ports s') = written_to IO_TIMER1 (pic_ports s) @ [lo, hi]
           \<and> unat lo + 256 * unat hi = TIMER_DIV 100)"
proof -
  have d: "didinit (pic_init s) \<noteq> 0" for s by (simp add: pic_init_facts)
  have t: "TIMER_DIV 100 = 11932" by (simp add: TIMER_DIV_def TIMER_FREQ_def)
  show ?thesis
    unfolding Let_def pic_start_def
  proof (intro conjI)
    show "irq_mask (pics_at_boot h) = NOT (1 OR 2 OR 16)"
      by (simp add: pics_at_boot_def kclock_facts [OF d] pic_init_facts setmask_facts serial_init_def kbd_unmask_def)
    show "\<exists>lo hi. written_to IO_TIMER1 (pic_ports (kclock_init (pic_init s))) = written_to IO_TIMER1 (pic_ports s) @ [lo, hi]
        \<and> unat lo + 256 * unat hi = TIMER_DIV 100"
      by (simp add: kclock_facts [OF d] pic_init_facts pic_words_facts t) (simp add: pic_consts)
  qed (simp_all add: kclock_facts [OF d] pic_init_facts chip_after_outb pic_words_facts; simp add: chip_told_def pic_consts)+
qed

end
