(* ===== verification/Segment.thy ===== *)
theory Segment
  imports Trap
begin

text \<open>
  Segments and gates: the descriptors of \<open>inc/mmu.h\<close>, the table \<open>gdt\<close> of \<open>kern/pmap.c\<close>, the
  task state that \<open>idt_init\<close> puts into it, and the entry points of \<open>kern/locore.S\<close> behind the gates. A structure of bit fields is 64 bits, the first field
  lowest; how the processor reads them is defined apart from it.
\<close>

unbundle bit_operations_syntax

section \<open>Segment descriptors\<close>

record segdesc =
  sd_lim_15_0 :: u16
  sd_base_15_0 :: u16
  sd_base_23_16 :: u8
  sd_type :: "4 word"
  sd_s :: bool
  sd_dpl :: "2 word"
  sd_p :: bool
  sd_lim_19_16 :: "4 word"
  sd_avl :: bool
  sd_rsv1 :: bool
  sd_db :: bool
  sd_g :: bool
  sd_base_31_24 :: u8

definition SEG_NULL :: segdesc where
  "SEG_NULL =
     \<lparr>sd_lim_15_0 = 0, sd_base_15_0 = 0, sd_base_23_16 = 0, sd_type = 0, sd_s = False, sd_dpl = 0, sd_p = False,
      sd_lim_19_16 = 0, sd_avl = False, sd_rsv1 = False, sd_db = False, sd_g = False, sd_base_31_24 = 0\<rparr>"

definition SEG_FAULT :: segdesc where
  "SEG_FAULT = SEG_NULL\<lparr>sd_s := True, sd_p := True, sd_db := True\<rparr>"

definition SEG :: "4 word \<Rightarrow> u32 \<Rightarrow> u32 \<Rightarrow> 2 word \<Rightarrow> segdesc" where
  "SEG ty base lim dpl =
     \<lparr>sd_lim_15_0 = ucast (drop_bit 12 lim AND 0xffff), sd_base_15_0 = ucast (base AND 0xffff),
      sd_base_23_16 = ucast (drop_bit 16 base AND 0xff), sd_type = ty, sd_s = True, sd_dpl = dpl, sd_p = True,
      sd_lim_19_16 = ucast (drop_bit 28 lim), sd_avl = False, sd_rsv1 = False, sd_db = True, sd_g = True,
      sd_base_31_24 = ucast (drop_bit 24 base)\<rparr>"

definition SEG16 :: "4 word \<Rightarrow> u32 \<Rightarrow> u32 \<Rightarrow> 2 word \<Rightarrow> segdesc" where
  "SEG16 ty base lim dpl =
     \<lparr>sd_lim_15_0 = ucast (lim AND 0xffff), sd_base_15_0 = ucast (base AND 0xffff),
      sd_base_23_16 = ucast (drop_bit 16 base AND 0xff), sd_type = ty, sd_s = True, sd_dpl = dpl, sd_p = True,
      sd_lim_19_16 = ucast (drop_bit 16 lim), sd_avl = False, sd_rsv1 = False, sd_db = True, sd_g = False,
      sd_base_31_24 = ucast (drop_bit 24 base)\<rparr>"

definition STA_X :: "4 word" where "STA_X = 0x8"
definition STA_W :: "4 word" where "STA_W = 0x2"
definition STA_R :: "4 word" where "STA_R = 0x2"
definition STS_T32A :: "4 word" where "STS_T32A = 0x9"

section \<open>The table\<close>

definition sel_index :: "u32 \<Rightarrow> nat" where "sel_index s = unat (drop_bit 3 s)"

definition gdt :: "nat \<Rightarrow> segdesc" where
  "gdt = (\<lambda>_. SEG_NULL)
     (0 := SEG_NULL,
      sel_index GD_KT := SEG (STA_X OR STA_R) 0x0 0xffffffff 0,
      sel_index GD_KD := SEG STA_W 0x0 0xffffffff 0,
      sel_index GD_UT := SEG (STA_X OR STA_R) 0x0 0xffffffff 3,
      sel_index GD_UD := SEG STA_W 0x0 0xffffffff 3,
      sel_index GD_TSS := SEG_NULL)"

record taskstate =
  ts_link :: u32
  ts_esp0 :: u32
  ts_ss0 :: u16
  ts_esp1 :: u32
  ts_ss1 :: u16
  ts_esp2 :: u32
  ts_ss2 :: u16
  ts_cr3 :: u32
  ts_eip :: u32
  ts_eflags :: u32
  ts_eax :: u32
  ts_ecx :: u32
  ts_edx :: u32
  ts_ebx :: u32
  ts_esp :: u32
  ts_ebp :: u32
  ts_esi :: u32
  ts_edi :: u32
  ts_es :: u16
  ts_cs :: u16
  ts_ss :: u16
  ts_ds :: u16
  ts_fs :: u16
  ts_gs :: u16
  ts_ldt :: u16
  ts_iomb :: u16
  ts_t :: u16

definition SIZEOF_TASKSTATE :: u32 where "SIZEOF_TASKSTATE = 104"

text \<open>
  The first part of \<open>idt_init\<close>; \<open>ts_addr\<close> is the address of \<open>ts\<close>. The result is the table, the task
  state and the task register.
\<close>

definition idt_init_tss :: "u32 \<Rightarrow> (nat \<Rightarrow> segdesc) \<Rightarrow> taskstate \<Rightarrow> (nat \<Rightarrow> segdesc) \<times> taskstate \<times> u16" where
  "idt_init_tss ts_addr g ts =
     (let ts1 = ts\<lparr>ts_esp0 := KSTACKTOP, ts_ss0 := ucast GD_KD\<rparr>;
          g1 = g(sel_index GD_TSS := SEG16 STS_T32A ts_addr SIZEOF_TASKSTATE 0);
          g2 = g1(sel_index GD_TSS := (g1 (sel_index GD_TSS))\<lparr>sd_s := False\<rparr>)
      in (g2, ts1, ucast GD_TSS))"

section \<open>What the processor reads\<close>

type_synonym descriptor = "64 word"

definition flag :: "bool \<Rightarrow> descriptor" where "flag b = (if b then 1 else 0)"

definition seg_bits :: "segdesc \<Rightarrow> descriptor" where
  "seg_bits d =
     ucast (sd_lim_15_0 d) OR push_bit 16 (ucast (sd_base_15_0 d)) OR push_bit 32 (ucast (sd_base_23_16 d))
     OR push_bit 40 (ucast (sd_type d)) OR push_bit 44 (flag (sd_s d)) OR push_bit 45 (ucast (sd_dpl d))
     OR push_bit 47 (flag (sd_p d)) OR push_bit 48 (ucast (sd_lim_19_16 d)) OR push_bit 52 (flag (sd_avl d))
     OR push_bit 53 (flag (sd_rsv1 d)) OR push_bit 54 (flag (sd_db d)) OR push_bit 55 (flag (sd_g d))
     OR push_bit 56 (ucast (sd_base_31_24 d))"

definition cpu_base :: "descriptor \<Rightarrow> u32" where
  "cpu_base w = ucast (drop_bit 16 w AND 0xFFFFFF) OR push_bit 24 (ucast (drop_bit 56 w))"

text \<open>The last byte of the segment: the limit counts bytes or, with bit 55, pages.\<close>

definition cpu_limit :: "descriptor \<Rightarrow> u32" where
  "cpu_limit w =
     (let n = ucast (w AND 0xFFFF) OR push_bit 16 (ucast (drop_bit 48 w AND 0xF)) :: u32
      in if bit w 55 then push_bit 12 n OR 0xFFF else n)"

definition cpu_type :: "descriptor \<Rightarrow> 4 word" where "cpu_type w = ucast (drop_bit 40 w)"
definition cpu_app :: "descriptor \<Rightarrow> bool" where "cpu_app w = bit w 44"
definition cpu_dpl :: "descriptor \<Rightarrow> 2 word" where "cpu_dpl w = ucast (drop_bit 45 w)"
definition cpu_present :: "descriptor \<Rightarrow> bool" where "cpu_present w = bit w 47"

lemma flag_bit [simp]: "bit (flag b) n \<longleftrightarrow> b \<and> n = 0"
  by (simp add: flag_def bit_simps)

lemma SEG_base: "cpu_base (seg_bits (SEG ty base lim dpl)) = base"
proof (rule bit_word_eqI)
  fix n :: nat assume n: "n < LENGTH(32)"
  have m: "(0xFFFFFF :: 64 word) = mask 24" "(0xffff :: u32) = mask 16" "(0xff :: u32) = mask 8"
    by (simp_all add: mask_eq_exp_minus_1)
  consider "n < 16" | "16 \<le> n" "n < 24" | "24 \<le> n" by linarith
  then show "bit (cpu_base (seg_bits (SEG ty base lim dpl))) n = bit base n"
    using n by cases (auto simp: cpu_base_def seg_bits_def SEG_def m bit_simps dest: bit_imp_le_length)
qed

lemma seg_bits_granular: "bit (seg_bits d) 55 \<longleftrightarrow> sd_g d"
  by (auto simp: seg_bits_def bit_simps dest: bit_imp_le_length)

lemma seg_bits_limit_low: "n < 16 \<Longrightarrow> bit (seg_bits d) n \<longleftrightarrow> bit (sd_lim_15_0 d) n"
  by (simp add: seg_bits_def bit_simps)

lemma seg_bits_limit_high: "n < 4 \<Longrightarrow> bit (seg_bits d) (48 + n) \<longleftrightarrow> bit (sd_lim_19_16 d) n"
  by (auto simp: seg_bits_def bit_simps dest: bit_imp_le_length)

text \<open>The twenty bits of the limit, before they are scaled.\<close>

definition limit_field :: "descriptor \<Rightarrow> u32" where
  "limit_field w = ucast (w AND 0xFFFF) OR push_bit 16 (ucast (drop_bit 48 w AND 0xF))"

lemma limit_field_bit:
  assumes "n < 32"
  shows "bit (limit_field (seg_bits d)) n \<longleftrightarrow>
           (if n < 16 then bit (sd_lim_15_0 d) n else n < 20 \<and> bit (sd_lim_19_16 d) (n - 16))"
proof -
  have m: "(0xFFFF :: 64 word) = mask 16" "(0xF :: 64 word) = mask 4" by (simp_all add: mask_eq_exp_minus_1)
  have h: "bit (seg_bits d) (32 + n) \<longleftrightarrow> bit (sd_lim_19_16 d) (n - 16)" if "16 \<le> n" "n < 20"
    using seg_bits_limit_high [of "n - 16" d] that by simp
  show ?thesis
    unfolding limit_field_def m
    using assms seg_bits_limit_low [of n d] h by (auto simp: bit_simps dest: bit_imp_le_length)
qed

lemma cpu_limit_field:
  "cpu_limit w = (if bit w 55 then push_bit 12 (limit_field w) OR 0xFFF else limit_field w)"
  by (simp add: cpu_limit_def limit_field_def)

lemma SEG_limit: "cpu_limit (seg_bits (SEG ty base lim dpl)) = lim OR 0xFFF"
proof (rule bit_word_eqI)
  fix n :: nat assume n: "n < LENGTH(32)"
  have m: "(0xffff :: u32) = mask 16" "(0xFFF :: u32) = mask 12" by (simp_all add: mask_eq_exp_minus_1)
  have c: "cpu_limit (seg_bits (SEG ty base lim dpl)) = push_bit 12 (limit_field (seg_bits (SEG ty base lim dpl))) OR 0xFFF"
    by (simp add: cpu_limit_field seg_bits_granular) (simp add: SEG_def)
  show "bit (cpu_limit (seg_bits (SEG ty base lim dpl))) n = bit (lim OR 0xFFF) n"
    unfolding c m using n limit_field_bit [of "n - 12" "SEG ty base lim dpl"]
    by (auto simp: SEG_def m bit_simps)
qed

lemma SEG_kind:
  "cpu_type (seg_bits (SEG ty base lim dpl)) = ty" "cpu_app (seg_bits (SEG ty base lim dpl))"
  "cpu_dpl (seg_bits (SEG ty base lim dpl)) = dpl" "cpu_present (seg_bits (SEG ty base lim dpl))"
proof -
  show "cpu_type (seg_bits (SEG ty base lim dpl)) = ty"
    by (rule bit_word_eqI) (auto simp: cpu_type_def seg_bits_def SEG_def bit_simps dest: bit_imp_le_length)
  show "cpu_dpl (seg_bits (SEG ty base lim dpl)) = dpl"
    by (rule bit_word_eqI) (auto simp: cpu_dpl_def seg_bits_def SEG_def bit_simps dest: bit_imp_le_length)
qed (auto simp: cpu_app_def cpu_present_def seg_bits_def SEG_def bit_simps dest: bit_imp_le_length)

lemma SEG16_facts:
  fixes ty :: "4 word" and base lim :: u32 and dpl :: "2 word"
  defines "d \<equiv> (SEG16 ty base lim dpl)\<lparr>sd_s := False\<rparr>"
  shows "cpu_base (seg_bits d) = base" "cpu_limit (seg_bits d) = lim AND 0xFFFFF" "cpu_type (seg_bits d) = ty"
    "\<not> cpu_app (seg_bits d)" "cpu_dpl (seg_bits d) = dpl" "cpu_present (seg_bits d)"
proof -
  have m: "(0xFFFFFF :: 64 word) = mask 24" "(0xFFFF :: 64 word) = mask 16" "(0xF :: 64 word) = mask 4"
    "(0xffff :: u32) = mask 16" "(0xff :: u32) = mask 8" "(0xFFFFF :: u32) = mask 20"
    by (simp_all add: mask_eq_exp_minus_1)
  show "cpu_base (seg_bits d) = base"
  proof (rule bit_word_eqI)
    fix n :: nat assume n: "n < LENGTH(32)"
    consider "n < 16" | "16 \<le> n" "n < 24" | "24 \<le> n" by linarith
    then show "bit (cpu_base (seg_bits d)) n = bit base n"
      using n by cases (auto simp: cpu_base_def seg_bits_def d_def SEG16_def m bit_simps dest: bit_imp_le_length)
  qed
  show "cpu_limit (seg_bits d) = lim AND 0xFFFFF"
  proof (rule bit_word_eqI)
    fix n :: nat assume n: "n < LENGTH(32)"
    have c: "cpu_limit (seg_bits d) = limit_field (seg_bits d)"
      by (simp add: cpu_limit_field seg_bits_granular) (simp add: d_def SEG16_def)
    show "bit (cpu_limit (seg_bits d)) n = bit (lim AND 0xFFFFF) n"
      unfolding c m using n limit_field_bit [of n d] by (auto simp: d_def SEG16_def m bit_simps)
  qed
  show "cpu_type (seg_bits d) = ty"
    by (rule bit_word_eqI) (auto simp: cpu_type_def seg_bits_def d_def SEG16_def bit_simps dest: bit_imp_le_length)
  show "cpu_dpl (seg_bits d) = dpl"
    by (rule bit_word_eqI) (auto simp: cpu_dpl_def seg_bits_def d_def SEG16_def bit_simps dest: bit_imp_le_length)
qed (auto simp: cpu_app_def cpu_present_def seg_bits_def d_def SEG16_def bit_simps dest: bit_imp_le_length)

section \<open>Gates\<close>

text \<open>The fields \<open>gd_args\<close>, \<open>gd_rsv1\<close> and \<open>gd_s\<close> are 0.\<close>

definition gate_bits :: "gatedesc \<Rightarrow> descriptor" where
  "gate_bits g =
     ucast (gd_off_15_0 g) OR push_bit 16 (ucast (gd_ss g)) OR push_bit 40 (ucast (of_nat (gd_type g) :: 4 word))
     OR push_bit 45 (ucast (of_nat (gd_dpl g) :: 2 word)) OR push_bit 47 (flag (gd_p g)) OR push_bit 48 (ucast (gd_off_31_16 g))"

definition cpu_offset :: "descriptor \<Rightarrow> u32" where
  "cpu_offset w = ucast (w AND 0xFFFF) OR push_bit 16 (ucast (drop_bit 48 w))"

definition cpu_selector :: "descriptor \<Rightarrow> u16" where "cpu_selector w = ucast (drop_bit 16 w)"

lemma gate_facts:
  "cpu_offset (gate_bits (SETGATE istrap ss off dpl)) = off"
  "cpu_selector (gate_bits (SETGATE istrap ss off dpl)) = ss"
  "cpu_type (gate_bits (SETGATE istrap ss off dpl)) = (if istrap then 0xF else 0xE)"
  "\<not> cpu_app (gate_bits (SETGATE istrap ss off dpl))"
  "cpu_dpl (gate_bits (SETGATE istrap ss off dpl)) = of_nat dpl"
  "cpu_present (gate_bits (SETGATE istrap ss off dpl))"
proof -
  let ?w = "gate_bits (SETGATE istrap ss off dpl)"
  have m: "(0xFFFF :: 64 word) = mask 16" "(0xffff :: u32) = mask 16" by (simp_all add: mask_eq_exp_minus_1)
  show "cpu_offset ?w = off"
  proof (rule bit_word_eqI)
    fix n :: nat assume n: "n < LENGTH(32)"
    consider "n < 16" | "16 \<le> n" by linarith
    then show "bit (cpu_offset ?w) n = bit off n"
      using n by cases (auto simp: cpu_offset_def gate_bits_def SETGATE_def m bit_simps dest: bit_imp_le_length)
  qed
  show "cpu_selector ?w = ss"
    by (rule bit_word_eqI) (auto simp: cpu_selector_def gate_bits_def SETGATE_def bit_simps dest: bit_imp_le_length)
  have "cpu_type ?w = of_nat (gd_type (SETGATE istrap ss off dpl))"
    by (rule bit_word_eqI) (auto simp: cpu_type_def gate_bits_def SETGATE_def bit_simps dest: bit_imp_le_length)
  then show "cpu_type ?w = (if istrap then 0xF else 0xE)" by (simp add: SETGATE_def STS_IG32_def STS_TG32_def)
  show "cpu_dpl ?w = of_nat dpl"
    by (rule bit_word_eqI) (auto simp: cpu_dpl_def gate_bits_def SETGATE_def bit_simps dest: bit_imp_le_length)
qed (auto simp: cpu_app_def cpu_present_def gate_bits_def SETGATE_def bit_simps dest: bit_imp_le_length)

section \<open>The kernel's tables\<close>

text \<open>A flat segment: all four gigabytes, at this privilege.\<close>

definition flat :: "4 word \<Rightarrow> 2 word \<Rightarrow> segdesc \<Rightarrow> bool" where
  "flat ty dpl d \<longleftrightarrow>
     (let w = seg_bits d
      in cpu_base w = 0 \<and> cpu_limit w = 0xFFFFFFFF \<and> cpu_type w = ty \<and> cpu_app w \<and> cpu_dpl w = dpl \<and> cpu_present w)"

text \<open>The segment of a task state: a system segment for the kernel alone.\<close>

definition tss_at :: "u32 \<Rightarrow> segdesc \<Rightarrow> bool" where
  "tss_at a d \<longleftrightarrow>
     (let w = seg_bits d
      in cpu_base w = a \<and> cpu_limit w = SIZEOF_TASKSTATE \<and> cpu_type w = STS_T32A \<and> \<not> cpu_app w \<and> cpu_dpl w = 0 \<and> cpu_present w)"

text \<open>An interrupt gate into the kernel's code that callers of this privilege may name.\<close>

definition enters :: "u32 \<Rightarrow> nat \<Rightarrow> gatedesc option \<Rightarrow> bool" where
  "enters a dpl = case_option False (\<lambda>g. let w = gate_bits g
     in cpu_offset w = a \<and> cpu_selector w = ucast GD_KT \<and> cpu_type w = 0xE \<and> \<not> cpu_app w \<and> cpu_dpl w = of_nat dpl \<and> cpu_present w)"

lemma flat_SEG: "flat ty dpl (SEG ty 0 0xffffffff dpl)"
proof -
  have "(0xffffffff :: u32) OR 0xFFF = 0xFFFFFFFF" by simp
  then show ?thesis by (simp add: flat_def Let_def SEG_base SEG_limit SEG_kind)
qed

lemma enters_SETGATE: "enters a dpl (Some (SETGATE False 8 a dpl))"
  by (simp add: enters_def Let_def gate_facts GD_KT_def)

lemma null_not_present: "\<not> cpu_present (seg_bits SEG_NULL)"
  by (simp add: cpu_present_def seg_bits_def SEG_NULL_def bit_simps)

section \<open>The way into the kernel and back\<close>

text \<open>
  The way into the kernel and back: what the processor pushes when a program is interrupted, the
  entry points of \<open>kern/locore.S\<close>, one per vector, and \<open>_alltraps\<close>, which completes the frame for
  \<open>trap\<close>, takes it off again and returns. The stack is the list of its words, the top first, down
  from \<open>KSTACKTOP\<close>; the registers of a program are a \<open>trapframe\<close> of which \<open>tf_oesp\<close>, \<open>tf_trapno\<close>
  and \<open>tf_err\<close> mean nothing.
\<close>

subsection \<open>What the processor does\<close>

text \<open>The exceptions for which the processor pushes an error code.\<close>

definition has_error_code :: "nat \<Rightarrow> bool" where
  "has_error_code n \<longleftrightarrow> n \<in> {8, 10, 11, 12, 13, 14, 17}"

text \<open>An interruption of a program: the stack is that of \<open>ts_esp0\<close>, empty.\<close>

definition cpu_pushes :: "nat \<Rightarrow> u32 \<Rightarrow> trapframe \<Rightarrow> u32 list" where
  "cpu_pushes n err r =
     (if has_error_code n then [err] else [])
     @ [tf_eip r, ucast (tf_cs r), tf_eflags r, tf_esp r, ucast (tf_ss r)]"

subsection \<open>The entry points\<close>

definition IDTFNC :: "nat \<Rightarrow> u32 list \<Rightarrow> u32 list" where
  "IDTFNC n st = of_nat n # st"

definition IDTFNC_NOEC :: "nat \<Rightarrow> u32 list \<Rightarrow> u32 list" where
  "IDTFNC_NOEC n st = of_nat n # 0 # st"

fun entry_point :: "handler \<Rightarrow> u32 list \<Rightarrow> u32 list" where
  "entry_point H_divide = IDTFNC_NOEC T_DIVIDE"
| "entry_point H_debug = IDTFNC_NOEC T_DEBUG"
| "entry_point H_nmi = IDTFNC_NOEC T_NMI"
| "entry_point H_brkpt = IDTFNC_NOEC T_BRKPT"
| "entry_point H_oflow = IDTFNC_NOEC T_OFLOW"
| "entry_point H_bound = IDTFNC_NOEC T_BOUND"
| "entry_point H_illop = IDTFNC_NOEC T_ILLOP"
| "entry_point H_device = IDTFNC_NOEC T_DEVICE"
| "entry_point H_dblflt = IDTFNC T_DBLFLT"
| "entry_point H_tss = IDTFNC T_TSS"
| "entry_point H_segnp = IDTFNC T_SEGNP"
| "entry_point H_stack = IDTFNC T_STACK"
| "entry_point H_gpflt = IDTFNC T_GPFLT"
| "entry_point H_pgflt = IDTFNC T_PGFLT"
| "entry_point H_fperr = IDTFNC T_FPERR"
| "entry_point H_align = IDTFNC T_ALIGN"
| "entry_point H_mchk = IDTFNC T_MCHK"
| "entry_point H_systemcall = IDTFNC_NOEC T_SYSCALL"
| "entry_point H_clockrpt = IDTFNC_NOEC IRQ_OFFSET"
| "entry_point H_keybdrpt = IDTFNC_NOEC (IRQ_OFFSET + 1)"

text \<open>The address of the top of the stack.\<close>

definition stack_pointer :: "u32 list \<Rightarrow> u32" where
  "stack_pointer st = KSTACKTOP - 4 * of_nat (length st)"

text \<open>\<open>_alltraps\<close> up to the call: the segment registers, then \<open>pushal\<close>, which pushes the stack pointer
  that it found.\<close>

definition alltraps_in :: "trapframe \<Rightarrow> u32 list \<Rightarrow> u32 list" where
  "alltraps_in r st =
     (let st1 = ucast (tf_es r) # ucast (tf_ds r) # st
      in [tf_edi r, tf_esi r, tf_ebp r, stack_pointer st1, tf_ebx r, tf_edx r, tf_ecx r, tf_eax r] @ st1)"

text \<open>From the return of \<open>trap\<close> on: \<open>popal\<close> skips the stack pointer, two words are dropped, and
  \<open>iret\<close> takes the rest.\<close>

definition alltraps_out :: "u32 list \<Rightarrow> trapframe option" where
  "alltraps_out st =
     (if length st < 17 then None
      else Some \<lparr>tf_edi = st ! 0, tf_esi = st ! 1, tf_ebp = st ! 2, tf_oesp = st ! 3, tf_ebx = st ! 4, tf_edx = st ! 5,
                 tf_ecx = st ! 6, tf_eax = st ! 7, tf_es = ucast (st ! 8), tf_ds = ucast (st ! 9),
                 tf_trapno = st ! 10, tf_err = st ! 11, tf_eip = st ! 12, tf_cs = ucast (st ! 13),
                 tf_eflags = st ! 14, tf_esp = st ! 15, tf_ss = ucast (st ! 16)\<rparr>)"

text \<open>What \<open>trap\<close> finds at the address that it gets is read in the same order, from a stack that the
  words above \<open>KSTACKTOP\<close> continue.\<close>

definition frame_seen :: "u32 list \<Rightarrow> u32 list \<Rightarrow> trapframe option" where
  "frame_seen st beyond = alltraps_out (st @ beyond)"

definition enters_trap :: "handler \<Rightarrow> nat \<Rightarrow> u32 \<Rightarrow> trapframe \<Rightarrow> u32 list" where
  "enters_trap h n err r = alltraps_in r (entry_point h (cpu_pushes n err r))"

text \<open>The frame of a program that was interrupted through vector \<open>n\<close>.\<close>

definition frame_of :: "nat \<Rightarrow> u32 \<Rightarrow> trapframe \<Rightarrow> trapframe" where
  "frame_of n err r =
     r\<lparr>tf_trapno := of_nat n, tf_err := (if has_error_code n then err else 0), tf_oesp := UTF_ADDR + 32\<rparr>"

text \<open>A good entry: \<open>trap\<close> is called with the number of the vector and the frame at \<open>UTF\<close>, and its
  return resumes the program as the frame says.\<close>

definition good_entry :: "handler \<Rightarrow> nat \<Rightarrow> bool" where
  "good_entry h n \<longleftrightarrow>
     (\<forall>err r beyond.
        let st = enters_trap h n err r
        in stack_pointer st = UTF_ADDR \<and> frame_seen st beyond = Some (frame_of n err r)
           \<and> alltraps_out st = Some (frame_of n err r))"

text \<open>An entry that takes the saved instruction pointer for an error code: the frame is a word too
  high and every field above the error code is that of the next word.\<close>

definition shifted_entry :: "handler \<Rightarrow> nat \<Rightarrow> bool" where
  "shifted_entry h n \<longleftrightarrow>
     (\<forall>err r w beyond.
        let st = enters_trap h n err r
        in stack_pointer st = UTF_ADDR + 4
           \<and> map_option (\<lambda>f. (tf_trapno f, tf_err f, tf_eip f, tf_esp f)) (frame_seen st (w # beyond))
               = Some (of_nat n, tf_eip r, ucast (tf_cs r), ucast (tf_ss r)))"

lemma ucast_u16_u32 [simp]: "ucast (ucast (x :: u16) :: u32) = x"
  by (rule bit_word_eqI) (auto simp: bit_simps)

lemma good_entry_NOEC:
  "entry_point h = IDTFNC_NOEC n \<Longrightarrow> \<not> has_error_code n \<Longrightarrow> good_entry h n"
  by (simp add: good_entry_def enters_trap_def cpu_pushes_def IDTFNC_NOEC_def alltraps_in_def Let_def
      stack_pointer_def frame_seen_def alltraps_out_def frame_of_def UTF_ADDR_def KSTACKTOP_def)

lemma good_entry_EC:
  "entry_point h = IDTFNC n \<Longrightarrow> has_error_code n \<Longrightarrow> good_entry h n"
  by (simp add: good_entry_def enters_trap_def cpu_pushes_def IDTFNC_def alltraps_in_def Let_def
      stack_pointer_def frame_seen_def alltraps_out_def frame_of_def UTF_ADDR_def KSTACKTOP_def)

lemma shifted_entry_EC:
  "entry_point h = IDTFNC n \<Longrightarrow> \<not> has_error_code n \<Longrightarrow> shifted_entry h n"
  by (simp add: shifted_entry_def enters_trap_def cpu_pushes_def IDTFNC_def alltraps_in_def Let_def
      stack_pointer_def frame_seen_def alltraps_out_def UTF_ADDR_def KSTACKTOP_def)

lemmas trap_numbers =
  T_DIVIDE_def T_DEBUG_def T_NMI_def T_BRKPT_def T_OFLOW_def T_BOUND_def T_ILLOP_def T_DEVICE_def
  T_DBLFLT_def T_TSS_def T_SEGNP_def T_STACK_def T_GPFLT_def T_PGFLT_def T_FPERR_def T_ALIGN_def
  T_MCHK_def T_SYSCALL_def IRQ_OFFSET_def

text \<open>Nine entries find no error code and push a zero; those of 16 and 18 find none and push none.\<close>

lemma entries_good:
  "good_entry H_divide 0" "good_entry H_debug 1" "good_entry H_nmi 2" "good_entry H_brkpt 3"
  "good_entry H_oflow 4" "good_entry H_bound 5" "good_entry H_illop 6" "good_entry H_device 7"
  "good_entry H_dblflt 8" "good_entry H_tss 10" "good_entry H_segnp 11" "good_entry H_stack 12"
  "good_entry H_gpflt 13" "good_entry H_pgflt 14" "good_entry H_align 17"
  "good_entry H_systemcall 0x30" "good_entry H_clockrpt 0x20" "good_entry H_keybdrpt 0x21"
  by (rule good_entry_NOEC good_entry_EC; simp add: trap_numbers has_error_code_def)+

lemma entries_shifted: "shifted_entry H_fperr 16" "shifted_entry H_mchk 18"
  by (rule shifted_entry_EC; simp add: trap_numbers has_error_code_def)+

section \<open>The gates\<close>

lemma idt_init_gates:
  "idt_init addr idt 0 = Some (SETGATE False 8 (addr H_divide) 0)"
  "idt_init addr idt 1 = Some (SETGATE False 8 (addr H_debug) 0)"
  "idt_init addr idt 2 = Some (SETGATE False 8 (addr H_nmi) 0)"
  "idt_init addr idt 3 = Some (SETGATE False 8 (addr H_brkpt) 3)"
  "idt_init addr idt 4 = Some (SETGATE False 8 (addr H_oflow) 0)"
  "idt_init addr idt 5 = Some (SETGATE False 8 (addr H_bound) 0)"
  "idt_init addr idt 6 = Some (SETGATE False 8 (addr H_illop) 0)"
  "idt_init addr idt 7 = Some (SETGATE False 8 (addr H_device) 0)"
  "idt_init addr idt 8 = Some (SETGATE False 8 (addr H_dblflt) 0)"
  "idt_init addr idt 10 = Some (SETGATE False 8 (addr H_tss) 0)"
  "idt_init addr idt 11 = Some (SETGATE False 8 (addr H_segnp) 0)"
  "idt_init addr idt 12 = Some (SETGATE False 8 (addr H_stack) 0)"
  "idt_init addr idt 13 = Some (SETGATE False 8 (addr H_gpflt) 0)"
  "idt_init addr idt 14 = Some (SETGATE False 8 (addr H_pgflt) 0)"
  "idt_init addr idt 16 = Some (SETGATE False 8 (addr H_fperr) 0)"
  "idt_init addr idt 17 = Some (SETGATE False 8 (addr H_align) 0)"
  "idt_init addr idt 18 = Some (SETGATE False 8 (addr H_mchk) 0)"
  "idt_init addr idt 0x30 = Some (SETGATE False 8 (addr H_systemcall) 3)"
  "idt_init addr idt 0x20 = Some (SETGATE False 8 (addr H_clockrpt) 0)"
  "idt_init addr idt 0x21 = Some (SETGATE False 8 (addr H_keybdrpt) 3)"
  by (simp_all add: idt_init_def trap_numbers)

text \<open>The vectors that have a gate, and those among them that a program may name in an \<open>int\<close>.\<close>

definition vectors :: "nat set" where
  "vectors = {0, 1, 2, 3, 4, 5, 6, 7, 8, 10, 11, 12, 13, 14, 16, 17, 18, 0x20, 0x21, 0x30}"

definition for_programs :: "nat set" where "for_programs = {3, 0x21, 0x30}"

lemma idt_init_else: "n \<notin> vectors \<Longrightarrow> idt_init addr idt n = idt n"
  by (auto simp: idt_init_def trap_numbers vectors_def)

text \<open>A gate for this vector: the privilege that it asks for, and the entry point that it leads to.\<close>

definition gate_for :: "(handler \<Rightarrow> u32) \<Rightarrow> nat \<Rightarrow> gatedesc option \<Rightarrow> bool" where
  "gate_for addr n g \<longleftrightarrow>
     (\<exists>h. enters (addr h) (if n \<in> for_programs then 3 else 0) g
        \<and> (if n = 16 \<or> n = 18 then shifted_entry h n else good_entry h n))"

lemma gate_forI:
  assumes "g = Some (SETGATE False 8 (addr h) (if n \<in> for_programs then 3 else 0))"
    and "if n = 16 \<or> n = 18 then shifted_entry h n else good_entry h n"
  shows "gate_for addr n g"
  using assms enters_SETGATE unfolding gate_for_def by blast

lemma idt_init_gate_for:
  assumes "n \<in> vectors"
  shows "gate_for addr n (idt_init addr idt n)"
proof -
  note i = idt_init_gates [of addr idt]
  note e = entries_good entries_shifted entries_good(2) [simplified]
  have "\<exists>h. idt_init addr idt n = Some (SETGATE False 8 (addr h) (if n \<in> for_programs then 3 else 0))
          \<and> (if n = 16 \<or> n = 18 then shifted_entry h n else good_entry h n)"
    using assms unfolding vectors_def
    by (elim insertE emptyE) (simp only: i, rule exI, rule conjI, simp add: for_programs_def, simp add: e)+
  then show ?thesis using gate_forI by metis
qed

text \<open>
  C36. \<open>SEG\<close>, \<open>SEG16\<close> and \<open>SETGATE\<close> give the descriptors the format that the processor reads. After
  \<open>idt_init\<close> the null selector names nothing; the two kernel and the two user selectors are flat
  segments of code or data at privilege 0 and 3; the selector in the task register is the task state
  at the address of \<open>ts\<close>, whose stack for privilege 0 is the kernel's. The exceptions 0 to 8, 10 to 14
  and 16 to 18, the clock (0x20), the keyboard (0x21) and the system call (0x30) have a gate into the
  kernel's code, and no other vector gets one; a program may name only 3, 0x21 and 0x30. Each gate
  leads to the entry point of \<open>locore.S\<close> that hands \<open>trap\<close> the number of its vector in a frame at
  \<open>UTF\<close> which holds the interrupted program's registers and from which it resumes; but for 16 and 18,
  where the entry point counts on an error code that the processor does not push: there the frame is a
  word too high, and its instruction pointer is the program's code selector.
\<close>
theorem descriptors_are_wellformed:
  "case idt_init_tss a gdt ts of (g, ts', tr) \<Rightarrow>
     \<not> cpu_present (seg_bits (g 0))
     \<and> flat (STA_X OR STA_R) 0 (g (sel_index GD_KT)) \<and> flat STA_W 0 (g (sel_index GD_KD))
     \<and> flat (STA_X OR STA_R) 3 (g (sel_index GD_UT)) \<and> flat STA_W 3 (g (sel_index GD_UD))
     \<and> tss_at a (g (sel_index (ucast tr))) \<and> ts_esp0 ts' = KSTACKTOP \<and> ts_ss0 ts' = ucast GD_KD
     \<and> (\<forall>n. if n \<in> vectors then gate_for addr n (idt_init addr idt n) else idt_init addr idt n = idt n)"
proof -
  have l: "SIZEOF_TASKSTATE AND 0xFFFFF = SIZEOF_TASKSTATE" by (simp add: SIZEOF_TASKSTATE_def)
  have i: "sel_index GD_KT = 1" "sel_index GD_KD = 2" "sel_index GD_UT = 3" "sel_index GD_UD = 4" "sel_index GD_TSS = 5"
    "(ucast (ucast GD_TSS :: u16) :: u32) = GD_TSS"
    by (simp_all add: sel_index_def GD_KT_def GD_KD_def GD_UT_def GD_UD_def GD_TSS_def)
  have t: "tss_at a (SEG16 STS_T32A a SIZEOF_TASKSTATE 0\<lparr>sd_s := False\<rparr>)"
    by (simp add: tss_at_def Let_def SEG16_facts l)
  have g: "if n \<in> vectors then gate_for addr n (idt_init addr idt n) else idt_init addr idt n = idt n" for n
    using idt_init_gate_for idt_init_else by simp
  show ?thesis
    using g t by (simp add: idt_init_tss_def Let_def gdt_def i flat_SEG null_not_present)
qed

end
