(* ===== verification/Loader.thy ===== *)
theory Loader
  imports Ports Fs_Disk "HOL-Library.Signed_Division"
begin

text \<open>
  The boot loader, \<open>boot/main.c\<close>: it reads the header of the kernel's image from the second sector
  of the disk, then the image, sector by sector. The disk is what its controller answers to the
  accesses of the ports.
\<close>

unbundle bit_operations_syntax

section \<open>The code\<close>

definition SECTOR_SIZE :: nat where "SECTOR_SIZE = 512"
definition SIZEOF_A_OUT_HDR :: u32 where "SIZEOF_A_OUT_HDR = 32"

record a_out_hdr =
  a_midmag :: u32
  a_text :: u32
  a_data :: u32
  a_bss :: u32
  a_syms :: u32
  a_entry :: u32
  a_trsize :: u32
  a_drsize :: u32

definition hdr_at :: "kmem \<Rightarrow> u32 \<Rightarrow> a_out_hdr" where
  "hdr_at m a =
     \<lparr>a_midmag = rd32 m a, a_text = rd32 m (a + 4), a_data = rd32 m (a + 8), a_bss = rd32 m (a + 12),
      a_syms = rd32 m (a + 16), a_entry = rd32 m (a + 20), a_trsize = rd32 m (a + 24), a_drsize = rd32 m (a + 28)\<rparr>"

text \<open>The loop on the status port, which may not end.\<close>

partial_function (option) disk_wait :: "device \<Rightarrow> accesses \<Rightarrow> accesses option" where
  "disk_wait dev h =
     (let (status, h1) = inb dev 0x1f7 h in if status AND 0x80 \<noteq> 0 then disk_wait dev h1 else Some h1)"

declare disk_wait.simps [code]

definition read_sector ::
  "device \<Rightarrow> device32 \<Rightarrow> u32 \<Rightarrow> u32 \<Rightarrow> kmem \<times> accesses \<Rightarrow> (kmem \<times> accesses) option" where
  "read_sector dev dev32 sector dest s =
     do {
       h1 \<leftarrow> disk_wait dev (snd s);
       let h2 = outb 0x1f2 1 h1;
       let h3 = outb 0x1f3 (ucast (sector AND 0xff)) h2;
       let h4 = outb 0x1f4 (ucast (drop_bit 8 sector AND 0xff)) h3;
       let h5 = outb 0x1f5 (ucast (drop_bit 16 sector AND 0xff)) h4;
       let h6 = outb 0x1f6 (ucast (0xe0 OR (drop_bit 24 sector AND 0x0f))) h5;
       let h7 = outb 0x1f7 0x20 h6;
       h8 \<leftarrow> disk_wait dev h7;
       Some (insl dev32 0x1f0 dest (SECTOR_SIZE div 4) (fst s, h8))
     }"

text \<open>The number of sectors is an \<open>int\<close> for the division.\<close>

definition sectors_of :: "a_out_hdr \<Rightarrow> int" where
  "sectors_of hdr =
     (let n = SIZEOF_A_OUT_HDR + a_text hdr + a_data hdr
      in (sint (n + of_nat SECTOR_SIZE - 1)) sdiv int SECTOR_SIZE)"

function load_sectors ::
  "device \<Rightarrow> device32 \<Rightarrow> int \<Rightarrow> int \<Rightarrow> u32 \<Rightarrow> kmem \<times> accesses \<Rightarrow> (kmem \<times> accesses) option" where
  "load_sectors dev dev32 i nsectors dest s =
     (if i \<le> nsectors then
        do {
          s1 \<leftarrow> read_sector dev dev32 (word_of_int i) dest s;
          load_sectors dev dev32 (i + 1) nsectors (dest + of_nat SECTOR_SIZE) s1
        }
      else Some s)"
  by auto
termination load_sectors
  by (relation "measure (\<lambda>(dev, dev32, i, nsectors, dest, s). nat (nsectors + 1 - i))") auto

declare load_sectors.simps [simp del]

text \<open>
  \<open>buf\<close> is the address of \<open>sector\<close> on the stack. The result is where the kernel is entered, with
  what on its stack.
\<close>

definition cmain ::
  "device \<Rightarrow> device32 \<Rightarrow> u32 \<Rightarrow> u32 \<Rightarrow> u32 \<Rightarrow> kmem \<times> accesses \<Rightarrow> ((u32 \<times> u32 list) \<times> kmem \<times> accesses) option" where
  "cmain dev dev32 buf low high s =
     do {
       s1 \<leftarrow> read_sector dev dev32 1 buf s;
       let hdr = hdr_at (fst s1) buf;
       let kernel_entry_point = a_entry hdr AND 0xffffff;
       s2 \<leftarrow> load_sectors dev dev32 1 (sectors_of hdr) (kernel_entry_point - SIZEOF_A_OUT_HDR) s1;
       Some ((kernel_entry_point, [low, high]), s2)
     }"

section \<open>The disk controller\<close>

text \<open>
  What the controller knows: the registers, and how many words of the sector have been read since
  the last command.
\<close>

record ide =
  ide_reg :: "u32 \<Rightarrow> u8"
  ide_pos :: nat

definition ide_told :: "access \<Rightarrow> ide \<Rightarrow> ide" where
  "ide_told a c =
     (case a of
        Out_port p v \<Rightarrow> c\<lparr>ide_reg := (ide_reg c)(p := v), ide_pos := (if p = 0x1f7 then 0 else ide_pos c)\<rparr>
      | In_port p \<Rightarrow> if p = 0x1f0 then c\<lparr>ide_pos := ide_pos c + 1\<rparr> else c)"

definition ide_after :: "accesses \<Rightarrow> ide" where
  "ide_after h = fold ide_told h \<lparr>ide_reg = (\<lambda>_. 0), ide_pos = 0\<rparr>"

definition ide_sector :: "ide \<Rightarrow> u32" where
  "ide_sector c = ide_lba (map (\<lambda>p. (p, ide_reg c p)) [0x1F2, 0x1F3, 0x1F4, 0x1F5, 0x1F6, 0x1F7])"

text \<open>A disk answers with the words of the selected sector.\<close>

definition disk_of :: "(u32 \<Rightarrow> nat \<Rightarrow> u32) \<Rightarrow> device32" where
  "disk_of sectors h p = (let c = ide_after h in sectors (ide_sector c) (ide_pos c))"

text \<open>It is busy only for a time.\<close>

definition ready :: "device \<Rightarrow> bool" where
  "ready dev \<longleftrightarrow> (\<forall>h. \<exists>n. dev (h @ replicate n (In_port 0x1f7)) 0x1f7 AND 0x80 = 0)"

lemma ide_after_simps:
  "ide_after (outb p v h) = (ide_after h)\<lparr>ide_reg := (ide_reg (ide_after h))(p := v), ide_pos := (if p = 0x1f7 then 0 else ide_pos (ide_after h))\<rparr>"
  "ide_after (h @ [In_port p]) = (if p = 0x1f0 then (ide_after h)\<lparr>ide_pos := ide_pos (ide_after h) + 1\<rparr> else ide_after h)"
  by (simp_all add: ide_after_def outb_def ide_told_def)

lemma ide_after_polls: "ide_after (h @ replicate n (In_port 0x1f7)) = ide_after h"
  by (induction n arbitrary: h) (simp_all add: ide_after_def ide_told_def)

lemma ide_words: "fold ide_told (replicate n (In_port 0x1f0)) c = c\<lparr>ide_pos := ide_pos c + n\<rparr>"
  by (induction n arbitrary: c) (simp_all add: ide_told_def)

lemma ide_after_words:
  "ide_after (h @ replicate n (In_port 0x1f0)) = (ide_after h)\<lparr>ide_pos := ide_pos (ide_after h) + n\<rparr>"
  unfolding ide_after_def fold_append o_apply ide_words ..

section \<open>One sector\<close>

lemma disk_wait_ends:
  assumes "dev (h @ replicate n (In_port 0x1f7)) 0x1f7 AND 0x80 = 0"
  shows "\<exists>k. disk_wait dev h = Some (h @ replicate k (In_port 0x1f7))"
  using assms
proof (induction n arbitrary: h)
  case 0
  then have "disk_wait dev h = Some (h @ replicate 1 (In_port 0x1f7))"
    by (subst disk_wait.simps) (simp add: inb_def)
  then show ?case by blast
next
  case (Suc n)
  show ?case
  proof (cases "dev h 0x1f7 AND 0x80 = 0")
    case True
    then have "disk_wait dev h = Some (h @ replicate 1 (In_port 0x1f7))"
      by (subst disk_wait.simps) (simp add: inb_def)
    then show ?thesis by blast
  next
    case False
    obtain k where k: "disk_wait dev (h @ [In_port 0x1f7]) = Some ((h @ [In_port 0x1f7]) @ replicate k (In_port 0x1f7))"
      using Suc.IH [of "h @ [In_port 0x1f7]"] Suc.prems by auto
    have "disk_wait dev h = disk_wait dev (h @ [In_port 0x1f7])"
      using False by (subst disk_wait.simps) (simp add: inb_def)
    then have "disk_wait dev h = Some (h @ replicate (Suc k) (In_port 0x1f7))" using k by simp
    then show ?thesis by blast
  qed
qed

lemma disk_wait_ok:
  assumes "ready dev"
  shows "\<exists>h1. disk_wait dev h = Some h1 \<and> ide_after h1 = ide_after h"
proof -
  obtain n where "dev (h @ replicate n (In_port 0x1f7)) 0x1f7 AND 0x80 = 0" using assms by (auto simp: ready_def)
  then obtain k where "disk_wait dev h = Some (h @ replicate k (In_port 0x1f7))" using disk_wait_ends by blast
  then show ?thesis by (simp add: ide_after_polls)
qed

text \<open>Bytes stored from an address on.\<close>

definition stored :: "kmem \<Rightarrow> u32 \<Rightarrow> nat \<Rightarrow> (nat \<Rightarrow> u8) \<Rightarrow> kmem" where
  "stored m a n bs x = (if unat (x - a) < n then bs (unat (x - a)) else m x)"

lemma unat_back:
  fixes x a :: u32
  assumes "k < 2 ^ 32"
  shows "unat (x - (a + of_nat k)) = (if k \<le> unat (x - a) then unat (x - a) - k else 2 ^ 32 + unat (x - a) - k)"
proof -
  have u: "unat (of_nat k :: u32) = k" using assms by (rule unat_of_nat_u32)
  have e: "x - (a + of_nat k) = (x - a) - of_nat k" by simp
  show ?thesis
  proof (cases "k \<le> unat (x - a)")
    case True
    then show ?thesis unfolding e by (simp add: u unat_sub word_le_nat_alt)
  next
    case False
    then show ?thesis unfolding e by (simp add: unat_sub_if_size u word_le_nat_alt word_size)
  qed
qed

lemma insl_snoc:
  "insl dev p a (Suc n) s = (case insl dev p a n s of (m, h) \<Rightarrow> (wr32 m (a + 4 * of_nat n) (dev h p), h @ [In_port p]))"
proof (induction n arbitrary: a s)
  case 0
  then show ?case by (cases s) simp
next
  case (Suc n)
  obtain m h where s: "s = (m, h)" by (cases s)
  show ?case using Suc.IH [of "a + 4" "(wr32 m a (dev h p), h @ [In_port p])"] unfolding s
    by (simp add: algebra_simps split: prod.splits)
qed

lemma insl_disk:
  assumes "4 * n < 2 ^ 32"
  shows "insl (disk_of sectors) 0x1f0 a n (m, h)
    = (stored m a (4 * n) (get_bytes (\<lambda>k. sectors (ide_sector (ide_after h)) (ide_pos (ide_after h) + k))),
       h @ replicate n (In_port 0x1f0))"
  using assms
proof (induction n)
  case 0
  then show ?case by (simp add: stored_def fun_eq_iff)
next
  case (Suc n)
  let ?w = "\<lambda>k. sectors (ide_sector (ide_after h)) (ide_pos (ide_after h) + k)"
  have d: "disk_of sectors (h @ replicate n (In_port 0x1f0)) 0x1f0 = ?w n"
    by (simp add: disk_of_def ide_after_words ide_sector_def)
  have "wr32 (stored m a (4 * n) (get_bytes ?w)) (a + of_nat (4 * n)) (?w n) = stored m a (4 * Suc n) (get_bytes ?w)"
  proof
    fix x
    have u: "unat (x - (a + 4 * of_nat n)) = (if 4 * n \<le> unat (x - a) then unat (x - a) - 4 * n else 2 ^ 32 + unat (x - a) - 4 * n)"
      using Suc.prems unat_back [of "4 * n" x a] by simp
    consider "unat (x - a) < 4 * n" | "4 * n \<le> unat (x - a)" "unat (x - a) < 4 * n + 4" | "4 * n + 4 \<le> unat (x - a)" by linarith
    then show "wr32 (stored m a (4 * n) (get_bytes ?w)) (a + of_nat (4 * n)) (?w n) x = stored m a (4 * Suc n) (get_bytes ?w) x"
    proof cases
      case 1
      have "4 \<le> unat (x - (a + 4 * of_nat n))" using 1 Suc.prems unfolding u by simp
      then show ?thesis using 1 by (simp add: wr32_at stored_def)
    next
      case 2
      then obtain j where j: "unat (x - a) = 4 * n + j" "j < 4" by (metis less_add_same_cancel1 le_Suc_ex add_less_cancel_left)
      then show ?thesis by (simp add: wr32_at u stored_def get_bytes_def)
    next
      case 3
      then have "4 \<le> unat (x - (a + 4 * of_nat n))" unfolding u by simp
      then show ?thesis using 3 by (simp add: wr32_at stored_def)
    qed
  qed
  moreover have "(h @ replicate n (In_port 0x1f0)) @ [In_port 0x1f0] = h @ replicate (Suc n) (In_port 0x1f0)"
    by (simp only: append_assoc replicate_append_same replicate_Suc)
  ultimately show ?case using Suc.IH Suc.prems by (simp add: insl_snoc d del: insl.simps(2) replicate_Suc append_assoc)
qed

text \<open>The address of a byte of the disk.\<close>

definition sector_bytes :: "(u32 \<Rightarrow> nat \<Rightarrow> u32) \<Rightarrow> nat \<Rightarrow> nat \<Rightarrow> u8" where
  "sector_bytes sectors i = get_bytes (sectors (of_nat i))"

lemma read_sector_ok:
  assumes r: "ready dev" and i: "i < 2 ^ 28"
  shows "\<exists>h1. read_sector dev (disk_of sectors) (of_nat i) dest (m, h) = Some (stored m dest SECTOR_SIZE (sector_bytes sectors i), h1)"
proof -
  obtain h1 where h1: "disk_wait dev h = Some h1" using disk_wait_ok [OF r] by blast
  let ?s = "of_nat i :: u32"
  define h7 where "h7 = fold (\<lambda>(p, v). outb p v) (ide_regs 0x20 0 ?s 1) h1"
  obtain h8 where h8: "disk_wait dev h7 = Some h8" "ide_after h8 = ide_after h7" using disk_wait_ok [OF r] by blast
  have "unat ?s = i" using i by (intro unat_of_nat_u32) simp
  then have s: "?s < 2 ^ 28" using i by (simp add: word_less_nat_alt)
  have sel: "ide_sector (ide_after h7) = ?s" "ide_pos (ide_after h7) = 0"
    using ide_lba_regs [OF s, where cmd = "0x20" and diskno = 0 and nsecs = 1]
    by (simp_all add: h7_def ide_regs_def ide_after_simps ide_sector_def)
  have rs: "read_sector dev (disk_of sectors) ?s dest (m, h) = Some (insl (disk_of sectors) 0x1f0 dest 128 (m, h8))"
    using h8(1) by (simp add: read_sector_def h1 h7_def ide_regs_def SECTOR_SIZE_def Let_def)
  show ?thesis unfolding rs using insl_disk [of 128 sectors dest m h8, simplified]
    by (simp add: h8(2) sel sector_bytes_def SECTOR_SIZE_def)
qed

section \<open>The image\<close>

text \<open>The bytes of the disk from the second sector on.\<close>

definition image_byte :: "(u32 \<Rightarrow> nat \<Rightarrow> u32) \<Rightarrow> nat \<Rightarrow> u8" where
  "image_byte sectors k = sector_bytes sectors (1 + k div SECTOR_SIZE) (k mod SECTOR_SIZE)"

lemma stored_more:
  assumes "n + l < 2 ^ 32" "\<And>k. k < l \<Longrightarrow> cs k = bs (n + k)"
  shows "stored (stored m a n bs) (a + of_nat n) l cs = stored m a (n + l) bs"
proof
  fix x
  have u: "unat (x - (a + of_nat n)) = (if n \<le> unat (x - a) then unat (x - a) - n else 2 ^ 32 + unat (x - a) - n)"
    using assms(1) by (intro unat_back) simp
  show "stored (stored m a n bs) (a + of_nat n) l cs x = stored m a (n + l) bs x"
  proof (cases "n \<le> unat (x - a)")
    case True
    then show ?thesis using assms(2) [of "unat (x - a) - n"] by (auto simp: stored_def u)
  next
    case False
    then have "\<not> unat (x - (a + of_nat n)) < l" using assms(1) unfolding u by simp
    then show ?thesis using False by (simp add: stored_def)
  qed
qed

lemma stored_none: "stored m a 0 bs = m"
  by (simp add: stored_def fun_eq_iff)

lemma load_sectors_ok:
  assumes r: "ready dev" and N: "N < 2 ^ 22" and i: "i \<le> N"
  shows "\<exists>h1. load_sectors dev (disk_of sectors) (int i + 1) (int N) (dest + of_nat (i * SECTOR_SIZE))
      (stored m dest (i * SECTOR_SIZE) (image_byte sectors), h)
    = Some (stored m dest (N * SECTOR_SIZE) (image_byte sectors), h1)"
  using i
proof (induction "N - i" arbitrary: i h)
  case 0
  then show ?case by (subst load_sectors.simps) simp
next
  case (Suc d)
  then have lt: "i < N" by simp
  obtain h1 where h1: "read_sector dev (disk_of sectors) (of_nat (i + 1)) (dest + of_nat (i * SECTOR_SIZE))
      (stored m dest (i * SECTOR_SIZE) (image_byte sectors), h)
    = Some (stored (stored m dest (i * SECTOR_SIZE) (image_byte sectors)) (dest + of_nat (i * SECTOR_SIZE)) SECTOR_SIZE
        (sector_bytes sectors (i + 1)), h1)"
    using read_sector_ok [OF r, of "i + 1"] lt N by fastforce
  have st: "stored (stored m dest (i * SECTOR_SIZE) (image_byte sectors)) (dest + of_nat (i * SECTOR_SIZE)) SECTOR_SIZE
      (sector_bytes sectors (i + 1)) = stored m dest ((i + 1) * SECTOR_SIZE) (image_byte sectors)"
    using lt N by (subst stored_more) (auto simp: SECTOR_SIZE_def image_byte_def add.commute)
  have w: "word_of_int (int i + 1) = (of_nat (i + 1) :: u32)" by simp
  have a: "dest + of_nat (i * SECTOR_SIZE) + of_nat SECTOR_SIZE = dest + of_nat ((i + 1) * SECTOR_SIZE)"
    by (simp add: algebra_simps)
  have e: "int i + 1 + 1 = int (i + 1) + 1" by simp
  obtain h2 where "load_sectors dev (disk_of sectors) (int (i + 1) + 1) (int N) (dest + of_nat ((i + 1) * SECTOR_SIZE))
      (stored m dest ((i + 1) * SECTOR_SIZE) (image_byte sectors), h1)
    = Some (stored m dest (N * SECTOR_SIZE) (image_byte sectors), h2)"
    using Suc.hyps(1) [of "i + 1" h1] Suc.hyps(2) lt by (metis Suc_eq_plus1 Suc_leI diff_Suc_1 diff_diff_left)
  then show ?case
    using lt by (subst load_sectors.simps) (simp only: w a e h1 st Option.bind.simps fst_conv snd_conv, simp)
qed

text \<open>The word of the header at an offset, and the size of what is to be loaded.\<close>

definition image_word :: "(u32 \<Rightarrow> nat \<Rightarrow> u32) \<Rightarrow> nat \<Rightarrow> u32" where
  "image_word sectors i = sectors 1 i"

definition image_size :: "(u32 \<Rightarrow> nat \<Rightarrow> u32) \<Rightarrow> nat" where
  "image_size sectors = 32 + unat (image_word sectors 1) + unat (image_word sectors 2)"

definition image_sectors :: "(u32 \<Rightarrow> nat \<Rightarrow> u32) \<Rightarrow> nat" where
  "image_sectors sectors = (image_size sectors + SECTOR_SIZE - 1) div SECTOR_SIZE"

definition entry_point :: "(u32 \<Rightarrow> nat \<Rightarrow> u32) \<Rightarrow> u32" where
  "entry_point sectors = image_word sectors 5 AND 0xffffff"

lemma rd32_eqI: "(\<And>i. i < 4 \<Longrightarrow> m (a + of_nat i) = get_byte w i) \<Longrightarrow> rd32 m a = w"
proof -
  assume b: "\<And>i. i < 4 \<Longrightarrow> m (a + of_nat i) = get_byte w i"
  have "rd32 m a = rd32 (wr32 m a w) a" using b [of 0] b [of 1] b [of 2] b [of 3]
    by (simp add: rd32_def wr32_def)
  moreover have "rd32 (wr32 m a w) a = w"
  proof (rule bit_word_eqI)
    fix n :: nat assume n: "n < LENGTH(32)"
    have e: "bit (rd32 (wr32 m a w) a) n = bit (get_byte (rd32 (wr32 m a w) a) (n div 8)) (n mod 8)"
      "bit w n = bit (get_byte w (n div 8)) (n mod 8)" by (simp_all add: get_byte_def bit_simps)
    have "n div 8 < 4" using n by simp
    then have "get_byte (rd32 (wr32 m a w) a) (n div 8) = get_byte w (n div 8)"
      by (subst get_byte_rd32) (simp_all add: wr32_at unat_of_nat_u32)
    then show "bit (rd32 (wr32 m a w) a) n = bit w n" unfolding e by simp
  qed
  ultimately show ?thesis by simp
qed

lemma stored_word:
  assumes "4 * k + 4 \<le> n" "n < 2 ^ 32"
  shows "rd32 (stored m a n (get_bytes ws)) (a + of_nat (4 * k)) = ws k"
proof (rule rd32_eqI)
  fix i :: nat assume i: "i < 4"
  have "a + of_nat (4 * k) + of_nat i - a = (of_nat (4 * k + i) :: u32)" by simp
  then have "unat (a + of_nat (4 * k) + of_nat i - a) = 4 * k + i"
    using assms i by (simp only: unat_of_nat_u32)
  then show "stored m a n (get_bytes ws) (a + of_nat (4 * k) + of_nat i) = get_byte (ws k) i"
    using assms i by (simp add: stored_def get_bytes_def)
qed

lemma sectors_of_ok:
  assumes t: "a_text hdr = image_word sectors 1" "a_data hdr = image_word sectors 2" and n: "image_size sectors + 511 < 2 ^ 31"
  shows "sectors_of hdr = int (image_sectors sectors)"
proof -
  let ?n = "SIZEOF_A_OUT_HDR + a_text hdr + a_data hdr + of_nat SECTOR_SIZE - 1"
  have "?n = of_nat (image_size sectors + 511)"
    by (simp add: SIZEOF_A_OUT_HDR_def SECTOR_SIZE_def image_size_def t)
  then have "sint ?n = int (image_size sectors + 511)" using n by (simp only: sint_of_nat_u32)
  moreover have "int a sdiv int SECTOR_SIZE = int (a div SECTOR_SIZE)" for a
    by (simp add: signed_divide_int_def SECTOR_SIZE_def zdiv_int sgn_if)
  ultimately show ?thesis by (simp only: sectors_of_def Let_def image_sectors_def) (simp add: SECTOR_SIZE_def)
qed

text \<open>
  C37. With a disk that is not busy for ever, the boot loader loads the kernel and enters it: the
  header and the two segments that it announces are in memory as they are on the disk from the
  second sector on, the first byte of the text at the entry point. Apart from its buffer and the
  rest of the last sector no other memory is written.
\<close>

theorem boot_loads_kernel:
  assumes r: "ready dev" and n: "image_size sectors + 511 < 2 ^ 31"
  shows "\<exists>m' h'. cmain dev (disk_of sectors) buf low high (m, h) = Some ((entry_point sectors, [low, high]), m', h')
    \<and> (\<forall>k < image_size sectors. m' (entry_point sectors - 32 + of_nat k) = image_byte sectors k)
    \<and> (\<forall>x. 512 \<le> unat (x - buf) \<and> image_sectors sectors * 512 \<le> unat (x - (entry_point sectors - 32)) \<longrightarrow> m' x = m x)"
proof -
  define m1 where "m1 = stored m buf SECTOR_SIZE (get_bytes (sectors 1))"
  obtain h1 where h1: "read_sector dev (disk_of sectors) 1 buf (m, h) = Some (m1, h1)"
    using read_sector_ok [OF r, of 1 sectors buf m h] by (auto simp: m1_def sector_bytes_def)
  have w: "rd32 m1 (buf + of_nat (4 * k)) = sectors 1 k" if "k < 8" for k
    unfolding m1_def using that by (intro stored_word) (simp_all add: SECTOR_SIZE_def)
  have hd: "a_text (hdr_at m1 buf) = image_word sectors 1" "a_data (hdr_at m1 buf) = image_word sectors 2"
    "a_entry (hdr_at m1 buf) = image_word sectors 5"
    using w [of 1] w [of 2] w [of 5] by (simp_all add: hdr_at_def image_word_def)
  define N where "N = image_sectors sectors"
  have N: "image_size sectors \<le> N * SECTOR_SIZE" "N * SECTOR_SIZE \<le> image_size sectors + 511"
    unfolding N_def image_sectors_def SECTOR_SIZE_def by simp_all
  have N': "N < 2 ^ 22" using N(2) n by (simp add: SECTOR_SIZE_def)
  let ?d = "entry_point sectors - 32"
  obtain h2 where h2: "load_sectors dev (disk_of sectors) 1 (int N) ?d (m1, h1) = Some (stored m1 ?d (N * SECTOR_SIZE) (image_byte sectors), h2)"
    using load_sectors_ok [OF r N', of 0 sectors ?d m1 h1] by (auto simp: stored_none)
  have c: "cmain dev (disk_of sectors) buf low high (m, h)
    = Some ((entry_point sectors, [low, high]), stored m1 ?d (N * SECTOR_SIZE) (image_byte sectors), h2)"
    using h2 by (simp add: cmain_def h1 sectors_of_ok [OF hd(1,2) n] hd(3) N_def SIZEOF_A_OUT_HDR_def entry_point_def Let_def)
  have "stored m1 ?d (N * SECTOR_SIZE) (image_byte sectors) (?d + of_nat k) = image_byte sectors k" if "k < image_size sectors" for k
  proof -
    have "unat (of_nat k :: u32) = k" using that n by (intro unat_of_nat_u32) simp
    then show ?thesis using that N(1) by (simp add: stored_def)
  qed
  moreover have "stored m1 ?d (N * SECTOR_SIZE) (image_byte sectors) x = m x"
    if "512 \<le> unat (x - buf)" "N * 512 \<le> unat (x - ?d)" for x
    using that by (simp add: stored_def m1_def SECTOR_SIZE_def)
  ultimately show ?thesis using c unfolding N_def by blast
qed

text \<open>A kernel of 1000 bytes of text and 24 of data at 1 MB.\<close>

definition demo_sectors :: "u32 \<Rightarrow> nat \<Rightarrow> u32" where
  "demo_sectors i k = (if i = 1 \<and> k = 1 then 1000 else if i = 1 \<and> k = 2 then 24 else if i = 1 \<and> k = 5 then 0x100000 else i)"

theorem boot_loads_kernel_witness:
  "\<exists>m h. cmain (\<lambda>_ _. 0x40) (disk_of demo_sectors) 0x7a00 640 3072 (\<lambda>_. 0, []) = Some ((0x100000, [640, 3072]), m, h)
    \<and> m 0x1001e0 = 2 \<and> m 0x200000 = 0"
proof -
  have d: "image_size demo_sectors = 1056" "entry_point demo_sectors = 0x100000" "image_sectors demo_sectors = 3"
    by (simp_all add: image_size_def entry_point_def image_sectors_def image_word_def demo_sectors_def SECTOR_SIZE_def)
  have r: "ready (\<lambda>_ _. 0x40)" by (simp add: ready_def)
  have n: "image_size demo_sectors + 511 < 2 ^ 31" by (simp add: d)
  from boot_loads_kernel [OF r n, where buf = "0x7a00" and low = "640" and high = "3072" and m = "\<lambda>_. 0" and h = "[]"]
  obtain m h where m: "cmain (\<lambda>_ _. 0x40) (disk_of demo_sectors) 0x7a00 640 3072 (\<lambda>_. 0, []) = Some ((0x100000, [640, 3072]), m, h)"
    and eq: "\<forall>k < 1056. m (0x100000 - 32 + of_nat k) = image_byte demo_sectors k"
    and o: "\<forall>x. 512 \<le> unat (x - 0x7a00) \<and> 1536 \<le> unat (x - (0x100000 - 32)) \<longrightarrow> m x = 0"
    unfolding d by auto
  have "m 0x1001e0 = image_byte demo_sectors 512" using eq by (elim allE [of _ 512]) simp
  also have "\<dots> = 2" by (simp add: image_byte_def sector_bytes_def get_bytes_def get_byte_def demo_sectors_def SECTOR_SIZE_def)
  finally have "m 0x1001e0 = 2" .
  moreover have "m 0x200000 = 0" using o by (elim allE [of _ "0x200000"]) simp
  ultimately show ?thesis using m by blast
qed

end
