(* ===== verification/Stubs.thy ===== *)
theory Stubs
  imports Trap
begin

text \<open>
  The system call stubs of \<open>user/syscall.c\<close> and \<open>user/lib.h\<close>, over the kernel's trap: a stub loads the
  registers and executes \<open>int\<close>, which stores them in the frame at \<open>UTF\<close> and calls \<open>trap\<close>.
\<close>

unbundle bit_operations_syntax

section \<open>The code\<close>

definition SYS_getenvid :: u32 where "SYS_getenvid = 0"
definition SYS_cputs :: u32 where "SYS_cputs = 1"
definition SYS_yield :: u32 where "SYS_yield = 2"
definition SYS_env_destroy :: u32 where "SYS_env_destroy = 3"
definition SYS_env_alloc :: u32 where "SYS_env_alloc = 4"
definition SYS_ipc_can_send :: u32 where "SYS_ipc_can_send = 5"
definition SYS_ipc_recv :: u32 where "SYS_ipc_recv = 6"
definition SYS_set_pgfault_handler :: u32 where "SYS_set_pgfault_handler = 7"
definition SYS_set_env_status :: u32 where "SYS_set_env_status = 8"
definition SYS_mem_alloc :: u32 where "SYS_mem_alloc = 9"
definition SYS_mem_map :: u32 where "SYS_mem_map = 10"
definition SYS_mem_unmap :: u32 where "SYS_mem_unmap = 11"
definition SYS_set_trapframe :: u32 where "SYS_set_trapframe = 12"
definition SYS_panic :: u32 where "SYS_panic = 13"
definition SYS_cgetc :: u32 where "SYS_cgetc = 14"
definition SYS_set_color :: u32 where "SYS_set_color = 15"

text \<open>\<open>utf s\<close> holds the registers of the program; \<open>kip\<close> is as in \<open>trap\<close>.\<close>

definition stub_syscall :: "kstate \<Rightarrow> u32 \<Rightarrow> u32 \<Rightarrow> u32 \<Rightarrow> u32 \<Rightarrow> u32 \<Rightarrow> u32 \<Rightarrow> u32 \<Rightarrow> outcome option" where
  "stub_syscall s kip num a1 a2 a3 a4 a5 =
     trap (s\<lparr>utf := (utf s)\<lparr>tf_eax := num, tf_edx := a1, tf_ecx := a2, tf_ebx := a3, tf_edi := a4, tf_esi := a5,
                               tf_trapno := of_nat T_SYSCALL\<rparr>\<rparr>) 0 [] kip"

definition stub_cputs :: "kstate \<Rightarrow> u32 \<Rightarrow> u32 \<Rightarrow> outcome option" where
  "stub_cputs s kip a1 = stub_syscall s kip SYS_cputs a1 0 0 0 0"

definition stub_set_color :: "kstate \<Rightarrow> u32 \<Rightarrow> u32 \<Rightarrow> outcome option" where
  "stub_set_color s kip c = stub_syscall s kip SYS_set_color c 0 0 0 0"

definition stub_yield :: "kstate \<Rightarrow> u32 \<Rightarrow> outcome option" where
  "stub_yield s kip = stub_syscall s kip SYS_yield 0 0 0 0 0"

definition stub_env_destroy :: "kstate \<Rightarrow> u32 \<Rightarrow> u32 \<Rightarrow> outcome option" where
  "stub_env_destroy s kip envid = stub_syscall s kip SYS_env_destroy envid 0 0 0 0"

definition stub_getenvid :: "kstate \<Rightarrow> u32 \<Rightarrow> outcome option" where
  "stub_getenvid s kip = stub_syscall s kip SYS_getenvid 0 0 0 0 0"

definition stub_ipc_can_send :: "kstate \<Rightarrow> u32 \<Rightarrow> u32 \<Rightarrow> u32 \<Rightarrow> u32 \<Rightarrow> u32 \<Rightarrow> outcome option" where
  "stub_ipc_can_send s kip envid value srcva perm = stub_syscall s kip SYS_ipc_can_send envid value srcva perm 0"

definition stub_ipc_recv :: "kstate \<Rightarrow> u32 \<Rightarrow> u32 \<Rightarrow> outcome option" where
  "stub_ipc_recv s kip dstva = stub_syscall s kip SYS_ipc_recv dstva 0 0 0 0"

definition stub_set_pgfault_handler :: "kstate \<Rightarrow> u32 \<Rightarrow> u32 \<Rightarrow> u32 \<Rightarrow> u32 \<Rightarrow> outcome option" where
  "stub_set_pgfault_handler s kip envid a1 a2 = stub_syscall s kip SYS_set_pgfault_handler envid a1 a2 0 0"

definition stub_mem_alloc :: "kstate \<Rightarrow> u32 \<Rightarrow> u32 \<Rightarrow> u32 \<Rightarrow> u32 \<Rightarrow> outcome option" where
  "stub_mem_alloc s kip envid va perm = stub_syscall s kip SYS_mem_alloc envid va perm 0 0"

definition stub_mem_map :: "kstate \<Rightarrow> u32 \<Rightarrow> u32 \<Rightarrow> u32 \<Rightarrow> u32 \<Rightarrow> u32 \<Rightarrow> u32 \<Rightarrow> outcome option" where
  "stub_mem_map s kip srcenv srcva dstenv dstva perm = stub_syscall s kip SYS_mem_map srcenv srcva dstenv dstva perm"

definition stub_mem_unmap :: "kstate \<Rightarrow> u32 \<Rightarrow> u32 \<Rightarrow> u32 \<Rightarrow> outcome option" where
  "stub_mem_unmap s kip envid va = stub_syscall s kip SYS_mem_unmap envid va 0 0 0"

definition stub_set_env_status :: "kstate \<Rightarrow> u32 \<Rightarrow> u32 \<Rightarrow> u32 \<Rightarrow> outcome option" where
  "stub_set_env_status s kip envid status = stub_syscall s kip SYS_set_env_status envid status 0 0 0"

definition stub_set_trapframe :: "kstate \<Rightarrow> u32 \<Rightarrow> u32 \<Rightarrow> u32 \<Rightarrow> outcome option" where
  "stub_set_trapframe s kip envid tf = stub_syscall s kip SYS_set_trapframe envid tf 0 0 0"

definition stub_panic :: "kstate \<Rightarrow> u32 \<Rightarrow> u32 \<Rightarrow> outcome option" where
  "stub_panic s kip msg = stub_syscall s kip SYS_panic msg 0 0 0 0"

definition stub_cgetc :: "kstate \<Rightarrow> u32 \<Rightarrow> outcome option" where
  "stub_cgetc s kip = stub_syscall s kip SYS_cgetc 0 0 0 0 0"

text \<open>The inlined stub of \<open>lib.h\<close> loads nothing but the number of the call.\<close>

definition stub_env_alloc :: "kstate \<Rightarrow> u32 \<Rightarrow> outcome option" where
  "stub_env_alloc s kip =
     trap (s\<lparr>utf := (utf s)\<lparr>tf_eax := SYS_env_alloc, tf_trapno := of_nat T_SYSCALL\<rparr>\<rparr>) 0 [] kip"

section \<open>The handlers\<close>

text \<open>
  The kernel inside of a call of the running environment: its registers are saved, and a fault would
  kill it.
\<close>

definition in_call :: "kstate \<Rightarrow> trapframe \<Rightarrow> kstate" where
  "in_call s tf =
     (let s1 = s\<lparr>utf := tf\<rparr>
      in (case curenv s1 of None \<Rightarrow> s1 | Some c \<Rightarrow> upd_env s1 c (env_tf_update (\<lambda>_. tf)))\<lparr>page_fault_mode := PFM_KILL\<rparr>)"

text \<open>The end of a call: the result is in \<open>eax\<close>.\<close>

definition call_done :: "sysret option \<Rightarrow> outcome option" where
  "call_done r =
     map_option (case_sysret (\<lambda>v s. Ret (s\<lparr>utf := (utf s)\<lparr>tf_eax := v\<rparr>\<rparr>)) Sched) r"

definition call_frame :: "kstate \<Rightarrow> u32 \<Rightarrow> u32 \<Rightarrow> u32 \<Rightarrow> u32 \<Rightarrow> u32 \<Rightarrow> u32 \<Rightarrow> trapframe" where
  "call_frame s num a1 a2 a3 a4 a5 =
     (utf s)\<lparr>tf_eax := num, tf_edx := a1, tf_ecx := a2, tf_ebx := a3, tf_edi := a4, tf_esi := a5, tf_trapno := of_nat T_SYSCALL\<rparr>"

lemma trapno_syscall: "unat (of_nat T_SYSCALL :: u32) = T_SYSCALL" "T_SYSCALL \<noteq> T_PGFLT"
  by (simp_all add: T_SYSCALL_def T_PGFLT_def)

lemma stub_syscall_eq:
  "stub_syscall s kip num a1 a2 a3 a4 a5 =
     call_done (syscall (in_call s (call_frame s num a1 a2 a3 a4 a5)) num a1 a2 a3 a4 a5 kip)"
proof -
  have d: "syscall t sn b1 b2 b3 b4 b5 k = syscall (t\<lparr>page_fault_mode := PFM_KILL\<rparr>) sn b1 b2 b3 b4 b5 k" for t sn b1 b2 b3 b4 b5 k
    by (simp add: syscall_def)
  show ?thesis
    unfolding stub_syscall_def trap_def call_frame_def in_call_def call_done_def
    by (subst d) (auto simp: Let_def trapno_syscall map_option_case split: option.splits sysret.splits)
qed

lemmas stub_defs =
  stub_getenvid_def stub_cputs_def stub_yield_def stub_env_destroy_def stub_ipc_can_send_def stub_ipc_recv_def
  stub_set_pgfault_handler_def stub_set_env_status_def stub_mem_alloc_def stub_mem_map_def stub_mem_unmap_def
  stub_set_trapframe_def stub_panic_def stub_cgetc_def stub_set_color_def

lemma in_call_fields [simp]: "page_fault_mode (in_call s tf) = PFM_KILL" "in_call s tf\<lparr>page_fault_mode := PFM_KILL\<rparr> = in_call s tf"
  by (simp_all add: in_call_def Let_def)

text \<open>The dispatcher inside of a call.\<close>

lemma dispatch:
  fixes s tf
  defines "t \<equiv> in_call s tf"
  shows
    "syscall t SYS_getenvid a1 a2 a3 a4 a5 kip = sys_getenvid t"
    "syscall t SYS_cputs a1 a2 a3 a4 a5 kip = sys_cputs t a1 kip"
    "syscall t SYS_yield a1 a2 a3 a4 a5 kip = sys_yield t"
    "syscall t SYS_env_destroy a1 a2 a3 a4 a5 kip = map_option ret0 (sys_env_destroy t a1)"
    "syscall t SYS_env_alloc a1 a2 a3 a4 a5 kip = sys_env_alloc t"
    "syscall t SYS_ipc_can_send a1 a2 a3 a4 a5 kip = sys_ipc_can_send t a1 a2 a3 a4"
    "syscall t SYS_ipc_recv a1 a2 a3 a4 a5 kip = sys_ipc_recv t a1"
    "syscall t SYS_set_pgfault_handler a1 a2 a3 a4 a5 kip = sys_set_pgfault_handler t a1 a2 a3"
    "syscall t SYS_set_env_status a1 a2 a3 a4 a5 kip = sys_set_env_status t a1 a2"
    "syscall t SYS_mem_alloc a1 a2 a3 a4 a5 kip = sys_mem_alloc t a1 a2 a3"
    "syscall t SYS_mem_map a1 a2 a3 a4 a5 kip = sys_mem_map t a1 a2 a3 a4 a5"
    "syscall t SYS_mem_unmap a1 a2 a3 a4 a5 kip = sys_mem_unmap t a1 a2"
    "syscall t SYS_set_trapframe a1 a2 a3 a4 a5 kip = sys_set_trapframe t a1 a2 kip"
    "syscall t SYS_panic a1 a2 a3 a4 a5 kip = sys_panic t a1 kip"
    "syscall t SYS_cgetc a1 a2 a3 a4 a5 kip = sys_cgetc t"
    "syscall t SYS_set_color a1 a2 a3 a4 a5 kip = sys_set_color t a1"
  by (simp_all add: syscall_def t_def SYS_getenvid_def SYS_cputs_def SYS_yield_def SYS_env_destroy_def SYS_env_alloc_def
      SYS_ipc_can_send_def SYS_ipc_recv_def SYS_set_pgfault_handler_def SYS_set_env_status_def SYS_mem_alloc_def
      SYS_mem_map_def SYS_mem_unmap_def SYS_set_trapframe_def SYS_panic_def SYS_cgetc_def SYS_set_color_def)

text \<open>The number alone is looked at for \<open>sys_env_alloc\<close>.\<close>

lemma stub_env_alloc_eq:
  "stub_env_alloc s kip = call_done (sys_env_alloc (in_call s ((utf s)\<lparr>tf_eax := SYS_env_alloc, tf_trapno := of_nat T_SYSCALL\<rparr>)))"
proof -
  let ?f = "(utf s)\<lparr>tf_eax := SYS_env_alloc, tf_trapno := of_nat T_SYSCALL\<rparr>"
  have "stub_env_alloc s kip = stub_syscall s kip SYS_env_alloc (tf_edx (utf s)) (tf_ecx (utf s)) (tf_ebx (utf s)) (tf_edi (utf s)) (tf_esi (utf s))"
    by (simp add: stub_env_alloc_def stub_syscall_def)
  moreover have "call_frame s SYS_env_alloc (tf_edx (utf s)) (tf_ecx (utf s)) (tf_ebx (utf s)) (tf_edi (utf s)) (tf_esi (utf s)) = ?f"
    by (simp add: call_frame_def)
  ultimately show ?thesis by (simp add: stub_syscall_eq dispatch)
qed

text \<open>
  C38. Each system call stub of the library reaches its handler in the kernel, with its arguments in
  their places and its number for the dispatcher, on the state with the registers of the caller
  saved; the handler's value comes back in \<open>eax\<close>.
\<close>

theorem stubs_reach_handlers:
  "stub_getenvid s kip = call_done (sys_getenvid (in_call s (call_frame s SYS_getenvid 0 0 0 0 0)))
   \<and> stub_cputs s kip a = call_done (sys_cputs (in_call s (call_frame s SYS_cputs a 0 0 0 0)) a kip)
   \<and> stub_yield s kip = call_done (sys_yield (in_call s (call_frame s SYS_yield 0 0 0 0 0)))
   \<and> stub_env_destroy s kip a = call_done (map_option ret0 (sys_env_destroy (in_call s (call_frame s SYS_env_destroy a 0 0 0 0)) a))
   \<and> stub_ipc_can_send s kip a b c d = call_done (sys_ipc_can_send (in_call s (call_frame s SYS_ipc_can_send a b c d 0)) a b c d)
   \<and> stub_ipc_recv s kip a = call_done (sys_ipc_recv (in_call s (call_frame s SYS_ipc_recv a 0 0 0 0)) a)
   \<and> stub_set_pgfault_handler s kip a b c =
       call_done (sys_set_pgfault_handler (in_call s (call_frame s SYS_set_pgfault_handler a b c 0 0)) a b c)
   \<and> stub_set_env_status s kip a b = call_done (sys_set_env_status (in_call s (call_frame s SYS_set_env_status a b 0 0 0)) a b)
   \<and> stub_mem_alloc s kip a b c = call_done (sys_mem_alloc (in_call s (call_frame s SYS_mem_alloc a b c 0 0)) a b c)
   \<and> stub_mem_map s kip a b c d e = call_done (sys_mem_map (in_call s (call_frame s SYS_mem_map a b c d e)) a b c d e)
   \<and> stub_mem_unmap s kip a b = call_done (sys_mem_unmap (in_call s (call_frame s SYS_mem_unmap a b 0 0 0)) a b)
   \<and> stub_set_trapframe s kip a b = call_done (sys_set_trapframe (in_call s (call_frame s SYS_set_trapframe a b 0 0 0)) a b kip)
   \<and> stub_panic s kip a = call_done (sys_panic (in_call s (call_frame s SYS_panic a 0 0 0 0)) a kip)
   \<and> stub_cgetc s kip = call_done (sys_cgetc (in_call s (call_frame s SYS_cgetc 0 0 0 0 0)))
   \<and> stub_set_color s kip a = call_done (sys_set_color (in_call s (call_frame s SYS_set_color a 0 0 0 0)) a)
   \<and> stub_env_alloc s kip = call_done (sys_env_alloc (in_call s ((utf s)\<lparr>tf_eax := SYS_env_alloc, tf_trapno := of_nat T_SYSCALL\<rparr>)))"
  by (intro conjI) (simp_all add: stub_defs stub_syscall_eq stub_env_alloc_eq dispatch)

end
