(* ===== verification/Ipc.thy ===== *)
theory Ipc
  imports Stubs Kernel_Props
begin

text \<open>
  Messages between programs: \<open>user/ipc.c\<close>, with \<open>user/wait.c\<close> and \<open>user/libos.c\<close>, over the stubs. When
  a program gives up the processor, \<open>resume\<close> is what happens until it runs again. The pointer \<open>env\<close>
  of the library is the index of the environment, which reads the kernel's array at \<open>UENVS\<close>.
\<close>

unbundle bit_operations_syntax

section \<open>The code\<close>

text \<open>\<open>Inl\<close> is the error with which \<open>ipc_send\<close> panics; the loop may not end.\<close>

partial_function (option) ipc_send ::
  "(kstate \<Rightarrow> kstate) \<Rightarrow> u32 \<Rightarrow> u32 \<Rightarrow> u32 \<Rightarrow> u32 \<Rightarrow> u32 \<Rightarrow> kstate \<Rightarrow> (u32 + kstate) option" where
  "ipc_send resume kip whom val srcva perm s =
     do {
       out \<leftarrow> stub_ipc_can_send s kip whom val srcva perm;
       case out of
         Sched s1 \<Rightarrow> None
       | Ret s1 \<Rightarrow>
           if tf_eax (utf s1) = neg_err E_IPC_NOT_RECV then
             do {
               out2 \<leftarrow> stub_yield s1 kip;
               ipc_send resume kip whom val srcva perm (resume (final out2))
             }
           else if tf_eax (utf s1) = 0 then Some (Inr s1)
           else Some (Inl (tf_eax (utf s1)))
     }"

text \<open>What \<open>ipc_recv\<close> returns, and stores at \<open>whom\<close> and \<open>perm\<close>.\<close>

definition ipc_message :: "kstate \<Rightarrow> nat \<Rightarrow> u32 \<times> u32 \<times> u32" where
  "ipc_message s e = (env_ipc_value (envs s e), env_ipc_from (envs s e), env_ipc_perm (envs s e))"

definition ipc_recv :: "(kstate \<Rightarrow> kstate) \<Rightarrow> nat \<Rightarrow> u32 \<Rightarrow> u32 \<Rightarrow> kstate \<Rightarrow> ((u32 \<times> u32 \<times> u32) \<times> kstate) option" where
  "ipc_recv resume e kip dstva s =
     do {
       out \<leftarrow> stub_ipc_recv s kip dstva;
       let s1 = resume (final out);
       Some (ipc_message s1 e, s1)
     }"

partial_function (option) wait_env :: "(kstate \<Rightarrow> kstate) \<Rightarrow> u32 \<Rightarrow> u32 \<Rightarrow> kstate \<Rightarrow> kstate option" where
  "wait_env resume kip envid s =
     (let e = unat (ENVX envid)
      in if env_id (envs s e) = envid \<and> env_status (envs s e) \<noteq> ENV_FREE then
           do { out \<leftarrow> stub_yield s kip; wait_env resume kip envid (resume (final out)) }
         else Some s)"

text \<open>The first line of \<open>libmain\<close>: the pointer \<open>env\<close>.\<close>

definition libmain_env :: "kstate \<Rightarrow> u32 \<Rightarrow> nat option" where
  "libmain_env s kip = map_option (\<lambda>out. unat (ENVX (tf_eax (utf (final out))))) (stub_getenvid s kip)"

section \<open>A call that the receiver is not ready for\<close>

lemma in_call_envs:
  "utf (in_call s tf) = tf" "curenv (in_call s tf) = curenv s"
  "env_id (envs (in_call s tf) i) = env_id (envs s i)" "env_status (envs (in_call s tf) i) = env_status (envs s i)"
  "env_ipc_recving (envs (in_call s tf) i) = env_ipc_recving (envs s i)"
  "env_ipc_dstva (envs (in_call s tf) i) = env_ipc_dstva (envs s i)"
  by (simp_all add: in_call_def Let_def envs_upd_env split: option.split)

lemma in_call_envid2env: "envid2env (in_call s tf) w False = envid2env s w False"
  by (simp add: envid2env_def in_call_envs Let_def)

lemma send_stub: "stub_ipc_can_send s kip a b c d = call_done (sys_ipc_can_send (in_call s (call_frame s SYS_ipc_can_send a b c d 0)) a b c d)"
  by (simp add: stub_defs stub_syscall_eq dispatch)

lemma yield_stub: "stub_yield s kip = call_done (sys_yield (in_call s (call_frame s SYS_yield 0 0 0 0 0)))"
  by (simp add: stub_defs stub_syscall_eq dispatch)

text \<open>The state before the next attempt.\<close>

definition retry :: "(kstate \<Rightarrow> kstate) \<Rightarrow> u32 \<Rightarrow> u32 \<Rightarrow> u32 \<Rightarrow> u32 \<Rightarrow> kstate \<Rightarrow> kstate" where
  "retry resume whom val srcva perm s =
     (let s1 = in_call s (call_frame s SYS_ipc_can_send whom val srcva perm 0);
          s2 = s1\<lparr>utf := (utf s1)\<lparr>tf_eax := neg_err E_IPC_NOT_RECV\<rparr>\<rparr>
      in resume (sched_yield (in_call s2 (call_frame s2 SYS_yield 0 0 0 0 0))))"

lemma ipc_send_retries:
  assumes "envid2env s whom False = Some (Inr (Some e))" "env_ipc_recving (envs s e) = 0"
  shows "ipc_send resume kip whom val srcva perm s = ipc_send resume kip whom val srcva perm (retry resume whom val srcva perm s)"
proof -
  have c: "sys_ipc_can_send (in_call s f) whom val srcva perm = Some (Back (neg_err E_IPC_NOT_RECV) (in_call s f))" for f
    using assms by (simp add: sys_ipc_can_send_def in_call_envid2env in_call_envs)
  show ?thesis
    by (subst ipc_send.simps) (simp add: send_stub yield_stub c call_done_def sys_yield_def retry_def Let_def)
qed

lemma ipc_send_arrives:
  assumes "curenv s = Some c" "envid2env s whom False = Some (Inr (Some e))" "env_ipc_recving (envs s e) \<noteq> 0"
  shows "\<exists>s'. ipc_send resume kip whom val 0 perm s = Some (Inr s')
    \<and> ipc_message s' e = (val, env_id (envs s c), 0) \<and> env_ipc_recving (envs s' e) = 0 \<and> runnable s' e"
proof -
  let ?t = "in_call s (call_frame s SYS_ipc_can_send whom val 0 perm 0)"
  let ?d = "ipc_deliver ?t e 0 (env_id (envs s c)) val"
  have "sys_ipc_can_send ?t whom val 0 perm = Some (Back 0 ?d)"
    using assms by (simp add: sys_ipc_can_send_def in_call_envid2env in_call_envs)
  moreover have "neg_err E_IPC_NOT_RECV \<noteq> 0" by (simp add: neg_err_def)
  ultimately have "ipc_send resume kip whom val 0 perm s = Some (Inr (?d\<lparr>utf := (utf ?d)\<lparr>tf_eax := 0\<rparr>\<rparr>))"
    by (subst ipc_send.simps) (simp add: send_stub call_done_def)
  then show ?thesis by (simp add: ipc_message_def ipc_deliver_def envs_upd_env runnable_def)
qed

text \<open>
  C39. \<open>ipc_send\<close> of a word gets through: when the receiver waits at the n-th attempt, for whatever
  the other programs do while the sender yields, it returns after n yields, and the receiver, which
  may run again, reads the value and the sender's id.
\<close>

theorem ipc_send_gets_through:
  assumes "\<forall>k \<le> n. curenv ((retry resume whom val 0 perm ^^ k) s) = Some c
      \<and> envid2env ((retry resume whom val 0 perm ^^ k) s) whom False = Some (Inr (Some e))"
    and "\<forall>k < n. env_ipc_recving (envs ((retry resume whom val 0 perm ^^ k) s) e) = 0"
    and "env_ipc_recving (envs ((retry resume whom val 0 perm ^^ n) s) e) \<noteq> 0"
  shows "\<exists>s'. ipc_send resume kip whom val 0 perm s = Some (Inr s')
    \<and> ipc_message s' e = (val, env_id (envs ((retry resume whom val 0 perm ^^ n) s) c), 0)
    \<and> env_ipc_recving (envs s' e) = 0 \<and> runnable s' e"
  using assms
proof (induction n arbitrary: s)
  case 0
  then show ?case using ipc_send_arrives by simp
next
  case (Suc n)
  let ?r = "retry resume whom val 0 perm"
  have sw: "(?r ^^ k) (?r s) = (?r ^^ Suc k) s" for k by (simp add: funpow_swap1)
  have "envid2env s whom False = Some (Inr (Some e))" "env_ipc_recving (envs s e) = 0"
    using Suc.prems(1) [rule_format, of 0] Suc.prems(2) [rule_format, of 0] by simp_all
  from ipc_send_retries [OF this, of resume kip val 0 perm] Suc.IH [of "?r s"] Suc.prems show ?case
    unfolding sw by (simp del: funpow.simps)
qed

text \<open>Environment 0 sends to environment 1, which waits at the second attempt.\<close>

definition demo_pair :: "u32 \<Rightarrow> kstate" where
  "demo_pair r = upd_env demo_run 1 (\<lambda>v. v\<lparr>env_id := 0x401, env_status := ENV_NOT_RUNNABLE, env_ipc_recving := r\<rparr>)"

lemma demo_pair_ok:
  "curenv (demo_pair r) = Some 0" "envid2env (demo_pair r) 0x401 False = Some (Inr (Some 1))"
  "env_ipc_recving (envs (demo_pair r) 1) = r"
proof -
  have "unat (ENVX 0x401) = 1" by (simp add: ENVX_def)
  then show "envid2env (demo_pair r) 0x401 False = Some (Inr (Some 1))"
    by (simp add: envid2env_def demo_pair_def envs_upd_env ENV_NOT_RUNNABLE_def ENV_FREE_def)
  show "curenv (demo_pair r) = Some 0" using demo_run_ok(3) by (simp add: demo_pair_def)
qed (simp add: demo_pair_def envs_upd_env)

theorem ipc_send_gets_through_witness:
  "\<exists>s'. ipc_send (\<lambda>_. demo_pair 1) 0 0x401 42 0 0 (demo_pair 0) = Some (Inr s') \<and> fst (ipc_message s' 1) = 42 \<and> runnable s' 1"
proof -
  have r: "retry (\<lambda>_. demo_pair 1) 0x401 42 0 0 t = demo_pair 1" for t by (simp add: retry_def Let_def)
  have k: "(retry (\<lambda>_. demo_pair 1) 0x401 42 0 0 ^^ k) (demo_pair 0) = demo_pair (if k = 0 then 0 else 1)" for k
    by (cases k) (simp_all add: r)
  from ipc_send_gets_through [of 1 "\<lambda>_. demo_pair 1" "0x401" 42 0 "demo_pair 0" 0 1 0]
  show ?thesis unfolding k by (auto simp: demo_pair_ok demo_pair_ok(3) [simplified])
qed

section \<open>The other end, and waiting for an environment\<close>

lemma ipc_recv_waits:
  assumes "curenv s = Some e" "env_ipc_recving (envs s e) = 0" "dstva < UTOP"
  shows "\<exists>t. ipc_recv resume e kip dstva s = Some (ipc_message (resume (sched_yield t)) e, resume (sched_yield t))
    \<and> env_ipc_recving (envs t e) = 1 \<and> env_ipc_dstva (envs t e) = dstva \<and> \<not> runnable t e"
proof -
  let ?t = "upd_env (in_call s (call_frame s SYS_ipc_recv dstva 0 0 0 0)) e
    (\<lambda>v. v\<lparr>env_ipc_recving := 1, env_ipc_dstva := dstva, env_status := ENV_NOT_RUNNABLE\<rparr>)"
  have "stub_ipc_recv s kip dstva = Some (Sched (sched_yield ?t))"
    using assms by (simp add: stub_defs stub_syscall_eq dispatch call_done_def sys_ipc_recv_def in_call_envs)
  then have "ipc_recv resume e kip dstva s = Some (ipc_message (resume (sched_yield ?t)) e, resume (sched_yield ?t))"
    by (simp add: ipc_recv_def Let_def)
  moreover have "env_ipc_recving (envs ?t e) = 1 \<and> env_ipc_dstva (envs ?t e) = dstva \<and> \<not> runnable ?t e"
    by (simp add: envs_upd_env runnable_def ENV_NOT_RUNNABLE_def ENV_RUNNABLE_def)
  ultimately show ?thesis by blast
qed

text \<open>When \<open>wait\<close> returns the environment is gone.\<close>

definition gone :: "kstate \<Rightarrow> u32 \<Rightarrow> bool" where
  "gone s envid \<longleftrightarrow> env_id (envs s (unat (ENVX envid))) \<noteq> envid \<or> env_status (envs s (unat (ENVX envid))) = ENV_FREE"

lemma wait_env_gone:
  assumes "wait_env resume kip envid s = Some s'"
  shows "gone s' envid"
proof (rule wait_env.raw_induct [where P = "\<lambda>_ _ envid _ r. gone r envid", OF _ assms])
  fix f and r :: "kstate \<Rightarrow> kstate" and k i s t
  assume IH: "\<And>r k i s t. f r k i s = Some t \<Longrightarrow> gone t i"
    and eq: "(let e = unat (ENVX i)
      in if env_id (envs s e) = i \<and> env_status (envs s e) \<noteq> ENV_FREE then
           stub_yield s k \<bind> (\<lambda>out. f r k i (r (final out)))
         else Some s) = Some t"
  show "gone t i"
  proof (cases "gone s i")
    case True
    then show ?thesis using eq by (auto simp: gone_def Let_def)
  next
    case False
    then show ?thesis using eq IH by (auto simp: gone_def Let_def elim!: bind_eq_SomeE)
  qed
qed

text \<open>The pointer \<open>env\<close> of a program is its own entry.\<close>

lemma libmain_env_own:
  assumes "kinv s" "running s"
  shows "libmain_env s kip = curenv s"
proof -
  obtain c where c: "curenv s = Some c" "live s c" using running_curenv [OF assms(2)] by blast
  have "ENVX (env_id (envs s c)) = of_nat c" "c < NENV"
    using assms(1) c(2) by (auto simp: kinv_def kinv_at_def envs_ok_def env_entry_ok_def live_def)
  then have "unat (ENVX (env_id (envs s c))) = c" by (simp add: NENV_def unat_of_nat_u32)
  then show ?thesis
    by (simp add: libmain_env_def stub_defs stub_syscall_eq dispatch call_done_def sys_getenvid_def in_call_envs c(1))
qed

end
