(* ===== verification/Sieve.thy ===== *)
theory Sieve
  imports Prelude "HOL-Library.Signed_Division"
begin

text \<open>
  The sieve of \<open>user/primes.c\<close>: a chain of environments that hand integers to their right neighbours
  by messages. A send is complete when the neighbour waits in \<open>ipc_recv\<close>; between two messages a
  process runs alone, so that one step of the system is one message. \<open>room\<close> is the number of processes
  for which there are environments.
\<close>

section \<open>The code\<close>

text \<open>
  Where a process of the chain is: before it has its prime; waiting for the next integer; about to
  send one; ended by \<open>panic\<close>.
\<close>

datatype proc = First | Filter u32 | Send u32 u32 | Dead

fun waits :: "proc \<Rightarrow> bool" where
  "waits First = True"
| "waits (Filter p) = True"
| "waits (Send p i) = False"
| "waits Dead = False"

text \<open>
  The process gets an integer. The first one is its prime, for which it forks its right neighbour;
  a fork that fails ends it.
\<close>

fun accept :: "bool \<Rightarrow> u32 \<Rightarrow> proc \<Rightarrow> proc list" where
  "accept avail i First = (if avail then [Filter i, First] else [Dead])"
| "accept avail i (Filter p) = [if sint i smod sint p \<noteq> 0 then Send p i else Filter p]"
| "accept avail i x = [x]"

fun prints :: "u32 \<Rightarrow> proc \<Rightarrow> u32 list" where
  "prints i First = [i]"
| "prints i x = []"

text \<open>The generator is the loop of \<open>umain\<close>; the processes stand in the order of the chain.\<close>

record sieve =
  gen :: u32
  gen_dead :: bool
  procs :: "proc list"
  printed :: "u32 list"

definition sieve_start :: sieve where
  "sieve_start = \<lparr>gen = 2, gen_dead = False, procs = [First], printed = []\<rparr>"

inductive sieve_step :: "nat \<Rightarrow> sieve \<Rightarrow> sieve \<Rightarrow> bool" for room where
  gen_sends: "\<not> gen_dead s \<Longrightarrow> procs s = y # ys \<Longrightarrow> waits y \<Longrightarrow>
    sieve_step room s (s\<lparr>gen := gen s + 1, procs := accept (length (procs s) < room) (gen s) y @ ys,
      printed := printed s @ prints (gen s) y\<rparr>)"
| gen_fails: "\<not> gen_dead s \<Longrightarrow> procs s = Dead # ys \<Longrightarrow> sieve_step room s (s\<lparr>gen_dead := True\<rparr>)"
| proc_sends: "procs s = xs @ Send p i # y # ys \<Longrightarrow> waits y \<Longrightarrow>
    sieve_step room s (s\<lparr>procs := xs @ Filter p # accept (length (procs s) < room) i y @ ys,
      printed := printed s @ prints i y\<rparr>)"
| proc_fails: "procs s = xs @ Send p i # Dead # ys \<Longrightarrow> sieve_step room s (s\<lparr>procs := xs @ Dead # Dead # ys\<rparr>)"

text \<open>The states after a number of messages.\<close>

inductive sieve_runs :: "nat \<Rightarrow> nat \<Rightarrow> sieve \<Rightarrow> bool" for room where
  sieve_runs_0: "sieve_runs room 0 sieve_start"
| sieve_runs_Suc: "sieve_runs room n s \<Longrightarrow> sieve_step room s t \<Longrightarrow> sieve_runs room (Suc n) t"

section \<open>Primes\<close>

definition is_prime :: "nat \<Rightarrow> bool" where
  "is_prime n \<longleftrightarrow> 2 \<le> n \<and> list_all (\<lambda>d. \<not> d dvd n) [2..<n]"

lemma is_prime_dvd: "is_prime n \<Longrightarrow> d dvd n \<Longrightarrow> 2 \<le> d \<Longrightarrow> d = n"
  by (auto simp: is_prime_def list_all_iff dest: dvd_imp_le) (metis atLeastLessThan_iff dvd_imp_le gr0I le_neq_implies_less not_numeral_le_zero)

text \<open>What the processes with these primes let through.\<close>

definition passes :: "nat list \<Rightarrow> nat \<Rightarrow> bool" where
  "passes ds n \<longleftrightarrow> 2 \<le> n \<and> (\<forall>d \<in> set ds. \<not> d dvd n)"

definition least_passing :: "nat list \<Rightarrow> nat \<Rightarrow> bool" where
  "least_passing ds p \<longleftrightarrow> passes ds p \<and> (\<forall>n < p. \<not> passes ds n)"

lemma passes_snoc: "passes (ds @ [p]) n \<longleftrightarrow> passes ds n \<and> \<not> p dvd n"
  by (auto simp: passes_def)

definition primes_below :: "nat \<Rightarrow> nat list" where
  "primes_below u = filter is_prime [2..<u]"

lemma prime_passes:
  assumes "is_prime n" "u \<le> n"
  shows "passes (primes_below u) n"
  unfolding passes_def
proof (intro conjI ballI notI)
  show "2 \<le> n" using assms(1) by (simp add: is_prime_def)
  fix d assume d: "d \<in> set (primes_below u)" "d dvd n"
  then have "2 \<le> d" "d < n" using assms(2) by (auto simp: primes_below_def)
  then show False using is_prime_dvd [OF assms(1) d(2)] by simp
qed

lemma primes_below_same:
  assumes "u \<le> v" "\<forall>n < v. \<not> passes (primes_below u) n"
  shows "primes_below v = primes_below u"
proof (cases "2 \<le> u")
  case True
  have "[2..<v] = [2..<u] @ [u..<v]" using True assms(1) upt_add_eq_append [of 2 u "v - u"] by simp
  moreover have "filter is_prime [u..<v] = []" using prime_passes assms(2) by (auto simp: filter_empty_conv)
  ultimately show ?thesis by (simp add: primes_below_def)
next
  case False
  then have "filter is_prime [2..<v] = []" using prime_passes [of _ u] assms(2) by (auto simp: filter_empty_conv)
  then show ?thesis using False by (simp add: primes_below_def)
qed

lemma least_passing_prime:
  assumes "least_passing (primes_below u) p"
  shows "primes_below u @ [p] = primes_below (Suc p)" "u \<le> p"
proof -
  have pp: "passes (primes_below u) p" and lt: "\<forall>n < p. \<not> passes (primes_below u) n"
    using assms by (auto simp: least_passing_def)
  have pr: "is_prime p"
    unfolding is_prime_def list_all_iff
  proof (intro conjI ballI notI)
    show "2 \<le> p" using pp by (simp add: passes_def)
    fix e assume e: "e \<in> set [2..<p]" "e dvd p"
    then obtain d where "d \<in> set (primes_below u)" "d dvd e" using lt by (auto simp: passes_def)
    then show False using e(2) pp by (meson dvd_trans passes_def)
  qed
  show up: "u \<le> p"
  proof (rule ccontr)
    assume "\<not> u \<le> p"
    then have "p \<in> set (primes_below u)" using pr by (simp add: primes_below_def is_prime_def)
    then show False using pp by (auto simp: passes_def)
  qed
  have "primes_below p = primes_below u" using primes_below_same [OF up lt] .
  then show "primes_below u @ [p] = primes_below (Suc p)" using pr by (simp add: primes_below_def is_prime_def)
qed

section \<open>The chain\<close>

text \<open>
  \<open>sifts ds t xs\<close>: the processes \<open>xs\<close>, behind processes with the primes \<open>ds\<close>, have been given what
  passes those below \<open>t\<close>.
\<close>

fun sifts :: "nat list \<Rightarrow> nat \<Rightarrow> proc list \<Rightarrow> bool" where
  "sifts ds t (First # xs) \<longleftrightarrow> xs = [] \<and> (\<forall>n < t. \<not> passes ds n)"
| "sifts ds t (Filter p # xs) \<longleftrightarrow> least_passing ds (unat p) \<and> unat p < t \<and> sifts (ds @ [unat p]) t xs"
| "sifts ds t (Send p i # xs) \<longleftrightarrow>
     least_passing ds (unat p) \<and> unat p < t \<and> unat i < t \<and> passes (ds @ [unat p]) (unat i)
     \<and> (\<forall>n. unat i < n \<longrightarrow> n < t \<longrightarrow> \<not> passes (ds @ [unat p]) n) \<and> sifts (ds @ [unat p]) (unat i) xs"
| "sifts ds t (Dead # xs) \<longleftrightarrow> False"
| "sifts ds t [] \<longleftrightarrow> False"

fun prime_of :: "proc \<Rightarrow> u32 list" where
  "prime_of (Filter p) = [p]"
| "prime_of (Send p i) = [p]"
| "prime_of x = []"

definition primes_of :: "proc list \<Rightarrow> u32 list" where
  "primes_of xs = concat (map prime_of xs)"

lemma sifts_skip:
  "sifts ds t xs \<Longrightarrow> t \<le> t' \<Longrightarrow> \<forall>n. t \<le> n \<longrightarrow> n < t' \<longrightarrow> \<not> passes ds n \<Longrightarrow> sifts ds t' xs"
proof (induction ds t xs rule: sifts.induct)
  case (1 ds t xs)
  then show ?case by (metis leI sifts.simps(1))
next
  case (2 ds t p xs)
  then show ?case by (auto simp: passes_snoc)
next
  case (3 ds t p i xs)
  have "\<not> passes (ds @ [unat p]) n" if "unat i < n" "n < t'" for n
    using 3 that by (cases "n < t") (auto simp: passes_snoc)
  then show ?case using 3 by auto
qed auto

lemma smod_dvd:
  fixes i p :: u32
  assumes "unat i < 2 ^ 31" "unat p < 2 ^ 31"
  shows "sint i smod sint p = 0 \<longleftrightarrow> unat p dvd unat i"
proof -
  have "int a smod int b = int (a mod b)" for a b :: nat
    by (cases "a = 0") (simp_all add: smod_int_alt_def zmod_int sgn_if)
  then show ?thesis unfolding sint_small_u32 [OF assms(1)] sint_small_u32 [OF assms(2)] by (simp only: int_eq_iff) (simp add: dvd_eq_mod_eq_0)
qed

lemma sifts_accept:
  assumes s: "sifts ds t (y # ys)" and y: "waits y" and i: "passes ds (unat i)" "t \<le> unat i" "unat i < t'"
    and low: "\<forall>n. t \<le> n \<longrightarrow> n < unat i \<longrightarrow> \<not> passes ds n" and high: "\<forall>n. unat i < n \<longrightarrow> n < t' \<longrightarrow> \<not> passes ds n"
    and b: "unat i < 2 ^ 31" and avail: "avail \<or> y \<noteq> First"
  shows "sifts ds t' (accept avail i y @ ys)"
proof (cases y)
  case First
  have none: "\<forall>n < unat i. \<not> passes ds n" using s low unfolding First by (metis leI sifts.simps(1))
  then have "\<not> passes (ds @ [unat i]) n" if "n < t'" for n
    using high that by (cases "n = unat i") (auto simp: passes_snoc, metis linorder_cases)
  then show ?thesis using s i(1,3) none avail by (simp add: First least_passing_def)
next
  case (Filter p)
  have p: "least_passing ds (unat p)" "unat p < t" "sifts (ds @ [unat p]) t ys" using s by (simp_all add: Filter)
  show ?thesis
  proof (cases "unat p dvd unat i")
    case True
    then have "\<forall>n. t \<le> n \<longrightarrow> n < t' \<longrightarrow> \<not> passes (ds @ [unat p]) n"
      using low high by (metis linorder_neqE_nat passes_snoc)
    from sifts_skip [OF p(3) _ this] have "sifts (ds @ [unat p]) t' ys" using i by simp
    then show ?thesis using p i True smod_dvd [of i p] b by (simp add: Filter)
  next
    case False
    have "\<forall>n. t \<le> n \<longrightarrow> n < unat i \<longrightarrow> \<not> passes (ds @ [unat p]) n" using low by (simp add: passes_snoc)
    from sifts_skip [OF p(3) i(2) this] show ?thesis
      using p i high False smod_dvd [of i p] b by (simp add: Filter passes_snoc)
  qed
qed (use y in simp_all)

lemma sifts_send:
  assumes "sifts ds t (xs @ Send p i # y # ys)" "waits y" "t < 2 ^ 31" "avail \<or> y \<noteq> First"
  shows "sifts ds t (xs @ Filter p # accept avail i y @ ys)"
  using assms
proof (induction xs arbitrary: ds t)
  case Nil
  have "sifts (ds @ [unat p]) t (accept avail i y @ ys)"
    by (rule sifts_accept [where t = "unat i"]) (use Nil in auto)
  then show ?case using Nil by simp
next
  case (Cons x xs)
  then show ?case by (cases x) auto
qed

lemma sifts_no_dead: "sifts ds t xs \<Longrightarrow> Dead \<notin> set xs"
  by (induction ds t xs rule: sifts.induct) auto

lemma sifts_first: "sifts ds t (xs @ y # ys) \<Longrightarrow> First \<notin> set xs \<and> (y = First \<longrightarrow> ys = [])"
proof (induction xs arbitrary: ds t)
  case Nil
  then show ?case by auto
next
  case (Cons x xs)
  then show ?case by (cases x) fastforce+
qed

lemma primes_of_simps [simp]:
  "primes_of [] = []" "primes_of (x # xs) = prime_of x @ primes_of xs" "primes_of (xs @ ys) = primes_of xs @ primes_of ys"
  by (simp_all add: primes_of_def)

lemma primes_of_accept:
  assumes "waits y" "avail \<or> y \<noteq> First"
  shows "primes_of (accept avail i y) = prime_of y @ prints i y"
  using assms by (cases y) auto

text \<open>The primes of the chain are all the primes that there are so far.\<close>

lemma sifts_primes:
  assumes "sifts (primes_below u) t xs" "u \<le> t"
  shows "\<exists>v \<le> t. primes_below u @ map unat (primes_of xs) = primes_below v \<and> (list_all waits xs \<longrightarrow> v = t)"
  using assms
proof (induction "primes_below u" t xs arbitrary: u rule: sifts.induct)
  case (1 t xs)
  then have "primes_below t = primes_below u" using primes_below_same [of u t] by simp
  then show ?case using 1 by auto
next
  case (2 t p xs)
  have e: "primes_below u @ [unat p] = primes_below (Suc (unat p))" using 2(2) least_passing_prime by simp
  have "\<exists>v \<le> t. primes_below (Suc (unat p)) @ map unat (primes_of xs) = primes_below v \<and> (list_all waits xs \<longrightarrow> v = t)"
    by (rule 2(1)) (use 2(2) e in auto)
  then show ?case by (simp add: e [symmetric])
next
  case (3 t p i xs)
  have l: "least_passing (primes_below u) (unat p)" and i: "passes (primes_below u @ [unat p]) (unat i)" "unat i < t"
    using 3(2) by simp_all
  have e: "primes_below u @ [unat p] = primes_below (Suc (unat p))" using l least_passing_prime by simp
  have "unat p \<noteq> unat i" "\<not> unat i < unat p" using l i by (auto simp: least_passing_def passes_snoc)
  then have "Suc (unat p) \<le> unat i" by simp
  then have "\<exists>v \<le> unat i. primes_below (Suc (unat p)) @ map unat (primes_of xs) = primes_below v \<and> (list_all waits xs \<longrightarrow> v = unat i)"
    by (intro 3(1)) (use 3(2) e in auto)
  then obtain v where "v \<le> unat i" "primes_below (Suc (unat p)) @ map unat (primes_of xs) = primes_below v" by blast
  then show ?case using i(2) by (intro exI [of _ v]) (simp add: e [symmetric])
qed auto

section \<open>The system\<close>

text \<open>As long as every fork succeeded the chain sifts; after that nothing is printed any more.\<close>

definition sieve_ok :: "sieve \<Rightarrow> bool" where
  "sieve_ok s \<longleftrightarrow>
     (\<not> gen_dead s \<and> sifts [] (unat (gen s)) (procs s) \<and> printed s = primes_of (procs s))
     \<or> (Dead \<in> set (procs s) \<and> First \<notin> set (procs s) \<and> (\<exists>v \<le> unat (gen s). map unat (printed s) = primes_below v))"

lemma sieve_ok_start: "sieve_ok sieve_start"
  by (auto simp: sieve_ok_def sieve_start_def passes_def)

lemma sifts_printed: "sifts [] t xs \<Longrightarrow> 0 < t \<Longrightarrow> \<exists>v \<le> t. map unat (primes_of xs) = primes_below v \<and> (list_all waits xs \<longrightarrow> v = t)"
  using sifts_primes [of 0 t xs] by (simp add: primes_below_def)

lemma unat_gen: "unat g < 2 ^ 31 \<Longrightarrow> unat (g + 1) = unat g + 1" for g :: u32
  by (simp add: unat_plus_if_size word_size)

text \<open>
  The message to the last process whose fork fails: what it prints is what it would print if the
  fork succeeded.
\<close>

lemma sieve_ok_ends:
  assumes "sifts [] t (xs @ accept True i First)" "printed s @ [i] = primes_of (xs @ [Filter i])"
    "First \<notin> set xs" "t \<le> unat (gen s')" "0 < t"
    "procs s' = xs @ [Dead]" "printed s' = printed s @ [i]"
  shows "sieve_ok s'"
proof -
  have "map unat (printed s') = map unat (primes_of (xs @ accept True i First))" using assms(2,7) by simp
  then obtain v where v: "v \<le> t" "map unat (printed s') = primes_below v" using sifts_printed [OF assms(1,5)] by auto
  have "v \<le> unat (gen s')" using v(1) assms(4) by simp
  then show ?thesis using v(2) assms(3,6) by (auto simp: sieve_ok_def)
qed

lemma sieve_ok_step:
  assumes st: "sieve_step room s t" and ok: "sieve_ok s" and g: "2 \<le> unat (gen s)" "unat (gen s) < 2 ^ 31"
  shows "sieve_ok t"
proof (cases "Dead \<in> set (procs s)")
  case True
  then have d: "First \<notin> set (procs s)" "\<exists>v \<le> unat (gen s). map unat (printed s) = primes_below v"
    using ok sifts_no_dead by (auto simp: sieve_ok_def)
  have a: "waits y \<Longrightarrow> y \<noteq> First \<Longrightarrow> prints i y = [] \<and> First \<notin> set (accept av i y) \<and> Dead \<notin> {y}" for av i y by (cases y) auto
  show ?thesis using st
  proof cases
    case (gen_sends y ys)
    then show ?thesis using d True a [of y] g unat_gen [OF g(2)] by (auto simp: sieve_ok_def le_Suc_eq)
  next
    case (proc_sends xs p i y ys)
    then show ?thesis using d True a [of y] by (auto simp: sieve_ok_def)
  qed (use d True in \<open>auto simp: sieve_ok_def\<close>)
next
  case False
  then have s: "\<not> gen_dead s" "sifts [] (unat (gen s)) (procs s)" "printed s = primes_of (procs s)"
    using ok by (auto simp: sieve_ok_def)
  show ?thesis using st
  proof cases
    case (gen_sends y ys)
    let ?avail = "length (procs s) < room"
    have acc: "sifts [] (unat (gen s) + 1) (accept av (gen s) y @ ys)" if "av \<or> y \<noteq> First" for av
      by (rule sifts_accept [where t = "unat (gen s)"]) (use s gen_sends g that in \<open>auto simp: passes_def\<close>)
    show ?thesis
    proof (cases "?avail \<or> y \<noteq> First")
      case True
      then show ?thesis using acc [OF True] s gen_sends primes_of_accept [OF gen_sends(4) True] unat_gen [OF g(2)]
        by (cases y) (auto simp: sieve_ok_def)
    next
      case False
      have "ys = []" using s(2) gen_sends False by simp
      then show ?thesis using acc [of True] False s gen_sends g unat_gen [OF g(2)]
        by (intro sieve_ok_ends [where xs = "[]" and t = "unat (gen s) + 1" and i = "gen s" and s = s]) auto
    qed
  next
    case (proc_sends xs p i y ys)
    let ?avail = "length (procs s) < room"
    have acc: "sifts [] (unat (gen s)) (xs @ Filter p # accept av i y @ ys)" if "av \<or> y \<noteq> First" for av
      by (rule sifts_send) (use s proc_sends g that in auto)
    show ?thesis
    proof (cases "?avail \<or> y \<noteq> First")
      case True
      have "y = First \<Longrightarrow> ys = []"
        using sifts_first [of "[]" _ "xs @ [Send p i]" y ys] s(2) proc_sends by auto
      then show ?thesis using True acc [OF True] s proc_sends primes_of_accept [OF proc_sends(3) True]
        by (cases y) (auto simp: sieve_ok_def)
    next
      case False
      have f: "First \<notin> set (xs @ [Send p i]) \<and> ys = []"
        using sifts_first [of "[]" _ "xs @ [Send p i]" y ys] s(2) proc_sends False by auto
      then show ?thesis using acc [of True] False s proc_sends g
        by (intro sieve_ok_ends [where xs = "xs @ [Filter p]" and t = "unat (gen s)" and i = i and s = s]) auto
    qed
  qed (use False in auto)
qed

lemma sieve_runs_gen: "sieve_runs room n s \<Longrightarrow> n < 2 ^ 31 - 2 \<Longrightarrow> 2 \<le> unat (gen s) \<and> unat (gen s) \<le> 2 + n"
proof (induction rule: sieve_runs.induct)
  case sieve_runs_0
  then show ?case by (simp add: sieve_start_def)
next
  case (sieve_runs_Suc n s t)
  then have g: "2 \<le> unat (gen s)" "unat (gen s) \<le> 2 + n" by auto
  have "gen t = gen s \<or> gen t = gen s + 1" using sieve_runs_Suc.hyps(2) by cases auto
  then show ?case using g sieve_runs_Suc.prems unat_gen [of "gen s"] by auto
qed

lemma sieve_runs_ok: "sieve_runs room n s \<Longrightarrow> n < 2 ^ 31 - 2 \<Longrightarrow> sieve_ok s"
proof (induction rule: sieve_runs.induct)
  case sieve_runs_0
  show ?case by (rule sieve_ok_start)
next
  case (sieve_runs_Suc n s t)
  then have "2 \<le> unat (gen s)" "unat (gen s) < 2 ^ 31" using sieve_runs_gen [of room n s] by auto
  then show ?case using sieve_ok_step sieve_runs_Suc by auto
qed

text \<open>Somebody can always send, unless a process has ended.\<close>

lemma chain_moves:
  assumes "sifts ds t xs"
  shows "(\<exists>y ys. xs = y # ys \<and> waits y) \<or> (\<exists>us p i y ys. xs = us @ Send p i # y # ys \<and> waits y)"
  using assms
proof (induction ds t xs rule: sifts.induct)
  case (3 ds t p i xs)
  then have "sifts (ds @ [unat p]) (unat i) xs" by simp
  with 3 consider y ys where "xs = y # ys" "waits y" | us q j y ys where "xs = us @ Send q j # y # ys" "waits y" by blast
  then show ?case
  proof cases
    case 1
    then have "Send p i # xs = [] @ Send p i # y # ys" by simp
    then show ?thesis using 1(2) by blast
  next
    case 2
    then have "Send p i # xs = (Send p i # us) @ Send q j # y # ys" by simp
    then show ?thesis using 2(2) by blast
  qed
qed auto

text \<open>
  C40. The sieve prints the prime numbers in their order, whatever the interleaving of its processes
  is: after any number of messages (below the overflow of the generator) what is printed are all
  the primes below some bound, and when every process waits for its neighbour that bound is the
  next integer to be sent. Unless a fork failed some message can be sent.
\<close>

theorem sieve_prints_primes:
  assumes "sieve_runs room n s" "n < 2 ^ 31 - 2"
  shows "\<exists>v \<le> unat (gen s). map unat (printed s) = filter is_prime [2..<v]
      \<and> (list_all waits (procs s) \<longrightarrow> v = unat (gen s))
      \<and> (Dead \<in> set (procs s) \<or> (\<exists>t. sieve_step room s t))"
proof -
  have g: "2 \<le> unat (gen s)" using sieve_runs_gen [OF assms] by simp
  show ?thesis using sieve_runs_ok [OF assms] unfolding sieve_ok_def
  proof (elim disjE conjE exE)
    assume d: "\<not> gen_dead s" and s: "sifts [] (unat (gen s)) (procs s)" and p: "printed s = primes_of (procs s)"
    have "\<exists>t. sieve_step room s t"
      using chain_moves [OF s] gen_sends [OF d] proc_sends [of s] by blast
    then show ?thesis using sifts_printed [OF s] g p by (auto simp: primes_below_def)
  next
    fix v
    assume d: "Dead \<in> set (procs s)" and v: "v \<le> unat (gen s)" "map unat (printed s) = primes_below v"
    have "\<not> list_all waits (procs s)" using d by (force simp: list_all_iff)
    then show ?thesis using d v by (auto simp: primes_below_def)
  qed
qed

text \<open>Four messages: 2 and 3 are printed, 4 is not.\<close>

definition sieve_demo :: sieve where
  "sieve_demo = \<lparr>gen = 5, gen_dead = False, procs = [Filter 2, Filter 3, First], printed = [2, 3]\<rparr>"

theorem sieve_prints_primes_witness:
  "sieve_runs 1000 4 sieve_demo \<and> map unat (printed sieve_demo) = filter is_prime [2..<5]"
proof -
  let ?s = "\<lambda>g ps os. \<lparr>gen = g, gen_dead = False, procs = ps, printed = os\<rparr>"
  have s1: "sieve_step 1000 (?s 2 [First] []) (?s 3 [Filter 2, First] [2])"
    using gen_sends [of "?s 2 [First] []" First "[]" 1000] by simp
  have s2: "sieve_step 1000 (?s 3 [Filter 2, First] [2]) (?s 4 [Send 2 3, First] [2])"
    using gen_sends [of "?s 3 [Filter 2, First] [2]" "Filter 2" "[First]" 1000] by simp
  have s3: "sieve_step 1000 (?s 4 [Send 2 3, First] [2]) (?s 4 [Filter 2, Filter 3, First] [2, 3])"
    using proc_sends [of "?s 4 [Send 2 3, First] [2]" "[]" 2 3 First "[]" 1000] by simp
  have s4: "sieve_step 1000 (?s 4 [Filter 2, Filter 3, First] [2, 3]) sieve_demo"
    using gen_sends [of "?s 4 [Filter 2, Filter 3, First] [2, 3]" "Filter 2" "[Filter 3, First]" 1000]
    by (simp add: sieve_demo_def)
  have "sieve_runs 1000 (Suc (Suc (Suc (Suc 0)))) sieve_demo"
    using sieve_runs_Suc [OF sieve_runs_Suc [OF sieve_runs_Suc [OF sieve_runs_Suc [OF sieve_runs_0 [unfolded sieve_start_def] s1] s2] s3] s4] .
  then have r4: "sieve_runs 1000 4 sieve_demo" by (simp only: eval_nat_numeral BitM.simps)
  have "list_all waits (procs sieve_demo)" "unat (gen sieve_demo) = 5" by (simp_all add: sieve_demo_def)
  then show ?thesis using sieve_prints_primes [OF r4] r4 by auto
qed

end
