(* ===== verification/Filters.thy ===== *)
theory Filters
  imports Prelude
begin

text \<open>
  The small programs \<open>cat\<close>, \<open>help\<close>, \<open>num\<close>, \<open>echo\<close>, \<open>rm\<close> and \<open>ls\<close> of \<open>user/\<close>, over the calls that they make. What
  the calls of the library answer are arguments: \<open>w\<close> is the result of writing bytes after what is
  there already, a file is what successive reads of it give. A string is its bytes without the
  terminator.
\<close>

section \<open>Reading and writing\<close>

type_synonym chars = "u8 list"
type_synonym writer = "chars \<Rightarrow> chars \<Rightarrow> int"
type_synonym reads = "(int + chars) list"

text \<open>\<open>Panic\<close> is the end by \<open>panic\<close>. With either goes what has been written to descriptor 1.\<close>

datatype run = Done chars | Panic chars

fun run_chars :: "run \<Rightarrow> chars" where
  "run_chars (Done t) = t"
| "run_chars (Panic t) = t"

definition put :: "writer \<Rightarrow> chars \<Rightarrow> chars \<Rightarrow> int \<times> chars" where
  "put w bs out = (let r = w out bs in (r, out @ take (nat r) bs))"

text \<open>\<open>fprintf\<close> formats into 256 bytes, the last of which is the terminator.\<close>

definition fput :: "writer \<Rightarrow> chars \<Rightarrow> chars \<Rightarrow> chars" where
  "fput w bs out = snd (put w (take 255 bs) out)"

text \<open>A file or pipe that takes everything.\<close>

definition takes_all :: "writer \<Rightarrow> bool" where
  "takes_all w \<longleftrightarrow> (\<forall>out bs. w out bs = int (length bs))"

lemma put_all [simp]: "takes_all w \<Longrightarrow> put w bs out = (int (length bs), out @ bs)"
  by (simp add: put_def takes_all_def)

lemma fput_all [simp]: "takes_all w \<Longrightarrow> fput w bs out = out @ take 255 bs"
  by (simp add: fput_def)

definition NL :: u8 where "NL = 10"
definition BLANK :: u8 where "BLANK = 32"
definition SLASH :: u8 where "SLASH = 47"
definition MINUS :: u8 where "MINUS = 45"

section \<open>cat and help\<close>

text \<open>A list of reads that ends is followed by the end of the file.\<close>

fun cat :: "writer \<Rightarrow> reads \<Rightarrow> chars \<Rightarrow> run" where
  "cat w [] out = Done out"
| "cat w (Inl e # rs) out = Panic out"
| "cat w (Inr bs # rs) out =
     (if bs = [] then Done out
      else let (r, out1) = put w bs out in if r \<noteq> int (length bs) then Panic out1 else cat w rs out1)"

fun cat_files :: "writer \<Rightarrow> (chars \<Rightarrow> int + reads) \<Rightarrow> chars list \<Rightarrow> chars \<Rightarrow> run" where
  "cat_files w fopen [] out = Done out"
| "cat_files w fopen (a # as) out =
     (case fopen a of
        Inl e \<Rightarrow> Panic out
      | Inr rs \<Rightarrow> (case cat w rs out of Panic out1 \<Rightarrow> Panic out1 | Done out1 \<Rightarrow> cat_files w fopen as out1))"

definition cat_main :: "writer \<Rightarrow> (chars \<Rightarrow> int + reads) \<Rightarrow> reads \<Rightarrow> chars list \<Rightarrow> run" where
  "cat_main w fopen stdin argv = (if length argv = 1 then cat w stdin [] else cat_files w fopen (tl argv) [])"

text \<open>\<open>help.c\<close> has a copy of \<open>cat\<close> under another name.\<close>

definition cathelp :: "writer \<Rightarrow> reads \<Rightarrow> chars \<Rightarrow> run" where
  "cathelp = cat"

definition help_main :: "writer \<Rightarrow> int + reads \<Rightarrow> run" where
  "help_main w helpfile = (case helpfile of Inl e \<Rightarrow> Panic [] | Inr rs \<Rightarrow> cathelp w rs [])"

section \<open>num\<close>

fun dec :: "nat \<Rightarrow> chars" where
  "dec n = (if n < 10 then [of_nat (48 + n)] else dec (n div 10) @ [of_nat (48 + n mod 10)])"

declare dec.simps [simp del]

definition pad_dec :: "nat \<Rightarrow> nat \<Rightarrow> chars" where
  "pad_dec width n = replicate (width - length (dec n)) BLANK @ dec n"

text \<open>\<open>%d\<close> with a width; the sign comes before the blanks.\<close>

definition pad_int :: "nat \<Rightarrow> u32 \<Rightarrow> chars" where
  "pad_int width i = (if sint i < 0 then MINUS # pad_dec width (nat (- sint i)) else pad_dec width (nat (sint i)))"

record numstate =
  bol :: bool
  num_line :: u32
  num_out :: chars

text \<open>Every read is of one byte.\<close>

fun num :: "writer \<Rightarrow> reads \<Rightarrow> numstate \<Rightarrow> bool \<times> numstate" where
  "num w [] s = (True, s)"
| "num w (Inl e # rs) s = (False, s)"
| "num w (Inr [] # rs) s = (True, s)"
| "num w (Inr (c # cs) # rs) s =
     (let s1 = (if bol s then s\<lparr>num_line := num_line s + 1, num_out := fput w (pad_int 5 (num_line s + 1) @ [BLANK]) (num_out s), bol := False\<rparr>
                else s);
          (r, out) = put w [c] (num_out s1);
          s2 = s1\<lparr>num_out := out\<rparr>
      in if r \<noteq> 1 then (False, s2) else num w rs (if c = NL then s2\<lparr>bol := True\<rparr> else s2))"

fun num_files :: "writer \<Rightarrow> (chars \<Rightarrow> int + reads) \<Rightarrow> chars list \<Rightarrow> numstate \<Rightarrow> bool \<times> numstate" where
  "num_files w fopen [] s = (True, s)"
| "num_files w fopen (a # as) s =
     (case fopen a of
        Inl e \<Rightarrow> (False, s)
      | Inr rs \<Rightarrow> (let (ok, s1) = num w rs s in if ok then num_files w fopen as s1 else (False, s1)))"

definition num_main :: "writer \<Rightarrow> (chars \<Rightarrow> int + reads) \<Rightarrow> reads \<Rightarrow> chars list \<Rightarrow> run" where
  "num_main w fopen stdin argv =
     (let s0 = \<lparr>bol = True, num_line = 0, num_out = []\<rparr>;
          (ok, s) = (if length argv = 1 then num w stdin s0 else num_files w fopen (tl argv) s0)
      in if ok then Done (num_out s) else Panic (num_out s))"

section \<open>echo and rm\<close>

fun echo_args :: "writer \<Rightarrow> bool \<Rightarrow> chars list \<Rightarrow> chars \<Rightarrow> chars" where
  "echo_args w later [] out = out"
| "echo_args w later (a # as) out =
     (let out1 = (if later then snd (put w [BLANK] out) else out) in echo_args w True as (snd (put w a out1)))"

definition echo_main :: "writer \<Rightarrow> chars list \<Rightarrow> chars" where
  "echo_main w argv =
     (let nflag = (1 < length argv \<and> argv ! 1 = [MINUS, 110]);
          argv1 = (if nflag then tl argv else argv);
          out = echo_args w False (tl argv1) []
      in if nflag then out else snd (put w [NL] out))"

text \<open>What \<open>rm\<close> does: the usage, or the removals with their results, of which the failed ones are reported.\<close>

datatype rm_act = Usage | Removed chars | Failed chars int

definition rm_main :: "(chars \<Rightarrow> int) \<Rightarrow> chars list \<Rightarrow> rm_act list" where
  "rm_main rm argv =
     (if length argv = 1 then [Usage]
      else map (\<lambda>a. let r = rm a in if r < 0 then Failed a r else Removed a) (tl argv))"

section \<open>ls\<close>

record lsflags =
  flag_d :: bool
  flag_F :: bool
  flag_l :: bool

definition ls1 :: "writer \<Rightarrow> lsflags \<Rightarrow> chars option \<Rightarrow> bool \<Rightarrow> u32 \<Rightarrow> chars \<Rightarrow> chars \<Rightarrow> chars" where
  "ls1 w fl prefix isdir fsize name out =
     (let out1 = (if flag_l fl then fput w (pad_int 11 fsize @ [BLANK, if isdir then 100 else MINUS, BLANK]) out else out);
          out2 = (case prefix of
                    None \<Rightarrow> out1
                  | Some p \<Rightarrow> fput w (p @ (if p \<noteq> [] \<and> List.last p \<noteq> SLASH then [SLASH] else [])) out1);
          out3 = fput w name out2;
          out4 = (if flag_F fl \<and> isdir then fput w [SLASH] out3 else out3)
      in fput w [NL] out4)"

text \<open>An entry of a directory, or the count of a short or failed read.\<close>

record dirent =
  de_name :: chars
  de_isdir :: bool
  de_size :: u32

fun lsdir :: "writer \<Rightarrow> lsflags \<Rightarrow> chars \<Rightarrow> (int + dirent) list \<Rightarrow> chars \<Rightarrow> run" where
  "lsdir w fl prefix [] out = Done out"
| "lsdir w fl prefix (Inl n # rs) out = (if n = 0 then Done out else Panic out)"
| "lsdir w fl prefix (Inr f # rs) out =
     lsdir w fl prefix rs (if de_name f \<noteq> [] then ls1 w fl (Some prefix) (de_isdir f) (de_size f) (de_name f) out else out)"

record lsworld =
  ls_stat :: "chars \<Rightarrow> int + (bool \<times> u32)"
  ls_open :: "chars \<Rightarrow> int + (int + dirent) list"

definition ls :: "writer \<Rightarrow> lsworld \<Rightarrow> lsflags \<Rightarrow> chars \<Rightarrow> chars \<Rightarrow> chars \<Rightarrow> run" where
  "ls w e fl path prefix out =
     (case ls_stat e path of
        Inl err \<Rightarrow> Panic out
      | Inr (isdir, fsize) \<Rightarrow>
          if isdir \<and> \<not> flag_d fl then
            (case ls_open e path of Inl err \<Rightarrow> Panic out | Inr rs \<Rightarrow> lsdir w fl prefix rs out)
          else Done (ls1 w fl None isdir fsize path out))"

text \<open>The arguments are those behind the options.\<close>

fun ls_args :: "writer \<Rightarrow> lsworld \<Rightarrow> lsflags \<Rightarrow> chars list \<Rightarrow> chars \<Rightarrow> run" where
  "ls_args w e fl [] out = Done out"
| "ls_args w e fl (a # as) out =
     (case ls w e fl a a out of Panic out1 \<Rightarrow> Panic out1 | Done out1 \<Rightarrow> ls_args w e fl as out1)"

definition ls_main :: "writer \<Rightarrow> lsworld \<Rightarrow> lsflags \<Rightarrow> chars list \<Rightarrow> run" where
  "ls_main w e fl args = (if args = [] then ls w e fl [SLASH] [] [] else ls_args w e fl args [])"

section \<open>What the filters write\<close>

lemma cat_copies:
  assumes "takes_all w" "list_all (\<lambda>bs. bs \<noteq> []) bss"
  shows "cat w (map Inr bss @ Inr [] # rs) out = Done (out @ concat bss)"
  using assms(2) by (induction bss arbitrary: out) (simp_all add: assms(1))

lemma echo_words:
  assumes "takes_all w"
  shows "echo_args w True as out = out @ concat (map (\<lambda>a. BLANK # a) as)"
  by (induction as arbitrary: out) (simp_all add: assms)

lemma echo_line:
  assumes "takes_all w" "argv ! 1 \<noteq> [MINUS, 110]" "argv = name # a # as"
  shows "echo_main w argv = a @ concat (map (\<lambda>a. BLANK # a) as) @ [NL]"
  using assms by (simp add: echo_main_def echo_words Let_def)

text \<open>A number of at most \<open>k\<close> digits.\<close>

lemma dec_length: "n < 10 ^ k \<Longrightarrow> 0 < k \<Longrightarrow> length (dec n) \<le> k"
proof (induction k arbitrary: n)
  case (Suc k)
  show ?case
  proof (cases "n < 10")
    case True
    then show ?thesis by (simp add: dec.simps [of n])
  next
    case False
    then have "k \<noteq> 0" using Suc.prems(1) by (cases k) auto
    moreover have "n div 10 < 10 ^ k" using Suc.prems(1) by (simp add: less_mult_imp_div_less mult.commute)
    ultimately show ?thesis using Suc.IH [of "n div 10"] False by (simp add: dec.simps [of n])
  qed
qed simp

lemma pad_int_length: "length (pad_int width i) \<le> max width 10 + 1"
proof -
  have r: "- (2 ^ 31) \<le> sint i" "sint i < 2 ^ 31" using sint_ge [of i] sint_lt [of i] by simp_all
  have "length (dec n) \<le> 10" if "n \<le> 2 ^ 31" for n using dec_length [of n 10] that by simp
  then have "length (pad_dec width n) \<le> max width 10" if "n \<le> 2 ^ 31" for n
    using that by (fastforce simp: pad_dec_def)
  from this [of "nat (sint i)"] this [of "nat (- sint i)"] r show ?thesis by (auto simp: pad_int_def intro: le_SucI)
qed

text \<open>The lines of a text, each with its newline.\<close>

fun split_lines :: "chars \<Rightarrow> chars list" where
  "split_lines [] = []"
| "split_lines (c # cs) =
     (if c = NL then [c] # split_lines cs
      else case split_lines cs of [] \<Rightarrow> [[c]] | l # rest \<Rightarrow> (c # l) # rest)"

definition numbered :: "nat \<Rightarrow> chars list \<Rightarrow> chars" where
  "numbered k rows = concat (map (\<lambda>(i, l). pad_int 5 (of_nat i) @ [BLANK] @ l) (enumerate k rows))"

lemma split_lines_concat: "concat (split_lines cs) = cs"
  by (induction cs) (auto split: list.splits)

lemma num_step:
  assumes w: "takes_all w" and k: "num_line s = of_nat k"
  shows "\<exists>s'. num w (map (\<lambda>c. Inr [c]) cs @ Inr [] # rs) s = (True, s')
    \<and> num_out s' = num_out s @ (if bol s then numbered (Suc k) (split_lines cs)
        else case split_lines cs of [] \<Rightarrow> [] | l # rest \<Rightarrow> l @ numbered (Suc k) rest)"
  using k
proof (induction cs arbitrary: s k)
  case Nil
  then show ?case by (simp add: numbered_def)
next
  case (Cons c cs)
  have f: "take 255 (pad_int 5 (num_line s + 1) @ [BLANK]) = pad_int 5 (num_line s + 1) @ [BLANK]"
    using pad_int_length [of 5 "num_line s + 1"] by simp
  let ?s1 = "if bol s then s\<lparr>num_line := num_line s + 1, num_out := num_out s @ pad_int 5 (num_line s + 1) @ [BLANK], bol := False\<rparr> else s"
  let ?k1 = "if bol s then Suc k else k"
  let ?s2 = "?s1\<lparr>num_out := num_out ?s1 @ [c]\<rparr>"
  let ?s3 = "if c = NL then ?s2\<lparr>bol := True\<rparr> else ?s2"
  have st: "num w (map (\<lambda>c. Inr [c]) (c # cs) @ Inr [] # rs) s = num w (map (\<lambda>c. Inr [c]) cs @ Inr [] # rs) ?s3"
    using f by (simp add: w Let_def)
  have k3: "num_line ?s3 = of_nat ?k1" using Cons.prems by (simp add: add.commute)
  obtain s' where s': "num w (map (\<lambda>c. Inr [c]) cs @ Inr [] # rs) ?s3 = (True, s')"
    "num_out s' = num_out ?s3 @ (if bol ?s3 then numbered (Suc ?k1) (split_lines cs)
        else case split_lines cs of [] \<Rightarrow> [] | l # rest \<Rightarrow> l @ numbered (Suc ?k1) rest)"
    using Cons.IH [OF k3] by blast
  have e: "pad_int 5 (num_line s + 1) = pad_int 5 (of_nat (Suc k))" using Cons.prems by (simp add: add.commute)
  have b: "bol ?s3 = (c = NL)" if "bol s \<or> c = NL" using that by auto
  show ?case
  proof (intro exI [of _ s'] conjI)
    show "num w (map (\<lambda>c. Inr [c]) (c # cs) @ Inr [] # rs) s = (True, s')" unfolding st by (rule s'(1))
    show "num_out s' = num_out s @ (if bol s then numbered (Suc k) (split_lines (c # cs))
        else case split_lines (c # cs) of [] \<Rightarrow> [] | l # rest \<Rightarrow> l @ numbered (Suc k) rest)"
      unfolding s'(2) using e by (auto simp: numbered_def split: list.splits)
  qed
qed

text \<open>\<open>num\<close> puts before each line its number, in five columns.\<close>

lemma num_numbers_lines:
  assumes "takes_all w"
  shows "num_main w fopen (map (\<lambda>c. Inr [c]) cs @ [Inr []]) [name] = Done (numbered 1 (split_lines cs))"
  using num_step [OF assms, of "\<lparr>bol = True, num_line = 0, num_out = []\<rparr>" 0 cs "[]"]
  by (auto simp: num_main_def)

text \<open>\<open>ls\<close> of a directory without options: a line for each entry that is in use.\<close>

lemma ls_names:
  assumes w: "takes_all w" and d: "list_all (\<lambda>f. length (de_name f) < 256) fs" "length p + 1 < 256"
  shows "lsdir w \<lparr>flag_d = x, flag_F = False, flag_l = False\<rparr> p (map Inr fs @ [Inl 0]) out
    = Done (out @ concat (map (\<lambda>f. p @ (if p \<noteq> [] \<and> List.last p \<noteq> SLASH then [SLASH] else []) @ de_name f @ [NL])
        (filter (\<lambda>f. de_name f \<noteq> []) fs)))"
  using d(1) by (induction fs arbitrary: out) (use d(2) in \<open>auto simp: ls1_def w Let_def\<close>)

end
