(* ===== verification/Bintoc.thy ===== *)
theory Bintoc
  imports Filters
begin

text \<open>
  The tools of \<open>tools/bintoc\<close>, which print a binary as an array of C for the build. The binary is its
  bytes; \<open>None\<close> is a store behind one of the buffers of 80 bytes for the names.
\<close>

section \<open>The code\<close>

definition ascii :: "string \<Rightarrow> chars" where "ascii s = map of_char s"

definition LINELEN :: nat where "LINELEN = 80"

definition hex_digit :: "nat \<Rightarrow> u8" where
  "hex_digit n = of_nat (if n < 10 then 48 + n else 87 + n)"

text \<open>\<open>%x\<close> of a byte.\<close>

definition hex :: "u8 \<Rightarrow> chars" where
  "hex c = (let n = unat c in if n < 16 then [hex_digit n] else [hex_digit (n div 16), hex_digit (n mod 16)])"

text \<open>The loop: the bytes with a new line after every sixteen; \<open>bcount\<close> is how many there were.\<close>

fun array_bytes :: "nat \<Rightarrow> u8 list \<Rightarrow> chars" where
  "array_bytes bcount [] = []"
| "array_bytes bcount (c # cs) =
     ascii ''0x'' @ hex c @ ascii '', '' @ (if (bcount + 1) mod 16 = 0 then [NL] else []) @ array_bytes (bcount + 1) cs"

definition array_text :: "chars \<Rightarrow> chars \<Rightarrow> u8 list \<Rightarrow> chars" where
  "array_text start len bs =
     ascii ''unsigned char '' @ start @ ascii ''[] = {'' @ [NL] @ array_bytes 0 bs @ ascii ''0x0'' @ [NL] @ ascii ''};'' @ [NL]
     @ ascii ''unsigned int '' @ len @ ascii '' = '' @ dec (length bs) @ ascii '';'' @ [NL]"

definition in_buffer :: "chars \<Rightarrow> bool" where
  "in_buffer name \<longleftrightarrow> length name < LINELEN"

definition bintoc_main :: "chars \<Rightarrow> u8 list \<Rightarrow> chars option" where
  "bintoc_main symbol bs =
     (let start = ascii ''binary_user_'' @ symbol @ ascii ''_start''; endsym = ascii ''binary_user_'' @ symbol @ ascii ''_end'';
          len = ascii ''binary_user_'' @ symbol @ ascii ''_size''
      in if in_buffer start \<and> in_buffer endsym \<and> in_buffer len then Some (array_text start len bs) else None)"

definition fsbintoc_main :: "chars \<Rightarrow> u8 list \<Rightarrow> chars option" where
  "fsbintoc_main symbol bs =
     (let start = ascii ''binary_fs'' @ ascii ''_'' @ symbol @ ascii ''_start''; len = ascii ''binary_fs'' @ ascii ''_'' @ symbol @ ascii ''_size''
      in if in_buffer start \<and> in_buffer len then Some (array_text start len bs) else None)"

definition userbintoc_main :: "chars \<Rightarrow> u8 list \<Rightarrow> chars option" where
  "userbintoc_main symbol bs =
     (let start = ascii ''binary_user'' @ ascii ''_'' @ symbol @ ascii ''_start'';
          len = ascii ''binary_user'' @ ascii ''_'' @ symbol @ ascii ''_size''
      in if in_buffer start \<and> in_buffer len then Some (array_text start len bs) else None)"

section \<open>Reading the array\<close>

text \<open>What a C compiler makes of it: hexadecimal numbers of one or two digits, each before a comma.\<close>

definition digit_of :: "u8 \<Rightarrow> nat" where
  "digit_of d = (if d < 58 then unat d - 48 else unat d - 87)"

fun read_array :: "chars \<Rightarrow> u8 list" where
  "read_array (z # x # a # b # c # r) =
     (if z = NL then read_array (x # a # b # c # r)
      else if b = 44 then of_nat (digit_of a) # read_array r
      else if c = 44 then of_nat (16 * digit_of a + digit_of b) # read_array (tl r)
      else [])"
| "read_array s = []"

lemma digit_of_hex: "n < 16 \<Longrightarrow> digit_of (hex_digit n) = n"
  by (auto simp: digit_of_def hex_digit_def word_less_nat_alt unsigned_of_nat take_bit_nat_eq_self)

lemma hex_digit_not: "n < 16 \<Longrightarrow> hex_digit n \<noteq> 44 \<and> hex_digit n \<noteq> NL"
  by (auto simp: hex_digit_def NL_def word_unat_eq_iff unsigned_of_nat take_bit_nat_eq_self)

lemma ascii_simps [simp]: "ascii [] = []" "ascii (c # cs) = of_char c # ascii cs" "ascii (s @ t) = ascii s @ ascii t"
  "length (ascii s) = length s"
  by (simp_all add: ascii_def)

text \<open>The characters that delimit a number.\<close>

lemma delimiters:
  "of_char (CHR ''0'') = (48 :: u8)" "of_char (CHR '','') = (44 :: u8)" "of_char (CHR ''}'') = (125 :: u8)" "NL = 10"
  by (simp_all add: of_char_def NL_def)

lemma of_nat_unat_hex: "(of_nat (16 * (unat c div 16) + unat c mod 16) :: u8) = c"
  by simp

lemma read_array_byte:
  assumes "4 \<le> length s"
  shows "read_array (ascii ''0x'' @ hex c @ ascii '', '' @ s) = c # read_array s"
proof -
  obtain s1 s2 where s: "s = s1 # s2" using assms by (cases s) auto
  have u: "unat c < 256" by (rule order.strict_trans2 [OF unsigned_less]) simp
  show ?thesis
  proof (cases "unat c < 16")
    case True
    then have h: "hex c = [hex_digit (unat c)]" by (simp add: hex_def)
    show ?thesis unfolding h using digit_of_hex [OF True] hex_digit_not [OF True] by (simp add: s delimiters)
  next
    case False
    have d: "unat c div 16 < 16" "unat c mod 16 < 16" using u by auto
    have h: "hex c = [hex_digit (unat c div 16), hex_digit (unat c mod 16)]" using False by (simp add: hex_def Let_def)
    show ?thesis unfolding h using digit_of_hex [OF d(1)] digit_of_hex [OF d(2)] hex_digit_not [OF d(2)] of_nat_unat_hex [of c]
      by (simp add: s delimiters)
  qed
qed

lemma read_newline: "4 \<le> length s \<Longrightarrow> read_array (NL # s) = read_array s"
  by (cases s rule: read_array.cases) auto

lemma array_bytes_read:
  assumes "4 \<le> length s"
  shows "read_array (array_bytes k bs @ s) = bs @ read_array s"
proof (induction bs arbitrary: k)
  case (Cons c cs)
  let ?t = "array_bytes (k + 1) cs @ s"
  have t: "4 \<le> length ?t" using assms by simp
  have "read_array ((if (k + 1) mod 16 = 0 then [NL] else []) @ ?t) = read_array ?t" using read_newline [OF t] by simp
  moreover have "4 \<le> length ((if (k + 1) mod 16 = 0 then [NL] else []) @ ?t)" using t by simp
  ultimately show ?case using read_array_byte [of _ c] Cons by (simp del: ascii_simps)
qed simp

text \<open>
  The array that the three tools print reads back as the binary: behind the name of the array the
  numbers are its bytes, and a 0 follows them.
\<close>

lemma array_text_reads:
  "read_array (drop (length start + 21) (array_text start len bs)) = bs"
proof -
  let ?trail = "ascii ''0x0'' @ [NL] @ ascii ''};'' @ [NL] @ ascii ''unsigned int '' @ len @ ascii '' = '' @ dec (length bs) @ ascii '';'' @ [NL]"
  have d: "drop (length start + 21) (array_text start len bs) = array_bytes 0 bs @ ?trail"
  proof -
    let ?p = "ascii ''unsigned char '' @ start @ ascii ''[] = {'' @ [NL]"
    have "array_text start len bs = ?p @ array_bytes 0 bs @ ?trail" by (simp only: array_text_def append_assoc)
    moreover have "length ?p = length start + 21" by simp
    ultimately show ?thesis by (metis append_eq_conv_conj)
  qed
  have "read_array ?trail = []" by (simp add: delimiters)
  moreover have "4 \<le> length ?trail" by simp
  ultimately show ?thesis unfolding d using array_bytes_read [of ?trail 0 bs] by simp
qed

lemma bintoc_reads_back:
  "bintoc_main symbol bs = Some t \<Longrightarrow> read_array (drop (length symbol + 39) t) = bs"
  "fsbintoc_main symbol bs = Some t \<Longrightarrow> read_array (drop (length symbol + 37) t) = bs"
  "userbintoc_main symbol bs = Some t \<Longrightarrow> read_array (drop (length symbol + 39) t) = bs"
proof -
  have r: "read_array (drop n (array_text start len bs)) = bs" if "n = length start + 21" for n start len
    using array_text_reads [of start len bs] that by simp
  show "bintoc_main symbol bs = Some t \<Longrightarrow> read_array (drop (length symbol + 39) t) = bs"
    "fsbintoc_main symbol bs = Some t \<Longrightarrow> read_array (drop (length symbol + 37) t) = bs"
    "userbintoc_main symbol bs = Some t \<Longrightarrow> read_array (drop (length symbol + 39) t) = bs"
    by (auto simp: bintoc_main_def fsbintoc_main_def userbintoc_main_def Let_def simp del: ascii_simps(1-3) split: if_splits intro!: r)
qed

end
