(* ===== verification/Spec2Isabelle.thy ===== *)
theory Spec2Isabelle
  imports Console_Props Serv_Props Printf_Props Fork_Props Pipe_Props File_Props Boot_Props Sh_Props Spawn Mkfs_Props
    Cga_Props Devices Segment Loader Ipc Sieve Bintoc
begin

text \<open>
  A model of the teaching operating system of this repository: an exokernel for the i386
  (\<open>kern/\<close>), a file server that runs as an ordinary environment (\<open>fs/\<close>), the library that the
  programs are linked with and a shell (\<open>user/\<close>), and the tool that builds the image of the disk
  (\<open>fs/fsformat.c\<close>).

  \<^bold>\<open>How the parts interact.\<close> The boot loader puts the kernel at 1 MB; \<open>i386_init\<close> builds the first
  address space, the free list and the table of environments, loads the first programs and starts
  the round robin. From then on the kernel runs only in a trap: a system call, a page fault, a
  device interrupt. System calls hand pages and messages from one environment to another; the file
  server is reached by messages whose page argument is the request, and answers with pages of its
  block cache. The library makes file descriptors, pipes, fork and spawn from these calls alone.

  \<^bold>\<open>Conventions.\<close> The state is passed explicitly. \<open>None\<close> is a stop of the program: a panic, a null
  pointer, an access to memory that is not there, or a run that does not end. An error code is the
  \<open>Inl\<close> of a sum, or, in the library, a negative word. Machine integers are words of their width.
  A \<open>struct Page *\<close> or \<open>struct Env *\<close> is its index in the array, a page directory the number of its
  frame, a pointer into the block cache of the server a block and a word index. Memory is a function
  from addresses to bytes or words. What is not part of the repository is an argument: the linker's
  symbols (\<open>linker\<close>), the answers of the kernel to a user program (\<open>kern\<close> in \<open>Umach\<close>, \<open>answers\<close> in
  \<open>Sh\<close>), the files of the host for the image builder (\<open>reader\<close>).

  \<^bold>\<open>The kernel.\<close>
  \<^item> \<open>Prelude\<close>: error codes (\<open>inc/error.h\<close>), integer types, folds that may fail, searches in lists.
  \<^item> \<open>Mmu\<close>: the layout and the formats of \<open>inc/mmu.h\<close> and \<open>inc/pmap.h\<close>. \<open>Queue\<close>: the \<open>LIST\<close>
    macros of \<open>inc/queue.h\<close> with an abstraction to HOL lists. \<open>Kstate\<close>: the kernel's variables as the
    record \<open>kstate\<close>.
  \<^item> \<open>Pmap\<close>: \<open>kern/pmap.c\<close> at run time (pages, page tables). \<open>Vm\<close>, \<open>Vm_Ops\<close>, \<open>Vm_Dirs\<close>: the invariant
    \<open>vm_inv\<close> (the reference count of a page is at least the number of its uses, free pages are not in
    use and have count 0, tables are not shared) and what every operation does on every branch. The
    exact accounting is in the results on the operations: \<open>released\<close> and \<open>replaced\<close> say which counts
    change, by how much, which page becomes free and which translation is dropped, and \<open>all_given_back\<close>
    in \<open>Env_Life\<close> says it for a whole environment.
  \<^item> \<open>Env\<close>, \<open>Env_Inv\<close>, \<open>Env_Life\<close>: \<open>kern/env.c\<close>; \<open>Sched\<close>: fairness of \<open>kern/sched.c\<close>. \<open>Usermem\<close>:
    accesses of the kernel to user memory; \<open>Syscall\<close>: \<open>kern/syscall.c\<close>; \<open>Trap\<close>: \<open>kern/trap.c\<close>;
    \<open>Kinv_Mem\<close>, \<open>Kernel_Inv\<close>: the invariant \<open>kinv\<close> over all of it; \<open>Fault_Frame\<close>: the frame of a user
    page fault; \<open>Demo\<close>: concrete states; \<open>Kernel_Props\<close>: the properties. The stores of user programs
    in the step relation are to addresses below \<open>UTOP\<close>: the arrays at \<open>UPAGES\<close> and \<open>UENVS\<close> are
    writable for programs by a mistake of the code (see the property on \<open>i386_vm_init\<close>).
  \<^item> \<open>Boot\<close>, \<open>Boot_Vm\<close>, \<open>Boot_Init\<close>, \<open>Boot_Check\<close>, \<open>Boot_Inv\<close>, \<open>Boot_Props\<close>: the start of the kernel
    (\<open>i386_detect_memory\<close>, \<open>i386_vm_init\<close>, \<open>page_init\<close>, \<open>page_check\<close>, \<open>env_init\<close>, the first programs),
    which ends in a state of the invariant.
  \<^item> \<open>Console\<close>, \<open>Console_Props\<close>: the input ring, the keyboard decoder. \<open>Printf\<close>: \<open>kern/printf.c\<close>.
  \<^item> \<open>Kcopy\<close>: \<open>bcopy\<close> and \<open>bzero\<close> of \<open>kern/init.c\<close>. \<open>Ports\<close>: \<open>inb\<close>, \<open>outb\<close>, \<open>insl\<close> of \<open>inc/x86.h\<close> over the
    history of accesses, which a device answers. \<open>Cga\<close>, \<open>Cga_Props\<close>: output to the printer and the screen,
    and the terminal that it implements. \<open>Devices\<close>: \<open>kern/picirq.c\<close> and \<open>kern/kclock.c\<close>. \<open>Segment\<close>: the
    descriptors of \<open>inc/mmu.h\<close> as bits, the table of segments, the task state, the interrupt table, and
    the entry points of \<open>kern/locore.S\<close> behind it: from what the processor pushes to the frame that \<open>trap\<close> gets,
    and the return.
  \<^item> \<open>Loader\<close>: \<open>boot/main.c\<close>, with the disk controller as a state machine over the ports.

  \<^bold>\<open>The file system.\<close>
  \<^item> \<open>Fs\<close>, \<open>Fs_File\<close>: \<open>fs/fs.c\<close> and \<open>fs/ide.c\<close>. \<open>Fs_Disk\<close> (block cache), \<open>Pool\<close> (an allocator as a
    locale, interpreted by the bitmap in \<open>Fs_Bitmap\<close>), \<open>Fs_Map\<close> (block map of a file), \<open>Fs_Path\<close>,
    \<open>Fs_Dir\<close>, \<open>Fs_Demo\<close>, \<open>Fs_Props\<close>. \<open>Serv\<close>, \<open>Serv_Props\<close>: \<open>fs/serv.c\<close> with its table of open files.
  \<^item> \<open>Mkfs\<close>: \<open>fs/fsformat.c\<close>. \<open>Mkfs_Cache\<close> abstracts its cache of sixteen buffers to the view of the
    image; \<open>Mkfs_File\<close> and \<open>Mkfs_Write\<close> are the loop over the blocks of one file, \<open>Mkfs_Dir\<close> the choice
    of the entry, \<open>Mkfs_Image\<close> one file added to the others, \<open>Mkfs_Props\<close> the whole run.

  \<^bold>\<open>The programs.\<close>
  \<^item> \<open>Bytes\<close>, \<open>Ustring\<close>: \<open>user/string.c\<close>. \<open>Uprintf\<close>: \<open>user/printf.c\<close>; \<open>Printf_Num\<close>, \<open>Printf_Run\<close>,
    \<open>Printf_Props\<close>: both formatters.
  \<^item> \<open>Umach\<close>: page tables and memory of a program. \<open>Fork\<close>, \<open>Fork_Lemmas\<close>, \<open>Fork_Props\<close>: copy on write
    \<open>fork\<close>. \<open>Ufd\<close>, \<open>Ufile\<close>, \<open>File_Props\<close>: descriptors, devices, files over requests to the server.
    \<open>Pipe\<close>, \<open>Pipe_Props\<close>: pipes as steps of any number of environments, one
    access of the shared page or of a reference count each, preempted between any two of them. \<open>Spawn\<close>: \<open>user/spawn.c\<close>.
  \<^item> \<open>Stubs\<close>: \<open>user/syscall.c\<close> over the trap of the kernel. \<open>Ipc\<close>: \<open>user/ipc.c\<close>, \<open>user/wait.c\<close> and the start
    of a program over the stubs, with what the other programs do in between as an argument.
  \<^item> \<open>Sieve\<close>: \<open>user/primes.c\<close> as processes that exchange messages. \<open>Filters\<close>: \<open>cat\<close>, \<open>help\<close>, \<open>num\<close>, \<open>echo\<close>, \<open>rm\<close>
    and \<open>ls\<close>. \<open>Bintoc\<close>: the tools of \<open>tools/bintoc\<close>.
  \<^item> \<open>Sh\<close>, \<open>Sh_Lemmas\<close>, \<open>Sh_Props\<close>: the shell.

  \<^bold>\<open>Interfaces.\<close> \<open>pool\<close> in \<open>Pool\<close> is an allocator with a set of what is free; the page allocator of the
  kernel and the block bitmap of the file server are its two interpretations. \<open>linked_list\<close> in \<open>Queue\<close>
  is what the clients of the \<open>LIST\<close> macros use. \<open>putc_inv\<close> in \<open>Printf_Num\<close> is an invariant of the
  character sink of a formatter, interpreted by the bounded buffer of \<open>vsnprintf\<close>.

  \<^bold>\<open>What the lemmas show.\<close>
  \<^item> The kernel: every store of a program, and every trap that satisfies \<open>safe_trap\<close>, keeps the
    invariant \<open>kinv\<close>, so that no program maps a page directory, a page table or a free page.
    \<open>safe_trap\<close> is what the kernel would have to check and does not: permission bits within the low
    twelve, a mapped source of a page that is shared, an exception stack of the program. Each operation on pages and
    tables is a map update of the abstract address space (\<open>vm_lookup\<close>), or reports an error and changes
    nothing but the tables; the scheduler is fair; the start of the machine establishes the invariant.
  \<^item> The devices: the ring of the console is a bounded queue, the screen a terminal, the two controllers
    and the timer end in the state that the code describes, the selectors decode to flat
    segments and the task state, every vector that has a gate reaches \<open>trap\<close> with its own number and
    returns to the program that it interrupted (two exceptions apart), the loader puts the image of the kernel in its place.
  \<^item> The file system: the bitmap never gives a block twice, the block map is a function from the blocks
    of a file to blocks of the disk, what is written comes back, paths are their components; requests
    name open files by ids that are not used again; an image that \<open>fsformat\<close> builds holds the bytes
    of its files.
  \<^item> The library: a number that is printed reads back, \<open>vsnprintf\<close> stays in its buffer, after \<open>fork\<close>
    neither parent nor child sees what the other stores below the top of the stack outside of library
    pages, a pipe is a queue while at most one read and one write are under way and the position is
    stored after the byte, its end is seen rightly while nobody forks (the lemmas that follow show what
    goes wrong otherwise), a stub reaches its handler, a message arrives, the shell runs the commands of its line.

  \<^bold>\<open>Bounds and fuel.\<close> Loops that may run forever are \<open>partial_function (option)\<close>, and where a
  property says what they give it says that they give it; no loop has fuel. Three counters are the
  code's own: the 12800 rounds of the wait for the printer (\<open>lpt_wait\<close>),
  the bytes that are left in \<open>numbuf\<close> for the digits of a number, beyond which the code stores outside
  of it, and the sectors of a transfer. Sizes are
  those of the code: 1024 environments, 32 bytes in a pipe, sixteen buffers in \<open>fsformat\<close>, and its
  160 files, which fill the ten direct blocks of the root directory.

  \<^bold>\<open>Not modelled.\<close>
  \<^item> \<open>boot/boot.S\<close>, the start of the kernel in \<open>kern/locore.S\<close>, \<open>user/entry.S\<close> and the inline assembly of
    \<open>inc/x86.h\<close> apart from the port accesses: they have no C semantics. What they do is in the
    definitions that rely on it (the stack of a page fault, the control registers).
  \<^item> The \<open>TAILQ\<close> and \<open>CIRCLEQ\<close> macros of \<open>inc/queue.h\<close>: no code of the repository uses them.
  \<^item> The programs \<open>init\<close>, \<open>idle\<close>, \<open>icode\<close>, \<open>lsfd\<close>, \<open>pingpong\<close>, \<open>primespipe\<close> and \<open>writemotd\<close> under \<open>user/\<close> and the test
    programs there and in \<open>fs/test.c\<close>: clients of the library that keep no state of the system.
  \<^item> The messages in the middle of \<open>i386_init\<close>, the shell's messages of \<open>-d\<close>, \<open>backtrace\<close>, and the
    functions that only panic.
\<close>

end
